(* ===== verification/Prelude.thy ===== *)
theory Prelude
  imports Main "HOL-Library.Word"
begin

text \<open>
  Shared vocabulary of the development: the Rust integer types as words, the saturating and
  checked operations of the Rust standard library, results as sums, and the string functions
  the crates use (decimal printing and parsing, zero padding, splitting, trimming).

  A Rust string is its UTF-8 byte sequence, a \<^typ>\<open>string\<close> whose characters are bytes.
\<close>

type_synonym u8 = "8 word"
type_synonym u16 = "16 word"
type_synonym u32 = "32 word"
type_synonym u64 = "64 word"

type_synonym ('e, 'a) result = "'e + 'a"

abbreviation Err :: "'e \<Rightarrow> ('e, 'a) result" where
  "Err \<equiv> Inl"

abbreviation Ok :: "'a \<Rightarrow> ('e, 'a) result" where
  "Ok \<equiv> Inr"

text \<open>The \<open>?\<close> operator on a stateful fallible computation: an error returns at once.\<close>

definition and_then :: "('e, 'a) result \<times> 's \<Rightarrow> ('a \<Rightarrow> 's \<Rightarrow> ('e, 'b) result \<times> 's) \<Rightarrow> ('e, 'b) result \<times> 's"
  where
  "and_then m f = (case m of (Inl e, s) \<Rightarrow> (Inl e, s) | (Inr x, s) \<Rightarrow> f x s)"

lemma and_then_simps [simp]:
  "and_then (Inl e, s) f = (Inl e, s)" "and_then (Inr x, s) f = f x s"
  by (simp_all add: and_then_def)

lemma and_then_OkE:
  assumes "and_then m f = (Inr y, s')"
  obtains x s where "m = (Inr x, s)" "f x s = (Inr y, s')"
  using assms by (auto simp: and_then_def split: prod.splits sum.splits)

lemma and_then_ErrE:
  assumes "and_then m f = (Inl e, s')"
  obtains (first) "m = (Inl e, s')" | (rest) x s where "m = (Inr x, s)" "f x s = (Inl e, s')"
  using assms by (auto simp: and_then_def split: prod.splits sum.splits)

lemma map_sum_eq_Inr: "map_sum f g x = Inr y \<longleftrightarrow> (\<exists>z. x = Inr z \<and> y = g z)"
  by (cases x) auto

named_theorems rust_arith \<open>the value of saturating and checked word operations\<close>
named_theorems model_defs \<open>constants and one-step definitions unfolded in proofs\<close>

section \<open>Integer operations of the standard library\<close>

definition saturating_add :: "'a::len word \<Rightarrow> 'a word \<Rightarrow> 'a word" where
  "saturating_add a b = (if unat a + unat b < 2 ^ LENGTH('a) then a + b else - 1)"

definition saturating_sub :: "'a::len word \<Rightarrow> 'a word \<Rightarrow> 'a word" where
  "saturating_sub a b = (if b \<le> a then a - b else 0)"

definition saturating_mul :: "'a::len word \<Rightarrow> 'a word \<Rightarrow> 'a word" where
  "saturating_mul a b = (if unat a * unat b < 2 ^ LENGTH('a) then a * b else - 1)"

definition checked_add :: "'a::len word \<Rightarrow> 'a word \<Rightarrow> 'a word option" where
  "checked_add a b = (if unat a + unat b < 2 ^ LENGTH('a) then Some (a + b) else None)"

definition checked_mul :: "'a::len word \<Rightarrow> 'a word \<Rightarrow> 'a word option" where
  "checked_mul a b = (if unat a * unat b < 2 ^ LENGTH('a) then Some (a * b) else None)"

definition abs_diff :: "'a::len word \<Rightarrow> 'a word \<Rightarrow> 'a word" where
  "abs_diff a b = (if a < b then b - a else a - b)"

text \<open>Division of signed integers truncates towards zero in Rust.\<close>

definition trunc_div :: "int \<Rightarrow> int \<Rightarrow> int" where
  "trunc_div a b = sgn a * sgn b * (\<bar>a\<bar> div \<bar>b\<bar>)"

definition trunc_rem :: "int \<Rightarrow> int \<Rightarrow> int" where
  "trunc_rem a b = a - b * trunc_div a b"

definition clamp :: "'a::linorder \<Rightarrow> 'a \<Rightarrow> 'a \<Rightarrow> 'a" where
  "clamp x lo hi = (if x < lo then lo else if hi < x then hi else x)"

section \<open>Decimal text\<close>

definition digit_char :: "nat \<Rightarrow> char" where
  "digit_char d = char_of (48 + d)"

definition is_digit :: "char \<Rightarrow> bool" where
  "is_digit c = (48 \<le> (of_char c :: nat) \<and> (of_char c :: nat) \<le> 57)"

definition digit_val :: "char \<Rightarrow> nat" where
  "digit_val c = of_char c - 48"

fun dec :: "nat \<Rightarrow> string" where
  "dec n = (if n < 10 then [digit_char n] else dec (n div 10) @ [digit_char (n mod 10)])"

declare dec.simps [simp del]

text \<open>The lower case of ASCII text; the other characters stay as they are.\<close>

definition ascii_lower_char :: "char \<Rightarrow> char" where
  "ascii_lower_char c =
     (if 0x41 \<le> (of_char c :: nat) \<and> (of_char c :: nat) \<le> 0x5A then char_of (of_char c + 32 :: nat) else c)"

definition to_ascii_lowercase :: "string \<Rightarrow> string" where
  "to_ascii_lowercase s = map ascii_lower_char s"

text \<open>The fill of a \<open>{:04}\<close> format: zeros on the left up to the width.\<close>

definition pad0 :: "nat \<Rightarrow> string \<Rightarrow> string" where
  "pad0 w s = replicate (w - length s) (CHR ''0'') @ s"

fun parse_acc :: "nat \<Rightarrow> nat \<Rightarrow> string \<Rightarrow> nat option" where
  "parse_acc bound acc [] = Some acc"
| "parse_acc bound acc (c # cs) =
     (if is_digit c \<and> acc * 10 + digit_val c \<le> bound
      then parse_acc bound (acc * 10 + digit_val c) cs else None)"

text \<open>
  \<open>str::parse\<close> for an unsigned type with the given maximum: an optional plus sign, then at
  least one digit, with overflow rejected.
\<close>

definition parse_unsigned :: "nat \<Rightarrow> string \<Rightarrow> nat option" where
  "parse_unsigned bound s =
     (case s of
        [] \<Rightarrow> None
      | c # cs \<Rightarrow>
          if c = CHR ''+'' then (if cs = [] then None else parse_acc bound 0 cs)
          else parse_acc bound 0 (c # cs))"

section \<open>Splitting and trimming\<close>

text \<open>
  \<open>char::is_whitespace\<close> (the Unicode \<open>White_Space\<close> property), each code point as its
  UTF-8 encoding.
\<close>

definition whitespace_encodings :: "string list" where
  "whitespace_encodings = [
    [CHR 0x09], [CHR 0x0A], [CHR 0x0B], [CHR 0x0C], [CHR 0x0D], [CHR 0x20],
    [CHR 0xC2, CHR 0x85], [CHR 0xC2, CHR 0xA0], [CHR 0xE1, CHR 0x9A, CHR 0x80],
    [CHR 0xE2, CHR 0x80, CHR 0x80], [CHR 0xE2, CHR 0x80, CHR 0x81],
    [CHR 0xE2, CHR 0x80, CHR 0x82], [CHR 0xE2, CHR 0x80, CHR 0x83],
    [CHR 0xE2, CHR 0x80, CHR 0x84], [CHR 0xE2, CHR 0x80, CHR 0x85],
    [CHR 0xE2, CHR 0x80, CHR 0x86], [CHR 0xE2, CHR 0x80, CHR 0x87],
    [CHR 0xE2, CHR 0x80, CHR 0x88], [CHR 0xE2, CHR 0x80, CHR 0x89],
    [CHR 0xE2, CHR 0x80, CHR 0x8A], [CHR 0xE2, CHR 0x80, CHR 0xA8],
    [CHR 0xE2, CHR 0x80, CHR 0xA9], [CHR 0xE2, CHR 0x80, CHR 0xAF],
    [CHR 0xE2, CHR 0x81, CHR 0x9F], [CHR 0xE3, CHR 0x80, CHR 0x80]]"

fun strip_prefix :: "'a list \<Rightarrow> 'a list \<Rightarrow> 'a list option" where
  "strip_prefix [] s = Some s"
| "strip_prefix (p # ps) [] = None"
| "strip_prefix (p # ps) (c # cs) = (if p = c then strip_prefix ps cs else None)"

definition strip_suffix :: "'a list \<Rightarrow> 'a list \<Rightarrow> 'a list option" where
  "strip_suffix p s = map_option rev (strip_prefix (rev p) (rev s))"

text \<open>Strip one of the given prefixes, the first that matches.\<close>

fun strip_any :: "'a list list \<Rightarrow> 'a list \<Rightarrow> 'a list option" where
  "strip_any [] s = None"
| "strip_any (p # ps) s = (case strip_prefix p s of Some r \<Rightarrow> Some r | None \<Rightarrow> strip_any ps s)"

lemma strip_prefix_Some: "strip_prefix p s = Some r \<longleftrightarrow> s = p @ r"
  by (induction p s rule: strip_prefix.induct) auto

lemma strip_suffix_Some: "strip_suffix p s = Some r \<longleftrightarrow> s = r @ p"
  by (auto simp: strip_suffix_def strip_prefix_Some) (metis rev_append rev_rev_ident)

lemma strip_any_shrinks: "strip_any ps s = Some r \<Longrightarrow> [] \<notin> set ps \<Longrightarrow> length r < length s"
  by (induction ps) (auto simp: strip_prefix_Some split: option.splits)

lemma strip_any_None: "strip_any ps s = None \<longleftrightarrow> (\<forall>p\<in>set ps. \<forall>r. s \<noteq> p @ r)"
  by (induction ps) (auto simp: strip_prefix_Some split: option.splits, metis not_None_eq strip_prefix_Some)

lemma whitespace_encodings_nonempty: "[] \<notin> set whitespace_encodings"
  by (auto simp: whitespace_encodings_def)

function trim_front :: "string list \<Rightarrow> string \<Rightarrow> string" where
  "trim_front ps s =
     (case strip_any ps s of
        None \<Rightarrow> s
      | Some r \<Rightarrow> if length r < length s then trim_front ps r else s)"
  by pat_completeness auto
termination by (relation "measure (length \<circ> snd)") auto

declare trim_front.simps [simp del]

definition trim_start :: "string \<Rightarrow> string" where
  "trim_start s = trim_front whitespace_encodings s"

definition trim_end :: "string \<Rightarrow> string" where
  "trim_end s = rev (trim_front (map rev whitespace_encodings) (rev s))"

definition trim :: "string \<Rightarrow> string" where
  "trim s = trim_end (trim_start s)"

text \<open>\<open>str::split\<close> on one byte: always at least one piece.\<close>

fun split_on :: "'a \<Rightarrow> 'a list \<Rightarrow> 'a list list" where
  "split_on d [] = [[]]"
| "split_on d (c # cs) =
     (if c = d then [] # split_on d cs
      else case split_on d cs of [] \<Rightarrow> [[c]] | p # ps \<Rightarrow> (c # p) # ps)"

fun split_once :: "'a \<Rightarrow> 'a list \<Rightarrow> ('a list \<times> 'a list) option" where
  "split_once d [] = None"
| "split_once d (c # cs) =
     (if c = d then Some ([], cs)
      else case split_once d cs of None \<Rightarrow> None | Some (a, b) \<Rightarrow> Some (c # a, b))"

text \<open>
  \<open>str::lines\<close>: pieces between line feeds, a last empty piece dropped, one carriage return
  stripped from the end of a line that a line feed ended.
\<close>

definition strip_cr :: "string \<Rightarrow> string" where
  "strip_cr l = (if l \<noteq> [] \<and> last l = CHR 0x0D then butlast l else l)"

definition lines :: "string \<Rightarrow> string list" where
  "lines s = (let ps = split_on (CHR 0x0A) s in
     map strip_cr (butlast ps) @ (if last ps = [] then [] else [last ps]))"

definition newline :: string where
  "newline = [CHR 0x0A]"


section \<open>Facts about words\<close>

lemma unat_lt_power: "unat (a :: 'a::len word) < 2 ^ LENGTH('a)"
  by (rule unsigned_less)

lemma unat_max_word: "unat (- 1 :: 'a::len word) = 2 ^ LENGTH('a) - 1"
  by (simp add: unsigned_minus_1_eq_mask mask_eq_exp_minus_1)

lemma unat_saturating_add [rust_arith]:
  "unat (saturating_add a b :: 'a::len word) = min (unat a + unat b) (2 ^ LENGTH('a) - 1)"
  by (auto simp: saturating_add_def unat_word_ariths unat_max_word min_def)

lemma unat_saturating_sub [rust_arith]: "unat (saturating_sub a b) = unat a - unat b"
  by (simp add: saturating_sub_def unat_sub word_le_nat_alt)

lemma unat_saturating_mul [rust_arith]:
  "unat (saturating_mul a b :: 'a::len word) = min (unat a * unat b) (2 ^ LENGTH('a) - 1)"
proof (cases "unat a * unat b < 2 ^ LENGTH('a)")
  case True
  then show ?thesis by (simp add: saturating_mul_def unat_word_ariths)
next
  case False
  then have "2 ^ LENGTH('a) - 1 \<le> unat a * unat b" by linarith
  then show ?thesis using False by (simp add: saturating_mul_def unat_max_word min_def)
qed

lemma checked_add_Some [rust_arith]:
  "checked_add a b = Some c \<longleftrightarrow> unat (c :: 'a::len word) = unat a + unat b"
  by (auto simp: checked_add_def unat_word_ariths word_unat_eq_iff dest: sym split: if_splits)

lemma unat_abs_diff [rust_arith]:
  "unat (abs_diff a b) = (if unat a < unat b then unat b - unat a else unat a - unat b)"
  by (auto simp: abs_diff_def unat_sub word_less_nat_alt word_le_nat_alt)

lemma abs_diff_self [simp]: "abs_diff a a = 0"
  by (simp add: abs_diff_def)

lemma abs_diff_commute: "abs_diff a b = abs_diff b a"
  by (auto simp: abs_diff_def)

lemma clamp_bounds: "lo \<le> hi \<Longrightarrow> lo \<le> clamp x lo hi \<and> clamp x lo hi \<le> hi"
  by (auto simp: clamp_def)

lemma clamp_id: "lo \<le> x \<Longrightarrow> x \<le> hi \<Longrightarrow> clamp x lo hi = x"
  by (auto simp: clamp_def)

lemma trunc_div_nonneg: "0 \<le> a \<Longrightarrow> 0 < b \<Longrightarrow> trunc_div a b = a div b"
  by (cases "a = 0") (auto simp: trunc_div_def)

lemma trunc_div_neg: "a < 0 \<Longrightarrow> 0 < b \<Longrightarrow> trunc_div a b = - ((- a) div b)"
  by (simp add: trunc_div_def)

lemma trunc_rem_zero_iff: "0 < b \<Longrightarrow> trunc_rem a b = 0 \<longleftrightarrow> b dvd a"
proof -
  assume b: "0 < b"
  show ?thesis
  proof (cases "0 \<le> a")
    case True
    then show ?thesis using b
      by (simp add: trunc_rem_def trunc_div_nonneg minus_mult_div_eq_mod dvd_eq_mod_eq_0)
  next
    case False
    then have "trunc_rem a b = - ((- a) mod b)"
      using b by (simp add: trunc_rem_def trunc_div_neg minus_mult_div_eq_mod [symmetric])
    then show ?thesis by (simp add: dvd_eq_mod_eq_0 [symmetric])
  qed
qed

section \<open>Facts about decimal text\<close>

lemma of_char_digit_char: "d < 10 \<Longrightarrow> of_char (digit_char d) = (48 + d :: nat)"
  by (simp add: digit_char_def)

lemma is_digit_digit_char [simp]: "d < 10 \<Longrightarrow> is_digit (digit_char d)"
  by (simp add: is_digit_def of_char_digit_char)

lemma digit_val_digit_char [simp]: "d < 10 \<Longrightarrow> digit_val (digit_char d) = d"
  by (simp add: digit_val_def of_char_digit_char)

lemma digit_char_inj: "d < 10 \<Longrightarrow> e < 10 \<Longrightarrow> digit_char d = digit_char e \<longleftrightarrow> d = e"
  by (metis digit_val_digit_char)

lemma dec_nonempty [simp]: "dec n \<noteq> []"
  by (subst dec.simps) simp

lemma dec_digits: "\<forall>c\<in>set (dec n). is_digit c"
proof (induction n rule: dec.induct)
  case (1 n)
  then show ?case by (subst dec.simps) auto
qed

lemma is_digit_ascii: "is_digit c \<Longrightarrow> (of_char c :: nat) < 128"
  by (simp add: is_digit_def)

text \<open>The reading of a digit list, most significant digit first.\<close>

definition dec_value :: "string \<Rightarrow> nat" where
  "dec_value s = foldl (\<lambda>acc c. acc * 10 + digit_val c) 0 s"

lemma dec_value_snoc [simp]: "dec_value (s @ [c]) = dec_value s * 10 + digit_val c"
  by (simp add: dec_value_def)

lemma dec_value_dec [simp]: "dec_value (dec n) = n"
proof (induction n rule: dec.induct)
  case (1 n)
  then show ?case
    by (subst dec.simps) (auto simp: dec_value_def)
qed

lemma dec_inj: "dec m = dec n \<longleftrightarrow> m = n"
  by (metis dec_value_dec)

lemma foldl_dec_ge: "acc \<le> foldl (\<lambda>acc c. acc * 10 + digit_val c) acc s"
proof (induction s arbitrary: acc)
  case (Cons c cs)
  have "acc \<le> acc * 10 + digit_val c" by simp
  also have "\<dots> \<le> foldl (\<lambda>acc c. acc * 10 + digit_val c) (acc * 10 + digit_val c) cs"
    by (rule Cons.IH)
  finally show ?case by simp
qed simp

lemma parse_acc_eq:
  "acc \<le> bound \<Longrightarrow> parse_acc bound acc s =
     (if (\<forall>c\<in>set s. is_digit c) \<and> foldl (\<lambda>acc c. acc * 10 + digit_val c) acc s \<le> bound
      then Some (foldl (\<lambda>acc c. acc * 10 + digit_val c) acc s) else None)"
proof (induction s arbitrary: acc)
  case (Cons c cs)
  show ?case
  proof (cases "is_digit c \<and> acc * 10 + digit_val c \<le> bound")
    case True
    then show ?thesis using Cons.IH [of "acc * 10 + digit_val c"] by simp
  next
    case False
    then show ?thesis
      using foldl_dec_ge [of "acc * 10 + digit_val c" cs] by (auto intro: le_trans)
  qed
qed simp

lemma parse_unsigned_digits:
  "s \<noteq> [] \<Longrightarrow> \<forall>c\<in>set s. is_digit c \<Longrightarrow>
   parse_unsigned bound s = (if dec_value s \<le> bound then Some (dec_value s) else None)"
proof (cases s)
  case (Cons c cs)
  moreover assume "\<forall>c\<in>set s. is_digit c"
  ultimately have "c \<noteq> CHR ''+''" and "\<forall>c\<in>set s. is_digit c" by (auto simp: is_digit_def)
  then have "parse_unsigned bound s = parse_acc bound 0 s"
    using Cons by (simp add: parse_unsigned_def del: parse_acc.simps)
  then show ?thesis
    using \<open>\<forall>c\<in>set s. is_digit c\<close> by (simp add: parse_acc_eq dec_value_def)
qed simp

lemma parse_unsigned_dec [simp]:
  "parse_unsigned bound (dec n) = (if n \<le> bound then Some n else None)"
  by (simp add: parse_unsigned_digits dec_digits)

lemma parse_unsigned_le: "parse_unsigned bound s = Some n \<Longrightarrow> n \<le> bound"
  by (auto simp: parse_unsigned_def parse_acc_eq split: list.splits if_splits)

lemma length_dec_pos: "0 < length (dec n)"
  by simp

lemma length_dec_le: "0 < k \<Longrightarrow> length (dec n) \<le> k \<longleftrightarrow> n < 10 ^ k"
proof (induction n arbitrary: k rule: dec.induct)
  case (1 n)
  obtain j where k: "k = Suc j" using 1(2) gr0_implies_Suc by blast
  show ?case
  proof (cases "n < 10")
    case True
    also have "10 \<le> (10 :: nat) ^ k" by (rule self_le_power) (use 1(2) in auto)
    finally have "n < 10 ^ k" .
    then show ?thesis using True k by (subst dec.simps) simp
  next
    case False
    show ?thesis
    proof (cases "j = 0")
      case True
      then show ?thesis using False k length_dec_pos [of "n div 10"]
        by (subst dec.simps) auto
    next
      case j: False
      have "n div 10 < 10 ^ j \<longleftrightarrow> n < 10 ^ Suc j"
        by (simp add: less_mult_imp_div_less div_less_iff_less_mult mult.commute)
      then show ?thesis using 1(1) [OF False] j False k
        by (subst dec.simps) auto
    qed
  qed
qed

lemma length_pad0: "length (pad0 w s) = max w (length s)"
  by (simp add: pad0_def)

lemma pad0_digits: "\<forall>c\<in>set s. is_digit c \<Longrightarrow> \<forall>c\<in>set (pad0 w s). is_digit c"
  by (auto simp: pad0_def is_digit_def)

lemma dec_value_pad0 [simp]: "dec_value (pad0 w s) = dec_value s"
proof -
  have "foldl (\<lambda>acc c. acc * 10 + digit_val c) 0 (replicate k (CHR ''0'')) = 0" for k
    by (induction k) (auto simp: digit_val_def)
  then show ?thesis by (simp add: pad0_def dec_value_def)
qed

lemma pad0_nonempty: "s \<noteq> [] \<Longrightarrow> pad0 w s \<noteq> []"
  by (simp add: pad0_def)

lemma parse_unsigned_pad0_dec [simp]:
  "parse_unsigned bound (pad0 w (dec n)) = (if n \<le> bound then Some n else None)"
  using parse_unsigned_digits [OF pad0_nonempty [OF dec_nonempty] pad0_digits [OF dec_digits], of bound w n]
  by simp

section \<open>Facts about splitting\<close>

lemma split_on_nonempty [simp]: "split_on d s \<noteq> []"
  by (induction s) (auto split: list.splits)

lemma split_on_no_sep: "d \<notin> set s \<Longrightarrow> split_on d s = [s]"
  by (induction s) auto

lemma split_on_append_sep:
  "d \<notin> set a \<Longrightarrow> split_on d (a @ d # b) = a # split_on d b"
  by (induction a) auto

lemma split_on_pieces: "p \<in> set (split_on d s) \<Longrightarrow> d \<notin> set p"
  by (induction s arbitrary: p) (auto split: list.splits if_splits)

lemma split_once_append: "d \<notin> set a \<Longrightarrow> split_once d (a @ d # b) = Some (a, b)"
  by (induction a) auto

lemma split_once_SomeD: "split_once d s = Some (a, b) \<Longrightarrow> s = a @ d # b \<and> d \<notin> set a"
proof (induction s arbitrary: a)
  case (Cons c cs)
  show ?case
  proof (cases "c = d")
    case False
    with Cons.prems obtain a' where "split_once d cs = Some (a', b)" "a = c # a'"
      by (auto split: option.splits)
    with Cons.IH False show ?thesis by auto
  qed (use Cons.prems in auto)
qed simp

lemma split_once_None: "split_once d s = None \<longleftrightarrow> d \<notin> set s"
  by (induction s) (auto split: option.splits)

lemma strip_cr_id: "CHR 0x0D \<notin> set l \<Longrightarrow> strip_cr l = l"
  by (auto simp: strip_cr_def dest: last_in_set)

lemma lines_Nil [simp]: "lines [] = []"
  by (simp add: lines_def)

lemma lines_cons_line:
  "CHR 0x0A \<notin> set l \<Longrightarrow> CHR 0x0D \<notin> set l \<Longrightarrow> lines (l @ CHR 0x0A # rest) = l # lines rest"
  by (simp add: lines_def split_on_append_sep strip_cr_id Let_def)

lemma lines_join:
  "\<forall>l\<in>set ls. CHR 0x0A \<notin> set l \<and> CHR 0x0D \<notin> set l \<Longrightarrow>
   lines (concat (map (\<lambda>l. l @ newline) ls)) = ls"
  by (induction ls) (auto simp: lines_cons_line newline_def)

section \<open>Facts about trimming\<close>

definition plain_char :: "char \<Rightarrow> bool" where
  "plain_char c = (33 \<le> (of_char c :: nat) \<and> (of_char c :: nat) < 128)"

lemma whitespace_encoding_ends:
  "p \<in> set whitespace_encodings \<Longrightarrow> \<not> plain_char (hd p) \<and> \<not> plain_char (last p)"
  by (auto simp: whitespace_encodings_def plain_char_def)

lemma trim_front_plain:
  assumes "\<And>p. p \<in> set ps \<Longrightarrow> p \<noteq> [] \<and> \<not> plain_char (hd p)" and "s = [] \<or> plain_char (hd s)"
  shows "trim_front ps s = s"
proof -
  have "strip_any ps s = None"
    using assms by (auto simp: strip_any_None)
  then show ?thesis by (subst trim_front.simps) simp
qed

lemma trim_plain:
  assumes "s = [] \<or> plain_char (hd s) \<and> plain_char (last s)"
  shows "trim s = s"
proof -
  have start: "trim_start s = s"
    unfolding trim_start_def using assms whitespace_encodings_nonempty whitespace_encoding_ends
    by (intro trim_front_plain) auto
  have "trim_front (map rev whitespace_encodings) (rev s) = rev s"
    using assms whitespace_encodings_nonempty whitespace_encoding_ends
    by (intro trim_front_plain) (auto simp: hd_rev)
  then show ?thesis by (simp add: trim_def trim_end_def start)
qed

lemma plain_digit: "is_digit c \<Longrightarrow> plain_char c"
  by (simp add: is_digit_def plain_char_def)

end
