(* ===== verification/Core.thy ===== *)
theory Core
  imports Prelude
begin

text \<open>
  Model of \<open>crates/tick-core\<close>: the 100-nanosecond time unit and its display, the shared status
  vocabulary, the single-slot intent queue, and the proleptic Gregorian calendar conversion
  that dates log and retention entries.

  An \<open>Hns\<close> is its \<open>u64\<close> count. Durations are natural numbers of nanoseconds. Years and day
  counts, \<open>i64\<close> in the code, are integers: lemma \<open>days_from_civil_fits\<close> shows that every
  intermediate value stays far inside \<open>i64\<close> for years up to ten to the thirteenth.
\<close>

section \<open>Time unit\<close>

type_synonym hns = u64

definition HNS_PER_MILLISECOND :: u64 where
  "HNS_PER_MILLISECOND = 10000"

definition HNS_PER_THOUSANDTH_MILLISECOND :: u64 where
  "HNS_PER_THOUSANDTH_MILLISECOND = HNS_PER_MILLISECOND div 1000"

definition hns_to_duration :: "hns \<Rightarrow> nat" where
  "hns_to_duration h = unat (saturating_mul h 100)"

definition hns_from_duration :: "nat \<Rightarrow> hns" where
  "hns_from_duration nanos = of_nat (min (nanos div 100) (2 ^ 64 - 1))"

definition hns_whole :: "hns \<Rightarrow> u64" where
  "hns_whole h = h div HNS_PER_MILLISECOND"

definition hns_rem :: "hns \<Rightarrow> u64" where
  "hns_rem h = h - hns_whole h * HNS_PER_MILLISECOND"

definition hns_millis_text :: "hns \<Rightarrow> string" where
  "hns_millis_text h = dec (unat (hns_whole h)) @ ''.'' @ pad0 4 (dec (unat (hns_rem h)))"

text \<open>The write into the 32-byte stack buffer: \<^term>\<open>None\<close> is the panic of a full buffer.\<close>

definition write_milliseconds_bytes :: "hns \<Rightarrow> string option" where
  "write_milliseconds_bytes h =
     (if length (hns_millis_text h) \<le> 32 then Some (hns_millis_text h) else None)"

definition format_milliseconds :: "hns \<Rightarrow> string option" where
  "format_milliseconds h = write_milliseconds_bytes h"

definition format_detailed :: "hns \<Rightarrow> string" where
  "format_detailed h = hns_millis_text h @ '' ms ('' @ dec (unat h) @ '' HNS)''"

definition hns_display :: "hns \<Rightarrow> string" where
  "hns_display h = dec (unat h) @ '' HNS''"

section \<open>Vocabulary\<close>

datatype lifecycle = Created | Running | Stopping | Stopped

datatype status =
  Released | Active | Requested | Warning | Blocked | Error | Unknown | Unsupported

datatype desired_intent = Acquire | Release

record desired_intent_queue =
  pending :: "desired_intent option"

definition intent_queue_new :: desired_intent_queue where
  "intent_queue_new = \<lparr>pending = None\<rparr>"

definition intent_request :: "desired_intent \<Rightarrow> desired_intent_queue \<Rightarrow> desired_intent_queue" where
  "intent_request i q = q\<lparr>pending := Some i\<rparr>"

definition intent_take ::
    "desired_intent_queue \<Rightarrow> desired_intent option \<times> desired_intent_queue" where
  "intent_take q = (pending q, q\<lparr>pending := None\<rparr>)"

datatype core_event = EvStart | EvStop | EvPolicyChanged | EvObservationUnavailable

datatype core_error =
  InvalidLifecycleTransition | CoreUnsupported | ObservationFailed (raw_status: u32)

fun core_error_display :: "core_error \<Rightarrow> string" where
  "core_error_display InvalidLifecycleTransition = ''invalid lifecycle transition''"
| "core_error_display CoreUnsupported = ''operation unsupported by this skeleton''"
| "core_error_display (ObservationFailed st) =
     ''power observation failed with status '' @ dec (unat st)"

section \<open>Civil calendar\<close>

definition is_leap_year :: "int \<Rightarrow> bool" where
  "is_leap_year y =
     ((trunc_rem y 4 = 0 \<and> trunc_rem y 100 \<noteq> 0) \<or> trunc_rem y 400 = 0)"

definition days_in_month :: "int \<Rightarrow> nat \<Rightarrow> nat" where
  "days_in_month y m =
     (if m \<in> {1, 3, 5, 7, 8, 10, 12} then 31
      else if m \<in> {4, 6, 9, 11} then 30
      else if m = 2 \<and> is_leap_year y then 29
      else if m = 2 then 28
      else 0)"

definition days_from_civil :: "int \<Rightarrow> nat \<Rightarrow> nat \<Rightarrow> int" where
  "days_from_civil y m0 d0 =
     (let m = clamp m0 1 12;
          d = clamp d0 1 (days_in_month y m);
          adjusted_year = (if m \<le> 2 then y - 1 else y);
          era = trunc_div (if 0 \<le> adjusted_year then adjusted_year else adjusted_year - 399) 400;
          year_of_era = adjusted_year - era * 400;
          shifted_month = int ((m + 9) mod 12);
          day_of_year = trunc_div (153 * shifted_month + 2) 5 + int d - 1;
          day_of_era = year_of_era * 365 + trunc_div year_of_era 4 - trunc_div year_of_era 100
                       + day_of_year
      in era * 146097 + day_of_era - 719468)"

definition try_days_from_civil :: "int \<Rightarrow> nat \<Rightarrow> nat \<Rightarrow> int option" where
  "try_days_from_civil y m d =
     (if \<not> (1 \<le> m \<and> m \<le> 12) then None
      else if d < 1 \<or> days_in_month y m < d then None
      else Some (days_from_civil y m d))"

definition civil_from_days :: "int \<Rightarrow> int \<times> nat \<times> nat" where
  "civil_from_days days =
     (let shifted = days + 719468;
          era = trunc_div (if 0 \<le> shifted then shifted else shifted - 146096) 146097;
          day_of_era = shifted - era * 146097;
          year_of_era = trunc_div (day_of_era - trunc_div day_of_era 1460
                         + trunc_div day_of_era 36524 - trunc_div day_of_era 146096) 365;
          year = year_of_era + era * 400;
          day_of_year = day_of_era - (365 * year_of_era + trunc_div year_of_era 4
                         - trunc_div year_of_era 100);
          shifted_month = trunc_div (5 * day_of_year + 2) 153;
          day = day_of_year - trunc_div (153 * shifted_month + 2) 5 + 1;
          month = (if shifted_month < 10 then shifted_month + 3 else shifted_month - 9)
      in (if month \<le> 2 then year + 1 else year, nat month, nat day))"

definition format_ymd :: "int \<Rightarrow> nat \<Rightarrow> nat \<Rightarrow> string" where
  "format_ymd y m d =
     (if y < 0
      then ''-'' @ pad0 4 (dec (nat \<bar>y\<bar>)) @ ''-'' @ pad0 2 (dec m) @ ''-'' @ pad0 2 (dec d)
      else pad0 4 (dec (nat y)) @ ''-'' @ pad0 2 (dec m) @ ''-'' @ pad0 2 (dec d))"

section \<open>Facts about the time unit\<close>

lemma unat_hns_whole: "unat (hns_whole h) = unat h div 10000"
  by (simp add: hns_whole_def HNS_PER_MILLISECOND_def unat_div)

lemma unat_hns_rem: "unat (hns_rem h) = unat h mod 10000"
proof -
  have "unat (hns_whole h * HNS_PER_MILLISECOND) = unat h div 10000 * 10000"
    using unat_lt_power [of h]
    by (simp add: unat_word_ariths unat_hns_whole HNS_PER_MILLISECOND_def)
  moreover have "unat h div 10000 * 10000 \<le> unat h" by simp
  ultimately show ?thesis
    by (simp add: hns_rem_def unat_sub word_le_nat_alt minus_div_mult_eq_mod)
qed

lemma hns_millis_text_eq:
  "hns_millis_text h = dec (unat h div 10000) @ ''.'' @ pad0 4 (dec (unat h mod 10000))"
  by (simp add: hns_millis_text_def unat_hns_whole unat_hns_rem)

lemma length_millis_text: "length (hns_millis_text h) \<le> 25"
proof -
  have "unat h < 2 ^ 64" using unat_lt_power [of h] by simp
  then have "length (dec (unat h div 10000)) \<le> 20"
    by (subst length_dec_le) auto
  moreover have "length (dec (unat h mod 10000)) \<le> 4"
    by (subst length_dec_le) auto
  ultimately show ?thesis by (simp add: hns_millis_text_eq length_pad0)
qed

lemma hns_duration_round_trip: "unat h * 100 < 2 ^ 64 \<Longrightarrow> hns_from_duration (hns_to_duration h) = h"
  by (simp add: hns_from_duration_def hns_to_duration_def unat_saturating_mul
      min_absorb1 unat_lt_power [of h, simplified] less_imp_le_nat)

section \<open>Facts about the calendar\<close>

lemma leap_iff: "is_leap_year y \<longleftrightarrow> (4 dvd y \<and> \<not> 100 dvd y) \<or> 400 dvd y"
  by (simp add: is_leap_year_def trunc_rem_zero_iff)

text \<open>
  Both conversions work in eras of 400 years counted from 1 March. The flooring trick of the
  code on negative numbers is floor division.
\<close>

lemma era_floor:
  assumes "0 < b" "c = b - 1"
  shows "trunc_div (if 0 \<le> x then x else x - c) b = x div b"
proof (cases "0 \<le> x")
  case False
  have "b * (x div b) + x mod b = x" by simp
  then have "- (x - c) = (b - 1 - x mod b) + (- (x div b)) * b"
    unfolding assms(2) by (simp add: algebra_simps)
  moreover have "0 \<le> b - 1 - x mod b" "b - 1 - x mod b < b"
    using pos_mod_bound [OF assms(1), of x] pos_mod_sign [OF assms(1), of x] by linarith+
  ultimately have "(- (x - c)) div b = - (x div b)"
    using assms(1) by (simp only: div_mult_self1 div_pos_pos_trivial)
  then show ?thesis using False assms by (simp add: trunc_div_neg)
qed (simp add: trunc_div_nonneg assms)

definition year_start :: "int \<Rightarrow> int" where
  "year_start yoe = 365 * yoe + yoe div 4 - yoe div 100"

definition leap_days :: "int \<Rightarrow> int" where
  "leap_days yoe = (if is_leap_year (yoe + 1) then 366 else 365)"

definition year_of_doe :: "int \<Rightarrow> int" where
  "year_of_doe doe = (doe - doe div 1460 + doe div 36524 - doe div 146096) div 365"

definition month_start :: "int \<Rightarrow> int" where
  "month_start mp = (153 * mp + 2) div 5"

definition shifted_length :: "int \<Rightarrow> nat \<Rightarrow> nat" where
  "shifted_length yoe mp = days_in_month (yoe + (if mp < 10 then 0 else 1))
     (if mp < 10 then mp + 3 else mp - 9)"

lemma div_succ: "0 < k \<Longrightarrow> ((n :: int) + 1) div k = n div k + (if k dvd n + 1 then 1 else 0)"
proof -
  assume k: "0 < k"
  show ?thesis
  proof (cases "k dvd n + 1")
    case True
    then obtain c where "n + 1 = k * c" by (elim dvdE)
    then have "n = k * (c - 1) + (k - 1)" by (simp add: algebra_simps)
    then have "n div k = c - 1"
      using k by (metis add_0 div_mult_self2 div_pos_pos_trivial add.commute less_irrefl
          zle_diff1_eq int_one_le_iff_zero_less diff_ge_0_iff_ge order_refl)
    then show ?thesis using \<open>n + 1 = k * c\<close> k True by simp
  next
    case False
    then have "n mod k \<noteq> k - 1"
      by (metis dvd_eq_mod_eq_0 diff_add_cancel mod_add_left_eq mod_self)
    then have "0 \<le> n mod k + 1" "n mod k + 1 < k"
      using pos_mod_bound [OF k, of n] pos_mod_sign [OF k, of n] by linarith+
    moreover have "n + 1 = k * (n div k) + (n mod k + 1)" by simp
    ultimately have "(n + 1) div k = n div k"
      using k by (metis add_0 div_mult_self2 div_pos_pos_trivial add.commute less_irrefl)
    then show ?thesis using False by simp
  qed
qed

lemma year_of_doe_step: "year_of_doe n \<le> year_of_doe (n + 1)"
proof -
  have "146096 dvd n + 1 \<Longrightarrow> 36524 dvd n + 1" by (rule dvd_trans [of _ 146096]) simp
  then have "n - n div 1460 + n div 36524 - n div 146096
      \<le> (n + 1) - (n + 1) div 1460 + (n + 1) div 36524 - (n + 1) div 146096"
    by (auto simp: div_succ)
  then show ?thesis unfolding year_of_doe_def by (intro zdiv_mono1) auto
qed

lemma year_of_doe_mono: "a \<le> b \<Longrightarrow> year_of_doe a \<le> year_of_doe b"
  by (induction b rule: int_ge_induct) (auto intro: order_trans year_of_doe_step)

lemma year_ends_check:
  "list_all (\<lambda>y. year_of_doe (year_start y) = y \<and> year_of_doe (year_start y + leap_days y - 1) = y)
     [0..399]"
  by code_simp

lemma year_of_doe_eq:
  assumes "0 \<le> y" "y < 400" "0 \<le> doy" "doy < leap_days y"
  shows "year_of_doe (year_start y + doy) = y"
proof -
  have "year_of_doe (year_start y) = y" "year_of_doe (year_start y + leap_days y - 1) = y"
    using year_ends_check assms(1,2) by (simp_all add: list_all_iff)
  moreover have "year_of_doe (year_start y) \<le> year_of_doe (year_start y + doy)"
    "year_of_doe (year_start y + doy) \<le> year_of_doe (year_start y + leap_days y - 1)"
    using assms by (auto intro: year_of_doe_mono)
  ultimately show ?thesis by linarith
qed

lemma year_start_succ: "0 \<le> y \<Longrightarrow> y < 399 \<Longrightarrow> year_start (y + 1) = year_start y + leap_days y"
  by (auto simp: year_start_def leap_days_def leap_iff div_succ)
     presburger+

lemma doe_decompose:
  assumes "0 \<le> doe" "doe < 146097"
  shows "\<exists>y doy. 0 \<le> y \<and> y < 400 \<and> 0 \<le> doy \<and> doy < leap_days y \<and> doe = year_start y + doy"
proof -
  have "\<exists>y\<ge>0. y \<le> k \<and> year_start y \<le> doe \<and> (y < k \<longrightarrow> doe < year_start y + leap_days y)"
    if "0 \<le> k" "k \<le> 399" for k
    using that
  proof (induction k rule: int_ge_induct)
    case base
    then show ?case using assms by (intro exI [of _ 0]) (simp add: year_start_def)
  next
    case (step k)
    then obtain y where y: "0 \<le> y" "y \<le> k" "year_start y \<le> doe"
      "y < k \<longrightarrow> doe < year_start y + leap_days y" by auto
    show ?case
    proof (cases "y = k \<and> year_start (k + 1) \<le> doe")
      case True
      then show ?thesis using step y by (intro exI [of _ "k + 1"]) auto
    next
      case False
      then show ?thesis using step y year_start_succ [of k] by (intro exI [of _ y]) auto
    qed
  qed
  from this [of 399] obtain y
    where y: "0 \<le> y" "y \<le> 399" "year_start y \<le> doe" "y < 399 \<longrightarrow> doe < year_start y + leap_days y"
    by auto
  have "year_start 399 + leap_days 399 = 146097"
    by (simp add: year_start_def leap_days_def leap_iff)
  then have "doe < year_start y + leap_days y" using y assms by (cases "y = 399") auto
  then show ?thesis using y by (intro exI [of _ y] exI [of _ "doe - year_start y"]) auto
qed

lemma leap_periodic: "is_leap_year (y + e * 400) = is_leap_year y"
proof -
  have "k dvd y + e * 400 \<longleftrightarrow> k dvd y" if "k dvd 400" for k
    using that by (simp add: dvd_add_left_iff)
  then show ?thesis by (simp add: leap_iff)
qed

lemma less_12_cases:
  assumes "(mp :: nat) < 12"
  obtains "mp = 0" | "mp = 1" | "mp = 2" | "mp = 3" | "mp = 4" | "mp = 5"
    | "mp = 6" | "mp = 7" | "mp = 8" | "mp = 9" | "mp = 10" | "mp = 11"
proof -
  have "mp = 0 \<or> mp = 1 \<or> mp = 2 \<or> mp = 3 \<or> mp = 4 \<or> mp = 5
      \<or> mp = 6 \<or> mp = 7 \<or> mp = 8 \<or> mp = 9 \<or> mp = 10 \<or> mp = 11"
    using assms by presburger
  then show thesis using that by blast
qed

lemma month_cases:
  assumes "1 \<le> m" "m \<le> (12 :: nat)"
  obtains "m = 3" | "m = 4" | "m = 5" | "m = 6" | "m = 7" | "m = 8"
    | "m = 9" | "m = 10" | "m = 11" | "m = 12" | "m = 1" | "m = 2"
proof -
  have "m = 1 \<or> m = 2 \<or> m = 3 \<or> m = 4 \<or> m = 5 \<or> m = 6
      \<or> m = 7 \<or> m = 8 \<or> m = 9 \<or> m = 10 \<or> m = 11 \<or> m = 12"
    using assms by presburger
  then show thesis using that by blast
qed

lemma shifted_length_table:
  "mp < 12 \<Longrightarrow> shifted_length y mp =
     [31, 30, 31, 30, 31, 31, 30, 31, 30, 31, 31, if is_leap_year (y + 1) then 29 else 28] ! mp"
  by (elim less_12_cases) (simp_all add: shifted_length_def days_in_month_def)

lemma month_start_table:
  "mp < 12 \<Longrightarrow> month_start (int mp) = [0, 31, 61, 92, 122, 153, 184, 214, 245, 275, 306, 337] ! mp"
  by (elim less_12_cases) (simp_all add: month_start_def)

lemma month_of_doy:
  assumes mp: "mp < 12" and d: "1 \<le> d" "d \<le> shifted_length y mp"
  shows "(5 * (month_start (int mp) + int d - 1) + 2) div 153 = int mp"
    and "0 \<le> month_start (int mp) + int d - 1"
    and "month_start (int mp) + int d - 1 < leap_days y"
proof -
  note tables = month_start_table [OF mp] shifted_length_table [OF mp]
  show "(5 * (month_start (int mp) + int d - 1) + 2) div 153 = int mp"
    using mp d unfolding tables by (elim less_12_cases) (simp_all split: if_splits)
  show "0 \<le> month_start (int mp) + int d - 1"
    using mp d unfolding tables by (elim less_12_cases) simp_all
  show "month_start (int mp) + int d - 1 < leap_days y"
    using mp d unfolding tables leap_days_def by (elim less_12_cases) (simp_all split: if_splits)
qed

lemma doy_decompose:
  assumes "0 \<le> doy" "doy < leap_days y"
  shows "\<exists>mp d. mp < 12 \<and> 1 \<le> d \<and> d \<le> shifted_length y mp \<and> doy = month_start (int mp) + int d - 1"
proof -
  define mp where "mp = nat ((5 * doy + 2) div 153)"
  have doy: "doy \<le> 365" "doy = 365 \<longrightarrow> is_leap_year (y + 1)"
    using assms by (auto simp: leap_days_def split: if_splits)
  then have mp: "mp < 12" "(5 * doy + 2) div 153 = int mp" using assms(1) unfolding mp_def by auto
  then have range: "153 * int mp \<le> 5 * doy + 2" "5 * doy + 2 < 153 * int mp + 153"
    by linarith+
  have "1 \<le> doy - month_start (int mp) + 1" using range(1) unfolding month_start_def by linarith
  moreover have "doy - month_start (int mp) + 1 \<le> int (shifted_length y mp)"
    unfolding month_start_table [OF mp(1)] shifted_length_table [OF mp(1)]
    using mp(1) range(2) doy by (elim less_12_cases) (auto split: if_splits)
  ultimately show ?thesis using mp(1)
    by (intro exI [of _ mp] exI [of _ "nat (doy - month_start (int mp) + 1)"]) auto
qed

lemma days_in_month_cong: "is_leap_year y = is_leap_year y' \<Longrightarrow> days_in_month y m = days_in_month y' m"
  by (simp add: days_in_month_def)

lemma shifted_length_periodic:
  "shifted_length yoe mp = days_in_month (yoe + era * 400 + (if mp < 10 then 0 else 1))
     (if mp < 10 then mp + 3 else mp - 9)"
  unfolding shifted_length_def
  using leap_periodic [of "yoe + (if mp < 10 then 0 else 1)" era]
  by (intro days_in_month_cong) (simp add: algebra_simps)

definition day_number :: "int \<Rightarrow> int \<Rightarrow> nat \<Rightarrow> nat \<Rightarrow> int" where
  "day_number era yoe mp d =
     era * 146097 + year_start yoe + month_start (int mp) + int d - 1 - 719468"

definition civil_of :: "int \<Rightarrow> int \<Rightarrow> nat \<Rightarrow> nat \<Rightarrow> int \<times> nat \<times> nat" where
  "civil_of era yoe mp d =
     (yoe + era * 400 + (if mp < 10 then 0 else 1), if mp < 10 then mp + 3 else mp - 9, d)"

definition shifted_date :: "int \<Rightarrow> nat \<Rightarrow> nat \<Rightarrow> bool" where
  "shifted_date yoe mp d = (0 \<le> yoe \<and> yoe < 400 \<and> mp < 12 \<and> 1 \<le> d \<and> d \<le> shifted_length yoe mp)"

lemma year_start_nonneg: "0 \<le> yoe \<Longrightarrow> 0 \<le> year_start yoe"
  using zdiv_mono2 [of yoe 1 100] by (simp add: year_start_def pos_imp_zdiv_nonneg_iff)

lemma year_start_bound: "0 \<le> yoe \<Longrightarrow> yoe < 400 \<Longrightarrow> year_start yoe + leap_days yoe \<le> 146097"
proof -
  assume y: "0 \<le> yoe" "yoe < 400"
  show ?thesis
  proof (cases "yoe = 399")
    case False
    then have "year_start yoe + leap_days yoe = year_start (yoe + 1)"
      using y by (simp add: year_start_succ)
    moreover have "(yoe + 1) div 4 \<le> 399 div 4" using y False by (intro zdiv_mono1) auto
    moreover have "0 \<le> (yoe + 1) div 100" using y by (simp add: pos_imp_zdiv_nonneg_iff)
    ultimately show ?thesis using y False by (simp add: year_start_def)
  qed (simp add: year_start_def leap_days_def leap_iff)
qed

lemma civil_from_day_number:
  assumes "shifted_date yoe mp d"
  shows "civil_from_days (day_number era yoe mp d) = civil_of era yoe mp d"
proof -
  have bounds: "0 \<le> yoe" "yoe < 400" "mp < 12" "1 \<le> d" "d \<le> shifted_length yoe mp"
    using assms by (auto simp: shifted_date_def)
  define doy where "doy = month_start (int mp) + int d - 1"
  note month = month_of_doy [OF bounds(3-5), folded doy_def]
  define doe where "doe = year_start yoe + doy"
  have doe: "0 \<le> doe" "doe < 146097"
    using year_start_nonneg [OF bounds(1)] year_start_bound [OF bounds(1,2)] month(2,3)
    by (simp_all add: doe_def)
  have shifted: "day_number era yoe mp d + 719468 = era * 146097 + doe"
    by (simp add: day_number_def doe_def doy_def)
  have era: "(era * 146097 + doe) div 146097 = era" using doe by simp
  have year: "(doe - doe div 1460 + doe div 36524 - doe div 146096) div 365 = yoe"
    using year_of_doe_eq [OF bounds(1,2) month(2,3)] by (simp add: doe_def year_of_doe_def)
  have inner: "0 \<le> doe - doe div 1460 + doe div 36524 - doe div 146096"
    using doe by linarith
  have day: "doe - (365 * yoe + yoe div 4 - yoe div 100) = doy" by (simp add: doe_def year_start_def)
  have era': "trunc_div (if 0 \<le> era * 146097 + doe then era * 146097 + doe
      else era * 146097 + doe - 146096) 146097 = era"
    using era_floor [of 146097 146096 "era * 146097 + doe"] era by linarith
  have md: "doy - (153 * int mp + 2) div 5 + 1 = int d"
    by (simp add: doy_def month_start_def)
  have nats: "nat (int mp + 3) = mp + 3" "nat (int mp - 9) = mp - 9" by linarith+
  have mm: "trunc_div (5 * doy + 2) 153 = int mp" using month(1,2) by (simp add: trunc_div_nonneg)
  show ?thesis
    unfolding civil_from_days_def Let_def shifted era' add_diff_cancel_left'
    using bounds(1,3,4) doe inner
    by (simp add: trunc_div_nonneg year day mm md nats civil_of_def)
qed

lemma days_from_civil_of:
  assumes "shifted_date yoe mp d" "civil_of era yoe mp d = (y, m, d)"
  shows "days_from_civil y m d = day_number era yoe mp d"
proof -
  have bounds: "0 \<le> yoe" "yoe < 400" "mp < 12" "1 \<le> d" "d \<le> shifted_length yoe mp"
    using assms(1) by (auto simp: shifted_date_def)
  have m: "m = (if mp < 10 then mp + 3 else mp - 9)"
    and y: "y = yoe + era * 400 + (if mp < 10 then 0 else 1)"
    using assms(2) by (auto simp: civil_of_def)
  have "days_in_month y m = shifted_length yoe mp"
    using shifted_length_periodic [of yoe mp era] by (simp add: m y)
  then have d: "clamp d 1 (days_in_month y m) = d" using bounds by (simp add: clamp_id)
  have month: "clamp m 1 12 = m" "int ((m + 9) mod 12) = int mp" "m \<le> 2 \<longleftrightarrow> 10 \<le> mp"
    unfolding m using bounds(3) by (elim less_12_cases; simp add: clamp_def)+
  have adj: "(if m \<le> 2 then y - 1 else y) = yoe + era * 400" using month(3) by (auto simp: y)
  have era: "trunc_div (if 0 \<le> yoe + era * 400 then yoe + era * 400 else yoe + era * 400 - 399) 400 = era"
    using era_floor [of 400 399 "yoe + era * 400"] bounds(1,2) by simp
  show ?thesis
    unfolding days_from_civil_def Let_def month(1) d adj era month(2)
    using bounds by (simp add: trunc_div_nonneg day_number_def year_start_def month_start_def)
qed

lemma valid_date_shifted:
  assumes "1 \<le> m" "m \<le> 12" "1 \<le> d" "d \<le> days_in_month y m"
  shows "\<exists>era yoe mp. shifted_date yoe mp d \<and> civil_of era yoe mp d = (y, m, d)"
proof -
  define a where "a = (if m \<le> 2 then y - 1 else y)"
  define mp where "mp = (if m \<le> 2 then m + 9 else m - 3)"
  have ya: "a mod 400 + a div 400 * 400 = a" by simp
  have mp: "mp < 12" "m = (if mp < 10 then mp + 3 else mp - 9)"
    using assms(1,2) by (auto simp: mp_def)
  have y: "y = a + (if mp < 10 then 0 else 1)" using assms(1,2) by (auto simp: mp_def a_def)
  have "days_in_month y m = shifted_length (a mod 400) mp"
    using shifted_length_periodic [of "a mod 400" mp "a div 400"] ya mp(2) y by simp
  then have "shifted_date (a mod 400) mp d"
    using assms mp(1) by (simp add: shifted_date_def)
  moreover have "civil_of (a div 400) (a mod 400) mp d = (y, m, d)"
    using mp(2) y by (simp add: civil_of_def)
  ultimately show ?thesis by blast
qed

lemma day_number_surj: "\<exists>era yoe mp d. shifted_date yoe mp d \<and> days = day_number era yoe mp d"
proof -
  define s where "s = days + 719468"
  obtain yoe doy where y: "0 \<le> yoe" "yoe < 400" "0 \<le> doy" "doy < leap_days yoe"
    "s mod 146097 = year_start yoe + doy"
    using doe_decompose [of "s mod 146097"] by auto
  obtain mp d where "mp < 12" "1 \<le> d" "d \<le> shifted_length yoe mp"
    "doy = month_start (int mp) + int d - 1"
    using doy_decompose [OF y(3,4)] by auto
  moreover have "days = s div 146097 * 146097 + s mod 146097 - 719468" by (simp add: s_def)
  ultimately have "shifted_date yoe mp d" "days = day_number (s div 146097) yoe mp d"
    using y by (simp_all add: shifted_date_def day_number_def)
  then show ?thesis by blast
qed

lemma civil_of_valid:
  "shifted_date yoe mp d \<Longrightarrow> civil_of era yoe mp d = (y, m, d') \<Longrightarrow>
   1 \<le> m \<and> m \<le> 12 \<and> 1 \<le> d' \<and> d' \<le> days_in_month y m"
  using shifted_length_periodic [of yoe mp era]
  by (auto simp: shifted_date_def civil_of_def split: if_splits)

lemma days_from_civil_fits:
  assumes "\<bar>y\<bar> \<le> 10 ^ 13" shows "\<bar>days_from_civil y m d\<bar> < 2 ^ 63"
proof -
  define m' where "m' = clamp m 1 12"
  define d' where "d' = clamp d 1 (days_in_month y m')"
  have m': "1 \<le> m'" "m' \<le> 12" using clamp_bounds [of 1 12 m] by (auto simp: m'_def)
  then have "1 \<le> days_in_month y m'" by (elim month_cases) (simp_all add: days_in_month_def)
  then have d': "1 \<le> d'" "d' \<le> days_in_month y m'" using clamp_bounds by (auto simp: d'_def)
  have same: "days_from_civil y m d = days_from_civil y m' d'"
    unfolding days_from_civil_def Let_def m'_def [symmetric] d'_def [symmetric]
      clamp_id [OF m'] clamp_id [OF d'] by (rule refl)
  obtain era yoe mp where sd: "shifted_date yoe mp d'" and c: "civil_of era yoe mp d' = (y, m', d')"
    using valid_date_shifted [OF m' d'] by blast
  have "0 \<le> month_start (int mp) + int d' - 1" "month_start (int mp) + int d' - 1 < 366"
    using sd month_of_doy [of mp d' yoe] by (auto simp: shifted_date_def leap_days_def split: if_splits)
  moreover have "0 \<le> year_start yoe" "year_start yoe \<le> 146097"
    using sd year_start_nonneg year_start_bound [of yoe]
    by (auto simp: shifted_date_def leap_days_def split: if_splits)
  moreover have "\<bar>era * 400\<bar> \<le> 10 ^ 13 + 401"
    using assms c sd by (auto simp: civil_of_def shifted_date_def split: if_splits)
  ultimately have "\<bar>day_number era yoe mp d'\<bar> < 2 ^ 63" by (simp add: day_number_def)
  then show ?thesis using days_from_civil_of [OF sd c] same by simp
qed

section \<open>Properties\<close>

text \<open>the calendar conversion is exact: a date is accepted with day number \<open>n\<close> if and only
  if it is the date that the inverse conversion computes for \<open>n\<close>. So every impossible date is
  rejected, every accepted date survives the round trip, and every day number is reached.\<close>

theorem try_days_from_civil_iff:
  "try_days_from_civil y m d = Some n \<longleftrightarrow> civil_from_days n = (y, m, d)"
proof
  assume "try_days_from_civil y m d = Some n"
  then have valid: "1 \<le> m" "m \<le> 12" "1 \<le> d" "d \<le> days_in_month y m" and n: "n = days_from_civil y m d"
    by (auto simp: try_days_from_civil_def split: if_splits)
  then obtain era yoe mp where "shifted_date yoe mp d" "civil_of era yoe mp d = (y, m, d)"
    using valid_date_shifted by blast
  then show "civil_from_days n = (y, m, d)"
    by (simp add: n days_from_civil_of civil_from_day_number)
next
  assume date: "civil_from_days n = (y, m, d)"
  obtain era yoe mp e where s: "shifted_date yoe mp e" and n: "n = day_number era yoe mp e"
    using day_number_surj by blast
  then have c: "civil_of era yoe mp e = (y, m, d)" using date by (simp add: civil_from_day_number)
  then have "e = d" by (simp add: civil_of_def)
  then show "try_days_from_civil y m d = Some n"
    using civil_of_valid [OF s c] days_from_civil_of [of yoe mp d era y m] s c n
    by (auto simp: try_days_from_civil_def)
qed

text \<open>the millisecond display always fits its 32-byte buffer, and is exact: the digits before
  and after the point read back as the 100-nanosecond count, with no rounding.\<close>

theorem format_milliseconds_exact:
  "\<exists>whole frac. format_milliseconds h = Some (whole @ ''.'' @ frac) \<and> length frac = 4
     \<and> dec_value whole * 10000 + dec_value frac = unat h"
proof -
  have "length (dec (unat h mod 10000)) \<le> 4" by (subst length_dec_le) auto
  then have "length (pad0 4 (dec (unat h mod 10000))) = 4" by (simp add: length_pad0)
  moreover have "format_milliseconds h = Some (hns_millis_text h)"
    using length_millis_text [of h]
    by (simp add: format_milliseconds_def write_milliseconds_bytes_def)
  ultimately show ?thesis
    by (intro exI [of _ "dec (unat h div 10000)"] exI [of _ "pad0 4 (dec (unat h mod 10000))"])
       (simp add: hns_millis_text_eq)
qed

end
