(* ===== verification/Policy.thy ===== *)
theory Policy
  imports Core
begin

text \<open>
  Model of \<open>crates/tick-policy\<close>: the power policy decision, the reason set, the operating tier
  transition function and the responsiveness classifier with its hysteresis.
\<close>

section \<open>Power policy\<close>

datatype power_state = Ac | Battery | BatterySaver | PowerStateUnknown

datatype policy_reason =
  NoEligibleProfile | EligibleProfile | BatteryRestricted | BatterySaverRestricted
  | PowerUnknown | GloballyDisabled

record policy_input =
  enabled :: bool
  eligible_profile :: bool
  power :: power_state
  battery_lockout_enabled :: bool

record policy_decision =
  decision_status :: status
  decision_reason :: policy_reason

definition decide :: "policy_input \<Rightarrow> policy_decision" where
  "decide input =
     (if \<not> enabled input
      then \<lparr>decision_status = Blocked, decision_reason = GloballyDisabled\<rparr>
      else if \<not> eligible_profile input
      then \<lparr>decision_status = Released, decision_reason = NoEligibleProfile\<rparr>
      else case power input of
        Ac \<Rightarrow> \<lparr>decision_status = Requested, decision_reason = EligibleProfile\<rparr>
      | Battery \<Rightarrow>
          if battery_lockout_enabled input
          then \<lparr>decision_status = Blocked, decision_reason = BatteryRestricted\<rparr>
          else \<lparr>decision_status = Requested, decision_reason = EligibleProfile\<rparr>
      | BatterySaver \<Rightarrow>
          if battery_lockout_enabled input
          then \<lparr>decision_status = Blocked, decision_reason = BatterySaverRestricted\<rparr>
          else \<lparr>decision_status = Requested, decision_reason = EligibleProfile\<rparr>
      | PowerStateUnknown \<Rightarrow> \<lparr>decision_status = Blocked, decision_reason = PowerUnknown\<rparr>)"

fun push_reasons :: "policy_reason list \<Rightarrow> policy_reason list \<Rightarrow> policy_reason list" where
  "push_reasons unique [] = unique"
| "push_reasons unique (r # rs) =
     (if r \<in> set unique then push_reasons unique rs else push_reasons (unique @ [r]) rs)"

definition reason_set_from :: "policy_reason list \<Rightarrow> policy_reason list" where
  "reason_set_from reasons = push_reasons [] reasons"

section \<open>Operating tiers\<close>

definition MAX_ANOMALIES_BEFORE_QUIESCENT :: u32 where
  [model_defs]: "MAX_ANOMALIES_BEFORE_QUIESCENT = 3"

definition KERNEL_REJECTIONS_BEFORE_FLOOR :: u32 where
  [model_defs]: "KERNEL_REJECTIONS_BEFORE_FLOOR = 3"

definition FALLBACK_FLOOR_HNS :: u64 where
  [model_defs]: "FALLBACK_FLOOR_HNS = 10 * 1000"

datatype operating_tier =
  Nominal | SurfaceDegraded | MetrologyDegraded (floored_hns: u64) | Quiescent

datatype tier_transition =
  Stay | EnterSurfaceDegraded | EnterMetrologyDegraded u64 | EnterQuiescent | Recover

record tier_context =
  tray_surface_available :: bool
  kernel_rejected_requests :: u32
  unhandled_anomalies :: u32
  current_floor_hns :: u64
  nominally_recoverable :: bool

definition evaluate_tier :: "operating_tier \<Rightarrow> tier_context \<Rightarrow> tier_transition" where
  "evaluate_tier current ctx =
     (if MAX_ANOMALIES_BEFORE_QUIESCENT \<le> unhandled_anomalies ctx then EnterQuiescent
      else if \<not> tray_surface_available ctx \<and> current = Nominal then EnterSurfaceDegraded
      else if KERNEL_REJECTIONS_BEFORE_FLOOR \<le> kernel_rejected_requests ctx
              \<and> \<not> (case current of MetrologyDegraded _ \<Rightarrow> True | Quiescent \<Rightarrow> True | _ \<Rightarrow> False)
      then EnterMetrologyDegraded FALLBACK_FLOOR_HNS
      else if (case current of SurfaceDegraded \<Rightarrow> True | MetrologyDegraded _ \<Rightarrow> True | _ \<Rightarrow> False)
              \<and> nominally_recoverable ctx \<and> unhandled_anomalies ctx = 0
      then Recover
      else Stay)"

definition tier_allows_high_resolution :: "operating_tier \<Rightarrow> bool" where
  "tier_allows_high_resolution tier = (tier = Nominal \<or> tier = SurfaceDegraded)"

section \<open>Responsiveness\<close>

datatype responsiveness_state = Normal | Elevated | Degraded

definition LATENCY_BASELINE_SHIFT :: nat where
  [model_defs]: "LATENCY_BASELINE_SHIFT = 3"

definition ANOMALY_FACTOR_PERCENT :: u64 where
  [model_defs]: "ANOMALY_FACTOR_PERCENT = 300"

definition ANOMALY_ABSOLUTE_FLOOR_MS :: u64 where
  [model_defs]: "ANOMALY_ABSOLUTE_FLOOR_MS = 250"

definition ESCALATE_CONSECUTIVE_SAMPLES :: u32 where
  [model_defs]: "ESCALATE_CONSECUTIVE_SAMPLES = 3"

definition RECOVER_CONSECUTIVE_SAMPLES :: u32 where
  [model_defs]: "RECOVER_CONSECUTIVE_SAMPLES = 5"

definition WORSENING_FACTOR_PERCENT :: u64 where
  [model_defs]: "WORSENING_FACTOR_PERCENT = 200"

record responsiveness_tracker =
  baseline_ms :: u64
  worst_ms :: u64
  anomalous_streak :: u32
  clean_streak :: u32
  seeded :: bool
  resp_state :: responsiveness_state

definition tracker_new :: responsiveness_tracker where
  "tracker_new = \<lparr>baseline_ms = 0, worst_ms = 0, anomalous_streak = 0, clean_streak = 0,
     seeded = False, resp_state = Normal\<rparr>"

definition seed :: "u64 \<Rightarrow> responsiveness_tracker \<Rightarrow> responsiveness_tracker" where
  "seed latency t = (if \<not> seeded t then t\<lparr>baseline_ms := latency, seeded := True\<rparr> else t)"

definition anomaly_threshold :: "responsiveness_tracker \<Rightarrow> u64" where
  "anomaly_threshold t =
     max (saturating_mul (baseline_ms t) ANOMALY_FACTOR_PERCENT div 100) ANOMALY_ABSOLUTE_FLOOR_MS"

definition worsening :: "u64 \<Rightarrow> responsiveness_tracker \<Rightarrow> bool" where
  "worsening latency t = (worst_ms t \<noteq> 0
     \<and> saturating_mul (worst_ms t) WORSENING_FACTOR_PERCENT div 100 \<le> latency)"

definition observe_anomalous :: "u64 \<Rightarrow> responsiveness_tracker \<Rightarrow> responsiveness_tracker" where
  "observe_anomalous latency t =
     (let streak = saturating_add (anomalous_streak t) 1 in
      t\<lparr>worst_ms := max (worst_ms t) latency, anomalous_streak := streak, clean_streak := 0,
        resp_state := (if worsening latency t \<or> ESCALATE_CONSECUTIVE_SAMPLES \<le> streak
                       then Degraded else Elevated)\<rparr>)"

definition observe_clean :: "u64 \<Rightarrow> responsiveness_tracker \<Rightarrow> responsiveness_tracker" where
  "observe_clean latency t =
     (let weight = push_bit LATENCY_BASELINE_SHIFT 1 - 1;
          streak = saturating_add (clean_streak t) 1;
          t1 = t\<lparr>baseline_ms := drop_bit LATENCY_BASELINE_SHIFT
                   (saturating_add (saturating_mul (baseline_ms t) weight) latency),
                 anomalous_streak := 0, clean_streak := streak\<rparr>
      in if RECOVER_CONSECUTIVE_SAMPLES \<le> streak
         then t1\<lparr>resp_state := Normal, worst_ms := 0\<rparr> else t1)"

definition observe :: "u64 \<Rightarrow> responsiveness_tracker \<Rightarrow> responsiveness_state \<times> responsiveness_tracker"
  where
  "observe latency t0 =
     (let t = seed latency t0;
          t' = (if anomaly_threshold t < latency then observe_anomalous latency t
                else observe_clean latency t)
      in (resp_state t', t'))"

definition tracker_reset :: "responsiveness_tracker \<Rightarrow> responsiveness_tracker" where
  "tracker_reset t = tracker_new"

text \<open>The tracker after a sequence of samples, oldest first.\<close>

fun observe_all :: "u64 list \<Rightarrow> responsiveness_tracker \<Rightarrow> responsiveness_tracker" where
  "observe_all [] t = t"
| "observe_all (l # ls) t = observe_all ls (snd (observe l t))"

section \<open>Facts about the reason set\<close>

lemma set_push_reasons: "set (push_reasons u rs) = set u \<union> set rs"
  by (induction u rs rule: push_reasons.induct) auto

lemma distinct_push_reasons: "distinct u \<Longrightarrow> distinct (push_reasons u rs)"
  by (induction u rs rule: push_reasons.induct) auto

lemma push_reasons_filter:
  "distinct rs \<Longrightarrow> push_reasons u rs = u @ filter (\<lambda>r. r \<notin> set u) rs"
proof (induction u rs rule: push_reasons.induct)
  case (2 u r rs)
  then show ?case by (auto intro!: filter_cong)
qed simp

section \<open>Invariant of the responsiveness tracker\<close>

text \<open>
  The well-formedness of a tracker: at most one streak runs, a streak is positive once a sample
  was seen, a degraded or elevated tracker remembers the worst latency of the episode, and a
  running anomalous streak has left the normal state.
\<close>

definition tracker_ok :: "responsiveness_tracker \<Rightarrow> bool" where
  "tracker_ok t \<longleftrightarrow>
     (anomalous_streak t = 0 \<or> clean_streak t = 0)
     \<and> (resp_state t = Normal \<longrightarrow> worst_ms t = 0 \<and> anomalous_streak t = 0)
     \<and> (resp_state t \<noteq> Normal \<longrightarrow> seeded t \<and> ANOMALY_ABSOLUTE_FLOOR_MS < worst_ms t
          \<and> clean_streak t < RECOVER_CONSECUTIVE_SAMPLES)
     \<and> (ESCALATE_CONSECUTIVE_SAMPLES \<le> anomalous_streak t \<longrightarrow> resp_state t = Degraded)
     \<and> (resp_state t \<noteq> Normal \<longrightarrow> anomalous_streak t \<noteq> 0 \<or> clean_streak t \<noteq> 0)"

lemma saturating_add_one_nonzero: "saturating_add (a :: u32) 1 \<noteq> 0"
  by (simp add: word_unat_eq_iff unat_saturating_add)

lemma tracker_new_ok: "tracker_ok tracker_new"
  by (simp add: tracker_ok_def tracker_new_def model_defs)

lemma threshold_floor: "ANOMALY_ABSOLUTE_FLOOR_MS \<le> anomaly_threshold t"
  by (simp add: anomaly_threshold_def)

lemma observe_anomalous_ok:
  "tracker_ok t \<Longrightarrow> seeded t \<Longrightarrow> anomaly_threshold t < l \<Longrightarrow> tracker_ok (observe_anomalous l t)"
  using threshold_floor [of t] saturating_add_one_nonzero [of "anomalous_streak t"]
  by (auto simp: tracker_ok_def observe_anomalous_def Let_def less_max_iff_disj
      RECOVER_CONSECUTIVE_SAMPLES_def)

lemma observe_clean_ok: "tracker_ok t \<Longrightarrow> tracker_ok (observe_clean l t)"
  using saturating_add_one_nonzero [of "clean_streak t"]
  by (auto simp: tracker_ok_def observe_clean_def Let_def ESCALATE_CONSECUTIVE_SAMPLES_def not_le)

lemma seed_ok: "tracker_ok t \<Longrightarrow> tracker_ok (seed l t) \<and> seeded (seed l t)"
  by (auto simp: tracker_ok_def seed_def)

lemma observe_ok: "tracker_ok t \<Longrightarrow> tracker_ok (snd (observe l t))"
  using seed_ok [of t l] by (auto simp: observe_def Let_def observe_clean_ok observe_anomalous_ok)

lemma observe_all_ok: "tracker_ok t \<Longrightarrow> tracker_ok (observe_all ls t)"
  by (induction ls arbitrary: t) (auto simp: observe_ok)

lemma observe_all_append: "observe_all (ls @ ms) t = observe_all ms (observe_all ls t)"
  by (induction ls arbitrary: t) auto

text \<open>
  An episode, once an anomalous sample has set the clean streak to zero, is left only through
  clean samples that add up to the recovery count: \<open>episode k t\<close> bounds the clean streak by \<open>k\<close>.
\<close>

definition episode :: "nat \<Rightarrow> responsiveness_tracker \<Rightarrow> bool" where
  "episode k t \<longleftrightarrow> seeded t \<and> resp_state t \<noteq> Normal \<and> unat (clean_streak t) \<le> k"

lemma observe_episode:
  assumes "episode k t" "k < 4" shows "episode (Suc k) (snd (observe l t))"
proof -
  have seeded: "seed l t = t" using assms by (simp add: episode_def seed_def)
  have streak: "unat (saturating_add (clean_streak t) 1) \<le> Suc k"
    using assms by (auto simp: unat_saturating_add episode_def)
  then have "\<not> RECOVER_CONSECUTIVE_SAMPLES \<le> saturating_add (clean_streak t) 1"
    using assms by (simp add: RECOVER_CONSECUTIVE_SAMPLES_def word_le_nat_alt)
  then show ?thesis
    using assms streak
    by (simp add: episode_def observe_def seeded Let_def observe_anomalous_def observe_clean_def)
qed

lemma observe_all_episode:
  "episode k t \<Longrightarrow> k + length ls < 5 \<Longrightarrow> episode (k + length ls) (observe_all ls t)"
proof (induction ls arbitrary: k t)
  case (Cons l ls)
  then have "episode (Suc k) (snd (observe l t))" by (intro observe_episode) auto
  with Cons.IH [of "Suc k"] Cons.prems(2) show ?case by simp
qed simp

lemma anomalous_starts_episode:
  "anomaly_threshold (seed l t) < l \<Longrightarrow> episode 0 (snd (observe l t))"
  by (auto simp: observe_def Let_def episode_def observe_anomalous_def seed_def)

section \<open>Facts about tiers\<close>

lemma evaluate_quiescent_iff:
  "evaluate_tier tier ctx = EnterQuiescent \<longleftrightarrow> 3 \<le> unhandled_anomalies ctx"
  by (auto simp: evaluate_tier_def model_defs)

lemma evaluate_from_quiescent:
  "evaluate_tier Quiescent ctx = (if 3 \<le> unhandled_anomalies ctx then EnterQuiescent else Stay)"
  by (simp add: evaluate_tier_def model_defs)

lemma evaluate_recover_iff:
  "evaluate_tier tier ctx = Recover \<longleftrightarrow>
     nominally_recoverable ctx \<and> unhandled_anomalies ctx = 0
     \<and> (tier = SurfaceDegraded \<and> kernel_rejected_requests ctx < 3 \<or> (\<exists>f. tier = MetrologyDegraded f))"
  by (cases tier) (auto simp: evaluate_tier_def model_defs not_le)

section \<open>Properties\<close>

text \<open>the policy requests high resolution exactly when it is enabled, a profile is eligible,
  the power source is known, and either the machine is on mains power or the battery lockout is
  off. Every other input is blocked or released, so an unknown power source always blocks.\<close>

theorem decide_requests_iff:
  "decision_status (decide i) = Requested \<longleftrightarrow>
     enabled i \<and> eligible_profile i \<and> power i \<noteq> PowerStateUnknown
     \<and> \<not> (battery_lockout_enabled i \<and> power i \<noteq> Ac)"
  by (auto simp: decide_def split: power_state.splits)

text \<open>hysteresis of the responsiveness classifier. After any history, an anomalous sample opens
  an episode that no four further samples, whatever their latency, can end: the classifier
  reports a non-normal state until at least five samples have followed the anomaly.\<close>

theorem responsiveness_hysteresis:
  assumes "anomaly_threshold (seed l (observe_all ls tracker_new)) < l" and "length rest < 5"
  shows "resp_state (observe_all (ls @ l # rest) tracker_new) \<noteq> Normal"
  using observe_all_episode [OF anomalous_starts_episode [OF assms(1)], of rest] assms(2)
  by (simp add: observe_all_append episode_def)

theorem responsiveness_hysteresis_witness:
  "resp_state (observe_all ([10] @ 900 # [10, 10, 10, 10]) tracker_new) \<noteq> Normal"
  by (rule responsiveness_hysteresis)
     (simp_all add: observe_def observe_clean_def observe_anomalous_def seed_def tracker_new_def
        anomaly_threshold_def Let_def model_defs saturating_add_def saturating_mul_def max_def)

text \<open>every state the tracker reaches from its initial one is well formed: at most one streak
  runs, three consecutive anomalies are always reported as degraded, and a tracker outside the
  normal state remembers a worst latency above the absolute floor and fewer than five clean
  samples.\<close>

theorem tracker_reachable_ok: "tracker_ok (observe_all ls tracker_new)"
  by (rule observe_all_ok [OF tracker_new_ok])

end
