(* ===== verification/Platform.thy ===== *)
theory Platform
  imports Core
begin

text \<open>
  Model of \<open>crates/tick-platform-windows\<close>: the adapter around the two native calls
  \<open>NtQueryTimerResolution\<close> and \<open>NtSetTimerResolution\<close> (the Windows build of the crate).

  The native calls are a parameter \<open>K\<close> of type \<open>'k nt_kernel\<close> that acts on an unknown kernel
  state; nothing is assumed about it. The platform state keeps, beside the fields of
  \<open>WindowsTimerPlatform\<close>, the kernel state and the ledger of the \<open>NtSetTimerResolution\<close> calls
  issued so far with their status. The trait \<open>TimerPlatform\<close> is the record \<open>'p timer_platform\<close>
  of its operations. Diagnostic log lines have no influence on results and are left out.
\<close>

type_synonym nt_status = "32 word"

definition STATUS_SUCCESS :: nt_status where
  [model_defs]: "STATUS_SUCCESS = 0"

datatype kernel_settle_probe_outcome = Restored | ExternalTiming

record kernel_settle_probe =
  probe_outcome :: kernel_settle_probe_outcome
  before_effective :: hns
  after_effective :: hns

record timer_bounds =
  minimum_interval :: hns
  maximum_interval :: hns

datatype timer_error =
  TimerUnsupported
  | InvalidInterval
  | InvalidStateTransition
  | QueryFailed nt_status
  | RequestFailed nt_status
  | ReleaseFailed nt_status
  | PostconditionUnverified nt_status hns

record timer_query =
  bounds :: timer_bounds
  query_current :: hns
  query_status :: nt_status

record timer_observation =
  obs_requested :: hns
  reported_current :: hns
  obs_status :: nt_status

section \<open>Bounds and observations\<close>

definition numeric_interval :: "timer_bounds \<Rightarrow> hns \<times> hns" where
  "numeric_interval b =
     (if minimum_interval b \<le> maximum_interval b
      then (minimum_interval b, maximum_interval b)
      else (maximum_interval b, minimum_interval b))"

definition U32_MAX :: u64 where
  [model_defs]: "U32_MAX = 4294967295"

definition smallest_supported_boundary :: "timer_bounds \<Rightarrow> (timer_error, hns) result" where
  "smallest_supported_boundary b =
     (let lower = fst (numeric_interval b) in
      if lower = 0 \<or> U32_MAX < lower then Err InvalidInterval else Ok lower)"

definition validate_interval :: "timer_bounds \<Rightarrow> hns \<Rightarrow> (timer_error, unit) result" where
  "validate_interval b interval =
     (let (lower, upper) = numeric_interval b in
      if interval = 0 \<or> U32_MAX < interval \<or> interval < lower \<or> upper < interval
      then Err InvalidInterval else Ok ())"

definition resolve_request :: "timer_query \<Rightarrow> hns \<Rightarrow> (timer_error, hns) result" where
  "resolve_request q requested =
     (case (if requested = 0 then smallest_supported_boundary (bounds q) else Ok requested) of
        Inl e \<Rightarrow> Err e
      | Inr selected \<Rightarrow>
          (case validate_interval (bounds q) selected of
             Inl e \<Rightarrow> Err e
           | Inr _ \<Rightarrow> Ok selected))"

definition HARDWARE_TIMER_TOLERANCE_HNS :: u64 where
  [model_defs]: "HARDWARE_TIMER_TOLERANCE_HNS = 100"

definition is_satisfied :: "timer_observation \<Rightarrow> bool" where
  "is_satisfied ob = (reported_current ob \<le> obs_requested ob
     \<or> saturating_sub (reported_current ob) (obs_requested ob) \<le> HARDWARE_TIMER_TOLERANCE_HNS)"

definition is_finer_than_requested :: "timer_observation \<Rightarrow> bool" where
  "is_finer_than_requested ob = (reported_current ob < obs_requested ob)"

definition effective_relation :: "hns \<Rightarrow> hns \<Rightarrow> string" where
  "effective_relation effective requested =
     (if effective < requested then ''finer''
      else if effective = requested then ''equal''
      else if saturating_sub effective requested \<le> HARDWARE_TIMER_TOLERANCE_HNS then ''satisfied''
      else ''unverified'')"

definition observation_relation :: "timer_observation \<Rightarrow> string" where
  "observation_relation ob = effective_relation (reported_current ob) (obs_requested ob)"

section \<open>The platform interface\<close>

type_synonym op_context = "(u64 \<times> u64 option \<times> u64) option"

record 'p timer_platform =
  tp_set_operation_context :: "op_context \<Rightarrow> 'p \<Rightarrow> 'p"
  tp_query :: "hns \<Rightarrow> 'p \<Rightarrow> (timer_error, timer_query) result \<times> 'p"
  tp_resolve :: "hns \<Rightarrow> 'p \<Rightarrow> (timer_error, hns) result \<times> 'p"
  tp_preflight :: "hns \<Rightarrow> 'p \<Rightarrow> (timer_error, timer_query) result \<times> 'p"
  tp_request :: "hns \<Rightarrow> 'p \<Rightarrow> (timer_error, timer_observation) result \<times> 'p"
  tp_release :: "hns \<Rightarrow> 'p \<Rightarrow> (timer_error, timer_observation) result \<times> 'p"
  tp_settle_probe :: "hns \<Rightarrow> 'p \<Rightarrow> (timer_error, kernel_settle_probe) result \<times> 'p"

section \<open>Redundant sampling\<close>

definition VERIFICATION_SAMPLE_COUNT :: nat where
  [model_defs]: "VERIFICATION_SAMPLE_COUNT = 3"

definition median_of_three :: "u64 \<Rightarrow> u64 \<Rightarrow> u64 \<Rightarrow> u64" where
  "median_of_three a b c =
     (if b < a then (if c < b then b else if c < a then c else a)
      else if c < a then a
      else if c < b then c
      else b)"

definition sample_satisfies_tolerance :: "u64 \<Rightarrow> u64 \<Rightarrow> bool" where
  "sample_satisfies_tolerance reported requested =
     (reported \<le> requested \<or> saturating_sub reported requested \<le> HARDWARE_TIMER_TOLERANCE_HNS)"

text \<open>The sampling loop: the values of the successful reads, in order.\<close>

fun sample_reads ::
    "(hns \<Rightarrow> 'p \<Rightarrow> (timer_error, timer_query) result \<times> 'p) \<Rightarrow> hns \<Rightarrow> nat \<Rightarrow> 'p \<Rightarrow> u64 list \<times> 'p"
  where
  "sample_reads query interval 0 p = ([], p)"
| "sample_reads query interval (Suc n) p =
     (case query interval p of
        (Inl _, p1) \<Rightarrow> sample_reads query interval n p1
      | (Inr q, p1) \<Rightarrow>
          (let (rest, p2) = sample_reads query interval n p1 in (query_current q # rest, p2)))"

definition median_of_samples :: "u64 \<Rightarrow> u64 list \<Rightarrow> u64 option" where
  "median_of_samples interval samples =
     (case samples of
        [] \<Rightarrow> None
      | [_] \<Rightarrow> None
      | [s0, s1] \<Rightarrow>
          (case (sample_satisfies_tolerance s0 interval, sample_satisfies_tolerance s1 interval) of
             (True, False) \<Rightarrow> Some s0
           | (False, True) \<Rightarrow> Some s1
           | (True, True) \<Rightarrow> Some (min s0 s1)
           | (False, False) \<Rightarrow> None)
      | s0 # s1 # s2 # _ \<Rightarrow> Some (median_of_three s0 s1 s2))"

definition sample_interval_median ::
    "(hns \<Rightarrow> 'p \<Rightarrow> (timer_error, timer_query) result \<times> 'p) \<Rightarrow> u64 \<Rightarrow> 'p \<Rightarrow> u64 option \<times> 'p" where
  "sample_interval_median query interval p =
     (let (samples, p1) = sample_reads query interval VERIFICATION_SAMPLE_COUNT p
      in (median_of_samples interval samples, p1))"

section \<open>The Windows platform\<close>

record 'k nt_kernel =
  NtQueryTimerResolution :: "'k \<Rightarrow> (nt_status \<times> u32 \<times> u32 \<times> u32) \<times> 'k"
  NtSetTimerResolution :: "u32 \<Rightarrow> u8 \<Rightarrow> 'k \<Rightarrow> (nt_status \<times> u32) \<times> 'k"

record 'k windows_timer_platform =
  wtp_requested :: "hns option"
  operation_context :: op_context
  kernel :: 'k
  set_calls :: "(u32 \<times> bool \<times> nt_status) list"

definition wtp_new :: "'k \<Rightarrow> 'k windows_timer_platform" where
  "wtp_new k = \<lparr>wtp_requested = None, operation_context = None, kernel = k, set_calls = []\<rparr>"

definition nt_boolean :: "bool \<Rightarrow> u8" where
  "nt_boolean b = (if b then 1 else 0)"

definition nt_set_timer_resolution ::
    "'k nt_kernel \<Rightarrow> u32 \<Rightarrow> bool \<Rightarrow> 'k windows_timer_platform
      \<Rightarrow> (nt_status \<times> u32) \<times> 'k windows_timer_platform" where
  "nt_set_timer_resolution K desired on p =
     (let ((st, current), k) = NtSetTimerResolution K desired (nt_boolean on) (kernel p)
      in ((st, current), p\<lparr>kernel := k, set_calls := set_calls p @ [(desired, on, st)]\<rparr>))"

definition native_resolution_values :: "u32 \<Rightarrow> u32 \<Rightarrow> u32 \<Rightarrow> timer_bounds \<times> hns" where
  "native_resolution_values mn mx cur =
     (\<lparr>minimum_interval = ucast mn, maximum_interval = ucast mx\<rparr>, ucast cur)"

definition query_resolution ::
    "'k nt_kernel \<Rightarrow> 'k windows_timer_platform
      \<Rightarrow> (timer_error, timer_bounds \<times> hns) result \<times> 'k windows_timer_platform" where
  "query_resolution K p =
     (let ((st, mn, mx, cur), k) = NtQueryTimerResolution K (kernel p);
          p1 = p\<lparr>kernel := k\<rparr>
      in if st \<noteq> STATUS_SUCCESS then (Err (QueryFailed st), p1)
         else (Ok (native_resolution_values mn mx cur), p1))"

definition query_current_resolution ::
    "'k nt_kernel \<Rightarrow> 'k windows_timer_platform
      \<Rightarrow> (timer_error, hns) result \<times> 'k windows_timer_platform" where
  "query_current_resolution K p =
     and_then (query_resolution K p) (\<lambda>(_, current) p1. (Ok current, p1))"

definition native_desired :: "hns \<Rightarrow> (timer_error, u32) result" where
  "native_desired interval =
     (if unat interval < 2 ^ 32 then Ok (ucast interval) else Err InvalidInterval)"

definition wtp_set_operation_context ::
    "op_context \<Rightarrow> 'k windows_timer_platform \<Rightarrow> 'k windows_timer_platform" where
  "wtp_set_operation_context ctx p = p\<lparr>operation_context := ctx\<rparr>"

definition wtp_query ::
    "'k nt_kernel \<Rightarrow> hns \<Rightarrow> 'k windows_timer_platform
      \<Rightarrow> (timer_error, timer_query) result \<times> 'k windows_timer_platform" where
  "wtp_query K interval p =
     and_then (query_resolution K p) (\<lambda>(b, current) p1.
       (Ok \<lparr>bounds = b, query_current = current, query_status = STATUS_SUCCESS\<rparr>, p1))"

definition wtp_resolve ::
    "'k nt_kernel \<Rightarrow> hns \<Rightarrow> 'k windows_timer_platform
      \<Rightarrow> (timer_error, hns) result \<times> 'k windows_timer_platform" where
  "wtp_resolve K requested p =
     and_then (wtp_query K requested p) (\<lambda>q p1. (resolve_request q requested, p1))"

definition wtp_preflight ::
    "'k nt_kernel \<Rightarrow> hns \<Rightarrow> 'k windows_timer_platform
      \<Rightarrow> (timer_error, timer_query) result \<times> 'k windows_timer_platform" where
  "wtp_preflight K interval p =
     and_then (wtp_query K interval p) (\<lambda>q p1.
       case validate_interval (bounds q) interval of
         Inl e \<Rightarrow> (Err e, p1)
       | Inr _ \<Rightarrow> (Ok q, p1))"

definition wtp_request ::
    "'k nt_kernel \<Rightarrow> hns \<Rightarrow> 'k windows_timer_platform
      \<Rightarrow> (timer_error, timer_observation) result \<times> 'k windows_timer_platform" where
  "wtp_request K interval p =
     and_then (wtp_preflight K interval p) (\<lambda>_ p1.
     and_then (native_desired interval, p1) (\<lambda>desired p1.
       let ((st, current), p2) = nt_set_timer_resolution K desired True p1 in
       if st \<noteq> STATUS_SUCCESS then (Err (RequestFailed st), p2)
       else
         let (sampled, p3) = sample_interval_median (wtp_query K) interval p2;
             ob = \<lparr>obs_requested = interval,
                    reported_current = (case sampled of None \<Rightarrow> ucast current | Some v \<Rightarrow> v),
                    obs_status = st\<rparr>;
             p4 = p3\<lparr>wtp_requested := Some interval\<rparr>
         in if sampled = None \<or> \<not> is_satisfied ob then
              let (_, p5) = nt_set_timer_resolution K desired False p4
              in (Err (PostconditionUnverified st (reported_current ob)),
                  p5\<lparr>wtp_requested := None\<rparr>)
            else (Ok ob, p4)))"

definition apply_release_outcome ::
    "hns \<Rightarrow> nt_status \<Rightarrow> hns \<Rightarrow> 'k windows_timer_platform
      \<Rightarrow> (timer_error, timer_observation) result \<times> 'k windows_timer_platform" where
  "apply_release_outcome interval st effective p =
     (if st \<noteq> STATUS_SUCCESS then (Err (ReleaseFailed st), p)
      else (Ok \<lparr>obs_requested = interval, reported_current = effective, obs_status = st\<rparr>,
            p\<lparr>wtp_requested := None\<rparr>))"

definition wtp_release ::
    "'k nt_kernel \<Rightarrow> hns \<Rightarrow> 'k windows_timer_platform
      \<Rightarrow> (timer_error, timer_observation) result \<times> 'k windows_timer_platform" where
  "wtp_release K interval p =
     and_then (native_desired interval, p) (\<lambda>desired p.
       let ((st, current), p1) = nt_set_timer_resolution K desired False p
       in apply_release_outcome interval st (ucast current) p1)"

definition wtp_settle_probe ::
    "'k nt_kernel \<Rightarrow> hns \<Rightarrow> 'k windows_timer_platform
      \<Rightarrow> (timer_error, kernel_settle_probe) result \<times> 'k windows_timer_platform" where
  "wtp_settle_probe K interval p =
     and_then (query_current_resolution K p) (\<lambda>before p1.
     and_then (native_desired interval, p1) (\<lambda>desired p1.
       let ((st, current), p2) = nt_set_timer_resolution K desired False p1 in
       if st \<noteq> STATUS_SUCCESS then (Err (ReleaseFailed st), p2)
       else and_then (query_current_resolution K p2) (\<lambda>after p3.
         if before < after
         then (Ok \<lparr>probe_outcome = Restored, before_effective = before, after_effective = after\<rparr>,
               p3\<lparr>wtp_requested := None\<rparr>)
         else (Ok \<lparr>probe_outcome = ExternalTiming, before_effective = before,
                   after_effective = after\<rparr>, p3))))"

definition windows_platform :: "'k nt_kernel \<Rightarrow> 'k windows_timer_platform timer_platform" where
  "windows_platform K =
     \<lparr>tp_set_operation_context = wtp_set_operation_context, tp_query = wtp_query K,
      tp_resolve = wtp_resolve K, tp_preflight = wtp_preflight K, tp_request = wtp_request K,
      tp_release = wtp_release K, tp_settle_probe = wtp_settle_probe K\<rparr>"

text \<open>
  Whether the process holds a resolution request, read off the ledger: the last accepted
  \<open>NtSetTimerResolution\<close> call decides.
\<close>

definition holds_request :: "'k windows_timer_platform \<Rightarrow> bool" where
  "holds_request p =
     foldl (\<lambda>held (_, on, st). if st = STATUS_SUCCESS then on else held) False (set_calls p)"

section \<open>Facts about sampling\<close>

lemma median_of_three_sorted: "median_of_three a b c = sort [a, b, c] ! 1"
  by (auto simp: median_of_three_def)

lemma median_between:
  "min a (min b c) \<le> median_of_three a b c \<and> median_of_three a b c \<le> max a (max b c)"
  by (auto simp: median_of_three_def)

lemma tolerance_iff: "sample_satisfies_tolerance v i \<longleftrightarrow> unat v \<le> unat i + 100"
  by (auto simp: sample_satisfies_tolerance_def word_le_nat_alt unat_saturating_sub model_defs)

lemma is_satisfied_iff: "is_satisfied ob \<longleftrightarrow> unat (reported_current ob) \<le> unat (obs_requested ob) + 100"
  by (auto simp: is_satisfied_def word_le_nat_alt unat_saturating_sub model_defs)

lemma sample_reads_length:
  "length (fst (sample_reads query i n p)) \<le> n"
  by (induction n arbitrary: p) (auto split: prod.splits sum.splits intro: le_SucI, metis fst_conv)

lemma sample_reads_keeps:
  assumes "\<And>p. f (snd (query i p)) = f p"
  shows "f (snd (sample_reads query i n p)) = f p"
proof (induction n arbitrary: p)
  case (Suc n)
  obtain r p1 where q: "query i p = (r, p1)" by fastforce
  then have "f p1 = f p" using assms [of p] by simp
  with Suc [of p1] q show ?case by (auto split: sum.splits prod.splits)
qed simp

lemma sample_median_keeps:
  assumes "\<And>p. f (snd (query i p)) = f p"
  shows "f (snd (sample_interval_median query i p)) = f p"
  using sample_reads_keeps [of f query i, OF assms]
  by (auto simp: sample_interval_median_def split: prod.splits) (metis snd_conv)

section \<open>The contract of a platform\<close>

text \<open>
  What the ownership controller relies on: a resolved interval is a native value and is the
  requested one unless automatic selection was asked for, an accepted request was verified
  within tolerance, and a probe reports a restoration only for a coarser effective value.
\<close>

locale platform_contract =
  fixes P :: "'p timer_platform"
  assumes resolve_ok: "tp_resolve P r p = (Inr i, p') \<Longrightarrow> i \<noteq> 0 \<and> i \<le> U32_MAX \<and> (r \<noteq> 0 \<longrightarrow> i = r)"
    and request_ok: "tp_request P i p = (Inr ob, p') \<Longrightarrow> obs_requested ob = i \<and> is_satisfied ob"
    and release_ok: "tp_release P i p = (Inr ob, p') \<Longrightarrow> obs_requested ob = i"
    and probe_ok: "tp_settle_probe P i p = (Inr pr, p') \<Longrightarrow>
      probe_outcome pr = Restored \<longleftrightarrow> before_effective pr < after_effective pr"

text \<open>
  The contract extended by a view of the held request: only an accepted request takes it, an
  accepted release drops it, observation never changes it, and a failed call other than an
  unverified postcondition leaves it as it was.
\<close>

locale tracked_platform = platform_contract P for P :: "'p timer_platform" +
  fixes holds :: "'p \<Rightarrow> bool"
  assumes context_holds: "holds (tp_set_operation_context P ctx p) = holds p"
    and query_holds: "holds (snd (tp_query P i p)) = holds p"
    and resolve_holds: "holds (snd (tp_resolve P i p)) = holds p"
    and preflight_holds: "holds (snd (tp_preflight P i p)) = holds p"
    and request_holds: "tp_request P i p = (Inr ob, p') \<Longrightarrow> holds p'"
    and request_failed: "tp_request P i p = (Inl e, p') \<Longrightarrow>
      (\<nexists>st cur. e = PostconditionUnverified st cur) \<Longrightarrow> holds p' = holds p"
    and release_drops: "tp_release P i p = (Inr ob, p') \<Longrightarrow> \<not> holds p'"
    and release_failed: "tp_release P i p = (Inl e, p') \<Longrightarrow> holds p' = holds p"
    and probe_holds: "holds (snd (tp_settle_probe P i p)) \<Longrightarrow> holds p"

section \<open>The Windows platform meets the contract\<close>

lemma smallest_boundary_ok: "smallest_supported_boundary b = Inr i \<Longrightarrow> i \<noteq> 0 \<and> i \<le> U32_MAX"
  by (auto simp: smallest_supported_boundary_def Let_def split: if_splits)

lemma validate_interval_ok:
  "validate_interval b i = Inr u \<longleftrightarrow>
     i \<noteq> 0 \<and> i \<le> U32_MAX \<and> min (minimum_interval b) (maximum_interval b) \<le> i
     \<and> i \<le> max (minimum_interval b) (maximum_interval b)"
  by (auto simp: validate_interval_def numeric_interval_def Let_def)

lemma resolve_request_ok:
  "resolve_request q r = Inr i \<Longrightarrow>
     i \<noteq> 0 \<and> i \<le> U32_MAX \<and> (r \<noteq> 0 \<longrightarrow> i = r)
     \<and> (r = 0 \<longrightarrow> i = min (minimum_interval (bounds q)) (maximum_interval (bounds q)))"
  by (auto simp: resolve_request_def smallest_supported_boundary_def numeric_interval_def Let_def
      validate_interval_ok split: sum.splits if_splits)

lemma holds_set_call:
  "nt_set_timer_resolution K d on p = ((st, cur), p') \<Longrightarrow>
     holds_request p' = (if st = STATUS_SUCCESS then on else holds_request p)"
  by (auto simp: nt_set_timer_resolution_def holds_request_def Let_def split: prod.splits)

lemma holds_request_update [simp]:
  "holds_request (p\<lparr>wtp_requested := r\<rparr>) = holds_request p"
  "holds_request (p\<lparr>operation_context := c\<rparr>) = holds_request p"
  "holds_request (p\<lparr>kernel := k\<rparr>) = holds_request p"
  by (simp_all add: holds_request_def)

lemma query_resolution_holds [simp]: "holds_request (snd (query_resolution K p)) = holds_request p"
  by (auto simp: query_resolution_def Let_def split: prod.splits)

lemma and_then_keeps:
  assumes "\<And>x s. f (snd (g x s)) = f s" shows "f (snd (and_then m g)) = f (snd m)"
  using assms by (auto simp: and_then_def split: prod.splits sum.splits)

lemma wtp_query_holds [simp]: "holds_request (snd (wtp_query K i p)) = holds_request p"
  unfolding wtp_query_def by (subst and_then_keeps) (auto split: prod.splits)

lemma query_current_holds [simp]:
  "holds_request (snd (query_current_resolution K p)) = holds_request p"
  unfolding query_current_resolution_def by (subst and_then_keeps) (auto split: prod.splits)

lemma wtp_resolve_holds [simp]: "holds_request (snd (wtp_resolve K i p)) = holds_request p"
  unfolding wtp_resolve_def by (subst and_then_keeps) auto

lemma wtp_preflight_holds [simp]: "holds_request (snd (wtp_preflight K i p)) = holds_request p"
  unfolding wtp_preflight_def by (subst and_then_keeps) (auto split: sum.splits)

lemma wtp_sample_holds [simp]:
  "holds_request (snd (sample_interval_median (wtp_query K) i p)) = holds_request p"
  by (rule sample_median_keeps) simp

text \<open>The two outcomes of a request that reached the native call with success.\<close>

lemma wtp_request_Ok:
  assumes "wtp_request K i p = (Inr ob, p')"
  obtains p1 cur p2 p3 v where
    "nt_set_timer_resolution K (ucast i) True p1 = ((STATUS_SUCCESS, cur), p2)"
    "sample_interval_median (wtp_query K) i p2 = (Some v, p3)"
    "ob = \<lparr>obs_requested = i, reported_current = v, obs_status = STATUS_SUCCESS\<rparr>"
    "is_satisfied ob" "p' = p3\<lparr>wtp_requested := Some i\<rparr>"
  using assms unfolding wtp_request_def
  by (elim and_then_OkE)
     (auto simp: native_desired_def Let_def split: prod.splits if_splits option.splits)

lemma wtp_request_takes: "wtp_request K i p = (Inr ob, p') \<Longrightarrow> holds_request p'"
proof (elim wtp_request_Ok)
  fix p1 cur p2 p3 v
  assume "nt_set_timer_resolution K (ucast i) True p1 = ((STATUS_SUCCESS, cur), p2)"
    and "sample_interval_median (wtp_query K) i p2 = (Some v, p3)"
    and "p' = p3\<lparr>wtp_requested := Some i\<rparr>"
  then show "holds_request p'"
    using wtp_sample_holds [of K i p2] holds_set_call [of K "ucast i" True p1] by simp
qed

lemma wtp_request_Err:
  assumes "wtp_request K i p = (Inl e, p')"
  obtains (early) "holds_request p' = holds_request p" "\<nexists>st cur. e = PostconditionUnverified st cur"
  | (rolled_back) p1 cur p2 p3 sampled p4 r p5 where
    "nt_set_timer_resolution K (ucast i) True p1 = ((STATUS_SUCCESS, cur), p2)"
    "sample_interval_median (wtp_query K) i p2 = (sampled, p3)"
    "p4 = p3\<lparr>wtp_requested := Some i\<rparr>"
    "nt_set_timer_resolution K (ucast i) False p4 = (r, p5)"
    "p' = p5\<lparr>wtp_requested := None\<rparr>"
    "e = PostconditionUnverified STATUS_SUCCESS (case sampled of None \<Rightarrow> ucast cur | Some v \<Rightarrow> v)"
    "sampled = None \<or> \<not> sample_satisfies_tolerance (the sampled) i"
proof (cases "\<exists>q p1. wtp_preflight K i p = (Inr q, p1)")
  case False
  with assms have "wtp_preflight K i p = (Inl e, p')"
    unfolding wtp_request_def by (elim and_then_ErrE) auto
  moreover from this have "\<nexists>st cur. e = PostconditionUnverified st cur"
    unfolding wtp_preflight_def wtp_query_def
    by (auto elim!: and_then_ErrE simp: query_resolution_def validate_interval_def Let_def
        split: prod.splits sum.splits if_splits)
  ultimately show thesis using early wtp_preflight_holds [of K i p] by simp
next
  case True
  then obtain q p1 where pre: "wtp_preflight K i p = (Inr q, p1)" by blast
  then have keep: "holds_request p1 = holds_request p" using wtp_preflight_holds [of K i p] by simp
  show thesis
  proof (cases "unat i < 2 ^ 32")
    case False
    then show thesis using assms pre keep early by (auto simp: wtp_request_def native_desired_def)
  next
    case native: True
    obtain st cur p2 where call: "nt_set_timer_resolution K (ucast i) True p1 = ((st, cur), p2)"
      by (metis prod.exhaust)
    obtain sampled p3 where sample: "sample_interval_median (wtp_query K) i p2 = (sampled, p3)"
      by fastforce
    obtain r p5 where roll: "nt_set_timer_resolution K (ucast i) False (p3\<lparr>wtp_requested := Some i\<rparr>) = (r, p5)"
      by fastforce
    show thesis
    proof (cases "st = STATUS_SUCCESS")
      case False
      then show thesis
        using assms pre keep early native call holds_set_call [OF call]
        by (auto simp: wtp_request_def native_desired_def)
    next
      case True
      then show thesis
        using assms pre native call sample roll
        by (intro rolled_back [of p1 cur p2 sampled p3 _ r p5])
           (auto simp: wtp_request_def native_desired_def Let_def is_satisfied_def
             sample_satisfies_tolerance_def split: if_splits)
    qed
  qed
qed

lemma wtp_release_cases:
  "wtp_release K i p = (Inr ob, p') \<Longrightarrow> obs_requested ob = i \<and> \<not> holds_request p'"
  "wtp_release K i p = (Inl e, p') \<Longrightarrow> holds_request p' = holds_request p"
  by (auto simp: wtp_release_def native_desired_def apply_release_outcome_def Let_def
      dest!: holds_set_call split: if_splits prod.splits)

lemma wtp_probe_cases:
  "wtp_settle_probe K i p = (Inr pr, p') \<Longrightarrow>
     probe_outcome pr = Restored \<longleftrightarrow> before_effective pr < after_effective pr"
  unfolding wtp_settle_probe_def
  by (elim and_then_OkE) (auto simp: Let_def native_desired_def elim!: and_then_OkE
      split: prod.splits if_splits)

lemma wtp_probe_holds:
  assumes "holds_request (snd (wtp_settle_probe K i p))" shows "holds_request p"
proof (cases "query_current_resolution K p")
  case (Pair r p1)
  then have keep: "holds_request p1 = holds_request p" using query_current_holds [of K p] by simp
  obtain st cur p2 where call: "nt_set_timer_resolution K (ucast i) False p1 = ((st, cur), p2)"
    by (metis prod.exhaust)
  obtain r3 p3 where after: "query_current_resolution K p2 = (r3, p3)" by fastforce
  then have keep3: "holds_request p3 = holds_request p2" using query_current_holds [of K p2] by simp
  show ?thesis
    using assms Pair keep keep3 call after holds_set_call [OF call]
    by (cases r; cases r3) (auto simp: wtp_settle_probe_def native_desired_def Let_def split: if_splits)
qed

interpretation wtp: tracked_platform "windows_platform K" holds_request for K :: "'k nt_kernel"
proof (unfold_locales, goal_cases)
  case (1 r p i p')
  then show ?case
    by (auto simp: windows_platform_def wtp_resolve_def elim!: and_then_OkE dest: resolve_request_ok)
next
  case (2 i p ob p')
  then show ?case by (auto simp: windows_platform_def elim: wtp_request_Ok)
next
  case (9 i p ob p')
  then show ?case by (auto simp: windows_platform_def dest: wtp_request_takes)
next
  case (10 i p e p')
  then show ?case by (auto simp: windows_platform_def elim: wtp_request_Err)
qed (auto simp: windows_platform_def wtp_set_operation_context_def
    dest: wtp_release_cases wtp_probe_cases wtp_probe_holds)

section \<open>A simulated kernel\<close>

text \<open>
  A kernel with one process: the effective resolution is the requested one while a request is
  held and the coarse default otherwise. It instantiates the parameter in the examples below.
\<close>

definition sim_kernel :: "u32 nt_kernel" where
  "sim_kernel =
     \<lparr>NtQueryTimerResolution = (\<lambda>cur. ((0, 156250, 5000, cur), cur)),
      NtSetTimerResolution = (\<lambda>desired on cur.
        let cur' = (if on = 1 then desired else 156250) in ((0, cur'), cur'))\<rparr>"

text \<open>A kernel that accepts a request without honouring it.\<close>

definition stuck_kernel :: "u32 nt_kernel" where
  "stuck_kernel =
     \<lparr>NtQueryTimerResolution = (\<lambda>cur. ((0, 156250, 5000, cur), cur)),
      NtSetTimerResolution = (\<lambda>desired on cur. ((0, cur), cur))\<rparr>"

lemmas sim_eval = sim_kernel_def stuck_kernel_def wtp_new_def wtp_request_def wtp_preflight_def
  wtp_query_def wtp_resolve_def wtp_release_def query_resolution_def query_current_resolution_def
  wtp_settle_probe_def apply_release_outcome_def resolve_request_def smallest_supported_boundary_def
  native_resolution_values_def native_desired_def nt_set_timer_resolution_def nt_boolean_def
  validate_interval_def numeric_interval_def sample_interval_median_def median_of_samples_def
  median_of_three_def is_satisfied_def windows_platform_def model_defs numeral_3_eq_3 Let_def

section \<open>Properties\<close>

text \<open>the verification median is a majority vote: the reported median of three reads is within
  tolerance of the requested interval exactly when at least two of the three reads are, so one
  outlier neither forces a rollback nor hides a failed request.\<close>

theorem median_majority:
  "sample_satisfies_tolerance (median_of_three a b c) i \<longleftrightarrow>
     2 \<le> length (filter (\<lambda>v. sample_satisfies_tolerance v i) [a, b, c])"
  by (auto simp: tolerance_iff median_of_three_def word_less_nat_alt)

text \<open>C38: a resolution request either returns an observation of the requested interval that was
  verified within 100 units, with the request held, or returns an error with no request held,
  except when the rollback call it then issued was itself refused by the kernel. This is for
  every behaviour of the kernel.\<close>

theorem wtp_request_no_leak:
  assumes "wtp_request K i p = (r, p')" and "\<not> holds_request p"
  shows "case r of
      Inr ob \<Rightarrow> obs_requested ob = i \<and> unat (reported_current ob) \<le> unat i + 100
        \<and> holds_request p' \<and> wtp_requested p' = Some i
    | Inl e \<Rightarrow> holds_request p' \<longrightarrow>
        (\<exists>st. last (set_calls p') = (ucast i, False, st) \<and> st \<noteq> STATUS_SUCCESS)"
proof (cases r)
  case (Inr ob)
  with assms have ok: "wtp_request K i p = (Inr ob, p')" by simp
  then have "obs_requested ob = i \<and> is_satisfied ob" and "holds_request p'"
    using wtp.request_ok [of K i p] wtp.request_holds [of K i p] by (simp_all add: windows_platform_def)
  moreover have "wtp_requested p' = Some i" using ok by (elim wtp_request_Ok) simp
  ultimately show ?thesis using Inr by (auto simp: is_satisfied_iff)
next
  case (Inl e)
  with assms have "wtp_request K i p = (Inl e, p')" by simp
  then show ?thesis
  proof (cases rule: wtp_request_Err)
    case early
    then show ?thesis using assms(2) Inl by simp
  next
    case (rolled_back p1 cur p2 p3 sampled p4 r' p5)
    obtain st c where r': "r' = (st, c)" by fastforce
    have "holds_request p5 = (if st = STATUS_SUCCESS then False else holds_request p4)"
      using rolled_back(4) r' by (auto dest!: holds_set_call)
    moreover have "last (set_calls p') = (ucast i, False, st)"
      using rolled_back(4,5) r' by (auto simp: nt_set_timer_resolution_def Let_def split: prod.splits)
    ultimately show ?thesis using Inl rolled_back(5) by auto
  qed
qed

theorem wtp_request_no_leak_witness:
  "wtp_request sim_kernel 5000 (wtp_new 156250) =
     (Inr \<lparr>obs_requested = 5000, reported_current = 5000, obs_status = 0\<rparr>,
      \<lparr>wtp_requested = Some 5000, operation_context = None, kernel = 5000,
       set_calls = [(5000, True, 0)]\<rparr>)
   \<and> holds_request (snd (wtp_request sim_kernel 5000 (wtp_new 156250)))"
proof -
  have run: "wtp_request sim_kernel 5000 (wtp_new 156250) =
     (Inr \<lparr>obs_requested = 5000, reported_current = 5000, obs_status = 0\<rparr>,
      \<lparr>wtp_requested = Some 5000, operation_context = None, kernel = 5000,
       set_calls = [(5000, True, 0)]\<rparr>)"
    by (simp add: sim_eval)
  then show ?thesis using wtp_request_no_leak [OF run]
    by (simp add: holds_request_def wtp_new_def)
qed

end
