(* ===== verification/Ownership.thy ===== *)
theory Ownership
  imports Platform
begin

text \<open>
  Model of \<open>crates/tick-ownership\<close>: the ownership state machine and the timer controller that
  drives a platform. The controller is generic in the platform, as in the code: its operations
  take the record of platform operations, and its lemmas are proved inside the platform contract.
\<close>

section \<open>Ownership\<close>

datatype ownership_state = OwnReleased | Owned | Uncertain

datatype transition = TransAcquire | TransRelease

definition ownership_apply :: "transition \<Rightarrow> ownership_state \<Rightarrow> (core_error, bool) result \<times> ownership_state"
  where
  "ownership_apply t st =
     (case (st, t) of
        (OwnReleased, TransAcquire) \<Rightarrow> (Ok True, Owned)
      | (Owned, TransRelease) \<Rightarrow> (Ok True, OwnReleased)
      | (Uncertain, TransRelease) \<Rightarrow> (Ok True, OwnReleased)
      | (Owned, TransAcquire) \<Rightarrow> (Ok False, Owned)
      | (Uncertain, TransAcquire) \<Rightarrow> (Ok False, Uncertain)
      | (OwnReleased, TransRelease) \<Rightarrow> (Ok False, OwnReleased))"

definition mark_uncertain :: "ownership_state \<Rightarrow> ownership_state" where
  "mark_uncertain st = Uncertain"

fun ownership_status :: "ownership_state \<Rightarrow> status" where
  "ownership_status OwnReleased = Released"
| "ownership_status Owned = Active"
| "ownership_status Uncertain = Unknown"

datatype verification = NotCollected | Verified | FinerThanRequested | Unverified

record timing_snapshot =
  snap_requested :: "hns option"
  snap_selected :: "hns option"
  snap_effective :: "hns option"
  snap_minimum :: "hns option"
  snap_maximum :: "hns option"
  snap_status :: "nt_status option"

definition snapshot_empty :: timing_snapshot where
  "snapshot_empty = \<lparr>snap_requested = None, snap_selected = None, snap_effective = None,
     snap_minimum = None, snap_maximum = None, snap_status = None\<rparr>"

definition or_else :: "'a option \<Rightarrow> 'a option \<Rightarrow> 'a option" where
  "or_else a b = (case a of None \<Rightarrow> b | Some _ \<Rightarrow> a)"

definition snapshot_relation :: "timing_snapshot \<Rightarrow> string option" where
  "snapshot_relation s =
     (case (or_else (snap_selected s) (snap_requested s), snap_effective s) of
        (Some req, Some eff) \<Rightarrow>
          Some (if eff < req then ''finer'' else if eff = req then ''equal'' else ''unverified'')
      | _ \<Rightarrow> None)"

definition invalidate_effective :: "timing_snapshot \<Rightarrow> timing_snapshot" where
  "invalidate_effective s = s\<lparr>snap_effective := None, snap_status := None\<rparr>"

section \<open>Settle probe bookkeeping\<close>

definition KERNEL_SETTLE_HIGH_RESOLUTION_THRESHOLD_HNS :: hns where
  [model_defs]: "KERNEL_SETTLE_HIGH_RESOLUTION_THRESHOLD_HNS = HNS_PER_MILLISECOND"

definition KERNEL_SETTLE_PROBE_CANDIDATE_INTERVAL_HNS :: hns where
  [model_defs]: "KERNEL_SETTLE_PROBE_CANDIDATE_INTERVAL_HNS = HNS_PER_MILLISECOND div 2"

definition SETTLE_PROBE_ATTEMPTS :: u32 where
  [model_defs]: "SETTLE_PROBE_ATTEMPTS = 3"

definition settle_probe_budget_remaining :: "u32 \<Rightarrow> u32" where
  "settle_probe_budget_remaining attempts_used = saturating_sub SETTLE_PROBE_ATTEMPTS attempts_used"

datatype settle_probe_outcome = Resolved u64 | ExternalClientConfirmed | Exhausted

datatype settle_probe_step = NotApplicable | Retry u32 | Settled settle_probe_outcome

definition settle_probe_no_change :: "u32 \<Rightarrow> settle_probe_step" where
  "settle_probe_no_change attempts_consumed =
     (let budget_remaining = settle_probe_budget_remaining attempts_consumed in
      if budget_remaining = 0 then Settled Exhausted else Retry budget_remaining)"

definition verification_for_observation :: "timer_observation \<Rightarrow> verification" where
  "verification_for_observation ob =
     (if is_finer_than_requested ob then FinerThanRequested else Verified)"

section \<open>The timer controller\<close>

record 'p timer_controller =
  platform :: 'p
  ownership :: ownership_state
  requested_interval :: hns
  selected_interval :: "hns option"
  release_boundary :: "hns option"
  verification :: verification
  observation :: "timer_observation option"
  snapshot :: timing_snapshot

definition controller_new :: "'p \<Rightarrow> hns \<Rightarrow> 'p timer_controller" where
  "controller_new p requested =
     \<lparr>platform = p, ownership = OwnReleased, requested_interval = requested,
      selected_interval = None, release_boundary = None, verification = NotCollected,
      observation = None, snapshot = snapshot_empty\<rparr>"

definition ctl_set_operation_context ::
    "'p timer_platform \<Rightarrow> op_context \<Rightarrow> 'p timer_controller \<Rightarrow> 'p timer_controller" where
  "ctl_set_operation_context P ctx c = c\<lparr>platform := tp_set_operation_context P ctx (platform c)\<rparr>"

text \<open>Lift a platform call to the controller that owns the platform.\<close>

definition on_platform ::
    "('p \<Rightarrow> 'r \<times> 'p) \<Rightarrow> 'p timer_controller \<Rightarrow> 'r \<times> 'p timer_controller" where
  "on_platform f c = (let (r, p) = f (platform c) in (r, c\<lparr>platform := p\<rparr>))"

definition record_query :: "hns \<Rightarrow> hns \<Rightarrow> nt_status \<Rightarrow> 'p timer_controller \<Rightarrow> 'p timer_controller" where
  "record_query interval current st c =
     c\<lparr>observation := Some \<lparr>obs_requested = interval, reported_current = current, obs_status = st\<rparr>,
       snapshot := (snapshot c)\<lparr>snap_requested := Some interval, snap_effective := Some current,
                                 snap_status := Some st\<rparr>\<rparr>"

definition invalidate_query :: "'p timer_controller \<Rightarrow> 'p timer_controller" where
  "invalidate_query c = c\<lparr>observation := None, snapshot := invalidate_effective (snapshot c)\<rparr>"

definition set_snap_selected :: "hns option \<Rightarrow> 'p timer_controller \<Rightarrow> 'p timer_controller" where
  "set_snap_selected v c = c\<lparr>snapshot := (snapshot c)\<lparr>snap_selected := v\<rparr>\<rparr>"

definition set_snap_bounds :: "timer_bounds \<Rightarrow> 'p timer_controller \<Rightarrow> 'p timer_controller" where
  "set_snap_bounds b c = c\<lparr>snapshot := (snapshot c)\<lparr>snap_minimum := Some (minimum_interval b),
                                                   snap_maximum := Some (maximum_interval b)\<rparr>\<rparr>"

definition selected_for_query ::
    "'p timer_platform \<Rightarrow> 'p timer_controller \<Rightarrow> (timer_error, hns) result \<times> 'p timer_controller" where
  "selected_for_query P c =
     (case release_boundary c of
        Some interval \<Rightarrow> (Ok interval, c)
      | None \<Rightarrow>
          (case selected_interval c of
             Some interval \<Rightarrow> (Ok interval, c)
           | None \<Rightarrow>
               and_then (on_platform (tp_resolve P (requested_interval c)) c) (\<lambda>interval c1.
                 (Ok interval, c1\<lparr>selected_interval := Some interval\<rparr>))))"

definition ctl_query ::
    "'p timer_platform \<Rightarrow> 'p timer_controller
      \<Rightarrow> (timer_error, timer_observation) result \<times> 'p timer_controller" where
  "ctl_query P c =
     (case selected_for_query P c of
        (Inl e, c1) \<Rightarrow> (Err e, invalidate_query c1)
      | (Inr interval, c1) \<Rightarrow>
          (case on_platform (tp_query P interval) c1 of
             (Inl e, c2) \<Rightarrow> (Err e, invalidate_query c2)
           | (Inr q, c2) \<Rightarrow>
               let c3 = set_snap_selected (or_else (selected_interval c2) (release_boundary c2)) c2;
                   c4 = record_query interval (query_current q) (query_status q)
                          (set_snap_bounds (bounds q) c3)
               in (Ok (the (observation c4)), c4)))"

definition observe_current ::
    "'p timer_platform \<Rightarrow> hns \<Rightarrow> 'p timer_controller
      \<Rightarrow> (timer_error, timer_observation) result \<times> 'p timer_controller" where
  "observe_current P boundary c =
     (if release_boundary c \<noteq> Some boundary then (Err InvalidInterval, c)
      else case on_platform (tp_query P boundary) c of
             (Inl e, c1) \<Rightarrow> (Err e, invalidate_query c1)
           | (Inr q, c1) \<Rightarrow>
               let c2 = record_query boundary (query_current q) (query_status q)
                          (set_snap_bounds (bounds q) (set_snap_selected (Some boundary) c1))
               in (Ok (the (observation c2)), c2))"

definition ctl_start ::
    "'p timer_platform \<Rightarrow> 'p timer_controller
      \<Rightarrow> (timer_error, verification) result \<times> 'p timer_controller" where
  "ctl_start P c =
     (if ownership c \<noteq> OwnReleased \<or> verification c = Unverified then (Ok (verification c), c)
      else case on_platform (tp_resolve P (requested_interval c)) c of
        (Inl e, c1) \<Rightarrow> (Err e, invalidate_query c1)
      | (Inr interval, c1) \<Rightarrow>
          let c2 = c1\<lparr>selected_interval := Some interval, release_boundary := None\<rparr> in
          (case on_platform (tp_preflight P interval) c2 of
             (Inl e, c3) \<Rightarrow> (Err e, invalidate_query c3)
           | (Inr q, c3) \<Rightarrow>
               let c4 = record_query interval (query_current q) (query_status q)
                          (set_snap_bounds (bounds q) (set_snap_selected (Some interval) c3)) in
               (case on_platform (tp_request P interval) c4 of
                  (Inl e, c5) \<Rightarrow>
                    (case e of
                       PostconditionUnverified st current \<Rightarrow>
                         (let c6 = record_query interval current st
                                     (set_snap_selected (Some interval) c5)
                          in (Err e, c6\<lparr>ownership := mark_uncertain (ownership c6),
                                         verification := Unverified\<rparr>))
                     | _ \<Rightarrow> (Err e, c5))
                | (Inr ob, c5) \<Rightarrow>
                    let c6 = record_query (obs_requested ob) (reported_current ob) (obs_status ob)
                               (set_snap_selected (Some interval) c5) in
                    (case ownership_apply TransAcquire (ownership c6) of
                       (Inl _, own) \<Rightarrow> (Err InvalidStateTransition, c6\<lparr>ownership := own\<rparr>)
                     | (Inr _, own) \<Rightarrow>
                         let v = verification_for_observation ob
                         in (Ok v, c6\<lparr>ownership := own, verification := v\<rparr>)))))"

definition ctl_stop ::
    "'p timer_platform \<Rightarrow> 'p timer_controller \<Rightarrow> (timer_error, bool) result \<times> 'p timer_controller" where
  "ctl_stop P c =
     (if ownership c = OwnReleased then (Ok False, c)
      else case selected_interval c of
        None \<Rightarrow> (Err InvalidInterval, c)
      | Some interval \<Rightarrow>
          (case on_platform (tp_release P interval) c of
             (Inl e, c1) \<Rightarrow> (Err e, c1\<lparr>verification := Unverified\<rparr>)
           | (Inr ob, c1) \<Rightarrow>
               let c2 = record_query (obs_requested ob) (reported_current ob) (obs_status ob)
                          (set_snap_selected (Some interval) c1) in
               (case ownership_apply TransRelease (ownership c2) of
                  (Inl _, own) \<Rightarrow> (Err InvalidStateTransition, c2\<lparr>ownership := own\<rparr>)
                | (Inr _, own) \<Rightarrow>
                    (Ok True, c2\<lparr>ownership := own, verification := NotCollected,
                                 release_boundary := Some interval, selected_interval := None\<rparr>))))"

definition clamp_requested_interval_floor :: "hns \<Rightarrow> 'p timer_controller \<Rightarrow> 'p timer_controller" where
  "clamp_requested_interval_floor lo c =
     (let c1 = (if requested_interval c < lo then c\<lparr>requested_interval := lo\<rparr> else c) in
      if (case selected_interval c1 of Some v \<Rightarrow> v < lo | None \<Rightarrow> False)
      then c1\<lparr>selected_interval := None\<rparr> else c1)"

definition clear_release_boundary :: "'p timer_controller \<Rightarrow> 'p timer_controller" where
  "clear_release_boundary c = set_snap_selected None (c\<lparr>release_boundary := None\<rparr>)"

definition attempt_startup_kernel_settle_probe ::
    "'p timer_platform \<Rightarrow> u32 \<Rightarrow> 'p timer_controller \<Rightarrow> settle_probe_step \<times> 'p timer_controller" where
  "attempt_startup_kernel_settle_probe P attempts_used c =
     (case snap_effective (snapshot c) of
        None \<Rightarrow> (NotApplicable, c)
      | Some effective \<Rightarrow>
          if ownership c \<noteq> OwnReleased then (NotApplicable, c)
          else if KERNEL_SETTLE_HIGH_RESOLUTION_THRESHOLD_HNS < effective
          then (Settled ExternalClientConfirmed, c)
          else if settle_probe_budget_remaining attempts_used = 0 then (Settled Exhausted, c)
          else
            let attempts_consumed = saturating_add attempts_used 1 in
            (case on_platform (tp_settle_probe P KERNEL_SETTLE_PROBE_CANDIDATE_INTERVAL_HNS) c of
               (Inl _, c1) \<Rightarrow> (settle_probe_no_change attempts_consumed, c1)
             | (Inr probe, c1) \<Rightarrow>
                 let c2 = (record_query KERNEL_SETTLE_PROBE_CANDIDATE_INTERVAL_HNS
                             (after_effective probe) 0 c1)
                            \<lparr>release_boundary := None, selected_interval := None\<rparr>
                 in (if probe_outcome probe = Restored
                        \<and> before_effective probe < after_effective probe
                     then Settled (Resolved (saturating_sub (after_effective probe)
                                                            (before_effective probe)))
                     else if probe_outcome probe = ExternalTiming
                     then Settled ExternalClientConfirmed
                     else settle_probe_no_change attempts_consumed, c2)))"

definition ctl_status :: "'p timer_controller \<Rightarrow> status" where
  "ctl_status c = ownership_status (ownership c)"

section \<open>Operation sequences\<close>

text \<open>The operations a client can issue, and the controller after a sequence of them.\<close>

datatype ctl_op =
  OpQuery | OpObserve hns | OpStart | OpStop | OpClamp hns | OpClearBoundary | OpSettle u32
  | OpContext op_context

fun ctl_step :: "'p timer_platform \<Rightarrow> ctl_op \<Rightarrow> 'p timer_controller \<Rightarrow> 'p timer_controller" where
  "ctl_step P OpQuery c = snd (ctl_query P c)"
| "ctl_step P (OpObserve b) c = snd (observe_current P b c)"
| "ctl_step P OpStart c = snd (ctl_start P c)"
| "ctl_step P OpStop c = snd (ctl_stop P c)"
| "ctl_step P (OpClamp f) c = clamp_requested_interval_floor f c"
| "ctl_step P OpClearBoundary c = clear_release_boundary c"
| "ctl_step P (OpSettle n) c = snd (attempt_startup_kernel_settle_probe P n c)"
| "ctl_step P (OpContext ctx) c = ctl_set_operation_context P ctx c"

definition ctl_run :: "'p timer_platform \<Rightarrow> ctl_op list \<Rightarrow> 'p timer_controller \<Rightarrow> 'p timer_controller" where
  "ctl_run P ops c = foldl (\<lambda>c op. ctl_step P op c) c ops"

section \<open>Invariant\<close>

text \<open>
  The controller's claim about the request agrees with the platform's: released means that no
  request is held and nothing is claimed about verification, owned means that a request is held,
  uncertain is always marked unverified. A held or uncertain request never coexists with a
  release boundary. The snapshot mirrors the last observation.
\<close>

definition own_inv :: "('p \<Rightarrow> bool) \<Rightarrow> 'p timer_controller \<Rightarrow> bool" where
  "own_inv holds c \<longleftrightarrow>
     (case ownership c of
        OwnReleased \<Rightarrow> \<not> holds (platform c) \<and> verification c = NotCollected
      | Owned \<Rightarrow> holds (platform c) \<and> verification c \<noteq> NotCollected \<and> release_boundary c = None
      | Uncertain \<Rightarrow> verification c = Unverified \<and> release_boundary c = None)"

definition mirror_inv :: "'p timer_controller \<Rightarrow> bool" where
  "mirror_inv c \<longleftrightarrow>
     (case observation c of
        None \<Rightarrow> snap_effective (snapshot c) = None \<and> snap_status (snapshot c) = None
      | Some ob \<Rightarrow> snap_effective (snapshot c) = Some (reported_current ob)
          \<and> snap_status (snapshot c) = Some (obs_status ob)
          \<and> snap_requested (snapshot c) = Some (obs_requested ob))"

text \<open>A held or uncertain request can be released: the interval to release is known.\<close>

definition releasable :: "'p timer_controller \<Rightarrow> bool" where
  "releasable c \<longleftrightarrow> (ownership c \<noteq> OwnReleased \<longrightarrow> selected_interval c \<noteq> None)"

lemmas ctl_parts = record_query_def invalidate_query_def invalidate_effective_def
  set_snap_selected_def set_snap_bounds_def mark_uncertain_def ownership_apply_def Let_def

lemma on_platform_eq:
  "on_platform f c = (r, c') \<longleftrightarrow> (\<exists>p. f (platform c) = (r, p) \<and> c' = c\<lparr>platform := p\<rparr>)"
  by (auto simp: on_platform_def Let_def split: prod.splits)

lemma own_inv_new: "\<not> holds p \<Longrightarrow> own_inv holds (controller_new p r)"
  by (simp add: own_inv_def controller_new_def)

lemma mirror_record [simp]: "mirror_inv (record_query i cur st c)"
  by (simp add: mirror_inv_def record_query_def)

lemma mirror_invalidate [simp]: "mirror_inv (invalidate_query c)"
  by (simp add: mirror_inv_def invalidate_query_def invalidate_effective_def)

lemma mirror_inv_update [simp]:
  "mirror_inv (c\<lparr>platform := p\<rparr>) = mirror_inv c"
  "mirror_inv (c\<lparr>ownership := ow\<rparr>) = mirror_inv c"
  "mirror_inv (c\<lparr>verification := v\<rparr>) = mirror_inv c"
  "mirror_inv (c\<lparr>selected_interval := i\<rparr>) = mirror_inv c"
  "mirror_inv (c\<lparr>release_boundary := i\<rparr>) = mirror_inv c"
  "mirror_inv (c\<lparr>requested_interval := h\<rparr>) = mirror_inv c"
  "mirror_inv (set_snap_selected i c) = mirror_inv c"
  by (simp_all add: mirror_inv_def set_snap_selected_def split: option.splits)

lemma mirror_inv_step: "mirror_inv c \<Longrightarrow> mirror_inv (ctl_step P op c)"
proof (cases op)
  case OpStart
  assume "mirror_inv c"
  then show ?thesis unfolding OpStart ctl_step.simps ctl_start_def
    by (auto simp: on_platform_eq Let_def split: prod.splits sum.splits timer_error.splits)
next
  case OpStop
  assume "mirror_inv c"
  then show ?thesis unfolding OpStop ctl_step.simps ctl_stop_def
    by (auto simp: on_platform_eq Let_def split: prod.splits sum.splits option.splits)
next
  case OpQuery
  then show ?thesis by (auto simp: ctl_query_def Let_def split: prod.splits sum.splits)
next
  case (OpObserve b)
  assume "mirror_inv c"
  then show ?thesis
    unfolding OpObserve by (auto simp: observe_current_def Let_def split: prod.splits sum.splits)
next
  case (OpSettle n)
  assume "mirror_inv c"
  then show ?thesis unfolding OpSettle ctl_step.simps attempt_startup_kernel_settle_probe_def
    by (auto simp: on_platform_eq Let_def split: prod.splits sum.splits option.splits)
qed (auto simp: clamp_requested_interval_floor_def clear_release_boundary_def
    ctl_set_operation_context_def Let_def split: option.splits)

section \<open>Lemmas under the platform contract\<close>

context platform_contract
begin

text \<open>A successful start from the released state owns a verified interval.\<close>

lemma start_ok:
  assumes "ctl_start P c = (Inr v, c')" "ownership c = OwnReleased" "verification c \<noteq> Unverified"
  shows "ownership c' = Owned \<and> verification c' = v \<and> v \<in> {Verified, FinerThanRequested}
    \<and> (\<exists>i ob. selected_interval c' = Some i \<and> observation c' = Some ob \<and> obs_requested ob = i
         \<and> is_satisfied ob \<and> i \<noteq> 0 \<and> i \<le> U32_MAX
         \<and> (requested_interval c \<noteq> 0 \<longrightarrow> i = requested_interval c)
         \<and> (v = FinerThanRequested \<longleftrightarrow> reported_current ob < i))"
  using assms unfolding ctl_start_def
  by (auto simp: on_platform_eq ctl_parts verification_for_observation_def
      is_finer_than_requested_def is_satisfied_def dest!: resolve_ok request_ok
      split: prod.splits sum.splits timer_error.splits if_splits)

lemma settle_retry_budget:
  assumes "attempt_startup_kernel_settle_probe P n c = (Retry b, c')"
  shows "unat n < 2 \<and> unat b = 2 - unat n"
  using assms
  by (auto simp: attempt_startup_kernel_settle_probe_def settle_probe_no_change_def Let_def
      settle_probe_budget_remaining_def word_unat_eq_iff unat_saturating_sub unat_saturating_add
      SETTLE_PROBE_ATTEMPTS_def split: prod.splits sum.splits option.splits if_splits)

end

context tracked_platform
begin

lemma keeps:
  "tp_query P i p = (q, p') \<Longrightarrow> holds p' = holds p"
  "tp_resolve P i p = (r, p') \<Longrightarrow> holds p' = holds p"
  "tp_preflight P i p = (q, p') \<Longrightarrow> holds p' = holds p"
  using query_holds [of i p] resolve_holds [of i p] preflight_holds [of i p] by simp_all

lemma selected_for_query_inv:
  "own_inv holds c \<Longrightarrow> selected_for_query P c = (r, c') \<Longrightarrow> own_inv holds c'"
  by (auto simp: selected_for_query_def on_platform_def own_inv_def and_then_def dest!: keeps
      split: option.splits prod.splits sum.splits ownership_state.splits)

lemma record_inv [simp]:
  "own_inv holds (record_query i cur st c) = own_inv holds c"
  "own_inv holds (invalidate_query c) = own_inv holds c"
  "own_inv holds (set_snap_selected v c) = own_inv holds c"
  "own_inv holds (set_snap_bounds b c) = own_inv holds c"
  by (simp_all add: own_inv_def ctl_parts split: ownership_state.splits)

lemma platform_inv: "holds p = holds (platform c) \<Longrightarrow> own_inv holds (c\<lparr>platform := p\<rparr>) = own_inv holds c"
  by (simp add: own_inv_def split: ownership_state.splits)

lemma call_inv:
  "own_inv holds c \<Longrightarrow> tp_query P i (platform c) = (q, p) \<Longrightarrow> own_inv holds (c\<lparr>platform := p\<rparr>)"
  by (simp add: platform_inv keeps)

lemma query_inv: "own_inv holds c \<Longrightarrow> own_inv holds (snd (ctl_query P c))"
  by (auto simp: ctl_query_def on_platform_eq Let_def intro: call_inv selected_for_query_inv
      split: sum.splits prod.splits)

lemma observe_inv: "own_inv holds c \<Longrightarrow> own_inv holds (snd (observe_current P b c))"
  by (auto simp: observe_current_def on_platform_eq Let_def intro: call_inv
      split: sum.splits prod.splits)

lemma start_inv:
  assumes inv: "own_inv holds c" shows "own_inv holds (snd (ctl_start P c))"
proof (cases "ownership c = OwnReleased \<and> verification c \<noteq> Unverified")
  case True
  obtain r p1 where p1: "tp_resolve P (requested_interval c) (platform c) = (r, p1)" by fastforce
  note start = ctl_start_def on_platform_def p1 ctl_parts own_inv_def True
  have h1: "\<not> holds p1" using keeps(2) [OF p1] inv True by (simp add: own_inv_def)
  show ?thesis
  proof (cases r)
    case Inl
    then show ?thesis using h1 inv True by (simp add: start)
  next
    case (Inr i)
    obtain q p2 where p2: "tp_preflight P i p1 = (q, p2)" by fastforce
    then have h2: "\<not> holds p2" using keeps(3) [OF p2] h1 by simp
    obtain ob p3 where p3: "tp_request P i p2 = (ob, p3)" by fastforce
    have h3: "holds p3" if "ob = Inr x" for x using request_holds p3 that by simp
    have h4: "\<not> holds p3" if "ob = Inl e" "\<nexists>st cur. e = PostconditionUnverified st cur" for e
      using request_failed [of i p2 e p3] p3 that h2 by simp
    show ?thesis
      using inv True Inr h2 h3 h4
      by (cases q; cases ob) (auto simp: start p2 p3 verification_for_observation_def
          split: timer_error.splits)
  qed
qed (use inv in \<open>auto simp: ctl_start_def\<close>)

lemma stop_inv: "own_inv holds c \<Longrightarrow> own_inv holds (snd (ctl_stop P c))"
  by (cases "ownership c") (auto simp: ctl_stop_def on_platform_eq ctl_parts own_inv_def
      dest: release_failed release_drops split: sum.splits option.splits prod.splits)

lemma settle_inv:
  "own_inv holds c \<Longrightarrow> own_inv holds (snd (attempt_startup_kernel_settle_probe P n c))"
  using probe_holds [of KERNEL_SETTLE_PROBE_CANDIDATE_INTERVAL_HNS "platform c"]
  by (auto simp: attempt_startup_kernel_settle_probe_def on_platform_def ctl_parts own_inv_def
      split: sum.splits option.splits ownership_state.splits prod.splits)

lemma simple_inv:
  "own_inv holds c \<Longrightarrow> own_inv holds (clamp_requested_interval_floor f c)"
  "own_inv holds c \<Longrightarrow> own_inv holds (ctl_set_operation_context P ctx c)"
  "own_inv holds c \<Longrightarrow> own_inv holds (clear_release_boundary c)"
  by (auto simp: clamp_requested_interval_floor_def ctl_set_operation_context_def own_inv_def
      context_holds clear_release_boundary_def set_snap_selected_def Let_def
      split: ownership_state.splits option.splits)

lemma step_inv: "own_inv holds c \<Longrightarrow> own_inv holds (ctl_step P op c)"
  by (cases op) (auto intro: query_inv observe_inv start_inv stop_inv settle_inv simple_inv)

lemma run_inv: "own_inv holds c \<Longrightarrow> own_inv holds (ctl_run P ops c)"
  unfolding ctl_run_def by (induction ops arbitrary: c) (auto simp: step_inv)

text \<open>Stopping a held request either drops it or leaves it in place for a retry.\<close>

lemma stop_outcome:
  assumes "own_inv holds c" "ownership c \<noteq> OwnReleased" "selected_interval c = Some i"
  shows "case ctl_stop P c of
      (Inr b, c') \<Rightarrow> b \<and> ownership c' = OwnReleased \<and> \<not> holds (platform c')
        \<and> release_boundary c' = Some i \<and> selected_interval c' = None
    | (Inl e, c') \<Rightarrow> ownership c' = ownership c \<and> holds (platform c') = holds (platform c)
        \<and> selected_interval c' = Some i \<and> verification c' = Unverified"
  using assms
  by (cases "ownership c") (auto simp: ctl_stop_def on_platform_eq ctl_parts
      dest: release_failed release_drops split: sum.splits prod.splits)

end

section \<open>Keeping a request releasable\<close>

lemma releasable_selected:
  "releasable c \<Longrightarrow> selected_for_query P c = (r, c') \<Longrightarrow> releasable c'"
  by (auto simp: selected_for_query_def on_platform_def releasable_def and_then_def
      split: option.splits prod.splits sum.splits)

lemma releasable_step:
  assumes "releasable c" "\<And>f. op = OpClamp f \<Longrightarrow> ownership c = OwnReleased"
  shows "releasable (ctl_step P op c)"
proof (cases op)
  case OpStart
  then show ?thesis using assms(1)
    by (auto simp: ctl_start_def on_platform_eq ctl_parts releasable_def
        split: sum.splits timer_error.splits prod.splits)
next
  case OpQuery
  then show ?thesis using assms(1) releasable_selected [OF assms(1)]
    by (fastforce simp: ctl_query_def on_platform_eq ctl_parts releasable_def
        split: sum.splits prod.splits)
next
  case OpStop
  then show ?thesis using assms(1)
    by (cases "ownership c") (auto simp: ctl_stop_def on_platform_eq ctl_parts releasable_def
        split: sum.splits prod.splits option.splits)
next
  case (OpSettle n)
  then show ?thesis using assms(1)
    by (auto simp: attempt_startup_kernel_settle_probe_def on_platform_def ctl_parts releasable_def
        split: sum.splits option.splits prod.splits)
qed (use assms in \<open>auto simp: observe_current_def on_platform_eq ctl_parts releasable_def
    clamp_requested_interval_floor_def ctl_set_operation_context_def clear_release_boundary_def
    split: sum.splits option.splits prod.splits\<close>)

lemma releasable_run:
  "releasable c \<Longrightarrow> (\<And>f. OpClamp f \<notin> set ops) \<Longrightarrow> releasable (ctl_run P ops c)"
proof (induction ops arbitrary: c)
  case (Cons op ops)
  have "releasable (ctl_step P op c)" using Cons.prems by (intro releasable_step) auto
  with Cons show ?case by (simp add: ctl_run_def)
qed (simp add: ctl_run_def)

lemma mirror_run: "mirror_inv c \<Longrightarrow> mirror_inv (ctl_run P ops c)"
  unfolding ctl_run_def by (induction ops arbitrary: c) (auto intro: mirror_inv_step)

lemma wtp_new_free: "\<not> holds_request (wtp_new k)"
  by (simp add: holds_request_def wtp_new_def)

text \<open>The controller over the Windows platform, after any sequence of operations.\<close>

definition tick_run :: "'k nt_kernel \<Rightarrow> 'k \<Rightarrow> hns \<Rightarrow> ctl_op list \<Rightarrow> 'k windows_timer_platform timer_controller"
  where
  "tick_run K k requested ops = ctl_run (windows_platform K) ops (controller_new (wtp_new k) requested)"

lemma tick_run_inv: "own_inv holds_request (tick_run K k r ops)"
  unfolding tick_run_def by (intro wtp.run_inv own_inv_new wtp_new_free)

section \<open>Properties\<close>

text \<open>C2: the ownership claim is truthful for every kernel behaviour and every sequence of
  operations: a released controller holds no native request, an owned one holds one, and an
  uncertain one is always reported as unverified. The status snapshot always mirrors the last
  observation.\<close>

theorem ownership_truthful:
  "mirror_inv (tick_run K k r ops) \<and>
   (case ownership (tick_run K k r ops) of
      OwnReleased \<Rightarrow> \<not> holds_request (platform (tick_run K k r ops))
        \<and> verification (tick_run K k r ops) = NotCollected
    | Owned \<Rightarrow> holds_request (platform (tick_run K k r ops))
        \<and> verification (tick_run K k r ops) \<noteq> NotCollected
    | Uncertain \<Rightarrow> verification (tick_run K k r ops) = Unverified)"
proof
  have "mirror_inv (controller_new (wtp_new k) r)"
    by (simp add: mirror_inv_def controller_new_def snapshot_empty_def)
  then show "mirror_inv (tick_run K k r ops)" unfolding tick_run_def by (rule mirror_run)
qed (use tick_run_inv [of K k r ops] in \<open>auto simp: own_inv_def split: ownership_state.splits\<close>)

text \<open>C33: a stop of a held or uncertain request, after any sequence of operations and for every kernel, either succeeds, drops
  the native request and opens the release boundary at the released interval, or fails and leaves ownership, native
  request and interval exactly as they were, marked unverified, so that the stop can be retried. The exception is a
  controller whose interval a floor clamp discarded while the request was held: the stop then fails with an invalid
  interval and changes nothing, so that every retry fails in the same way.\<close>

theorem stop_releases_or_keeps:
  assumes "c = tick_run K k r ops" and "ownership c \<noteq> OwnReleased"
  shows "case selected_interval c of
      None \<Rightarrow> (\<exists>f. OpClamp f \<in> set ops) \<and> ctl_stop (windows_platform K) c = (Inl InvalidInterval, c)
    | Some i \<Rightarrow>
        (case ctl_stop (windows_platform K) c of
          (Inr b, c') \<Rightarrow> b \<and> ownership c' = OwnReleased \<and> \<not> holds_request (platform c')
            \<and> release_boundary c' = Some i \<and> selected_interval c' = None
        | (Inl e, c') \<Rightarrow> ownership c' = ownership c
            \<and> holds_request (platform c') = holds_request (platform c)
            \<and> selected_interval c' = Some i \<and> verification c' = Unverified)"
proof (cases "selected_interval c")
  case None
  have "releasable c" if "\<forall>f. OpClamp f \<notin> set ops"
    unfolding assms(1) tick_run_def using that
    by (intro releasable_run) (auto simp: releasable_def controller_new_def)
  then show ?thesis
    using None assms(2) by (auto simp: releasable_def ctl_stop_def)
next
  case (Some i)
  have "own_inv holds_request c"
    unfolding assms(1) by (rule tick_run_inv)
  from wtp.stop_outcome [OF this assms(2) Some, of K] Some show ?thesis
    by simp
qed

lemma tick_run_Cons:
  "tick_run K k r [op] = ctl_step (windows_platform K) op (controller_new (wtp_new k) r)"
  by (simp add: tick_run_def ctl_run_def)

lemmas ctl_eval = ctl_start_def ctl_stop_def ctl_query_def observe_current_def on_platform_def
  selected_for_query_def ctl_parts controller_new_def snapshot_empty_def
  verification_for_observation_def is_finer_than_requested_def or_else_def model_defs

lemma sim_started:
  "ownership (tick_run sim_kernel 156250 0 [OpStart]) = Owned"
  "selected_interval (tick_run sim_kernel 156250 0 [OpStart]) = Some 5000"
  by (simp_all add: tick_run_Cons ctl_eval sim_eval)

lemma sim_clamped:
  "ownership (tick_run sim_kernel 156250 0 [OpStart, OpClamp 10000]) = Owned"
  "selected_interval (tick_run sim_kernel 156250 0 [OpStart, OpClamp 10000]) = None"
proof -
  have "tick_run sim_kernel 156250 0 [OpStart, OpClamp 10000]
      = clamp_requested_interval_floor 10000 (tick_run sim_kernel 156250 0 [OpStart])"
    by (simp add: tick_run_def ctl_run_def)
  then show "ownership (tick_run sim_kernel 156250 0 [OpStart, OpClamp 10000]) = Owned"
    "selected_interval (tick_run sim_kernel 156250 0 [OpStart, OpClamp 10000]) = None"
    using sim_started by (simp_all add: clamp_requested_interval_floor_def Let_def)
qed

theorem stop_releases_or_keeps_witness:
  "(case ctl_stop (windows_platform sim_kernel) (tick_run sim_kernel 156250 0 [OpStart]) of
      (Inr b, c') \<Rightarrow> b \<and> ownership c' = OwnReleased \<and> \<not> holds_request (platform c')
        \<and> release_boundary c' = Some 5000 \<and> selected_interval c' = None
    | (Inl e, c') \<Rightarrow> False)
   \<and> ownership (tick_run sim_kernel 156250 0 [OpStart, OpClamp 10000]) = Owned
   \<and> ctl_stop (windows_platform sim_kernel) (tick_run sim_kernel 156250 0 [OpStart, OpClamp 10000])
       = (Inl InvalidInterval, tick_run sim_kernel 156250 0 [OpStart, OpClamp 10000])"
proof -
  have "\<not> isl (fst (ctl_stop (windows_platform sim_kernel) (tick_run sim_kernel 156250 0 [OpStart])))"
    by (simp add: tick_run_Cons ctl_eval sim_eval)
  moreover have "ctl_stop (windows_platform sim_kernel) (tick_run sim_kernel 156250 0 [OpStart, OpClamp 10000])
       = (Inl InvalidInterval, tick_run sim_kernel 156250 0 [OpStart, OpClamp 10000])"
    using stop_releases_or_keeps [OF refl, of sim_kernel 156250 0 "[OpStart, OpClamp 10000]"]
    by (simp add: sim_clamped)
  ultimately show ?thesis
    using stop_releases_or_keeps [OF refl, of sim_kernel 156250 0 "[OpStart]"]
    by (auto simp: sim_started sim_clamped split: prod.splits sum.splits)
qed

text \<open>C34: a start that succeeds from the released state owns a native interval, the requested one
  unless automatic selection was asked for, whose effective value was verified to be at most 100
  units coarser; it is reported as finer than requested exactly when the effective value is.\<close>

theorem start_owns_verified:
  assumes "ctl_start (windows_platform K) c = (Inr v, c')"
    and "ownership c = OwnReleased" and "verification c = NotCollected"
  shows "ownership c' = Owned \<and> verification c' = v
    \<and> (\<exists>i ob. selected_interval c' = Some i \<and> observation c' = Some ob \<and> obs_requested ob = i
         \<and> unat (reported_current ob) \<le> unat i + 100 \<and> 0 < unat i \<and> unat i < 2 ^ 32
         \<and> (requested_interval c = 0 \<or> i = requested_interval c)
         \<and> (v = FinerThanRequested \<longleftrightarrow> reported_current ob < i))"
proof -
  have "verification c \<noteq> Unverified" using assms(3) by simp
  from wtp.start_ok [OF assms(1,2) this] obtain i ob where
    "ownership c' = Owned" "verification c' = v" and ob: "selected_interval c' = Some i"
    "observation c' = Some ob" "obs_requested ob = i" "is_satisfied ob" "i \<noteq> 0" "i \<le> U32_MAX"
    "requested_interval c \<noteq> 0 \<longrightarrow> i = requested_interval c"
    "v = FinerThanRequested \<longleftrightarrow> reported_current ob < i" by blast
  moreover have "0 < unat i" "unat i < 2 ^ 32"
    using ob(5,6) by (simp_all add: U32_MAX_def word_le_nat_alt unat_gt_0)
  ultimately show ?thesis by (auto simp: is_satisfied_iff)
qed

theorem start_owns_verified_witness:
  "ownership (snd (ctl_start (windows_platform sim_kernel) (controller_new (wtp_new 156250) 0))) = Owned"
proof -
  have "\<exists>v. ctl_start (windows_platform sim_kernel) (controller_new (wtp_new 156250) 0)
      = (Inr v, snd (ctl_start (windows_platform sim_kernel) (controller_new (wtp_new 156250) 0)))"
    by (simp add: ctl_eval sim_eval)
  then show ?thesis
    using start_owns_verified [of sim_kernel "controller_new (wtp_new 156250) 0"]
    by (auto simp: controller_new_def)
qed

text \<open>the startup settle probe is bounded: a retry is granted only to the first two attempts, with
  the exact remaining budget, so the third attempt always ends the probe.\<close>

theorem settle_probe_bounded:
  assumes "attempt_startup_kernel_settle_probe (windows_platform K) n c = (Retry b, c')"
  shows "unat n < 2 \<and> unat b = 2 - unat n"
  by (rule wtp.settle_retry_budget [OF assms])

text \<open>A kernel that refuses every native set call.\<close>

definition refusing_kernel :: "u32 nt_kernel" where
  "refusing_kernel =
     \<lparr>NtQueryTimerResolution = (\<lambda>cur. ((0, 156250, 5000, cur), cur)),
      NtSetTimerResolution = (\<lambda>desired on cur. ((3221225506, cur), cur))\<rparr>"

theorem settle_probe_bounded_witness:
  "attempt_startup_kernel_settle_probe (windows_platform refusing_kernel) 1
     (snd (ctl_query (windows_platform refusing_kernel) (controller_new (wtp_new 5000) 0)))
   = (Retry 1, snd (attempt_startup_kernel_settle_probe (windows_platform refusing_kernel) 1
     (snd (ctl_query (windows_platform refusing_kernel) (controller_new (wtp_new 5000) 0)))))
   \<and> unat (1 :: u32) < 2"
proof -
  have "attempt_startup_kernel_settle_probe (windows_platform refusing_kernel) 1
     (snd (ctl_query (windows_platform refusing_kernel) (controller_new (wtp_new 5000) 0)))
   = (Retry 1, snd (attempt_startup_kernel_settle_probe (windows_platform refusing_kernel) 1
     (snd (ctl_query (windows_platform refusing_kernel) (controller_new (wtp_new 5000) 0)))))"
    by (simp add: ctl_eval sim_eval refusing_kernel_def attempt_startup_kernel_settle_probe_def
        settle_probe_no_change_def settle_probe_budget_remaining_def HNS_PER_MILLISECOND_def
        saturating_sub_def saturating_add_def)
  then show ?thesis using settle_probe_bounded by blast
qed

end
