(* ===== verification/Ipc.thy ===== *)
theory Ipc
  imports Core
begin

unbundle bit_operations_syntax

text \<open>
  Model of the protocol part of \<open>crates/tick-ipc\<close>: CRC-32, session tokens, request frames,
  response frames, interval and schedule payloads, and the per-process rate limiter. Bytes are
  \<open>8 word\<close>, slice lengths \<open>nat\<close>, instants natural numbers of nanoseconds. Entropy, the token
  file and the named pipe transport are outside the model.
\<close>

type_synonym bytes = "u8 list"

definition MAGIC_BYTES :: bytes where
  [model_defs]: "MAGIC_BYTES = [0x54, 0x54, 0x49, 0x50]"

definition PROTOCOL_VERSION :: u16 where
  [model_defs]: "PROTOCOL_VERSION = 0x0001"

definition MAX_PAYLOAD_LEN :: nat where
  [model_defs]: "MAX_PAYLOAD_LEN = 256"

definition MIN_INTERVAL_HNS :: u64 where
  [model_defs]: "MIN_INTERVAL_HNS = 5000"

definition MAX_INTERVAL_HNS :: u64 where
  [model_defs]: "MAX_INTERVAL_HNS = 156250"

definition SYMBOLIC_RESOLUTION_HNS :: u64 where
  [model_defs]: "SYMBOLIC_RESOLUTION_HNS = 5000"

definition TOKEN_LEN :: nat where
  [model_defs]: "TOKEN_LEN = 32"

definition MAX_REQUESTS_PER_SECOND :: nat where
  [model_defs]: "MAX_REQUESTS_PER_SECOND = 10"

definition RATE_LIMIT_WINDOW :: nat where
  [model_defs]: "RATE_LIMIT_WINDOW = 1000000000"

definition MAX_TRACKED_PIDS :: nat where
  [model_defs]: "MAX_TRACKED_PIDS = 64"

section \<open>Little endian integers\<close>

text \<open>\<open>to_le_bytes\<close> and \<open>from_le_bytes\<close> of the standard library, on the numeric value.\<close>

fun to_le :: "nat \<Rightarrow> nat \<Rightarrow> bytes" where
  "to_le 0 v = []"
| "to_le (Suc n) v = of_nat (v mod 256) # to_le n (v div 256)"

fun le_val :: "bytes \<Rightarrow> nat" where
  "le_val [] = 0"
| "le_val (b # bs) = unat b + 256 * le_val bs"

definition u16_to_le :: "u16 \<Rightarrow> bytes" where "u16_to_le w = to_le 2 (unat w)"
definition u32_to_le :: "u32 \<Rightarrow> bytes" where "u32_to_le w = to_le 4 (unat w)"
definition u64_to_le :: "u64 \<Rightarrow> bytes" where "u64_to_le w = to_le 8 (unat w)"
definition u16_from_le :: "bytes \<Rightarrow> u16" where "u16_from_le bs = of_nat (le_val bs)"
definition u32_from_le :: "bytes \<Rightarrow> u32" where "u32_from_le bs = of_nat (le_val bs)"
definition u64_from_le :: "bytes \<Rightarrow> u64" where "u64_from_le bs = of_nat (le_val bs)"

section \<open>CRC-32\<close>

definition crc_shift :: "u32 \<Rightarrow> u32" where
  "crc_shift crc = drop_bit 1 crc XOR (0xEDB88320 AND - (crc AND 1))"

definition crc_byte :: "u32 \<Rightarrow> u8 \<Rightarrow> u32" where
  "crc_byte crc byte = (crc_shift ^^ 8) (crc XOR ucast byte)"

definition crc32 :: "bytes \<Rightarrow> u32" where
  "crc32 data = NOT (foldl crc_byte 0xFFFFFFFF data)"

section \<open>Errors\<close>

datatype ipc_error =
  InvalidMagic
  | UnsupportedVersion u16
  | PayloadTooLarge nat
  | PayloadTruncated
  | InvalidCommandVerb u32
  | IntervalOutOfBounds u64
  | CrcMismatch u32 u32
  | UnauthorizedToken
  | RateLimitExceeded u32
  | MalformedToken
  | MalformedResponse
  | TransportIo u32
  | IpcUnsupported
  | ScheduleOutOfBounds u32
  | TrailingBytes nat nat
  | ScheduleIdMismatch u32

fun error_code :: "ipc_error \<Rightarrow> u32" where
  "error_code InvalidMagic = 1"
| "error_code (UnsupportedVersion _) = 2"
| "error_code (PayloadTooLarge _) = 3"
| "error_code PayloadTruncated = 4"
| "error_code (InvalidCommandVerb _) = 5"
| "error_code (IntervalOutOfBounds _) = 6"
| "error_code (CrcMismatch _ _) = 7"
| "error_code UnauthorizedToken = 8"
| "error_code (RateLimitExceeded _) = 9"
| "error_code MalformedToken = 10"
| "error_code MalformedResponse = 11"
| "error_code (TransportIo _) = 12"
| "error_code IpcUnsupported = 13"
| "error_code (ScheduleOutOfBounds _) = 14"
| "error_code (TrailingBytes _ _) = 15"
| "error_code (ScheduleIdMismatch _) = 16"

fun wire_param :: "ipc_error \<Rightarrow> u32" where
  "wire_param (UnsupportedVersion found) = ucast found"
| "wire_param (PayloadTooLarge len) = of_nat len"
| "wire_param (InvalidCommandVerb v) = v"
| "wire_param (IntervalOutOfBounds r) = ucast r"
| "wire_param (CrcMismatch e _) = e"
| "wire_param (RateLimitExceeded pid) = pid"
| "wire_param (TransportIo raw) = raw"
| "wire_param (ScheduleOutOfBounds s) = s"
| "wire_param (TrailingBytes e _) = of_nat e"
| "wire_param (ScheduleIdMismatch p) = p"
| "wire_param _ = 0"

definition from_code_param :: "u32 \<Rightarrow> u32 \<Rightarrow> ipc_error option" where
  "from_code_param code param =
     (if code = 1 then Some InvalidMagic
      else if code = 2 then Some (UnsupportedVersion (ucast param))
      else if code = 3 then Some (PayloadTooLarge (unat param))
      else if code = 4 then Some PayloadTruncated
      else if code = 5 then Some (InvalidCommandVerb param)
      else if code = 6 then Some (IntervalOutOfBounds (ucast param))
      else if code = 7 then Some (CrcMismatch param 0)
      else if code = 8 then Some UnauthorizedToken
      else if code = 9 then Some (RateLimitExceeded param)
      else if code = 10 then Some MalformedToken
      else if code = 11 then Some MalformedResponse
      else if code = 12 then Some (TransportIo param)
      else if code = 13 then Some IpcUnsupported
      else if code = 14 then Some (ScheduleOutOfBounds param)
      else if code = 15 then Some (TrailingBytes (unat param) 0)
      else if code = 16 then Some (ScheduleIdMismatch param)
      else None)"

definition from_code :: "u32 \<Rightarrow> ipc_error option" where
  "from_code code = from_code_param code 0"

section \<open>Session tokens\<close>

text \<open>A token is a byte array of 32 bytes; \<open>token_ok\<close> is its type.\<close>

type_synonym session_token = bytes

definition token_ok :: "session_token \<Rightarrow> bool" where
  "token_ok t = (length t = TOKEN_LEN)"

fun token_diff :: "u8 \<Rightarrow> session_token \<Rightarrow> session_token \<Rightarrow> u8" where
  "token_diff diff (a # as) (b # bs) = token_diff (diff OR (a XOR b)) as bs"
| "token_diff diff _ _ = diff"

definition token_matches :: "session_token \<Rightarrow> session_token \<Rightarrow> bool" where
  "token_matches t candidate = (token_diff 0 t candidate = 0)"

definition hex_digit :: "u8 \<Rightarrow> u8" where
  "hex_digit n = (if n < 10 then 0x30 + n else 0x61 + (n - 10))"

definition to_hex :: "session_token \<Rightarrow> bytes" where
  "to_hex t = concat (map (\<lambda>b. [hex_digit (drop_bit 4 b), hex_digit (b AND 0x0F)]) t)"

definition hex_nibble :: "u8 \<Rightarrow> u8 option" where
  "hex_nibble b =
     (if 0x30 \<le> b \<and> b \<le> 0x39 then Some (b - 0x30)
      else if 0x61 \<le> b \<and> b \<le> 0x66 then Some (b - 0x61 + 10)
      else None)"

fun hex_pairs :: "bytes \<Rightarrow> (ipc_error, bytes) result" where
  "hex_pairs (h # l # rest) =
     (case hex_nibble h of
        None \<Rightarrow> Err MalformedToken
      | Some high \<Rightarrow>
          (case hex_nibble l of
             None \<Rightarrow> Err MalformedToken
           | Some low \<Rightarrow>
               (case hex_pairs rest of
                  Inl e \<Rightarrow> Err e
                | Inr out \<Rightarrow> Ok ((push_bit 4 high OR low) # out))))"
| "hex_pairs _ = Ok []"

definition from_hex :: "bytes \<Rightarrow> (ipc_error, session_token) result" where
  "from_hex text = (if length text \<noteq> TOKEN_LEN * 2 then Err MalformedToken else hex_pairs text)"

section \<open>Requests\<close>

datatype command_verb = QueryStatus | RequestAcquire | RequestRelease | ScheduleAction | CancelSchedule

fun verb_to_u32 :: "command_verb \<Rightarrow> u32" where
  "verb_to_u32 QueryStatus = 1"
| "verb_to_u32 RequestAcquire = 2"
| "verb_to_u32 RequestRelease = 3"
| "verb_to_u32 ScheduleAction = 4"
| "verb_to_u32 CancelSchedule = 5"

definition verb_from_u32 :: "u32 \<Rightarrow> command_verb option" where
  "verb_from_u32 v =
     (if v = 1 then Some QueryStatus
      else if v = 2 then Some RequestAcquire
      else if v = 3 then Some RequestRelease
      else if v = 4 then Some ScheduleAction
      else if v = 5 then Some CancelSchedule
      else None)"

definition validate_interval_hns :: "u64 \<Rightarrow> (ipc_error, hns) result" where
  "validate_interval_hns interval =
     (if interval = SYMBOLIC_RESOLUTION_HNS then Ok interval
      else if MIN_INTERVAL_HNS \<le> interval \<and> interval \<le> MAX_INTERVAL_HNS then Ok interval
      else Err (IntervalOutOfBounds interval))"

record ipc_frame =
  token :: session_token
  verb :: command_verb
  payload :: bytes

definition frame_new ::
    "session_token \<Rightarrow> command_verb \<Rightarrow> bytes \<Rightarrow> (ipc_error, ipc_frame) result" where
  "frame_new t v p =
     (if MAX_PAYLOAD_LEN < length p then Err (PayloadTooLarge (length p))
      else Ok \<lparr>token = t, verb = v, payload = p\<rparr>)"

definition frame_body :: "ipc_frame \<Rightarrow> bytes" where
  "frame_body f = MAGIC_BYTES @ u16_to_le PROTOCOL_VERSION @ u16_to_le (of_nat (length (payload f)))
     @ token f @ u32_to_le (verb_to_u32 (verb f)) @ payload f"

definition serialize :: "ipc_frame \<Rightarrow> bytes" where
  "serialize f = frame_body f @ u32_to_le (crc32 (frame_body f))"

definition slice :: "nat \<Rightarrow> nat \<Rightarrow> 'a list \<Rightarrow> 'a list" where
  "slice i j xs = take (j - i) (drop i xs)"

definition MIN_FRAME_SIZE :: nat where
  [model_defs]: "MIN_FRAME_SIZE = 4 + 2 + 2 + TOKEN_LEN + 4 + 4"

definition deserialize :: "bytes \<Rightarrow> (ipc_error, ipc_frame) result" where
  "deserialize data =
     (if length data < MIN_FRAME_SIZE then Err PayloadTruncated
      else if slice 0 4 data \<noteq> MAGIC_BYTES then Err InvalidMagic
      else
        let version = u16_from_le (slice 4 6 data) in
        if version \<noteq> PROTOCOL_VERSION then Err (UnsupportedVersion version)
        else
          let payload_len = unat (u16_from_le (slice 6 8 data)) in
          if MAX_PAYLOAD_LEN < payload_len then Err (PayloadTooLarge payload_len)
          else
            let expected_total_len = 4 + 2 + 2 + TOKEN_LEN + 4 + payload_len + 4 in
            if length data < expected_total_len then Err PayloadTruncated
            else if expected_total_len < length data
            then Err (TrailingBytes expected_total_len (length data))
            else
              let body_len = 4 + 2 + 2 + TOKEN_LEN + 4 + payload_len;
                  expected_crc = u32_from_le (slice body_len (body_len + 4) data);
                  calculated_crc = crc32 (take body_len data)
              in if calculated_crc \<noteq> expected_crc
                 then Err (CrcMismatch expected_crc calculated_crc)
                 else
                   let verb_raw = u32_from_le (slice 40 44 data) in
                   case verb_from_u32 verb_raw of
                     None \<Rightarrow> Err (InvalidCommandVerb verb_raw)
                   | Some v \<Rightarrow> Ok \<lparr>token = slice 8 40 data, verb = v,
                                   payload = slice 44 (44 + payload_len) data\<rparr>)"

section \<open>Responses\<close>

text \<open>\<open>std::str::from_utf8\<close> succeeds exactly on well-formed UTF-8.\<close>

definition cont :: "u8 \<Rightarrow> bool" where
  "cont b = (0x80 \<le> b \<and> b \<le> 0xBF)"

fun valid_utf8 :: "bytes \<Rightarrow> bool" where
  "valid_utf8 [] = True"
| "valid_utf8 (a # s) =
     (if a \<le> 0x7F then valid_utf8 s
      else case s of
        [] \<Rightarrow> False
      | b # s1 \<Rightarrow>
          if 0xC2 \<le> a \<and> a \<le> 0xDF then cont b \<and> valid_utf8 s1
          else (case s1 of
            [] \<Rightarrow> False
          | c # s2 \<Rightarrow>
              if 0xE0 \<le> a \<and> a \<le> 0xEF
              then cont b \<and> (a = 0xE0 \<longrightarrow> 0xA0 \<le> b) \<and> (a = 0xED \<longrightarrow> b \<le> 0x9F) \<and> cont c \<and> valid_utf8 s2
              else (case s2 of
                [] \<Rightarrow> False
              | d # s3 \<Rightarrow>
                  0xF0 \<le> a \<and> a \<le> 0xF4 \<and> cont b \<and> (a = 0xF0 \<longrightarrow> 0x90 \<le> b) \<and> (a = 0xF4 \<longrightarrow> b \<le> 0x8F)
                  \<and> cont c \<and> cont d \<and> valid_utf8 s3)))"

datatype ipc_response =
  RespStatus bytes
  | RespAcquired u64
  | RespReleased
  | RespScheduled u32
  | RespCancelled
  | RespError ipc_error

fun encode_response :: "ipc_response \<Rightarrow> bytes" where
  "encode_response (RespStatus text) = 1 # text"
| "encode_response (RespAcquired effective_hns) = 2 # u64_to_le effective_hns"
| "encode_response RespReleased = [3]"
| "encode_response (RespScheduled action_id) = 4 # u32_to_le action_id"
| "encode_response RespCancelled = [5]"
| "encode_response (RespError e) = 6 # u32_to_le (error_code e) @ u32_to_le (wire_param e)"

definition decode_response :: "bytes \<Rightarrow> (ipc_error, ipc_response) result" where
  "decode_response data =
     (case data of
        [] \<Rightarrow> Err MalformedResponse
      | tag # body \<Rightarrow>
          if tag = 1 then (if valid_utf8 body then Ok (RespStatus body) else Err MalformedResponse)
          else if tag = 2 then
            (if length body = 8 then Ok (RespAcquired (u64_from_le body)) else Err MalformedResponse)
          else if tag = 3 then (if body = [] then Ok RespReleased else Err MalformedResponse)
          else if tag = 4 then
            (if length body = 4 then Ok (RespScheduled (u32_from_le body)) else Err MalformedResponse)
          else if tag = 5 then (if body = [] then Ok RespCancelled else Err MalformedResponse)
          else if tag = 6 then
            (if length body = 8 then
               (case from_code_param (u32_from_le (slice 0 4 body)) (u32_from_le (slice 4 8 body)) of
                  None \<Rightarrow> Err MalformedResponse
                | Some e \<Rightarrow> Ok (RespError e))
             else Err MalformedResponse)
          else Err MalformedResponse)"

definition encode_interval_payload :: "u64 \<Rightarrow> (ipc_error, bytes) result" where
  "encode_interval_payload interval =
     (case validate_interval_hns interval of
        Inl e \<Rightarrow> Err e
      | Inr validated \<Rightarrow> Ok (u64_to_le validated))"

datatype schedule_action_kind = KindStart | KindStop | KindPause

fun schedule_tag :: "schedule_action_kind \<Rightarrow> u8" where
  "schedule_tag KindStart = 1"
| "schedule_tag KindStop = 2"
| "schedule_tag KindPause = 3"

definition encode_schedule_payload :: "schedule_action_kind \<Rightarrow> u32 \<Rightarrow> bytes" where
  "encode_schedule_payload kind seconds = schedule_tag kind # u32_to_le seconds"

section \<open>Rate limiter\<close>

record pid_record =
  pid :: u32
  timestamps :: "nat list"
  last_seen :: nat

type_synonym rate_limiter = "pid_record list"

definition limiter_new :: rate_limiter where
  "limiter_new = []"

definition rate_cutoff :: "nat \<Rightarrow> nat" where
  "rate_cutoff now = (if RATE_LIMIT_WINDOW \<le> now then now - RATE_LIMIT_WINDOW else now)"

definition seen_before :: "pid_record \<Rightarrow> pid_record \<Rightarrow> bool" where
  "seen_before a b = (last_seen a < last_seen b \<or> last_seen a = last_seen b \<and> pid a < pid b)"

text \<open>\<open>Iterator::min_by\<close>: the index of the first minimal record.\<close>

fun oldest_index :: "pid_record list \<Rightarrow> nat" where
  "oldest_index [] = 0"
| "oldest_index [r] = 0"
| "oldest_index (r # rs) =
     (let j = oldest_index rs in if seen_before (rs ! j) r then Suc j else 0)"

definition remove_index :: "nat \<Rightarrow> 'a list \<Rightarrow> 'a list" where
  "remove_index i xs = take i xs @ drop (Suc i) xs"

definition evict_least_recently_seen :: "rate_limiter \<Rightarrow> rate_limiter" where
  "evict_least_recently_seen rs = (if rs = [] then rs else remove_index (oldest_index rs) rs)"

fun position :: "('a \<Rightarrow> bool) \<Rightarrow> 'a list \<Rightarrow> nat option" where
  "position P [] = None"
| "position P (x # xs) = (if P x then Some 0 else map_option Suc (position P xs))"

definition find_or_create :: "u32 \<Rightarrow> nat \<Rightarrow> rate_limiter \<Rightarrow> nat \<times> rate_limiter" where
  "find_or_create p now rs =
     (case position (\<lambda>r. pid r = p) rs of
        Some existing \<Rightarrow> (existing, rs)
      | None \<Rightarrow>
          let rs1 = (if MAX_TRACKED_PIDS \<le> length rs then evict_least_recently_seen rs else rs);
              rs2 = rs1 @ [\<lparr>pid = p, timestamps = [], last_seen = now\<rparr>]
          in (length rs2 - 1, rs2))"

definition check_and_record :: "u32 \<Rightarrow> nat \<Rightarrow> rate_limiter \<Rightarrow> (ipc_error, unit) result \<times> rate_limiter"
  where
  "check_and_record p now rs =
     (let cutoff = rate_cutoff now;
          (index, rs1) = find_or_create p now rs;
          r = rs1 ! index;
          r1 = r\<lparr>last_seen := now, timestamps := filter (\<lambda>t. cutoff < t) (timestamps r)\<rparr>
      in if MAX_REQUESTS_PER_SECOND \<le> length (timestamps r1)
         then (Err (RateLimitExceeded p), rs1[index := r1])
         else (Ok (), rs1[index := r1\<lparr>timestamps := timestamps r1 @ [now]\<rparr>]))"

definition prune_idle_callers :: "nat \<Rightarrow> rate_limiter \<Rightarrow> rate_limiter" where
  "prune_idle_callers now rs =
     (let cutoff = rate_cutoff now;
          rs1 = map (\<lambda>r. r\<lparr>timestamps := filter (\<lambda>t. cutoff < t) (timestamps r)\<rparr>) rs
      in filter (\<lambda>r. timestamps r \<noteq> []) rs1)"

definition active_caller_count :: "rate_limiter \<Rightarrow> nat" where
  "active_caller_count rs = length rs"

section \<open>Facts about little endian integers\<close>

lemma length_to_le [simp]: "length (to_le n v) = n"
  by (induction n arbitrary: v) auto

lemma le_val_to_le: "le_val (to_le n v) = v mod 256 ^ n"
proof (induction n arbitrary: v)
  case (Suc n)
  have "unat (of_nat (v mod 256) :: u8) = v mod 256" by (simp add: unat_of_nat)
  then show ?case using Suc by (simp add: mod_mult2_eq)
qed simp

lemma le_val_bound: "le_val bs < 256 ^ length bs"
proof (induction bs)
  case (Cons b bs)
  have "unat b < 256" using unat_lt_power [of b] by simp
  then show ?case using Cons by simp
qed simp

lemma to_le_le_val: "to_le (length bs) (le_val bs) = bs"
proof (induction bs)
  case (Cons b bs)
  have "unat b < 256" using unat_lt_power [of b] by simp
  then show ?case using Cons by simp
qed simp

lemma u16_le_round [simp]: "u16_from_le (u16_to_le w) = w"
  using unat_lt_power [of w] by (simp add: u16_from_le_def u16_to_le_def le_val_to_le)

lemma u32_le_round [simp]: "u32_from_le (u32_to_le w) = w"
  using unat_lt_power [of w] by (simp add: u32_from_le_def u32_to_le_def le_val_to_le)

lemma u64_le_round [simp]: "u64_from_le (u64_to_le w) = w"
  using unat_lt_power [of w] by (simp add: u64_from_le_def u64_to_le_def le_val_to_le)

lemma u16_from_round: "length bs = 2 \<Longrightarrow> u16_to_le (u16_from_le bs) = bs"
  using le_val_bound [of bs] to_le_le_val [of bs]
  by (simp add: u16_from_le_def u16_to_le_def unat_of_nat)

lemma u32_from_round: "length bs = 4 \<Longrightarrow> u32_to_le (u32_from_le bs) = bs"
  using le_val_bound [of bs] to_le_le_val [of bs]
  by (simp add: u32_from_le_def u32_to_le_def unat_of_nat)

lemma u64_from_round: "length bs = 8 \<Longrightarrow> u64_to_le (u64_from_le bs) = bs"
  using le_val_bound [of bs] to_le_le_val [of bs]
  by (simp add: u64_from_le_def u64_to_le_def unat_of_nat)

lemma length_le [simp]:
  "length (u16_to_le a) = 2" "length (u32_to_le b) = 4" "length (u64_to_le c) = 8"
  by (simp_all add: u16_to_le_def u32_to_le_def u64_to_le_def)

section \<open>Facts about the checksum\<close>

lemma crc_shift_eq: "crc_shift c = drop_bit 1 c XOR (if odd c then 0xEDB88320 else 0)"
  by (simp add: crc_shift_def and_one_eq mod_2_eq_odd)

lemma crc_shift_top: "bit (crc_shift c) 31 = odd c"
proof -
  have "\<not> bit c 32" using bit_imp_le_length [of c 32] by auto
  then show ?thesis by (simp add: crc_shift_eq bit_xor_iff bit_drop_bit_eq)
qed

lemma crc_shift_inj: "inj crc_shift"
proof (rule injI)
  fix a b assume eq: "crc_shift a = crc_shift b"
  then have parity: "odd a = odd b" by (metis crc_shift_top)
  with eq have "drop_bit 1 a = drop_bit 1 b"
    by (auto simp: crc_shift_eq) (metis bit.xor_left_self xor.commute)
  then have "a div 2 = b div 2" by (simp add: drop_bit_eq_div)
  moreover have split: "c = 2 * (c div 2) + of_bool (odd c)" for c :: u32
    using mult_div_mod_eq [of 2 c] by (simp add: mod_2_eq_odd)
  ultimately have "a = 2 * (b div 2) + of_bool (odd b)" using parity by (subst split) simp
  then show "a = b" using split [of b] by simp
qed

lemma crc_shifts_inj: "inj (crc_shift ^^ n)"
  by (induction n) (auto simp: inj_compose crc_shift_inj simp del: funpow.simps(2) simp: funpow_Suc_right [symmetric] intro: inj_compose)

lemma xor_cancel_left: "(a :: 'a::len word) XOR b = a XOR c \<longleftrightarrow> b = c"
  by (metis bit.xor_left_self)

lemma crc_byte_state_inj: "crc_byte c x = crc_byte d x \<longleftrightarrow> c = d"
  unfolding crc_byte_def using crc_shifts_inj [of 8]
  by (auto simp: inj_eq) (metis xor.commute xor_cancel_left)

lemma crc_byte_inj: "crc_byte c x = crc_byte c y \<longleftrightarrow> x = y"
proof -
  have "unat b < 2 ^ 32" for b :: u8 using unat_lt_power [of b] by simp
  then have "(ucast x :: u32) = ucast y \<longleftrightarrow> x = y"
    by (simp add: word_unat_eq_iff [where 'a = 32] word_unat_eq_iff [where 'a = 8] unsigned_ucast_eq
        take_bit_nat_eq_self)
  then show ?thesis unfolding crc_byte_def using crc_shifts_inj [of 8]
    by (auto simp: inj_eq xor_cancel_left)
qed

lemma crc_fold_inj: "foldl crc_byte c s = foldl crc_byte d s \<longleftrightarrow> c = d"
  by (induction s arbitrary: c d) (auto simp: crc_byte_state_inj)

lemma crc32_single_byte: "crc32 (a @ x # s) = crc32 (a @ y # s) \<longleftrightarrow> x = y"
proof -
  have "(NOT u = NOT v) = (u = v)" for u v :: u32 by (metis bit.double_compl)
  then show ?thesis by (simp add: crc32_def crc_fold_inj crc_byte_inj)
qed

section \<open>Facts about tokens\<close>

lemma or_eq_zero: "(a :: u8) OR b = 0 \<longleftrightarrow> a = 0 \<and> b = 0"
  by (metis or.right_neutral or_eq_0_iff)

lemma token_diff_zero:
  "length t = length u \<Longrightarrow> token_diff d t u = 0 \<longleftrightarrow> d = 0 \<and> t = u"
proof (induction d t u rule: token_diff.induct)
  case (1 d a as b bs)
  have "a XOR b = 0 \<longleftrightarrow> a = b" by (metis xor_self_eq xor_cancel_left xor.right_neutral)
  then show ?case using 1 by (auto simp: or_eq_zero)
qed auto

lemma hex_nibble_digit: "n < 16 \<Longrightarrow> hex_nibble (hex_digit n) = Some n"
  by (auto simp: hex_nibble_def hex_digit_def word_less_nat_alt word_le_nat_alt unat_word_ariths
      unat_sub word_unat_eq_iff)

lemma hex_digit_nibble: "hex_nibble b = Some n \<Longrightarrow> hex_digit n = b \<and> n < 16"
  by (auto simp: hex_nibble_def hex_digit_def word_less_nat_alt word_le_nat_alt unat_word_ariths
      unat_sub word_unat_eq_iff split: if_splits)

lemma mask4: "(15 :: u8) = mask 4"
  by (simp add: mask_eq_exp_minus_1)

lemma byte_of_nibbles: "push_bit 4 (drop_bit 4 b) OR (b AND 15) = (b :: u8)"
  by (rule bit_word_eqI) (auto simp: mask4 bit_simps)

lemma nibble_take: "(n :: u8) < 16 \<Longrightarrow> take_bit 4 n = n"
  by (simp add: word_unat_eq_iff unsigned_take_bit_eq take_bit_nat_eq_self word_less_nat_alt)

lemma nibble_bits: "(n :: u8) < 16 \<Longrightarrow> bit n i \<Longrightarrow> i < 4"
  by (metis nibble_take bit_take_bit_iff)

lemma nibbles_of_byte:
  assumes "h < 16" "l < (16 :: u8)"
  shows "drop_bit 4 (push_bit 4 h OR l) = h" "(push_bit 4 h OR l) AND 15 = l"
  using nibble_bits [OF assms(1)] nibble_bits [OF assms(2)]
  by (auto intro!: bit_word_eqI simp: mask4 bit_simps) (fastforce dest: nibble_bits [OF assms(1)])+

lemma high_nibble: "drop_bit 4 (b :: u8) < 16"
  using unat_lt_power [of b] by (simp add: word_less_nat_alt unsigned_drop_bit_eq drop_bit_eq_div unat_div)

lemma low_nibble: "(b :: u8) AND 15 < 16"
  by (simp add: mask4 take_bit_eq_mask [symmetric] word_less_nat_alt unsigned_take_bit_eq
      take_bit_eq_mod unat_mod)

lemma hex_pairs_to_hex: "hex_pairs (to_hex t) = Inr t"
  by (induction t) (auto simp: to_hex_def hex_nibble_digit high_nibble low_nibble byte_of_nibbles)

lemma to_hex_hex_pairs: "hex_pairs s = Inr t \<Longrightarrow> even (length s) \<Longrightarrow> to_hex t = s"
proof (induction s arbitrary: t rule: hex_pairs.induct)
  case (1 h l rest)
  from 1(2) obtain a b out where n: "hex_nibble h = Some a" "hex_nibble l = Some b"
    and rest: "hex_pairs rest = Inr out" and t: "t = (push_bit 4 a OR b) # out"
    by (auto split: option.splits sum.splits)
  then have "to_hex out = rest" using 1 by auto
  then show ?case
    using hex_digit_nibble [OF n(1)] hex_digit_nibble [OF n(2)]
    by (simp add: t to_hex_def nibbles_of_byte del: drop_bit_or)
qed (auto simp: to_hex_def)

lemma length_to_hex: "length (to_hex t) = 2 * length t"
  by (induction t) (auto simp: to_hex_def)

section \<open>Facts about frames\<close>

definition frame_ok :: "ipc_frame \<Rightarrow> bool" where
  "frame_ok f = (length (token f) = TOKEN_LEN \<and> length (payload f) \<le> MAX_PAYLOAD_LEN)"

lemma verb_round [simp]: "verb_from_u32 (verb_to_u32 v) = Some v"
  by (cases v) (simp_all add: verb_from_u32_def)

lemma verb_from_Some: "verb_from_u32 w = Some v \<Longrightarrow> verb_to_u32 v = w"
  by (auto simp: verb_from_u32_def split: if_splits)

lemma slice_append [simp]:
  "length a = n \<Longrightarrow> slice n m (a @ b) = take (m - n) b"
  by (simp add: slice_def)

lemma length_frame_body: "frame_ok f \<Longrightarrow> length (frame_body f) = 44 + length (payload f)"
  by (simp add: frame_body_def frame_ok_def model_defs)

lemma frame_body_fields:
  assumes "frame_ok f"
  shows "slice 0 4 (frame_body f @ r) = MAGIC_BYTES"
    and "slice 4 6 (frame_body f @ r) = u16_to_le PROTOCOL_VERSION"
    and "slice 6 8 (frame_body f @ r) = u16_to_le (of_nat (length (payload f)))"
    and "slice 8 40 (frame_body f @ r) = token f"
    and "slice 40 44 (frame_body f @ r) = u32_to_le (verb_to_u32 (verb f))"
    and "slice 44 (44 + length (payload f)) (frame_body f @ r) = payload f"
  using assms by (simp_all add: frame_body_def slice_def frame_ok_def model_defs)

lemma payload_len_round:
  "length p \<le> 256 \<Longrightarrow> unat (of_nat (length p) :: u16) = length p"
  by (simp add: unat_of_nat)

lemma deserialize_serialize: "frame_ok f \<Longrightarrow> deserialize (serialize f) = Inr f"
  using payload_len_round [of "payload f"]
  by (simp add: deserialize_def serialize_def Let_def frame_body_fields length_frame_body
      frame_ok_def [unfolded model_defs] model_defs slice_def [of "44 + _"])

lemma slice_join:
  assumes "i \<le> j" "j \<le> k" shows "slice i j xs @ slice j k xs = slice i k xs"
proof -
  obtain a b where "j = i + a" "k = i + a + b" using assms by (metis le_iff_add)
  then show ?thesis by (simp add: slice_def take_add add.commute add.left_commute)
qed

lemma if_Err_Inr: "(if b then Inl e else x) = Inr y \<longleftrightarrow> \<not> b \<and> x = Inr y"
  by auto

lemma deserialize_checks:
  assumes "deserialize data = Inr f"
  defines "n \<equiv> unat (u16_from_le (slice 6 8 data))"
  shows "slice 0 4 data = MAGIC_BYTES" "u16_from_le (slice 4 6 data) = PROTOCOL_VERSION"
    "n \<le> MAX_PAYLOAD_LEN" "length data = 4 + 2 + 2 + TOKEN_LEN + 4 + n + 4"
    "crc32 (take (4 + 2 + 2 + TOKEN_LEN + 4 + n) data)
       = u32_from_le (slice (4 + 2 + 2 + TOKEN_LEN + 4 + n) (4 + 2 + 2 + TOKEN_LEN + 4 + n + 4) data)"
    "verb_from_u32 (u32_from_le (slice 40 44 data)) = Some (verb f)"
    "token f = slice 8 40 data" "payload f = slice 44 (44 + n) data"
proof -
  note checks = assms(1) [unfolded deserialize_def Let_def if_Err_Inr, folded n_def]
  from checks show "slice 0 4 data = MAGIC_BYTES" by (elim conjE) simp
  from checks show "u16_from_le (slice 4 6 data) = PROTOCOL_VERSION" by (elim conjE) simp
  from checks show "n \<le> MAX_PAYLOAD_LEN" by (elim conjE) (simp only: not_less)
  from checks show "length data = 4 + 2 + 2 + TOKEN_LEN + 4 + n + 4"
    by (elim conjE) (simp only: not_less le_antisym)
  from checks show "crc32 (take (4 + 2 + 2 + TOKEN_LEN + 4 + n) data)
       = u32_from_le (slice (4 + 2 + 2 + TOKEN_LEN + 4 + n) (4 + 2 + 2 + TOKEN_LEN + 4 + n + 4) data)"
    by (elim conjE) (simp only: not_not)
  from checks obtain v where v: "verb_from_u32 (u32_from_le (slice 40 44 data)) = Some v"
    and f: "f = \<lparr>token = slice 8 40 data, verb = v, payload = slice 44 (44 + n) data\<rparr>"
    by (elim conjE) (cases "verb_from_u32 (u32_from_le (slice 40 44 data))"; simp)
  show "verb_from_u32 (u32_from_le (slice 40 44 data)) = Some (verb f)"
    "token f = slice 8 40 data" "payload f = slice 44 (44 + n) data"
    using v by (simp_all add: f)
qed

lemma deserialize_Ok:
  assumes "deserialize data = Inr f"
  shows "frame_ok f \<and> serialize f = data"
proof -
  define n where "n = unat (u16_from_le (slice 6 8 data))"
  note checks = deserialize_checks [OF assms, folded n_def]
  have n: "n \<le> 256" and len: "length data = 48 + n"
    and crc: "crc32 (take (44 + n) data) = u32_from_le (slice (44 + n) (48 + n) data)"
    using checks(3-5) by (simp_all add: model_defs)
  note magic = checks(1) and verb = checks(6) and f = checks(7,8)
  have version: "slice 4 6 data = u16_to_le PROTOCOL_VERSION"
    using checks(2) len u16_from_round [of "slice 4 6 data"] by (simp add: slice_def)
  have lenp: "length (payload f) = n" using len by (simp add: f slice_def)
  have "length (slice 6 8 data) = 2" using len by (simp add: slice_def)
  from u16_from_round [OF this] have "u16_to_le (of_nat n) = slice 6 8 data" by (simp add: n_def)
  moreover have "u32_to_le (verb_to_u32 (verb f)) = slice 40 44 data"
    using u32_from_round [of "slice 40 44 data"] verb_from_Some [OF verb] len by (simp add: slice_def)
  ultimately have "frame_body f = slice 0 4 data @ slice 4 6 data @ slice 6 8 data @ slice 8 40 data
      @ slice 40 44 data @ slice 44 (44 + n) data"
    by (simp add: frame_body_def magic version lenp [unfolded f] f)
  also have "\<dots> = slice 0 (44 + n) data" by (simp add: slice_join)
  finally have body: "frame_body f = take (44 + n) data" by (simp add: slice_def)
  have "u32_to_le (crc32 (frame_body f)) = slice (44 + n) (48 + n) data"
    using u32_from_round [of "slice (44 + n) (48 + n) data"] crc body len by (simp add: slice_def)
  then have "serialize f = data"
    using body len by (simp add: serialize_def slice_def)
  moreover have "frame_ok f" using lenp n len by (simp add: frame_ok_def f slice_def model_defs)
  ultimately show ?thesis by simp
qed

section \<open>Facts about responses\<close>

definition response_ok :: "ipc_response \<Rightarrow> bool" where
  "response_ok r = (case r of RespStatus t \<Rightarrow> valid_utf8 t | _ \<Rightarrow> True)"

text \<open>What the wire keeps of an error: its kind and the low 32 bits of its first number.\<close>

fun wire_error :: "ipc_error \<Rightarrow> ipc_error" where
  "wire_error (PayloadTooLarge len) = PayloadTooLarge (len mod 2 ^ 32)"
| "wire_error (IntervalOutOfBounds r) = IntervalOutOfBounds (take_bit 32 r)"
| "wire_error (CrcMismatch e c) = CrcMismatch e 0"
| "wire_error (TrailingBytes e f) = TrailingBytes (e mod 2 ^ 32) 0"
| "wire_error e = e"

fun wire_response :: "ipc_response \<Rightarrow> ipc_response" where
  "wire_response (RespError e) = RespError (wire_error e)"
| "wire_response r = r"

lemma ucast_up_down16: "(ucast (ucast (x :: u16) :: u32) :: u16) = x"
proof -
  have "unat x < 2 ^ 16" "unat x < 2 ^ 32" using unat_lt_power [of x] by simp_all
  then show ?thesis
    by (simp add: word_unat_eq_iff unsigned_ucast_eq unsigned_take_bit_eq take_bit_nat_eq_self)
qed

lemma ucast_down_up64: "(ucast (ucast (x :: u64) :: u32) :: u64) = take_bit 32 x"
proof -
  have "take_bit 32 (unat x) < 2 ^ 64"
    using take_bit_nat_less_exp [of 32 "unat x"] by simp
  then show ?thesis
    by (simp add: word_unat_eq_iff unsigned_ucast_eq unsigned_take_bit_eq take_bit_nat_eq_self)
qed

lemma from_code_wire: "from_code_param (error_code e) (wire_param e) = Some (wire_error e)"
  by (cases e) (simp_all add: from_code_param_def ucast_up_down16 unat_of_nat ucast_down_up64)

section \<open>Facts about the rate limiter\<close>

text \<open>Well-formedness: bounded number of callers, one record per process, bounded windows.\<close>

definition limiter_ok :: "rate_limiter \<Rightarrow> bool" where
  "limiter_ok rs = (length rs \<le> MAX_TRACKED_PIDS \<and> distinct (map pid rs)
     \<and> (\<forall>r\<in>set rs. length (timestamps r) \<le> MAX_REQUESTS_PER_SECOND))"

lemma position_Some:
  "position P xs = Some i \<Longrightarrow> i < length xs \<and> P (xs ! i)"
  by (induction xs arbitrary: i) (auto split: if_splits)

lemma position_None: "position P xs = None \<longleftrightarrow> (\<forall>x\<in>set xs. \<not> P x)"
  by (induction xs) auto

lemma oldest_index_bound: "rs \<noteq> [] \<Longrightarrow> oldest_index rs < length rs"
  by (induction rs rule: oldest_index.induct) (auto simp: Let_def)

lemma remove_index_map: "map f (remove_index i xs) = remove_index i (map f xs)"
  by (simp add: remove_index_def take_map drop_map)

lemma set_remove_index: "set (remove_index i xs) \<subseteq> set xs"
  by (auto simp: remove_index_def dest: in_set_takeD in_set_dropD)

lemma distinct_remove_index: "distinct xs \<Longrightarrow> distinct (remove_index i xs)"
proof -
  assume "distinct xs"
  then have "set (take i xs) \<inter> set (drop i xs) = {}"
    by (metis append_take_drop_id distinct_append)
  moreover have "set (drop (Suc i) xs) \<subseteq> set (drop i xs)"
    by (rule set_drop_subset_set_drop) simp
  ultimately show ?thesis using \<open>distinct xs\<close> by (auto simp: remove_index_def)
qed

lemma length_remove_index: "i < length xs \<Longrightarrow> length (remove_index i xs) = length xs - 1"
  by (simp add: remove_index_def)

lemma find_or_create_ok:
  assumes "limiter_ok rs" "find_or_create p now rs = (i, rs1)"
  shows "limiter_ok rs1 \<and> i < length rs1 \<and> pid (rs1 ! i) = p"
proof (cases "position (\<lambda>r. pid r = p) rs")
  case (Some j)
  then show ?thesis using assms position_Some [OF Some] by (simp add: find_or_create_def)
next
  case None
  define ev where "ev = (if MAX_TRACKED_PIDS \<le> length rs then evict_least_recently_seen rs else rs)"
  have sub: "set ev \<subseteq> set rs" and dist: "distinct (map pid ev)" and len: "length ev < MAX_TRACKED_PIDS"
    using assms(1) set_remove_index [of _ rs] oldest_index_bound [of rs]
    by (auto simp: ev_def evict_least_recently_seen_def limiter_ok_def remove_index_map
        distinct_remove_index length_remove_index MAX_TRACKED_PIDS_def)
  have rs1: "rs1 = ev @ [\<lparr>pid = p, timestamps = [], last_seen = now\<rparr>]" "i = length ev"
    using assms(2) None by (auto simp: find_or_create_def Let_def ev_def)
  have "p \<notin> pid ` set ev" using None sub by (auto simp: position_None)
  then show ?thesis using assms(1) sub dist len by (auto simp: rs1 limiter_ok_def)
qed

lemma update_record_ok:
  assumes "limiter_ok rs" "i < length rs" "pid r = pid (rs ! i)"
    "length (timestamps r) \<le> MAX_REQUESTS_PER_SECOND"
  shows "limiter_ok (rs[i := r])"
proof -
  have "map pid (rs[i := r]) = map pid rs"
    using assms(2,3) by (simp add: map_update list_update_same_conv)
  then show ?thesis using assms set_update_subset_insert [of rs i r] by (auto simp: limiter_ok_def)
qed

lemma check_and_record_ok:
  assumes "limiter_ok rs" shows "limiter_ok (snd (check_and_record p now rs))"
proof -
  obtain i rs1 where f: "find_or_create p now rs = (i, rs1)" by fastforce
  have ok: "limiter_ok rs1" "i < length rs1" using find_or_create_ok [OF assms f] by auto
  then have "length (timestamps (rs1 ! i)) \<le> MAX_REQUESTS_PER_SECOND" by (simp add: limiter_ok_def)
  then have "length (filter g (timestamps (rs1 ! i))) \<le> MAX_REQUESTS_PER_SECOND" for g
    using length_filter_le le_trans by blast
  then show ?thesis using ok
    by (auto simp: check_and_record_def f Let_def intro!: update_record_ok)
qed

lemma length_filter_bound: "length xs \<le> k \<Longrightarrow> length (filter g xs) \<le> k"
  using length_filter_le le_trans by blast

lemma prune_ok: "limiter_ok rs \<Longrightarrow> limiter_ok (prune_idle_callers now rs)"
  by (auto simp: limiter_ok_def prune_idle_callers_def Let_def comp_def filter_map
      intro!: distinct_map_filter length_filter_bound)

text \<open>
  The limiter over a sequence of requests (process, instant), with the accepted ones in order.
\<close>

fun limiter_run :: "(u32 \<times> nat) list \<Rightarrow> rate_limiter \<Rightarrow> (u32 \<times> nat) list" where
  "limiter_run [] rs = []"
| "limiter_run ((p, now) # qs) rs =
     (case check_and_record p now rs of
        (Inl _, rs1) \<Rightarrow> limiter_run qs rs1
      | (Inr _, rs1) \<Rightarrow> (p, now) # limiter_run qs rs1)"

definition recent :: "nat \<Rightarrow> nat \<Rightarrow> bool" where
  "recent now s \<longleftrightarrow> now < s + RATE_LIMIT_WINDOW"

text \<open>The record of a process knows every accepted request that is still recent.\<close>

definition knows :: "nat \<Rightarrow> u32 \<Rightarrow> nat list \<Rightarrow> rate_limiter \<Rightarrow> bool" where
  "knows now p hist rs \<longleftrightarrow>
     (\<forall>r\<in>set rs. pid r = p \<longrightarrow> filter (recent now) (timestamps r) = filter (recent now) hist)
     \<and> (p \<notin> pid ` set rs \<longrightarrow> filter (recent now) hist = [])"

definition windows_ok :: "nat list \<Rightarrow> bool" where
  "windows_ok hist \<longleftrightarrow>
     (\<forall>t. length (filter (\<lambda>s. recent t s \<and> s \<le> t) hist) \<le> MAX_REQUESTS_PER_SECOND)"

lemma recent_mono: "T \<le> now \<Longrightarrow> recent now s \<Longrightarrow> recent T s"
  by (simp add: recent_def)

lemma filter_recent_mono:
  "T \<le> now \<Longrightarrow> filter (recent T) xs = filter (recent T) ys
   \<Longrightarrow> filter (recent now) xs = filter (recent now) ys"
proof -
  assume le: "T \<le> now" and eq: "filter (recent T) xs = filter (recent T) ys"
  have "filter (recent now) zs = filter (recent now) (filter (recent T) zs)" for zs
    using recent_mono [OF le] by (auto simp: filter_filter intro!: filter_cong)
  then show ?thesis using eq by metis
qed

lemma knows_mono: "T \<le> now \<Longrightarrow> knows T p hist rs \<Longrightarrow> knows now p hist rs"
  unfolding knows_def using filter_recent_mono [of T now] by (metis filter.simps(1))

lemma cutoff_recent: "RATE_LIMIT_WINDOW \<le> now \<Longrightarrow> (<) (rate_cutoff now) = recent now"
  by (auto simp: rate_cutoff_def recent_def)

lemma find_or_create_knows:
  assumes ok: "limiter_ok rs" and pids: "pid ` set rs \<subseteq> A" "q \<in> A" "finite A" "card A \<le> MAX_TRACKED_PIDS"
    and f: "find_or_create q now rs = (i, rs1)" and k: "knows now p hist rs"
  shows "knows now p hist rs1 \<and> pid ` set rs1 \<subseteq> A"
proof (cases "position (\<lambda>r. pid r = q) rs")
  case (Some j)
  then show ?thesis using f k pids(1) by (simp add: find_or_create_def)
next
  case None
  have fresh: "q \<notin> pid ` set rs" using None by (auto simp: position_None)
  have "card (insert q (pid ` set rs)) \<le> card A" using pids by (intro card_mono) auto
  moreover have "card (pid ` set rs) = length rs"
    using ok distinct_card [of "map pid rs"] by (simp add: limiter_ok_def)
  ultimately have "length rs < MAX_TRACKED_PIDS" using fresh pids(4) by simp
  then have "rs1 = rs @ [\<lparr>pid = q, timestamps = [], last_seen = now\<rparr>]"
    using f None by (auto simp: find_or_create_def Let_def)
  then show ?thesis using k fresh pids by (auto simp: knows_def)
qed

lemma windows_snoc:
  assumes "windows_ok hist" "\<forall>s\<in>set hist. s \<le> now"
    "length (filter (recent now) hist) < MAX_REQUESTS_PER_SECOND"
  shows "windows_ok (hist @ [now])"
  unfolding windows_ok_def
proof
  fix t
  show "length (filter (\<lambda>s. recent t s \<and> s \<le> t) (hist @ [now])) \<le> MAX_REQUESTS_PER_SECOND"
  proof (cases "now \<le> t")
    case True
    have "filter (\<lambda>s. recent t s \<and> s \<le> t) hist
        = filter (\<lambda>s. recent t s \<and> s \<le> t) (filter (recent now) hist)"
      using recent_mono [OF True] by (auto simp: filter_filter intro!: filter_cong)
    then have "length (filter (\<lambda>s. recent t s \<and> s \<le> t) hist) \<le> length (filter (recent now) hist)"
      by (metis length_filter_le)
    then show ?thesis using assms(3) by simp
  next
    case False
    then show ?thesis using assms(1) by (simp add: windows_ok_def)
  qed
qed

lemma check_step:
  assumes ok: "limiter_ok rs" and pids: "pid ` set rs \<subseteq> A" "q \<in> A" "finite A" "card A \<le> MAX_TRACKED_PIDS"
    and now: "T \<le> now" "RATE_LIMIT_WINDOW \<le> now" and k: "knows T p hist rs"
    and w: "windows_ok hist" "\<forall>s\<in>set hist. s \<le> T"
    and c: "check_and_record q now rs = (res, rs')"
  shows "pid ` set rs' \<subseteq> A"
    and "knows now p (if q = p \<and> \<not> isl res then hist @ [now] else hist) rs'"
    and "windows_ok (if q = p \<and> \<not> isl res then hist @ [now] else hist)"
proof -
  obtain i rs1 where f: "find_or_create q now rs = (i, rs1)" by fastforce
  have k1: "knows now p hist rs1" and A: "pid ` set rs1 \<subseteq> A"
    using find_or_create_knows [OF ok pids f knows_mono [OF now(1) k]] by auto
  have ok1: "limiter_ok rs1" "i < length rs1" "pid (rs1 ! i) = q"
    using find_or_create_ok [OF ok f] by auto
  define kept where "kept = filter (recent now) (timestamps (rs1 ! i))"
  define r' where "r' = (rs1 ! i)\<lparr>last_seen := now, timestamps := (if isl res then kept else kept @ [now])\<rparr>"
  have rs': "rs' = rs1[i := r']" and acc: "\<not> isl res \<longleftrightarrow> length kept < MAX_REQUESTS_PER_SECOND"
    using c by (auto simp: check_and_record_def f Let_def r'_def kept_def cutoff_recent [OF now(2)]
        split: if_splits)
  have dist: "distinct rs1" using ok1(1) by (auto simp: limiter_ok_def distinct_map)
  have set': "set rs' = insert r' (set rs1 - {rs1 ! i})"
    unfolding rs' by (rule set_update_distinct [OF dist ok1(2)])
  have mem: "rs1 ! i \<in> set rs1" and pid': "pid r' = q" using ok1(2,3) by (auto simp: r'_def)
  show "pid ` set rs' \<subseteq> A" using A pids(2) pid' unfolding set' by auto
  have uniq: "r = rs1 ! i" if "r \<in> set rs1" "pid r = q" for r
    using that mem ok1 by (auto simp: limiter_ok_def distinct_map dest: inj_onD)
  have "map pid rs' = map pid rs1"
    using ok1(2,3) pid' by (simp add: rs' map_update list_update_same_conv)
  then have pids': "pid ` set rs' = pid ` set rs1" by (metis set_map)
  have kept_hist: "kept = filter (recent now) hist" if "q = p"
    using k1 mem ok1(3) that by (auto simp: knows_def kept_def)
  show "knows now p (if q = p \<and> \<not> isl res then hist @ [now] else hist) rs'"
  proof (cases "q = p")
    case True
    have "r = r'" if "r \<in> set rs'" "pid r = p" for r using that uniq True unfolding set' by blast
    moreover have "filter (recent now) (timestamps r')
        = filter (recent now) (if q = p \<and> \<not> isl res then hist @ [now] else hist)"
      using True kept_hist by (simp add: r'_def recent_def RATE_LIMIT_WINDOW_def)
    moreover have "p \<in> pid ` set rs'" using True pid' unfolding set' by auto
    ultimately show ?thesis unfolding knows_def by metis
  next
    case False
    then show ?thesis using k1 pids' pid' unfolding knows_def set' by auto
  qed
  show "windows_ok (if q = p \<and> \<not> isl res then hist @ [now] else hist)"
    using w acc kept_hist now(1) by (auto intro!: windows_snoc)
qed

lemma limiter_run_windows:
  assumes "limiter_ok rs" "pid ` set rs \<subseteq> A" "finite A" "card A \<le> MAX_TRACKED_PIDS"
    and "knows T p hist rs" "windows_ok hist" "\<forall>s\<in>set hist. s \<le> T"
    and "fst ` set qs \<subseteq> A" "sorted (T # map snd qs)" "\<forall>q\<in>set qs. RATE_LIMIT_WINDOW \<le> snd q"
  shows "windows_ok (hist @ map snd (filter (\<lambda>q. fst q = p) (limiter_run qs rs)))"
  using assms
proof (induction qs arbitrary: rs T hist)
  case (Cons q qs)
  obtain x now where q: "q = (x, now)" by fastforce
  obtain res rs' where c: "check_and_record x now rs = (res, rs')" by fastforce
  define hist' where "hist' = (if x = p \<and> \<not> isl res then hist @ [now] else hist)"
  have now: "T \<le> now" "RATE_LIMIT_WINDOW \<le> now" "x \<in> A" using Cons.prems q by auto
  note step = check_step [OF Cons.prems(1,2) now(3) Cons.prems(3,4) now(1,2) Cons.prems(5,6,7) c]
  have "limiter_ok rs'" using check_and_record_ok [OF Cons.prems(1), of x now] c by simp
  moreover have "\<forall>s\<in>set hist'. s \<le> now" using Cons.prems(7) now(1) by (auto simp: hist'_def)
  ultimately have "windows_ok (hist' @ map snd (filter (\<lambda>q. fst q = p) (limiter_run qs rs')))"
    using Cons.prems step q by (intro Cons.IH [of rs' now hist']) (auto simp: hist'_def)
  then show ?case using c q by (cases res) (auto simp: hist'_def)
qed simp

lemma validate_interval_iff:
  "validate_interval_hns i = Inr h \<longleftrightarrow> h = i \<and> 5000 \<le> unat i \<and> unat i \<le> 156250"
  by (auto simp: validate_interval_hns_def model_defs word_le_nat_alt)

section \<open>Properties\<close>

text \<open>C7: the request frame codec is exact: a byte string is accepted as a frame if and only if the
  frame is within its size limits and the byte string is its serialisation. Every truncated,
  extended or altered encoding is rejected, and every valid frame survives the round trip.\<close>

theorem frame_codec_exact:
  "deserialize data = Inr f \<longleftrightarrow>
     length (token f) = TOKEN_LEN \<and> length (payload f) \<le> MAX_PAYLOAD_LEN \<and> data = serialize f"
  using deserialize_serialize [of f] deserialize_Ok [of data f] by (auto simp: frame_ok_def)

text \<open>C8: changing any single byte of a valid frame on the wire, to any other value, always makes
  the frame be rejected.\<close>

theorem frame_corruption_detected:
  assumes "length (token f) = TOKEN_LEN" "length (payload f) \<le> MAX_PAYLOAD_LEN"
    and "i < length (serialize f)" and "b \<noteq> serialize f ! i"
  shows "isl (deserialize ((serialize f)[i := b]))"
proof (rule ccontr)
  assume "\<not> isl (deserialize ((serialize f)[i := b]))"
  then obtain g where g: "deserialize ((serialize f)[i := b]) = Inr g"
    by (cases "deserialize ((serialize f)[i := b])") auto
  have ok: "frame_ok f" "frame_ok g" and eq: "serialize g = (serialize f)[i := b]"
    using assms(1,2) deserialize_Ok [OF g] by (auto simp: frame_ok_def)
  have "length (serialize g) = length (serialize f)" by (simp add: eq)
  then have len: "length (frame_body g) = length (frame_body f)" by (simp add: serialize_def)
  show False
  proof (cases "i < length (frame_body f)")
    case True
    then have body: "frame_body g = (frame_body f)[i := b]"
      and crc: "u32_to_le (crc32 (frame_body g)) = u32_to_le (crc32 (frame_body f))"
      using eq len by (auto simp: serialize_def list_update_append)
    from crc have "crc32 (frame_body g) = crc32 (frame_body f)" by (metis u32_le_round)
    moreover have "frame_body g = take i (frame_body f) @ b # drop (Suc i) (frame_body f)"
      using True body by (simp add: upd_conv_take_nth_drop)
    moreover have "frame_body f = take i (frame_body f) @ frame_body f ! i # drop (Suc i) (frame_body f)"
      using True by (simp add: id_take_nth_drop)
    ultimately have "b = frame_body f ! i" by (metis crc32_single_byte)
    then show False using assms(4) True by (simp add: serialize_def nth_append)
  next
    case False
    then have "frame_body g = frame_body f" using eq len by (auto simp: serialize_def list_update_append)
    then have "serialize g = serialize f" by (simp add: serialize_def)
    then show False using eq assms(3,4) by (metis nth_list_update_eq)
  qed
qed

theorem frame_corruption_detected_witness:
  "isl (deserialize ((serialize \<lparr>token = replicate 32 7, verb = QueryStatus, payload = []\<rparr>)[6 := 9]))"
proof (rule frame_corruption_detected)
  show "(9 :: u8) \<noteq> serialize \<lparr>token = replicate 32 7, verb = QueryStatus, payload = []\<rparr> ! 6"
  proof -
    have "to_le 2 0 = [0, 0]" by (simp add: numeral_2_eq_2)
    then show ?thesis
      by (simp add: serialize_def frame_body_def model_defs nth_append u16_to_le_def)
  qed
qed (simp_all add: model_defs serialize_def frame_body_def)

text \<open>the token text form is exact: a text is accepted if and only if it is the lowercase
  hexadecimal encoding of a 32-byte token, and comparison accepts exactly the same token.\<close>

theorem token_codec_exact:
  "(from_hex s = Inr t \<longleftrightarrow> token_ok t \<and> s = to_hex t)
   \<and> (token_ok t \<and> token_ok u \<and> token_matches t u \<longleftrightarrow> token_ok t \<and> t = u)"
proof
  show "from_hex s = Inr t \<longleftrightarrow> token_ok t \<and> s = to_hex t"
  proof
    assume "from_hex s = Inr t"
    then have "length s = 64" "hex_pairs s = Inr t"
      by (auto simp: from_hex_def TOKEN_LEN_def split: if_splits)
    then have "to_hex t = s" using to_hex_hex_pairs by simp
    then show "token_ok t \<and> s = to_hex t"
      using \<open>length s = 64\<close> length_to_hex [of t] by (simp add: token_ok_def TOKEN_LEN_def)
  qed (simp add: from_hex_def token_ok_def length_to_hex hex_pairs_to_hex)
qed (auto simp: token_ok_def token_matches_def token_diff_zero)

text \<open>every response is decoded to what was encoded, with an error reduced to the part that the
  wire format carries: its kind and the low 32 bits of its first number.\<close>

theorem response_round_trip:
  assumes "response_ok r" shows "decode_response (encode_response r) = Inr (wire_response r)"
  using assms
  by (cases r) (simp_all add: decode_response_def response_ok_def slice_def from_code_wire)

theorem response_round_trip_witness:
  "decode_response (encode_response (RespError (CrcMismatch 7 9))) = Inr (RespError (CrcMismatch 7 0))"
  using response_round_trip [of "RespError (CrcMismatch 7 9)"] by (simp add: response_ok_def)

text \<open>rate limiting. When at most 64 processes send requests, in time order and after the first
  second of the clock, no process has more than ten requests accepted within any window of one
  second.\<close>

theorem rate_limit_window:
  assumes "card (fst ` set qs) \<le> MAX_TRACKED_PIDS" and "sorted (map snd qs)"
    and "\<forall>q\<in>set qs. RATE_LIMIT_WINDOW \<le> snd q"
  shows "length (filter (\<lambda>(p, s). p = caller \<and> t < s + RATE_LIMIT_WINDOW \<and> s \<le> t)
           (limiter_run qs limiter_new)) \<le> MAX_REQUESTS_PER_SECOND"
proof -
  have "windows_ok ([] @ map snd (filter (\<lambda>q. fst q = caller) (limiter_run qs limiter_new)))"
    using assms by (intro limiter_run_windows [where T = 0 and A = "fst ` set qs"])
      (auto simp: limiter_ok_def limiter_new_def knows_def windows_ok_def)
  then have "length (filter (\<lambda>s. recent t s \<and> s \<le> t)
      (map snd (filter (\<lambda>q. fst q = caller) (limiter_run qs limiter_new)))) \<le> MAX_REQUESTS_PER_SECOND"
    by (simp add: windows_ok_def)
  moreover have "length (filter (\<lambda>s. recent t s \<and> s \<le> t) (map snd (filter (\<lambda>q. fst q = caller) xs)))
      = length (filter (\<lambda>(p, s). p = caller \<and> t < s + RATE_LIMIT_WINDOW \<and> s \<le> t) xs)" for xs
    by (induction xs) (auto simp: recent_def)
  ultimately show ?thesis by simp
qed

theorem rate_limit_window_witness:
  "length (filter (\<lambda>(p, s). p = 1 \<and> 2500000000 < s + RATE_LIMIT_WINDOW \<and> s \<le> 2500000000)
     (limiter_run [(1, 2000000000), (2, 2000000001), (1, 2500000000)] limiter_new)) \<le> MAX_REQUESTS_PER_SECOND"
proof (rule rate_limit_window)
  have "fst ` set [(1 :: u32, 2000000000 :: nat), (2, 2000000001), (1, 2500000000)] = {1, 2}" by auto
  then show "card (fst ` set [(1 :: u32, 2000000000 :: nat), (2, 2000000001), (1, 2500000000)]) \<le> MAX_TRACKED_PIDS"
    by (simp add: model_defs)
qed (simp_all add: model_defs)

text \<open>every state of the rate limiter that requests and pruning reach tracks at most 64 processes,
  each once and each with at most ten timestamps.\<close>

theorem limiter_bounded:
  "limiter_ok (foldl (\<lambda>rs (p, now, prune). if prune then prune_idle_callers now rs
      else snd (check_and_record p now rs)) limiter_new qs)"
proof -
  have "limiter_ok rs \<Longrightarrow> limiter_ok (foldl (\<lambda>rs (p, now, prune). if prune then prune_idle_callers now rs
      else snd (check_and_record p now rs)) rs qs)" for rs
    by (induction qs arbitrary: rs) (auto simp: prune_ok check_and_record_ok)
  moreover have "limiter_ok limiter_new" by (simp add: limiter_ok_def limiter_new_def)
  ultimately show ?thesis .
qed

end
