(* ===== verification/Watchdog.thy ===== *)
theory Watchdog
  imports Core
begin

text \<open>
  Model of \<open>crates/tick-watchdog\<close>: the heartbeat verdict, the interruptible wait and the bounded
  monitor loop. The monitor thread reads two things that other threads write, the heartbeat and
  the stop flag, and the clock; one cycle of the loop takes what it reads as an input, so a
  sequence of inputs is one interleaving of the monitor with the rest of the process.
\<close>

definition HEARTBEAT_INTERVAL_MS :: u64 where
  [model_defs]: "HEARTBEAT_INTERVAL_MS = 1000"

definition STALL_THRESHOLD_MS :: u64 where
  [model_defs]: "STALL_THRESHOLD_MS = 4000"

definition MAX_STALL_EPISODES :: u32 where
  [model_defs]: "MAX_STALL_EPISODES = 8"

record heartbeat =
  last_kick_ms :: u64

definition heartbeat_new :: "u64 \<Rightarrow> heartbeat" where
  "heartbeat_new now = \<lparr>last_kick_ms = now\<rparr>"

definition kick :: "u64 \<Rightarrow> heartbeat \<Rightarrow> heartbeat" where
  "kick now h = h\<lparr>last_kick_ms := now\<rparr>"

datatype watchdog_verdict = Alive | Stalled (stall_ms: u64)

definition evaluate :: "u64 \<Rightarrow> u64 \<Rightarrow> u64 \<Rightarrow> watchdog_verdict" where
  "evaluate now_ms last_kick threshold =
     (let stall = saturating_sub now_ms last_kick in
      if threshold < stall then Stalled stall else Alive)"

record watchdog_config =
  interval_ms :: u64
  stall_threshold_ms :: u64

text \<open>
  \<open>ShutdownLatch::wait_interval\<close>: each wake-up of the condition variable shows the flag and the
  clock; \<^term>\<open>None\<close> means that the wake-ups seen so far have not ended the wait.
\<close>

fun wait_interval :: "nat \<Rightarrow> (bool \<times> nat) list \<Rightarrow> bool option" where
  "wait_interval deadline [] = None"
| "wait_interval deadline ((flag, now) # wakes) =
     (if flag then Some True
      else if deadline \<le> now then Some False
      else wait_interval deadline wakes)"

record cycle_input =
  in_stopped :: bool     \<comment> \<open>the atomic stop flag at the head of the loop\<close>
  in_woken :: bool       \<comment> \<open>the wait was ended by a stop request\<close>
  in_now_ms :: u64
  in_kick_ms :: u64

record monitor =
  stalled :: bool
  stall_episodes :: u32
  running :: bool
  callbacks :: "u64 list"   \<comment> \<open>the stall callbacks issued, oldest first\<close>

definition monitor_new :: monitor where
  "monitor_new = \<lparr>stalled = False, stall_episodes = 0, running = True, callbacks = []\<rparr>"

definition monitor_cycle :: "watchdog_config \<Rightarrow> cycle_input \<Rightarrow> monitor \<Rightarrow> monitor" where
  "monitor_cycle cfg i m =
     (if \<not> running m then m
      else if in_stopped i then m\<lparr>running := False\<rparr>
      else if in_woken i then m\<lparr>running := False\<rparr>
      else case evaluate (in_now_ms i) (in_kick_ms i) (stall_threshold_ms cfg) of
        Alive \<Rightarrow> m\<lparr>stalled := False\<rparr>
      | Stalled ms \<Rightarrow>
          if stalled m then m
          else
            let previous = stall_episodes m;
                m1 = m\<lparr>stalled := True, stall_episodes := previous + 1\<rparr>
            in if MAX_STALL_EPISODES \<le> previous
               then m1\<lparr>stall_episodes := stall_episodes m1 - 1, running := False\<rparr>
               else m1\<lparr>callbacks := callbacks m1 @ [ms]\<rparr>)"

definition monitor_run :: "watchdog_config \<Rightarrow> cycle_input list \<Rightarrow> monitor \<Rightarrow> monitor" where
  "monitor_run cfg is m = foldl (\<lambda>m i. monitor_cycle cfg i m) m is"

section \<open>Specification\<close>

text \<open>The verdicts of the cycles before the first stop.\<close>

definition verdicts :: "watchdog_config \<Rightarrow> cycle_input list \<Rightarrow> watchdog_verdict list" where
  "verdicts cfg is =
     map (\<lambda>i. evaluate (in_now_ms i) (in_kick_ms i) (stall_threshold_ms cfg))
       (takeWhile (\<lambda>i. \<not> in_stopped i \<and> \<not> in_woken i) is)"

text \<open>The stall times at the start of each stall episode.\<close>

fun episode_starts :: "bool \<Rightarrow> watchdog_verdict list \<Rightarrow> u64 list" where
  "episode_starts st [] = []"
| "episode_starts st (Alive # vs) = episode_starts False vs"
| "episode_starts st (Stalled ms # vs) =
     (if st then episode_starts True vs else ms # episode_starts True vs)"

lemma run_stopped: "\<not> running m \<Longrightarrow> monitor_run cfg is m = m"
  unfolding monitor_run_def by (induction "is") (simp_all add: monitor_cycle_def)

lemma run_Cons: "monitor_run cfg (i # is) m = monitor_run cfg is (monitor_cycle cfg i m)"
  by (simp add: monitor_run_def)

lemma stalled_iff: "evaluate now k th = Stalled ms \<longleftrightarrow> unat ms = unat now - unat k \<and> unat th < unat ms"
  by (auto simp: evaluate_def Let_def word_less_nat_alt word_unat_eq_iff unat_saturating_sub)

lemma monitor_run_callbacks:
  assumes "running m" "unat (stall_episodes m) = length (callbacks m)" "length (callbacks m) \<le> 8"
  shows "callbacks (monitor_run cfg is m)
           = take 8 (callbacks m @ episode_starts (stalled m) (verdicts cfg is))
       \<and> unat (stall_episodes (monitor_run cfg is m)) = length (callbacks (monitor_run cfg is m))"
  using assms
proof (induction "is" arbitrary: m)
  case Nil
  then show ?case by (simp add: monitor_run_def verdicts_def)
next
  case (Cons i "is")
  show ?case
  proof (cases "in_stopped i \<or> in_woken i")
    case True
    then show ?thesis using Cons.prems
      by (auto simp: run_Cons monitor_cycle_def run_stopped verdicts_def)
  next
    case False
    then have vs: "verdicts cfg (i # is)
        = evaluate (in_now_ms i) (in_kick_ms i) (stall_threshold_ms cfg) # verdicts cfg is"
      by (simp add: verdicts_def)
    show ?thesis
    proof (cases "evaluate (in_now_ms i) (in_kick_ms i) (stall_threshold_ms cfg)")
      case Alive
      then show ?thesis using False Cons.prems Cons.IH [of "m\<lparr>stalled := False\<rparr>"]
        by (simp add: run_Cons monitor_cycle_def vs)
    next
      case (Stalled ms)
      show ?thesis
      proof (cases "stalled m")
        case True
        then show ?thesis using Stalled False Cons.prems Cons.IH [of m]
          by (simp add: run_Cons monitor_cycle_def vs)
      next
        case fresh: False
        show ?thesis
        proof (cases "MAX_STALL_EPISODES \<le> stall_episodes m")
          case True
          then have "length (callbacks m) = 8"
            using Cons.prems by (simp add: MAX_STALL_EPISODES_def word_le_nat_alt)
          then show ?thesis using True Stalled False fresh Cons.prems
            by (simp add: run_Cons monitor_cycle_def vs run_stopped)
        next
          case below: False
          then have less: "length (callbacks m) < 8"
            using Cons.prems by (simp add: MAX_STALL_EPISODES_def word_le_nat_alt not_le)
          define m' where "m' = m\<lparr>stalled := True, stall_episodes := stall_episodes m + 1,
            callbacks := callbacks m @ [ms]\<rparr>"
          have "unat (stall_episodes m + 1) = Suc (length (callbacks m))"
            using Cons.prems less by (simp add: unat_word_ariths)
          then show ?thesis using Cons.IH [of m'] Stalled False fresh below less Cons.prems
            by (simp add: run_Cons monitor_cycle_def vs m'_def)
        qed
      qed
    qed
  qed
qed

text \<open>A stalled reading followed by a kick, repeated: a process that stalls and recovers.\<close>

definition stall_and_recover :: "cycle_input list" where
  "stall_and_recover =
     [\<lparr>in_stopped = False, in_woken = False, in_now_ms = 9000, in_kick_ms = 0\<rparr>,
      \<lparr>in_stopped = False, in_woken = False, in_now_ms = 9000, in_kick_ms = 9000\<rparr>]"

lemma run_append: "monitor_run cfg (is @ js) m = monitor_run cfg js (monitor_run cfg is m)"
  by (simp add: monitor_run_def)

lemma stall_and_recover_cycle:
  assumes "running m" "\<not> stalled m" "stall_episodes m < 8" "stall_threshold_ms cfg = 4000"
  shows "monitor_run cfg stall_and_recover m
    = m\<lparr>stall_episodes := stall_episodes m + 1, callbacks := callbacks m @ [9000]\<rparr>"
  using assms
  by (cases m) (simp add: monitor_run_def stall_and_recover_def monitor_cycle_def evaluate_def
      saturating_sub_def MAX_STALL_EPISODES_def not_le Let_def)

lemma stall_and_recover_run:
  assumes "n \<le> 8" "stall_threshold_ms cfg = 4000"
  shows "monitor_run cfg (concat (replicate n stall_and_recover)) monitor_new
    = \<lparr>stalled = False, stall_episodes = of_nat n, running = True, callbacks = replicate n 9000\<rparr>"
  using assms(1)
proof (induction n)
  case 0
  then show ?case by (simp add: monitor_run_def monitor_new_def)
next
  case (Suc n)
  have "concat (replicate (Suc n) stall_and_recover)
      = concat (replicate n stall_and_recover) @ stall_and_recover"
    by (simp add: replicate_append_same [symmetric])
  moreover have "(of_nat n :: u32) < 8" using Suc.prems by (simp add: word_less_nat_alt unat_of_nat)
  ultimately show ?case
    using Suc assms(2) by (simp add: run_append stall_and_recover_cycle replicate_append_same add.commute)
qed

section \<open>Properties\<close>

text \<open>C26: for every interleaving of kicks, clock readings and stop requests, the monitor issues one
  stall callback per stall episode, in order, with the stall time at which the episode was first
  seen, and at most eight of them; its episode counter always equals the number of callbacks.\<close>

theorem watchdog_reports_episodes:
  "callbacks (monitor_run cfg is monitor_new) = take 8 (episode_starts False (verdicts cfg is))
   \<and> unat (stall_episodes (monitor_run cfg is monitor_new))
       = min 8 (length (episode_starts False (verdicts cfg is)))"
  using monitor_run_callbacks [of monitor_new cfg "is"] by (simp add: monitor_new_def min.commute)

text \<open>the monitor does not exit with its eighth callback: the thread keeps evaluating after
  \<open>MAX_STALL_EPISODES\<close> callbacks, and ends only when a ninth episode begins.\<close>

theorem monitor_outlives_last_callback:
  "\<exists>is cfg. length (callbacks (monitor_run cfg is monitor_new)) = unat MAX_STALL_EPISODES
     \<and> running (monitor_run cfg is monitor_new)"
  using stall_and_recover_run [of 8 "\<lparr>interval_ms = 1000, stall_threshold_ms = 4000\<rparr>"]
  by (intro exI [of _ "concat (replicate 8 stall_and_recover)"]
      exI [of _ "\<lparr>interval_ms = 1000, stall_threshold_ms = 4000\<rparr>"]) (simp add: MAX_STALL_EPISODES_def)

end
