(* ===== verification/Pause.thy ===== *)
theory Pause
  imports Policy
begin

text \<open>
  Model of \<open>apps/true-tick/src/pause.rs\<close>: duration presets with their text form, the preset list,
  and the coordinator of the one scheduled start, stop or pause.

  A preset is its number of seconds. Error values are the messages of the code. \<open>u64\<close> arithmetic
  of the parser is on naturals with the overflow checks of \<open>checked_add\<close> and \<open>checked_mul\<close>
  written out. Instants and durations are natural numbers of nanoseconds.
\<close>

definition MIN_PRESET_SECONDS :: nat where
  [model_defs]: "MIN_PRESET_SECONDS = 10"

definition MAX_PRESET_SECONDS :: nat where
  [model_defs]: "MAX_PRESET_SECONDS = 86400"

definition MAX_PRESETS :: nat where
  [model_defs]: "MAX_PRESETS = 12"

definition NANOS_PER_SEC :: nat where
  [model_defs]: "NANOS_PER_SEC = 1000000000"

definition MAX_DURATION :: nat where
  [model_defs]: "MAX_DURATION = MAX_PRESET_SECONDS * NANOS_PER_SEC"

definition MAX_TIMER_INTERVAL_MS :: nat where
  [model_defs]: "MAX_TIMER_INTERVAL_MS = 60 * 60 * 1000"

section \<open>Duration presets\<close>

type_synonym duration_preset = nat

datatype duration_choice = OneMinute | FiveMinutes | FifteenMinutes | ThirtyMinutes | OneHour

fun choice_minutes :: "duration_choice \<Rightarrow> nat" where
  "choice_minutes OneMinute = 1"
| "choice_minutes FiveMinutes = 5"
| "choice_minutes FifteenMinutes = 15"
| "choice_minutes ThirtyMinutes = 30"
| "choice_minutes OneHour = 60"

fun choice_label :: "duration_choice \<Rightarrow> string" where
  "choice_label OneMinute = ''1 minute''"
| "choice_label FiveMinutes = ''5 minutes''"
| "choice_label FifteenMinutes = ''15 minutes''"
| "choice_label ThirtyMinutes = ''30 minutes''"
| "choice_label OneHour = ''1 hour''"

definition choice_all :: "duration_choice list" where
  "choice_all = [OneMinute, FiveMinutes, FifteenMinutes, ThirtyMinutes, OneHour]"

definition choice_pause :: "duration_choice list" where
  "choice_pause = [FiveMinutes, FifteenMinutes, ThirtyMinutes, OneHour]"

definition preset_new :: "nat \<Rightarrow> (string, duration_preset) result" where
  "preset_new seconds =
     (if seconds < MIN_PRESET_SECONDS then Err ''preset must be at least 10 seconds''
      else if MAX_PRESET_SECONDS < seconds then Err ''preset must be at most 24 hours''
      else Ok seconds)"

definition choice_to_preset :: "duration_choice \<Rightarrow> (string, duration_preset) result" where
  "choice_to_preset c = preset_new (choice_minutes c * 60)"

definition preset_minutes :: "duration_preset \<Rightarrow> nat" where
  "preset_minutes p = p div 60"

definition preset_duration :: "duration_preset \<Rightarrow> nat" where
  "preset_duration p = p * NANOS_PER_SEC"

definition unit_label :: "nat \<Rightarrow> string \<Rightarrow> string" where
  "unit_label v unit = (if v = 1 then dec v @ '' '' @ unit else dec v @ '' '' @ unit @ ''s'')"

fun join_space :: "string list \<Rightarrow> string" where
  "join_space [] = []"
| "join_space [p] = p"
| "join_space (p # q # ps) = p @ '' '' @ join_space (q # ps)"

definition format_label :: "duration_preset \<Rightarrow> string" where
  "format_label seconds =
     (if seconds < 60 then unit_label seconds ''second''
      else if seconds mod 3600 = 0 then unit_label (seconds div 3600) ''hour''
      else if seconds < 3600 \<and> seconds mod 60 = 0 then unit_label (seconds div 60) ''minute''
      else
        let hours = seconds div 3600;
            minutes = (seconds mod 3600) div 60;
            remainder = seconds mod 60
        in join_space
             ((if 0 < hours then [dec hours @ ''h''] else [])
              @ (if 0 < minutes then [dec minutes @ ''m''] else [])
              @ (if 0 < remainder then [dec remainder @ ''s''] else [])))"

section \<open>Parsing a duration\<close>

definition u64_max :: nat where
  "u64_max = 18446744073709551615"

definition checked64 :: "nat \<Rightarrow> (string, nat) result" where
  "checked64 v = (if v \<le> u64_max then Ok v else Err ''invalid duration number'')"

definition parse64 :: "string \<Rightarrow> (string, nat) result" where
  "parse64 s =
     (case parse_unsigned u64_max s of None \<Rightarrow> Err ''invalid duration number'' | Some v \<Rightarrow> Ok v)"

definition bind_result :: "('e, 'a) result \<Rightarrow> ('a \<Rightarrow> ('e, 'b) result) \<Rightarrow> ('e, 'b) result" where
  "bind_result r f = (case r of Inl e \<Rightarrow> Inl e | Inr x \<Rightarrow> f x)"

definition decimal_value :: "string \<Rightarrow> string option \<Rightarrow> (string, nat) result" where
  "decimal_value integer_text fraction_text =
     bind_result
       (if integer_text = [] then
          (if fraction_text \<noteq> None then Ok 0 else Err ''invalid duration number'')
        else parse64 integer_text) (\<lambda>integer_part.
     bind_result
       (case fraction_text of
          None \<Rightarrow> Ok 0
        | Some fraction \<Rightarrow>
            if 6 < length fraction then Err ''invalid duration number''
            else parse64 (fraction @ replicate (6 - length fraction) (CHR ''0''))) (\<lambda>fractional.
     bind_result (checked64 (integer_part * 1000000)) (\<lambda>whole.
       checked64 (whole + fractional))))"

definition parse_decimal_micros :: "string \<Rightarrow> (string, nat) result" where
  "parse_decimal_micros text =
     (case split_on (CHR ''.'') text of
        [] \<Rightarrow> decimal_value [] None
      | [i] \<Rightarrow> decimal_value i None
      | [i, f] \<Rightarrow> decimal_value i (Some f)
      | _ \<Rightarrow> Err ''invalid duration number'')"

definition range_error :: string where
  "range_error = ''preset must be between 10 seconds and 24 hours''"

definition from_micros_rounded :: "nat \<Rightarrow> (string, duration_preset) result" where
  "from_micros_rounded micros =
     bind_result (checked64 (micros + 500000)) (\<lambda>shifted.
       let total_seconds = shifted div 1000000 in
       if total_seconds < MIN_PRESET_SECONDS \<or> MAX_PRESET_SECONDS < total_seconds
       then Err range_error else preset_new total_seconds)"

definition is_alpha :: "char \<Rightarrow> bool" where
  "is_alpha c = (let b = (of_char c :: nat) in 65 \<le> b \<and> b \<le> 90 \<or> 97 \<le> b \<and> b \<le> 122)"

text \<open>The number of a segment: digits and at most one point; the rest is returned.\<close>

fun number_text :: "bool \<Rightarrow> string \<Rightarrow> string \<times> string" where
  "number_text seen_dot [] = ([], [])"
| "number_text seen_dot (c # cs) =
     (if is_digit c then (let (n, r) = number_text seen_dot cs in (c # n, r))
      else if c = CHR ''.'' \<and> \<not> seen_dot then (let (n, r) = number_text True cs in (c # n, r))
      else ([], c # cs))"

definition unit_micros :: "string \<Rightarrow> (string, nat) result" where
  "unit_micros unit =
     (if unit \<in> {''s'', ''sec'', ''secs'', ''second'', ''seconds''} then Ok 1000000
      else if unit \<in> {''m'', ''min'', ''mins'', ''minute'', ''minutes''} then Ok (60 * 1000000)
      else if unit \<in> {''h'', ''hr'', ''hrs'', ''hour'', ''hours''} then Ok (3600 * 1000000)
      else if unit = [] then Err ''expected a unit after the number''
      else Err ''unknown duration unit'')"

definition segment_seconds :: "string \<Rightarrow> nat \<Rightarrow> (string, nat) result" where
  "segment_seconds number unit =
     bind_result
       (if CHR ''.'' \<in> set number then
          bind_result (parse_decimal_micros number) (\<lambda>micros.
          bind_result (checked64 (micros * unit)) (\<lambda>scaled. Ok (scaled div 1000000)))
        else
          bind_result (parse64 number) (\<lambda>v. checked64 (v * unit))) (\<lambda>segment_micros.
     bind_result (checked64 (segment_micros + 500000)) (\<lambda>shifted. Ok (shifted div 1000000)))"

lemma number_text_length: "number_text b s = (n, r) \<Longrightarrow> length s = length n + length r"
  by (induction b s arbitrary: n r rule: number_text.induct) (auto split: if_splits prod.splits)

lemma trim_front_length: "length (trim_front ps s) \<le> length s"
proof (induction ps s rule: trim_front.induct)
  case (1 ps s)
  then show ?case by (subst trim_front.simps) (auto split: option.splits intro: le_trans)
qed

text \<open>The segment loop, with the seconds so far and whether a segment was consumed.\<close>

function parse_segments :: "nat \<Rightarrow> bool \<Rightarrow> string \<Rightarrow> (string, nat \<times> bool) result" where
  "parse_segments acc consumed s =
     (let s1 = trim_start s in
      if s1 = [] then Ok (acc, consumed)
      else
        let (number, r1) = number_text False s1 in
        if \<not> (\<exists>c\<in>set number. is_digit c) then Err ''expected a number in duration text''
        else
          let unit = takeWhile is_alpha r1;
              r2 = dropWhile is_alpha r1
          in case bind_result (unit_micros unit) (segment_seconds number) of
               Inl e \<Rightarrow> Err e
             | Inr seconds \<Rightarrow>
                 (case checked64 (acc + seconds) of
                    Inl e \<Rightarrow> Err e
                  | Inr total' \<Rightarrow>
                      if MAX_PRESET_SECONDS < total' then Err range_error
                      else parse_segments total' True r2))"
  by pat_completeness auto
termination
proof (relation "measure (\<lambda>(_, _, s). length s)", goal_cases)
  case (2 acc consumed s s1 nr number r1 unit r2 seconds total')
  then have "length s1 \<le> length s" by (simp add: trim_start_def trim_front_length)
  moreover have "number \<noteq> []" using 2 by auto
  then have "length r1 < length s1" using 2 number_text_length [of False s1 number r1] by auto
  moreover have "length r2 \<le> length r1" using 2 length_dropWhile_le by simp
  ultimately show ?case by simp
qed simp

declare parse_segments.simps [simp del]

definition preset_parse :: "string \<Rightarrow> (string, duration_preset) result" where
  "preset_parse text =
     (let trimmed = trim text in
      if trimmed = [] then Err ''duration text is empty''
      else
        let lower = to_ascii_lowercase trimmed in
        if \<forall>c\<in>set lower. is_digit c \<or> c = CHR ''.'' then
          bind_result (parse_decimal_micros lower) (\<lambda>micros.
          bind_result (checked64 (micros * 60)) from_micros_rounded)
        else
          bind_result (parse_segments 0 False lower) (\<lambda>(acc, consumed).
            if \<not> consumed then Err ''duration text is empty''
            else if \<not> (MIN_PRESET_SECONDS \<le> acc \<and> acc \<le> MAX_PRESET_SECONDS)
            then Err range_error
            else preset_new acc))"

section \<open>The preset list\<close>

type_synonym presets = "duration_preset list"

definition default_presets :: presets where
  "default_presets = [60, 300, 900, 1800, 3600]"

definition presets_add :: "duration_preset \<Rightarrow> presets \<Rightarrow> (string, unit) result \<times> presets" where
  "presets_add p ps =
     (if p \<in> set ps then (Err ''preset already exists'', ps)
      else if MAX_PRESETS \<le> length ps then (Err ''maximum of 12 presets reached'', ps)
      else (Ok (), sort (ps @ [p])))"

definition presets_remove :: "nat \<Rightarrow> presets \<Rightarrow> (string, unit) result \<times> presets" where
  "presets_remove i ps =
     (if length ps \<le> i then (Err ''preset index out of range'', ps)
      else if length ps \<le> 1 then (Err ''at least one preset must remain'', ps)
      else (Ok (), take i ps @ drop (Suc i) ps))"

definition presets_reset :: "presets \<Rightarrow> presets" where
  "presets_reset ps = default_presets"

definition to_seconds_list :: "presets \<Rightarrow> nat list" where
  "to_seconds_list ps = ps"

definition from_seconds_list :: "nat list \<Rightarrow> presets" where
  "from_seconds_list xs =
     (let ps = take MAX_PRESETS (remdups_adj (sort (filter (\<lambda>s. \<not> isl (preset_new s)) xs)))
      in if ps = [] then default_presets else ps)"

section \<open>The coordinator\<close>

datatype duration_action = ActStart | ActStop | ActPause

fun action_label :: "duration_action \<Rightarrow> string" where
  "action_label ActStart = ''start''"
| "action_label ActStop = ''stop''"
| "action_label ActPause = ''pause''"

record scheduled_action =
  sched_action :: duration_action
  sched_duration :: duration_preset
  deadline :: nat
  sched_generation :: u64

definition remaining :: "scheduled_action \<Rightarrow> nat \<Rightarrow> nat" where
  "remaining a now = deadline a - now"

datatype schedule_request =
  Started scheduled_action
  | Replaced scheduled_action scheduled_action

datatype coordinator_timer_event =
  Expired scheduled_action
  | Early duration_action u64 nat
  | Stale

record duration_coordinator =
  scheduled :: "scheduled_action option"
  generation :: u64

definition coordinator_new :: duration_coordinator where
  "coordinator_new = \<lparr>scheduled = None, generation = 0\<rparr>"

definition pause_active :: "duration_coordinator \<Rightarrow> bool" where
  "pause_active c = (case scheduled c of Some a \<Rightarrow> sched_action a = ActPause | None \<Rightarrow> False)"

definition schedule ::
    "duration_action \<Rightarrow> duration_preset \<Rightarrow> nat \<Rightarrow> duration_coordinator
      \<Rightarrow> schedule_request \<times> duration_coordinator" where
  "schedule action duration now c =
     (let gen = saturating_add (generation c) 1;
          current = \<lparr>sched_action = action, sched_duration = duration,
                     deadline = now + min (preset_duration duration) MAX_DURATION,
                     sched_generation = gen\<rparr>
      in (case scheduled c of Some previous \<Rightarrow> Replaced previous current | None \<Rightarrow> Started current,
          c\<lparr>generation := gen, scheduled := Some current\<rparr>))"

definition cancel :: "duration_coordinator \<Rightarrow> scheduled_action option \<times> duration_coordinator" where
  "cancel c =
     (let previous = scheduled c;
          c1 = c\<lparr>scheduled := None\<rparr>
      in (previous,
          if previous \<noteq> None then c1\<lparr>generation := saturating_add (generation c1) 1\<rparr> else c1))"

definition timer_event :: "u64 \<Rightarrow> nat \<Rightarrow> duration_coordinator \<Rightarrow> coordinator_timer_event" where
  "timer_event gen now c =
     (case scheduled c of
        None \<Rightarrow> Stale
      | Some a \<Rightarrow>
          if gen \<noteq> generation c \<or> gen \<noteq> sched_generation a then Stale
          else if remaining a now = 0 then Expired a
          else Early (sched_action a) gen (remaining a now))"

definition acquisition_is_allowed :: "bool \<Rightarrow> bool \<Rightarrow> power_state \<Rightarrow> bool \<Rightarrow> bool" where
  "acquisition_is_allowed paused automatic pw battery_lockout =
     (\<not> paused \<and> automatic
      \<and> decision_status (decide \<lparr>enabled = True, eligible_profile = True, power = pw,
                                 battery_lockout_enabled = battery_lockout\<rparr>) = Requested)"

definition timer_interval_ms :: "nat \<Rightarrow> nat" where
  "timer_interval_ms rem = min (max (rem div 1000000) 1) MAX_TIMER_INTERVAL_MS"

section \<open>Facts about presets\<close>

lemma bind_result_simps [simp]:
  "bind_result (Inl e) f = Inl e" "bind_result (Inr x) f = f x"
  by (simp_all add: bind_result_def)

lemma bind_result_Inr: "bind_result r f = Inr y \<longleftrightarrow> (\<exists>x. r = Inr x \<and> f x = Inr y)"
  by (cases r) auto

lemma preset_new_Inr: "preset_new s = Inr p \<longleftrightarrow> p = s \<and> 10 \<le> s \<and> s \<le> 86400"
  by (auto simp: preset_new_def model_defs)

lemma from_micros_range: "from_micros_rounded m = Inr p \<Longrightarrow> 10 \<le> p \<and> p \<le> 86400"
  by (auto simp: from_micros_rounded_def bind_result_Inr Let_def preset_new_Inr split: if_splits)

lemma preset_parse_range: "preset_parse s = Inr p \<Longrightarrow> 10 \<le> p \<and> p \<le> 86400"
  by (auto simp: preset_parse_def Let_def bind_result_Inr preset_new_Inr split: if_splits
      dest: from_micros_range)

definition preset_valid :: "duration_preset \<Rightarrow> bool" where
  "preset_valid p \<longleftrightarrow> 10 \<le> p \<and> p \<le> 86400"

definition presets_ok :: "presets \<Rightarrow> bool" where
  "presets_ok ps \<longleftrightarrow> sorted ps \<and> distinct ps \<and> 1 \<le> length ps \<and> length ps \<le> MAX_PRESETS
     \<and> (\<forall>p\<in>set ps. preset_valid p)"

lemma default_ok: "presets_ok default_presets"
  by (simp add: presets_ok_def default_presets_def preset_valid_def MAX_PRESETS_def)

lemma add_ok: "presets_ok ps \<Longrightarrow> preset_valid p \<Longrightarrow> presets_ok (snd (presets_add p ps))"
  by (auto simp: presets_ok_def presets_add_def)

lemma remove_ok: "presets_ok ps \<Longrightarrow> presets_ok (snd (presets_remove i ps))"
proof (cases "i < length ps \<and> 1 < length ps")
  case True
  define as bs where "as = take i ps" and "bs = drop (Suc i) ps"
  have "ps = as @ ps ! i # bs" using True by (simp add: as_def bs_def id_take_nth_drop)
  moreover assume "presets_ok ps"
  ultimately have "presets_ok (as @ ps ! i # bs)" by simp
  moreover have "1 \<le> length (as @ bs)" using True by (auto simp: as_def bs_def)
  ultimately have "presets_ok (as @ bs)" by (auto simp: presets_ok_def sorted_append)
  then show ?thesis using True by (simp add: presets_remove_def as_def bs_def)
qed (auto simp: presets_remove_def)

lemma sorted_distinct_adj: "sorted (xs :: nat list) \<Longrightarrow> distinct (remdups_adj xs)"
  by (induction xs rule: remdups_adj.induct) (auto simp: remdups_adj_set)

lemma from_seconds_ok: "presets_ok (from_seconds_list xs)"
proof -
  define ys where "ys = sort (filter (\<lambda>s. \<not> isl (preset_new s)) xs)"
  have "sorted (remdups_adj ys)" "distinct (remdups_adj ys)"
    by (simp_all add: ys_def sorted_remdups_adj sorted_distinct_adj)
  moreover have "\<forall>p\<in>set (remdups_adj ys). preset_valid p"
    by (auto simp: ys_def preset_valid_def preset_new_def model_defs split: if_splits)
  ultimately show ?thesis
    using default_ok
    by (auto simp: from_seconds_list_def presets_ok_def Let_def ys_def [symmetric] sorted_wrt_take
        Suc_le_eq dest: in_set_takeD)
qed

lemma seconds_round_trip: "presets_ok ps \<Longrightarrow> from_seconds_list (to_seconds_list ps) = ps"
proof -
  assume ok: "presets_ok ps"
  have "filter (\<lambda>s. \<not> isl (preset_new s)) ps = ps"
    using ok by (auto simp: presets_ok_def preset_valid_def preset_new_def model_defs intro!: filter_True)
  moreover have "sort ps = ps" using ok by (simp add: presets_ok_def sorted_sort_id)
  moreover have "remdups_adj ps = ps" using ok by (simp add: presets_ok_def remdups_adj_distinct)
  ultimately show ?thesis using ok by (auto simp: from_seconds_list_def to_seconds_list_def presets_ok_def)
qed

section \<open>Facts about the coordinator\<close>

text \<open>The scheduled action carries the coordinator's generation and a deadline within a day.\<close>

definition coordinator_ok :: "duration_coordinator \<Rightarrow> bool" where
  "coordinator_ok c \<longleftrightarrow> (\<forall>a. scheduled c = Some a \<longrightarrow> sched_generation a = generation c)"

lemma coordinator_ok_ops:
  "coordinator_ok coordinator_new"
  "coordinator_ok (snd (schedule act d now c))"
  "coordinator_ok (snd (cancel c))"
  by (simp_all add: coordinator_ok_def coordinator_new_def schedule_def cancel_def Let_def)

lemma generation_grows:
  "generation c \<noteq> - 1 \<Longrightarrow> unat (generation (snd (schedule act d now c))) = unat (generation c) + 1"
  "generation c \<noteq> - 1 \<Longrightarrow> scheduled c \<noteq> None \<Longrightarrow>
     unat (generation (snd (cancel c))) = unat (generation c) + 1"
proof -
  have "unat g + 1 \<le> 2 ^ 64 - 1" if "g \<noteq> - 1" for g :: u64
    using that unat_lt_power [of g] unat_max_word [where 'a = 64]
    by (auto simp: word_unat_eq_iff simp flip: Suc_le_eq)
  then show "generation c \<noteq> - 1 \<Longrightarrow> unat (generation (snd (schedule act d now c))) = unat (generation c) + 1"
    "generation c \<noteq> - 1 \<Longrightarrow> scheduled c \<noteq> None \<Longrightarrow>
     unat (generation (snd (cancel c))) = unat (generation c) + 1"
    by (simp_all add: schedule_def cancel_def Let_def unat_saturating_add min_absorb1)
qed

section \<open>Labels and their parse\<close>

text \<open>A compact label is a list of segments, each a number and a unit letter.\<close>

definition unit_seconds :: "char \<Rightarrow> nat" where
  "unit_seconds u = (if u = CHR ''h'' then 3600 else if u = CHR ''m'' then 60 else 1)"

definition unit_letter :: "char \<Rightarrow> bool" where
  "unit_letter u \<longleftrightarrow> u = CHR ''h'' \<or> u = CHR ''m'' \<or> u = CHR ''s''"

definition segs_text :: "(nat \<times> char) list \<Rightarrow> string" where
  "segs_text segs = join_space (map (\<lambda>(n, u). dec n @ [u]) segs)"

definition segs_total :: "(nat \<times> char) list \<Rightarrow> nat" where
  "segs_total segs = sum_list (map (\<lambda>(n, u). n * unit_seconds u) segs)"

lemma trim_front_unfold_None: "strip_any ps s = None \<Longrightarrow> trim_front ps s = s"
  by (subst trim_front.simps) simp

lemma trim_start_digit: "s \<noteq> [] \<Longrightarrow> is_digit (hd s) \<Longrightarrow> trim_start s = s"
  unfolding trim_start_def using whitespace_encodings_nonempty whitespace_encoding_ends plain_digit
  by (intro trim_front_plain) auto

lemma trim_start_space: "trim_start (CHR '' '' # s) = trim_start s"
  unfolding trim_start_def
  by (subst trim_front.simps) (simp add: whitespace_encodings_def)

lemma trim_start_Nil [simp]: "trim_start [] = []"
  unfolding trim_start_def using whitespace_encodings_nonempty whitespace_encoding_ends
  by (intro trim_front_plain) auto

lemma number_text_digits:
  "\<forall>c\<in>set n. is_digit c \<Longrightarrow> \<not> is_digit u \<Longrightarrow> u \<noteq> CHR ''.'' \<Longrightarrow>
   number_text b (n @ u # r) = (n, u # r)"
  by (induction n) auto

lemma hd_dec_digit: "is_digit (hd (dec n @ r))"
  using dec_digits [of n] by (simp add: hd_append)

lemma unit_letter_simps:
  "unit_letter u \<Longrightarrow> \<not> is_digit u" "unit_letter u \<Longrightarrow> u \<noteq> CHR ''.''" "unit_letter u \<Longrightarrow> is_alpha u"
  by (auto simp: unit_letter_def is_digit_def is_alpha_def Let_def)

lemma no_dot_dec: "CHR ''.'' \<notin> set (dec n)"
  using dec_digits [of n] by (auto simp: is_digit_def)

lemma segment_value:
  assumes "unit_letter u" "n * unit_seconds u \<le> 86400"
  shows "bind_result (unit_micros [u]) (segment_seconds (dec n)) = Inr (n * unit_seconds u)"
proof -
  have n: "n \<le> 86400" using assms by (auto simp: unit_letter_def unit_seconds_def)
  have "unit_micros [u] = Inr (unit_seconds u * 1000000)"
    using assms(1) by (auto simp: unit_letter_def unit_micros_def unit_seconds_def)
  moreover have "segment_seconds (dec n) (unit_seconds u * 1000000) = Inr (n * unit_seconds u)"
    using assms(2) n
    by (simp add: segment_seconds_def no_dot_dec parse64_def checked64_def u64_max_def)
  ultimately show ?thesis by simp
qed

lemma parse_segment_step:
  assumes "unit_letter u" "r = [] \<or> hd r = CHR '' ''" "acc + n * unit_seconds u \<le> 86400"
  shows "parse_segments acc b (dec n @ u # r) = parse_segments (acc + n * unit_seconds u) True r"
proof -
  have trim: "trim_start (dec n @ u # r) = dec n @ u # r"
    by (rule trim_start_digit) (auto simp: hd_dec_digit simp del: hd_append2)
  have num: "number_text False (dec n @ u # r) = (dec n, u # r)"
    using assms(1) unit_letter_simps by (intro number_text_digits dec_digits) auto
  have digit: "(\<forall>c\<in>set (dec n). \<not> is_digit c) \<longleftrightarrow> False"
    using dec_digits [of n] dec_nonempty [of n] by (cases "dec n") auto
  have "\<not> is_alpha (CHR '' '')" by (simp add: is_alpha_def)
  then have rest: "takeWhile is_alpha (u # r) = [u]" "dropWhile is_alpha (u # r) = r"
    using assms(1,2) unit_letter_simps(3) by (cases r; auto)+
  show ?thesis
    using segment_value [OF assms(1), of n] assms(3)
    by (subst parse_segments.simps)
       (simp add: trim num digit rest checked64_def u64_max_def MAX_PRESET_SECONDS_def
         del: takeWhile.simps dropWhile.simps)
qed

lemma segs_text_Cons:
  "segs_text ((n, u) # seg # segs) = dec n @ u # CHR '' '' # segs_text (seg # segs)"
  by (simp add: segs_text_def)

lemma parse_segments_space: "parse_segments acc b (CHR '' '' # s) = parse_segments acc b s"
  by (subst (1 2) parse_segments.simps) (simp add: trim_start_space)

lemma parse_segs_text:
  assumes "segs \<noteq> []" "\<forall>(n, u)\<in>set segs. unit_letter u" "acc + segs_total segs \<le> 86400"
  shows "parse_segments acc b (segs_text segs) = Inr (acc + segs_total segs, True)"
  using assms
proof (induction segs arbitrary: acc b)
  case (Cons seg segs)
  obtain n u where seg: "seg = (n, u)" by fastforce
  have le: "acc + n * unit_seconds u \<le> 86400" "unit_letter u"
    using Cons.prems by (auto simp: seg segs_total_def)
  show ?case
  proof (cases segs)
    case Nil
    have "parse_segments (acc + n * unit_seconds u) True [] = Inr (acc + n * unit_seconds u, True)"
      by (subst parse_segments.simps) simp
    then show ?thesis using parse_segment_step [OF le(2) _ le(1), of "[]"]
      by (simp add: Nil seg segs_text_def segs_total_def)
  next
    case (Cons seg' segs')
    then show ?thesis
      using parse_segment_step [OF le(2) _ le(1), of "CHR '' '' # segs_text segs" b]
        Cons.prems local.Cons Cons.IH [of "acc + n * unit_seconds u" True]
      by (simp add: seg segs_text_Cons parse_segments_space segs_total_def add.assoc)
  qed
qed simp

text \<open>Text that begins with a digit, ends with a letter and is already lowercase is parsed by the
  segment loop as it is.\<close>

definition label_like :: "string \<Rightarrow> bool" where
  "label_like s \<longleftrightarrow> s \<noteq> [] \<and> is_digit (hd s) \<and> is_alpha (last s)
     \<and> (\<forall>c\<in>set s. \<not> (65 \<le> (of_char c :: nat) \<and> (of_char c :: nat) \<le> 90))"

lemma parse_label_like:
  assumes "label_like s"
  shows "preset_parse s = bind_result (parse_segments 0 False s) (\<lambda>(acc, consumed).
            if \<not> consumed then Err ''duration text is empty''
            else if \<not> (MIN_PRESET_SECONDS \<le> acc \<and> acc \<le> MAX_PRESET_SECONDS)
            then Err range_error
            else preset_new acc)"
proof -
  have s: "s \<noteq> []" "plain_char (hd s)" "is_alpha (last s)"
    using assms by (auto simp: label_like_def plain_digit)
  have "plain_char (last s)" using s(3) by (auto simp: is_alpha_def plain_char_def Let_def)
  then have trim: "trim s = s" using s by (simp add: trim_plain)
  have lower: "to_ascii_lowercase s = s"
    using assms unfolding to_ascii_lowercase_def
    by (intro map_idI) (auto simp: label_like_def ascii_lower_char_def Let_def)
  have "last s \<in> set s" "\<not> is_digit (last s)" "last s \<noteq> CHR ''.''"
    using s by (auto simp: is_alpha_def is_digit_def Let_def)
  then have "(\<forall>c\<in>set s. is_digit c \<or> c = CHR ''.'') \<longleftrightarrow> False" by blast
  then show ?thesis unfolding preset_parse_def trim Let_def lower using s(1) by (simp only: if_False)
qed

lemma digits_not_upper: "c \<in> set (dec n) \<Longrightarrow> \<not> 65 \<le> (of_char c :: nat)"
  using dec_digits [of n] by (auto simp: is_digit_def)

lemma label_like_dec:
  "r \<noteq> [] \<Longrightarrow> is_alpha (last r) \<Longrightarrow>
   \<forall>c\<in>set r. \<not> (65 \<le> (of_char c :: nat) \<and> (of_char c :: nat) \<le> 90) \<Longrightarrow> label_like (dec n @ r)"
  using hd_dec_digit [of n r] digits_not_upper by (auto simp: label_like_def simp del: hd_append2)

lemma label_like_segs:
  assumes "segs \<noteq> []" "\<forall>(n, u)\<in>set segs. unit_letter u" shows "label_like (segs_text segs)"
  using assms
proof (induction segs)
  case (Cons seg segs)
  obtain n u where seg: "seg = (n, u)" by fastforce
  have u: "is_alpha u" "\<not> (65 \<le> (of_char u :: nat) \<and> (of_char u :: nat) \<le> 90)"
    using Cons.prems seg by (auto simp: unit_letter_def is_alpha_def Let_def)
  show ?case
  proof (cases segs)
    case Nil
    then show ?thesis using u by (auto simp: seg segs_text_def intro!: label_like_dec)
  next
    case (Cons seg' segs')
    then have "label_like (segs_text segs)" using Cons.IH Cons.prems by auto
    moreover have "segs_text (seg # segs) = dec n @ u # CHR '' '' # segs_text segs"
      using segs_text_Cons [of n u seg' segs'] local.Cons by (simp add: seg)
    ultimately show ?thesis using u label_like_dec [of "u # CHR '' '' # segs_text segs" n]
      by (auto simp: label_like_def)
  qed
qed simp

definition label_segs :: "nat \<Rightarrow> (nat \<times> char) list" where
  "label_segs s =
     (if 0 < s div 3600 then [(s div 3600, CHR ''h'')] else [])
     @ (if 0 < (s mod 3600) div 60 then [((s mod 3600) div 60, CHR ''m'')] else [])
     @ (if 0 < s mod 60 then [(s mod 60, CHR ''s'')] else [])"

lemma label_segs_total: "segs_total (label_segs s) = s"
proof -
  have "(s mod 3600) div 60 * 60 + (s mod 3600) mod 60 = s mod 3600" by simp
  moreover have "(s mod 3600) mod 60 = s mod 60" by (simp add: mod_mod_cancel)
  ultimately have "s = s div 3600 * 3600 + (s mod 3600) div 60 * 60 + s mod 60"
    using div_mult_mod_eq [of s 3600] by linarith
  then show ?thesis by (auto simp: segs_total_def label_segs_def unit_seconds_def)
qed

definition unit_form :: "nat \<Rightarrow> bool" where
  "unit_form s \<longleftrightarrow> s < 60 \<or> s mod 3600 = 0 \<or> s < 3600 \<and> s mod 60 = 0"

lemma format_compact: "\<not> unit_form s \<Longrightarrow> format_label s = segs_text (label_segs s)"
  by (auto simp: unit_form_def format_label_def segs_text_def label_segs_def Let_def)

lemma parse_unit_label:
  assumes "is_alpha (last u)" "u \<noteq> []" "\<forall>c\<in>set u. \<not> (65 \<le> (of_char c :: nat) \<and> (of_char c :: nat) \<le> 90)"
  shows "preset_parse (dec n @ CHR '' '' # u) = Inl ''expected a unit after the number''"
proof -
  let ?s = "dec n @ CHR '' '' # u"
  have "label_like ?s" using assms by (intro label_like_dec) auto
  moreover have "trim_start ?s = ?s" using hd_dec_digit [of n "CHR '' '' # u"] by (intro trim_start_digit) auto
  moreover have "number_text False ?s = (dec n, CHR '' '' # u)"
    by (intro number_text_digits dec_digits) (auto simp: is_digit_def)
  moreover have "(\<forall>c\<in>set (dec n). \<not> is_digit c) \<longleftrightarrow> False"
    using dec_digits [of n] dec_nonempty [of n] by (cases "dec n") auto
  moreover have "\<not> is_alpha (CHR '' '')" by (simp add: is_alpha_def)
  ultimately show ?thesis
    by (subst parse_label_like, simp, subst parse_segments.simps) (simp add: unit_micros_def)
qed

lemma format_unit:
  "unit_form s \<Longrightarrow> \<exists>n u. format_label s = dec n @ CHR '' '' # u \<and> u \<noteq> [] \<and> is_alpha (last u)
     \<and> (\<forall>c\<in>set u. \<not> (65 \<le> (of_char c :: nat) \<and> (of_char c :: nat) \<le> 90))"
  unfolding unit_form_def format_label_def unit_label_def
  by (rule exI [of _ "if s < 60 then s else if s mod 3600 = 0 then s div 3600 else s div 60"])
     (auto simp: is_alpha_def Let_def)

section \<open>Properties\<close>

text \<open>parsing never yields a preset outside ten seconds to 24 hours, and the label of a preset in
  compact form (such as 1h 30m) is read back as the same preset, while a label in unit form (such
  as 5 minutes) is always rejected, because a blank between number and unit is not accepted.\<close>

theorem preset_label_parse:
  assumes "10 \<le> s" "s \<le> 86400"
  shows "preset_parse (format_label s) =
    (if s < 60 \<or> s mod 3600 = 0 \<or> s < 3600 \<and> s mod 60 = 0
     then Inl ''expected a unit after the number'' else Inr s)"
proof (cases "unit_form s")
  case True
  then obtain n u where "format_label s = dec n @ CHR '' '' # u" "u \<noteq> []" "is_alpha (last u)"
    "\<forall>c\<in>set u. \<not> (65 \<le> (of_char c :: nat) \<and> (of_char c :: nat) \<le> 90)"
    using format_unit by blast
  then show ?thesis using parse_unit_label [of u n] True by (simp add: unit_form_def)
next
  case False
  have segs: "\<forall>(n, u)\<in>set (label_segs s). unit_letter u" "label_segs s \<noteq> []"
    using assms label_segs_total [of s] by (auto simp: label_segs_def unit_letter_def segs_total_def)
  have "parse_segments 0 False (segs_text (label_segs s)) = Inr (s, True)"
    using parse_segs_text [OF segs(2,1), of 0] assms by (simp add: label_segs_total)
  then have "preset_parse (segs_text (label_segs s)) = Inr s"
    using assms label_like_segs [OF segs(2,1)]
    by (simp add: parse_label_like preset_new_def model_defs)
  then show ?thesis using False by (simp add: format_compact) (simp add: unit_form_def)
qed

theorem preset_label_parse_witness:
  "preset_parse (format_label 5400) = Inr 5400
   \<and> preset_parse (format_label 300) = Inl ''expected a unit after the number''"
  using preset_label_parse [of 5400] preset_label_parse [of 300] by simp

text \<open>a number and its unit separated by a blank are rejected: the text 1.5 hours is no duration.\<close>

theorem spaced_unit_rejected:
  "preset_parse ''1.5 hours'' = Inl ''expected a unit after the number''"
proof -
  have like: "label_like ''1.5 hours''"
    by (simp add: label_like_def is_digit_def is_alpha_def)
  have "trim_start ''1.5 hours'' = ''1.5 hours''" by (rule trim_start_digit) (simp_all add: is_digit_def)
  then show ?thesis
    by (subst parse_label_like [OF like], subst parse_segments.simps)
       (simp add: is_digit_def is_alpha_def unit_micros_def)
qed

text \<open>C36: a successful parse is always a preset between ten seconds and 24 hours, and the preset list
  that any sequence of additions, removals and resets reaches, from any stored list, is sorted,
  free of duplicates, within range, and holds between one and twelve entries.\<close>

theorem presets_invariant:
  "presets_ok (foldl (\<lambda>ps f. case f of
        Inl (Inl text) \<Rightarrow> (case preset_parse text of Inl _ \<Rightarrow> ps | Inr p \<Rightarrow> snd (presets_add p ps))
      | Inl (Inr i) \<Rightarrow> snd (presets_remove i ps)
      | Inr (_ :: unit) \<Rightarrow> presets_reset ps) (from_seconds_list stored) ops)"
proof -
  have "presets_ok ps \<Longrightarrow> presets_ok (foldl (\<lambda>ps f. case f of
        Inl (Inl text) \<Rightarrow> (case preset_parse text of Inl _ \<Rightarrow> ps | Inr p \<Rightarrow> snd (presets_add p ps))
      | Inl (Inr i) \<Rightarrow> snd (presets_remove i ps)
      | Inr (_ :: unit) \<Rightarrow> presets_reset ps) ps ops)" for ps
    by (induction ops arbitrary: ps)
       (auto simp: add_ok remove_ok presets_reset_def default_ok preset_valid_def
         dest: preset_parse_range split: sum.splits)
  then show ?thesis using from_seconds_ok by blast
qed

text \<open>an event of a timer armed before the last change of the schedule is ignored: scheduling and
  cancelling both invalidate every earlier generation, short of 2 to the 64 changes, and an event
  of the current generation expires exactly from the deadline on.\<close>

theorem coordinator_stale_events:
  assumes "coordinator_ok c" and "generation c \<noteq> - 1" and "unat gen \<le> unat (generation c)"
  shows "timer_event gen now (snd (schedule act d t c)) = Stale
    \<and> timer_event gen now (snd (cancel c)) = Stale
    \<and> timer_event (generation (snd (schedule act d t c))) now (snd (schedule act d t c))
      = (if t + min (preset_duration d) MAX_DURATION \<le> now
         then Expired (the (scheduled (snd (schedule act d t c))))
         else Early act (generation (snd (schedule act d t c)))
                (t + min (preset_duration d) MAX_DURATION - now))"
proof -
  have "unat gen \<noteq> unat (generation (snd (schedule act d t c)))"
    using generation_grows(1) [OF assms(2), of act d t] assms(3) by simp
  then have "gen \<noteq> generation (snd (schedule act d t c))" by blast
  then have "timer_event gen now (snd (schedule act d t c)) = Stale"
    by (simp add: timer_event_def split: option.splits)
  moreover have "timer_event gen now (snd (cancel c)) = Stale"
    by (simp add: timer_event_def cancel_def Let_def)
  moreover have "timer_event (generation (snd (schedule act d t c))) now (snd (schedule act d t c))
      = (if t + min (preset_duration d) MAX_DURATION \<le> now
         then Expired (the (scheduled (snd (schedule act d t c))))
         else Early act (generation (snd (schedule act d t c)))
                (t + min (preset_duration d) MAX_DURATION - now))"
    by (auto simp: timer_event_def schedule_def Let_def remaining_def)
  ultimately show ?thesis by blast
qed

theorem coordinator_stale_events_witness:
  "timer_event 0 5 (snd (schedule ActPause 60 0 coordinator_new)) = Stale"
proof -
  have "generation coordinator_new \<noteq> - 1" by (simp add: coordinator_new_def)
  then show ?thesis using coordinator_stale_events [OF coordinator_ok_ops(1)] by simp
qed

end
