(* ===== verification/Text.thy ===== *)
theory Text
  imports Ipc
begin

text \<open>
  Text shared by the components that read and write files: strings as lists of bytes, their byte
  form, truncation on a character boundary (\<open>tick_diagnostics::truncate_utf8\<close>), joining, and the
  facts about trimming and ASCII text that the file formats rest on.
\<close>

section \<open>Strings and bytes\<close>

definition text_of :: "bytes \<Rightarrow> string" where
  "text_of bs = map (\<lambda>b. char_of (unat b)) bs"

definition starts_with :: "string \<Rightarrow> string \<Rightarrow> bool" where
  "starts_with p s = (take (length p) s = p)"

definition bytes_of :: "string \<Rightarrow> bytes" where
  "bytes_of s = map (\<lambda>c. of_nat (of_char c)) s"

text \<open>Truncation on a character boundary; the width of a character is read off its first byte.\<close>

definition char_width :: "u8 \<Rightarrow> nat" where
  "char_width b = (if b < 0x80 then 1 else if b < 0xE0 then 2 else if b < 0xF0 then 3 else 4)"

function whole_chars :: "nat \<Rightarrow> bytes \<Rightarrow> bytes" where
  "whole_chars limit [] = []"
| "whole_chars limit (b # bs) =
     (if char_width b \<le> limit
      then take (char_width b) (b # bs) @ whole_chars (limit - char_width b) (drop (char_width b) (b # bs))
      else [])"
  by pat_completeness auto
termination
  by (relation "measure (\<lambda>(_, bs). length bs)") (auto simp: char_width_def)

definition truncate_utf8 :: "bytes \<Rightarrow> nat \<Rightarrow> bytes" where
  "truncate_utf8 s maximum =
     (if length s \<le> maximum then s else whole_chars maximum s @ [0x2E, 0x2E, 0x2E])"

fun join_with :: "string \<Rightarrow> string list \<Rightarrow> string" where
  "join_with sep [] = []"
| "join_with sep [p] = p"
| "join_with sep (p # q # ps) = p @ sep @ join_with sep (q # ps)"

fun word_split :: "string \<Rightarrow> string \<times> string" where
  "word_split [] = ([], [])"
| "word_split (c # cs) =
     (if strip_any whitespace_encodings (c # cs) \<noteq> None then ([], c # cs)
      else case word_split cs of (w, r) \<Rightarrow> (c # w, r))"

text \<open>\<open>split_whitespace\<close>: the next word of a text.\<close>

definition next_word :: "string \<Rightarrow> (string \<times> string) option" where
  "next_word s = (let t = trim_start s in if t = [] then None else Some (word_split t))"

section \<open>Facts\<close>

lemma whole_chars_length: "length (whole_chars limit s) \<le> limit"
proof (induction limit s rule: whole_chars.induct)
  case (2 limit b bs)
  then show ?case by (auto simp: min_def simp del: take_Cons' drop_Cons')
qed simp

lemma text_of_bytes_of [simp]: "text_of (bytes_of s) = s"
proof -
  have "char_of (unat (of_nat (of_char c) :: u8)) = c" for c
  proof -
    have "(of_char c :: nat) < 256"
      by simp
    then have "unat (of_nat (of_char c) :: u8) = of_char c"
      by (simp add: unat_of_nat take_bit_nat_eq_self)
    then show ?thesis by simp
  qed
  then show ?thesis
    by (simp add: text_of_def bytes_of_def comp_def map_idI)
qed

lemma length_bytes_of [simp]: "length (bytes_of s) = length s"
  by (simp add: bytes_of_def)

definition ascii_text :: "string \<Rightarrow> bool" where
  "ascii_text s \<longleftrightarrow> (\<forall>c\<in>set s. (of_char c :: nat) < 128)"

lemma ascii_simps [simp]: "ascii_text (a @ b) \<longleftrightarrow> ascii_text a \<and> ascii_text b"
    "ascii_text (c # s) \<longleftrightarrow> (of_char c :: nat) < 128 \<and> ascii_text s" "ascii_text []"
  by (auto simp: ascii_text_def)

lemma ascii_utf8: "ascii_text s \<Longrightarrow> valid_utf8 (bytes_of s)"
proof (induction s)
  case (Cons c s)
  then have "(of_nat (of_char c) :: u8) \<le> 0x7F"
    by (simp add: ascii_text_def word_le_nat_alt unat_of_nat take_bit_nat_eq_self)
  with Cons show ?case
    by (simp add: bytes_of_def ascii_text_def)
qed (simp add: bytes_of_def)

definition plain_ends :: "string \<Rightarrow> bool" where
  "plain_ends s \<longleftrightarrow> s \<noteq> [] \<and> plain_char (hd s) \<and> plain_char (last s)"

lemma trim_plain_ends: "plain_ends s \<Longrightarrow> trim s = s"
  by (simp add: plain_ends_def trim_plain)

lemma trim_leading_space: "trim (CHR 0x20 # s) = trim s"
  unfolding trim_def trim_start_def by (subst trim_front.simps) (simp add: whitespace_encodings_def)

lemma end_space: "trim_end (s @ [CHR 0x20]) = trim_end s"
  unfolding trim_end_def by (subst trim_front.simps) (simp add: whitespace_encodings_def)

lemma end_newline: "trim_end (s @ [CHR 0x0A]) = trim_end s"
  unfolding trim_end_def by (subst trim_front.simps) (simp add: whitespace_encodings_def)

lemma trim_trailing: "plain_ends s \<Longrightarrow> c \<in> {CHR 0x20, CHR 0x0A} \<Longrightarrow> trim (s @ [c]) = s"
proof -
  assume s: "plain_ends s" and c: "c \<in> {CHR 0x20, CHR 0x0A}"
  have start: "trim_start (s @ t) = s @ t" for t
    unfolding trim_start_def using s whitespace_encodings_nonempty whitespace_encoding_ends
    by (intro trim_front_plain) (auto simp: plain_ends_def)
  have "trim_end (s @ [c]) = trim_end s"
    using c by (auto simp: end_space end_newline)
  then show ?thesis
    using trim_plain_ends [OF s] start [of "[]"] start [of "[c]"] by (simp add: trim_def)
qed

lemmas trim_trailing_space = trim_trailing [of _ "CHR 0x20", simplified]

lemma trim_trailing_newline: "plain_ends s \<Longrightarrow> trim (s @ newline) = s"
  by (simp add: newline_def trim_trailing)

lemma dec_plain_ends: "plain_ends (dec n)"
  using dec_digits [of n] dec_nonempty [of n] by (simp add: plain_ends_def plain_digit)

lemma digit_not_special: "is_digit c \<Longrightarrow> c \<notin> {CHR 0x0A, CHR 0x0D, CHR ''#'', CHR ''='', CHR '','', CHR 0x20}"
  by (auto simp: is_digit_def)

lemma dec_no_special: "CHR 0x0A \<notin> set (dec n)" "CHR 0x0D \<notin> set (dec n)" "CHR ''#'' \<notin> set (dec n)" "CHR '','' \<notin> set (dec n)"
  using dec_digits [of n] digit_not_special by blast+

lemma join_chars: "set (join_with sep ps) \<subseteq> set sep \<union> (\<Union>p\<in>set ps. set p)"
  by (induction sep ps rule: join_with.induct) auto

lemma join_length:
  "(\<forall>p\<in>set ps. length p \<le> k) \<Longrightarrow> length (join_with sep ps) \<le> length ps * (k + length sep)"
  by (induction sep ps rule: join_with.induct) (auto simp: algebra_simps)

end
