(* ===== verification/Session.thy ===== *)
theory Session
  imports Text
begin

text \<open>
  Model of \<open>apps/true-tick/src/session.rs\<close> (crash tombstone, marker classification and the atomic
  marker write) and \<open>apps/true-tick/src/shutdown.rs\<close> (message loop exit, shutdown disposition and
  the cleanup gate).

  SHA-256 is a parameter \<open>sha\<close> on bytes. The state directory is a finite map from file names to
  contents, and each file system call takes its outcome as an input, so a theorem covers every
  pattern of I/O failures.
\<close>

section \<open>Tombstone\<close>

definition TOMBSTONE_MAGIC :: bytes where
  [model_defs]: "TOMBSTONE_MAGIC = [0x54, 0x54, 0x53, 0x53]"

definition TOMBSTONE_VERSION :: bytes where
  [model_defs]: "TOMBSTONE_VERSION = [0x76, 0x31]"

definition TOMBSTONE_CHECKSUM_LEN :: nat where
  [model_defs]: "TOMBSTONE_CHECKSUM_LEN = 32"

definition TOMBSTONE_HEADER_LEN :: nat where
  [model_defs]: "TOMBSTONE_HEADER_LEN = 4 + 2 + 32 + 4 + 8"

definition MAX_ABORT_REASON_BYTES :: nat where
  [model_defs]: "MAX_ABORT_REASON_BYTES = 160"

record session_tombstone =
  tomb_pid :: u32
  startup_timestamp_secs :: u64

datatype session_error = Unreadable string | Corrupted string | ClockError

definition checksum :: "(bytes \<Rightarrow> bytes) \<Rightarrow> session_tombstone \<Rightarrow> bytes" where
  "checksum sha t = sha (TOMBSTONE_MAGIC @ TOMBSTONE_VERSION @ u32_to_le (tomb_pid t)
     @ u64_to_le (startup_timestamp_secs t))"

definition encode_bytes :: "(bytes \<Rightarrow> bytes) \<Rightarrow> session_tombstone \<Rightarrow> bytes" where
  "encode_bytes sha t = TOMBSTONE_MAGIC @ TOMBSTONE_VERSION @ checksum sha t
     @ u32_to_le (tomb_pid t) @ u64_to_le (startup_timestamp_secs t)"

definition decode_bytes :: "(bytes \<Rightarrow> bytes) \<Rightarrow> bytes \<Rightarrow> (session_error, session_tombstone) result" where
  "decode_bytes sha bs =
     (if length bs < TOMBSTONE_HEADER_LEN then Err (Corrupted ''tombstone is truncated'')
      else if slice 0 4 bs \<noteq> TOMBSTONE_MAGIC then Err (Corrupted ''tombstone magic mismatch'')
      else if slice 4 6 bs \<noteq> TOMBSTONE_VERSION then Err (Corrupted ''tombstone version mismatch'')
      else
        let stored = slice 6 38 bs;
            candidate = \<lparr>tomb_pid = u32_from_le (slice 38 42 bs),
                         startup_timestamp_secs = u64_from_le (slice 42 50 bs)\<rparr>
        in if checksum sha candidate \<noteq> stored
           then Err (Corrupted ''tombstone checksum mismatch'')
           else Ok candidate)"

section \<open>Classification of the previous session\<close>

datatype previous_session = FirstRun | CleanExit | UncleanShutdown | PrevCorrupted | PrevUnreadable

definition is_legacy_unclean_text :: "string \<Rightarrow> bool" where
  "is_legacy_unclean_text text =
     (let trimmed = trim text in
      trimmed = ''running'' \<or> starts_with ''state=running'' trimmed
      \<or> starts_with ''state=aborted'' trimmed)"

definition classify_previous_session_bytes :: "(bytes \<Rightarrow> bytes) \<Rightarrow> bytes option \<Rightarrow> previous_session" where
  "classify_previous_session_bytes sha content =
     (case content of
        None \<Rightarrow> FirstRun
      | Some bs \<Rightarrow>
          if \<not> isl (decode_bytes sha bs) then UncleanShutdown
          else if valid_utf8 bs \<and> trim (text_of bs) = ''clean'' then CleanExit
          else if valid_utf8 bs \<and> is_legacy_unclean_text (text_of bs) then UncleanShutdown
          else PrevCorrupted)"

definition classify_session_read ::
    "(bytes \<Rightarrow> bytes) \<Rightarrow> (session_error, bytes option) result \<Rightarrow> previous_session" where
  "classify_session_read sha r =
     (case r of
        Inr marker \<Rightarrow> classify_previous_session_bytes sha marker
      | Inl (Unreadable _) \<Rightarrow> PrevUnreadable
      | Inl (Corrupted _) \<Rightarrow> PrevCorrupted
      | Inl ClockError \<Rightarrow> PrevCorrupted)"

section \<open>Marker file\<close>

type_synonym files = "string \<Rightarrow> bytes option"

definition SESSION_MARKER_FILENAME :: string where
  [model_defs]: "SESSION_MARKER_FILENAME = ''session.state''"

definition temporary_tombstone_name :: "u32 \<Rightarrow> string" where
  "temporary_tombstone_name process = SESSION_MARKER_FILENAME @ ''.tmp.'' @ dec (unat process)"

text \<open>
  The outcome of each file system call of one atomic write: failures of the directory, of the
  creation, of the write after some bytes, of the sync, of the replacement, and of the removal of
  the temporary file.
\<close>

record io_faults =
  fail_dir :: bool
  fail_create :: bool
  fail_write :: "nat option"
  fail_sync :: bool
  fail_replace :: bool
  fail_remove :: bool

definition remove_temporary :: "io_faults \<Rightarrow> string \<Rightarrow> files \<Rightarrow> files" where
  "remove_temporary io tmp fs = (if fail_remove io then fs else fs(tmp := None))"

definition write_session_bytes_atomic ::
    "io_faults \<Rightarrow> u32 \<Rightarrow> bytes \<Rightarrow> files \<Rightarrow> (unit, unit) result \<times> files" where
  "write_session_bytes_atomic io process bs fs =
     (let target = SESSION_MARKER_FILENAME;
          tmp = temporary_tombstone_name process
      in if fail_dir io then (Err (), fs)
         else if fail_create io then (Err (), remove_temporary io tmp fs)
         else case fail_write io of
           Some n \<Rightarrow> (Err (), remove_temporary io tmp (fs(tmp := Some (take n bs))))
         | None \<Rightarrow>
             let fs1 = fs(tmp := Some bs) in
             if fail_sync io then (Err (), remove_temporary io tmp fs1)
             else if fail_replace io then (Err (), remove_temporary io tmp fs1)
             else (Ok (), fs1(target := fs1 tmp, tmp := None)))"

definition write_session_tombstone ::
    "(bytes \<Rightarrow> bytes) \<Rightarrow> io_faults \<Rightarrow> u32 \<Rightarrow> session_tombstone \<Rightarrow> files \<Rightarrow> (unit, unit) result \<times> files"
  where
  "write_session_tombstone sha io process t fs =
     write_session_bytes_atomic io process (encode_bytes sha t) fs"

text \<open>\<open>remove_file\<close>: a missing file counts as removed; otherwise the call may fail.\<close>

definition remove_session_marker :: "bool \<Rightarrow> files \<Rightarrow> (unit, unit) result \<times> files" where
  "remove_session_marker fails fs =
     (if fs SESSION_MARKER_FILENAME = None then (Ok (), fs)
      else if fails then (Err (), fs)
      else (Ok (), fs(SESSION_MARKER_FILENAME := None)))"

definition read_session_marker_bytes :: "bool \<Rightarrow> files \<Rightarrow> (session_error, bytes option) result" where
  "read_session_marker_bytes fails fs =
     (case fs SESSION_MARKER_FILENAME of
        None \<Rightarrow> Ok None
      | Some bs \<Rightarrow> if fails then Err (Unreadable []) else Ok (Some bs))"

definition sanitize_abort_reason :: "bytes \<Rightarrow> bytes" where
  "sanitize_abort_reason reason =
     truncate_utf8 (map (\<lambda>b. if b = 0x0A \<or> b = 0x0D then 0x20 else b) reason) MAX_ABORT_REASON_BYTES"

text \<open>The clock is an input: \<^term>\<open>None\<close> when it predates the epoch.\<close>

definition tombstone_current :: "u32 \<Rightarrow> u64 option \<Rightarrow> (session_error, session_tombstone) result" where
  "tombstone_current process clock =
     (case clock of
        None \<Rightarrow> Err ClockError
      | Some now \<Rightarrow> Ok \<lparr>tomb_pid = process, startup_timestamp_secs = now\<rparr>)"

definition write_aborted_session_marker ::
    "(bytes \<Rightarrow> bytes) \<Rightarrow> io_faults \<Rightarrow> u32 \<Rightarrow> u64 option \<Rightarrow> bytes \<Rightarrow> files \<Rightarrow> (unit, unit) result \<times> files" where
  "write_aborted_session_marker sha io process clock reason fs =
     (case tombstone_current process clock of
        Inl _ \<Rightarrow> (Err (), fs)
      | Inr t \<Rightarrow> write_session_bytes_atomic io process (encode_bytes sha t @ sanitize_abort_reason reason) fs)"

section \<open>Shutdown\<close>

datatype message_loop_exit = NormalQuit | GetMessageFailed u32

definition message_loop_exit_of :: "int \<Rightarrow> u32 \<Rightarrow> message_loop_exit option" where
  "message_loop_exit_of r raw_error =
     (if r = 0 then Some NormalQuit else if r = -1 then Some (GetMessageFailed raw_error) else None)"

datatype shutdown_disposition =
  Complete | ExitAfterMessageLoopError | KeepAliveForRetry | ExitWithUnresolvedCleanup

definition shutdown_disposition_of :: "message_loop_exit \<Rightarrow> bool \<Rightarrow> bool \<Rightarrow> shutdown_disposition" where
  "shutdown_disposition_of ex cleanup_verified ui_usable =
     (if cleanup_verified then
        (case ex of NormalQuit \<Rightarrow> Complete | GetMessageFailed _ \<Rightarrow> ExitAfterMessageLoopError)
      else if ex = NormalQuit \<and> ui_usable then KeepAliveForRetry
      else ExitWithUnresolvedCleanup)"

definition shutdown_pump_bound_exceeded :: "u64 \<Rightarrow> u64 \<Rightarrow> bool" where
  "shutdown_pump_bound_exceeded elapsed_ms bound_ms = (bound_ms \<le> elapsed_ms)"

record shutdown_gate =
  verified :: bool
  attempts :: u32

definition gate_new :: shutdown_gate where
  "gate_new = \<lparr>verified = False, attempts = 0\<rparr>"

text \<open>The cleanup closure is a stateful fallible action on the rest of the program state.\<close>

definition gate_attempt ::
    "('s \<Rightarrow> ('e, unit) result \<times> 's) \<Rightarrow> shutdown_gate \<Rightarrow> 's \<Rightarrow> ('e, unit) result \<times> shutdown_gate \<times> 's"
  where
  "gate_attempt cleanup g s =
     (if verified g then (Ok (), g, s)
      else
        let g1 = g\<lparr>attempts := saturating_add (attempts g) 1\<rparr> in
        case cleanup s of
          (Inr _, s1) \<Rightarrow> (Ok (), g1\<lparr>verified := True\<rparr>, s1)
        | (Inl e, s1) \<Rightarrow> (Err e, g1, s1))"

section \<open>Facts\<close>

lemma slice_append_eq: "length a = i \<Longrightarrow> length b = j - i \<Longrightarrow> slice i j (a @ b @ c) = b"
  by (simp add: slice_def)

lemma checksum_length: "(\<And>x. length (sha x) = 32) \<Longrightarrow> length (checksum sha t) = 32"
  by (simp add: checksum_def)

lemma decode_encode:
  assumes "\<And>x. length (sha x) = 32"
  shows "decode_bytes sha (encode_bytes sha t @ reason) = Inr t"
proof -
  have len: "length (checksum sha t) = 32" using assms by (rule checksum_length)
  then show ?thesis
    by (cases t) (simp add: decode_bytes_def encode_bytes_def slice_def model_defs Let_def)
qed

lemma write_atomic_marker:
  assumes "write_session_bytes_atomic io process bs fs = (r, fs')"
  shows "fs' SESSION_MARKER_FILENAME = (if isl r then fs SESSION_MARKER_FILENAME else Some bs)"
proof -
  have "temporary_tombstone_name process \<noteq> SESSION_MARKER_FILENAME"
    by (simp add: temporary_tombstone_name_def)
  then show ?thesis using assms
    by (auto simp: write_session_bytes_atomic_def remove_temporary_def Let_def
        split: if_splits option.splits)
qed

text \<open>The contract of a write that goes through a temporary file: the target holds the new contents after a
  success and its old contents after a failure. A reader after any number of writes sees one of the
  written contents or the first one, and with a codec some value that was saved.\<close>

locale atomic_file =
  fixes save :: "'i \<Rightarrow> bytes \<Rightarrow> files \<Rightarrow> ('e, unit) result \<times> files" and target :: string
  assumes replaced: "save io bs fs = (r, fs') \<Longrightarrow> fs' target = (if isl r then fs target else Some bs)"
begin

definition save_all :: "('i \<times> bytes) list \<Rightarrow> files \<Rightarrow> files" where
  "save_all ws fs = foldl (\<lambda>fs (io, bs). snd (save io bs fs)) fs ws"

lemma target_after: "snd (save io bs fs) target \<in> {fs target, Some bs}"
  using replaced [of io bs fs] by (cases "save io bs fs") simp

lemma save_all_target: "save_all ws fs target \<in> insert (fs target) (Some ` snd ` set ws)"
proof (induction ws arbitrary: fs)
  case (Cons w ws)
  have "save_all (w # ws) fs = save_all ws (snd (save (fst w) (snd w) fs))"
    by (simp add: save_all_def split_beta)
  then show ?case
    using Cons [of "snd (save (fst w) (snd w) fs)"] target_after [of "fst w" "snd w" fs] by auto
qed (simp add: save_all_def)

end

locale atomic_record = atomic_file save target
  for save :: "'i \<Rightarrow> bytes \<Rightarrow> files \<Rightarrow> ('e, unit) result \<times> files" and target :: string +
  fixes enc :: "'a \<Rightarrow> bytes" and dec_bytes :: "bytes \<Rightarrow> 'a option" and wf :: "'a \<Rightarrow> bool"
  assumes dec_enc: "wf x \<Longrightarrow> dec_bytes (enc x) = Some x"
begin

lemma written_after_saves:
  assumes "\<forall>w\<in>set ws. wf (snd w)" and "fs target = Some (enc x)" and "wf x"
  shows "\<exists>y\<in>insert x (snd ` set ws).
    save_all (map (\<lambda>(io, v). (io, enc v)) ws) fs target = Some (enc y) \<and> dec_bytes (enc y) = Some y"
proof -
  have "save_all (map (\<lambda>(io, v). (io, enc v)) ws) fs target \<in> Some ` enc ` insert x (snd ` set ws)"
    using save_all_target [of "map (\<lambda>(io, v). (io, enc v)) ws" fs] assms(2)
    by (simp add: image_image split_beta)
  then obtain y where "y \<in> insert x (snd ` set ws)"
      "save_all (map (\<lambda>(io, v). (io, enc v)) ws) fs target = Some (enc y)"
    by blast
  moreover from this(1) have "dec_bytes (enc y) = Some y"
    using assms(1,3) by (auto intro: dec_enc)
  ultimately show ?thesis
    by auto
qed

end

interpretation marker_file: atomic_file "\<lambda>io. write_session_bytes_atomic io process" SESSION_MARKER_FILENAME
  for process
  by unfold_locales (rule write_atomic_marker)

lemma sanitize_length: "length (sanitize_abort_reason r) \<le> 163"
  using whole_chars_length [of 160 "map (\<lambda>b. if b = 0x0A \<or> b = 0x0D then 0x20 else b) r"]
  by (simp add: sanitize_abort_reason_def truncate_utf8_def MAX_ABORT_REASON_BYTES_def)

section \<open>Properties\<close>

text \<open>crash detection. For any hash of 32 bytes, after a tombstone or an aborted-startup marker was
  written, the next start classifies the previous session as unclean; after the marker was
  removed, as a first run. Whatever calls fail, a failed write leaves the previous marker in place.\<close>

theorem session_marker_classified:
  assumes "\<And>x. length (sha x) = 32"
  shows "(case write_session_tombstone sha io process t fs of
      (Inr _, fs') \<Rightarrow> classify_session_read sha (read_session_marker_bytes False fs') = UncleanShutdown
    | (Inl _, fs') \<Rightarrow> fs' SESSION_MARKER_FILENAME = fs SESSION_MARKER_FILENAME)
  \<and> (case write_aborted_session_marker sha io process clock reason fs of
      (Inr _, fs') \<Rightarrow> classify_session_read sha (read_session_marker_bytes False fs') = UncleanShutdown
    | (Inl _, fs') \<Rightarrow> fs' SESSION_MARKER_FILENAME = fs SESSION_MARKER_FILENAME)
  \<and> (case remove_session_marker fails fs of
      (Inr _, fs') \<Rightarrow> classify_session_read sha (read_session_marker_bytes False fs') = FirstRun
    | (Inl _, fs') \<Rightarrow> fs' = fs)"
proof -
  have unclean: "classify_previous_session_bytes sha (Some (encode_bytes sha u @ extra)) = UncleanShutdown"
    for u extra using decode_encode [OF assms] by (simp add: classify_previous_session_bytes_def)
  have "case write_session_bytes_atomic io process (encode_bytes sha u @ extra) fs of
      (Inr _, fs') \<Rightarrow> classify_session_read sha (read_session_marker_bytes False fs') = UncleanShutdown
    | (Inl _, fs') \<Rightarrow> fs' SESSION_MARKER_FILENAME = fs SESSION_MARKER_FILENAME" for u extra
    using unclean
    by (auto simp: classify_session_read_def read_session_marker_bytes_def
        dest!: write_atomic_marker split: prod.splits sum.splits)
  from this [of t "[]"] this
  show ?thesis
    by (auto simp: write_session_tombstone_def write_aborted_session_marker_def tombstone_current_def
        remove_session_marker_def read_session_marker_bytes_def classify_session_read_def
        classify_previous_session_bytes_def split: option.splits)
qed

text \<open>A concrete hash of 32 bytes: the input cut or padded.\<close>

definition sample_hash :: "bytes \<Rightarrow> bytes" where
  "sample_hash x = take 32 (x @ replicate 32 0)"

definition no_faults :: io_faults where
  "no_faults = \<lparr>fail_dir = False, fail_create = False, fail_write = None, fail_sync = False,
     fail_replace = False, fail_remove = False\<rparr>"

theorem session_marker_classified_witness:
  "classify_session_read sample_hash (read_session_marker_bytes False
     (snd (write_session_tombstone sample_hash no_faults 7 \<lparr>tomb_pid = 7, startup_timestamp_secs = 9\<rparr>
        (\<lambda>_. None)))) = UncleanShutdown"
proof -
  have "\<And>x. length (sample_hash x) = 32" by (simp add: sample_hash_def)
  from session_marker_classified [OF this, where io = no_faults and process = 7
      and t = "\<lparr>tomb_pid = 7, startup_timestamp_secs = 9\<rparr>" and fs = "\<lambda>_. None"]
  show ?thesis
    by (simp add: write_session_tombstone_def write_session_bytes_atomic_def no_faults_def
        split: prod.splits sum.splits)
qed

text \<open>the cleanup gate runs the cleanup until it succeeds once and never again: a verified gate
  changes nothing, and each attempt before counts, so the process never exits as complete unless a
  cleanup succeeded, and keeps running for a retry only after an unverified normal quit with a
  usable interface.\<close>

theorem shutdown_gate_once:
  "(case gate_attempt cleanup g s of
      (Inr _, g', s') \<Rightarrow> verified g' \<and> gate_attempt again g' s' = (Inr (), g', s')
        \<and> (if verified g then g' = g \<and> s' = s else attempts g' = saturating_add (attempts g) 1)
    | (Inl _, g', s') \<Rightarrow> \<not> verified g' \<and> attempts g' = saturating_add (attempts g) 1)
   \<and> (shutdown_disposition_of ex v ui = Complete \<longleftrightarrow> v \<and> ex = NormalQuit)
   \<and> (shutdown_disposition_of ex v ui = KeepAliveForRetry \<longleftrightarrow> \<not> v \<and> ex = NormalQuit \<and> ui)"
  by (cases "verified g"; cases "cleanup s"; cases "fst (cleanup s)"; cases ex)
     (auto simp: gate_attempt_def Let_def shutdown_disposition_of_def)

end
