(* ===== verification/Surface.thy ===== *)
theory Surface
  imports Pause Ownership
begin

text \<open>
  Model of the pure decisions of the tray application: \<open>apps/true-tick/src/tray_surface.rs\<close> (status,
  power reconciliation, release handoff, command tables, tooltip and status texts),
  \<open>tray/quit.rs\<close> (quit safety decision), \<open>resume_on_ac_applies\<close> of \<open>tray/power.rs\<close> and
  \<open>published_status\<close> of \<open>tray/status.rs\<close>.
\<close>

section \<open>Status\<close>

datatype tray_status =
  TsRunning | TsStarting | TsScheduledStart | TsPausing | TsStopping | TsScheduledStop | TsPaused
  | TsPending | TsDegraded | TsUnverified | TsStopped | TsBlocked | TsUnsupported | TsError

datatype icon_color = Green | Yellow | Red

fun icon_color_of :: "tray_status \<Rightarrow> icon_color" where
  "icon_color_of TsRunning = Green"
| "icon_color_of TsStopped = Red"
| "icon_color_of TsBlocked = Red"
| "icon_color_of TsUnsupported = Red"
| "icon_color_of TsError = Red"
| "icon_color_of _ = Yellow"

definition icon_pixel_color :: "tray_status \<Rightarrow> u32" where
  "icon_pixel_color st =
     (case icon_color_of st of Green \<Rightarrow> 0xFF00B000 | Yellow \<Rightarrow> 0xFFD0D000 | Red \<Rightarrow> 0xFFD00000)"

definition lifecycle_status :: "tray_status \<Rightarrow> bool \<Rightarrow> tray_status" where
  "lifecycle_status st handoff_active = (if handoff_active \<or> st = TsPausing then TsStopping else st)"

definition scheduled_lifecycle_status ::
    "tray_status \<Rightarrow> bool \<Rightarrow> duration_action option \<Rightarrow> tray_status" where
  "scheduled_lifecycle_status st0 handoff_active sched =
     (let st = lifecycle_status st0 handoff_active in
      if handoff_active then st
      else case (st, sched) of
        (TsStopped, Some ActStart) \<Rightarrow> TsScheduledStart
      | (TsRunning, Some ActStop) \<Rightarrow> TsScheduledStop
      | _ \<Rightarrow> st)"

definition published_status :: "tray_status \<Rightarrow> bool \<Rightarrow> tray_status" where
  "published_status base responsiveness_degraded =
     (if responsiveness_degraded \<and> base \<in> {TsRunning, TsStopped, TsPaused} then TsDegraded else base)"

section \<open>Power reconciliation\<close>

datatype power_reconciliation =
  RecAcquire | ReleaseBlocked | ShowStopped | PreserveOwned | PreserveUncertain

definition power_reconciliation_of ::
    "bool \<Rightarrow> power_state \<Rightarrow> ownership_state \<Rightarrow> bool \<Rightarrow> power_reconciliation" where
  "power_reconciliation_of automatic pw own battery_lockout =
     (if pw = Ac then
        (if automatic \<and> own = OwnReleased then RecAcquire
         else if own = Owned then PreserveOwned
         else if own = Uncertain then PreserveUncertain
         else ShowStopped)
      else if (pw = Battery \<or> pw = BatterySaver) \<and> \<not> battery_lockout then
        (case own of
           Owned \<Rightarrow> PreserveOwned
         | Uncertain \<Rightarrow> PreserveUncertain
         | OwnReleased \<Rightarrow> if automatic then RecAcquire else ShowStopped)
      else ReleaseBlocked)"

definition uncertain_recovery_attempts_acquire :: "bool \<Rightarrow> power_state \<Rightarrow> bool" where
  "uncertain_recovery_attempts_acquire automatic pw = (automatic \<and> pw = Ac)"

definition resume_on_ac_applies :: "bool \<Rightarrow> bool \<Rightarrow> power_state \<Rightarrow> ownership_state \<Rightarrow> bool" where
  "resume_on_ac_applies auto_resume is_pending pw own =
     (auto_resume \<and> is_pending \<and> pw = Ac \<and> own = OwnReleased)"

section \<open>Release handoff\<close>

definition HANDOFF_POLL_INTERVAL_MS :: u32 where
  [model_defs]: "HANDOFF_POLL_INTERVAL_MS = 250"

definition HANDOFF_MAX_POLLS :: u8 where
  [model_defs]: "HANDOFF_MAX_POLLS = 12"

datatype handoff_progress = HandoffPending | HandoffCompleted | HandoffTimedOut

record handoff_tracker =
  boundary :: hns
  released_status :: tray_status
  polls :: u8
  max_polls :: u8

definition handoff_new :: "hns \<Rightarrow> tray_status \<Rightarrow> handoff_tracker" where
  "handoff_new b st = \<lparr>boundary = b, released_status = st, polls = 0, max_polls = HANDOFF_MAX_POLLS\<rparr>"

definition handoff_observe :: "hns option \<Rightarrow> handoff_tracker \<Rightarrow> handoff_progress \<times> handoff_tracker" where
  "handoff_observe effective h =
     (if (case effective of Some v \<Rightarrow> boundary h \<le> v | None \<Rightarrow> False) then (HandoffCompleted, h)
      else
        let h1 = h\<lparr>polls := saturating_add (polls h) 1\<rparr> in
        if max_polls h1 \<le> polls h1 then (HandoffTimedOut, h1) else (HandoffPending, h1))"

definition release_needs_handoff :: "hns \<Rightarrow> hns option \<Rightarrow> bool" where
  "release_needs_handoff b effective = (case effective of Some v \<Rightarrow> v < b | None \<Rightarrow> False)"

section \<open>Quit safety\<close>

datatype quit_safety_reason = OwnedActive | OwnershipUncertain | TimingNotSettled

datatype quit_decision = ExitNormally | RequireSafetyDialog quit_safety_reason

definition quit_decision_for :: "tray_status \<Rightarrow> ownership_state \<Rightarrow> quit_decision" where
  "quit_decision_for st own =
     (case own of
        Owned \<Rightarrow> RequireSafetyDialog OwnedActive
      | Uncertain \<Rightarrow> RequireSafetyDialog OwnershipUncertain
      | OwnReleased \<Rightarrow>
          if st \<in> {TsRunning, TsStarting, TsStopping, TsPending, TsDegraded, TsUnverified}
          then RequireSafetyDialog TimingNotSettled else ExitNormally)"

definition quit_decision_for_handoff :: "tray_status \<Rightarrow> ownership_state \<Rightarrow> bool \<Rightarrow> quit_decision" where
  "quit_decision_for_handoff st own handoff_active =
     (if handoff_active \<and> own = OwnReleased then ExitNormally
      else if handoff_active then RequireSafetyDialog TimingNotSettled
      else quit_decision_for st own)"

datatype quit_dialog_decision = StopAndQuit | CancelQuit

record quit_warning_result =
  quit_choice :: quit_dialog_decision
  message_box_result :: "int option"
  dialog_shown :: bool

definition message_box_decision :: "int \<Rightarrow> quit_dialog_decision" where
  "message_box_decision r = (if r = 6 then StopAndQuit else CancelQuit)"

definition quit_warning_result_of :: "int option \<Rightarrow> quit_warning_result" where
  "quit_warning_result_of mb =
     (let r = (case mb of None \<Rightarrow> 0 | Some v \<Rightarrow> v) in
      \<lparr>quit_choice = message_box_decision r, message_box_result = mb, dialog_shown = (r \<noteq> 0)\<rparr>)"

section \<open>Commands\<close>

definition MAX_DYNAMIC_PRESETS :: nat where
  [model_defs]: "MAX_DYNAMIC_PRESETS = 12"

definition duration_command :: "nat \<Rightarrow> (duration_action \<times> duration_choice) option" where
  "duration_command n =
     (if n = 1011 then Some (ActStart, OneMinute)
      else if n = 1012 then Some (ActStart, FiveMinutes)
      else if n = 1013 then Some (ActStart, FifteenMinutes)
      else if n = 1014 then Some (ActStart, ThirtyMinutes)
      else if n = 1015 then Some (ActStart, OneHour)
      else if n = 1016 then Some (ActStop, OneMinute)
      else if n = 1017 then Some (ActStop, FiveMinutes)
      else if n = 1018 then Some (ActStop, FifteenMinutes)
      else if n = 1019 then Some (ActStop, ThirtyMinutes)
      else if n = 1020 then Some (ActStop, OneHour)
      else if n = 1021 then Some (ActPause, FiveMinutes)
      else if n = 1022 then Some (ActPause, FifteenMinutes)
      else if n = 1023 then Some (ActPause, ThirtyMinutes)
      else if n = 1024 then Some (ActPause, OneHour)
      else None)"

fun preset_command_base :: "duration_action \<Rightarrow> nat" where
  "preset_command_base ActStart = 1120"
| "preset_command_base ActStop = 1140"
| "preset_command_base ActPause = 1160"

definition preset_command :: "nat \<Rightarrow> (duration_action \<times> nat) option" where
  "preset_command n =
     (if 1120 \<le> n \<and> n < 1120 + MAX_DYNAMIC_PRESETS then Some (ActStart, n - 1120)
      else if 1140 \<le> n \<and> n < 1140 + MAX_DYNAMIC_PRESETS then Some (ActStop, n - 1140)
      else if 1160 \<le> n \<and> n < 1160 + MAX_DYNAMIC_PRESETS then Some (ActPause, n - 1160)
      else None)"

record menu_item =
  item_label :: string
  item_enabled :: bool
  command_id :: "nat option"

definition preset_menu_items :: "duration_action \<Rightarrow> duration_preset list \<Rightarrow> menu_item list" where
  "preset_menu_items action ps =
     map (\<lambda>(i, p). \<lparr>item_label = format_label p, item_enabled = True,
                     command_id = Some (preset_command_base action + i)\<rparr>)
       (zip [0..<length ps] ps)"

definition duration_menu_items :: "scheduled_action option \<Rightarrow> menu_item list" where
  "duration_menu_items sched =
     [\<lparr>item_label = ''Start in >'', item_enabled = True, command_id = None\<rparr>,
      \<lparr>item_label = ''Stop in >'', item_enabled = True, command_id = None\<rparr>,
      \<lparr>item_label = ''Pause for >'', item_enabled = True, command_id = None\<rparr>,
      \<lparr>item_label = ''Interval presets...'', item_enabled = True, command_id = Some 1106\<rparr>,
      \<lparr>item_label = ''Cancel scheduled action'',
       item_enabled = (case sched of Some a \<Rightarrow> sched_action a \<noteq> ActPause | None \<Rightarrow> False),
       command_id = Some 1025\<rparr>,
      \<lparr>item_label = ''Resume now'',
       item_enabled = (case sched of Some a \<Rightarrow> sched_action a = ActPause | None \<Rightarrow> False),
       command_id = Some 1026\<rparr>]"

definition menu_action_keeps_open :: "nat \<Rightarrow> bool" where
  "menu_action_keeps_open n =
     (n \<in> {1001, 1002} \<or> 1005 \<le> n \<and> n \<le> 1010 \<or> n \<in> {1027, 1028}
      \<or> 1011 \<le> n \<and> n \<le> 1024 \<or> n \<in> {1025, 1026, 1106} \<or> preset_command n \<noteq> None)"

datatype tray_click_action = OpenMenu

definition tray_click_action_of :: "nat \<Rightarrow> tray_click_action option" where
  "tray_click_action_of notification =
     (if notification = 0x0202 \<or> notification = 0x0205 then Some OpenMenu else None)"

definition tray_notification_opens_menu :: "nat \<Rightarrow> bool \<Rightarrow> bool" where
  "tray_notification_opens_menu notification menu_active =
     (\<not> menu_active \<and> tray_click_action_of notification = Some OpenMenu)"

definition menu_command_dispatch_allowed :: "bool \<Rightarrow> bool \<Rightarrow> bool" where
  "menu_command_dispatch_allowed menu_active from_popup_return = (from_popup_return \<or> \<not> menu_active)"

definition menu_command_is_enabled_with_pause ::
    "nat \<Rightarrow> tray_status \<Rightarrow> bool \<Rightarrow> bool \<Rightarrow> bool \<Rightarrow> bool \<Rightarrow> bool \<Rightarrow> bool" where
  "menu_command_is_enabled_with_pause n st startup_enabled automatic auto_resume battery_lockout
       schedule_active =
     (if n = 1001 then st \<notin> {TsRunning, TsStarting, TsStopping, TsPaused}
      else if n = 1002 then st \<in> {TsRunning, TsStarting, TsScheduledStop, TsUnverified}
      else if n = 1005 then \<not> startup_enabled
      else if n = 1006 then startup_enabled
      else if n = 1007 then \<not> automatic
      else if n = 1008 then automatic
      else if n = 1009 then \<not> auto_resume
      else if n = 1010 then auto_resume
      else if n = 1027 then \<not> battery_lockout
      else if n = 1028 then battery_lockout
      else if n \<in> {1050, 1051, 1106, 1004, 1060, 1061} then True
      else if 1011 \<le> n \<and> n \<le> 1024 then True
      else if n = 1025 \<or> n = 1026 then schedule_active
      else preset_command n \<noteq> None)"

definition dpi_to_icon_canvas :: "u32 \<Rightarrow> int" where
  "dpi_to_icon_canvas dpi0 =
     (let dpi = (if dpi0 = 0 then 96 else dpi0) in
      if dpi \<le> 107 then 16 else if dpi \<le> 132 then 20 else if dpi \<le> 168 then 24
      else if dpi \<le> 288 then 32 else 64)"

section \<open>Texts\<close>

definition auto_start_label :: "bool \<Rightarrow> string" where
  "auto_start_label on = (if on then ''Auto-start: On'' else ''Auto-start: Off'')"

definition automatic_label :: "bool \<Rightarrow> string" where
  "automatic_label on = (if on then ''Auto-time: On'' else ''Auto-time: Off'')"

definition auto_resume_label :: "bool \<Rightarrow> string" where
  "auto_resume_label on = (if on then ''Auto-resume on AC: On'' else ''Auto-resume on AC: Off'')"

definition battery_lockout_label :: "bool \<Rightarrow> string" where
  "battery_lockout_label on = (if on then ''Battery lockout: On'' else ''Battery lockout: Off'')"

record timing_values =
  tv_requested :: "hns option"
  tv_effective :: "hns option"
  tv_external :: bool
  handoff_pending :: bool
  tv_invalid_interval :: bool
  tv_valid :: bool

definition timing_values_from ::
    "timing_snapshot \<Rightarrow> bool \<Rightarrow> bool \<Rightarrow> bool \<Rightarrow> bool \<Rightarrow> timing_values" where
  "timing_values_from snap pend external invalid valid =
     \<lparr>tv_requested = snap_requested snap, tv_effective = snap_effective snap, tv_external = external,
      handoff_pending = pend, tv_invalid_interval = invalid, tv_valid = valid\<rparr>"

text \<open>The trade mark sign and the middle dot are their UTF-8 bytes.\<close>

definition product :: string where
  "product = ''True'' @ [CHR 0xE2, CHR 0x84, CHR 0xA2] @ '' Tick''"

definition middle_dot :: string where
  "middle_dot = [CHR 0xC2, CHR 0xB7]"

definition effective_timing_suffix :: "timing_values \<Rightarrow> string" where
  "effective_timing_suffix t =
     (if tv_valid t \<and> \<not> tv_invalid_interval t then
        (case tv_effective t of
           None \<Rightarrow> ''Timing unknown''
         | Some v \<Rightarrow> hns_millis_text v @ '' ms'')
      else ''Timing unknown'')"

fun block_reason_label :: "policy_reason option \<Rightarrow> string" where
  "block_reason_label (Some BatteryRestricted) = ''Battery''"
| "block_reason_label (Some BatterySaverRestricted) = ''Battery Saver''"
| "block_reason_label (Some PowerUnknown) = ''Power unknown''"
| "block_reason_label _ = []"

definition remaining_display_seconds :: "nat \<Rightarrow> nat" where
  "remaining_display_seconds d =
     d div NANOS_PER_SEC + (if d mod NANOS_PER_SEC \<noteq> 0 then 1 else 0)"

definition format_duration_seconds :: "nat \<Rightarrow> string" where
  "format_duration_seconds total_seconds =
     (let hours = total_seconds div 3600;
          minutes = (total_seconds mod 3600) div 60;
          seconds = total_seconds mod 60
      in if 0 < hours then dec hours @ ''h '' @ dec minutes @ ''m''
         else if 0 < minutes then dec minutes @ ''m '' @ dec seconds @ ''s''
         else dec seconds @ ''s'')"

definition format_remaining_duration :: "nat \<Rightarrow> string" where
  "format_remaining_duration d = format_duration_seconds (remaining_display_seconds d)"

definition scheduled_display_key :: "scheduled_action \<Rightarrow> nat \<Rightarrow> duration_action \<times> u64 \<times> nat" where
  "scheduled_display_key a now =
     (sched_action a, sched_generation a, remaining_display_seconds (remaining a now))"

definition state_summary ::
    "tray_status \<Rightarrow> timing_values \<Rightarrow> scheduled_action option \<Rightarrow> nat \<Rightarrow> policy_reason option \<Rightarrow> string" where
  "state_summary st timing sched now block_reason =
     (let with_timing = (\<lambda>state. product @ '': '' @ state @ '' '' @ middle_dot @ '' ''
            @ effective_timing_suffix timing);
          action_summary = (case (st, sched) of
              (TsScheduledStart, Some a) \<Rightarrow>
                Some (''Starting in '' @ format_remaining_duration (remaining a now))
            | (TsScheduledStop, Some a) \<Rightarrow>
                Some (''Stopping in '' @ format_remaining_duration (remaining a now))
            | (TsPaused, Some a) \<Rightarrow>
                if sched_action a = ActPause
                then Some (''Paused for '' @ format_remaining_duration (remaining a now)) else None
            | _ \<Rightarrow> None)
      in case action_summary of
           Some summary \<Rightarrow> with_timing summary
         | None \<Rightarrow>
             (case st of
                TsRunning \<Rightarrow> with_timing ''Running''
              | TsStarting \<Rightarrow> with_timing ''Starting''
              | TsScheduledStart \<Rightarrow> with_timing ''Starting''
              | TsPausing \<Rightarrow> with_timing ''Stopping''
              | TsStopping \<Rightarrow>
                  with_timing (if handoff_pending timing then ''Stopping, handoff'' else ''Stopping'')
              | TsScheduledStop \<Rightarrow> with_timing ''Stopping''
              | TsPaused \<Rightarrow> with_timing ''Paused''
              | TsStopped \<Rightarrow> with_timing ''Stopped''
              | TsError \<Rightarrow> product @ '': Error''
              | TsBlocked \<Rightarrow>
                  if block_reason_label block_reason = [] then product @ '': Warning''
                  else with_timing (''Blocked ('' @ block_reason_label block_reason @ '')'')
              | TsPending \<Rightarrow> product @ '': Warning''
              | TsDegraded \<Rightarrow> product @ '': Warning''
              | TsUnsupported \<Rightarrow> product @ '': Warning''
              | TsUnverified \<Rightarrow> product @ '': Timing unknown''))"

definition state_label :: "tray_status \<Rightarrow> timing_values \<Rightarrow> string" where
  "state_label st timing =
     (case st of
        TsRunning \<Rightarrow> ''Running''
      | TsStopped \<Rightarrow> ''Stopped''
      | TsStarting \<Rightarrow> ''Starting''
      | TsScheduledStart \<Rightarrow> ''Starting''
      | TsStopping \<Rightarrow> if handoff_pending timing then ''Stopping, handoff'' else ''Stopping''
      | TsPausing \<Rightarrow> if handoff_pending timing then ''Stopping, handoff'' else ''Stopping''
      | TsScheduledStop \<Rightarrow> if handoff_pending timing then ''Stopping, handoff'' else ''Stopping''
      | TsPaused \<Rightarrow> ''Paused''
      | TsBlocked \<Rightarrow> ''Warning''
      | TsError \<Rightarrow> ''Error''
      | TsUnsupported \<Rightarrow> ''Warning''
      | TsPending \<Rightarrow> ''Warning''
      | TsDegraded \<Rightarrow> ''Warning''
      | TsUnverified \<Rightarrow> ''Timing unknown'')"

definition state_menu_label ::
    "tray_status \<Rightarrow> timing_values \<Rightarrow> scheduled_action option \<Rightarrow> nat \<Rightarrow> string" where
  "state_menu_label st timing sched now =
     (case (st, sched) of
        (TsScheduledStart, Some a) \<Rightarrow> ''Starting in '' @ format_remaining_duration (remaining a now)
      | (TsScheduledStop, Some a) \<Rightarrow> ''Stopping in '' @ format_remaining_duration (remaining a now)
      | (TsPaused, Some a) \<Rightarrow>
          if sched_action a = ActPause
          then ''Paused for '' @ format_remaining_duration (remaining a now)
          else state_label st timing
      | _ \<Rightarrow> state_label st timing)"

definition effective_timing_label :: "timing_values \<Rightarrow> string" where
  "effective_timing_label t =
     (if tv_valid t \<and> \<not> tv_invalid_interval t then
        (case tv_effective t of None \<Rightarrow> ''Timing unknown'' | Some v \<Rightarrow> format_detailed v)
      else ''Timing unknown'')"

definition running_for_label :: "nat option \<Rightarrow> string" where
  "running_for_label r =
     (case r of None \<Rightarrow> ''Not running'' | Some d \<Rightarrow> format_duration_seconds (d div NANOS_PER_SEC))"

definition next_action_label :: "scheduled_action option \<Rightarrow> nat \<Rightarrow> string" where
  "next_action_label sched now =
     (case sched of
        None \<Rightarrow> ''none''
      | Some a \<Rightarrow> action_label (sched_action a) @ '' in '' @ format_remaining_duration (remaining a now))"

definition ownership_label :: "ownership_state \<Rightarrow> timing_values \<Rightarrow> string" where
  "ownership_label own timing =
     (case own of
        Owned \<Rightarrow> product
      | Uncertain \<Rightarrow> ''Uncertain''
      | OwnReleased \<Rightarrow> if tv_external timing then ''External timing'' else ''Released'')"

definition status_menu_items ::
    "tray_status \<Rightarrow> timing_values \<Rightarrow> ownership_state \<Rightarrow> scheduled_action option \<Rightarrow> nat option \<Rightarrow> nat
      \<Rightarrow> menu_item list" where
  "status_menu_items st timing own sched running_for now =
     [\<lparr>item_label = ''State: '' @ state_menu_label st timing sched now, item_enabled = False,
       command_id = Some 1030\<rparr>,
      \<lparr>item_label = ''Timing: '' @ effective_timing_label timing, item_enabled = False,
       command_id = Some 1031\<rparr>,
      \<lparr>item_label = ''Running for: '' @ running_for_label running_for, item_enabled = False,
       command_id = Some 1032\<rparr>,
      \<lparr>item_label = ''Next action: '' @ next_action_label sched now, item_enabled = False,
       command_id = Some 1033\<rparr>,
      \<lparr>item_label = ''Ownership: '' @ ownership_label own timing, item_enabled = False,
       command_id = Some 1034\<rparr>]"

definition settings_menu_items :: "bool \<Rightarrow> bool \<Rightarrow> bool \<Rightarrow> bool \<Rightarrow> menu_item list" where
  "settings_menu_items startup automatic auto_resume lockout =
     map (\<lambda>l. \<lparr>item_label = l, item_enabled = True, command_id = None\<rparr>)
       [auto_start_label startup, automatic_label automatic, auto_resume_label auto_resume,
        battery_lockout_label lockout]"

section \<open>The handoff tracker as a run of polls\<close>

text \<open>The polls of one handoff: the observations in the order the timer delivers them, up to the first
  result that is not pending.\<close>

fun handoff_polls :: "hns option list \<Rightarrow> handoff_tracker \<Rightarrow> handoff_progress \<times> handoff_tracker" where
  "handoff_polls [] h = (HandoffPending, h)"
| "handoff_polls (e # es) h =
     (case handoff_observe e h of
        (HandoffPending, h') \<Rightarrow> handoff_polls es h'
      | r \<Rightarrow> r)"

definition boundary_reached :: "hns \<Rightarrow> hns option \<Rightarrow> bool" where
  "boundary_reached b e = (case e of Some v \<Rightarrow> b \<le> v | None \<Rightarrow> False)"

lemma handoff_observe_progress:
  assumes "unat (polls h) < unat (max_polls h)"
  shows "handoff_observe e h =
    (if boundary_reached (boundary h) e then (HandoffCompleted, h)
     else (if unat (max_polls h) \<le> unat (polls h) + 1 then HandoffTimedOut else HandoffPending,
           h\<lparr>polls := polls h + 1\<rparr>))"
proof -
  have "unat (polls h) + 1 < 2 ^ 8"
    using assms unsigned_less [of "max_polls h", where ?'a = nat] by simp
  then have "saturating_add (polls h) 1 = polls h + 1" "unat (polls h + 1) = unat (polls h) + 1"
    by (simp_all add: saturating_add_def unat_word_ariths)
  then show ?thesis
    by (simp add: handoff_observe_def boundary_reached_def Let_def word_le_nat_alt)
qed

lemma handoff_polls_result:
  "unat (polls h) < unat (max_polls h) \<Longrightarrow>
   fst (handoff_polls es h) =
     (if list_ex (boundary_reached (boundary h)) (take (unat (max_polls h) - unat (polls h)) es)
      then HandoffCompleted
      else if unat (max_polls h) - unat (polls h) \<le> length es then HandoffTimedOut
      else HandoffPending)
   \<and> released_status (snd (handoff_polls es h)) = released_status h"
proof (induction es h rule: handoff_polls.induct)
  case (1 h)
  then show ?case by simp
next
  case (2 e es h)
  obtain n where n: "unat (max_polls h) - unat (polls h) = Suc n"
    using 2(2) by (metis Suc_pred zero_less_diff)
  have lt: "unat (polls h + 1) = unat (polls h) + 1"
    using 2(2) unsigned_less [of "max_polls h", where ?'a = nat] by (simp add: unat_word_ariths)
  show ?case
  proof (cases "boundary_reached (boundary h) e \<or> n = 0")
    case True
    then show ?thesis
      using 2(2) n by (auto simp: handoff_observe_progress)
  next
    case False
    then have more: "\<not> unat (max_polls h) \<le> Suc (unat (polls h))"
      using n by arith
    then have obs: "handoff_observe e h = (HandoffPending, h\<lparr>polls := polls h + 1\<rparr>)"
      using False 2(2) by (simp add: handoff_observe_progress)
    have lt': "unat (polls (h\<lparr>polls := polls h + 1\<rparr>)) < unat (max_polls (h\<lparr>polls := polls h + 1\<rparr>))"
      using more lt by simp
    have "unat (max_polls h) - (unat (polls h) + 1) = n"
      using n by simp
    then show ?thesis
      using 2(1) [OF obs [symmetric] refl lt'] False lt n obs by simp
  qed
qed

section \<open>Properties\<close>

definition eligible_input :: "power_state \<Rightarrow> bool \<Rightarrow> policy_input" where
  "eligible_input pw lockout =
     \<lparr>enabled = True, eligible_profile = True, power = pw, battery_lockout_enabled = lockout\<rparr>"

text \<open>Every release handoff ends. A tracker that starts at a boundary completes exactly when one of
  its first twelve observations is at or above the boundary, is timed out when twelve observations
  stayed below it (an unreadable resolution counts as below), and is pending only before that. The
  status to publish after the release is kept throughout.\<close>

theorem handoff_ends:
  "fst (handoff_polls es (handoff_new b st)) =
     (if list_ex (boundary_reached b) (take 12 es) then HandoffCompleted
      else if 12 \<le> length es then HandoffTimedOut else HandoffPending)
   \<and> released_status (snd (handoff_polls es (handoff_new b st))) = st"
  using handoff_polls_result [of "handoff_new b st" es]
  by (simp add: handoff_new_def HANDOFF_MAX_POLLS_def)

text \<open>The reconciliation of a power event agrees with the policy engine: it releases exactly when the
  policy blocks an enabled and eligible request, it acquires only what the policy requests, and only
  for an automatic configuration from the released state, and a request it neither blocks nor makes is
  left as it is.\<close>

theorem power_reconciliation_follows_policy:
  "(power_reconciliation_of auto pw own lockout = ReleaseBlocked \<longleftrightarrow>
      decision_status (decide (eligible_input pw lockout)) = Blocked)
   \<and> (power_reconciliation_of auto pw own lockout = RecAcquire \<longleftrightarrow>
      auto \<and> own = OwnReleased
      \<and> decision_status (decide (eligible_input pw lockout)) = Requested)
   \<and> (power_reconciliation_of auto pw own lockout \<noteq> ReleaseBlocked
      \<longrightarrow> (power_reconciliation_of auto pw own lockout = PreserveOwned \<longleftrightarrow> own = Owned)
        \<and> (power_reconciliation_of auto pw own lockout = PreserveUncertain \<longleftrightarrow> own = Uncertain))"
  by (cases pw; cases own; simp add: power_reconciliation_of_def decide_def eligible_input_def)

theorem power_reconciliation_follows_policy_witness:
  "power_reconciliation_of True Battery Owned False = PreserveOwned"
  using power_reconciliation_follows_policy [of True Battery Owned False]
  by (simp add: decide_def eligible_input_def)

text \<open>The command identifiers of the dynamic preset menus decode back to the entry that was shown:
  for a list of at most twelve presets the item at each position carries an enabled command that
  decodes to the menu's action and that position; no identifier decodes to two entries, and none is
  also a fixed duration command.\<close>

theorem preset_menu_decodes:
  assumes "length ps \<le> MAX_DYNAMIC_PRESETS" and "i < length ps"
  shows "preset_menu_items act ps ! i =
      \<lparr>item_label = format_label (ps ! i), item_enabled = True,
       command_id = Some (preset_command_base act + i)\<rparr>
    \<and> preset_command (preset_command_base act + i) = Some (act, i)
    \<and> duration_command (preset_command_base act + i) = None
    \<and> (\<forall>n. preset_command n = Some (act, i) \<longleftrightarrow> n = preset_command_base act + i)"
proof -
  have i: "i < 12"
    using assms by (simp add: MAX_DYNAMIC_PRESETS_def)
  have "preset_command n = Some (act, i) \<longleftrightarrow> n = preset_command_base act + i" for n
    using i by (cases act) (auto simp: preset_command_def MAX_DYNAMIC_PRESETS_def)
  then show ?thesis
    using i assms(2)
    by (cases act) (simp_all add: preset_menu_items_def duration_command_def)
qed

theorem preset_menu_decodes_witness:
  "preset_command (preset_command_base ActPause + 1) = Some (ActPause, 1)"
  using preset_menu_decodes
    [of "[300, 900]" 1 ActPause]
  by (simp add: MAX_DYNAMIC_PRESETS_def)

end
