(* ===== verification/Server.thy ===== *)
theory Server
  imports Ipc "HOL-Library.Multiset"
begin

text \<open>
  Model of the tray's IPC endpoint: the bounded command queue of
  \<open>apps/true-tick/src/tray/ipc_queue.rs\<close> and the pipe server of
  \<open>apps/true-tick/src/tray/ipc.rs\<close> (worker pool, accept loop, frame reading, connection handler,
  command dispatch, relay to the UI thread and status snapshot).

  A Win32 call is its documented result, an input of the operation that makes it. A pipe handle is a
  number. The queue is the list of waiting requests, oldest first, and a request's responder is the
  number of its reply channel.
\<close>

section \<open>Command queue\<close>

record command_request =
  req_verb :: command_verb
  req_payload :: bytes
  responder :: nat

definition MAX_PENDING_IPC_COMMANDS :: nat where
  [model_defs]: "MAX_PENDING_IPC_COMMANDS = 64"

type_synonym command_queue = "command_request list"

definition queue_new :: command_queue where
  "queue_new = []"

definition queue_push :: "command_request \<Rightarrow> command_queue \<Rightarrow> bool \<times> command_queue" where
  "queue_push r q = (if MAX_PENDING_IPC_COMMANDS \<le> length q then (False, q) else (True, q @ [r]))"

fun queue_pop :: "command_queue \<Rightarrow> command_request option \<times> command_queue" where
  "queue_pop [] = (None, [])"
| "queue_pop (r # q) = (Some r, q)"

section \<open>Status snapshot\<close>

record status_snapshot =
  snap_status_label :: string
  snap_ownership_label :: string
  effective_hns :: "u64 option"
  requested_hns :: "u64 option"

definition status_snapshot_new :: status_snapshot where
  "status_snapshot_new = \<lparr>snap_status_label = ''starting'', snap_ownership_label = ''released'',
     effective_hns = None, requested_hns = None\<rparr>"

definition snapshot_update ::
    "string \<Rightarrow> string \<Rightarrow> u64 option \<Rightarrow> u64 option \<Rightarrow> status_snapshot \<Rightarrow> status_snapshot" where
  "snapshot_update st own eff req s =
     s\<lparr>snap_status_label := st, snap_ownership_label := own, effective_hns := eff, requested_hns := req\<rparr>"

definition ascii_bytes :: "string \<Rightarrow> bytes" where
  "ascii_bytes s = map of_char s"

definition hns_or_unknown :: "u64 option \<Rightarrow> string" where
  "hns_or_unknown v = (case v of None \<Rightarrow> ''unknown'' | Some x \<Rightarrow> dec (unat x))"

definition status_payload :: "status_snapshot \<Rightarrow> bytes" where
  "status_payload s = ascii_bytes
     (''status='' @ snap_status_label s @ '' ownership='' @ snap_ownership_label s
      @ '' effective_hns='' @ hns_or_unknown (effective_hns s)
      @ '' requested_hns='' @ hns_or_unknown (requested_hns s))"

section \<open>Worker pool\<close>

definition MAX_CONCURRENT_WORKERS :: nat where
  [model_defs]: "MAX_CONCURRENT_WORKERS = 8"

record worker_pool =
  available :: nat
  over_release :: u64

definition pool_new :: "nat \<Rightarrow> worker_pool" where
  "pool_new permits = \<lparr>available = permits, over_release = 0\<rparr>"

definition try_acquire :: "worker_pool \<Rightarrow> worker_pool option" where
  "try_acquire p = (if 0 < available p then Some (p\<lparr>available := available p - 1\<rparr>) else None)"

definition permit_drop :: "worker_pool \<Rightarrow> worker_pool" where
  "permit_drop p =
     (if available p < MAX_CONCURRENT_WORKERS then p\<lparr>available := available p + 1\<rparr>
      else p\<lparr>available := MAX_CONCURRENT_WORKERS, over_release := over_release p + 1\<rparr>)"

section \<open>Frame reading\<close>

definition ERROR_INVALID_DATA :: u32 where [model_defs]: "ERROR_INVALID_DATA = 13"
definition ERROR_MORE_DATA :: u32 where [model_defs]: "ERROR_MORE_DATA = 234"
definition ERROR_BROKEN_PIPE :: u32 where [model_defs]: "ERROR_BROKEN_PIPE = 109"
definition ERROR_IO_PENDING :: u32 where [model_defs]: "ERROR_IO_PENDING = 997"
definition ERROR_PIPE_CONNECTED :: u32 where [model_defs]: "ERROR_PIPE_CONNECTED = 535"
definition ERROR_PIPE_BUSY :: u32 where [model_defs]: "ERROR_PIPE_BUSY = 231"
definition WAIT_OBJECT_0 :: u32 where [model_defs]: "WAIT_OBJECT_0 = 0"
definition WAIT_TIMEOUT :: u32 where [model_defs]: "WAIT_TIMEOUT = 0x102"

text \<open>What the native calls of one overlapped operation return: the event handle (\<open>None\<close> when null),
  the immediate result, the last error, the wait status and the final result. The bytes are the
  transferred prefix of the buffer.\<close>

record overlapped_io =
  event :: "nat option"
  immediate :: bool
  last_error :: u32
  wait_status :: u32
  completed :: bool
  transferred :: bytes

definition wait_for_client :: "overlapped_io \<Rightarrow> bool" where
  "wait_for_client io =
     (case event io of
        None \<Rightarrow> False
      | Some _ \<Rightarrow>
          if immediate io \<or> last_error io = ERROR_PIPE_CONNECTED then True
          else if last_error io = ERROR_IO_PENDING \<or> last_error io = ERROR_PIPE_BUSY
          then wait_status io = WAIT_OBJECT_0
          else False)"

definition read_frame :: "overlapped_io \<Rightarrow> (ipc_error, ipc_frame) result" where
  "read_frame io =
     (case event io of
        None \<Rightarrow> Err PayloadTruncated
      | Some _ \<Rightarrow>
          if immediate io then deserialize (transferred io)
          else if last_error io \<noteq> ERROR_IO_PENDING then
            Err (if last_error io = ERROR_MORE_DATA then PayloadTruncated
                 else if last_error io = ERROR_BROKEN_PIPE then PayloadTruncated
                 else TransportIo (last_error io))
          else if wait_status io = WAIT_TIMEOUT then Err PayloadTruncated
          else if wait_status io \<noteq> WAIT_OBJECT_0 then Err PayloadTruncated
          else if \<not> completed io then Err PayloadTruncated
          else deserialize (transferred io))"

section \<open>Command dispatch\<close>

definition handle_query_status :: "status_snapshot \<Rightarrow> ipc_response" where
  "handle_query_status s = RespStatus (status_payload s)"

definition handle_request_acquire :: "bytes \<Rightarrow> ipc_response" where
  "handle_request_acquire p =
     (if p = [] then RespAcquired 0
      else if length p \<noteq> 8 then RespError PayloadTruncated
      else case validate_interval_hns (u64_from_le p) of
             Inr h \<Rightarrow> RespAcquired h
           | Inl e \<Rightarrow> RespError e)"

definition handle_schedule_action :: "bytes \<Rightarrow> ipc_response" where
  "handle_schedule_action p =
     (if length p \<noteq> 5 then RespError PayloadTruncated
      else RespScheduled (u32_from_le (tl p)))"

text \<open>What the reply channel gives within the wait: the UI thread's answer, a timeout, or the sender
  dropped.\<close>

datatype recv_outcome = Reply ipc_response | RecvTimeout | Disconnected

fun recv_response :: "recv_outcome \<Rightarrow> ipc_response" where
  "recv_response (Reply r) = r"
| "recv_response RecvTimeout = RespError (TransportIo WAIT_TIMEOUT)"
| "recv_response Disconnected = RespError (TransportIo (- 1))"

text \<open>The clean-up after a failed post: requests are popped up to the first one with the same verb and
  payload.\<close>

fun pop_until :: "command_verb \<Rightarrow> bytes \<Rightarrow> command_queue \<Rightarrow> command_queue" where
  "pop_until v p [] = []"
| "pop_until v p (r # q) = (if req_verb r = v \<and> req_payload r = p then q else pop_until v p q)"

definition forward_to_ui_thread ::
    "command_verb \<Rightarrow> bytes \<Rightarrow> nat \<Rightarrow> bool \<Rightarrow> bool \<Rightarrow> recv_outcome \<Rightarrow> command_queue
      \<Rightarrow> ipc_response \<times> command_queue" where
  "forward_to_ui_thread v p channel teardown post_ok reply q =
     (if teardown then (RespError (TransportIo WAIT_TIMEOUT), q)
      else
        let (enqueued, q1) = queue_push \<lparr>req_verb = v, req_payload = p, responder = channel\<rparr> q in
        if \<not> enqueued then (RespError (TransportIo WAIT_TIMEOUT), q1)
        else if \<not> post_ok then (RespError (TransportIo (- 1)), pop_until v p q1)
        else (recv_response reply, q1))"

definition dispatch_command ::
    "ipc_frame \<Rightarrow> status_snapshot \<Rightarrow> nat \<Rightarrow> bool \<Rightarrow> bool \<Rightarrow> recv_outcome \<Rightarrow> command_queue
      \<Rightarrow> ipc_response \<times> command_queue" where
  "dispatch_command f st channel teardown post_ok reply q =
     (let forward = forward_to_ui_thread (verb f) (payload f) channel teardown post_ok reply q in
      case verb f of
        QueryStatus \<Rightarrow> (handle_query_status st, q)
      | RequestAcquire \<Rightarrow>
          (case handle_request_acquire (payload f) of
             RespError e \<Rightarrow> (RespError e, q)
           | _ \<Rightarrow> forward)
      | RequestRelease \<Rightarrow> forward
      | ScheduleAction \<Rightarrow>
          (case handle_schedule_action (payload f) of
             RespError e \<Rightarrow> (RespError e, q)
           | _ \<Rightarrow> forward)
      | CancelSchedule \<Rightarrow> forward)"

section \<open>Connection handler\<close>

text \<open>The outcome of every call a connection makes, in the order it makes them.\<close>

record connection =
  connect_io :: overlapped_io
  client_pid :: "u32 option"
  limiter_poisoned :: bool
  clock_now :: nat
  read_io :: overlapped_io
  reply_channel :: nat
  ipc_teardown :: bool
  post_message_ok :: bool
  ui_reply :: recv_outcome

text \<open>The bytes written to the pipe (\<open>None\<close> when no client connected), the limiter and the queue after
  the connection.\<close>

definition handle_pipe_connection ::
    "connection \<Rightarrow> session_token \<Rightarrow> status_snapshot \<Rightarrow> rate_limiter \<Rightarrow> command_queue
      \<Rightarrow> bytes option \<times> rate_limiter \<times> command_queue" where
  "handle_pipe_connection c tok st lim q =
     (if \<not> wait_for_client (connect_io c) then (None, lim, q)
      else case client_pid c of
        None \<Rightarrow> (Some (encode_response (RespError UnauthorizedToken)), lim, q)
      | Some p \<Rightarrow>
          if limiter_poisoned c
          then (Some (encode_response (RespError (TransportIo ERROR_INVALID_DATA))), lim, q)
          else case check_and_record p (clock_now c) lim of
            (Inl e, lim1) \<Rightarrow> (Some (encode_response (RespError e)), lim1, q)
          | (Inr _, lim1) \<Rightarrow>
              (case read_frame (read_io c) of
                 Inl e \<Rightarrow> (Some (encode_response (RespError e)), lim1, q)
               | Inr f \<Rightarrow>
                   if \<not> token_matches (token f) tok
                   then (Some (encode_response (RespError UnauthorizedToken)), lim1, q)
                   else
                     let (r, q1) = dispatch_command f st (reply_channel c) (ipc_teardown c)
                                     (post_message_ok c) (ui_reply c) q
                     in (Some (encode_response r), lim1, q1)))"

section \<open>Accept loop\<close>

record server =
  pool :: worker_pool
  rejections :: u64
  created :: "nat list"
  closed :: "nat list"
  workers :: "nat list"
  limiter :: rate_limiter
  commands :: command_queue
  connection_count :: u64
  consecutive_failures :: u32
  total_failures :: u64
  accepting :: bool

definition server_new :: server where
  "server_new = \<lparr>pool = pool_new MAX_CONCURRENT_WORKERS, rejections = 0, created = [], closed = [],
     workers = [], limiter = limiter_new, commands = queue_new, connection_count = 0,
     consecutive_failures = 0, total_failures = 0, accepting = True\<rparr>"

text \<open>Dropping a \<open>PipeGuard\<close> closes its handle.\<close>

definition close_pipe :: "nat \<Rightarrow> server \<Rightarrow> server" where
  "close_pipe h s = s\<lparr>closed := closed s @ [h]\<rparr>"

definition dispatch_connection :: "nat \<Rightarrow> bool \<Rightarrow> server \<Rightarrow> server" where
  "dispatch_connection h spawned s =
     (case try_acquire (pool s) of
        None \<Rightarrow> close_pipe h (s\<lparr>rejections := rejections s + 1\<rparr>)
      | Some p \<Rightarrow>
          if spawned then s\<lparr>pool := p, workers := workers s @ [h]\<rparr>
          else close_pipe h (s\<lparr>pool := permit_drop p\<rparr>))"

definition accept_pipe :: "nat \<Rightarrow> bool \<Rightarrow> bool \<Rightarrow> nat \<Rightarrow> server \<Rightarrow> server" where
  "accept_pipe h still_running spawned now s0 =
     (let s = s0\<lparr>created := created s0 @ [h], consecutive_failures := 0\<rparr> in
      if \<not> still_running then (close_pipe h s)\<lparr>accepting := False\<rparr>
      else
        let s1 = dispatch_connection h spawned s;
            s2 = s1\<lparr>connection_count := connection_count s1 + 1\<rparr>
        in if connection_count s1 mod 8 = 0
           then s2\<lparr>limiter := prune_idle_callers now (limiter s2)\<rparr> else s2)"

definition backoff_ms :: "u32 \<Rightarrow> u64" where
  "backoff_ms failures = min (push_bit (unat (min (failures - 1) 5)) 100) 2000"

definition pipe_failed :: "server \<Rightarrow> u64 \<times> server" where
  "pipe_failed s =
     (let s1 = s\<lparr>consecutive_failures := saturating_add (consecutive_failures s) 1,
                 total_failures := saturating_add (total_failures s) 1\<rparr>
      in (backoff_ms (consecutive_failures s1), s1))"

text \<open>A worker returns: its permit is dropped, then its pipe guard.\<close>

definition worker_exit :: "nat \<Rightarrow> server \<Rightarrow> server" where
  "worker_exit h s = close_pipe h (s\<lparr>pool := permit_drop (pool s), workers := remove1 h (workers s)\<rparr>)"

section \<open>The queue contract\<close>

datatype 'r queue_op = OpPush 'r | OpPop

text \<open>A sequence of pushes and pops, with the requests accepted and the requests delivered.\<close>

fun queue_run ::
    "('r \<Rightarrow> 'q \<Rightarrow> bool \<times> 'q) \<Rightarrow> ('q \<Rightarrow> 'r option \<times> 'q) \<Rightarrow> 'r queue_op list \<Rightarrow> 'q
      \<Rightarrow> 'r list \<times> 'r list \<times> 'q" where
  "queue_run push pop [] q = ([], [], q)"
| "queue_run push pop (OpPush r # ops) q =
     (let (ok, q1) = push r q; (acc, del, q2) = queue_run push pop ops q1
      in (if ok then r # acc else acc, del, q2))"
| "queue_run push pop (OpPop # ops) q =
     (let (x, q1) = pop q; (acc, del, q2) = queue_run push pop ops q1
      in (acc, (case x of None \<Rightarrow> del | Some r \<Rightarrow> r # del), q2))"

locale bounded_fifo =
  fixes push :: "'r \<Rightarrow> 'q \<Rightarrow> bool \<times> 'q"
    and pop :: "'q \<Rightarrow> 'r option \<times> 'q"
    and contents :: "'q \<Rightarrow> 'r list"
    and capacity :: nat
  assumes push_room: "length (contents q) < capacity \<Longrightarrow>
      fst (push r q) \<and> contents (snd (push r q)) = contents q @ [r]"
    and push_full: "capacity \<le> length (contents q) \<Longrightarrow>
      \<not> fst (push r q) \<and> contents (snd (push r q)) = contents q"
    and pop_empty: "contents q = [] \<Longrightarrow> fst (pop q) = None \<and> contents (snd (pop q)) = []"
    and pop_oldest: "contents q = r # rs \<Longrightarrow> fst (pop q) = Some r \<and> contents (snd (pop q)) = rs"
begin

lemma push_contents:
  "contents (snd (push r q)) = contents q @ (if fst (push r q) then [r] else [])"
  using push_room [of q r] push_full [of q r] by (cases "length (contents q) < capacity") auto

lemma pop_contents:
  "contents q = (case fst (pop q) of None \<Rightarrow> [] | Some r \<Rightarrow> [r]) @ contents (snd (pop q))"
  using pop_empty [of q] pop_oldest [of q] by (cases "contents q") auto

lemma run_fifo:
  "contents q @ fst (queue_run push pop ops q) =
     fst (snd (queue_run push pop ops q)) @ contents (snd (snd (queue_run push pop ops q)))"
proof (induction ops arbitrary: q)
  case (Cons x ops)
  show ?case
  proof (cases x)
    case (OpPush r)
    then show ?thesis
      using Cons [of "snd (push r q)"] push_contents [of r q]
      by (simp add: split_beta Let_def split: if_splits)
  next
    case OpPop
    then show ?thesis
      using Cons [of "snd (pop q)"] pop_contents [of q]
      by (simp add: split_beta Let_def split: option.splits)
  qed
qed simp

lemma run_bounded:
  "length (contents q) \<le> capacity \<Longrightarrow>
   length (contents (snd (snd (queue_run push pop ops q)))) \<le> capacity"
proof (induction ops arbitrary: q)
  case (Cons x ops)
  have "length (contents (snd (push r q))) \<le> capacity" for r
    using push_room [of q r] push_full [of q r] Cons(2) by (cases "length (contents q) < capacity") auto
  moreover have "length (contents (snd (pop q))) \<le> capacity"
    using pop_empty [of q] pop_oldest [of q] Cons(2) by (cases "contents q") auto
  ultimately show ?case
    using Cons(1) by (cases x) (simp_all add: split_beta Let_def)
qed simp

end

interpretation cq: bounded_fifo queue_push queue_pop "\<lambda>q. q" MAX_PENDING_IPC_COMMANDS
  by unfold_locales (auto simp: queue_push_def)

section \<open>The server as a transition system\<close>

text \<open>The requests the UI thread may find in the queue: never a status query, an interval that is
  absent or within the bounds, a schedule payload of five bytes.\<close>

definition request_ok :: "command_request \<Rightarrow> bool" where
  "request_ok r =
     (case req_verb r of
        QueryStatus \<Rightarrow> False
      | RequestAcquire \<Rightarrow>
          req_payload r = []
          \<or> length (req_payload r) = 8 \<and> MIN_INTERVAL_HNS \<le> u64_from_le (req_payload r)
            \<and> u64_from_le (req_payload r) \<le> MAX_INTERVAL_HNS
      | ScheduleAction \<Rightarrow> length (req_payload r) = 5
      | _ \<Rightarrow> True)"

text \<open>Every locked operation is one step, so that all interleavings of the accept loop, the workers and
  the UI thread are runs of the relation.\<close>

inductive server_step :: "server \<Rightarrow> server \<Rightarrow> bool" where
  accept: "accepting s \<Longrightarrow> server_step s (accept_pipe h still_running spawned now s)"
| create_failed: "accepting s \<Longrightarrow> server_step s (snd (pipe_failed s))"
| stop: "accepting s \<Longrightarrow> server_step s (s\<lparr>accepting := False\<rparr>)"
| admit: "h \<in> set (workers s) \<Longrightarrow>
    server_step s (s\<lparr>limiter := snd (check_and_record p now (limiter s))\<rparr>)"
| relay: "h \<in> set (workers s) \<Longrightarrow>
    server_step s
      (s\<lparr>commands := snd (dispatch_command f st channel teardown post_ok reply (commands s))\<rparr>)"
| drain: "server_step s (s\<lparr>commands := snd (queue_pop (commands s))\<rparr>)"
| worker_done: "h \<in> set (workers s) \<Longrightarrow> server_step s (worker_exit h s)"

definition server_ok :: "server \<Rightarrow> bool" where
  "server_ok s \<longleftrightarrow>
     available (pool s) + length (workers s) = MAX_CONCURRENT_WORKERS \<and> over_release (pool s) = 0
     \<and> mset (created s) = mset (closed s) + mset (workers s)
     \<and> limiter_ok (limiter s)
     \<and> length (commands s) \<le> MAX_PENDING_IPC_COMMANDS \<and> list_all request_ok (commands s)"

lemma pop_until_suffix: "set (pop_until v p q) \<subseteq> set q \<and> length (pop_until v p q) \<le> length q"
  by (induction v p q rule: pop_until.induct) auto

lemma forward_queue:
  "set (snd (forward_to_ui_thread v p ch td po reply q)) \<subseteq>
     insert \<lparr>req_verb = v, req_payload = p, responder = ch\<rparr> (set q)"
  "length q \<le> MAX_PENDING_IPC_COMMANDS \<Longrightarrow>
   length (snd (forward_to_ui_thread v p ch td po reply q)) \<le> MAX_PENDING_IPC_COMMANDS"
  using pop_until_suffix [of v p "q @ [\<lparr>req_verb = v, req_payload = p, responder = ch\<rparr>]"]
  by (auto simp: forward_to_ui_thread_def queue_push_def)

lemma validate_interval_bounds:
  "validate_interval_hns v = Inr h \<Longrightarrow> h = v \<and> MIN_INTERVAL_HNS \<le> v \<and> v \<le> MAX_INTERVAL_HNS"
  by (auto simp: validate_interval_hns_def model_defs split: if_splits)

lemma dispatch_queue:
  "snd (dispatch_command f st ch td po reply q) = q
   \<or> request_ok \<lparr>req_verb = verb f, req_payload = payload f, responder = ch\<rparr>
     \<and> snd (dispatch_command f st ch td po reply q)
         = snd (forward_to_ui_thread (verb f) (payload f) ch td po reply q)"
  using validate_interval_bounds [of "u64_from_le (payload f)"]
  by (auto simp: dispatch_command_def request_ok_def handle_request_acquire_def
      handle_schedule_action_def split: command_verb.splits sum.splits if_splits)

lemma dispatch_queue_ok:
  assumes "length q \<le> MAX_PENDING_IPC_COMMANDS" and "list_all request_ok q"
  shows "length (snd (dispatch_command f st ch td po reply q)) \<le> MAX_PENDING_IPC_COMMANDS
    \<and> list_all request_ok (snd (dispatch_command f st ch td po reply q))"
proof -
  consider "snd (dispatch_command f st ch td po reply q) = q"
    | "request_ok \<lparr>req_verb = verb f, req_payload = payload f, responder = ch\<rparr>"
      "snd (dispatch_command f st ch td po reply q)
         = snd (forward_to_ui_thread (verb f) (payload f) ch td po reply q)"
    using dispatch_queue by blast
  then show ?thesis
  proof cases
    case 1
    then show ?thesis using assms by simp
  next
    case 2
    then show ?thesis
      using assms forward_queue(1) [of "verb f" "payload f" ch td po reply q]
        forward_queue(2) [of q "verb f" "payload f" ch td po reply]
      by (auto simp: list_all_iff)
  qed
qed

lemma permit_drop_pool [simp]:
  "available p < MAX_CONCURRENT_WORKERS \<Longrightarrow> permit_drop p = p\<lparr>available := available p + 1\<rparr>"
  by (simp add: permit_drop_def)

lemma accept_pipe_ok: "server_ok s \<Longrightarrow> server_ok (accept_pipe h still_running spawned now s)"
  by (auto simp: server_ok_def accept_pipe_def dispatch_connection_def try_acquire_def close_pipe_def
      Let_def prune_ok)

lemma worker_exit_ok:
  assumes "server_ok s" and "h \<in> set (workers s)" shows "server_ok (worker_exit h s)"
proof -
  have "0 < length (workers s)"
    using assms(2) by (cases "workers s") auto
  then have "available (pool s) < MAX_CONCURRENT_WORKERS"
    using assms(1) unfolding server_ok_def by linarith
  then show ?thesis
    using assms \<open>0 < length (workers s)\<close>
    by (auto simp: server_ok_def worker_exit_def close_pipe_def length_remove1)
qed

lemma server_step_ok: "server_step s s' \<Longrightarrow> server_ok s \<Longrightarrow> server_ok s'"
proof (induction rule: server_step.induct)
  case (relay h s f st channel teardown post_ok reply)
  then show ?case
    using dispatch_queue_ok [of "commands s" f st channel teardown post_ok reply]
    by (simp add: server_ok_def)
next
  case (drain s)
  then show ?case
    by (cases "commands s") (auto simp: server_ok_def)
qed (auto simp: accept_pipe_ok worker_exit_ok, auto simp: server_ok_def pipe_failed_def Let_def
       check_and_record_ok)

lemma server_new_ok: "server_ok server_new"
  by (simp add: server_ok_def server_new_def pool_new_def queue_new_def limiter_new_def limiter_ok_def)

lemma server_reachable_ok: "server_step\<^sup>*\<^sup>* server_new s \<Longrightarrow> server_ok s"
  by (induction rule: rtranclp_induct) (auto simp: server_new_ok server_step_ok)

lemma read_frame_Ok:
  "read_frame io = Inr f \<Longrightarrow> frame_ok f \<and> transferred io = serialize f"
  using deserialize_Ok [of "transferred io" f]
  by (auto simp: read_frame_def split: option.splits if_splits)

lemma handle_pipe_connection_cases:
  obtains (rejected) out lim' where "handle_pipe_connection c tok st lim q = (out, lim', q)"
      "out = None \<or> (\<exists>e. out = Some (encode_response (RespError e)))"
  | (served) p f lim' r q' where "client_pid c = Some p"
      "check_and_record p (clock_now c) lim = (Inr (), lim')" "read_frame (read_io c) = Inr f"
      "token_matches (token f) tok"
      "handle_pipe_connection c tok st lim q = (Some (encode_response r), lim', q')"
proof (cases "client_pid c")
  case None
  show ?thesis
    by (rule rejected [of "fst (handle_pipe_connection c tok st lim q)" lim])
      (auto simp add: handle_pipe_connection_def None simp del: encode_response.simps)
next
  case (Some p)
  obtain a lim1 where cr: "check_and_record p (clock_now c) lim = (a, lim1)"
    by fastforce
  show ?thesis
  proof (cases "wait_for_client (connect_io c) \<and> \<not> limiter_poisoned c \<and> a = Inr ()
      \<and> (\<exists>f. read_frame (read_io c) = Inr f \<and> token_matches (token f) tok)")
    case True
    then obtain f where f: "read_frame (read_io c) = Inr f" "token_matches (token f) tok"
      by blast
    show ?thesis
      by (rule served [OF Some _ f, of lim1]) (use True Some cr f in
          \<open>auto simp: handle_pipe_connection_def split_beta\<close>)
  next
    case False
    let ?h = "handle_pipe_connection c tok st lim q"
    have "snd (snd ?h) = q \<and> (fst ?h = None \<or> (\<exists>e. fst ?h = Some (encode_response (RespError e))))"
      using False Some cr
      by (auto simp add: handle_pipe_connection_def simp del: encode_response.simps split: sum.split)
    then show ?thesis
      by (intro rejected [of "fst ?h" "fst (snd ?h)"]) (auto simp: prod_eq_iff)
  qed
qed

lemma backoff_steps:
  assumes "n \<le> 5"
  shows "min (push_bit n (100 :: u64)) 2000 = [100, 200, 400, 800, 1600, 2000] ! n"
proof -
  from assms have "n = 0 \<or> n = 1 \<or> n = 2 \<or> n = 3 \<or> n = 4 \<or> n = 5"
    by arith
  then show ?thesis
    by (elim disjE) (simp_all add: push_bit_eq_mult min_def)
qed

section \<open>Properties\<close>

text \<open>The command queue between the pipe workers and the UI thread is a bounded first-in first-out
  queue: for every sequence of pushes and pops the requests delivered, followed by those still waiting,
  are exactly the requests accepted, in the order of acceptance; at most sixty-four wait; and a push is
  refused exactly when sixty-four wait.\<close>

theorem command_queue_fifo:
  "(case queue_run queue_push queue_pop ops queue_new of
      (accepted, delivered, q) \<Rightarrow> delivered @ q = accepted \<and> length q \<le> 64
        \<and> (fst (queue_push r q) \<longleftrightarrow> length q < 64))"
  using cq.run_fifo [of queue_new ops] cq.run_bounded [of queue_new ops]
  by (simp add: split_beta queue_new_def queue_push_def MAX_PENDING_IPC_COMMANDS_def not_le)

text \<open>Under every interleaving of the accept loop, the workers and the UI thread, the server leaks
  neither permits nor pipe handles: at most eight workers run, the free permits and the workers always
  add up to eight, no permit is released twice, and every pipe that was created is either closed
  exactly once or held by exactly one running worker. The rate limiter and the command queue stay
  within their bounds, and every waiting request passed its early validation; in particular a status
  query never reaches the UI thread.\<close>

theorem server_resources_accounted:
  assumes "server_step\<^sup>*\<^sup>* server_new s"
  shows "length (workers s) \<le> 8 \<and> available (pool s) = 8 - length (workers s)
    \<and> over_release (pool s) = 0 \<and> mset (created s) = mset (closed s) + mset (workers s)
    \<and> limiter_ok (limiter s)
    \<and> length (commands s) \<le> 64 \<and> list_all request_ok (commands s)
    \<and> QueryStatus \<notin> req_verb ` set (commands s)"
  using server_reachable_ok [OF assms]
  by (auto simp: server_ok_def MAX_CONCURRENT_WORKERS_def MAX_PENDING_IPC_COMMANDS_def list_all_iff
      request_ok_def)

theorem server_resources_accounted_witness:
  "length (workers (accept_pipe 7 True True 0 server_new)) = 1
   \<and> available (pool (accept_pipe 7 True True 0 server_new)) = 7"
proof -
  have "server_step\<^sup>*\<^sup>* server_new (accept_pipe 7 True True 0 server_new)"
    by (rule r_into_rtranclp, rule server_step.accept) (simp add: server_new_def)
  from server_resources_accounted [OF this]
  show ?thesis
    by (simp add: accept_pipe_def dispatch_connection_def try_acquire_def server_new_def pool_new_def
        MAX_CONCURRENT_WORKERS_def)
qed

text \<open>C6: No command without the session token. When a connection changes the command queue, or gets an
  answer that is not an error, then its process was identified and admitted by the rate limiter and
  the bytes it sent are exactly the encoding of a frame that carries the server's session token.\<close>

theorem commands_are_authenticated:
  assumes "token_ok tok" and "handle_pipe_connection c tok st lim q = (out, lim', q')"
    and "q' \<noteq> q \<or> (\<exists>r. out = Some (encode_response r) \<and> (\<forall>e. r \<noteq> RespError e))"
  shows "\<exists>p f. client_pid c = Some p \<and> check_and_record p (clock_now c) lim = (Inr (), lim')
    \<and> transferred (read_io c) = serialize f \<and> token f = tok"
proof -
  have no_error: "encode_response r \<noteq> encode_response (RespError e)" if "\<forall>e. r \<noteq> RespError e" for r e
    using that by (cases r) auto
  show ?thesis
  proof (cases rule: handle_pipe_connection_cases [of c tok st lim q])
    case (rejected out1 lim1)
    then show ?thesis
      using assms(2,3) no_error by auto
  next
    case (served p f lim1 r q1)
    have f: "frame_ok f" "transferred (read_io c) = serialize f"
      using read_frame_Ok [OF served(3)] by auto
    then have "token f = tok"
      using served(4) assms(1) by (simp add: token_matches_def token_diff_zero frame_ok_def token_ok_def)
    moreover have "lim' = lim1"
      using assms(2) served(5) by simp
    ultimately show ?thesis
      using served f by auto
  qed
qed

text \<open>A connection of process 9 that asks for a release with the token of thirty-two sevens.\<close>

definition sample_io :: "bytes \<Rightarrow> overlapped_io" where
  "sample_io bs = \<lparr>event = Some 1, immediate = True, last_error = 0, wait_status = 0, completed = True,
     transferred = bs\<rparr>"

definition sample_frame :: ipc_frame where
  "sample_frame = \<lparr>token = replicate 32 7, verb = RequestRelease, payload = []\<rparr>"

definition sample_connection :: connection where
  "sample_connection = \<lparr>connect_io = sample_io [], client_pid = Some 9, limiter_poisoned = False,
     clock_now = 5, read_io = sample_io (serialize sample_frame), reply_channel = 3,
     ipc_teardown = False, post_message_ok = True, ui_reply = Reply RespReleased\<rparr>"

lemma sample_connection_served:
  "handle_pipe_connection sample_connection (replicate 32 7) status_snapshot_new [] [] =
     (Some (encode_response RespReleased),
      [\<lparr>pid = 9, timestamps = [5], last_seen = 5\<rparr>],
      [\<lparr>req_verb = RequestRelease, req_payload = [], responder = 3\<rparr>])"
proof -
  have "deserialize (serialize sample_frame) = Inr sample_frame"
    by (rule deserialize_serialize) (simp add: sample_frame_def frame_ok_def model_defs)
  then have "read_frame (sample_io (serialize sample_frame)) = Inr sample_frame"
    by (simp add: read_frame_def sample_io_def)
  moreover have "token_matches (token sample_frame) (replicate 32 7)"
    by (simp add: token_matches_def token_diff_zero sample_frame_def)
  ultimately show ?thesis
    by (simp add: sample_connection_def handle_pipe_connection_def wait_for_client_def sample_io_def [of "[]"]
        check_and_record_def find_or_create_def dispatch_command_def forward_to_ui_thread_def
        queue_push_def sample_frame_def model_defs)
qed

theorem commands_are_authenticated_witness:
  "\<exists>f. transferred (read_io sample_connection) = serialize f \<and> token f = replicate 32 7"
proof -
  have "token_ok (replicate 32 7)"
    by (simp add: token_ok_def model_defs)
  from commands_are_authenticated [OF this sample_connection_served]
  show ?thesis by auto
qed

text \<open>After a failed window message the relay discards the requests of other clients. When no
  earlier waiting request has the same verb and payload, the whole queue is emptied, whoever sent the
  requests; when an earlier one has, the queue keeps everything after that earlier one, the caller's
  own request included, although the caller is told that its request failed.\<close>

theorem failed_post_discards_others:
  assumes "length q < MAX_PENDING_IPC_COMMANDS"
  shows "forward_to_ui_thread v p ch False False reply q =
    (RespError (TransportIo (- 1)),
     (case dropWhile (\<lambda>r. \<not> (req_verb r = v \<and> req_payload r = p)) q of
        [] \<Rightarrow> []
      | _ # later \<Rightarrow> later @ [\<lparr>req_verb = v, req_payload = p, responder = ch\<rparr>]))"
proof -
  have "pop_until v p (q @ [\<lparr>req_verb = v, req_payload = p, responder = ch\<rparr>]) =
      (case dropWhile (\<lambda>r. \<not> (req_verb r = v \<and> req_payload r = p)) q of
        [] \<Rightarrow> []
      | _ # later \<Rightarrow> later @ [\<lparr>req_verb = v, req_payload = p, responder = ch\<rparr>])"
    by (induction q) auto
  then show ?thesis
    using assms by (simp add: forward_to_ui_thread_def queue_push_def)
qed

theorem failed_post_discards_others_witness:
  "snd (forward_to_ui_thread RequestRelease [] 4 False False RecvTimeout
     [\<lparr>req_verb = CancelSchedule, req_payload = [], responder = 3\<rparr>]) = []"
  using failed_post_discards_others
    [of "[\<lparr>req_verb = CancelSchedule, req_payload = [], responder = 3\<rparr>]" RequestRelease "[]" 4 RecvTimeout]
  by (simp add: MAX_PENDING_IPC_COMMANDS_def)

text \<open>The accept loop backs off exponentially within bounds after failed pipe creations: the pauses
  after the first, second, third, fourth, fifth and every later consecutive failure are 100, 200, 400,
  800, 1600 and 2000 milliseconds, also when the failure counter has saturated, and a created pipe
  resets the counter.\<close>

theorem backoff_sequence:
  "fst (pipe_failed s) =
     [100, 200, 400, 800, 1600, 2000] ! min (unat (consecutive_failures s)) 5
   \<and> consecutive_failures (accept_pipe h still_running spawned now s) = 0"
proof
  define k where "k = unat (consecutive_failures s)"
  have lt: "k < 2 ^ 32"
    using unsigned_less [of "consecutive_failures s", where ?'a = nat] by (simp add: k_def)
  have "unat (min (saturating_add (consecutive_failures s) 1 - 1) 5) = min k 5"
  proof (cases "k + 1 < 2 ^ 32")
    case True
    then have "saturating_add (consecutive_failures s) 1 - 1 = consecutive_failures s"
      by (simp add: saturating_add_def k_def)
    then show ?thesis
      by (simp add: k_def min_def word_le_nat_alt)
  next
    case False
    then have "k = 2 ^ 32 - 1" and "saturating_add (consecutive_failures s) 1 = - 1"
      using lt by (simp_all add: saturating_add_def k_def)
    then show ?thesis
      by (simp add: min_def word_le_nat_alt)
  qed
  then have "fst (pipe_failed s) = min (push_bit (min k 5) 100) 2000"
    by (simp add: pipe_failed_def backoff_ms_def Let_def)
  then show "fst (pipe_failed s) =
     [100, 200, 400, 800, 1600, 2000] ! min (unat (consecutive_failures s)) 5"
    unfolding k_def [symmetric] by (simp add: backoff_steps)
  show "consecutive_failures (accept_pipe h still_running spawned now s) = 0"
    by (simp add: accept_pipe_def Let_def dispatch_connection_def close_pipe_def split: option.split)
qed

end
