(* ===== verification/Engine.thy ===== *)
theory Engine
  imports Surface Server "HOL-Library.Monad_Syntax"
begin

text \<open>
  Model of the tray application's engine: the state of \<open>App\<close> and \<open>publish\<close>
  (\<open>apps/true-tick/src/tray/controller.rs\<close>) and the mutually recursive operations of
  \<open>apps/true-tick/src/tray/tier.rs\<close> and \<open>tray/schedule.rs\<close> that acquire and release the timer,
  evaluate the operating tier, run the release handoff and arm the schedule timer.

  The fields of \<open>App\<close> that only the user interface and the diagnostics use are left out, and the
  diagnostic records (which no branch of these operations reads back, the storage failures aside)
  are not modelled. The counters of the tier ladder, the configuration and the published mirrors
  are grouped in records of their own. What other threads and the system provide (watchdog
  episodes, storage failures in the diagnostic store, caught panics, the results of fallible
  native calls in the order they are made, the clock; a native result that only reaches the
  diagnostics is left out) is the environment part of the state, fixed
  while one operation runs.

  The operations call each other recursively without a bound, so the model gives every call one
  unit of fuel, and \<open>None\<close> is a call tree deeper than the fuel. Each operation is a body over the
  recursive calls it makes, and \<open>engine\<close> ties the knot.
\<close>

section \<open>State\<close>

record tier_state =
  op_tier :: operating_tier
  rejections_seen :: u32
  anomalies :: u32
  pending_anomalies :: u32
  last_watchdog_episodes :: u32
  consumed_log_write_failures :: u64
  consumed_dispatch_panics :: u32
  surface_recovery_attempts :: u32
  surface_recovery_due :: "nat option"
  surface_recovery_exhausted :: bool

record app_config =
  automatic :: bool
  auto_resume_on_ac :: bool
  battery_lockout :: bool
  request_interval :: hns

record publication_key =
  key_status :: tray_status
  key_ownership :: ownership_state
  key_effective :: "hns option"
  key_requested :: "hns option"
  key_handoff :: bool
  key_scheduled :: "(duration_action \<times> u64 \<times> nat) option"
  key_block_reason :: "policy_reason option"

text \<open>The values that the watchdog, the emergency handler and the IPC server read.\<close>

record mirrors =
  ownership_flag :: u64
  tracked_interval_hns :: u64
  emergency_interval :: u64
  ipc_status :: status_snapshot

record environment =
  watchdog_episodes :: "u32 option"
  storage_failures :: "u64 list"
  dispatch_panics :: u32
  native_ok :: "nat \<Rightarrow> bool"
  native_calls :: nat
  clock :: nat

record 'p app =
  controller :: "'p timer_controller"
  power_now :: power_state
  battery_saver_now :: "bool option"
  config :: app_config
  app_status :: tray_status
  last_block_reason :: "policy_reason option"
  tiering :: tier_state
  tray_icon :: bool
  timing :: timing_snapshot
  timing_snapshot_valid :: bool
  app_invalid_interval :: bool
  external_timing :: bool
  desired :: desired_intent_queue
  handoff :: "handoff_tracker option"
  pause :: duration_coordinator
  duration_timer :: "(nat \<times> u64) option"
  schedule_display_timer_active :: bool
  running_since :: "nat option"
  pending_resume_on_ac :: bool
  last_publication :: "publication_key option"
  responsiveness_degraded :: bool
  mirror :: mirrors
  env :: environment

abbreviation app_ownership :: "'p app \<Rightarrow> ownership_state" where
  "app_ownership a \<equiv> ownership (controller a)"

definition count_native :: "'p app \<Rightarrow> 'p app" where
  "count_native a = a\<lparr>env := (env a)\<lparr>native_calls := native_calls (env a) + 1\<rparr>\<rparr>"

definition native_call :: "'p app \<Rightarrow> bool \<times> 'p app" where
  "native_call a = (native_ok (env a) (native_calls (env a)), count_native a)"

section \<open>Views\<close>

definition app_lifecycle_status :: "'p app \<Rightarrow> tray_status" where
  "app_lifecycle_status a =
     scheduled_lifecycle_status (app_status a) (handoff a \<noteq> None)
       (map_option sched_action (scheduled (pause a)))"

definition app_timing_values :: "'p app \<Rightarrow> timing_values" where
  "app_timing_values a =
     (let external = external_timing a
            \<or> app_ownership a = OwnReleased
              \<and> (case (snap_requested (timing a), snap_effective (timing a)) of
                   (Some r, Some e) \<Rightarrow> e < r | _ \<Rightarrow> False)
      in timing_values_from (timing a) (handoff a \<noteq> None) external (app_invalid_interval a)
           (timing_snapshot_valid a))"

definition sync_timing_snapshot :: "'p app \<Rightarrow> 'p app" where
  "sync_timing_snapshot a = a\<lparr>timing := snapshot (controller a)\<rparr>"

text \<open>The status while a release is under way.\<close>

definition releasing_status :: "'p app \<Rightarrow> tray_status" where
  "releasing_status a = (if pause_active (pause a) then TsPausing else TsStopping)"

fun status_debug_label :: "tray_status \<Rightarrow> string" where
  "status_debug_label TsRunning = ''running''"
| "status_debug_label TsStarting = ''starting''"
| "status_debug_label TsScheduledStart = ''scheduledstart''"
| "status_debug_label TsPausing = ''pausing''"
| "status_debug_label TsStopping = ''stopping''"
| "status_debug_label TsScheduledStop = ''scheduledstop''"
| "status_debug_label TsPaused = ''paused''"
| "status_debug_label TsPending = ''pending''"
| "status_debug_label TsDegraded = ''degraded''"
| "status_debug_label TsUnverified = ''unverified''"
| "status_debug_label TsStopped = ''stopped''"
| "status_debug_label TsBlocked = ''blocked''"
| "status_debug_label TsUnsupported = ''unsupported''"
| "status_debug_label TsError = ''error''"

fun ownership_wire_label :: "ownership_state \<Rightarrow> string" where
  "ownership_wire_label Owned = ''owned''"
| "ownership_wire_label OwnReleased = ''released''"
| "ownership_wire_label Uncertain = ''uncertain''"

definition refresh_ipc_status :: "'p app \<Rightarrow> 'p app" where
  "refresh_ipc_status a =
     (let t = app_timing_values a;
          eff = (if tv_valid t \<and> \<not> tv_invalid_interval t then tv_effective t else None)
      in a\<lparr>mirror := (mirror a)\<lparr>ipc_status :=
             snapshot_update (status_debug_label (app_lifecycle_status a))
               (ownership_wire_label (app_ownership a)) eff (tv_requested t) (ipc_status (mirror a))\<rparr>\<rparr>)"

section \<open>Operations without recursive calls\<close>

definition DURATION_TIMER_ID_BASE :: nat where
  [model_defs]: "DURATION_TIMER_ID_BASE = 0x6000"

definition DURATION_TIMER_ID_MASK :: u64 where
  [model_defs]: "DURATION_TIMER_ID_MASK = 0x07FF"

definition SURFACE_RECOVERY_ATTEMPTS :: u32 where
  [model_defs]: "SURFACE_RECOVERY_ATTEMPTS = 3"

definition SURFACE_RECOVERY_SPACING_MS :: nat where
  [model_defs]: "SURFACE_RECOVERY_SPACING_MS = 2000"

definition duration_timer_id :: "u64 \<Rightarrow> nat" where
  "duration_timer_id gen = DURATION_TIMER_ID_BASE + unat (gen AND DURATION_TIMER_ID_MASK)"

definition kill_schedule_display_timer :: "'p app \<Rightarrow> 'p app" where
  "kill_schedule_display_timer a = a\<lparr>schedule_display_timer_active := False\<rparr>"

definition cancel_duration_timer :: "'p app \<Rightarrow> 'p app" where
  "cancel_duration_timer a = a\<lparr>duration_timer := None\<rparr>"

definition begin_schedule_display_timer :: "'p app \<Rightarrow> 'p app" where
  "begin_schedule_display_timer a =
     (if schedule_display_timer_active a \<or> \<not> tray_icon a then a
      else let (ok, a1) = native_call a in if ok then a1\<lparr>schedule_display_timer_active := True\<rparr> else a1)"

definition refresh_timing_observation :: "'p timer_platform \<Rightarrow> 'p app \<Rightarrow> 'p app" where
  "refresh_timing_observation P a =
     (let (r, c) = ctl_query P (controller a);
          a1 = sync_timing_snapshot (a\<lparr>controller := c\<rparr>)
      in a1\<lparr>timing_snapshot_valid := \<not> isl r\<rparr>)"

text \<open>The anomaly producers, in the order they are drained.\<close>

definition highest :: "u64 list \<Rightarrow> u64" where
  "highest xs = foldl max 0 xs"

definition drain_pending :: "tier_state \<Rightarrow> tier_state" where
  "drain_pending t =
     (if 0 < pending_anomalies t
      then t\<lparr>anomalies := saturating_add (anomalies t) (pending_anomalies t), pending_anomalies := 0\<rparr>
      else t\<lparr>pending_anomalies := 0\<rparr>)"

definition drain_watchdog :: "u32 option \<Rightarrow> tier_state \<Rightarrow> tier_state" where
  "drain_watchdog episodes t =
     (case episodes of
        None \<Rightarrow> t
      | Some e \<Rightarrow>
          if last_watchdog_episodes t < e
          then t\<lparr>last_watchdog_episodes := e,
                 anomalies := saturating_add (anomalies t) (e - last_watchdog_episodes t)\<rparr>
          else t)"

definition drain_storage :: "u64 list \<Rightarrow> tier_state \<Rightarrow> tier_state" where
  "drain_storage seqs t =
     (if consumed_log_write_failures t < highest seqs
      then t\<lparr>consumed_log_write_failures := highest seqs,
             anomalies := saturating_add (anomalies t)
               (of_nat (length (filter (\<lambda>q. consumed_log_write_failures t < q \<and> q \<le> highest seqs) seqs)))\<rparr>
      else t)"

definition drain_panics :: "u32 \<Rightarrow> tier_state \<Rightarrow> tier_state" where
  "drain_panics panics t =
     (if consumed_dispatch_panics t < panics
      then t\<lparr>consumed_dispatch_panics := panics,
             anomalies := saturating_add (anomalies t) (panics - consumed_dispatch_panics t)\<rparr>
      else t)"

definition drain_anomaly_producers :: "environment \<Rightarrow> tier_state \<Rightarrow> tier_state" where
  "drain_anomaly_producers e t =
     drain_panics (dispatch_panics e)
       (drain_storage (storage_failures e) (drain_watchdog (watchdog_episodes e) (drain_pending t)))"

definition tier_context_of :: "bool \<Rightarrow> tier_state \<Rightarrow> tier_context" where
  "tier_context_of icon t =
     \<lparr>tray_surface_available = icon, kernel_rejected_requests = rejections_seen t,
      unhandled_anomalies = anomalies t,
      current_floor_hns = (case op_tier t of MetrologyDegraded f \<Rightarrow> f | _ \<Rightarrow> 0),
      nominally_recoverable = (icon \<and> rejections_seen t = 0 \<and> anomalies t = 0)\<rparr>"

text \<open>The transition of \<open>refresh_operating_tier\<close> up to the restorative release.\<close>

definition apply_transition :: "tier_transition \<Rightarrow> 'p app \<Rightarrow> 'p app" where
  "apply_transition tr a =
     (case tr of
        Stay \<Rightarrow> a
      | EnterSurfaceDegraded \<Rightarrow>
          a\<lparr>tiering := (tiering a)\<lparr>op_tier := SurfaceDegraded,
            surface_recovery_attempts := 0, surface_recovery_exhausted := False,
            surface_recovery_due := Some (clock (env a) + SURFACE_RECOVERY_SPACING_MS * 1000000)\<rparr>\<rparr>
      | EnterMetrologyDegraded f \<Rightarrow>
          a\<lparr>tiering := (tiering a)\<lparr>op_tier := MetrologyDegraded f\<rparr>,
            controller := clamp_requested_interval_floor f (controller a)\<rparr>
      | EnterQuiescent \<Rightarrow> a\<lparr>tiering := (tiering a)\<lparr>op_tier := Quiescent\<rparr>\<rparr>
      | Recover \<Rightarrow>
          a\<lparr>tiering := (tiering a)\<lparr>op_tier := Nominal, rejections_seen := 0, anomalies := 0,
            last_watchdog_episodes := (case watchdog_episodes (env a) of None \<Rightarrow> 0 | Some e \<Rightarrow> e),
            consumed_log_write_failures := highest (storage_failures (env a)),
            surface_recovery_attempts := 0, surface_recovery_exhausted := False,
            surface_recovery_due := None, consumed_dispatch_panics := dispatch_panics (env a)\<rparr>\<rparr>)"

definition tier_step :: "'p app \<Rightarrow> tier_transition \<times> 'p app" where
  "tier_step a =
     (let t = drain_anomaly_producers (env a) (tiering a);
          tr = evaluate_tier (op_tier t) (tier_context_of (tray_icon a) t)
      in (tr, apply_transition tr (a\<lparr>tiering := t\<rparr>)))"

section \<open>Bodies of the recursive operations\<close>

datatype engine_call =
  CallPublish
  | CallRefreshTier
  | CallGuardedRelease tray_status
  | CallBeginHandoff hns tray_status
  | CallProcessIntent
  | CallAcquire
  | CallReleaseForPolicy policy_reason
  | CallQueueIntent desired_intent
  | CallShowOwnership tray_status
  | CallArmDuration

text \<open>A call returns the operation's success and the state, or nothing within the fuel.\<close>

type_synonym 'p outcome = "(bool \<times> 'p app) option"
type_synonym 'p calls = "engine_call \<Rightarrow> 'p app \<Rightarrow> 'p outcome"

definition refresh_operating_tier_body :: "'p calls \<Rightarrow> 'p app \<Rightarrow> 'p outcome" where
  "refresh_operating_tier_body call a =
     (case tier_step a of (tr, a1) \<Rightarrow>
        if tr = EnterQuiescent \<and> app_ownership a1 = Owned
        then do { (_, a2) \<leftarrow> call (CallGuardedRelease TsStopped) a1; Some (True, a2) }
        else Some (True, a1))"

definition publish_mirrors :: "'p app \<Rightarrow> 'p app" where
  "publish_mirrors a =
     (let owned = (app_ownership a = Owned);
          tracked = (if owned then (case selected_interval (controller a) of Some i \<Rightarrow> i | None \<Rightarrow> 0) else 0);
          m = (mirror a)\<lparr>ownership_flag := (if owned then 1 else 0), emergency_interval := tracked\<rparr>
      in a\<lparr>mirror := (case selected_interval (controller a) of
                        Some i \<Rightarrow> m\<lparr>tracked_interval_hns := i\<rparr> | None \<Rightarrow> m)\<rparr>)"

definition publication_key_of :: "tray_status \<Rightarrow> 'p app \<Rightarrow> publication_key" where
  "publication_key_of st a =
     (let t = app_timing_values a in
      \<lparr>key_status = st, key_ownership = app_ownership a, key_effective = tv_effective t,
       key_requested = tv_requested t, key_handoff = handoff_pending t,
       key_scheduled = map_option (\<lambda>s. scheduled_display_key s (clock (env a))) (scheduled (pause a)),
       key_block_reason = last_block_reason a\<rparr>)"

definition publish_body :: "'p calls \<Rightarrow> 'p app \<Rightarrow> 'p outcome" where
  "publish_body call a =
     (let a1 = publish_mirrors a;
          st = app_lifecycle_status a1;
          a2 = (if st \<noteq> TsRunning \<or> app_ownership a1 \<noteq> Owned then a1\<lparr>running_since := None\<rparr> else a1)
                 \<lparr>app_status := st\<rparr>
      in do {
        (_, a3) \<leftarrow> call CallRefreshTier a2;
        let key = publication_key_of (published_status st (responsiveness_degraded a3)) a3;
        if last_publication a3 = Some key then Some (True, a3)
        else do {
          let a4 = a3\<lparr>last_publication := Some key\<rparr>;
          if op_tier (tiering a4) \<notin> {SurfaceDegraded, Quiescent} \<and> tray_icon a4
          then (case native_call a4 of (ok, a5) \<Rightarrow>
            if ok then Some (True, refresh_ipc_status a5)
            else do {
              (_, a6) \<leftarrow> call CallRefreshTier (a5\<lparr>tray_icon := False\<rparr>);
              Some (True, refresh_ipc_status a6) })
          else Some (True, refresh_ipc_status a4) } })"

definition arm_duration_timer_body :: "'p calls \<Rightarrow> 'p app \<Rightarrow> 'p outcome" where
  "arm_duration_timer_body call a =
     (if scheduled (pause a) = None then Some (False, a)
      else if \<not> tray_icon a then Some (False, a)
      else case native_call a of (ok, a1) \<Rightarrow>
        if \<not> ok then do {
          (_, a2) \<leftarrow> call CallPublish
            ((kill_schedule_display_timer (a1\<lparr>pause := snd (cancel (pause a1))\<rparr>))
               \<lparr>duration_timer := None, app_status := TsError\<rparr>);
          Some (False, a2) }
        else Some (True, a1\<lparr>duration_timer :=
               Some (duration_timer_id (generation (pause a1)), generation (pause a1))\<rparr>))"

definition show_ownership_status_body :: "'p calls \<Rightarrow> tray_status \<Rightarrow> 'p app \<Rightarrow> 'p outcome" where
  "show_ownership_status_body call released a =
     call CallPublish
       (a\<lparr>app_status :=
            (if handoff a \<noteq> None then releasing_status a
             else case app_ownership a of
               OwnReleased \<Rightarrow> if pause_active (pause a) then TsPaused else released
             | Owned \<Rightarrow> TsRunning
             | Uncertain \<Rightarrow> TsUnverified)\<rparr>)"

definition begin_handoff_body :: "'p calls \<Rightarrow> hns \<Rightarrow> tray_status \<Rightarrow> 'p app \<Rightarrow> 'p outcome" where
  "begin_handoff_body call bound released a0 =
     (let a = cancel_duration_timer a0;
          unavailable = (\<lambda>b. do {
            (_, b1) \<leftarrow> call CallPublish
              ((sync_timing_snapshot
                  (b\<lparr>external_timing := True, controller := clear_release_boundary (controller b)\<rparr>))
                 \<lparr>app_status := (if released = TsPaused then TsUnverified else TsStopped)\<rparr>);
            (_, b2) \<leftarrow> call CallProcessIntent b1;
            (_, b3) \<leftarrow> (if pause_active (pause b2) then call CallArmDuration b2 else Some (True, b2));
            Some (False, b3) })
      in if \<not> tray_icon a then unavailable a
         else case native_call a of (ok, a1) \<Rightarrow>
           if \<not> ok then unavailable a1
           else do {
             (_, a2) \<leftarrow> call CallPublish
               (a1\<lparr>handoff := Some (handoff_new bound released),
                   app_status := (if released = TsPaused then TsPausing else TsStopping)\<rparr>);
             Some (True, a2) })"

definition guarded_release_body ::
    "'p timer_platform \<Rightarrow> 'p calls \<Rightarrow> tray_status \<Rightarrow> 'p app \<Rightarrow> 'p outcome" where
  "guarded_release_body P call released a =
     (if handoff a \<noteq> None then Some (False, a)
      else do {
        (_, a1) \<leftarrow> call CallPublish
          (a\<lparr>external_timing := False, running_since := None, app_status := releasing_status a\<rparr>);
        (case ctl_stop P (controller a1) of (r, c) \<Rightarrow>
          let a2 = (sync_timing_snapshot (a1\<lparr>controller := c\<rparr>))\<lparr>timing_snapshot_valid := \<not> isl r\<rparr> in
          case r of
            Inl _ \<Rightarrow> do {
              (_, a3) \<leftarrow> call CallPublish
                (a2\<lparr>timing_snapshot_valid := False, running_since := None, app_status := TsUnverified\<rparr>);
              Some (False, a3) }
          | Inr changed \<Rightarrow>
              let finish = (\<lambda>b. do {
                    (_, b1) \<leftarrow> call CallPublish
                      ((sync_timing_snapshot (b\<lparr>controller := clear_release_boundary (controller b)\<rparr>))
                         \<lparr>timing_snapshot_valid := True, app_status := released\<rparr>);
                    (_, b2) \<leftarrow> (if pause_active (pause b1) then call CallArmDuration b1 else Some (True, b1));
                    Some (True, b2) })
              in (case snap_requested (timing a2) of
                    None \<Rightarrow> finish a2
                  | Some bound \<Rightarrow>
                      if changed \<and> release_needs_handoff bound (snap_effective (timing a2)) then do {
                        (started, a3) \<leftarrow> call (CallBeginHandoff bound
                          (if pause_active (pause a2) then TsPaused else TsStopped)) a2;
                        if started then Some (True, a3) else finish a3 }
                      else finish a2)) })"

definition count_rejection :: "'p app \<Rightarrow> 'p app" where
  "count_rejection a =
     a\<lparr>tiering := (tiering a)\<lparr>rejections_seen := saturating_add (rejections_seen (tiering a)) 1\<rparr>\<rparr>"

definition acquire_timer_body :: "'p timer_platform \<Rightarrow> 'p calls \<Rightarrow> 'p app \<Rightarrow> 'p outcome" where
  "acquire_timer_body P call a =
     (if app_ownership a \<noteq> OwnReleased then call (CallShowOwnership TsStopped) a
      else if \<not> tier_allows_high_resolution (op_tier (tiering a)) then
        call CallPublish (a\<lparr>app_status := (if pause_active (pause a) then TsPaused else TsStopped)\<rparr>)
      else do {
        (_, a1) \<leftarrow> call CallPublish (a\<lparr>app_status := TsStarting\<rparr>);
        (case ctl_start P (controller a1) of (r, c) \<Rightarrow>
          let verified = (r = Inr Verified \<or> r = Inr FinerThanRequested);
              st = (case r of
                      Inr _ \<Rightarrow> if verified then TsRunning else TsUnverified
                    | Inl e \<Rightarrow> if e = TimerUnsupported then TsUnsupported else TsError);
              a2 = (sync_timing_snapshot (a1\<lparr>controller := c\<rparr>))
                     \<lparr>timing_snapshot_valid := verified, app_invalid_interval := (r = Inl InvalidInterval)\<rparr>;
              a3 = (case r of
                      Inl (RequestFailed _) \<Rightarrow> count_rejection a2
                    | Inl _ \<Rightarrow> a2
                    | Inr _ \<Rightarrow> a2\<lparr>last_block_reason := None\<rparr>);
              a4 = a3\<lparr>running_since := (if st = TsRunning then Some (clock (env a3)) else None),
                      app_status := st\<rparr>
          in do {
            (_, a5) \<leftarrow> call CallPublish a4;
            if pending (desired a5) \<noteq> None then call CallProcessIntent a5 else Some (True, a5) }) })"

definition release_for_policy_body :: "'p calls \<Rightarrow> policy_reason \<Rightarrow> 'p app \<Rightarrow> 'p outcome" where
  "release_for_policy_body call reason a =
     (if handoff a \<noteq> None then call (CallQueueIntent Release) a
      else
        let restricted = reason \<in> {BatteryRestricted, BatterySaverRestricted, PowerUnknown};
            held = app_ownership a \<in> {Owned, Uncertain};
            released = (if restricted \<or> reason = GloballyDisabled then TsBlocked else TsStopped);
            a1 = (if restricted \<and> held then a\<lparr>pending_resume_on_ac := True\<rparr> else a)
                   \<lparr>last_block_reason := (if released = TsBlocked then Some reason else None)\<rparr>
        in if held then do { (_, a2) \<leftarrow> call (CallGuardedRelease released) a1; Some (True, a2) }
           else call CallPublish (a1\<lparr>app_status := released\<rparr>))"

definition process_desired_intent_body :: "'p calls \<Rightarrow> 'p app \<Rightarrow> 'p outcome" where
  "process_desired_intent_body call a0 =
     (if handoff a0 \<noteq> None then call CallPublish (a0\<lparr>app_status := releasing_status a0\<rparr>)
      else case intent_take (desired a0) of (taken, q) \<Rightarrow>
        let a = a0\<lparr>desired := q\<rparr> in
        case taken of
          None \<Rightarrow> Some (True, a)
        | Some Acquire \<Rightarrow>
            if pause_active (pause a) then
              (if app_ownership a = OwnReleased then do {
                 (_, a1) \<leftarrow> call CallPublish (a\<lparr>app_status := TsPaused\<rparr>);
                 (_, a2) \<leftarrow> call CallArmDuration a1;
                 Some (True, a2) }
               else Some (True, a))
            else
              let d = decide (eligible_input (power_now a) (battery_lockout (config a))) in
              if decision_status d = Requested then call CallAcquire a
              else call (CallReleaseForPolicy (decision_reason d)) a
        | Some Release \<Rightarrow>
            if app_status a = TsStarting then
              Some (True, a\<lparr>desired := intent_request Release (desired a)\<rparr>)
            else if app_ownership a \<in> {Owned, Uncertain} then do {
              (_, a1) \<leftarrow> call (CallGuardedRelease (if pause_active (pause a) then TsPaused else TsStopped)) a;
              Some (True, a1) }
            else do {
              (_, a1) \<leftarrow> call CallPublish
                (a\<lparr>app_status := (if pause_active (pause a) \<and> app_status a \<noteq> TsUnverified
                                   then TsPaused else TsStopped)\<rparr>);
              (_, a2) \<leftarrow> (if pause_active (pause a1) then call CallArmDuration a1 else Some (True, a1));
              Some (True, a2) })"

definition queue_intent_body :: "'p calls \<Rightarrow> desired_intent \<Rightarrow> 'p app \<Rightarrow> 'p outcome" where
  "queue_intent_body call i a0 =
     (let a = a0\<lparr>desired := intent_request i (desired a0)\<rparr> in
      if handoff a \<noteq> None then call CallPublish (a\<lparr>app_status := releasing_status a\<rparr>)
      else call CallProcessIntent a)"

section \<open>The engine\<close>

fun engine :: "'p timer_platform \<Rightarrow> nat \<Rightarrow> 'p calls" where
  "engine P 0 c a = None"
| "engine P (Suc n) CallPublish a = publish_body (engine P n) a"
| "engine P (Suc n) CallRefreshTier a = refresh_operating_tier_body (engine P n) a"
| "engine P (Suc n) (CallGuardedRelease st) a = guarded_release_body P (engine P n) st a"
| "engine P (Suc n) (CallBeginHandoff b st) a = begin_handoff_body (engine P n) b st a"
| "engine P (Suc n) CallProcessIntent a = process_desired_intent_body (engine P n) a"
| "engine P (Suc n) CallAcquire a = acquire_timer_body P (engine P n) a"
| "engine P (Suc n) (CallReleaseForPolicy r) a = release_for_policy_body (engine P n) r a"
| "engine P (Suc n) (CallQueueIntent i) a = queue_intent_body (engine P n) i a"
| "engine P (Suc n) (CallShowOwnership st) a = show_ownership_status_body (engine P n) st a"
| "engine P (Suc n) CallArmDuration a = arm_duration_timer_body (engine P n) a"

section \<open>Draining the anomaly producers\<close>

text \<open>The anomalies the next tier evaluation sees, and the two situations it distinguishes: with three
  or more it releases an owned request, with fewer it does not touch ownership.\<close>

definition anomalies_seen :: "'p app \<Rightarrow> u32" where
  "anomalies_seen a = anomalies (drain_anomaly_producers (env a) (tiering a))"

definition storm :: "'p app \<Rightarrow> bool" where
  "storm a \<longleftrightarrow> MAX_ANOMALIES_BEFORE_QUIESCENT \<le> anomalies_seen a"

lemma drain_fields [simp]:
  "pending_anomalies (drain_pending t) = 0"
  "pending_anomalies (drain_watchdog w t) = pending_anomalies t"
  "pending_anomalies (drain_storage q t) = pending_anomalies t"
  "pending_anomalies (drain_panics p t) = pending_anomalies t"
  "last_watchdog_episodes (drain_storage q t) = last_watchdog_episodes t"
  "last_watchdog_episodes (drain_panics p t) = last_watchdog_episodes t"
  "consumed_log_write_failures (drain_panics p t) = consumed_log_write_failures t"
  by (simp_all add: drain_pending_def drain_watchdog_def drain_storage_def drain_panics_def
      split: option.split)

definition drained :: "environment \<Rightarrow> tier_state \<Rightarrow> bool" where
  "drained e t \<longleftrightarrow> pending_anomalies t = 0
     \<and> (case watchdog_episodes e of None \<Rightarrow> True | Some w \<Rightarrow> w \<le> last_watchdog_episodes t)
     \<and> highest (storage_failures e) \<le> consumed_log_write_failures t
     \<and> dispatch_panics e \<le> consumed_dispatch_panics t"

lemma drained_update [simp]:
  "drained e (t\<lparr>op_tier := x\<rparr>) = drained e t"
  "drained e (t\<lparr>rejections_seen := r\<rparr>) = drained e t"
  "drained e (t\<lparr>anomalies := r\<rparr>) = drained e t"
  "drained e (t\<lparr>surface_recovery_attempts := r\<rparr>) = drained e t"
  "drained e (t\<lparr>surface_recovery_exhausted := v\<rparr>) = drained e t"
  "drained e (t\<lparr>surface_recovery_due := d\<rparr>) = drained e t"
  by (simp_all add: drained_def split: option.split)

lemma drained_stages:
  "x \<le> last_watchdog_episodes (drain_watchdog (Some x) t)"
  "highest q \<le> consumed_log_write_failures (drain_storage q t)"
  "p \<le> consumed_dispatch_panics (drain_panics p t)"
  by (auto simp: drain_watchdog_def drain_storage_def drain_panics_def split: option.split)

lemma drained_drain: "drained e (drain_anomaly_producers e t)"
  using drained_stages by (auto simp: drained_def drain_anomaly_producers_def split: option.split)

lemma drain_drained: "drained e t \<Longrightarrow> drain_anomaly_producers e t = t"
  by (auto simp: drained_def drain_anomaly_producers_def drain_pending_def drain_watchdog_def
      drain_storage_def drain_panics_def not_less [symmetric] split: option.split)

lemma drain_idem [simp]:
  "drain_anomaly_producers e (drain_anomaly_producers e t) = drain_anomaly_producers e t"
  by (rule drain_drained [OF drained_drain])

lemma drain_native [simp]:
  "drain_anomaly_producers (e\<lparr>native_calls := k\<rparr>) t = drain_anomaly_producers e t"
  by (simp add: drain_anomaly_producers_def)

lemma drain_update [simp]:
  "drain_anomaly_producers e (t\<lparr>op_tier := x\<rparr>) = (drain_anomaly_producers e t)\<lparr>op_tier := x\<rparr>"
  "drain_anomaly_producers e (t\<lparr>rejections_seen := r\<rparr>) = (drain_anomaly_producers e t)\<lparr>rejections_seen := r\<rparr>"
proof -
  have "drain_pending (t\<lparr>op_tier := x\<rparr>) = (drain_pending t)\<lparr>op_tier := x\<rparr>"
    "drain_watchdog w (t\<lparr>op_tier := x\<rparr>) = (drain_watchdog w t)\<lparr>op_tier := x\<rparr>"
    "drain_storage q (t\<lparr>op_tier := x\<rparr>) = (drain_storage q t)\<lparr>op_tier := x\<rparr>"
    "drain_panics p (t\<lparr>op_tier := x\<rparr>) = (drain_panics p t)\<lparr>op_tier := x\<rparr>"
    "drain_pending (t\<lparr>rejections_seen := r\<rparr>) = (drain_pending t)\<lparr>rejections_seen := r\<rparr>"
    "drain_watchdog w (t\<lparr>rejections_seen := r\<rparr>) = (drain_watchdog w t)\<lparr>rejections_seen := r\<rparr>"
    "drain_storage q (t\<lparr>rejections_seen := r\<rparr>) = (drain_storage q t)\<lparr>rejections_seen := r\<rparr>"
    "drain_panics p (t\<lparr>rejections_seen := r\<rparr>) = (drain_panics p t)\<lparr>rejections_seen := r\<rparr>" for t w q p
    by (simp_all add: drain_pending_def drain_watchdog_def drain_storage_def drain_panics_def
        split: option.split)
  then show "drain_anomaly_producers e (t\<lparr>op_tier := x\<rparr>) = (drain_anomaly_producers e t)\<lparr>op_tier := x\<rparr>"
    "drain_anomaly_producers e (t\<lparr>rejections_seen := r\<rparr>) = (drain_anomaly_producers e t)\<lparr>rejections_seen := r\<rparr>"
    by (simp_all add: drain_anomaly_producers_def)
qed

section \<open>The restorative release recurses\<close>

lemma storm_transition:
  "storm a \<Longrightarrow> fst (tier_step a) = EnterQuiescent"
  by (simp add: storm_def anomalies_seen_def tier_step_def Let_def evaluate_tier_def tier_context_of_def)

lemma storm_kept:
  "storm a \<Longrightarrow> storm (snd (tier_step a)) \<and> controller (snd (tier_step a)) = controller a
     \<and> handoff (snd (tier_step a)) = handoff a"
  using storm_transition [of a]
  by (simp add: tier_step_def Let_def apply_transition_def) (simp add: storm_def anomalies_seen_def)

lemma engine_storm:
  "storm a \<Longrightarrow> app_ownership a = Owned \<Longrightarrow> handoff a = None \<Longrightarrow>
     engine P n CallPublish a = None \<and> engine P n CallRefreshTier a = None
     \<and> engine P n (CallGuardedRelease st) a = None"
proof (induction n arbitrary: a st)
  case (Suc n)
  have release: "engine P (Suc n) (CallGuardedRelease st) a = None"
    using Suc(1) [of "a\<lparr>external_timing := False, running_since := None, app_status := releasing_status a\<rparr>"]
      Suc(2-4)
    by (simp add: guarded_release_body_def storm_def anomalies_seen_def)
  have "engine P (Suc n) CallRefreshTier a = None"
    using Suc(1) [of "snd (tier_step a)" TsStopped] Suc(2-4) storm_kept [OF Suc(2)]
      storm_transition [OF Suc(2)]
    by (simp add: refresh_operating_tier_body_def split_beta)
  moreover have "engine P n CallRefreshTier b = None" if "storm b" "app_ownership b = Owned" "handoff b = None" for b
    using Suc(1) that by blast
  then have "engine P (Suc n) CallPublish a = None"
    using Suc(2-4)
    by (simp add: publish_body_def publish_mirrors_def Let_def storm_def anomalies_seen_def)
  ultimately show ?case
    using release by blast
qed simp

section \<open>Below three anomalies\<close>

lemma storm_update [simp]:
  "storm (a\<lparr>controller := c\<rparr>) = storm a"
  "storm (a\<lparr>app_status := st\<rparr>) = storm a"
  "storm (a\<lparr>last_block_reason := r\<rparr>) = storm a"
  "storm (a\<lparr>tray_icon := i\<rparr>) = storm a"
  "storm (a\<lparr>timing := t\<rparr>) = storm a"
  "storm (a\<lparr>timing_snapshot_valid := v\<rparr>) = storm a"
  "storm (a\<lparr>app_invalid_interval := v\<rparr>) = storm a"
  "storm (a\<lparr>external_timing := v\<rparr>) = storm a"
  "storm (a\<lparr>desired := q\<rparr>) = storm a"
  "storm (a\<lparr>handoff := h\<rparr>) = storm a"
  "storm (a\<lparr>pause := p\<rparr>) = storm a"
  "storm (a\<lparr>duration_timer := d\<rparr>) = storm a"
  "storm (a\<lparr>schedule_display_timer_active := v\<rparr>) = storm a"
  "storm (a\<lparr>running_since := s\<rparr>) = storm a"
  "storm (a\<lparr>pending_resume_on_ac := v\<rparr>) = storm a"
  "storm (a\<lparr>last_publication := l\<rparr>) = storm a"
  "storm (a\<lparr>mirror := m\<rparr>) = storm a"
  "storm (count_native a) = storm a"
  "storm (count_rejection a) = storm a"
  by (simp_all add: storm_def anomalies_seen_def count_native_def count_rejection_def)

lemma count_native_fields [simp]:
  "controller (count_native a) = controller a"
  "power_now (count_native a) = power_now a"
  "config (count_native a) = config a"
  "app_status (count_native a) = app_status a"
  "last_block_reason (count_native a) = last_block_reason a"
  "tiering (count_native a) = tiering a"
  "tray_icon (count_native a) = tray_icon a"
  "timing (count_native a) = timing a"
  "timing_snapshot_valid (count_native a) = timing_snapshot_valid a"
  "app_invalid_interval (count_native a) = app_invalid_interval a"
  "external_timing (count_native a) = external_timing a"
  "desired (count_native a) = desired a"
  "handoff (count_native a) = handoff a"
  "pause (count_native a) = pause a"
  "duration_timer (count_native a) = duration_timer a"
  "schedule_display_timer_active (count_native a) = schedule_display_timer_active a"
  "running_since (count_native a) = running_since a"
  "pending_resume_on_ac (count_native a) = pending_resume_on_ac a"
  "last_publication (count_native a) = last_publication a"
  "responsiveness_degraded (count_native a) = responsiveness_degraded a"
  "mirror (count_native a) = mirror a"
  by (simp_all add: count_native_def)

lemma count_rejection_fields [simp]:
  "controller (count_rejection a) = controller a"
  "power_now (count_rejection a) = power_now a"
  "config (count_rejection a) = config a"
  "app_status (count_rejection a) = app_status a"
  "last_block_reason (count_rejection a) = last_block_reason a"
  "tray_icon (count_rejection a) = tray_icon a"
  "timing (count_rejection a) = timing a"
  "timing_snapshot_valid (count_rejection a) = timing_snapshot_valid a"
  "app_invalid_interval (count_rejection a) = app_invalid_interval a"
  "external_timing (count_rejection a) = external_timing a"
  "desired (count_rejection a) = desired a"
  "handoff (count_rejection a) = handoff a"
  "pause (count_rejection a) = pause a"
  "env (count_rejection a) = env a"
  by (simp_all add: count_rejection_def)

lemma clamp_keeps [simp]:
  "ownership (clamp_requested_interval_floor f c) = ownership c"
  "platform (clamp_requested_interval_floor f c) = platform c"
  "verification (clamp_requested_interval_floor f c) = verification c"
  by (simp_all add: clamp_requested_interval_floor_def Let_def)

lemma apply_transition_fields [simp]:
  "power_now (apply_transition tr a) = power_now a"
  "config (apply_transition tr a) = config a"
  "app_status (apply_transition tr a) = app_status a"
  "last_block_reason (apply_transition tr a) = last_block_reason a"
  "tray_icon (apply_transition tr a) = tray_icon a"
  "timing (apply_transition tr a) = timing a"
  "timing_snapshot_valid (apply_transition tr a) = timing_snapshot_valid a"
  "app_invalid_interval (apply_transition tr a) = app_invalid_interval a"
  "external_timing (apply_transition tr a) = external_timing a"
  "desired (apply_transition tr a) = desired a"
  "handoff (apply_transition tr a) = handoff a"
  "pause (apply_transition tr a) = pause a"
  "duration_timer (apply_transition tr a) = duration_timer a"
  "schedule_display_timer_active (apply_transition tr a) = schedule_display_timer_active a"
  "running_since (apply_transition tr a) = running_since a"
  "pending_resume_on_ac (apply_transition tr a) = pending_resume_on_ac a"
  "last_publication (apply_transition tr a) = last_publication a"
  "responsiveness_degraded (apply_transition tr a) = responsiveness_degraded a"
  "mirror (apply_transition tr a) = mirror a"
  "env (apply_transition tr a) = env a"
  "ownership (controller (apply_transition tr a)) = ownership (controller a)"
  "platform (controller (apply_transition tr a)) = platform (controller a)"
  "verification (controller (apply_transition tr a)) = verification (controller a)"
  by (simp_all add: apply_transition_def split: tier_transition.split)

text \<open>What a tier evaluation and a publication leave as it is.\<close>

definition same_engine :: "'p app \<Rightarrow> 'p app \<Rightarrow> bool" where
  "same_engine a b \<longleftrightarrow> ownership (controller b) = ownership (controller a)
     \<and> platform (controller b) = platform (controller a)
     \<and> verification (controller b) = verification (controller a)
     \<and> power_now b = power_now a \<and> config b = config a \<and> handoff b = handoff a \<and> pause b = pause a
     \<and> desired b = desired a \<and> pending_resume_on_ac b = pending_resume_on_ac a
     \<and> last_block_reason b = last_block_reason a \<and> timing b = timing a
     \<and> timing_snapshot_valid b = timing_snapshot_valid a \<and> (storm b \<longleftrightarrow> storm a)"

lemma same_engine_refl [simp]: "same_engine a a"
  by (simp add: same_engine_def)

lemma same_engine_trans: "same_engine a b \<Longrightarrow> same_engine b c \<Longrightarrow> same_engine a c"
  by (simp add: same_engine_def)

lemma same_engine_update [simp]:
  "same_engine a (b\<lparr>app_status := st\<rparr>) = same_engine a b"
  "same_engine a (b\<lparr>tray_icon := i\<rparr>) = same_engine a b"
  "same_engine a (b\<lparr>running_since := s\<rparr>) = same_engine a b"
  "same_engine a (b\<lparr>last_publication := k\<rparr>) = same_engine a b"
  "same_engine a (b\<lparr>mirror := m\<rparr>) = same_engine a b"
  "same_engine a (count_native b) = same_engine a b"
  by (simp_all add: same_engine_def)

lemma same_engine_tier_step: "same_engine a (snd (tier_step a))"
proof -
  define t where "t = drain_anomaly_producers (env a) (tiering a)"
  have d: "drained (env a) t"
    by (simp add: t_def drained_drain)
  define tr where "tr = evaluate_tier (op_tier t) (tier_context_of (tray_icon a) t)"
  have zero: "tr = Recover \<Longrightarrow> anomalies t = 0"
    by (auto simp: tr_def evaluate_tier_def tier_context_of_def split: if_splits)
  have "storm (apply_transition tr (a\<lparr>tiering := t\<rparr>)) \<longleftrightarrow> MAX_ANOMALIES_BEFORE_QUIESCENT \<le> anomalies t"
  proof (cases tr)
    case EnterSurfaceDegraded
    then show ?thesis
      using d by (simp add: storm_def anomalies_seen_def apply_transition_def drain_drained)
  next
    case Recover
    have "drained (env a) (t\<lparr>
        last_watchdog_episodes := (case watchdog_episodes (env a) of None \<Rightarrow> 0 | Some e \<Rightarrow> e),
        consumed_log_write_failures := highest (storage_failures (env a)),
        consumed_dispatch_panics := dispatch_panics (env a)\<rparr>)"
      using d by (simp add: drained_def split: option.splits)
    then have "drained (env a) (tiering (apply_transition tr (a\<lparr>tiering := t\<rparr>)))"
      using Recover by (simp add: apply_transition_def drained_def split: option.splits)
    then show ?thesis
      using Recover zero by (simp add: storm_def anomalies_seen_def drain_drained apply_transition_def)
  qed (use d in \<open>simp_all add: storm_def anomalies_seen_def apply_transition_def drain_drained\<close>)
  then show ?thesis
    by (auto simp: same_engine_def tier_step_def Let_def t_def [symmetric] tr_def [symmetric]
        storm_def [of a] anomalies_seen_def [of a])
qed

lemma refresh_tier_returns:
  "\<not> storm a \<Longrightarrow> engine P (Suc n) CallRefreshTier a = Some (True, snd (tier_step a))"
  by (auto simp: refresh_operating_tier_body_def storm_def anomalies_seen_def tier_step_def Let_def
      evaluate_tier_def tier_context_of_def)

text \<open>The result of a publication that does not release.\<close>

definition published :: "'p app \<Rightarrow> 'p app" where
  "published a = snd (the (publish_body (\<lambda>c b. Some (True, snd (tier_step b))) a))"

lemma same_engine_storm: "same_engine a b \<Longrightarrow> storm b = storm a"
  by (simp add: same_engine_def)

lemma publish_mirrors_same [simp]: "same_engine a (publish_mirrors b) = same_engine a b"
  by (simp add: publish_mirrors_def Let_def)

lemma refresh_ipc_same [simp]: "same_engine a (refresh_ipc_status b) = same_engine a b"
  by (simp add: refresh_ipc_status_def Let_def)

lemma publish_body_result:
  "\<exists>b. publish_body (\<lambda>c b. Some (True, snd (tier_step b))) a = Some (True, b) \<and> same_engine a b"
proof -
  have step: "same_engine a b \<Longrightarrow> same_engine a (snd (tier_step b))" for b
    using same_engine_tier_step same_engine_trans by blast
  show ?thesis
    by (auto simp: publish_body_def Let_def native_call_def intro!: step)
qed

lemma publish_body_cong:
  assumes "\<And>b. same_engine a b \<Longrightarrow> call CallRefreshTier b = Some (True, snd (tier_step b))"
  shows "publish_body call a = publish_body (\<lambda>c b. Some (True, snd (tier_step b))) a"
proof -
  have step: "same_engine a b \<Longrightarrow> same_engine a (snd (tier_step b))" for b
    using same_engine_tier_step same_engine_trans by blast
  show ?thesis
    by (simp add: publish_body_def Let_def native_call_def assms step)
qed

lemma publish_returns:
  assumes "\<not> storm a" shows "engine P (Suc (Suc n)) CallPublish a = Some (True, published a)"
proof -
  have "engine P (Suc n) CallRefreshTier b = Some (True, snd (tier_step b))" if "same_engine a b" for b
    using assms same_engine_storm [OF that] by (intro refresh_tier_returns) simp
  then have "publish_body (engine P (Suc n)) a = publish_body (\<lambda>c b. Some (True, snd (tier_step b))) a"
    by (rule publish_body_cong)
  then show ?thesis
    using publish_body_result [of a] by (auto simp: published_def)
qed

lemma published_same: "same_engine a (published a)"
  using publish_body_result [of a] by (auto simp: published_def)

lemma published_fields [simp]:
  "ownership (controller (published a)) = ownership (controller a)"
  "platform (controller (published a)) = platform (controller a)"
  "verification (controller (published a)) = verification (controller a)"
  "power_now (published a) = power_now a" "config (published a) = config a"
  "handoff (published a) = handoff a" "pause (published a) = pause a" "desired (published a) = desired a"
  "pending_resume_on_ac (published a) = pending_resume_on_ac a"
  "last_block_reason (published a) = last_block_reason a" "timing (published a) = timing a"
  "timing_snapshot_valid (published a) = timing_snapshot_valid a" "storm (published a) = storm a"
  using published_same [of a] by (simp_all add: same_engine_def)

lemma published_status_shown [simp]: "app_status (published a) = app_lifecycle_status a"
  by (auto simp: published_def publish_body_def Let_def native_call_def tier_step_def
      refresh_ipc_status_def publish_mirrors_def app_lifecycle_status_def)

section \<open>More fuel never changes a result\<close>

definition below :: "'a option \<Rightarrow> 'a option \<Rightarrow> bool" where
  "below m m' \<longleftrightarrow> m = None \<or> m' = m"

lemma below_refl: "below m m"
  by (simp add: below_def)

lemma below_bind: "below m m' \<Longrightarrow> (\<And>x. below (k x) (k' x)) \<Longrightarrow> below (m \<bind> k) (m' \<bind> k')"
  by (cases m) (auto simp: below_def)

lemma below_if: "below m m' \<Longrightarrow> below k k' \<Longrightarrow> below (if b then m else k) (if b then m' else k')"
  by simp

lemma below_prod:
  "(\<And>x y. below (k x y) (k' x y)) \<Longrightarrow> below (case p of (x, y) \<Rightarrow> k x y) (case p of (x, y) \<Rightarrow> k' x y)"
  by (cases p) simp

lemma below_option:
  "below m m' \<Longrightarrow> (\<And>x. below (k x) (k' x)) \<Longrightarrow>
   below (case p of None \<Rightarrow> m | Some x \<Rightarrow> k x) (case p of None \<Rightarrow> m' | Some x \<Rightarrow> k' x)"
  by (cases p) simp_all

lemma below_sum:
  "(\<And>x. below (m x) (m' x)) \<Longrightarrow> (\<And>x. below (k x) (k' x)) \<Longrightarrow>
   below (case p of Inl x \<Rightarrow> m x | Inr x \<Rightarrow> k x) (case p of Inl x \<Rightarrow> m' x | Inr x \<Rightarrow> k' x)"
  by (cases p) simp_all

lemma below_intent:
  "below m m' \<Longrightarrow> below k k' \<Longrightarrow>
   below (case p of Acquire \<Rightarrow> m | Release \<Rightarrow> k) (case p of Acquire \<Rightarrow> m' | Release \<Rightarrow> k')"
  by (cases p) simp_all

lemmas below_intros = below_bind below_if below_prod below_option below_sum below_intent

definition extends :: "'p calls \<Rightarrow> 'p calls \<Rightarrow> bool" where
  "extends f g \<longleftrightarrow> (\<forall>c a. below (f c a) (g c a))"

lemma below_call: "extends f g \<Longrightarrow> below (f c a) (g c a)"
  by (simp add: extends_def)

lemma bodies_below:
  assumes "extends f g"
  shows "below (publish_body f a) (publish_body g a)"
    "below (refresh_operating_tier_body f a) (refresh_operating_tier_body g a)"
    "below (guarded_release_body P f st a) (guarded_release_body P g st a)"
    "below (begin_handoff_body f b st a) (begin_handoff_body g b st a)"
    "below (process_desired_intent_body f a) (process_desired_intent_body g a)"
    "below (acquire_timer_body P f a) (acquire_timer_body P g a)"
    "below (release_for_policy_body f r a) (release_for_policy_body g r a)"
    "below (queue_intent_body f i a) (queue_intent_body g i a)"
    "below (show_ownership_status_body f st a) (show_ownership_status_body g st a)"
    "below (arm_duration_timer_body f a) (arm_duration_timer_body g a)"
  unfolding publish_body_def refresh_operating_tier_body_def guarded_release_body_def
    begin_handoff_body_def process_desired_intent_body_def acquire_timer_body_def
    release_for_policy_body_def queue_intent_body_def show_ownership_status_body_def
    arm_duration_timer_body_def Let_def
  by (intro below_intros below_call [OF assms] below_refl)+

lemma engine_extends: "extends (engine P n) (engine P (Suc n))"
proof (induction n)
  case (Suc n)
  show ?case
    unfolding extends_def
  proof (intro allI)
    fix c a
    show "below (engine P (Suc n) c a) (engine P (Suc (Suc n)) c a)"
      using bodies_below [OF Suc.IH] by (cases c) simp_all
  qed
qed (simp add: extends_def below_def)

lemma engine_mono:
  assumes "engine P n c a = Some r" and "n \<le> m" shows "engine P m c a = Some r"
  using assms(2,1)
proof (induction rule: dec_induct)
  case (step k)
  then show ?case
    using below_call [OF engine_extends, of P k c a] by (simp add: below_def)
qed simp

section \<open>Every operation returns\<close>

text \<open>What the operations below guarantee to their callers besides returning: no anomaly appears, and the
  handoff, the pending intent and the ownership are as stated.\<close>

definition keeps :: "'p app \<Rightarrow> 'p app \<Rightarrow> bool" where
  "keeps a b \<longleftrightarrow> \<not> storm b \<and> handoff b = handoff a \<and> desired b = desired a
     \<and> ownership (controller b) = ownership (controller a)"

lemma keeps_published: "\<not> storm a \<Longrightarrow> keeps a (published a)"
  by (simp add: keeps_def)

lemma show_returns:
  "\<not> storm a \<Longrightarrow> \<exists>b. engine P (Suc (Suc (Suc n))) (CallShowOwnership st) a = Some (True, b) \<and> keeps a b"
  by (simp add: show_ownership_status_body_def publish_returns keeps_def del: engine.simps(2))

lemma arm_returns:
  "\<not> storm a \<Longrightarrow> \<exists>r b. engine P (Suc (Suc (Suc n))) CallArmDuration a = Some (r, b) \<and> keeps a b"
  by (simp add: arm_duration_timer_body_def native_call_def publish_returns keeps_def ex_bool_eq
      kill_schedule_display_timer_def del: engine.simps(2))

lemma process_none_returns:
  "\<not> storm a \<Longrightarrow> pending (desired a) = None \<Longrightarrow>
   \<exists>r b. engine P (Suc (Suc (Suc n))) CallProcessIntent a = Some (r, b) \<and> keeps a b"
  by (auto simp add: process_desired_intent_body_def publish_returns keeps_def intent_take_def
      releasing_status_def simp del: engine.simps(2) intro!: exI)

lemma acquire_returns:
  assumes "\<not> storm a" and "pending (desired a) = None"
  shows "\<exists>r b. engine P (Suc (Suc (Suc (Suc n)))) CallAcquire a = Some (r, b) \<and> \<not> storm b
     \<and> handoff b = handoff a \<and> desired b = desired a"
proof -
  obtain b where b: "engine P (Suc (Suc (Suc n))) (CallShowOwnership TsStopped) a = Some (True, b)" "keeps a b"
    using show_returns [OF assms(1)] by blast
  obtain r c where rc: "ctl_start P (controller (published (a\<lparr>app_status := TsStarting\<rparr>))) = (r, c)"
    by fastforce
  show ?thesis
    using assms b rc
    by (cases r; cases "projl r")
      (auto simp add: acquire_timer_body_def publish_returns keeps_def sync_timing_snapshot_def Let_def
        simp del: engine.simps(2,10))
qed

lemma engine_lift:
  "engine P n c a = Some r \<Longrightarrow> engine P (Suc n) c a = Some r"
  by (erule engine_mono) simp

abbreviation fuel3 :: "nat \<Rightarrow> nat" where "fuel3 n \<equiv> Suc (Suc (Suc n))"

text \<open>A pending intent is served at once when nothing is held and no handoff runs.\<close>

lemma process_released_returns:
  assumes "\<not> storm a" and "handoff a = None" and "ownership (controller a) = OwnReleased"
  shows "\<exists>r b. engine P (fuel3 (Suc (Suc n))) CallProcessIntent a = Some (r, b) \<and> \<not> storm b
     \<and> handoff b = None"
proof -
  define q where "q = (desired a)\<lparr>pending := None\<rparr>"
  obtain r b where acq: "engine P (fuel3 (Suc n)) CallAcquire (a\<lparr>desired := q\<rparr>) = Some (r, b)"
      "\<not> storm b" "handoff b = None"
    using acquire_returns [of "a\<lparr>desired := q\<rparr>" P n] assms by (auto simp: q_def)
  have pub: "engine P (fuel3 (Suc n)) (CallReleaseForPolicy rs) (a\<lparr>desired := q\<rparr>) = Some (True, published
      (a\<lparr>desired := q, last_block_reason := Some rs, app_status := TsBlocked\<rparr>))
    \<or> engine P (fuel3 (Suc n)) (CallReleaseForPolicy rs) (a\<lparr>desired := q\<rparr>) = Some (True, published
      (a\<lparr>desired := q, last_block_reason := None, app_status := TsStopped\<rparr>))" for rs
    using assms by (cases rs) (simp_all add: release_for_policy_body_def publish_returns del: engine.simps(2))
  have arm: "\<exists>r c. engine P (fuel3 (Suc n)) CallArmDuration (published (a\<lparr>desired := q, app_status := st\<rparr>))
      = Some (r, c) \<and> \<not> storm c \<and> handoff c = None" for st
    using arm_returns [of "published (a\<lparr>desired := q, app_status := st\<rparr>)" P "Suc n"] assms
    by (auto simp: keeps_def)
  show ?thesis
  proof (cases "pending (desired a)")
    case None
    then show ?thesis
      using process_none_returns [of a P "Suc (Suc n)"] assms by (auto simp: keeps_def)
  next
    case (Some i)
    show ?thesis
    proof (cases i)
      case Acquire
      let ?d = "decide (eligible_input (power_now a) (battery_lockout (config a)))"
      show ?thesis
        using assms Some Acquire acq pub [of "decision_reason ?d"] arm [of TsPaused]
        by (auto simp: process_desired_intent_body_def intent_take_def q_def [symmetric] publish_returns
            Let_def simp del: engine.simps(2,7,8,11))
    next
      case Release
      then show ?thesis
        using assms Some arm [of TsPaused] arm [of TsStopped]
        by (auto simp: process_desired_intent_body_def intent_take_def q_def [symmetric] publish_returns
            intent_request_def Let_def simp del: engine.simps(2,11))
    qed
  qed
qed

lemma handoff_returns:
  assumes "\<not> storm a" and "handoff a = None" and "ownership (controller a) = OwnReleased"
  shows "\<exists>r b. engine P (fuel3 (Suc (Suc (Suc n)))) (CallBeginHandoff bd st) a = Some (r, b) \<and> \<not> storm b"
proof -
  have unavailable: "\<exists>r b c d. engine P (fuel3 (Suc (Suc n))) CallProcessIntent (published x) = Some (r, b)
      \<and> \<not> storm b \<and> engine P (fuel3 (Suc (Suc n))) CallArmDuration b = Some (c, d) \<and> \<not> storm d"
    if x: "\<not> storm x" "handoff x = None" "ownership (controller x) = OwnReleased" for x
  proof -
    obtain r b where b: "engine P (fuel3 (Suc (Suc n))) CallProcessIntent (published x) = Some (r, b)" "\<not> storm b"
      using process_released_returns [of "published x" P n] x by auto
    then show ?thesis
      using arm_returns [of b P "Suc (Suc n)"] by (auto simp: keeps_def)
  qed
  define x where "x y = (sync_timing_snapshot (y\<lparr>external_timing := True,
        controller := clear_release_boundary (controller y)\<rparr>))
      \<lparr>app_status := (if st = TsPaused then TsUnverified else TsStopped)\<rparr>" for y :: "'a app"
  have x: "\<not> storm (x y)" "handoff (x y) = None" "ownership (controller (x y)) = OwnReleased"
    if "\<not> storm y" "handoff y = None" "ownership (controller y) = OwnReleased" for y
    using that by (simp_all add: x_def sync_timing_snapshot_def clear_release_boundary_def
        set_snap_selected_def)
  let ?c = "cancel_duration_timer a"
  have c: "\<not> storm ?c" "handoff ?c = None" "ownership (controller ?c) = OwnReleased"
    using assms by (simp_all add: cancel_duration_timer_def)
  show ?thesis
    using unavailable [OF x [OF c]] unavailable [OF x [of "count_native ?c"]] x [OF c]
      x [of "count_native ?c"] c
    by (auto simp: begin_handoff_body_def native_call_def publish_returns x_def [symmetric] Let_def
        simp del: engine.simps(2,6,11))
qed

lemma stop_released: "ctl_stop P c = (Inr ch, c') \<Longrightarrow> ownership c' = OwnReleased"
  by (auto simp: ctl_stop_def on_platform_eq ctl_parts
      split: option.splits sum.splits prod.splits ownership_state.splits if_splits)

lemma publish_then_arm:
  assumes "\<not> storm a"
  shows "\<exists>r b. do {
      (_, b1) \<leftarrow> engine P (fuel3 n) CallPublish a;
      (_, b2) \<leftarrow> (if pause_active (pause b1) then engine P (fuel3 n) CallArmDuration b1 else Some (True, b1));
      Some (True, b2) } = Some (r, b) \<and> \<not> storm b"
proof -
  obtain r b where "engine P (fuel3 n) CallArmDuration (published a) = Some (r, b)" "\<not> storm b"
    using arm_returns [of "published a" P n] assms unfolding keeps_def by auto
  then show ?thesis
    using publish_returns [OF assms, of P "Suc n"] assms by (simp add: ex_bool_eq del: engine.simps)
qed

lemma release_returns:
  assumes "\<not> storm a"
  shows "\<exists>r b. engine P (fuel3 (Suc (Suc (Suc (Suc n))))) (CallGuardedRelease st) a = Some (r, b) \<and> \<not> storm b"
proof (cases "handoff a")
  case (Some h)
  then show ?thesis
    using assms by (simp add: guarded_release_body_def ex_bool_eq)
next
  case None
  define a1 where "a1 = published
    (a\<lparr>external_timing := False, running_since := None, app_status := releasing_status a\<rparr>)"
  have a1: "\<not> storm a1" "handoff a1 = None"
    using assms None by (simp_all add: a1_def)
  obtain r c where stop: "ctl_stop P (controller a1) = (r, c)"
    by fastforce
  let ?n = "fuel3 (Suc (Suc (Suc n)))"
  have start: "engine P ?n CallPublish
      (a\<lparr>external_timing := False, running_since := None, app_status := releasing_status a\<rparr>) = Some (True, a1)"
    unfolding a1_def by (rule publish_returns) (simp add: assms)
  show ?thesis
  proof (cases r)
    case (Inl e)
    have "\<not> storm ((sync_timing_snapshot (a1\<lparr>controller := c\<rparr>))
        \<lparr>timing_snapshot_valid := False, running_since := None, app_status := TsUnverified\<rparr>)"
      using a1 by (simp add: sync_timing_snapshot_def)
    then show ?thesis
      using None start stop Inl
      by (simp add: guarded_release_body_def publish_returns ex_bool_eq del: engine.simps(2))
  next
    case (Inr changed)
    define a2 where "a2 = (sync_timing_snapshot (a1\<lparr>controller := c\<rparr>))\<lparr>timing_snapshot_valid := True\<rparr>"
    have a2: "\<not> storm a2" "handoff a2 = None" "ownership (controller a2) = OwnReleased"
      using a1 stop_released stop Inr by (simp_all add: a2_def sync_timing_snapshot_def)
    define finish where "finish x = do {
        (_, b1) \<leftarrow> engine P ?n CallPublish
          ((sync_timing_snapshot (x\<lparr>controller := clear_release_boundary (controller x)\<rparr>))
             \<lparr>timing_snapshot_valid := True, app_status := st\<rparr>);
        (_, b2) \<leftarrow> (if pause_active (pause b1) then engine P ?n CallArmDuration b1 else Some (True, b1));
        Some (True, b2) }" for x
    have finish_ok: "\<exists>r b. finish x = Some (r, b) \<and> \<not> storm b" if "\<not> storm x" for x
      unfolding finish_def by (rule publish_then_arm) (use that in \<open>simp add: sync_timing_snapshot_def\<close>)
    have eq: "engine P (Suc ?n) (CallGuardedRelease st) a =
      (case snap_requested (timing a2) of
         None \<Rightarrow> finish a2
       | Some bd \<Rightarrow>
           if changed \<and> release_needs_handoff bd (snap_effective (timing a2))
           then do {
             (started, a3) \<leftarrow> engine P ?n (CallBeginHandoff bd
               (if pause_active (pause a2) then TsPaused else TsStopped)) a2;
             if started then Some (True, a3) else finish a3 }
           else finish a2)"
      using None start stop Inr
      by (simp add: guarded_release_body_def finish_def a2_def Let_def del: engine.simps(2,5,11)
          cong: option.case_cong if_cong split del: if_split)
    show ?thesis
    proof (cases "\<exists>bd. snap_requested (timing a2) = Some bd
        \<and> changed \<and> release_needs_handoff bd (snap_effective (timing a2))")
      case True
      then obtain bd where bd: "snap_requested (timing a2) = Some bd" "changed"
          "release_needs_handoff bd (snap_effective (timing a2))"
        by blast
      obtain started b where "engine P ?n (CallBeginHandoff bd
          (if pause_active (pause a2) then TsPaused else TsStopped)) a2 = Some (started, b)" "\<not> storm b"
        using handoff_returns [OF a2] by blast
      then show ?thesis
        using eq bd finish_ok [of b] by (cases started) (simp_all add: ex_bool_eq del: engine.simps)
    next
      case False
      then have "engine P (Suc ?n) (CallGuardedRelease st) a = finish a2"
        unfolding eq by (auto split: option.split simp del: engine.simps)
      then show ?thesis
        using finish_ok [OF a2(1)] by (simp del: engine.simps)
    qed
  qed
qed

lemma policy_returns:
  assumes "\<not> storm a"
  shows "\<exists>r b. engine P (fuel3 (Suc (Suc (Suc (Suc (Suc n)))))) (CallReleaseForPolicy rs) a = Some (r, b)
    \<and> \<not> storm b"
proof -
  have release: "\<exists>r b. engine P (fuel3 (Suc (Suc (Suc (Suc n))))) (CallGuardedRelease st) x = Some (r, b)
      \<and> \<not> storm b" if "\<not> storm x" for st x
    using release_returns [OF that] .
  have queue: "\<exists>r b. engine P (fuel3 (Suc (Suc (Suc (Suc n))))) (CallQueueIntent Release) a = Some (r, b)
      \<and> \<not> storm b" if "handoff a = Some h" for h
    using assms that
    by (simp add: queue_intent_body_def releasing_status_def publish_returns Let_def ex_bool_eq
        del: engine.simps(2))
  show ?thesis
    using assms queue release [of "a\<lparr>pending_resume_on_ac := True, last_block_reason := Some rs\<rparr>" TsBlocked]
      release [of "a\<lparr>last_block_reason := Some rs\<rparr>" TsBlocked]
      release [of "a\<lparr>last_block_reason := None\<rparr>" TsStopped]
    by (cases "handoff a"; cases rs; cases "app_ownership a")
      (auto simp add: release_for_policy_body_def publish_returns Let_def simp del: engine.simps(2,4,9))
qed

lemma process_held_returns:
  assumes "\<not> storm a" and "handoff a = None" and "pending (desired a) \<noteq> None"
    and "ownership (controller a) \<noteq> OwnReleased"
  shows "\<exists>r b. engine P (fuel3 (Suc (Suc (Suc (Suc (Suc (Suc n))))))) CallProcessIntent a = Some (r, b)
    \<and> \<not> storm b"
proof -
  obtain i where i: "pending (desired a) = Some i"
    using assms(3) by blast
  define q where "q = (desired a)\<lparr>pending := None\<rparr>"
  let ?n = "fuel3 (Suc (Suc (Suc (Suc (Suc n)))))"
  have nstorm: "\<not> storm (a\<lparr>desired := q\<rparr>)"
    using assms by simp
  have acq: "\<exists>r b. engine P ?n CallAcquire (a\<lparr>desired := q\<rparr>) = Some (r, b) \<and> \<not> storm b"
    using acquire_returns [of "a\<lparr>desired := q\<rparr>" P "Suc (Suc (Suc (Suc n)))"] assms by (auto simp: q_def)
  have rel: "\<exists>r b. engine P ?n (CallGuardedRelease st) (a\<lparr>desired := q\<rparr>) = Some (r, b) \<and> \<not> storm b" for st
    using release_returns [OF nstorm] by blast
  have pol: "\<exists>r b. engine P ?n (CallReleaseForPolicy rs) (a\<lparr>desired := q\<rparr>) = Some (r, b) \<and> \<not> storm b" for rs
    using policy_returns [OF nstorm] by blast
  show ?thesis
  proof (cases i)
    case Acquire
    then show ?thesis
      using i assms acq pol [of "decision_reason (decide (eligible_input (power_now a)
        (battery_lockout (config a))))"]
      by (auto simp add: process_desired_intent_body_def intent_take_def q_def [symmetric] Let_def
          ex_bool_eq simp del: engine.simps(2,4,7,8,11))
  next
    case Release
    then show ?thesis
      using i assms rel [of TsPaused] rel [of TsStopped]
      by (cases "app_ownership a")
        (auto simp add: process_desired_intent_body_def intent_take_def q_def [symmetric] Let_def
          simp del: engine.simps(2,4))
  qed
qed

lemma process_returns:
  assumes "\<not> storm a"
  shows "\<exists>r b. engine P (fuel3 (Suc (Suc (Suc (Suc (Suc (Suc n))))))) CallProcessIntent a = Some (r, b)
    \<and> \<not> storm b"
proof -
  consider (busy) h where "handoff a = Some h"
    | (none) "pending (desired a) = None"
    | (free) "handoff a = None" "ownership (controller a) = OwnReleased"
    | (held) "handoff a = None" "pending (desired a) \<noteq> None" "ownership (controller a) \<noteq> OwnReleased"
    by (cases "handoff a") auto
  then show ?thesis
  proof cases
    case busy
    then show ?thesis
      using assms by (simp add: process_desired_intent_body_def publish_returns releasing_status_def
          ex_bool_eq del: engine.simps(2))
  next
    case none
    then show ?thesis
      using process_none_returns [OF assms none, of P "Suc (Suc (Suc (Suc (Suc (Suc n)))))"]
      unfolding keeps_def by blast
  next
    case free
    then show ?thesis
      using process_released_returns [OF assms free, of P "Suc (Suc (Suc (Suc n)))"] by blast
  next
    case held
    then show ?thesis
      by (rule process_held_returns [OF assms])
  qed
qed

lemma queue_returns:
  assumes "\<not> storm a"
  shows "\<exists>r b. engine P (fuel3 (fuel3 (Suc (Suc (Suc (Suc n)))))) (CallQueueIntent i) a = Some (r, b) \<and> \<not> storm b"
  using assms process_returns [of "a\<lparr>desired := intent_request i (desired a)\<rparr>" P n]
  by (cases "handoff a")
    (simp_all add: queue_intent_body_def Let_def publish_returns releasing_status_def ex_bool_eq
      del: engine.simps(2,6))

section \<open>What a queued intent may do\<close>

definition shows_running :: "tray_status \<Rightarrow> bool" where
  "shows_running st \<longleftrightarrow> st = TsRunning \<or> st = TsScheduledStop"

lemma lifecycle_running:
  "shows_running (app_lifecycle_status a) \<longleftrightarrow>
     handoff a = None \<and> (app_status a = TsRunning \<or> app_status a = TsScheduledStop)"
  by (cases "app_status a"; cases "handoff a"; cases "scheduled (pause a)")
    (auto simp: shows_running_def app_lifecycle_status_def scheduled_lifecycle_status_def
      lifecycle_status_def Let_def split: duration_action.splits)

lemma published_running:
  "shows_running (app_status (published a)) \<longleftrightarrow>
     handoff a = None \<and> (app_status a = TsRunning \<or> app_status a = TsScheduledStop)"
  by (simp add: lifecycle_running)

text \<open>A start attempted by the engine: from the released state, with the outcome shown as it is.\<close>

definition attempted :: "'p timer_platform \<Rightarrow> 'p app \<Rightarrow> 'p app \<Rightarrow> bool" where
  "attempted P a b \<longleftrightarrow> (\<exists>c r c'. ctl_start P c = (r, c') \<and> ownership c = OwnReleased
     \<and> platform c = platform (controller a) \<and> verification c = verification (controller a)
     \<and> ownership (controller b) = ownership c' \<and> verification (controller b) = verification c'
     \<and> platform (controller b) = platform c'
     \<and> (shows_running (app_status b) \<longrightarrow> r = Inr Verified \<or> r = Inr FinerThanRequested))"

lemma acquire_result:
  assumes "\<not> storm a" "pending (desired a) = None" "ownership (controller a) = OwnReleased"
    and eng: "engine P (Suc (Suc (Suc (Suc n)))) CallAcquire a = Some (r, b)"
  shows "if tier_allows_high_resolution (op_tier (tiering a)) then attempted P a b
    else same_engine a b \<and> \<not> shows_running (app_status b)"
proof (cases "tier_allows_high_resolution (op_tier (tiering a))")
  case False
  then show ?thesis
    using assms published_same [of "a\<lparr>app_status := _\<rparr>"]
    by (auto simp add: acquire_timer_body_def publish_returns lifecycle_running same_engine_def
        simp del: engine.simps(2,10) split: if_splits)
next
  case True
  define c where "c = controller (published (a\<lparr>app_status := TsStarting\<rparr>))"
  obtain s c' where start: "ctl_start P c = (s, c')"
    by fastforce
  have c: "ownership c = OwnReleased" "platform c = platform (controller a)"
      "verification c = verification (controller a)"
    using assms(3) by (simp_all add: c_def)
  have "ownership (controller b) = ownership c' \<and> verification (controller b) = verification c'
     \<and> platform (controller b) = platform c'
     \<and> (shows_running (app_status b) \<longrightarrow> s = Inr Verified \<or> s = Inr FinerThanRequested)"
    using eng True assms(1-3) start unfolding c_def
    by (cases s; cases "projl s"; cases "projr s")
      (auto simp add: acquire_timer_body_def publish_returns sync_timing_snapshot_def Let_def
        published_running simp del: engine.simps(2,10) published_status_shown)
  then show ?thesis
    using True start c by (auto simp: attempted_def)
qed

text \<open>Ownership is left alone and the tray does not claim to be running.\<close>

definition idle :: "'p app \<Rightarrow> 'p app \<Rightarrow> bool" where
  "idle a b \<longleftrightarrow> ownership (controller b) = ownership (controller a)
     \<and> platform (controller b) = platform (controller a)
     \<and> verification (controller b) = verification (controller a) \<and> \<not> shows_running (app_status b)"

lemma idle_published:
  "\<not> shows_running (app_status a) \<Longrightarrow> idle a (published a)"
  by (simp add: idle_def lifecycle_running) (simp add: shows_running_def)

lemma idle_trans: "idle a b \<Longrightarrow> idle b c \<Longrightarrow> idle a c"
  by (simp add: idle_def)

lemma idle_arm:
  assumes "\<not> storm a" "\<not> shows_running (app_status a)"
    and "engine P (fuel3 n) CallArmDuration a = Some (r, b)"
  shows "idle a b"
  using assms
  by (auto simp add: arm_duration_timer_body_def native_call_def publish_returns idle_def
      kill_schedule_display_timer_def lifecycle_running simp del: engine.simps(2) split: if_splits)

lemma idle_policy:
  assumes "\<not> storm a" "handoff a = None" "ownership (controller a) = OwnReleased"
    and "engine P (fuel3 n) (CallReleaseForPolicy rs) a = Some (r, b)"
  shows "idle a b"
  using assms
  by (cases rs)
    (auto simp add: release_for_policy_body_def publish_returns idle_def lifecycle_running
      simp del: engine.simps(2))

lemma process_gate:
  assumes "\<not> storm a" and h: "handoff a = None" and own: "ownership (controller a) = OwnReleased"
    and i: "pending (desired a) = Some i"
    and eng: "engine P (fuel3 (Suc (Suc n))) CallProcessIntent a = Some (r, b)"
  shows "idle a b \<or> i = Acquire \<and> \<not> pause_active (pause a)
     \<and> decision_status (decide (eligible_input (power_now a) (battery_lockout (config a)))) = Requested
     \<and> tier_allows_high_resolution (op_tier (tiering a)) \<and> attempted P a b"
proof -
  define q where "q = (desired a)\<lparr>pending := None\<rparr>"
  have idleI: "idle a b" if "idle (a\<lparr>desired := q, app_status := st\<rparr>) c"
      "engine P (fuel3 (Suc n)) CallArmDuration c = Some (r', b)" "\<not> storm c" for st c r'
    using idle_arm [OF that(3) _ that(2)] that(1) by (auto simp: idle_def)
  have pub: "idle (a\<lparr>desired := q, app_status := st\<rparr>) (published (a\<lparr>desired := q, app_status := st\<rparr>))"
    if "\<not> shows_running st" for st
    using that by (intro idle_published) simp
  have st: "\<not> shows_running TsPaused" "\<not> shows_running TsStopped" "\<not> shows_running TsStarting"
    by (simp_all add: shows_running_def)
  show ?thesis
  proof (cases i)
    case Release
    have "idle a b"
    proof (cases "app_status a = TsStarting")
      case True
      then show ?thesis
        using eng assms(1) h own i Release st
        by (auto simp add: process_desired_intent_body_def intent_take_def idle_def Let_def)
    next
      case False
      define x where "x = a\<lparr>desired := q, app_status :=
        (if pause_active (pause a) \<and> app_status a \<noteq> TsUnverified then TsPaused else TsStopped)\<rparr>"
      have x: "\<not> storm x" "idle x (published x)" "pause x = pause a"
        using assms(1) pub st by (auto simp: x_def)
      have "engine P (fuel3 (Suc n)) CallPublish x = Some (True, published x)"
        by (rule publish_returns [OF x(1)])
      then have "(\<exists>r. engine P (fuel3 (Suc n)) CallArmDuration (published x) = Some (r, b)) \<or> b = published x"
        using eng h own i Release False x(3)
        by (auto simp add: process_desired_intent_body_def intent_take_def q_def [symmetric] Let_def
            x_def [symmetric] simp del: engine.simps(2,11) split: if_splits bind_splits)
      then show ?thesis
        using idleI [OF x(2) [unfolded x_def]] x idle_trans [OF x(2)]
        by (auto simp: x_def idle_def)
    qed
    then show ?thesis ..
  next
    case Acquire
    let ?x = "a\<lparr>desired := q\<rparr>"
    let ?d = "decide (eligible_input (power_now a) (battery_lockout (config a)))"
    have x: "\<not> storm ?x" "pending (desired ?x) = None" "handoff ?x = None"
        "ownership (controller ?x) = OwnReleased"
      using assms(1) h own by (simp_all add: q_def)
    consider (paused) "pause_active (pause a)"
      | (acquire) "\<not> pause_active (pause a)" "decision_status ?d = Requested"
          "engine P (fuel3 (Suc n)) CallAcquire ?x = Some (r, b)"
      | (blocked) "\<not> pause_active (pause a)"
          "engine P (fuel3 (Suc n)) (CallReleaseForPolicy (decision_reason ?d)) ?x = Some (r, b)"
      using eng h i Acquire
      by (auto simp add: process_desired_intent_body_def intent_take_def q_def [symmetric] Let_def
          simp del: engine.simps(2,7,8,11) split: if_splits)
    then show ?thesis
    proof cases
      case paused
      let ?y = "a\<lparr>desired := q, app_status := TsPaused\<rparr>"
      have "engine P (fuel3 (Suc n)) CallPublish ?y = Some (True, published ?y)"
        using assms(1) by (intro publish_returns) simp
      then obtain r' where "engine P (fuel3 (Suc n)) CallArmDuration (published ?y) = Some (r', b)"
        using eng h own i Acquire paused
        by (auto simp add: process_desired_intent_body_def intent_take_def q_def [symmetric] Let_def
            simp del: engine.simps(2,11) split: bind_splits)
      then show ?thesis
        using idleI [OF pub [OF st(1)]] assms(1) by simp
    next
      case acquire
      then show ?thesis
        using acquire_result [OF x(1,2,4) acquire(3)] Acquire
        by (auto simp: attempted_def idle_def same_engine_def split: if_splits)
    next
      case blocked
      then show ?thesis
        using idle_policy [OF x(1,3,4) blocked(2)] by (auto simp: idle_def)
    qed
  qed
qed

section \<open>Properties\<close>

text \<open>The calls that the handlers and the other operations make on a state they did not prepare; the
  handoff and the acquisition proper are only called by the operations above.\<close>

definition entry_call :: "engine_call \<Rightarrow> bool" where
  "entry_call c = (case c of CallBeginHandoff _ _ \<Rightarrow> False | CallAcquire \<Rightarrow> False | _ \<Rightarrow> True)"

lemma entry_returns:
  assumes "\<not> storm a" and "entry_call c"
  shows "\<exists>r b. engine P 10 c a = Some (r, b) \<and> \<not> storm b"
proof -
  have ten: "(10 :: nat) = fuel3 (fuel3 (Suc (Suc (Suc (Suc 0)))))"
    by simp
  have lift: "engine P 10 c a = Some r" if "engine P n c a = Some r" "n \<le> 10" for n r
    using engine_mono that by blast
  show ?thesis
  proof (cases c)
    case CallPublish
    then show ?thesis
      using lift [of 2] publish_returns [OF assms(1), of P 0] assms(1)
      by (simp add: numeral_2_eq_2 ex_bool_eq del: engine.simps)
  next
    case CallRefreshTier
    then show ?thesis
      using lift [of 1] refresh_tier_returns [OF assms(1), of P 0] assms(1)
        same_engine_storm [OF same_engine_tier_step, of a]
      by (simp add: ex_bool_eq del: engine.simps)
  next
    case (CallGuardedRelease st)
    then show ?thesis
      unfolding ten using release_returns [OF assms(1)] by blast
  next
    case CallProcessIntent
    then show ?thesis
      unfolding ten using process_returns [OF assms(1)] by blast
  next
    case (CallReleaseForPolicy rs)
    then show ?thesis
      unfolding ten using policy_returns [OF assms(1)] by blast
  next
    case (CallQueueIntent i)
    then show ?thesis
      unfolding ten using queue_returns [OF assms(1)] by blast
  next
    case (CallShowOwnership st)
    then show ?thesis
      unfolding ten using show_returns [OF assms(1)] unfolding keeps_def by blast
  next
    case CallArmDuration
    then show ?thesis
      unfolding ten using arm_returns [OF assms(1)] unfolding keeps_def by blast
  qed (use assms(2) in \<open>simp_all add: entry_call_def\<close>)
qed

lemma queue_gated:
  assumes few: "anomalies_seen a < MAX_ANOMALIES_BEFORE_QUIESCENT"
    and inv: "own_inv holds_request (controller a)" and own: "app_ownership a = OwnReleased"
    and eng: "engine (windows_platform K) n (CallQueueIntent i) a = Some (r, b)"
  shows "(app_ownership b \<noteq> OwnReleased \<longrightarrow> i = Acquire \<and> handoff a = None \<and> \<not> pause_active (pause a)
      \<and> decision_status (decide (eligible_input (power_now a) (battery_lockout (config a)))) = Requested
      \<and> tier_allows_high_resolution (op_tier (tiering a)))
    \<and> (app_status b \<in> {TsRunning, TsScheduledStop} \<longrightarrow> app_ownership b = Owned
      \<and> holds_request (platform (controller b))
      \<and> verification (controller b) \<in> {Verified, FinerThanRequested})"
proof -
  let ?P = "windows_platform K"
  have calm: "\<not> storm a"
    using few by (simp add: storm_def not_le)
  define x where "x = a\<lparr>desired := intent_request i (desired a)\<rparr>"
  have eng': "engine ?P (Suc (fuel3 (Suc (Suc n)))) (CallQueueIntent i) a = Some (r, b)"
    by (rule engine_mono [OF eng]) simp
  have "handoff a \<noteq> None \<and> idle a b \<or> handoff a = None
      \<and> engine ?P (fuel3 (Suc (Suc n))) CallProcessIntent x = Some (r, b)"
    using eng' calm
    by (auto simp add: queue_intent_body_def Let_def publish_returns x_def idle_def lifecycle_running
        simp del: engine.simps(2,6) split: if_splits)
  then consider "idle a b"
    | (started) "handoff a = None" "i = Acquire" "\<not> pause_active (pause a)"
        "decision_status (decide (eligible_input (power_now a) (battery_lockout (config a)))) = Requested"
        "tier_allows_high_resolution (op_tier (tiering a))" "attempted ?P a b"
    using process_gate [of x i ?P n r b] calm own
    by (auto simp: x_def intent_request_def idle_def attempted_def)
  then show ?thesis
  proof cases
    case 1
    then show ?thesis
      using own by (auto simp: idle_def shows_running_def)
  next
    case started
    then obtain c s c' where c: "ctl_start ?P c = (s, c')" "ownership c = OwnReleased"
        "platform c = platform (controller a)" "verification c = verification (controller a)"
        "ownership (controller b) = ownership c'" "verification (controller b) = verification c'"
        "platform (controller b) = platform c'"
        "shows_running (app_status b) \<longrightarrow> s = Inr Verified \<or> s = Inr FinerThanRequested"
      by (auto simp: attempted_def)
    have inv_c: "own_inv holds_request c"
      using inv own c(2-4) by (simp add: own_inv_def)
    have inv': "own_inv holds_request c'"
      using wtp.start_inv [OF inv_c, of K] c(1) by simp
    have "ownership c' = Owned \<and> verification c' \<in> {Verified, FinerThanRequested}"
      if "shows_running (app_status b)"
      using wtp.start_ok [of K c _ c'] c(1,2,8) that inv_c by (auto simp: own_inv_def)
    then show ?thesis
      using started c(5-7) inv' by (auto simp: shows_running_def own_inv_def)
  qed
qed

text \<open>A sample application over the simulated kernel, on AC power, with a given controller and count of
  anomalies.\<close>

definition sample_tiering :: "u32 \<Rightarrow> tier_state" where
  "sample_tiering k = \<lparr>op_tier = Nominal, rejections_seen = 0, anomalies = k, pending_anomalies = 0,
     last_watchdog_episodes = 0, consumed_log_write_failures = 0, consumed_dispatch_panics = 0,
     surface_recovery_attempts = 0, surface_recovery_due = None, surface_recovery_exhausted = False\<rparr>"

definition sample_env :: environment where
  "sample_env = \<lparr>watchdog_episodes = None, storage_failures = [], dispatch_panics = 0,
     native_ok = (\<lambda>_. True), native_calls = 0, clock = 0\<rparr>"

definition sample_app :: "u32 \<Rightarrow> 'p timer_controller \<Rightarrow> 'p app" where
  "sample_app k c = \<lparr>controller = c, power_now = Ac, battery_saver_now = Some False,
     config = \<lparr>automatic = True, auto_resume_on_ac = True, battery_lockout = True, request_interval = 0\<rparr>,
     app_status = TsStopped, last_block_reason = None, tiering = sample_tiering k, tray_icon = True,
     timing = snapshot_empty, timing_snapshot_valid = False, app_invalid_interval = False,
     external_timing = False, desired = intent_queue_new, handoff = None, pause = coordinator_new,
     duration_timer = None, schedule_display_timer_active = False, running_since = None,
     pending_resume_on_ac = False, last_publication = None, responsiveness_degraded = False,
     mirror = \<lparr>ownership_flag = 0, tracked_interval_hns = 0, emergency_interval = 0,
               ipc_status = status_snapshot_new\<rparr>,
     env = sample_env\<rparr>"

lemma sample_fields [simp]:
  "controller (sample_app k c) = c" "handoff (sample_app k c) = None"
  by (simp_all add: sample_app_def)

lemma sample_anomalies: "anomalies_seen (sample_app k c) = k"
  by (simp add: anomalies_seen_def sample_app_def sample_tiering_def sample_env_def
      drain_anomaly_producers_def drain_pending_def drain_watchdog_def drain_storage_def drain_panics_def
      highest_def)

text \<open>C40: The release on entry to the quiescent tier never completes. When three or more anomalies are
  seen while the application owns a request and no handoff runs, publishing the status, refreshing the
  tier and releasing the request call each other without end: no amount of fuel lets any of them
  return, and the request is not released, because \<open>guarded_release\<close> publishes before it stops the
  controller and the publication evaluates the tier again.\<close>

theorem quiescent_release_never_returns:
  assumes "MAX_ANOMALIES_BEFORE_QUIESCENT \<le> anomalies_seen a" and "app_ownership a = Owned"
    and "handoff a = None"
  shows "engine P n CallPublish a = None \<and> engine P n CallRefreshTier a = None
    \<and> engine P n (CallGuardedRelease st) a = None"
  using engine_storm [of a P n st] assms by (simp add: storm_def)

theorem quiescent_release_never_returns_witness:
  "engine (windows_platform sim_kernel) 1000 CallPublish
     (sample_app 3 (tick_run sim_kernel 156250 0 [OpStart])) = None"
  using quiescent_release_never_returns
    [of "sample_app 3 (tick_run sim_kernel 156250 0 [OpStart])" "windows_platform sim_kernel" 1000]
  by (simp add: sample_anomalies sim_started MAX_ANOMALIES_BEFORE_QUIESCENT_def)

text \<open>C11: With fewer than three anomalies every engine operation returns: ten nested calls are enough for
  publishing, tier evaluation, release, policy release, intents, the ownership display and the schedule
  timer, whatever the kernel, the native calls and the state, and more fuel does not change the
  result.\<close>

theorem engine_operations_return:
  assumes "anomalies_seen a < MAX_ANOMALIES_BEFORE_QUIESCENT" and "entry_call c"
  shows "\<exists>r. \<forall>n. 10 \<le> n \<longrightarrow> engine P n c a = Some r"
proof -
  obtain r where "engine P 10 c a = Some r"
    using entry_returns [of a c P] assms by (auto simp: storm_def not_le)
  then show ?thesis
    using engine_mono by blast
qed

theorem engine_operations_return_witness:
  "\<exists>r. \<forall>n. 10 \<le> n \<longrightarrow> engine (windows_platform sim_kernel) n (CallQueueIntent Release)
     (sample_app 2 (tick_run sim_kernel 156250 0 [OpStart])) = Some r"
  by (rule engine_operations_return)
    (simp_all add: sample_anomalies MAX_ANOMALIES_BEFORE_QUIESCENT_def entry_call_def)

text \<open>A queued intent acquires only what policy allows, and the tray claims to run only what it owns.
  From the released state, with fewer than three anomalies, the application ends up holding or
  possibly holding a request only for an acquire intent, outside a pause and a handoff, on a power
  state the policy engine accepts and in a tier that allows high resolution. The published status is
  running (or running until a scheduled stop) only with a request that is held and verified.\<close>

theorem queued_intent_gated:
  assumes few: "anomalies_seen a < MAX_ANOMALIES_BEFORE_QUIESCENT"
    and inv: "own_inv holds_request (controller a)" and own: "app_ownership a = OwnReleased"
    and eng: "engine (windows_platform K) n (CallQueueIntent i) a = Some (r, b)"
  shows "(app_ownership b \<noteq> OwnReleased \<longrightarrow> i = Acquire \<and> handoff a = None \<and> \<not> pause_active (pause a)
      \<and> decision_status (decide (eligible_input (power_now a) (battery_lockout (config a)))) = Requested
      \<and> tier_allows_high_resolution (op_tier (tiering a)))
    \<and> (app_status b \<in> {TsRunning, TsScheduledStop} \<longrightarrow> app_ownership b = Owned
      \<and> holds_request (platform (controller b))
      \<and> verification (controller b) \<in> {Verified, FinerThanRequested})"
  by (rule queue_gated [OF assms])

theorem queued_intent_gated_witness:
  "\<exists>r b. engine (windows_platform sim_kernel) 10 (CallQueueIntent Release)
      (sample_app 0 (controller_new (wtp_new 156250) 0)) = Some (r, b) \<and> app_ownership b = OwnReleased"
proof -
  let ?a = "sample_app 0 (controller_new (wtp_new (156250 :: u32)) 0)"
  have few: "anomalies_seen ?a < MAX_ANOMALIES_BEFORE_QUIESCENT"
    by (simp add: sample_anomalies MAX_ANOMALIES_BEFORE_QUIESCENT_def)
  then obtain r b where rb: "engine (windows_platform sim_kernel) 10 (CallQueueIntent Release) ?a = Some (r, b)"
    using entry_returns [of ?a "CallQueueIntent Release" "windows_platform sim_kernel"]
    by (auto simp: storm_def entry_call_def not_le)
  have "own_inv holds_request (controller ?a)" "app_ownership ?a = OwnReleased"
    using own_inv_new [of holds_request "wtp_new (156250 :: u32)" 0] wtp_new_free [of "156250 :: u32"] by (simp_all add: controller_new_def)
  from queued_intent_gated [OF few this rb] rb show ?thesis
    by blast
qed

end
