(* ===== verification/Handlers.thy ===== *)
theory Handlers
  imports Engine Watchdog
begin

text \<open>
  Model of the handlers of the tray's message loop: power observation
  (\<open>crates/tick-observation-windows\<close>), policy application, handoff polls, surface recovery and the
  startup settle probe (\<open>tray/tier.rs\<close>), schedules (\<open>tray/schedule.rs\<close>), power reconciliation
  (\<open>tray/power.rs\<close>), heartbeat (\<open>tray/status.rs\<close>), power broadcasts with their debounce and the IPC
  commands of the UI thread (\<open>tray/controller.rs\<close>).

  A handler makes its engine calls with the fuel it is given; \<open>None\<close> is a call tree deeper than
  that. The menu refresh and the diagnostic records are left out.
\<close>

section \<open>Power observation\<close>

record power_snapshot =
  ps_state :: power_state
  ps_battery_saver :: "bool option"

record windows_observation =
  obs_power :: power_snapshot
  power_error :: "core_error option"

definition unknown_power :: power_snapshot where
  "unknown_power = \<lparr>ps_state = PowerStateUnknown, ps_battery_saver = None\<rparr>"

definition observation_new :: windows_observation where
  "observation_new = \<lparr>obs_power = unknown_power, power_error = None\<rparr>"

text \<open>What \<open>GetSystemPowerStatus\<close> gives: the line status and the status flag, or the last error.\<close>

definition query_power :: "(u32, u8 \<times> u8) result \<Rightarrow> (core_error, power_snapshot) result" where
  "query_power native =
     (case native of
        Inl raw \<Rightarrow> Err (ObservationFailed raw)
      | Inr (line, flag) \<Rightarrow>
          let saver = (flag AND 1 \<noteq> 0);
              base = (if line = 1 then Ac else if line = 0 then Battery else PowerStateUnknown)
          in Ok \<lparr>ps_state = (if saver then BatterySaver else base), ps_battery_saver = Some saver\<rparr>)"

definition apply_power_query_result ::
    "(core_error, power_snapshot) result \<Rightarrow> windows_observation \<Rightarrow> windows_observation" where
  "apply_power_query_result r w =
     (case r of
        Inr s \<Rightarrow> w\<lparr>obs_power := s, power_error := None\<rparr>
      | Inl e \<Rightarrow> w\<lparr>obs_power := unknown_power, power_error := Some e\<rparr>)"

definition refresh_power :: "(u32, u8 \<times> u8) result \<Rightarrow> 'p app \<Rightarrow> 'p app" where
  "refresh_power native a =
     (let w = apply_power_query_result (query_power native)
            \<lparr>obs_power = \<lparr>ps_state = power_now a, ps_battery_saver = battery_saver_now a\<rparr>, power_error = None\<rparr>
      in a\<lparr>power_now := ps_state (obs_power w), battery_saver_now := ps_battery_saver (obs_power w)\<rparr>)"

section \<open>Policy and intents\<close>

type_synonym 'p step = "'p app \<Rightarrow> 'p app option"

definition call :: "'p timer_platform \<Rightarrow> nat \<Rightarrow> engine_call \<Rightarrow> 'p step" where
  "call P n c a = map_option snd (engine P n c a)"

definition app_decision :: "'p app \<Rightarrow> policy_decision" where
  "app_decision a = decide (eligible_input (power_now a) (battery_lockout (config a)))"

definition apply_policy :: "'p timer_platform \<Rightarrow> nat \<Rightarrow> 'p step" where
  "apply_policy P n a =
     (let d = app_decision a;
          by_intent = (\<lambda>i. call P n (CallQueueIntent i) a)
      in if pause_active (pause a) then by_intent Release
         else case scheduled (pause a) of
           Some s \<Rightarrow>
             (if sched_action s = ActPause then by_intent Release
              else if decision_status d \<noteq> Requested
              then call P n (CallReleaseForPolicy (decision_reason d)) a
              else call P n (CallShowOwnership TsStopped) a)
         | None \<Rightarrow>
             if acquisition_is_allowed False (automatic (config a)) (power_now a) (battery_lockout (config a))
             then by_intent Acquire else by_intent Release)"

definition reconcile :: "'p timer_platform \<Rightarrow> nat \<Rightarrow> 'p step" where
  "reconcile P n a = apply_policy P n (refresh_timing_observation P a)"

definition manual_start :: "'p timer_platform \<Rightarrow> nat \<Rightarrow> 'p step" where
  "manual_start P n a = call P n (CallQueueIntent Acquire) a"

definition manual_stop :: "'p timer_platform \<Rightarrow> nat \<Rightarrow> 'p step" where
  "manual_stop P n a = call P n (CallQueueIntent Release) (a\<lparr>pending_resume_on_ac := False\<rparr>)"

section \<open>Power reconciliation\<close>

definition block_reason_of :: "power_state \<Rightarrow> policy_reason" where
  "block_reason_of pw =
     (case pw of Battery \<Rightarrow> BatteryRestricted | BatterySaver \<Rightarrow> BatterySaverRestricted | _ \<Rightarrow> PowerUnknown)"

definition apply_power_reconciliation :: "'p timer_platform \<Rightarrow> nat \<Rightarrow> 'p step" where
  "apply_power_reconciliation P n a =
     (if pause_active (pause a) then call P n (CallQueueIntent Release) a
      else if resume_on_ac_applies (auto_resume_on_ac (config a)) (pending_resume_on_ac a) (power_now a)
                (app_ownership a)
      then call P n (CallQueueIntent Acquire) (a\<lparr>pending_resume_on_ac := False\<rparr>)
      else case power_reconciliation_of (automatic (config a)) (power_now a) (app_ownership a)
                  (battery_lockout (config a)) of
        RecAcquire \<Rightarrow> apply_policy P n a
      | ReleaseBlocked \<Rightarrow> call P n (CallReleaseForPolicy (block_reason_of (power_now a))) a
      | ShowStopped \<Rightarrow> call P n (CallShowOwnership TsStopped) a
      | PreserveOwned \<Rightarrow> call P n (CallShowOwnership TsStopped) a
      | PreserveUncertain \<Rightarrow>
          if uncertain_recovery_attempts_acquire (automatic (config a)) (power_now a) then do {
            (settled, a1) \<leftarrow> engine P n (CallGuardedRelease TsStopped) a;
            if settled \<and> app_ownership a1 = OwnReleased then apply_policy P n a1
            else call P n (CallShowOwnership TsStopped) a1 }
          else call P n (CallShowOwnership TsStopped) a)"

definition release_for_power_change :: "'p timer_platform \<Rightarrow> nat \<Rightarrow> 'p step" where
  "release_for_power_change P n a = apply_power_reconciliation P n (refresh_timing_observation P a)"

section \<open>Schedules\<close>

definition schedule_duration_action ::
    "'p timer_platform \<Rightarrow> nat \<Rightarrow> duration_action \<Rightarrow> duration_preset \<Rightarrow> 'p step" where
  "schedule_duration_action P n act d a =
     (let replacing_pause = pause_active (pause a);
          a1 = cancel_duration_timer a;
          a2 = a1\<lparr>pause := snd (schedule act d (clock (env a1)) (pause a1))\<rparr>
      in do {
        (armed, a3) \<leftarrow> engine P n CallArmDuration a2;
        if \<not> armed then
          call P n CallPublish (a3\<lparr>pause := snd (cancel (pause a3)), app_status := TsError\<rparr>)
        else do {
          let a4 = begin_schedule_display_timer a3;
          a5 \<leftarrow> (if replacing_pause \<and> act \<noteq> ActPause then call P n (CallShowOwnership TsStopped) a4
                 else Some a4);
          if act = ActPause then do {
            a6 \<leftarrow> call P n CallPublish (a5\<lparr>app_status := TsPausing\<rparr>);
            call P n (CallQueueIntent Release) a6 }
          else call P n CallPublish a5 } })"

definition schedule_preset_action ::
    "'p timer_platform \<Rightarrow> nat \<Rightarrow> duration_action \<Rightarrow> nat \<Rightarrow> presets \<Rightarrow> 'p step" where
  "schedule_preset_action P n act i ps a =
     (if i < length ps then schedule_duration_action P n act (ps ! i) a else Some a)"

definition cancel_scheduled_action ::
    "'p timer_platform \<Rightarrow> nat \<Rightarrow> (u32, u8 \<times> u8) result \<Rightarrow> 'p step" where
  "cancel_scheduled_action P n native a =
     (if scheduled (pause a) = None then Some a
      else
        let a1 = kill_schedule_display_timer (cancel_duration_timer a);
            a2 = a1\<lparr>pause := snd (cancel (pause a1))\<rparr>
        in apply_power_reconciliation P n (refresh_power native a2))"

definition execute_scheduled_action ::
    "'p timer_platform \<Rightarrow> nat \<Rightarrow> (u32, u8 \<times> u8) result \<Rightarrow> scheduled_action \<Rightarrow> 'p step" where
  "execute_scheduled_action P n native s a =
     (case sched_action s of
        ActStart \<Rightarrow>
          (let a1 = refresh_power native a; d = app_decision a1 in
           if decision_status d = Requested then
             (if app_ownership a1 = OwnReleased then call P n (CallQueueIntent Acquire) a1
              else call P n (CallShowOwnership TsStopped) a1)
           else call P n (CallReleaseForPolicy (decision_reason d)) a1)
      | ActStop \<Rightarrow>
          if app_ownership a = OwnReleased then call P n (CallShowOwnership TsStopped) a
          else call P n (CallGuardedRelease TsStopped) a
      | ActPause \<Rightarrow> reconcile P n (refresh_power native a))"

definition handle_duration_timer ::
    "'p timer_platform \<Rightarrow> nat \<Rightarrow> (u32, u8 \<times> u8) result \<Rightarrow> nat \<Rightarrow> 'p step" where
  "handle_duration_timer P n native timer a =
     (case duration_timer a of
        None \<Rightarrow> Some a
      | Some (armed, gen) \<Rightarrow>
          if armed \<noteq> timer then Some a
          else case timer_event gen (clock (env a)) (pause a) of
            Early _ _ _ \<Rightarrow> call P n CallArmDuration a
          | Stale \<Rightarrow> Some a
          | Expired s \<Rightarrow>
              let a1 = kill_schedule_display_timer (cancel_duration_timer a)
              in execute_scheduled_action P n native s (a1\<lparr>pause := snd (cancel (pause a1))\<rparr>))"

definition handle_schedule_display_timer :: "'p timer_platform \<Rightarrow> nat \<Rightarrow> 'p step" where
  "handle_schedule_display_timer P n a =
     (if scheduled (pause a) \<noteq> None then call P n CallPublish a
      else Some (kill_schedule_display_timer a))"

section \<open>Handoff polls\<close>

definition finish_handoff :: "'p timer_platform \<Rightarrow> nat \<Rightarrow> tray_status \<Rightarrow> bool \<Rightarrow> 'p step" where
  "finish_handoff P n st external a =
     do {
       a1 \<leftarrow> call P n CallPublish
         ((sync_timing_snapshot (a\<lparr>controller := clear_release_boundary (controller a)\<rparr>))
            \<lparr>app_status := st, external_timing := external\<rparr>);
       a2 \<leftarrow> call P n CallProcessIntent a1;
       if pause_active (pause a2) then call P n CallArmDuration a2 else Some a2 }"

definition handle_handoff_timer :: "'p timer_platform \<Rightarrow> nat \<Rightarrow> 'p step" where
  "handle_handoff_timer P n a =
     (case handoff a of
        None \<Rightarrow> Some a
      | Some h \<Rightarrow>
          (case observe_current P (boundary h) (controller a) of (r, c) \<Rightarrow>
             let a1 = (sync_timing_snapshot (a\<lparr>controller := c\<rparr>))\<lparr>timing_snapshot_valid := \<not> isl r\<rparr>;
                 effective = (case r of Inr ob \<Rightarrow> Some (reported_current ob) | Inl _ \<Rightarrow> None)
             in case handoff_observe effective h of
                  (HandoffPending, h1) \<Rightarrow>
                    call P n CallPublish (a1\<lparr>handoff := Some h1, app_status :=
                      (if released_status h1 = TsPaused then TsPausing else TsStopping)\<rparr>)
                | (HandoffCompleted, h1) \<Rightarrow>
                    finish_handoff P n (released_status h1) False (a1\<lparr>handoff := None\<rparr>)
                | (HandoffTimedOut, h1) \<Rightarrow>
                    finish_handoff P n (if released_status h1 = TsPaused then TsUnverified else TsStopped)
                      True (a1\<lparr>handoff := None\<rparr>)))"

section \<open>Surface recovery and startup probe\<close>

definition advance_surface_recovery :: "'p timer_platform \<Rightarrow> nat \<Rightarrow> bool \<Rightarrow> 'p step" where
  "advance_surface_recovery P n recovered a =
     (let t = tiering a;
          k = saturating_add (surface_recovery_attempts t) 1;
          t1 = t\<lparr>surface_recovery_attempts := k\<rparr>;
          t2 = (if recovered then t1\<lparr>surface_recovery_due := None, surface_recovery_attempts := 0\<rparr>
                else if SURFACE_RECOVERY_ATTEMPTS \<le> k
                then t1\<lparr>surface_recovery_exhausted := True, surface_recovery_due := None\<rparr>
                else t1\<lparr>surface_recovery_due := Some (clock (env a) + SURFACE_RECOVERY_SPACING_MS * 1000000)\<rparr>)
      in call P n CallPublish (a\<lparr>tiering := t2\<rparr>))"

text \<open>The icon restored by the shell: creating the icon data and adding it may each fail.\<close>

definition attempt_surface_restore :: "'p app \<Rightarrow> bool \<times> 'p app" where
  "attempt_surface_restore a =
     (case native_call a of (created_ok, a1) \<Rightarrow>
        if \<not> created_ok then (False, a1)
        else case native_call a1 of (added, a2) \<Rightarrow>
          if \<not> added then (False, a2)
          else (True, a2\<lparr>tray_icon := True, last_publication := None\<rparr>))"

definition service_surface_recovery :: "'p timer_platform \<Rightarrow> nat \<Rightarrow> 'p step" where
  "service_surface_recovery P n a =
     (if op_tier (tiering a) \<noteq> SurfaceDegraded \<or> tray_icon a \<or> surface_recovery_exhausted (tiering a)
      then Some a
      else case surface_recovery_due (tiering a) of
        None \<Rightarrow> Some (a\<lparr>tiering := (tiering a)\<lparr>surface_recovery_due :=
                  Some (clock (env a) + SURFACE_RECOVERY_SPACING_MS * 1000000)\<rparr>\<rparr>)
      | Some due \<Rightarrow>
          if clock (env a) < due then Some a
          else case attempt_surface_restore a of (recovered, a1) \<Rightarrow> advance_surface_recovery P n recovered a1)"

text \<open>The startup probe loop; the number of attempts is its own bound.\<close>

fun settle_loop ::
    "'p timer_platform \<Rightarrow> nat \<Rightarrow> u32 \<Rightarrow> 'p timer_controller
      \<Rightarrow> (settle_probe_outcome option \<times> 'p timer_controller) option" where
  "settle_loop P 0 used c = None"
| "settle_loop P (Suc n) used c =
     (case attempt_startup_kernel_settle_probe P used c of
        (NotApplicable, c1) \<Rightarrow> Some (None, c1)
      | (Retry _, c1) \<Rightarrow> settle_loop P n (used + 1) c1
      | (Settled oc, c1) \<Rightarrow> Some (Some oc, c1))"

definition probe_startup_kernel_settle :: "'p timer_platform \<Rightarrow> nat \<Rightarrow> 'p step" where
  "probe_startup_kernel_settle P n a =
     do {
       (oc, c) \<leftarrow> settle_loop P n 0 (controller a);
       let a1 = a\<lparr>controller := c\<rparr>;
       case oc of
         None \<Rightarrow> Some a1
       | Some v \<Rightarrow>
           let a2 = (sync_timing_snapshot a1)\<lparr>timing_snapshot_valid := True\<rparr>
           in Some (if v = ExternalClientConfirmed then a2\<lparr>external_timing := True\<rparr> else a2) }"

section \<open>The tray around the engine\<close>

record 'p tray =
  tray_app :: "'p app"
  power_debounce_active :: bool
  power_debounce_target_state :: "power_state option"
  presets_manager :: presets
  responsiveness :: responsiveness_tracker
  responsiveness_notified :: bool
  last_heartbeat_fire :: "nat option"
  watchdog_stall_events :: u32
  ipc_schedule_id :: u32
  ipc_command_queue :: command_queue
  sent_replies :: "(nat \<times> ipc_response) list"

definition on_app :: "'p step \<Rightarrow> 'p tray \<Rightarrow> 'p tray option" where
  "on_app f t = map_option (\<lambda>a. t\<lparr>tray_app := a\<rparr>) (f (tray_app t))"

definition tray_native_call :: "'p tray \<Rightarrow> bool \<times> 'p tray" where
  "tray_native_call t = (case native_call (tray_app t) of (ok, a) \<Rightarrow> (ok, t\<lparr>tray_app := a\<rparr>))"

definition clear_debounce :: "'p tray \<Rightarrow> 'p tray" where
  "clear_debounce t = t\<lparr>power_debounce_active := False, power_debounce_target_state := None\<rparr>"

definition begin_debounce :: "power_state \<Rightarrow> 'p tray \<Rightarrow> 'p tray" where
  "begin_debounce pw t =
     (case tray_native_call t of (ok, t1) \<Rightarrow>
        if ok then t1\<lparr>power_debounce_active := True, power_debounce_target_state := Some pw\<rparr> else t1)"

definition handle_power_broadcast_event :: "'p timer_platform \<Rightarrow> nat \<Rightarrow> 'p tray \<Rightarrow> 'p tray option" where
  "handle_power_broadcast_event P n t =
     (let pw = power_now (tray_app t) in
      if battery_saver_now (tray_app t) = Some True then
        on_app (release_for_power_change P n) (if power_debounce_active t then clear_debounce t else t)
      else case power_debounce_target_state t of
        Some target \<Rightarrow>
          if target = pw then
            (case tray_native_call t of (ok, t1) \<Rightarrow> Some (if ok then t1 else clear_debounce t1))
          else Some (begin_debounce pw (clear_debounce t))
      | None \<Rightarrow> Some (begin_debounce pw t))"

definition handle_power_debounce_timer :: "'p timer_platform \<Rightarrow> nat \<Rightarrow> 'p tray \<Rightarrow> 'p tray option" where
  "handle_power_debounce_timer P n t =
     (let target = power_debounce_target_state t;
          t1 = clear_debounce t;
          pw = power_now (tray_app t)
      in if pw = PowerStateUnknown then Some (begin_debounce PowerStateUnknown t1)
         else if target = Some pw then on_app (release_for_power_change P n) t1
         else Some t1)"

text \<open>The branches of the window procedure for power broadcasts.\<close>

datatype power_broadcast = ApmSuspend | ApmResume | ApmPowerStatusChange | ApmUnrecognized

definition handle_power_broadcast ::
    "'p timer_platform \<Rightarrow> nat \<Rightarrow> power_broadcast \<Rightarrow> (u32, u8 \<times> u8) result \<Rightarrow> 'p tray \<Rightarrow> 'p tray option" where
  "handle_power_broadcast P n code native t =
     (case code of
        ApmSuspend \<Rightarrow> on_app (\<lambda>a. release_for_power_change P n (a\<lparr>running_since := None\<rparr>)) t
      | ApmPowerStatusChange \<Rightarrow> handle_power_broadcast_event P n (t\<lparr>tray_app := refresh_power native (tray_app t)\<rparr>)
      | _ \<Rightarrow> do {
          t1 \<leftarrow> on_app (apply_power_reconciliation P n) (t\<lparr>tray_app := refresh_power native (tray_app t)\<rparr>);
          handle_power_broadcast_event P n t1 })"

definition elapsed_millis :: "nat \<Rightarrow> nat \<Rightarrow> u64" where
  "elapsed_millis now prev =
     (let ms = (now - prev) div 1000000 in if ms < 2 ^ 64 then of_nat ms else - 1)"

definition handle_heartbeat_timer :: "'p timer_platform \<Rightarrow> nat \<Rightarrow> 'p tray \<Rightarrow> 'p tray option" where
  "handle_heartbeat_timer P n t =
     (let now = clock (env (tray_app t));
          elapsed = (case last_heartbeat_fire t of None \<Rightarrow> 0 | Some prev \<Rightarrow> elapsed_millis now prev);
          lateness = saturating_sub elapsed HEARTBEAT_INTERVAL_MS;
          sample = (if 0 < watchdog_stall_events t then max lateness STALL_THRESHOLD_MS else lateness);
          tr = snd (observe sample (responsiveness t));
          t1 = t\<lparr>last_heartbeat_fire := Some now, watchdog_stall_events := 0, responsiveness := tr\<rparr>;
          degraded = (resp_state tr = Degraded);
          was = responsiveness_degraded (tray_app t)
      in if degraded \<and> \<not> was then
           on_app (call P n CallPublish)
             (t1\<lparr>responsiveness_notified := True,
                 tray_app := (tray_app t1)\<lparr>responsiveness_degraded := True\<rparr>\<rparr>)
         else if \<not> degraded \<and> was then
           on_app (call P n CallPublish)
             (t1\<lparr>responsiveness_notified := False,
                 tray_app := (tray_app t1)\<lparr>responsiveness_degraded := False\<rparr>\<rparr>)
         else Some t1)"

section \<open>IPC commands on the UI thread\<close>

definition handle_ipc_acquire ::
    "'p timer_platform \<Rightarrow> nat \<Rightarrow> bytes \<Rightarrow> 'p tray \<Rightarrow> (ipc_response \<times> 'p tray) option" where
  "handle_ipc_acquire P n p t =
     (let start = (\<lambda>t. do {
            t1 \<leftarrow> on_app (manual_start P n) t;
            let tv = app_timing_values (tray_app t1);
            Some (if \<not> tv_valid tv \<or> tv_invalid_interval tv then RespError IpcUnsupported
                  else RespAcquired (case tv_effective tv of None \<Rightarrow> 0 | Some v \<Rightarrow> v), t1) })
      in if p = [] then start t
         else if length p \<noteq> 8 then Some (RespError PayloadTruncated, t)
         else case validate_interval_hns (u64_from_le p) of
           Inl e \<Rightarrow> Some (RespError e, t)
         | Inr i \<Rightarrow>
             start (t\<lparr>tray_app := (tray_app t)\<lparr>config := (config (tray_app t))\<lparr>request_interval := i\<rparr>\<rparr>\<rparr>))"

definition ipc_schedule_action :: "u8 \<Rightarrow> duration_action option" where
  "ipc_schedule_action tag =
     (if tag = 1 then Some ActStart else if tag = 2 then Some ActStop else if tag = 3 then Some ActPause
      else None)"

definition handle_ipc_schedule ::
    "'p timer_platform \<Rightarrow> nat \<Rightarrow> (u32, u8 \<times> u8) result \<Rightarrow> bytes \<Rightarrow> 'p tray
      \<Rightarrow> (ipc_response \<times> 'p tray) option" where
  "handle_ipc_schedule P n native p t =
     (if length p \<noteq> 5 then Some (RespError PayloadTruncated, t)
      else case ipc_schedule_action (hd p) of
        None \<Rightarrow> Some (RespError IpcUnsupported, t)
      | Some act \<Rightarrow>
          let seconds = u32_from_le (tl p) in
          (case preset_new (unat seconds) of
             Inl _ \<Rightarrow> Some (RespError (ScheduleOutOfBounds seconds), t)
           | Inr d \<Rightarrow> do {
               t1 \<leftarrow> on_app (schedule_duration_action P n act d) t;
               if scheduled (pause (tray_app t1)) = None then do {
                 t2 \<leftarrow> on_app (cancel_scheduled_action P n native) t1;
                 Some (RespError IpcUnsupported, t2) }
               else
                 let k = max (saturating_add (ipc_schedule_id t1) 1) 1
                 in Some (RespScheduled k, t1\<lparr>ipc_schedule_id := k\<rparr>) }))"

definition handle_ipc_cancel_schedule ::
    "'p timer_platform \<Rightarrow> nat \<Rightarrow> (u32, u8 \<times> u8) result \<Rightarrow> bytes \<Rightarrow> 'p tray
      \<Rightarrow> (ipc_response \<times> 'p tray) option" where
  "handle_ipc_cancel_schedule P n native p t =
     (if p \<noteq> [] \<and> length p \<noteq> 4 then Some (RespError PayloadTruncated, t)
      else if p \<noteq> [] \<and> u32_from_le p \<noteq> ipc_schedule_id t
      then Some (RespError (ScheduleIdMismatch (u32_from_le p)), t)
      else do {
        t1 \<leftarrow> on_app (cancel_scheduled_action P n native) t;
        Some (RespCancelled, t1) })"

definition handle_ipc_command ::
    "'p timer_platform \<Rightarrow> nat \<Rightarrow> (u32, u8 \<times> u8) result \<Rightarrow> command_verb \<Rightarrow> bytes \<Rightarrow> 'p tray
      \<Rightarrow> (ipc_response \<times> 'p tray) option" where
  "handle_ipc_command P n native v p t =
     (case v of
        RequestAcquire \<Rightarrow> handle_ipc_acquire P n p t
      | RequestRelease \<Rightarrow> do { t1 \<leftarrow> on_app (manual_stop P n) t; Some (RespReleased, t1) }
      | ScheduleAction \<Rightarrow> handle_ipc_schedule P n native p t
      | CancelSchedule \<Rightarrow> handle_ipc_cancel_schedule P n native p t
      | QueryStatus \<Rightarrow> Some (RespError IpcUnsupported, t))"

text \<open>The queue is drained until it is empty; every popped request is answered.\<close>

fun drain_commands ::
    "'p timer_platform \<Rightarrow> nat \<Rightarrow> (u32, u8 \<times> u8) result \<Rightarrow> command_request list \<Rightarrow> 'p tray \<Rightarrow> 'p tray option" where
  "drain_commands P n native [] t = Some (t\<lparr>ipc_command_queue := []\<rparr>)"
| "drain_commands P n native (r # rs) t =
     do {
       (resp, t1) \<leftarrow> handle_ipc_command P n native (req_verb r) (req_payload r) (t\<lparr>ipc_command_queue := rs\<rparr>);
       drain_commands P n native rs (t1\<lparr>sent_replies := sent_replies t1 @ [(responder r, resp)]\<rparr>) }"

definition drain_ipc_command_queue ::
    "'p timer_platform \<Rightarrow> nat \<Rightarrow> (u32, u8 \<times> u8) result \<Rightarrow> 'p tray \<Rightarrow> 'p tray option" where
  "drain_ipc_command_queue P n native t = drain_commands P n native (ipc_command_queue t) t"

text \<open>Teardown on \<open>WM_DESTROY\<close>: every waiting request is answered with an error.\<close>

definition destroy_window :: "'p tray \<Rightarrow> 'p tray" where
  "destroy_window t =
     t\<lparr>ipc_command_queue := [],
       sent_replies := sent_replies t
         @ map (\<lambda>r. (responder r, RespError (TransportIo (- 1)))) (ipc_command_queue t)\<rparr>"

section \<open>The handlers return\<close>

lemma call_returns:
  assumes "\<not> storm a" and "entry_call c" and "10 \<le> n"
  shows "\<exists>b. call P n c a = Some b \<and> \<not> storm b"
proof -
  obtain r b where "engine P 10 c a = Some (r, b)" "\<not> storm b"
    using entry_returns [OF assms(1,2)] by blast
  then show ?thesis
    using engine_mono [OF _ assms(3), of P c a "(r, b)"] by (simp add: call_def)
qed

lemma entry_call_simps [simp]:
  "entry_call CallPublish" "entry_call CallRefreshTier" "entry_call (CallGuardedRelease st)"
  "entry_call CallProcessIntent" "entry_call (CallReleaseForPolicy rs)" "entry_call (CallQueueIntent i)"
  "entry_call (CallShowOwnership st)" "entry_call CallArmDuration"
  by (simp_all add: entry_call_def)

text \<open>A step that returns from every state with fewer than three anomalies, to such a state.\<close>

definition sound_step :: "'p step \<Rightarrow> bool" where
  "sound_step f \<longleftrightarrow> (\<forall>a. \<not> storm a \<longrightarrow> (\<exists>b. f a = Some b \<and> \<not> storm b))"

lemma sound_stepD: "sound_step f \<Longrightarrow> \<not> storm a \<Longrightarrow> \<exists>b. f a = Some b \<and> \<not> storm b"
  by (simp add: sound_step_def)

lemma sound_call: "entry_call c \<Longrightarrow> 10 \<le> n \<Longrightarrow> sound_step (call P n c)"
  by (simp add: sound_step_def call_returns)

lemma sound_bind:
  "\<exists>b. m = Some b \<and> \<not> storm b \<Longrightarrow> sound_step f \<Longrightarrow> \<exists>b. m \<bind> f = Some b \<and> \<not> storm b"
  by (auto simp: sound_step_def)

lemma storm_more [simp]:
  "storm (sync_timing_snapshot a) = storm a" "storm (refresh_timing_observation P a) = storm a"
  "storm (cancel_duration_timer a) = storm a" "storm (kill_schedule_display_timer a) = storm a"
  "storm (begin_schedule_display_timer a) = storm a" "storm (refresh_power native a) = storm a"
  "storm (a\<lparr>power_now := pw\<rparr>) = storm a" "storm (a\<lparr>config := cfg\<rparr>) = storm a"
  "storm (a\<lparr>responsiveness_degraded := v\<rparr>) = storm a"
  "storm (a\<lparr>running_since := r\<rparr>) = storm a"
proof -
  show sync: "storm (sync_timing_snapshot a) = storm a" for a :: "'b app"
    by (simp add: sync_timing_snapshot_def)
  show "storm (refresh_timing_observation P a) = storm a"
    by (simp add: refresh_timing_observation_def Let_def sync split: prod.split)
qed (simp_all add: cancel_duration_timer_def kill_schedule_display_timer_def
    begin_schedule_display_timer_def refresh_power_def native_call_def Let_def storm_def anomalies_seen_def
    count_native_def)

lemma sound_policy: "10 \<le> n \<Longrightarrow> sound_step (apply_policy P n)"
  by (auto simp: sound_step_def apply_policy_def Let_def intro!: call_returns split: option.split)

lemma sound_simple:
  assumes "10 \<le> n"
  shows "sound_step (reconcile P n)" "sound_step (manual_start P n)" "sound_step (manual_stop P n)"
    "sound_step (handle_schedule_display_timer P n)"
  using assms
  by (auto simp: sound_step_def reconcile_def manual_start_def manual_stop_def
      handle_schedule_display_timer_def intro!: call_returns sound_stepD [OF sound_policy])

lemma sound_power:
  assumes "10 \<le> n" shows "sound_step (apply_power_reconciliation P n)"
  unfolding sound_step_def
proof (intro allI impI)
  fix a :: "'a app"
  assume a: "\<not> storm a"
  obtain r b where rel: "engine P n (CallGuardedRelease TsStopped) a = Some (r, b)" "\<not> storm b"
    using entry_returns [OF a, of "CallGuardedRelease TsStopped" P] engine_mono [OF _ assms]
    by (metis entry_call_simps(3))
  show "\<exists>b. apply_power_reconciliation P n a = Some b \<and> \<not> storm b"
    using a rel assms
    by (auto simp: apply_power_reconciliation_def intro!: call_returns sound_stepD [OF sound_policy]
        split: power_reconciliation.split)
qed

lemma sound_power_change: "10 \<le> n \<Longrightarrow> sound_step (release_for_power_change P n)"
  by (auto simp: sound_step_def release_for_power_change_def intro!: sound_stepD [OF sound_power])

lemma sound_duration:
  assumes "10 \<le> n" shows "sound_step (schedule_duration_action P n act d)"
  unfolding sound_step_def
proof (intro allI impI)
  fix a :: "'a app"
  assume "\<not> storm a"
  define x where "x = (cancel_duration_timer a)\<lparr>pause := snd (schedule act d
    (clock (env (cancel_duration_timer a))) (pause (cancel_duration_timer a)))\<rparr>"
  have "\<not> storm x"
    using \<open>\<not> storm a\<close> by (simp add: x_def)
  then obtain r b where arm: "engine P n CallArmDuration x = Some (r, b)" "\<not> storm b"
    using entry_returns [of x CallArmDuration P] engine_mono [OF _ assms] by (metis entry_call_simps(8))
  show "\<exists>b. schedule_duration_action P n act d a = Some b \<and> \<not> storm b"
    using arm assms
    by (auto simp: schedule_duration_action_def Let_def x_def [symmetric]
        intro!: call_returns sound_bind sound_call
          sound_stepD [of "\<lambda>c. call P n (CallQueueIntent Release) c"])
qed

lemma sound_cancel: "10 \<le> n \<Longrightarrow> sound_step (cancel_scheduled_action P n native)"
  by (auto simp: sound_step_def cancel_scheduled_action_def Let_def intro!: sound_stepD [OF sound_power])

lemma sound_execute: "10 \<le> n \<Longrightarrow> sound_step (execute_scheduled_action P n native s)"
  by (auto simp: sound_step_def execute_scheduled_action_def Let_def
      intro!: call_returns sound_stepD [OF sound_simple(1)] split: duration_action.split)

lemma sound_duration_timer: "10 \<le> n \<Longrightarrow> sound_step (handle_duration_timer P n native k)"
  by (auto simp: sound_step_def handle_duration_timer_def Let_def
      intro!: call_returns sound_stepD [OF sound_execute] split: option.split coordinator_timer_event.split)

lemma sound_finish: "10 \<le> n \<Longrightarrow> sound_step (finish_handoff P n st ext)"
  by (auto simp: sound_step_def finish_handoff_def intro!: sound_bind call_returns)

lemma sound_handoff_timer: "10 \<le> n \<Longrightarrow> sound_step (handle_handoff_timer P n)"
  by (auto simp: sound_step_def handle_handoff_timer_def Let_def
      intro!: call_returns sound_stepD [OF sound_finish] split: option.split prod.split handoff_progress.split)

lemma drain_surface [simp]:
  "drain_anomaly_producers e (t\<lparr>surface_recovery_attempts := k\<rparr>)
     = (drain_anomaly_producers e t)\<lparr>surface_recovery_attempts := k\<rparr>"
  "drain_anomaly_producers e (t\<lparr>surface_recovery_due := d\<rparr>)
     = (drain_anomaly_producers e t)\<lparr>surface_recovery_due := d\<rparr>"
  "drain_anomaly_producers e (t\<lparr>surface_recovery_exhausted := v\<rparr>)
     = (drain_anomaly_producers e t)\<lparr>surface_recovery_exhausted := v\<rparr>"
proof -
  note defs = drain_pending_def drain_watchdog_def drain_storage_def drain_panics_def
  have "drain_pending (t\<lparr>surface_recovery_attempts := k\<rparr>) = (drain_pending t)\<lparr>surface_recovery_attempts := k\<rparr>"
    "drain_watchdog w (t\<lparr>surface_recovery_attempts := k\<rparr>) = (drain_watchdog w t)\<lparr>surface_recovery_attempts := k\<rparr>"
    "drain_storage q (t\<lparr>surface_recovery_attempts := k\<rparr>) = (drain_storage q t)\<lparr>surface_recovery_attempts := k\<rparr>"
    "drain_panics p (t\<lparr>surface_recovery_attempts := k\<rparr>) = (drain_panics p t)\<lparr>surface_recovery_attempts := k\<rparr>"
    "drain_pending (t\<lparr>surface_recovery_due := d\<rparr>) = (drain_pending t)\<lparr>surface_recovery_due := d\<rparr>"
    "drain_watchdog w (t\<lparr>surface_recovery_due := d\<rparr>) = (drain_watchdog w t)\<lparr>surface_recovery_due := d\<rparr>"
    "drain_storage q (t\<lparr>surface_recovery_due := d\<rparr>) = (drain_storage q t)\<lparr>surface_recovery_due := d\<rparr>"
    "drain_panics p (t\<lparr>surface_recovery_due := d\<rparr>) = (drain_panics p t)\<lparr>surface_recovery_due := d\<rparr>"
    "drain_pending (t\<lparr>surface_recovery_exhausted := v\<rparr>) = (drain_pending t)\<lparr>surface_recovery_exhausted := v\<rparr>"
    "drain_watchdog w (t\<lparr>surface_recovery_exhausted := v\<rparr>) = (drain_watchdog w t)\<lparr>surface_recovery_exhausted := v\<rparr>"
    "drain_storage q (t\<lparr>surface_recovery_exhausted := v\<rparr>) = (drain_storage q t)\<lparr>surface_recovery_exhausted := v\<rparr>"
    "drain_panics p (t\<lparr>surface_recovery_exhausted := v\<rparr>) = (drain_panics p t)\<lparr>surface_recovery_exhausted := v\<rparr>"
    for t w q p
    by (simp_all add: defs split: option.split)
  then show "drain_anomaly_producers e (t\<lparr>surface_recovery_attempts := k\<rparr>)
      = (drain_anomaly_producers e t)\<lparr>surface_recovery_attempts := k\<rparr>"
    "drain_anomaly_producers e (t\<lparr>surface_recovery_due := d\<rparr>)
      = (drain_anomaly_producers e t)\<lparr>surface_recovery_due := d\<rparr>"
    "drain_anomaly_producers e (t\<lparr>surface_recovery_exhausted := v\<rparr>)
      = (drain_anomaly_producers e t)\<lparr>surface_recovery_exhausted := v\<rparr>"
    by (simp_all add: drain_anomaly_producers_def)
qed

lemma sound_advance: "10 \<le> n \<Longrightarrow> sound_step (advance_surface_recovery P n rec)"
  by (auto simp: sound_step_def advance_surface_recovery_def Let_def storm_def anomalies_seen_def
      intro!: call_returns [unfolded storm_def anomalies_seen_def])

lemma storm_restore [simp]: "storm (snd (attempt_surface_restore a)) = storm a"
  by (simp add: attempt_surface_restore_def native_call_def)

lemma sound_surface: "10 \<le> n \<Longrightarrow> sound_step (service_surface_recovery P n)"
  unfolding sound_step_def service_surface_recovery_def
  by (auto simp: split_beta storm_restore intro!: sound_stepD [OF sound_advance] split: option.split)
    (simp add: storm_def anomalies_seen_def)

text \<open>The startup probe ends by its own budget of three attempts.\<close>

lemma settle_loop_returns:
  "3 \<le> unat used + n \<Longrightarrow> 0 < n \<Longrightarrow> \<exists>r. settle_loop (windows_platform K) n used c = Some r"
proof (induction n arbitrary: used c)
  case (Suc n)
  obtain st c1 where step: "attempt_startup_kernel_settle_probe (windows_platform K) used c = (st, c1)"
    by fastforce
  show ?case
  proof (cases st)
    case (Retry b)
    have lt: "unat used < 2"
      using wtp.settle_retry_budget step Retry by blast
    then have "unat (used + 1) = unat used + 1"
      by (simp add: unat_word_ariths)
    then show ?thesis
      using Suc step Retry lt by simp
  qed (use step in simp_all)
qed simp

text \<open>The same for the tray, whose queue and sent replies only the queue operations change.\<close>

definition same_queue :: "'p tray \<Rightarrow> 'p tray \<Rightarrow> bool" where
  "same_queue t u \<longleftrightarrow> ipc_command_queue u = ipc_command_queue t \<and> sent_replies u = sent_replies t"

definition calm :: "'p tray \<Rightarrow> bool" where
  "calm t \<longleftrightarrow> \<not> storm (tray_app t)"

lemma on_app_returns:
  assumes "sound_step f" and "calm t" shows "\<exists>u. on_app f t = Some u \<and> calm u \<and> same_queue t u"
proof -
  obtain b where "f (tray_app t) = Some b" "\<not> storm b"
    using assms by (auto simp: sound_step_def calm_def)
  then show ?thesis
    by (simp add: on_app_def calm_def same_queue_def)
qed

lemma calm_debounce [simp]: "calm (clear_debounce t) = calm t" "calm (begin_debounce pw t) = calm t"
  by (simp_all add: calm_def clear_debounce_def begin_debounce_def tray_native_call_def native_call_def)

lemma broadcast_event_returns:
  assumes "10 \<le> n" "calm t" shows "\<exists>u. handle_power_broadcast_event P n t = Some u \<and> calm u"
  using on_app_returns [OF sound_power_change [OF assms(1)], of t P]
    on_app_returns [OF sound_power_change [OF assms(1)], of "clear_debounce t" P] assms(2)
  by (auto simp: handle_power_broadcast_event_def Let_def tray_native_call_def native_call_def
      split: option.split) (auto simp: calm_def clear_debounce_def)

lemma debounce_timer_returns:
  assumes "10 \<le> n" "calm t" shows "\<exists>u. handle_power_debounce_timer P n t = Some u \<and> calm u"
  using on_app_returns [OF sound_power_change [OF assms(1)], of "clear_debounce t" P] assms(2)
  by (auto simp: handle_power_debounce_timer_def Let_def)

lemma broadcast_returns:
  assumes "10 \<le> n" "calm t" shows "\<exists>u. handle_power_broadcast P n code native t = Some u \<and> calm u"
proof -
  have refreshed: "calm (t\<lparr>tray_app := refresh_power native (tray_app t)\<rparr>)"
    using assms(2) by (simp add: calm_def)
  have "sound_step (\<lambda>a. release_for_power_change P n (a\<lparr>running_since := None\<rparr>))"
    unfolding sound_step_def by (intro allI impI sound_stepD [OF sound_power_change [OF assms(1)]]) simp
  note suspend = on_app_returns [OF this assms(2)]
  obtain u where u: "on_app (apply_power_reconciliation P n) (t\<lparr>tray_app := refresh_power native (tray_app t)\<rparr>) = Some u"
      "calm u"
    using on_app_returns [OF sound_power [OF assms(1)] refreshed] by blast
  obtain w where w: "handle_power_broadcast_event P n u = Some w" "calm w"
    using broadcast_event_returns [OF assms(1) u(2)] by blast
  show ?thesis
    using suspend broadcast_event_returns [OF assms(1) refreshed, of P] u w
    by (cases code) (auto simp: handle_power_broadcast_def)
qed

lemma heartbeat_returns:
  assumes "10 \<le> n" "calm t" shows "\<exists>u. handle_heartbeat_timer P n t = Some u \<and> calm u"
proof -
  have "\<exists>u. on_app (call P n CallPublish) x = Some u \<and> calm u" if "calm x" for x :: "'a tray"
    using on_app_returns [OF sound_call [OF entry_call_simps(1) assms(1)] that, of P] by blast
  then show ?thesis
    using assms(2) by (auto simp: handle_heartbeat_timer_def Let_def calm_def)
qed

lemma ipc_command_returns:
  assumes "10 \<le> n" "calm t"
  shows "\<exists>r u. handle_ipc_command P n native v p t = Some (r, u) \<and> calm u \<and> same_queue t u"
proof -
  note onA = on_app_returns [OF sound_simple(2) [OF assms(1)]] on_app_returns [OF sound_simple(3) [OF assms(1)]]
    on_app_returns [OF sound_duration [OF assms(1)]] on_app_returns [OF sound_cancel [OF assms(1)]]
  have refl: "same_queue t t"
    by (simp add: same_queue_def)
  have acquire: "\<exists>r u. handle_ipc_acquire P n p t = Some (r, u) \<and> calm u \<and> same_queue t u"
  proof (cases "p = []")
    case True
    then show ?thesis
      using onA(1) [OF assms(2), of P] by (auto simp: handle_ipc_acquire_def Let_def)
  next
    case nonempty: False
    show ?thesis
    proof (cases "length p = 8 \<and> \<not> isl (validate_interval_hns (u64_from_le p))")
      case True
      then obtain i where i: "validate_interval_hns (u64_from_le p) = Inr i"
        by (cases "validate_interval_hns (u64_from_le p)") auto
      define x where
        "x = t\<lparr>tray_app := (tray_app t)\<lparr>config := (config (tray_app t))\<lparr>request_interval := i\<rparr>\<rparr>\<rparr>"
      have "calm x" "same_queue x u = same_queue t u" for u
        using assms(2) by (simp_all add: calm_def x_def same_queue_def)
      then show ?thesis
        using onA(1) [of x P] nonempty True i
        by (auto simp: handle_ipc_acquire_def Let_def x_def [symmetric])
    next
      case False
      then show ?thesis
        using nonempty assms(2) refl by (auto simp: handle_ipc_acquire_def Let_def split: sum.split)
    qed
  qed
  have cancel: "\<exists>r u. handle_ipc_cancel_schedule P n native p t = Some (r, u) \<and> calm u \<and> same_queue t u"
    using onA(4) [OF assms(2), of P native] assms(2) refl by (auto simp: handle_ipc_cancel_schedule_def)
  have schedule: "\<exists>r u. handle_ipc_schedule P n native p t = Some (r, u) \<and> calm u \<and> same_queue t u"
  proof (cases "length p = 5 \<and> ipc_schedule_action (hd p) \<noteq> None
      \<and> \<not> isl (preset_new (unat (u32_from_le (tl p))))")
    case True
    then obtain act d where ok: "ipc_schedule_action (hd p) = Some act"
        "preset_new (unat (u32_from_le (tl p))) = Inr d"
      by (cases "preset_new (unat (u32_from_le (tl p)))") auto
    obtain u where u: "on_app (schedule_duration_action P n act d) t = Some u" "calm u" "same_queue t u"
      using onA(3) [OF assms(2)] by blast
    obtain w where w: "on_app (cancel_scheduled_action P n native) u = Some w" "calm w" "same_queue u w"
      using onA(4) [OF u(2)] by blast
    show ?thesis
      using True ok u w
      by (auto simp: handle_ipc_schedule_def Let_def same_queue_def) (simp add: calm_def)
  next
    case False
    then show ?thesis
      using assms(2) refl by (auto simp: handle_ipc_schedule_def Let_def split: option.split sum.split)
  qed
  show ?thesis
    using acquire cancel schedule onA(2) [OF assms(2), of P] assms(2) refl
    by (cases v) (auto simp: handle_ipc_command_def)
qed

lemma drain_returns:
  "10 \<le> n \<Longrightarrow> calm t \<Longrightarrow> \<exists>u. drain_commands P n native rs t = Some u \<and> calm u
     \<and> ipc_command_queue u = [] \<and> map fst (sent_replies u) = map fst (sent_replies t) @ map responder rs"
proof (induction rs arbitrary: t)
  case Nil
  then show ?case by (simp add: calm_def)
next
  case (Cons r rs)
  have "calm (t\<lparr>ipc_command_queue := rs\<rparr>)"
    using Cons(3) by (simp add: calm_def)
  then obtain resp u where u: "handle_ipc_command P n native (req_verb r) (req_payload r)
      (t\<lparr>ipc_command_queue := rs\<rparr>) = Some (resp, u)" "calm u" "same_queue (t\<lparr>ipc_command_queue := rs\<rparr>) u"
    using ipc_command_returns [OF Cons(2)] by blast
  then have "calm (u\<lparr>sent_replies := sent_replies u @ [(responder r, resp)]\<rparr>)"
    by (simp add: calm_def)
  from Cons(1) [OF Cons(2) this] show ?case
    using u by (auto simp: same_queue_def)
qed

section \<open>What the handlers guarantee\<close>

lemma query_ownership [simp]: "ownership (snd (ctl_query P c)) = ownership c"
  by (auto simp: ctl_query_def selected_for_query_def and_then_def on_platform_def Let_def record_query_def
      invalidate_query_def set_snap_selected_def set_snap_bounds_def split: prod.split sum.split option.split)

lemma refresh_observation_fields [simp]:
  "controller (refresh_timing_observation P a) = snd (ctl_query P (controller a))"
  "pause (refresh_timing_observation P a) = pause a" "power_now (refresh_timing_observation P a) = power_now a"
  "anomalies_seen (refresh_timing_observation P a) = anomalies_seen a"
  by (simp_all add: refresh_timing_observation_def sync_timing_snapshot_def Let_def anomalies_seen_def
      split: prod.split)

text \<open>The steps of the tray that may acquire.\<close>

datatype acquiring_step = StepManualStart | StepApplyPolicy | StepReconcile | StepPowerReconciliation
  | StepPowerChange

definition run_step :: "'p timer_platform \<Rightarrow> nat \<Rightarrow> acquiring_step \<Rightarrow> 'p step" where
  "run_step P n s =
     (case s of
        StepManualStart \<Rightarrow> manual_start P n
      | StepApplyPolicy \<Rightarrow> apply_policy P n
      | StepReconcile \<Rightarrow> reconcile P n
      | StepPowerReconciliation \<Rightarrow> apply_power_reconciliation P n
      | StepPowerChange \<Rightarrow> release_for_power_change P n)"

lemma paused_step_queues:
  assumes "pause_active (pause a)" and "run_step P n s a = Some b"
  obtains i x r where "engine P n (CallQueueIntent i) x = Some (r, b)"
    "x = a \<or> x = refresh_timing_observation P a"
  using assms
  by (cases s) (auto simp: run_step_def manual_start_def apply_policy_def reconcile_def Let_def
      apply_power_reconciliation_def release_for_power_change_def call_def)

text \<open>C3: While a pause is active no handler acquires. From the released state, with fewer than three
  anomalies, a manual start, a policy application, a reconciliation after an observation and a power
  reconciliation, whatever the power state and the configuration, leave the timer released and do not
  show it as running.\<close>

theorem no_acquisition_during_pause:
  assumes few: "anomalies_seen a < MAX_ANOMALIES_BEFORE_QUIESCENT"
    and inv: "own_inv holds_request (controller a)" and own: "app_ownership a = OwnReleased"
    and paused: "pause_active (pause a)" and run: "run_step (windows_platform K) n s a = Some b"
  shows "app_ownership b = OwnReleased \<and> app_status b \<noteq> TsRunning"
proof -
  obtain i x r where x: "engine (windows_platform K) n (CallQueueIntent i) x = Some (r, b)"
      "x = a \<or> x = refresh_timing_observation (windows_platform K) a"
    using paused_step_queues [OF paused run] .
  have "anomalies_seen x < MAX_ANOMALIES_BEFORE_QUIESCENT" "own_inv holds_request (controller x)"
      "app_ownership x = OwnReleased" "pause_active (pause x)"
    using x(2) few inv own paused by (auto intro: wtp.query_inv)
  with queue_gated [OF this(1-3) x(1)] show ?thesis
    by auto
qed

definition paused_app :: "u32 windows_timer_platform app" where
  "paused_app = (sample_app 0 (controller_new (wtp_new 156250) 0))
     \<lparr>pause := snd (schedule ActPause 60 0 coordinator_new)\<rparr>"

theorem no_acquisition_during_pause_witness:
  "\<exists>b. run_step (windows_platform sim_kernel) 10 StepManualStart paused_app = Some b
     \<and> app_ownership b = OwnReleased"
proof -
  let ?P = "windows_platform sim_kernel"
  have few: "anomalies_seen paused_app = 0"
    using sample_anomalies [of 0 "controller_new (wtp_new (156250 :: u32)) 0"]
    by (simp add: paused_app_def anomalies_seen_def)
  have calm: "\<not> storm paused_app"
    by (simp add: storm_def few MAX_ANOMALIES_BEFORE_QUIESCENT_def)
  obtain b where b: "run_step ?P 10 StepManualStart paused_app = Some b"
    using sound_stepD [OF sound_simple(2) calm, of 10 ?P] by (auto simp: run_step_def)
  have "own_inv holds_request (controller paused_app)" "app_ownership paused_app = OwnReleased"
    using own_inv_new [of holds_request "wtp_new (156250 :: u32)" 0] wtp_new_free [of "156250 :: u32"]
    by (simp_all add: paused_app_def controller_new_def)
  moreover have "pause_active (pause paused_app)"
    by (simp add: paused_app_def schedule_def pause_active_def coordinator_new_def Let_def)
  ultimately show ?thesis
    using no_acquisition_during_pause [of paused_app, OF _ _ _ _ b] few b
    by (simp add: MAX_ANOMALIES_BEFORE_QUIESCENT_def)
qed

lemma shown_keeps:
  assumes "\<not> storm a" and "3 \<le> n"
  shows "\<exists>b. call P n (CallShowOwnership st) a = Some b \<and> app_ownership b = app_ownership a
     \<and> platform (controller b) = platform (controller a)"
proof -
  obtain b where "engine P (Suc (Suc (Suc 0))) (CallShowOwnership st) a = Some (True, b)"
      "app_ownership b = app_ownership a" "platform (controller b) = platform (controller a)"
    using assms(1) by (simp add: show_ownership_status_body_def publish_returns del: engine.simps(2))
  moreover from this(1) have "engine P n (CallShowOwnership st) a = Some (True, b)"
    by (rule engine_mono) (use assms(2) in simp)
  ultimately show ?thesis
    by (simp add: call_def)
qed

text \<open>A suspend does not release a held request on AC power. The suspend broadcast only
  reconciles with the last power state; with an owned request on AC and no pause the
  reconciliation preserves ownership, so the machine goes to sleep with the request held.\<close>

theorem suspend_keeps_request:
  assumes few: "anomalies_seen (tray_app t) < MAX_ANOMALIES_BEFORE_QUIESCENT"
    and inv: "own_inv holds_request (controller (tray_app t))"
    and own: "app_ownership (tray_app t) = Owned" and ac: "power_now (tray_app t) = Ac"
    and free: "\<not> pause_active (pause (tray_app t))" and fuel: "3 \<le> n"
  shows "\<exists>u. handle_power_broadcast (windows_platform K) n ApmSuspend native t = Some u
    \<and> app_ownership (tray_app u) = Owned \<and> holds_request (platform (controller (tray_app u)))"
proof -
  let ?P = "windows_platform K"
  define x where "x = refresh_timing_observation ?P ((tray_app t)\<lparr>running_since := None\<rparr>)"
  have x: "app_ownership x = Owned" "power_now x = Ac" "\<not> pause_active (pause x)"
    using own ac free by (simp_all add: x_def)
  have held: "own_inv holds_request (controller x)"
    using wtp.query_inv [OF inv] by (simp add: x_def)
  have calm: "\<not> storm x"
    using few by (simp add: x_def) (simp add: storm_def not_le)
  have released: "release_for_power_change ?P n ((tray_app t)\<lparr>running_since := None\<rparr>)
      = call ?P n (CallShowOwnership TsStopped) x"
    using x by (simp add: release_for_power_change_def x_def [symmetric] apply_power_reconciliation_def
        resume_on_ac_applies_def power_reconciliation_of_def)
  obtain b where b: "call ?P n (CallShowOwnership TsStopped) x = Some b" "app_ownership b = Owned"
      "platform (controller b) = platform (controller x)"
    using shown_keeps [OF calm fuel, of ?P TsStopped] x by auto
  moreover have "holds_request (platform (controller x))"
    using held x(1) by (simp add: own_inv_def)
  ultimately show ?thesis
    by (auto simp: handle_power_broadcast_def on_app_def released)
qed

definition sample_tray :: "'p app \<Rightarrow> 'p tray" where
  "sample_tray a = \<lparr>tray_app = a, power_debounce_active = False, power_debounce_target_state = None,
     presets_manager = default_presets, responsiveness = tracker_new, responsiveness_notified = False,
     last_heartbeat_fire = None, watchdog_stall_events = 0, ipc_schedule_id = 0, ipc_command_queue = [],
     sent_replies = []\<rparr>"

lemma sample_tray_calm: "k < MAX_ANOMALIES_BEFORE_QUIESCENT \<Longrightarrow> calm (sample_tray (sample_app k c))"
  by (simp add: calm_def storm_def sample_tray_def sample_anomalies not_le)

lemma sample_app_power:
  "power_now (sample_app k c) = Ac" "\<not> pause_active (pause (sample_app k c))"
  by (simp_all add: sample_app_def pause_active_def coordinator_new_def)

theorem suspend_keeps_request_witness:
  "\<exists>u. handle_power_broadcast (windows_platform sim_kernel) 10 ApmSuspend (Inr (1, 0))
      (sample_tray (sample_app 0 (tick_run sim_kernel 156250 0 [OpStart]))) = Some u
    \<and> app_ownership (tray_app u) = Owned"
  using suspend_keeps_request [of "sample_tray (sample_app 0 (tick_run sim_kernel 156250 0 [OpStart]))" 10
      sim_kernel "Inr (1, 0)"] tick_run_inv [of sim_kernel 156250 0 "[OpStart]"]
  by (auto simp: sample_tray_def sample_anomalies MAX_ANOMALIES_BEFORE_QUIESCENT_def sim_started(1)
      sample_app_power)

lemma sound_probe: "10 \<le> n \<Longrightarrow> sound_step (probe_startup_kernel_settle (windows_platform K) n)"
  unfolding sound_step_def
proof (intro allI impI)
  fix a :: "'a windows_timer_platform app"
  assume n: "10 \<le> n" and a: "\<not> storm a"
  obtain oc c where "settle_loop (windows_platform K) n 0 (controller a) = Some (oc, c)"
    using settle_loop_returns [of 0 n K "controller a"] n by auto
  then show "\<exists>b. probe_startup_kernel_settle (windows_platform K) n a = Some b \<and> \<not> storm b"
    using a by (auto simp: probe_startup_kernel_settle_def Let_def split: option.split)
qed

text \<open>Every handler of the message loop returns. With fuel ten and fewer than three anomalies recorded
  the handlers for timers, power broadcasts, schedules and IPC commands and the startup probe all
  complete, and no anomaly appears in them, so that the next handler returns as well.\<close>

theorem handlers_return:
  assumes "calm t" and "10 \<le> n" and P: "P = windows_platform K"
  shows "(\<exists>u. handle_power_broadcast P n code native t = Some u \<and> calm u)
    \<and> (\<exists>u. handle_power_debounce_timer P n t = Some u \<and> calm u)
    \<and> (\<exists>u. handle_heartbeat_timer P n t = Some u \<and> calm u)
    \<and> (\<exists>u. drain_ipc_command_queue P n native t = Some u \<and> calm u)
    \<and> (\<exists>u. on_app (handle_handoff_timer P n) t = Some u \<and> calm u)
    \<and> (\<exists>u. on_app (handle_duration_timer P n native k) t = Some u \<and> calm u)
    \<and> (\<exists>u. on_app (handle_schedule_display_timer P n) t = Some u \<and> calm u)
    \<and> (\<exists>u. on_app (schedule_duration_action P n act d) t = Some u \<and> calm u)
    \<and> (\<exists>u. on_app (cancel_scheduled_action P n native) t = Some u \<and> calm u)
    \<and> (\<exists>u. on_app (service_surface_recovery P n) t = Some u \<and> calm u)
    \<and> (\<exists>u. on_app (probe_startup_kernel_settle P n) t = Some u \<and> calm u)"
proof -
  let ?ok = "\<lambda>f. \<exists>u. f t = Some u \<and> calm u"
  have app: "?ok (on_app f)" if "sound_step f" for f
    using on_app_returns [OF that assms(1)] by blast
  have "?ok (drain_ipc_command_queue P n native)"
    using drain_returns [OF assms(2,1), of P native "ipc_command_queue t"]
    by (auto simp: drain_ipc_command_queue_def)
  moreover have "sound_step (probe_startup_kernel_settle P n)"
    unfolding P by (rule sound_probe [OF assms(2)])
  ultimately show ?thesis
    using assms by (intro conjI app broadcast_returns debounce_timer_returns heartbeat_returns
        sound_handoff_timer sound_duration_timer sound_simple sound_duration sound_cancel sound_surface)
qed

theorem handlers_return_witness:
  "\<exists>u. handle_heartbeat_timer (windows_platform sim_kernel) 10
     (sample_tray (sample_app 2 (tick_run sim_kernel 156250 0 [OpStart]))) = Some u \<and> calm u"
  using handlers_return [OF sample_tray_calm _ refl, of 2 10 sim_kernel]
  by (simp add: MAX_ANOMALIES_BEFORE_QUIESCENT_def)

text \<open>The UI thread answers every queued command exactly once and in order. Draining the queue returns,
  leaves it empty and appends one reply per queued request to the replies sent, in the order of the
  queue and to the responder of that request.\<close>

theorem ipc_drain_answers_all:
  assumes "calm t" and "10 \<le> n"
  shows "\<exists>u. drain_ipc_command_queue P n native t = Some u \<and> ipc_command_queue u = []
    \<and> map fst (sent_replies u) = map fst (sent_replies t) @ map responder (ipc_command_queue t)"
  using drain_returns [OF assms(2,1), of P native "ipc_command_queue t"]
  by (auto simp: drain_ipc_command_queue_def)

definition queued_tray :: "u32 windows_timer_platform tray" where
  "queued_tray = (sample_tray (sample_app 0 (tick_run sim_kernel 156250 0 [])))
     \<lparr>ipc_command_queue := [\<lparr>req_verb = RequestRelease, req_payload = [], responder = 7\<rparr>,
                            \<lparr>req_verb = QueryStatus, req_payload = [], responder = 8\<rparr>]\<rparr>"

theorem ipc_drain_answers_all_witness:
  "\<exists>u. drain_ipc_command_queue (windows_platform sim_kernel) 10 (Inr (1, 0)) queued_tray = Some u
     \<and> map fst (sent_replies u) = [7, 8]"
proof -
  have "calm queued_tray"
    using sample_tray_calm [of 0 "tick_run sim_kernel 156250 0 []"]
    by (simp add: queued_tray_def calm_def MAX_ANOMALIES_BEFORE_QUIESCENT_def)
  from ipc_drain_answers_all [OF this, of 10 "windows_platform sim_kernel" "Inr (1, 0)"] show ?thesis
    by (auto simp: queued_tray_def sample_tray_def)
qed

end
