(* ===== verification/Config.thy ===== *)
theory Config
  imports Session Pause
begin

text \<open>
  Model of \<open>apps/true-tick/src/config.rs\<close>: the configuration file with its bounded parser, the
  migration of the legacy interval, the atomic save and the recovery of a damaged file.

  Text is a list of bytes (a \<open>string\<close>), so that the length limits of the source are exact. The
  directory is a map from file names to contents and each file system call takes its outcome as an
  input, as in \<open>Session\<close>.
\<close>

section \<open>The configuration\<close>

definition MAX_CONFIG_FILE_BYTES :: nat where
  [model_defs]: "MAX_CONFIG_FILE_BYTES = 64 * 1024"

definition MAX_CONFIG_LINE_BYTES :: nat where
  [model_defs]: "MAX_CONFIG_LINE_BYTES = 4 * 1024"

definition MAX_CONFIG_KEY_BYTES :: nat where
  [model_defs]: "MAX_CONFIG_KEY_BYTES = 64"

definition MAX_CONFIG_VALUE_BYTES :: nat where
  [model_defs]: "MAX_CONFIG_VALUE_BYTES = 1024"

definition MAX_CONFIG_ERROR_BYTES :: nat where
  [model_defs]: "MAX_CONFIG_ERROR_BYTES = 256"

definition AUTOMATIC_REQUEST_INTERVAL :: hns where
  [model_defs]: "AUTOMATIC_REQUEST_INTERVAL = 0"

definition LEGACY_ONE_MILLISECOND_REQUEST_INTERVAL :: hns where
  [model_defs]: "LEGACY_ONE_MILLISECOND_REQUEST_INTERVAL = 10000"

definition FACTORY_SCHEDULE_PRESETS_SECONDS :: "nat list" where
  [model_defs]: "FACTORY_SCHEDULE_PRESETS_SECONDS = [60, 300, 900, 1800, 3600]"

record configuration =
  cfg_automatic :: bool
  cfg_startup_enabled :: bool
  cfg_auto_resume_on_ac :: bool
  cfg_battery_lockout :: bool
  cfg_request_interval :: hns
  cfg_schedule_presets :: "nat list"

definition config_default :: configuration where
  "config_default = \<lparr>cfg_automatic = False, cfg_startup_enabled = True, cfg_auto_resume_on_ac = True,
     cfg_battery_lockout = False, cfg_request_interval = AUTOMATIC_REQUEST_INTERVAL,
     cfg_schedule_presets = FACTORY_SCHEDULE_PRESETS_SECONDS\<rparr>"

datatype config_error = CfgRead | CfgWrite | CfgInvalid string

definition invalid_reason :: "string \<Rightarrow> config_error" where
  "invalid_reason reason = CfgInvalid (text_of (truncate_utf8 (bytes_of reason) MAX_CONFIG_ERROR_BYTES))"

section \<open>Parsing\<close>

definition invalid_line :: "nat \<Rightarrow> string \<Rightarrow> config_error" where
  "invalid_line line_number reason = invalid_reason (''line '' @ dec line_number @ '': '' @ reason)"

fun parse_preset_elements ::
    "nat \<Rightarrow> string list \<Rightarrow> nat list \<Rightarrow> (config_error, nat list) result" where
  "parse_preset_elements line_number [] acc = Ok acc"
| "parse_preset_elements line_number (raw # rest) acc =
     (let element = trim raw in
      if element = [] then parse_preset_elements line_number rest acc
      else case parse_unsigned (2 ^ 32 - 1) element of
        None \<Rightarrow> Err (invalid_line line_number ''schedule preset must be an integer'')
      | Some seconds \<Rightarrow>
          if \<not> (MIN_PRESET_SECONDS \<le> seconds \<and> seconds \<le> MAX_PRESET_SECONDS)
          then Err (invalid_line line_number ''schedule preset out of bounds'')
          else if MAX_PRESETS \<le> length acc
          then Err (invalid_line line_number ''schedule presets exceed maximum count'')
          else parse_preset_elements line_number rest (acc @ [seconds]))"

definition parse_schedule_presets :: "string \<Rightarrow> nat \<Rightarrow> (config_error, nat list) result" where
  "parse_schedule_presets v line_number =
     (case Option.bind (strip_prefix ''['' v) (strip_suffix '']'') of
        None \<Rightarrow> Err (invalid_line line_number ''schedule_presets_seconds must be an integer array'')
      | Some inner \<Rightarrow>
          (case parse_preset_elements line_number (split_on (CHR '','') inner) [] of
             Inl e \<Rightarrow> Err e
           | Inr presets \<Rightarrow>
               if presets = [] then Err (invalid_line line_number ''schedule_presets_seconds must not be empty'')
               else Ok presets))"

definition parse_flag :: "string \<Rightarrow> string \<Rightarrow> (config_error, bool) result" where
  "parse_flag key v =
     (if trim v = ''true'' then Ok True
      else if trim v = ''false'' then Ok False
      else Err (invalid_reason (''invalid '' @ key @ '' value '' @ trim v)))"

record parse_state =
  parsed :: configuration
  migrated :: bool
  seen_keys :: "string set"

definition assign_key :: "nat \<Rightarrow> string \<Rightarrow> string \<Rightarrow> parse_state \<Rightarrow> (config_error, parse_state) result" where
  "assign_key line_number key v s =
     (let set_flag = (\<lambda>f. map_sum id f (parse_flag key v)) in
      if key = ''automatic'' then set_flag (\<lambda>b. s\<lparr>parsed := (parsed s)\<lparr>cfg_automatic := b\<rparr>\<rparr>)
      else if key = ''startup_enabled'' then set_flag (\<lambda>b. s\<lparr>parsed := (parsed s)\<lparr>cfg_startup_enabled := b\<rparr>\<rparr>)
      else if key = ''auto_resume_on_ac''
      then set_flag (\<lambda>b. s\<lparr>parsed := (parsed s)\<lparr>cfg_auto_resume_on_ac := b\<rparr>\<rparr>)
      else if key = ''battery_lockout'' then set_flag (\<lambda>b. s\<lparr>parsed := (parsed s)\<lparr>cfg_battery_lockout := b\<rparr>\<rparr>)
      else if key = ''request_interval_hns'' then
        (case parse_unsigned (2 ^ 64 - 1) v of
           None \<Rightarrow> Err (invalid_reason (''invalid request interval on line '' @ dec line_number))
         | Some n \<Rightarrow>
             if (of_nat n :: hns) = LEGACY_ONE_MILLISECOND_REQUEST_INTERVAL
             then Ok (s\<lparr>migrated := True,
                        parsed := (parsed s)\<lparr>cfg_request_interval := AUTOMATIC_REQUEST_INTERVAL\<rparr>\<rparr>)
             else Ok (s\<lparr>parsed := (parsed s)\<lparr>cfg_request_interval := of_nat n\<rparr>\<rparr>))
      else if key = ''schedule_presets_seconds''
      then map_sum id (\<lambda>ps. s\<lparr>parsed := (parsed s)\<lparr>cfg_schedule_presets := ps\<rparr>\<rparr>)
             (parse_schedule_presets v line_number)
      else Err (invalid_reason (''unknown configuration key '' @ key)))"

definition parse_line :: "nat \<Rightarrow> string \<Rightarrow> parse_state \<Rightarrow> (config_error, parse_state) result" where
  "parse_line line_number raw s =
     (if MAX_CONFIG_LINE_BYTES < length raw
      then Err (invalid_reason (''line '' @ dec line_number @ '' exceeds maximum size''))
      else
        let line = trim (hd (split_on (CHR ''#'') raw)) in
        if line = [] then Ok s
        else case split_once (CHR ''='') line of
          None \<Rightarrow> Err (invalid_reason (''line '' @ dec line_number @ '' needs key = value''))
        | Some (raw_key, raw_value) \<Rightarrow>
            let key = trim raw_key; v = trim raw_value in
            if MAX_CONFIG_KEY_BYTES < length key
            then Err (invalid_reason (''line '' @ dec line_number @ '' key exceeds maximum size''))
            else if MAX_CONFIG_VALUE_BYTES < length v
            then Err (invalid_reason (''line '' @ dec line_number @ '' value exceeds maximum size''))
            else if key \<in> seen_keys s then Err (invalid_reason (''duplicate configuration key '' @ key))
            else assign_key line_number key v (s\<lparr>seen_keys := insert key (seen_keys s)\<rparr>))"

fun parse_lines :: "nat \<Rightarrow> string list \<Rightarrow> parse_state \<Rightarrow> (config_error, parse_state) result" where
  "parse_lines line_number [] s = Ok s"
| "parse_lines line_number (raw # rest) s =
     (case parse_line line_number raw s of Inl e \<Rightarrow> Err e | Inr s1 \<Rightarrow> parse_lines (Suc line_number) rest s1)"

definition parse_with_migration :: "string \<Rightarrow> (config_error, configuration \<times> bool) result" where
  "parse_with_migration text =
     (if MAX_CONFIG_FILE_BYTES < length text then Err (invalid_reason ''configuration file exceeds maximum size'')
      else map_sum id (\<lambda>s. (parsed s, migrated s))
             (parse_lines 1 (lines text) \<lparr>parsed = config_default, migrated = False, seen_keys = {}\<rparr>))"

section \<open>Saving\<close>

definition bool_text :: "bool \<Rightarrow> string" where
  "bool_text b = (if b then ''true'' else ''false'')"

definition config_lines :: "configuration \<Rightarrow> string list" where
  "config_lines c =
     [''automatic = '' @ bool_text (cfg_automatic c),
      ''startup_enabled = '' @ bool_text (cfg_startup_enabled c),
      ''auto_resume_on_ac = '' @ bool_text (cfg_auto_resume_on_ac c),
      ''battery_lockout = '' @ bool_text (cfg_battery_lockout c),
      ''request_interval_hns = '' @ dec (unat (cfg_request_interval c)),
      ''schedule_presets_seconds = ['' @ join_with '', '' (map dec (cfg_schedule_presets c)) @ '']'']"

definition config_text :: "configuration \<Rightarrow> string" where
  "config_text c = concat (map (\<lambda>l. l @ newline) (config_lines c))"

definition CONFIG_FILENAME :: string where
  [model_defs]: "CONFIG_FILENAME = ''true-tick.toml''"

definition temporary_path_for :: "u32 \<Rightarrow> u64 \<Rightarrow> string" where
  "temporary_path_for process sequence =
     ''true-tick.'' @ dec (unat process) @ ''.'' @ dec (unat sequence) @ ''.toml.tmp''"

definition write_config_bytes ::
    "u32 \<Rightarrow> u64 \<Rightarrow> io_faults \<Rightarrow> bytes \<Rightarrow> files \<Rightarrow> (config_error, unit) result \<times> files" where
  "write_config_bytes process sequence io bs fs =
     (let tmp = temporary_path_for process sequence;
          failed = (\<lambda>fs. (Err CfgWrite, remove_temporary io tmp fs))
      in if fail_create io then failed fs
         else case fail_write io of
           Some n \<Rightarrow> failed (fs(tmp := Some (take n bs)))
         | None \<Rightarrow>
             let fs1 = fs(tmp := Some bs) in
             if fail_sync io then failed fs1
             else if fail_replace io then failed fs1
             else (Ok (), fs1(CONFIG_FILENAME := fs1 tmp, tmp := None)))"

text \<open>The sequence number is a process-wide atomic counter; the save returns the next one.\<close>

definition save_atomic ::
    "io_faults \<Rightarrow> u32 \<Rightarrow> configuration \<Rightarrow> u64 \<times> files \<Rightarrow> (config_error, unit) result \<times> u64 \<times> files" where
  "save_atomic io process c st =
     (case st of (sequence, fs) \<Rightarrow>
        case write_config_bytes process sequence io (bytes_of (config_text c)) fs of
          (r, fs1) \<Rightarrow> (r, sequence + 1, fs1))"

section \<open>Loading\<close>

record load_outcome =
  loaded :: configuration
  was_migrated :: bool
  recovered_from_corruption :: bool

record read_faults =
  fail_metadata :: bool
  fail_read :: bool
  fail_rename :: bool
  fail_exists :: "string \<Rightarrow> bool"

definition backup_name :: "nat \<Rightarrow> nat \<Rightarrow> string" where
  "backup_name timestamp attempt =
     CONFIG_FILENAME @ ''.corrupted.'' @ dec timestamp
       @ (if attempt = 0 then [] else ''.'' @ dec attempt) @ ''.bak''"

text \<open>A name is free when \<open>Path::exists\<close> answers false, which a failing metadata call does too; renaming to a name
  that is taken replaces the file.\<close>

definition find_backup :: "read_faults \<Rightarrow> nat \<Rightarrow> files \<Rightarrow> string option" where
  "find_backup rf timestamp fs = find (\<lambda>n. fail_exists rf n \<or> fs n = None) (map (backup_name timestamp) [0..<1025])"

definition recover_corrupted ::
    "read_faults \<Rightarrow> io_faults \<Rightarrow> u32 \<Rightarrow> nat \<Rightarrow> u64 \<times> files
      \<Rightarrow> (config_error, load_outcome) result \<times> u64 \<times> files" where
  "recover_corrupted rf io process timestamp st =
     (case st of (sequence, fs) \<Rightarrow>
        case find_backup rf timestamp fs of
          None \<Rightarrow> (Err CfgWrite, st)
        | Some backup \<Rightarrow>
            if fail_rename rf then (Err CfgWrite, st)
            else
              let fs1 = fs(backup := fs CONFIG_FILENAME, CONFIG_FILENAME := None) in
              (case save_atomic io process config_default (sequence, fs1) of
                 (Inl e, st2) \<Rightarrow> (Err e, st2)
               | (Inr _, st2) \<Rightarrow>
                   (Ok \<lparr>loaded = config_default, was_migrated = False, recovered_from_corruption = True\<rparr>, st2)))"

definition load_with_migration ::
    "read_faults \<Rightarrow> io_faults \<Rightarrow> u32 \<Rightarrow> nat \<Rightarrow> u64 \<times> files
      \<Rightarrow> (config_error, load_outcome) result \<times> u64 \<times> files" where
  "load_with_migration rf io process timestamp st =
     (case snd st CONFIG_FILENAME of
        None \<Rightarrow> (Err CfgRead, st)
      | Some bs \<Rightarrow>
          if fail_metadata rf then (Err CfgRead, st)
          else if MAX_CONFIG_FILE_BYTES < length bs
          then (Err (invalid_reason ''configuration file exceeds maximum size''), st)
          else if fail_read rf then (Err CfgRead, st)
          else if bs = [] then recover_corrupted rf io process timestamp st
          else if \<not> valid_utf8 bs then recover_corrupted rf io process timestamp st
          else case parse_with_migration (text_of bs) of
            Inl _ \<Rightarrow> recover_corrupted rf io process timestamp st
          | Inr (c, False) \<Rightarrow>
              (Ok \<lparr>loaded = c, was_migrated = False, recovered_from_corruption = False\<rparr>, st)
          | Inr (c, True) \<Rightarrow>
              (case save_atomic io process c st of
                 (Inl e, st1) \<Rightarrow> (Err e, st1)
               | (Inr _, st1) \<Rightarrow>
                   (Ok \<lparr>loaded = c, was_migrated = True, recovered_from_corruption = False\<rparr>, st1)))"

section \<open>Reading back what was saved\<close>

definition config_ok :: "configuration \<Rightarrow> bool" where
  "config_ok c \<longleftrightarrow> cfg_schedule_presets c \<noteq> [] \<and> length (cfg_schedule_presets c) \<le> MAX_PRESETS
     \<and> (\<forall>p\<in>set (cfg_schedule_presets c). MIN_PRESET_SECONDS \<le> p \<and> p \<le> MAX_PRESET_SECONDS)
     \<and> cfg_request_interval c \<noteq> LEGACY_ONE_MILLISECOND_REQUEST_INTERVAL"

lemma bool_text_plain: "plain_ends (bool_text b)"
  by (simp add: bool_text_def plain_ends_def plain_char_def)

lemma bool_text_no_special: "CHR 0x0A \<notin> set (bool_text b)" "CHR 0x0D \<notin> set (bool_text b)" "CHR ''#'' \<notin> set (bool_text b)"
  by (simp_all add: bool_text_def)

lemma split_join:
  "(\<forall>p\<in>set (p # ps). CHR '','' \<notin> set p) \<Longrightarrow>
   split_on (CHR '','') (join_with '', '' (p # ps)) = p # map (\<lambda>q. CHR 0x20 # q) ps"
proof (induction ps arbitrary: p)
  case (Cons q qs)
  have "split_on (CHR '','') (CHR 0x20 # join_with '', '' (q # qs)) = (CHR 0x20 # q) # map (\<lambda>q. CHR 0x20 # q) qs"
    using Cons.IH [of q] Cons.prems by simp
  then show ?case
    using Cons.prems by (simp add: split_on_append_sep)
qed (simp add: split_on_no_sep)

lemma parse_elements_dec:
  assumes "\<forall>p\<in>set ps. MIN_PRESET_SECONDS \<le> p \<and> p \<le> MAX_PRESET_SECONDS"
    and "length acc + length ps \<le> MAX_PRESETS" and "\<And>p. f p \<in> {dec p, CHR 0x20 # dec p}"
  shows "parse_preset_elements n (map f ps) acc = Ok (acc @ ps)"
  using assms
proof (induction ps arbitrary: acc)
  case (Cons p ps)
  have "trim (f p) = dec p"
    using Cons.prems(3) [of p] by (auto simp: trim_plain_ends dec_plain_ends trim_leading_space)
  moreover have "parse_unsigned (2 ^ 32 - 1) (dec p) = Some p"
    using Cons.prems(1) by (simp add: MAX_PRESET_SECONDS_def)
  ultimately show ?case
    using Cons.IH [of "acc @ [p]"] Cons.prems by (simp add: Let_def)
qed simp

lemma parse_presets_join:
  assumes "ps \<noteq> []" and "\<forall>p\<in>set ps. MIN_PRESET_SECONDS \<le> p \<and> p \<le> MAX_PRESET_SECONDS"
    and "length ps \<le> MAX_PRESETS"
  shows "parse_schedule_presets (''['' @ join_with '', '' (map dec ps) @ '']'') n = Ok ps"
proof -
  obtain q qs where ps: "ps = q # qs"
    using assms(1) by (cases ps) auto
  have elems: "parse_preset_elements n (dec q # map (\<lambda>p. CHR 0x20 # dec p) qs) [] = Ok (q # qs)"
  proof -
    have "parse_preset_elements n (map dec [q]) [] = Ok [q]"
      using parse_elements_dec [of "[q]" "[]" dec n] assms by (simp add: ps)
    then have "trim (dec q) \<noteq> [] \<and> parse_preset_elements n (dec q # map (\<lambda>p. CHR 0x20 # dec p) qs) []
        = parse_preset_elements n (map (\<lambda>p. CHR 0x20 # dec p) qs) [q]"
      by (auto simp: trim_plain_ends dec_plain_ends Let_def split: option.splits if_splits)
    moreover have "parse_preset_elements n (map (\<lambda>p. CHR 0x20 # dec p) qs) [q] = Ok (q # qs)"
      using parse_elements_dec [of qs "[q]" "\<lambda>p. CHR 0x20 # dec p" n] assms by (simp add: ps)
    ultimately show ?thesis by simp
  qed
  have "strip_suffix '']'' (join_with '', '' (map dec ps) @ '']'') = Some (join_with '', '' (map dec ps))"
    by (simp add: strip_suffix_Some)
  moreover have "split_on (CHR '','') (join_with '', '' (map dec ps)) = dec q # map (\<lambda>p. CHR 0x20 # dec p) qs"
    using split_join [of "dec q" "map dec qs"] dec_no_special(4) by (simp add: ps comp_def)
  ultimately show ?thesis
    using elems by (simp add: parse_schedule_presets_def ps)
qed

lemma parse_line_pair:
  assumes "plain_ends key" "plain_ends v" "CHR ''='' \<notin> set key" "CHR ''#'' \<notin> set (key @ v)"
    and "length key \<le> MAX_CONFIG_KEY_BYTES" "length v \<le> MAX_CONFIG_VALUE_BYTES" "key \<notin> seen_keys s"
  shows "parse_line n (key @ '' = '' @ v) s = assign_key n key v (s\<lparr>seen_keys := insert key (seen_keys s)\<rparr>)"
proof -
  let ?line = "key @ '' = '' @ v"
  have "CHR ''#'' \<notin> set ?line"
    using assms(4) by simp
  then have "hd (split_on (CHR ''#'') ?line) = ?line"
    by (simp add: split_on_no_sep del: append.simps)
  moreover have "trim ?line = ?line"
    using assms(1,2) by (intro trim_plain_ends) (auto simp: plain_ends_def)
  moreover have "split_once (CHR ''='') ?line = Some (key @ [CHR 0x20], CHR 0x20 # v)"
    using split_once_append [of "CHR ''=''" "key @ [CHR 0x20]" "CHR 0x20 # v"] assms(3) by simp
  moreover have "length ?line \<le> MAX_CONFIG_LINE_BYTES"
    using assms(5,6) by (simp add: model_defs)
  ultimately show ?thesis
    using assms
    by (simp add: parse_line_def Let_def trim_trailing_space trim_leading_space trim_plain_ends
        not_less)
qed

lemma preset_text_facts:
  assumes "config_ok c"
  defines "v \<equiv> ''['' @ join_with '', '' (map dec (cfg_schedule_presets c)) @ '']''"
  shows "plain_ends v" "CHR ''#'' \<notin> set v" "CHR 0x0A \<notin> set v" "CHR 0x0D \<notin> set v" "length v \<le> 88"
proof -
  let ?j = "join_with '', '' (map dec (cfg_schedule_presets c))"
  have "set ?j \<subseteq> set '', '' \<union> (\<Union>p\<in>set (map dec (cfg_schedule_presets c)). set p)"
    by (rule join_chars)
  then have chars: "CHR ''#'' \<notin> set ?j" "CHR 0x0A \<notin> set ?j" "CHR 0x0D \<notin> set ?j"
    using dec_no_special by fastforce+
  show "plain_ends v"
    by (simp add: v_def plain_ends_def plain_char_def)
  show "CHR ''#'' \<notin> set v" "CHR 0x0A \<notin> set v" "CHR 0x0D \<notin> set v"
    using chars by (simp_all add: v_def)
  have "\<forall>p\<in>set (map dec (cfg_schedule_presets c)). length p \<le> 5"
    using assms(1) by (auto simp: config_ok_def length_dec_le MAX_PRESET_SECONDS_def)
  from join_length [OF this, of "'', ''"] show "length v \<le> 88"
    using assms(1) by (simp add: v_def config_ok_def MAX_PRESETS_def)
qed

lemma length_interval_text: "length (dec (unat (h :: hns))) \<le> 20"
proof -
  have "unat h < 10 ^ 20"
    using unat_lt_power [of h] by simp
  then show ?thesis
    by (simp add: length_dec_le)
qed

definition parse_start :: parse_state where
  "parse_start = \<lparr>parsed = config_default, migrated = False, seen_keys = {}\<rparr>"

lemma parse_flag_text: "parse_flag key (bool_text b) = Ok b"
proof -
  have "trim (bool_text b) = bool_text b"
    by (rule trim_plain_ends [OF bool_text_plain])
  then show ?thesis
    by (simp add: parse_flag_def) (simp add: bool_text_def)
qed

lemma length_bool_text: "length (bool_text b) \<le> 5"
  by (simp add: bool_text_def)

lemmas line_facts = bool_text_plain bool_text_no_special length_bool_text dec_plain_ends dec_no_special
  assign_key_def parse_flag_text plain_ends_def [of "_ # _"] plain_char_def Let_def

lemma parse_automatic_line:
  "''automatic'' \<notin> seen_keys s \<Longrightarrow> parse_line n (''automatic = '' @ bool_text b) s
     = Ok (s\<lparr>seen_keys := insert ''automatic'' (seen_keys s), parsed := (parsed s)\<lparr>cfg_automatic := b\<rparr>\<rparr>)"
  using parse_line_pair [of "''automatic''" "bool_text b" s n] length_bool_text [of b]
  by (simp add: line_facts model_defs)

lemma parse_startup_enabled_line:
  "''startup_enabled'' \<notin> seen_keys s \<Longrightarrow> parse_line n (''startup_enabled = '' @ bool_text b) s
     = Ok (s\<lparr>seen_keys := insert ''startup_enabled'' (seen_keys s), parsed := (parsed s)\<lparr>cfg_startup_enabled := b\<rparr>\<rparr>)"
  using parse_line_pair [of "''startup_enabled''" "bool_text b" s n] length_bool_text [of b]
  by (simp add: line_facts model_defs)

lemma parse_auto_resume_on_ac_line:
  "''auto_resume_on_ac'' \<notin> seen_keys s \<Longrightarrow> parse_line n (''auto_resume_on_ac = '' @ bool_text b) s
     = Ok (s\<lparr>seen_keys := insert ''auto_resume_on_ac'' (seen_keys s), parsed := (parsed s)\<lparr>cfg_auto_resume_on_ac := b\<rparr>\<rparr>)"
  using parse_line_pair [of "''auto_resume_on_ac''" "bool_text b" s n] length_bool_text [of b]
  by (simp add: line_facts model_defs)

lemma parse_battery_lockout_line:
  "''battery_lockout'' \<notin> seen_keys s \<Longrightarrow> parse_line n (''battery_lockout = '' @ bool_text b) s
     = Ok (s\<lparr>seen_keys := insert ''battery_lockout'' (seen_keys s), parsed := (parsed s)\<lparr>cfg_battery_lockout := b\<rparr>\<rparr>)"
  using parse_line_pair [of "''battery_lockout''" "bool_text b" s n] length_bool_text [of b]
  by (simp add: line_facts model_defs)

lemma parse_interval_line:
  assumes "''request_interval_hns'' \<notin> seen_keys s" and "h \<noteq> LEGACY_ONE_MILLISECOND_REQUEST_INTERVAL"
  shows "parse_line n (''request_interval_hns = '' @ dec (unat h)) s
     = Ok (s\<lparr>seen_keys := insert ''request_interval_hns'' (seen_keys s),
             parsed := (parsed s)\<lparr>cfg_request_interval := h\<rparr>\<rparr>)"
proof -
  have "parse_unsigned (2 ^ 64 - 1) (dec (unat h)) = Some (unat h)"
    using unat_lt_power [of h] by (simp del: parse_unsigned_dec) (simp add: parse_unsigned_dec)
  then show ?thesis
    using parse_line_pair [of "''request_interval_hns''" "dec (unat h)" s n] length_interval_text [of h] assms
    by (simp add: line_facts model_defs del: parse_unsigned_dec)
qed

lemma parse_presets_line:
  assumes "config_ok c" and "''schedule_presets_seconds'' \<notin> seen_keys s"
  shows "parse_line n (''schedule_presets_seconds = ['' @ join_with '', '' (map dec (cfg_schedule_presets c)) @ '']'') s
     = Ok (s\<lparr>seen_keys := insert ''schedule_presets_seconds'' (seen_keys s),
             parsed := (parsed s)\<lparr>cfg_schedule_presets := cfg_schedule_presets c\<rparr>\<rparr>)"
proof -
  have "parse_schedule_presets (''['' @ join_with '', '' (map dec (cfg_schedule_presets c)) @ '']'') n
      = Ok (cfg_schedule_presets c)"
    using parse_presets_join assms(1) by (simp add: config_ok_def)
  then show ?thesis
    using parse_line_pair [of "''schedule_presets_seconds''"
        "''['' @ join_with '', '' (map dec (cfg_schedule_presets c)) @ '']''" s n]
      preset_text_facts [OF assms(1)] assms(2)
    by (simp add: line_facts model_defs)
qed

lemma parse_config_lines:
  assumes "config_ok c"
  shows "\<exists>s. parse_lines 1 (config_lines c) parse_start = Ok s \<and> parsed s = c \<and> \<not> migrated s"
proof -
  have "cfg_request_interval c \<noteq> LEGACY_ONE_MILLISECOND_REQUEST_INTERVAL"
    using assms by (simp add: config_ok_def)
  then show ?thesis
    unfolding config_lines_def parse_start_def
    using parse_presets_line [OF assms]
    by (simp add: parse_automatic_line parse_startup_enabled_line parse_auto_resume_on_ac_line
        parse_battery_lockout_line parse_interval_line del: append.simps)
qed

lemma config_lines_chars:
  "config_ok c \<Longrightarrow> \<forall>l\<in>set (config_lines c). CHR 0x0A \<notin> set l \<and> CHR 0x0D \<notin> set l"
  using preset_text_facts(3,4) [of c]
  by (simp add: config_lines_def bool_text_no_special dec_no_special)

lemma config_lines_length: "config_ok c \<Longrightarrow> \<forall>l\<in>set (config_lines c). length l \<le> 116"
  using preset_text_facts(5) [of c] length_interval_text [of "cfg_request_interval c"]
    length_bool_text [of "cfg_automatic c"] length_bool_text [of "cfg_startup_enabled c"]
    length_bool_text [of "cfg_auto_resume_on_ac c"] length_bool_text [of "cfg_battery_lockout c"]
  by (simp add: config_lines_def)

lemma config_text_lines: "config_ok c \<Longrightarrow> lines (config_text c) = config_lines c"
  unfolding config_text_def using config_lines_chars by (intro lines_join)

lemma config_text_length: "config_ok c \<Longrightarrow> length (config_text c) \<le> 702"
proof -
  assume c: "config_ok c"
  have "sum_list (map length ls) \<le> 117 * length ls" if "\<forall>l\<in>set ls. length l \<le> 117" for ls :: "string list"
    using that by (induction ls) auto
  from this [of "map (\<lambda>l. l @ newline) (config_lines c)"] show ?thesis
    using config_lines_length [OF c]
    by (simp add: config_text_def length_concat newline_def comp_def) (simp add: config_lines_def)
qed

lemma parse_config_text: "config_ok c \<Longrightarrow> parse_with_migration (config_text c) = Ok (c, False)"
  using parse_config_lines [of c] config_text_length [of c]
  by (auto simp: parse_with_migration_def config_text_lines parse_start_def MAX_CONFIG_FILE_BYTES_def)

section \<open>What a successful parse guarantees\<close>

lemma elements_bounds:
  assumes "parse_preset_elements n es acc = Ok ps" and "length acc \<le> MAX_PRESETS"
    and "\<forall>p\<in>set acc. MIN_PRESET_SECONDS \<le> p \<and> p \<le> MAX_PRESET_SECONDS"
  shows "length ps \<le> MAX_PRESETS \<and> (\<forall>p\<in>set ps. MIN_PRESET_SECONDS \<le> p \<and> p \<le> MAX_PRESET_SECONDS)"
  using assms by (induction n es acc rule: parse_preset_elements.induct)
    (auto simp: Let_def split: if_splits option.splits)

lemma presets_bounds:
  "parse_schedule_presets v n = Ok ps \<Longrightarrow>
   ps \<noteq> [] \<and> length ps \<le> MAX_PRESETS \<and> (\<forall>p\<in>set ps. MIN_PRESET_SECONDS \<le> p \<and> p \<le> MAX_PRESET_SECONDS)"
  by (auto simp: parse_schedule_presets_def dest!: elements_bounds split: option.splits sum.splits if_splits)

lemma assign_key_ok:
  "assign_key n key v s = Ok s' \<Longrightarrow> config_ok (parsed s) \<Longrightarrow> config_ok (parsed s')"
  by (auto simp: assign_key_def config_ok_def AUTOMATIC_REQUEST_INTERVAL_def
      LEGACY_ONE_MILLISECOND_REQUEST_INTERVAL_def Let_def map_sum_eq_Inr dest!: presets_bounds
      split: if_splits option.splits)

lemma parse_line_ok: "parse_line n raw s = Ok s' \<Longrightarrow> config_ok (parsed s) \<Longrightarrow> config_ok (parsed s')"
  by (auto simp: parse_line_def Let_def dest!: assign_key_ok split: if_splits option.splits)

lemma parse_lines_ok: "parse_lines n ls s = Ok s' \<Longrightarrow> config_ok (parsed s) \<Longrightarrow> config_ok (parsed s')"
  by (induction n ls s rule: parse_lines.induct) (auto dest: parse_line_ok split: sum.splits)

lemma config_default_ok: "config_ok config_default"
  by (simp add: config_ok_def config_default_def model_defs)

lemma parse_ok: "parse_with_migration text = Ok (c, m) \<Longrightarrow> config_ok c"
  by (auto simp: parse_with_migration_def map_sum_eq_Inr config_default_ok dest!: parse_lines_ok split: if_splits)

section \<open>The file on disk\<close>

lemma ascii_parts: "ascii_text (dec n)" "ascii_text (bool_text b)"
    "(\<forall>p\<in>set ps. ascii_text p) \<Longrightarrow> ascii_text (join_with '', '' ps)"
  using dec_digits [of n] join_chars [of "'', ''" ps]
  by (auto simp: ascii_text_def bool_text_def is_digit_ascii split: if_splits)

lemma config_text_ascii: "ascii_text (config_text c)"
  by (simp add: config_text_def config_lines_def newline_def ascii_parts)

definition decode_config :: "bytes \<Rightarrow> configuration option" where
  "decode_config bs =
     (if valid_utf8 bs then (case parse_with_migration (text_of bs) of Inr (c, _) \<Rightarrow> Some c | Inl _ \<Rightarrow> None)
      else None)"

lemma names_differ [simp]: "temporary_path_for p q \<noteq> CONFIG_FILENAME" "backup_name t a \<noteq> CONFIG_FILENAME"
    "backup_name t a \<noteq> temporary_path_for p q"
proof -
  have ends: "last (temporary_path_for p q) = CHR ''p''" "last (backup_name t a) = CHR ''k''"
      "last CONFIG_FILENAME = CHR ''l''"
    by (simp_all add: temporary_path_for_def backup_name_def CONFIG_FILENAME_def)
  show "temporary_path_for p q \<noteq> CONFIG_FILENAME"
    using ends(1,3) by (auto dest: arg_cong [where f = last])
  show "backup_name t a \<noteq> CONFIG_FILENAME"
    using ends(2,3) by (auto dest: arg_cong [where f = last])
  show "backup_name t a \<noteq> temporary_path_for p q"
    using ends(1,2) by (auto dest: arg_cong [where f = last])
qed

lemma write_config_target:
  assumes "write_config_bytes process sequence io bs fs = (r, fs')"
  shows "fs' CONFIG_FILENAME = (if isl r then fs CONFIG_FILENAME else Some bs)"
    and "n \<noteq> CONFIG_FILENAME \<Longrightarrow> n \<noteq> temporary_path_for process sequence \<Longrightarrow> fs' n = fs n"
  using assms
  by (auto simp: write_config_bytes_def remove_temporary_def Let_def names_differ [symmetric]
      split: if_splits option.splits)

interpretation config_file: atomic_record
  "\<lambda>(sequence, io). write_config_bytes process sequence io" CONFIG_FILENAME
  "\<lambda>c. bytes_of (config_text c)" decode_config config_ok
  for process
proof unfold_locales
  show "fs' CONFIG_FILENAME = (if isl r then fs CONFIG_FILENAME else Some bs)"
    if "(case w of (sequence, io) \<Rightarrow> write_config_bytes process sequence io) bs fs = (r, fs')" for w bs fs r fs'
    using that write_config_target(1) by (cases w) simp
  show "decode_config (bytes_of (config_text c)) = Some c" if "config_ok c" for c
    using parse_config_text [OF that] ascii_utf8 [OF config_text_ascii] by (simp add: decode_config_def)
qed

lemma save_atomic_effect:
  assumes "save_atomic io process c st = (r, st')"
  shows "snd st' CONFIG_FILENAME = (if isl r then snd st CONFIG_FILENAME else Some (bytes_of (config_text c)))"
    and "snd st' (backup_name t a) = snd st (backup_name t a)"
  using assms write_config_target [of process "fst st" io "bytes_of (config_text c)" "snd st"]
  by (auto simp: save_atomic_def split: prod.splits)

lemma find_backup_named: "find_backup rf t fs = Some b \<Longrightarrow> \<exists>a. b = backup_name t a"
  by (auto simp: find_backup_def find_Some_iff)

definition no_read_faults :: read_faults where
  "no_read_faults = \<lparr>fail_metadata = False, fail_read = False, fail_rename = False, fail_exists = (\<lambda>_. False)\<rparr>"

lemma load_saved:
  assumes "config_ok c" and "snd st CONFIG_FILENAME = Some (bytes_of (config_text c))"
  shows "load_with_migration no_read_faults io process t st
    = (Ok \<lparr>loaded = c, was_migrated = False, recovered_from_corruption = False\<rparr>, st)"
proof -
  have "bytes_of (config_text c) \<noteq> []"
    by (simp add: bytes_of_def config_text_def config_lines_def)
  then show ?thesis
    using assms config_text_length [OF assms(1)] parse_config_text [OF assms(1)] ascii_utf8 [OF config_text_ascii]
    by (simp add: load_with_migration_def no_read_faults_def MAX_CONFIG_FILE_BYTES_def)
qed

lemma recover_effect:
  assumes "recover_corrupted rf io process t st = (r, st')"
  shows "\<not> isl r \<Longrightarrow> projr r = \<lparr>loaded = config_default, was_migrated = False, recovered_from_corruption = True\<rparr>
      \<and> snd st' CONFIG_FILENAME = Some (bytes_of (config_text config_default))"
    and "\<exists>n. snd st' n = snd st CONFIG_FILENAME"
proof -
  obtain q fs where st: "st = (q, fs)"
    by (cases st)
  note recover_corrupted_def [simp] st [simp] Let_def [simp]
  show "\<not> isl r \<Longrightarrow> projr r = \<lparr>loaded = config_default, was_migrated = False, recovered_from_corruption = True\<rparr>
      \<and> snd st' CONFIG_FILENAME = Some (bytes_of (config_text config_default))"
    using assms by (auto dest: save_atomic_effect(1) split: option.splits prod.splits sum.splits if_splits)
  show "\<exists>n. snd st' n = snd st CONFIG_FILENAME"
  proof (cases "find_backup rf t fs")
    case (Some b)
    then obtain a where b: "b = backup_name t a"
      using find_backup_named by blast
    show ?thesis
    proof (cases "fail_rename rf")
      case False
      define fs1 where "fs1 = fs(b := fs CONFIG_FILENAME, CONFIG_FILENAME := None)"
      obtain r1 st2 where s: "save_atomic io process config_default (q, fs1) = (r1, st2)"
        by (cases "save_atomic io process config_default (q, fs1)")
      have "st' = st2"
        using assms Some False s by (auto simp: fs1_def split: sum.splits)
      moreover have "snd st2 b = fs1 b"
        using save_atomic_effect(2) [OF s] b by simp
      ultimately show ?thesis
        by (intro exI [of _ b]) (simp add: fs1_def b)
    qed (use assms Some in auto)
  qed (use assms in auto)
qed

text \<open>C10: Reading back a saved configuration gives that configuration, with no migration, for every
  configuration within the limits; every configuration the parser accepts is within the limits, so
  what the program loads can be saved and loaded again without loss.\<close>

theorem config_round_trip:
  assumes "config_ok c \<or> (\<exists>text m. parse_with_migration text = Ok (c, m))"
  shows "config_ok c \<and> parse_with_migration (config_text c) = Ok (c, False)"
  using assms parse_ok parse_config_text by blast

theorem config_round_trip_witness:
  "parse_with_migration (config_text (config_default\<lparr>cfg_schedule_presets := [10, 86400]\<rparr>))
     = Ok (config_default\<lparr>cfg_schedule_presets := [10, 86400]\<rparr>, False)"
  using config_round_trip [of "config_default\<lparr>cfg_schedule_presets := [10, 86400]\<rparr>"]
  by (simp add: config_ok_def config_default_def model_defs)

text \<open>C5: Loading settles. When a load returns a configuration, it is within the limits and the next load
  returns the same one without migrating, recovering or writing again. Whatever fails, the bytes
  that were in the file before are still in the directory unless they were migrated: a damaged file
  is moved to a backup name (over an older backup when the check of that name failed), never overwritten.\<close>

theorem config_load_settles:
  assumes "load_with_migration rf io process t st = (r, st')" and "snd st CONFIG_FILENAME = Some bs"
  shows "(\<forall>out. r = Ok out \<longrightarrow> config_ok (loaded out)
      \<and> load_with_migration no_read_faults io' process' t' st'
          = (Ok \<lparr>loaded = loaded out, was_migrated = False, recovered_from_corruption = False\<rparr>, st'))
    \<and> ((\<exists>n. snd st' n = Some bs)
      \<or> (\<exists>c. parse_with_migration (text_of bs) = Ok (c, True) \<and> r = Ok \<lparr>loaded = c, was_migrated = True,
          recovered_from_corruption = False\<rparr>))"
proof (cases "recover_corrupted rf io process t st = (r, st')")
  case True
  note rec = recover_effect [OF True]
  have "load_with_migration no_read_faults io' process' t' st'
      = (Ok \<lparr>loaded = config_default, was_migrated = False, recovered_from_corruption = False\<rparr>, st')" if "\<not> isl r"
    using rec(1) [OF that] by (intro load_saved config_default_ok) simp
  then show ?thesis
    using rec assms(2) config_default_ok by auto
next
  case False
  from False assms consider "isl r" "st' = st"
    | (plain) c where "parse_with_migration (text_of bs) = Ok (c, False)" "st' = st"
        "r = Ok \<lparr>loaded = c, was_migrated = False, recovered_from_corruption = False\<rparr>"
        "length bs \<le> MAX_CONFIG_FILE_BYTES" "bs \<noteq> []" "valid_utf8 bs"
    | (moved) c r1 where "parse_with_migration (text_of bs) = Ok (c, True)"
        "save_atomic io process c st = (r1, st')"
        "r = map_sum id (\<lambda>_. \<lparr>loaded = c, was_migrated = True, recovered_from_corruption = False\<rparr>) r1"
    by (auto simp: load_with_migration_def not_less split: if_splits sum.splits prod.splits bool.splits)
  then show ?thesis
  proof cases
    case plain
    then show ?thesis
      using parse_ok assms(2)
      by (auto simp: load_with_migration_def no_read_faults_def)
  next
    case moved
    note eff = save_atomic_effect(1) [OF moved(2)]
    have "load_with_migration no_read_faults io' process' t' st'
        = (Ok \<lparr>loaded = c, was_migrated = False, recovered_from_corruption = False\<rparr>, st')" if "\<not> isl r1"
      using eff that parse_ok [OF moved(1)] by (intro load_saved) simp_all
    then show ?thesis
      using moved(1,3) eff parse_ok [OF moved(1)] assms(2) by (cases r1) auto
  qed (use assms(2) in auto)
qed

definition damaged_file :: "u64 \<times> files" where
  "damaged_file = (0, [CONFIG_FILENAME \<mapsto> [0xFF]])"

lemma damaged_recovers:
  "\<exists>out. fst (load_with_migration no_read_faults no_faults 1 0 damaged_file) = Ok out \<and> recovered_from_corruption out"
proof -
  have "\<not> valid_utf8 [0xFF]"
    by code_simp
  moreover have "backup_name 0 0 \<noteq> CONFIG_FILENAME"
    by (simp add: backup_name_def)
  then have "find_backup rf 0 [CONFIG_FILENAME \<mapsto> [0xFF]] = Some (backup_name 0 0)" for rf
    by (simp add: find_backup_def upt_rec [of 0])
  ultimately show ?thesis
    by (simp add: load_with_migration_def damaged_file_def no_read_faults_def no_faults_def recover_corrupted_def
        save_atomic_def write_config_bytes_def Let_def MAX_CONFIG_FILE_BYTES_def)
qed

theorem config_load_settles_witness:
  "\<exists>out st'. load_with_migration no_read_faults no_faults 1 0 damaged_file = (Ok out, st') \<and> recovered_from_corruption out
     \<and> (\<exists>n. snd st' n = Some [0xFF])
     \<and> load_with_migration no_read_faults no_faults 1 0 st'
        = (Ok \<lparr>loaded = loaded out, was_migrated = False, recovered_from_corruption = False\<rparr>, st')"
proof -
  obtain out st' where load: "load_with_migration no_read_faults no_faults 1 0 damaged_file = (Ok out, st')"
      "recovered_from_corruption out"
    using damaged_recovers by (cases "load_with_migration no_read_faults no_faults 1 0 damaged_file") auto
  have "snd damaged_file CONFIG_FILENAME = Some [0xFF]"
    by (simp add: damaged_file_def)
  from config_load_settles [OF load(1) this, of no_faults 1 0] load show ?thesis
    by auto
qed

section \<open>Sequences of saves\<close>

definition save_run ::
    "u32 \<Rightarrow> (io_faults \<times> configuration) list \<Rightarrow> u64 \<times> files \<Rightarrow> u64 \<times> files" where
  "save_run process ws st = foldl (\<lambda>st (io, c). snd (save_atomic io process c st)) st ws"

fun numbered :: "u64 \<Rightarrow> (io_faults \<times> configuration) list \<Rightarrow> ((u64 \<times> io_faults) \<times> configuration) list" where
  "numbered q [] = []"
| "numbered q ((io, c) # ws) = ((q, io), c) # numbered (q + 1) ws"

lemma numbered_values: "snd ` set (numbered q ws) = snd ` set ws"
  by (induction q ws rule: numbered.induct) auto

lemma save_run_all:
  "snd (save_run process ws (q, fs))
     = config_file.save_all process (map (\<lambda>(io, c). (io, bytes_of (config_text c))) (numbered q ws)) fs"
  by (induction q ws arbitrary: fs rule: numbered.induct)
    (auto simp: save_run_def config_file.save_all_def save_atomic_def split: prod.split)



end
