(* ===== verification/Manifest.thy ===== *)
theory Manifest
  imports Text "HOL-Library.List_Lexorder" "HOL-Library.Char_ord" "HOL-Library.Multiset"
begin

text \<open>
  Model of \<open>crates/tick-crypto\<close>: the signed release manifest with its text format, canonical bytes,
  signing, verification, entry digests and release counter.

  Ed25519 and SHA-256 are parameters: \<open>sign secret message\<close>, \<open>verify key message signature\<close> (false
  also for bytes that are no key) and \<open>sha bytes\<close>. Text is a list of bytes; \<open>path\<close>s are ordered
  bytewise, as \<open>str::cmp\<close> orders them.
\<close>

section \<open>Types\<close>

definition PUBLIC_KEY_LEN :: nat where
  [model_defs]: "PUBLIC_KEY_LEN = 32"

definition SIGNATURE_LEN :: nat where
  [model_defs]: "SIGNATURE_LEN = 64"

definition MAX_MANIFEST_ENTRIES :: nat where
  [model_defs]: "MAX_MANIFEST_ENTRIES = 256"

definition MAX_MANIFEST_LINE_BYTES :: nat where
  [model_defs]: "MAX_MANIFEST_LINE_BYTES = 4096"

definition SECRET_KEY_LEN :: nat where
  [model_defs]: "SECRET_KEY_LEN = 32"

datatype crypto_error = WrongKeyLength | WrongSignatureLength | MalformedManifest | SignatureInvalid
  | DigestMismatch

definition crypto_error_display :: "crypto_error \<Rightarrow> string" where
  "crypto_error_display e =
     (case e of
        WrongKeyLength \<Rightarrow> ''trust anchor key has wrong length''
      | WrongSignatureLength \<Rightarrow> ''manifest signature has wrong length''
      | MalformedManifest \<Rightarrow> ''manifest is malformed''
      | SignatureInvalid \<Rightarrow> ''manifest signature is invalid''
      | DigestMismatch \<Rightarrow> ''entry digest does not match'')"

type_synonym signer = "bytes \<Rightarrow> bytes \<Rightarrow> bytes"
type_synonym verifier = "bytes \<Rightarrow> bytes \<Rightarrow> bytes \<Rightarrow> bool"

record manifest_entry =
  entry_path :: string
  entry_sha256 :: bytes

record signed_manifest =
  release_counter :: u64
  manifest_entries :: "manifest_entry list"
  manifest_signature :: bytes

definition signing_key_from_bytes :: "bytes \<Rightarrow> (crypto_error, bytes) result" where
  "signing_key_from_bytes secret = (if length secret = SECRET_KEY_LEN then Ok secret else Err WrongKeyLength)"

definition sign_bytes :: "signer \<Rightarrow> bytes \<Rightarrow> bytes \<Rightarrow> (crypto_error, bytes) result" where
  "sign_bytes sign secret message =
     (case signing_key_from_bytes secret of Inl e \<Rightarrow> Err e | Inr key \<Rightarrow> Ok (sign key message))"

definition anchor_from_bytes :: "bytes \<Rightarrow> (crypto_error, bytes) result" where
  "anchor_from_bytes bs = (if length bs \<noteq> PUBLIC_KEY_LEN then Err WrongKeyLength else Ok bs)"

section \<open>Hexadecimal text\<close>

definition hex_char :: "nat \<Rightarrow> char" where
  "hex_char d = (if d < 10 then digit_char d else char_of (87 + d))"

definition hex_text :: "bytes \<Rightarrow> string" where
  "hex_text bs = concat (map (\<lambda>b. [hex_char (unat b div 16), hex_char (unat b mod 16)]) bs)"

definition to_digit16 :: "char \<Rightarrow> nat option" where
  "to_digit16 c =
     (let k = of_char c :: nat in
      if 48 \<le> k \<and> k \<le> 57 then Some (k - 48)
      else if 97 \<le> k \<and> k \<le> 102 then Some (k - 87)
      else if 65 \<le> k \<and> k \<le> 70 then Some (k - 55)
      else None)"

definition lower_hex_char :: "char \<Rightarrow> bool" where
  "lower_hex_char c = (is_digit c \<or> 97 \<le> (of_char c :: nat) \<and> (of_char c :: nat) \<le> 102)"

fun decode_pairs :: "string \<Rightarrow> bytes option" where
  "decode_pairs (h # l # rest) =
     (case to_digit16 h of
        None \<Rightarrow> None
      | Some a \<Rightarrow>
          (case to_digit16 l of
             None \<Rightarrow> None
           | Some b \<Rightarrow> map_option (\<lambda>out. of_nat (a * 16 + b) # out) (decode_pairs rest)))"
| "decode_pairs _ = Some []"

definition decode_hex :: "nat \<Rightarrow> string \<Rightarrow> (crypto_error, bytes) result" where
  "decode_hex n text =
     (if length text \<noteq> n * 2 then Err MalformedManifest
      else if \<not> list_all lower_hex_char text then Err MalformedManifest
      else case decode_pairs text of None \<Rightarrow> Err MalformedManifest | Some bs \<Rightarrow> Ok bs)"

section \<open>Canonical bytes and signing\<close>

definition entry_line :: "manifest_entry \<Rightarrow> string" where
  "entry_line e = ''entry '' @ entry_path e @ '' '' @ hex_text (entry_sha256 e)"

definition counter_line :: "u64 \<Rightarrow> string" where
  "counter_line n = ''release_counter '' @ dec (unat n)"

definition canonical_lines :: "signed_manifest \<Rightarrow> string list" where
  "canonical_lines m =
     counter_line (release_counter m) # map entry_line (sort_key entry_path (manifest_entries m))"

definition canonical_text :: "signed_manifest \<Rightarrow> string" where
  "canonical_text m = concat (map (\<lambda>l. l @ newline) (canonical_lines m))"

definition canonical_bytes :: "signed_manifest \<Rightarrow> bytes" where
  "canonical_bytes m = bytes_of (canonical_text m)"

text \<open>\<open>Vec::dedup_by\<close>: of neighbours with the same path the first is kept.\<close>

fun dedup_path :: "manifest_entry list \<Rightarrow> manifest_entry list" where
  "dedup_path (a # b # es) = (if entry_path b = entry_path a then dedup_path (a # es) else a # dedup_path (b # es))"
| "dedup_path es = es"

definition signature_line :: "bytes \<Rightarrow> string" where
  "signature_line s = ''signature '' @ hex_text s"

definition sign_manifest ::
    "signer \<Rightarrow> bytes \<Rightarrow> u64 \<Rightarrow> manifest_entry list \<Rightarrow> (crypto_error, string) result" where
  "sign_manifest sign secret counter entries =
     (let m = \<lparr>release_counter = counter, manifest_entries = dedup_path (sort_key entry_path entries),
               manifest_signature = replicate SIGNATURE_LEN 0\<rparr>
      in case sign_bytes sign secret (canonical_bytes m) of
           Inl e \<Rightarrow> Err e
         | Inr s \<Rightarrow> Ok (canonical_text m @ signature_line s @ newline))"

section \<open>Parsing\<close>

fun rsplit_once :: "'a \<Rightarrow> 'a list \<Rightarrow> ('a list \<times> 'a list) option" where
  "rsplit_once d [] = None"
| "rsplit_once d (c # cs) =
     (case rsplit_once d cs of
        Some (a, b) \<Rightarrow> Some (c # a, b)
      | None \<Rightarrow> if c = d then Some ([], cs) else None)"

fun contains_any :: "string list \<Rightarrow> string \<Rightarrow> bool" where
  "contains_any ps [] = False"
| "contains_any ps (c # cs) = (strip_any ps (c # cs) \<noteq> None \<or> contains_any ps cs)"

record manifest_parse =
  mp_counter :: "u64 option"
  mp_entries :: "manifest_entry list"
  mp_signature :: "bytes option"

definition parse_entry :: "string \<Rightarrow> manifest_parse \<Rightarrow> (crypto_error, manifest_parse) result" where
  "parse_entry rest s =
     (if MAX_MANIFEST_ENTRIES \<le> length (mp_entries s) then Err MalformedManifest
      else case rsplit_once (CHR '' '') rest of
        None \<Rightarrow> Err MalformedManifest
      | Some (path, hex_digest) \<Rightarrow>
          if path = [] \<or> contains_any whitespace_encodings path then Err MalformedManifest
          else case decode_hex 32 hex_digest of
            Inl e \<Rightarrow> Err e
          | Inr digest \<Rightarrow>
              if path \<in> entry_path ` set (mp_entries s) then Err MalformedManifest
              else Ok (s\<lparr>mp_entries := mp_entries s @ [\<lparr>entry_path = path, entry_sha256 = digest\<rparr>]\<rparr>))"

definition parse_manifest_line :: "string \<Rightarrow> manifest_parse \<Rightarrow> (crypto_error, manifest_parse) result" where
  "parse_manifest_line raw s =
     (let line = strip_cr raw in
      if MAX_MANIFEST_LINE_BYTES < length line then Err MalformedManifest
      else if line = [] then Ok s
      else case strip_prefix ''release_counter '' line of
        Some rest \<Rightarrow>
          (if mp_counter s \<noteq> None then Err MalformedManifest
           else case parse_unsigned (2 ^ 64 - 1) rest of
             None \<Rightarrow> Err MalformedManifest
           | Some n \<Rightarrow> Ok (s\<lparr>mp_counter := Some (of_nat n)\<rparr>))
      | None \<Rightarrow>
          (case strip_prefix ''entry '' line of
             Some rest \<Rightarrow> parse_entry rest s
           | None \<Rightarrow>
               (case strip_prefix ''signature '' line of
                  None \<Rightarrow> Err MalformedManifest
                | Some rest \<Rightarrow>
                    if mp_signature s \<noteq> None then Err MalformedManifest
                    else if length rest \<noteq> SIGNATURE_LEN * 2 then Err WrongSignatureLength
                    else map_sum id (\<lambda>sg. s\<lparr>mp_signature := Some sg\<rparr>) (decode_hex SIGNATURE_LEN rest))))"

fun parse_manifest_lines :: "string list \<Rightarrow> manifest_parse \<Rightarrow> (crypto_error, manifest_parse) result" where
  "parse_manifest_lines [] s = Ok s"
| "parse_manifest_lines (l # ls) s =
     (case parse_manifest_line l s of Inl e \<Rightarrow> Err e | Inr s1 \<Rightarrow> parse_manifest_lines ls s1)"

definition parse_signed_manifest :: "string \<Rightarrow> (crypto_error, signed_manifest) result" where
  "parse_signed_manifest text =
     (case parse_manifest_lines (split_on (CHR 0x0A) text)
             \<lparr>mp_counter = None, mp_entries = [], mp_signature = None\<rparr> of
        Inl e \<Rightarrow> Err e
      | Inr s \<Rightarrow>
          (case (mp_counter s, mp_signature s) of
             (Some n, Some sg) \<Rightarrow>
               Ok \<lparr>release_counter = n, manifest_entries = mp_entries s, manifest_signature = sg\<rparr>
           | _ \<Rightarrow> Err MalformedManifest))"

section \<open>Verification\<close>

definition verify_manifest :: "verifier \<Rightarrow> signed_manifest \<Rightarrow> bytes \<Rightarrow> (crypto_error, unit) result" where
  "verify_manifest verify m anchor =
     (if verify anchor (canonical_bytes m) (manifest_signature m) then Ok () else Err SignatureInvalid)"

definition verify_entry_digest ::
    "(bytes \<Rightarrow> bytes) \<Rightarrow> signed_manifest \<Rightarrow> string \<Rightarrow> bytes \<Rightarrow> (crypto_error, unit) result" where
  "verify_entry_digest sha m path content =
     (case find (\<lambda>e. entry_path e = path) (manifest_entries m) of
        None \<Rightarrow> Err DigestMismatch
      | Some e \<Rightarrow> if sha content = entry_sha256 e then Ok () else Err DigestMismatch)"

definition check_release_counter :: "signed_manifest \<Rightarrow> u64 \<Rightarrow> (crypto_error, unit) result" where
  "check_release_counter m previously_seen =
     (if previously_seen < release_counter m then Ok () else Err SignatureInvalid)"

section \<open>Facts about hexadecimal text\<close>

lemma hex_text_simps [simp]:
  "hex_text [] = []"
  "hex_text (b # bs) = hex_char (unat b div 16) # hex_char (unat b mod 16) # hex_text bs"
  by (simp_all add: hex_text_def)

lemma length_hex_text [simp]: "length (hex_text bs) = 2 * length bs"
  by (induction bs) simp_all

lemma of_char_hex: "d < 16 \<Longrightarrow> (of_char (hex_char d) :: nat) = (if d < 10 then 48 + d else 87 + d)"
  by (simp add: hex_char_def of_char_digit_char)

lemma hex_char_digit: "d < 16 \<Longrightarrow> to_digit16 (hex_char d) = Some d \<and> lower_hex_char (hex_char d)"
  by (auto simp: to_digit16_def lower_hex_char_def is_digit_def of_char_hex Let_def)

lemma digit_hex_char:
  assumes "to_digit16 c = Some d" and "lower_hex_char c"
  shows "hex_char d = c \<and> d < 16"
proof -
  have c: "c = char_of (of_char c :: nat)"
    by simp
  show ?thesis
    using assms c by (auto simp: to_digit16_def lower_hex_char_def is_digit_def hex_char_def digit_char_def
        Let_def split: if_splits)
qed

lemma nibbles: "unat (b :: u8) div 16 < 16" "unat b mod 16 < 16"
  using unat_lt_power [of b] by simp_all

lemma decode_pairs_hex: "decode_pairs (hex_text bs) = Some bs"
proof (induction bs)
  case (Cons b bs)
  have "(of_nat (unat b div 16 * 16 + unat b mod 16) :: u8) = b"
    by (simp add: div_mult_mod_eq)
  then show ?case
    using Cons hex_char_digit nibbles [of b] by simp
qed simp

lemma hex_decode_pairs:
  "decode_pairs t = Some bs \<Longrightarrow> list_all lower_hex_char t \<Longrightarrow> even (length t) \<Longrightarrow> t = hex_text bs"
proof (induction t arbitrary: bs rule: decode_pairs.induct)
  case (1 h l rest)
  then obtain a b out where d: "to_digit16 h = Some a" "to_digit16 l = Some b" "decode_pairs rest = Some out"
      "bs = of_nat (a * 16 + b) # out"
    by (auto split: option.splits)
  have ab: "hex_char a = h" "a < 16" "hex_char b = l" "b < 16"
    using digit_hex_char d(1,2) 1(3) by simp_all
  then have "unat (of_nat (a * 16 + b) :: u8) = a * 16 + b"
    by (simp add: unat_of_nat take_bit_nat_eq_self del: of_nat_add of_nat_mult)
  moreover have "rest = hex_text out"
    using 1(1) [OF d(1,2,3)] 1(3,4) by simp
  ultimately show ?case
    using ab d(4) by (simp del: of_nat_add of_nat_mult)
qed simp_all

lemma hex_text_lower: "list_all lower_hex_char (hex_text bs)"
  by (induction bs) (simp_all add: hex_char_digit nibbles)

lemma decode_hex_iff: "decode_hex n t = Ok bs \<longleftrightarrow> t = hex_text bs \<and> length bs = n"
  by (auto simp: decode_hex_def decode_pairs_hex hex_text_lower dest: hex_decode_pairs
      split: if_splits option.splits)

lemma decode_hex_text [simp]: "length bs = n \<Longrightarrow> decode_hex n (hex_text bs) = Ok bs"
  by (simp add: decode_hex_iff)

lemma hex_text_special: "c \<in> set (hex_text bs) \<Longrightarrow> c \<notin> {CHR 0x0A, CHR 0x0D, CHR '' ''}"
  using hex_text_lower [of bs] by (auto simp: list_all_iff lower_hex_char_def is_digit_def)

section \<open>Facts about splitting\<close>

lemma rsplit_once_None: "rsplit_once d s = None \<longleftrightarrow> d \<notin> set s"
  by (induction s) (auto split: option.splits)

lemma rsplit_once_Some: "rsplit_once d s = Some (a, b) \<longleftrightarrow> s = a @ d # b \<and> d \<notin> set b"
proof (induction s arbitrary: a b)
  case (Cons c cs)
  show ?case
  proof (cases "rsplit_once d cs")
    case None
    then have "d \<notin> set cs"
      by (simp add: rsplit_once_None)
    then show ?thesis
      using None by (cases a) auto
  next
    case (Some p)
    then obtain x y where xy: "p = (x, y)" "cs = x @ d # y" "d \<notin> set y"
      using Cons by (cases p) auto
    have "d \<in> set cs"
      using xy by simp
    then show ?thesis
      using Some xy Cons by (cases a) auto
  qed
qed simp

lemma contains_any_single: "[c] \<in> set ps \<Longrightarrow> c \<in> set s \<Longrightarrow> contains_any ps s"
proof (induction s)
  case (Cons x s)
  then show ?case
    using strip_any_None [of ps "c # s"] by (cases "x = c") auto
qed simp

lemma no_whitespace: "\<not> contains_any whitespace_encodings s \<Longrightarrow> c \<in> {CHR 0x0A, CHR 0x0D, CHR '' ''} \<Longrightarrow> c \<notin> set s"
  using contains_any_single [of c whitespace_encodings s] by (auto simp: whitespace_encodings_def)

lemma split_on_lines:
  "\<forall>l\<in>set ls. d \<notin> set l \<Longrightarrow> split_on d (concat (map (\<lambda>l. l @ [d]) ls)) = ls @ [[]]"
  by (induction ls) (simp_all add: split_on_append_sep)

section \<open>Manifests that parse\<close>

definition entry_ok :: "manifest_entry \<Rightarrow> bool" where
  "entry_ok e \<longleftrightarrow> entry_path e \<noteq> [] \<and> \<not> contains_any whitespace_encodings (entry_path e)
     \<and> length (entry_sha256 e) = 32 \<and> length (entry_line e) \<le> MAX_MANIFEST_LINE_BYTES"

definition manifest_ok :: "signed_manifest \<Rightarrow> bool" where
  "manifest_ok m \<longleftrightarrow> (\<forall>e\<in>set (manifest_entries m). entry_ok e) \<and> distinct (map entry_path (manifest_entries m))
     \<and> length (manifest_entries m) \<le> MAX_MANIFEST_ENTRIES \<and> length (manifest_signature m) = SIGNATURE_LEN"

definition sorted_manifest :: "signed_manifest \<Rightarrow> signed_manifest" where
  "sorted_manifest m = m\<lparr>manifest_entries := sort_key entry_path (manifest_entries m)\<rparr>"

definition manifest_text :: "signed_manifest \<Rightarrow> string" where
  "manifest_text m = canonical_text m @ signature_line (manifest_signature m) @ newline"

lemma hex_no_special: "CHR 0x0A \<notin> set (hex_text bs)" "CHR 0x0D \<notin> set (hex_text bs)" "CHR '' '' \<notin> set (hex_text bs)"
  using hex_text_special by blast+

lemma line_chars:
  "CHR 0x0A \<notin> set (counter_line n)" "CHR 0x0D \<notin> set (counter_line n)"
  "CHR 0x0A \<notin> set (signature_line s)" "CHR 0x0D \<notin> set (signature_line s)"
  "entry_ok e \<Longrightarrow> CHR 0x0A \<notin> set (entry_line e)" "entry_ok e \<Longrightarrow> CHR 0x0D \<notin> set (entry_line e)"
  using dec_no_special hex_no_special no_whitespace [of "entry_path e"]
  by (simp_all add: counter_line_def signature_line_def entry_line_def entry_ok_def)

lemma parse_counter_line:
  assumes "mp_counter s = None"
  shows "parse_manifest_line (counter_line n) s = Ok (s\<lparr>mp_counter := Some n\<rparr>)"
proof -
  have cr: "strip_cr (counter_line n) = counter_line n"
    using line_chars(2) strip_cr_id by blast
  have bound: "unat n < 2 ^ 64"
    using unat_lt_power [of n] by simp
  then have "unat n < 10 ^ 20"
    by simp
  then have "length (dec (unat n)) \<le> 20"
    by (simp add: length_dec_le)
  moreover have "parse_unsigned (2 ^ 64 - 1) (dec (unat n)) = Some (unat n)"
    using bound by simp
  ultimately show ?thesis
    using assms
    by (simp add: parse_manifest_line_def cr Let_def del: parse_unsigned_dec)
      (simp add: counter_line_def model_defs)
qed

lemma parse_signature_line:
  assumes "mp_signature s = None" "length sg = SIGNATURE_LEN"
  shows "parse_manifest_line (signature_line sg) s = Ok (s\<lparr>mp_signature := Some sg\<rparr>)"
proof -
  have cr: "strip_cr (signature_line sg) = signature_line sg"
    using line_chars(4) strip_cr_id by blast
  show ?thesis
    using assms by (simp add: parse_manifest_line_def cr Let_def) (simp add: signature_line_def model_defs)
qed

lemma parse_entry_line:
  assumes "entry_ok e" "length (mp_entries s) < MAX_MANIFEST_ENTRIES" "entry_path e \<notin> entry_path ` set (mp_entries s)"
  shows "parse_manifest_line (entry_line e) s = Ok (s\<lparr>mp_entries := mp_entries s @ [e]\<rparr>)"
proof -
  have cr: "strip_cr (entry_line e) = entry_line e"
    using line_chars(6) [OF assms(1)] strip_cr_id by blast
  have "rsplit_once (CHR '' '') (entry_path e @ CHR '' '' # hex_text (entry_sha256 e))
      = Some (entry_path e, hex_text (entry_sha256 e))"
    using hex_no_special by (simp add: rsplit_once_Some)
  then have "parse_entry (entry_path e @ CHR '' '' # hex_text (entry_sha256 e)) s
      = Ok (s\<lparr>mp_entries := mp_entries s @ [e]\<rparr>)"
    using assms by (simp add: parse_entry_def entry_ok_def)
  then show ?thesis
    using assms(1) by (simp add: parse_manifest_line_def cr Let_def entry_ok_def) (simp add: entry_line_def)
qed

lemma parse_entry_lines:
  assumes "\<forall>e\<in>set es. entry_ok e" "distinct (map entry_path (mp_entries s @ es))"
    and "length (mp_entries s) + length es \<le> MAX_MANIFEST_ENTRIES"
  shows "parse_manifest_lines (map entry_line es @ ls) s
    = parse_manifest_lines ls (s\<lparr>mp_entries := mp_entries s @ es\<rparr>)"
  using assms
proof (induction es arbitrary: s)
  case (Cons e es)
  have "parse_manifest_line (entry_line e) s = Ok (s\<lparr>mp_entries := mp_entries s @ [e]\<rparr>)"
    using Cons.prems by (intro parse_entry_line) auto
  then show ?case
    using Cons.IH [of "s\<lparr>mp_entries := mp_entries s @ [e]\<rparr>"] Cons.prems by simp
qed simp

lemma sorted_entries:
  "set (sort_key entry_path es) = set es" "length (sort_key entry_path es) = length es"
  "distinct (map entry_path (sort_key entry_path es)) = distinct (map entry_path es)"
proof -
  have "mset (map entry_path (sort_key entry_path es)) = mset (map entry_path es)"
    by simp
  then show "distinct (map entry_path (sort_key entry_path es)) = distinct (map entry_path es)"
    by (metis mset_eq_imp_distinct_iff)
qed simp_all

lemma parse_manifest_text: "manifest_ok m \<Longrightarrow> parse_signed_manifest (manifest_text m) = Ok (sorted_manifest m)"
proof -
  assume m: "manifest_ok m"
  define es where "es = sort_key entry_path (manifest_entries m)"
  have es: "\<forall>e\<in>set es. entry_ok e" "distinct (map entry_path es)" "length es \<le> MAX_MANIFEST_ENTRIES"
    using m by (simp_all add: es_def manifest_ok_def sorted_entries)
  let ?ls = "counter_line (release_counter m) # map entry_line es @ [signature_line (manifest_signature m)]"
  have "manifest_text m = concat (map (\<lambda>l. l @ [CHR 0x0A]) ?ls)"
    by (simp add: manifest_text_def canonical_text_def canonical_lines_def newline_def es_def)
  moreover have "\<forall>l\<in>set ?ls. CHR 0x0A \<notin> set l"
    using es(1) line_chars by auto
  ultimately have split: "split_on (CHR 0x0A) (manifest_text m) = ?ls @ [[]]"
    using split_on_lines by metis
  show ?thesis
    using m es unfolding parse_signed_manifest_def split
    by (simp add: parse_counter_line parse_entry_lines parse_signature_line manifest_ok_def
        parse_manifest_line_def [of "[]"] strip_cr_def sorted_manifest_def es_def [symmetric])
qed

text \<open>The invariant of the parser: what it has accepted so far could stand in a manifest.\<close>

definition parse_inv :: "manifest_parse \<Rightarrow> bool" where
  "parse_inv s \<longleftrightarrow> (\<forall>e\<in>set (mp_entries s). entry_ok e) \<and> distinct (map entry_path (mp_entries s))
     \<and> length (mp_entries s) \<le> MAX_MANIFEST_ENTRIES
     \<and> (\<forall>sg. mp_signature s = Some sg \<longrightarrow> length sg = SIGNATURE_LEN)"

lemma parse_entry_inv:
  assumes "parse_entry rest s = Ok s'" and "parse_inv s" and "length (''entry '' @ rest) \<le> MAX_MANIFEST_LINE_BYTES"
  shows "parse_inv s'"
proof -
  obtain path hx d where p: "rest = path @ CHR '' '' # hx" "path \<noteq> []" "\<not> contains_any whitespace_encodings path"
      "decode_hex 32 hx = Ok d" "path \<notin> entry_path ` set (mp_entries s)"
      "length (mp_entries s) < MAX_MANIFEST_ENTRIES"
      "s' = s\<lparr>mp_entries := mp_entries s @ [\<lparr>entry_path = path, entry_sha256 = d\<rparr>]\<rparr>"
    using assms(1) by (auto simp: parse_entry_def rsplit_once_Some split: if_splits option.splits sum.splits)
  then have "entry_ok \<lparr>entry_path = path, entry_sha256 = d\<rparr>"
    using assms(3) by (simp add: entry_ok_def entry_line_def decode_hex_iff)
  then show ?thesis
    using p assms(2) by (auto simp: parse_inv_def)
qed

lemma parse_line_inv: "parse_manifest_line l s = Ok s' \<Longrightarrow> parse_inv s \<Longrightarrow> parse_inv s'"
proof -
  assume l: "parse_manifest_line l s = Ok s'" and s: "parse_inv s"
  consider "mp_entries s' = mp_entries s" "mp_signature s' = mp_signature s"
    | (entry) rest where "strip_cr l = ''entry '' @ rest" "parse_entry rest s = Ok s'"
        "length (strip_cr l) \<le> MAX_MANIFEST_LINE_BYTES"
    | (sig) sg t where "decode_hex SIGNATURE_LEN t = Ok sg" "s' = s\<lparr>mp_signature := Some sg\<rparr>"
    using l by (auto simp: parse_manifest_line_def Let_def strip_prefix_Some not_less map_sum_eq_Inr
        split: if_splits option.splits)
  then show ?thesis
  proof cases
    case entry
    then show ?thesis
      using parse_entry_inv s by simp
  qed (use s in \<open>auto simp: parse_inv_def decode_hex_iff\<close>)
qed

lemma parse_lines_inv: "parse_manifest_lines ls s = Ok s' \<Longrightarrow> parse_inv s \<Longrightarrow> parse_inv s'"
  by (induction ls s rule: parse_manifest_lines.induct) (auto dest: parse_line_inv split: sum.splits)

lemma parsed_manifest_ok: "parse_signed_manifest text = Ok m \<Longrightarrow> manifest_ok m"
proof -
  assume "parse_signed_manifest text = Ok m"
  moreover have "parse_inv \<lparr>mp_counter = None, mp_entries = [], mp_signature = None\<rparr>"
    by (simp add: parse_inv_def)
  ultimately show ?thesis
    by (auto simp: parse_signed_manifest_def manifest_ok_def parse_inv_def [symmetric]
        dest!: parse_lines_inv split: sum.splits option.splits) (auto simp: parse_inv_def)
qed

lemma canonical_sorted [simp]: "canonical_bytes (sorted_manifest m) = canonical_bytes m"
proof -
  have "sort_key entry_path (sort_key entry_path (manifest_entries m)) = sort_key entry_path (manifest_entries m)"
    by (rule sort_key_id_if_sorted) simp
  then show ?thesis
    by (simp add: canonical_bytes_def canonical_text_def canonical_lines_def sorted_manifest_def)
qed

lemma bytes_of_inj: "bytes_of a = bytes_of b \<longleftrightarrow> a = b"
  by (metis text_of_bytes_of)

lemma canonical_inj:
  assumes "manifest_ok m" "manifest_ok n" "canonical_bytes m = canonical_bytes n"
  shows "release_counter m = release_counter n"
    and "sort_key entry_path (manifest_entries m) = sort_key entry_path (manifest_entries n)"
proof -
  define n' where "n' = n\<lparr>manifest_signature := manifest_signature m\<rparr>"
  have "manifest_ok n'"
    using assms(1,2) by (simp add: n'_def manifest_ok_def)
  moreover have "manifest_text m = manifest_text n'"
    using assms(3) by (simp add: manifest_text_def canonical_bytes_def bytes_of_inj n'_def canonical_text_def
        canonical_lines_def)
  ultimately have "sorted_manifest m = sorted_manifest n'"
    using parse_manifest_text assms(1) by (metis sum.inject(2))
  then show "release_counter m = release_counter n"
      "sort_key entry_path (manifest_entries m) = sort_key entry_path (manifest_entries n)"
    by (simp_all add: sorted_manifest_def n'_def signed_manifest.equality)
       (metis signed_manifest.ext_inject signed_manifest.surjective signed_manifest.update_convs)+
qed

lemma find_distinct:
  "distinct (map f xs) \<Longrightarrow> find (\<lambda>e. f e = p) xs = Some e \<longleftrightarrow> e \<in> set xs \<and> f e = p"
  by (induction xs) auto

lemma digest_listed:
  assumes "distinct (map entry_path (manifest_entries m))"
  shows "verify_entry_digest sha m path content = Ok ()
    \<longleftrightarrow> \<lparr>entry_path = path, entry_sha256 = sha content\<rparr> \<in> set (manifest_entries m)"
proof -
  have "verify_entry_digest sha m path content = Ok ()
      \<longleftrightarrow> (\<exists>e. find (\<lambda>e. entry_path e = path) (manifest_entries m) = Some e \<and> sha content = entry_sha256 e)"
    by (auto simp: verify_entry_digest_def split: option.splits)
  also have "\<dots> \<longleftrightarrow> (\<exists>e\<in>set (manifest_entries m). entry_path e = path \<and> sha content = entry_sha256 e)"
    by (auto simp: find_distinct [OF assms])
  also have "\<dots> \<longleftrightarrow> \<lparr>entry_path = path, entry_sha256 = sha content\<rparr> \<in> set (manifest_entries m)"
  proof
    assume "\<exists>e\<in>set (manifest_entries m). entry_path e = path \<and> sha content = entry_sha256 e"
    then obtain e where e: "e \<in> set (manifest_entries m)" "entry_path e = path" "entry_sha256 e = sha content"
      by auto
    have "e = \<lparr>entry_path = path, entry_sha256 = sha content\<rparr>"
      by (cases e) (use e(2,3) in simp)
    with e(1) show "\<lparr>entry_path = path, entry_sha256 = sha content\<rparr> \<in> set (manifest_entries m)"
      by simp
  qed force
  finally show ?thesis .
qed

section \<open>Signing\<close>

lemma dedup_subset: "set (dedup_path es) \<subseteq> set es"
  by (induction es rule: dedup_path.induct) auto

lemma dedup_paths: "entry_path ` set (dedup_path es) = entry_path ` set es"
  by (induction es rule: dedup_path.induct) auto

lemma dedup_sorted:
  "sorted (map entry_path es) \<Longrightarrow> sorted (map entry_path (dedup_path es)) \<and> distinct (map entry_path (dedup_path es))"
proof (induction es rule: dedup_path.induct)
  case (1 a b es)
  show ?case
  proof (cases "entry_path b = entry_path a")
    case False
    have "entry_path a < entry_path b"
      using 1(3) False by auto
    then have "\<forall>p\<in>entry_path ` set (b # es). entry_path a < p"
      using 1(3) by (auto dest: less_le_trans)
    then have "\<forall>p\<in>entry_path ` set (dedup_path (b # es)). entry_path a < p"
      by (simp add: dedup_paths)
    then show ?thesis
      using 1(2) [OF False] 1(3) False by (auto simp: image_iff dest: less_imp_le)
  qed (use 1 in auto)
qed simp_all

lemma sign_manifest_parses:
  assumes sound: "\<And>msg. verify anchor msg (sign secret msg)" and sig: "\<And>msg. length (sign secret msg) = SIGNATURE_LEN"
    and key: "length secret = SECRET_KEY_LEN" and ok: "\<forall>e\<in>set entries. entry_ok e"
    and few: "card (entry_path ` set entries) \<le> MAX_MANIFEST_ENTRIES"
  obtains m where "sign_manifest sign secret counter entries = Ok (manifest_text m)"
    "parse_signed_manifest (manifest_text m) = Ok m" "release_counter m = counter"
    "manifest_entries m = dedup_path (sort_key entry_path entries)"
    "entry_path ` set (manifest_entries m) = entry_path ` set entries"
    "verify_manifest verify m anchor = Ok ()"
proof -
  define es where "es = dedup_path (sort_key entry_path entries)"
  define m0 where "m0 = \<lparr>release_counter = counter, manifest_entries = es, manifest_signature = replicate SIGNATURE_LEN 0\<rparr>"
  define m where "m = m0\<lparr>manifest_signature := sign secret (canonical_bytes m0)\<rparr>"
  have es: "sorted (map entry_path es)" "distinct (map entry_path es)"
      "entry_path ` set es = entry_path ` set entries" "set es \<subseteq> set entries"
    using dedup_sorted [of "sort_key entry_path entries"] dedup_paths [of "sort_key entry_path entries"]
      dedup_subset [of "sort_key entry_path entries"] by (simp_all add: es_def)
  have "length es = card (entry_path ` set es)"
    using distinct_card [OF es(2)] by simp
  then have "manifest_ok m"
    using es ok few sig by (auto simp: manifest_ok_def m_def m0_def)
  moreover have same: "sorted_manifest m = m"
    using es(1) by (simp add: sorted_manifest_def m_def m0_def sort_key_id_if_sorted)
  ultimately have "parse_signed_manifest (manifest_text m) = Ok m"
    using parse_manifest_text by simp
  moreover have canon: "canonical_text m = canonical_text m0"
    by (simp add: canonical_text_def canonical_lines_def m_def)
  moreover have "sign_manifest sign secret counter entries = Ok (manifest_text m)"
    using key by (simp add: sign_manifest_def sign_bytes_def signing_key_from_bytes_def es_def [symmetric]
        m0_def [symmetric] manifest_text_def canon Let_def) (simp add: m_def)
  moreover have "verify_manifest verify m anchor = Ok ()"
    using sound by (simp add: verify_manifest_def canonical_bytes_def canon) (simp add: m_def canonical_bytes_def)
  ultimately show ?thesis
    using es(3) by (intro that [of m]) (simp_all add: m_def m0_def es_def)
qed

text \<open>Signing, parsing and verifying agree. For every set of entries whose paths have no whitespace and
  whose lines fit, of at most 256 distinct paths, the signed text parses to a manifest with the given
  counter, the first entry of each path in path order, and the signature verifies under the key of
  the signer (Ed25519 is assumed to verify what it signed and to sign with 64 bytes).\<close>

theorem signed_manifest_round_trip:
  assumes sound: "\<And>msg. verify anchor msg (sign secret msg)" and sig: "\<And>msg. length (sign secret msg) = SIGNATURE_LEN"
    and key: "length secret = SECRET_KEY_LEN" and ok: "\<forall>e\<in>set entries. entry_ok e"
    and few: "card (entry_path ` set entries) \<le> MAX_MANIFEST_ENTRIES"
  shows "\<exists>text m. sign_manifest sign secret counter entries = Ok text \<and> parse_signed_manifest text = Ok m
    \<and> release_counter m = counter \<and> manifest_entries m = dedup_path (sort_key entry_path entries)
    \<and> entry_path ` set (manifest_entries m) = entry_path ` set entries
    \<and> verify_manifest verify m anchor = Ok ()"
  by (rule sign_manifest_parses [of verify anchor sign secret entries counter]) (use assms in blast)+

definition sample_entries :: "manifest_entry list" where
  "sample_entries = [\<lparr>entry_path = ''b'', entry_sha256 = replicate 32 1\<rparr>, \<lparr>entry_path = ''a'', entry_sha256 = replicate 32 2\<rparr>,
     \<lparr>entry_path = ''b'', entry_sha256 = replicate 32 3\<rparr>]"

theorem signed_manifest_round_trip_witness:
  "\<exists>text m. sign_manifest (\<lambda>s msg. replicate 64 9) (replicate 32 0) 7 sample_entries = Ok text
     \<and> parse_signed_manifest text = Ok m \<and> entry_path ` set (manifest_entries m) = {''a'', ''b''}"
proof -
  have "\<forall>e\<in>set sample_entries. entry_ok e"
    by (simp add: sample_entries_def entry_ok_def entry_line_def whitespace_encodings_def model_defs)
  moreover have "entry_path ` set sample_entries = {''a'', ''b''}"
    by (auto simp: sample_entries_def)
  ultimately show ?thesis
    using signed_manifest_round_trip [of "\<lambda>k msg sg. sg = replicate 64 9" "[]" "\<lambda>s msg. replicate 64 9"
        "replicate 32 0" sample_entries 7]
    by (auto simp: model_defs)
qed

text \<open>C13: A signature covers the whole manifest. Every accepted text is within the limits, with distinct
  paths, and two accepted manifests with the same signed bytes have the same release counter and
  accept the same contents for every path. The hexadecimal decoder accepts exactly the lower case
  encodings of the right length.\<close>

theorem signature_binds_manifest:
  assumes "parse_signed_manifest text = Ok m" and "parse_signed_manifest text' = Ok n"
  shows "manifest_ok m \<and> (canonical_bytes m = canonical_bytes n \<longrightarrow> release_counter m = release_counter n
      \<and> (\<forall>path content. verify_entry_digest sha m path content = Ok ()
          \<longleftrightarrow> verify_entry_digest sha n path content = Ok ()))
    \<and> (\<forall>k t bs. decode_hex k t = Ok bs \<longleftrightarrow> t = hex_text bs \<and> length bs = k)"
proof -
  have ok: "manifest_ok m" "manifest_ok n"
    using assms parsed_manifest_ok by blast+
  have "set (manifest_entries m) = set (manifest_entries n)" if "canonical_bytes m = canonical_bytes n"
    using canonical_inj(2) [OF ok that] by (metis sorted_entries(1))
  then show ?thesis
    using ok canonical_inj(1) [OF ok] by (auto simp: digest_listed manifest_ok_def decode_hex_iff)
qed

theorem signature_binds_manifest_witness:
  "\<exists>m. parse_signed_manifest (manifest_text \<lparr>release_counter = 7, manifest_entries = [],
      manifest_signature = replicate 64 0\<rparr>) = Ok m \<and> manifest_ok m"
proof -
  have "parse_signed_manifest (manifest_text \<lparr>release_counter = 7, manifest_entries = [],
      manifest_signature = replicate 64 0\<rparr>) = Ok \<lparr>release_counter = 7, manifest_entries = [],
      manifest_signature = replicate 64 0\<rparr>"
    by (subst parse_manifest_text) (simp_all add: manifest_ok_def sorted_manifest_def model_defs)
  then show ?thesis
    using signature_binds_manifest by blast
qed

end
