(* ===== verification/Launcher.thy ===== *)
theory Launcher
  imports Manifest
begin

text \<open>
  Model of \<open>apps/launcher/src/main.rs\<close>: the boot selector of the portable package with its two slots,
  signed or checksum verification, health counters, rollback to the standby slot, restoration from
  the golden master and the release counter.

  The package is a map from paths below its root to files and directories. Every file system call
  that can fail asks the environment for its outcome, so a theorem covers every pattern of failures;
  an I/O error is the message the environment gives. The existence checks \<open>Path::exists\<close> and
  \<open>Path::is_file\<close> ask it too: a failing metadata call answers \<open>false\<close>, not an error, so the code takes
  the branch of a missing file, and the theorems on signatures and on the release counter say what
  that costs. Ed25519 verification and SHA-256 are parameters,
  as in \<open>Manifest\<close>. Paths in errors are relative to the package root. The spawn of the selected
  executable, the message box and the standard error output are left out, and the developer override
  of the trust anchor, which only debug builds have, is left out as well.
\<close>

section \<open>Slots and errors\<close>

datatype slot = SlotA | SlotB

definition slot_name :: "slot \<Rightarrow> string" where
  "slot_name s = (case s of SlotA \<Rightarrow> ''A'' | SlotB \<Rightarrow> ''B'')"

definition alternate :: "slot \<Rightarrow> slot" where
  "alternate s = (case s of SlotA \<Rightarrow> SlotB | SlotB \<Rightarrow> SlotA)"

datatype selection_error =
    MetadataRead string
  | InvalidMetadata string
  | ExecutableMissing string
  | ExecutableNotFile string
  | ManifestMissing string
  | ManifestHashMissing string
  | ManifestRead string
  | ChecksumMismatch string string string
  | CrashLoopDetected slot u32
  | BothSlotsCorrupted string string
  | HealthTrackingFailure
  | SignedManifestRead string
  | TrustAnchorMissing string
  | TrustAnchorRead string
  | TrustAnchorInvalid crypto_error
  | SignedManifestMalformed crypto_error
  | SignatureVerificationFailed crypto_error
  | ReleaseCounterStateFailure
  | ReleaseCounterRejected crypto_error
  | SignedDigestMismatch string crypto_error

definition selection_error_display :: "selection_error \<Rightarrow> string" where
  "selection_error_display e =
     (case e of
        MetadataRead m \<Rightarrow> ''active slot metadata cannot be read: '' @ m
      | InvalidMetadata v \<Rightarrow> ''active slot metadata is invalid: '' @ v
      | ExecutableMissing p \<Rightarrow> ''selected slot executable is missing: '' @ p
      | ExecutableNotFile p \<Rightarrow> ''selected slot executable is not a file: '' @ p
      | ManifestMissing p \<Rightarrow> ''package manifest SHA256SUMS.txt is missing: '' @ p
      | ManifestHashMissing p \<Rightarrow> ''package manifest SHA256SUMS.txt has no hash entry for '' @ p
      | ManifestRead m \<Rightarrow> ''package manifest SHA256SUMS.txt cannot be read: '' @ m
      | ChecksumMismatch t x a \<Rightarrow>
          ''integrity verification failed for '' @ t @ '': expected '' @ x @ '' but computed '' @ a
      | CrashLoopDetected s n \<Rightarrow>
          ''crash loop detected for slot '' @ slot_name s @ '': '' @ dec (unat n) @ '' consecutive failures''
      | BothSlotsCorrupted a b \<Rightarrow>
          ''both slots failed verification and require package repair: active slot rejected with ['' @ a
            @ ''] and standby slot rejected with ['' @ b @ '']''
      | HealthTrackingFailure \<Rightarrow> ''failed to read or update slot health tracking state''
      | SignedManifestRead m \<Rightarrow> ''signed manifest manifest.sig cannot be read: '' @ m
      | TrustAnchorMissing p \<Rightarrow> ''signed manifest is present but trust anchor is missing: '' @ p
      | TrustAnchorRead m \<Rightarrow> ''trust anchor trust-anchor.pub cannot be read: '' @ m
      | TrustAnchorInvalid c \<Rightarrow> ''trust anchor trust-anchor.pub is invalid: '' @ crypto_error_display c
      | SignedManifestMalformed c \<Rightarrow> ''signed manifest is malformed: '' @ crypto_error_display c
      | SignatureVerificationFailed c \<Rightarrow>
          ''signed manifest signature verification failed: '' @ crypto_error_display c
      | ReleaseCounterStateFailure \<Rightarrow> ''failed to read or persist the release counter state''
      | ReleaseCounterRejected c \<Rightarrow>
          ''signed manifest release counter rejected as replay or downgrade: '' @ crypto_error_display c
      | SignedDigestMismatch t c \<Rightarrow>
          ''signed manifest digest verification failed for '' @ t @ '': '' @ crypto_error_display c)"

section \<open>The package on disk\<close>

datatype fs_node = File bytes | Directory

record disk =
  tree :: "string \<Rightarrow> fs_node option"
  io_fault :: "nat \<Rightarrow> string option"
  stat_fault :: "string \<Rightarrow> nat \<Rightarrow> bool"
  io_calls :: nat
  launcher_pid :: u32

record crypto =
  ed_verify :: verifier
  sha256 :: "bytes \<Rightarrow> bytes"

type_synonym 'a launch = "disk \<Rightarrow> (selection_error, 'a) result \<times> disk"

definition set_node :: "string \<Rightarrow> fs_node option \<Rightarrow> disk \<Rightarrow> disk" where
  "set_node p n d = d\<lparr>tree := (tree d)(p := n)\<rparr>"

text \<open>\<open>Path::exists\<close> and \<open>Path::is_file\<close> never report an error: a metadata call that the environment lets fail
  answers \<open>False\<close>. Each check is a call of its own, so two checks of one path may differ.\<close>

definition path_exists :: "string \<Rightarrow> bool launch" where
  "path_exists p d =
     (Ok (\<not> stat_fault d p (io_calls d) \<and> tree d p \<noteq> None), d\<lparr>io_calls := io_calls d + 1\<rparr>)"

definition is_file :: "string \<Rightarrow> bool launch" where
  "is_file p d =
     (Ok (\<not> stat_fault d p (io_calls d) \<and> (case tree d p of Some (File _) \<Rightarrow> True | _ \<Rightarrow> False)),
      d\<lparr>io_calls := io_calls d + 1\<rparr>)"

text \<open>One call of the file system: the environment lets it through or answers an error.\<close>

definition fs_call :: "(string \<Rightarrow> selection_error) \<Rightarrow> unit launch" where
  "fs_call err d =
     (case io_fault d (io_calls d) of
        None \<Rightarrow> (Ok (), d\<lparr>io_calls := io_calls d + 1\<rparr>)
      | Some m \<Rightarrow> (Err (err m), d\<lparr>io_calls := io_calls d + 1\<rparr>))"

definition fs_read :: "string \<Rightarrow> (string \<Rightarrow> selection_error) \<Rightarrow> bytes launch" where
  "fs_read p err d =
     and_then (fs_call err d) (\<lambda>_ d.
       case tree d p of Some (File bs) \<Rightarrow> (Ok bs, d) | _ \<Rightarrow> (Err (err ''not found''), d))"

definition fs_read_to_string :: "string \<Rightarrow> (string \<Rightarrow> selection_error) \<Rightarrow> string launch" where
  "fs_read_to_string p err d =
     and_then (fs_read p err d) (\<lambda>bs d.
       if valid_utf8 bs then (Ok (text_of bs), d) else (Err (err ''stream did not contain valid UTF-8''), d))"

text \<open>A write opens the file, which truncates it, and then writes.\<close>

definition fs_write :: "string \<Rightarrow> bytes \<Rightarrow> (string \<Rightarrow> selection_error) \<Rightarrow> unit launch" where
  "fs_write p bs err d =
     and_then (fs_call err d) (\<lambda>_ d.
       if tree d p = Some Directory then (Err (err ''is a directory''), d)
       else and_then (fs_call err (set_node p (Some (File [])) d)) (\<lambda>_ d. (Ok (), set_node p (Some (File bs)) d)))"

definition fs_remove_ignored :: "string \<Rightarrow> disk \<Rightarrow> disk" where
  "fs_remove_ignored p d = (case fs_call MetadataRead d of (r, d1) \<Rightarrow> if isl r then d1 else set_node p None d1)"

definition fs_append :: "string \<Rightarrow> bytes \<Rightarrow> (string \<Rightarrow> selection_error) \<Rightarrow> unit launch" where
  "fs_append p bs err d =
     and_then (fs_call err d) (\<lambda>_ d.
       if tree d p = Some Directory then (Err (err ''is a directory''), d)
       else
         let old = (case tree d p of Some (File b) \<Rightarrow> b | _ \<Rightarrow> []) in
         and_then (fs_call err (set_node p (Some (File old)) d)) (\<lambda>_ d.
           (Ok (), set_node p (Some (File (old @ bs))) d)))"

definition fs_copy :: "string \<Rightarrow> string \<Rightarrow> (string \<Rightarrow> selection_error) \<Rightarrow> unit launch" where
  "fs_copy from to err d = and_then (fs_read from err d) (\<lambda>bs d. fs_write to bs err d)"

definition compute_sha256 :: "crypto \<Rightarrow> string \<Rightarrow> (string \<Rightarrow> selection_error) \<Rightarrow> string launch" where
  "compute_sha256 K p err d = and_then (fs_read p err d) (\<lambda>bs d. (Ok (hex_text (sha256 K bs)), d))"

definition atomic_replace :: "string \<Rightarrow> string \<Rightarrow> unit launch" where
  "atomic_replace staging target d =
     (case fs_call MetadataRead d of
        (Inl e, d1) \<Rightarrow> (Err e, fs_remove_ignored staging d1)
      | (Inr _, d1) \<Rightarrow> (Ok (), set_node staging None (set_node target (tree d1 staging) d1)))"

text \<open>The staging name beside a file, which carries the process id.\<close>

definition staging_path :: "string \<Rightarrow> disk \<Rightarrow> string" where
  "staging_path base d = base @ ''.staging.'' @ dec (unat (launcher_pid d)) @ ''.tmp''"

section \<open>Verification\<close>

definition slot_executable :: "slot \<Rightarrow> string" where
  "slot_executable s = ''Slots/'' @ slot_name s @ ''/true-tick.exe''"

definition RECOVERY_EXECUTABLE_REL :: string where
  "RECOVERY_EXECUTABLE_REL = ''Recovery/true-tick.exe''"

definition load_signed_manifest :: "signed_manifest option launch" where
  "load_signed_manifest d =
     and_then (path_exists ''manifest.sig'' d) (\<lambda>found d.
       if \<not> found then (Ok None, d)
       else and_then (fs_read_to_string ''manifest.sig'' SignedManifestRead d) (\<lambda>text d.
         case parse_signed_manifest text of
           Inl c \<Rightarrow> (Err (SignedManifestMalformed c), d)
         | Inr m \<Rightarrow> (Ok (Some m), d)))"

definition resolve_trust_anchor_path :: string where
  "resolve_trust_anchor_path = ''trust-anchor.pub''"

definition load_trust_anchor :: "bytes launch" where
  "load_trust_anchor d =
     and_then (path_exists resolve_trust_anchor_path d) (\<lambda>found d.
       if \<not> found then (Err (TrustAnchorMissing resolve_trust_anchor_path), d)
       else and_then (fs_read resolve_trust_anchor_path TrustAnchorRead d) (\<lambda>bs d.
         case anchor_from_bytes bs of Inl c \<Rightarrow> (Err (TrustAnchorInvalid c), d) | Inr key \<Rightarrow> (Ok key, d)))"

definition release_counter_state_path :: string where
  "release_counter_state_path = ''Data/state/release-counter.state''"

definition read_release_counter :: "u64 launch" where
  "read_release_counter d =
     and_then (path_exists release_counter_state_path d) (\<lambda>found d.
       if \<not> found then (Ok 0, d)
       else and_then (fs_read_to_string release_counter_state_path (\<lambda>_. ReleaseCounterStateFailure) d) (\<lambda>text d.
         case parse_unsigned (2 ^ 64 - 1) (trim text) of
           None \<Rightarrow> (Err ReleaseCounterStateFailure, d)
         | Some n \<Rightarrow> (Ok (of_nat n), d)))"

definition persist_release_counter :: "u64 \<Rightarrow> unit launch" where
  "persist_release_counter counter d =
     (let staging = staging_path release_counter_state_path d in
      and_then (fs_call (\<lambda>_. ReleaseCounterStateFailure) d) (\<lambda>_ d.
      and_then (fs_write staging (bytes_of (dec (unat counter) @ newline)) (\<lambda>_. ReleaseCounterStateFailure) d)
        (\<lambda>_ d.
      and_then (atomic_replace staging release_counter_state_path d) (\<lambda>_ d.
        (Ok (), fs_remove_ignored staging d)))))"

definition verify_slot_integrity_signed :: "crypto \<Rightarrow> slot \<Rightarrow> signed_manifest \<Rightarrow> unit launch" where
  "verify_slot_integrity_signed K s m d =
     and_then (fs_read (slot_executable s) MetadataRead d) (\<lambda>bs d.
       case verify_entry_digest (sha256 K) m (slot_executable s) bs of
         Inl c \<Rightarrow> (Err (SignedDigestMismatch (slot_executable s) c), d)
       | Inr _ \<Rightarrow> (Ok (), d))"

definition verify_recovery_integrity_signed :: "crypto \<Rightarrow> signed_manifest \<Rightarrow> unit launch" where
  "verify_recovery_integrity_signed K m d =
     (if RECOVERY_EXECUTABLE_REL \<notin> entry_path ` set (manifest_entries m) then (Ok (), d)
      else and_then (fs_read RECOVERY_EXECUTABLE_REL MetadataRead d) (\<lambda>bs d.
        case verify_entry_digest (sha256 K) m RECOVERY_EXECUTABLE_REL bs of
          Inl c \<Rightarrow> (Err (SignedDigestMismatch RECOVERY_EXECUTABLE_REL c), d)
        | Inr _ \<Rightarrow> (Ok (), d)))"

definition counter_decision :: "signed_manifest \<Rightarrow> u64 \<Rightarrow> (selection_error, u64 option) result" where
  "counter_decision m previously_seen =
     (if release_counter m < previously_seen then Err (ReleaseCounterRejected SignatureInvalid)
      else if release_counter m = previously_seen then Ok None
      else case check_release_counter m previously_seen of
        Inl c \<Rightarrow> Err (ReleaseCounterRejected c)
      | Inr _ \<Rightarrow> Ok (Some (release_counter m)))"

definition prepare_signed_manifest ::
    "crypto \<Rightarrow> slot \<Rightarrow> (signed_manifest \<times> u64 option) option launch" where
  "prepare_signed_manifest K s d =
     and_then (load_signed_manifest d) (\<lambda>found d.
       case found of
         None \<Rightarrow> (Ok None, d)
       | Some m \<Rightarrow>
           and_then (load_trust_anchor d) (\<lambda>anchor d.
             case verify_manifest (ed_verify K) m anchor of
               Inl c \<Rightarrow> (Err (SignatureVerificationFailed c), d)
             | Inr _ \<Rightarrow>
                 and_then (read_release_counter d) (\<lambda>previously_seen d.
                   case counter_decision m previously_seen of
                     Inl e \<Rightarrow> (Err e, d)
                   | Inr pend \<Rightarrow>
                       and_then (verify_slot_integrity_signed K s m d) (\<lambda>_ d.
                       and_then (verify_recovery_integrity_signed K m d) (\<lambda>_ d.
                         (Ok (Some (m, pend)), d))))))"

definition backslashed :: "string \<Rightarrow> string" where
  "backslashed p = map (\<lambda>c. if c = CHR ''/'' then CHR 0x5C else c) p"

fun checksum_for :: "string \<Rightarrow> string list \<Rightarrow> string option" where
  "checksum_for target [] = None"
| "checksum_for target (raw # rest) =
     (let line = trim raw in
      if line = [] then checksum_for target rest
      else case next_word line of
        None \<Rightarrow> checksum_for target rest
      | Some (hash, r) \<Rightarrow>
          (case next_word r of
             None \<Rightarrow> checksum_for target rest
           | Some (filename, _) \<Rightarrow>
               if filename = target \<or> filename = backslashed target then Some (to_ascii_lowercase hash)
               else checksum_for target rest))"

text \<open>The comparison with \<open>SHA256SUMS.txt\<close> that the slots and the golden master share in the source.\<close>

definition verify_checksum :: "crypto \<Rightarrow> string \<Rightarrow> unit launch" where
  "verify_checksum K target d =
     and_then (path_exists ''SHA256SUMS.txt'' d) (\<lambda>found d.
       if \<not> found then (Err (ManifestMissing ''SHA256SUMS.txt''), d)
       else and_then (fs_read_to_string ''SHA256SUMS.txt'' ManifestRead d) (\<lambda>content d.
         case checksum_for target (lines content) of
           None \<Rightarrow> (Err (ManifestHashMissing target), d)
         | Some expected \<Rightarrow>
             and_then (compute_sha256 K target MetadataRead d) (\<lambda>actual d.
               if to_ascii_lowercase actual \<noteq> expected then (Err (ChecksumMismatch target expected actual), d)
               else (Ok (), d))))"

definition verify_slot_integrity_checksum :: "crypto \<Rightarrow> slot \<Rightarrow> unit launch" where
  "verify_slot_integrity_checksum K s d = verify_checksum K (slot_executable s) d"

definition verify_slot_integrity :: "crypto \<Rightarrow> slot \<Rightarrow> u64 option launch" where
  "verify_slot_integrity K s d =
     and_then (prepare_signed_manifest K s d) (\<lambda>prepared d.
       case prepared of
         Some (_, pend) \<Rightarrow> (Ok pend, d)
       | None \<Rightarrow> and_then (verify_slot_integrity_checksum K s d) (\<lambda>_ d. (Ok None, d)))"

definition verify_slot_executable :: "crypto \<Rightarrow> slot \<Rightarrow> (string \<times> u64 option) launch" where
  "verify_slot_executable K s d =
     (let executable = slot_executable s in
      and_then (path_exists executable d) (\<lambda>found d.
        if \<not> found then (Err (ExecutableMissing executable), d)
        else and_then (is_file executable d) (\<lambda>file d.
          if \<not> file then (Err (ExecutableNotFile executable), d)
          else and_then (verify_slot_integrity K s d) (\<lambda>pend d. (Ok (executable, pend), d)))))"

section \<open>Health counters\<close>

definition slot_health_path :: "slot \<Rightarrow> string" where
  "slot_health_path s = ''Data/state/slot-'' @ slot_name s @ ''-health.state''"

definition read_slot_health :: "slot \<Rightarrow> u32 launch" where
  "read_slot_health s d =
     and_then (path_exists (slot_health_path s) d) (\<lambda>found d.
       if \<not> found then (Ok 0, d)
       else and_then (fs_read_to_string (slot_health_path s) (\<lambda>_. HealthTrackingFailure) d) (\<lambda>text d.
         case parse_unsigned (2 ^ 32 - 1) (trim text) of
           None \<Rightarrow> (Err HealthTrackingFailure, d)
         | Some n \<Rightarrow> (Ok (of_nat n), d)))"

definition health_error :: "(selection_error, 'a) result \<times> disk \<Rightarrow> (selection_error, 'a) result \<times> disk" where
  "health_error r = (case r of (Inl _, d) \<Rightarrow> (Err HealthTrackingFailure, d) | ok \<Rightarrow> ok)"

definition increment_slot_health :: "slot \<Rightarrow> u32 launch" where
  "increment_slot_health s d =
     and_then (fs_call (\<lambda>_. HealthTrackingFailure) d) (\<lambda>_ d.
     and_then (read_slot_health s d) (\<lambda>n d.
       let count = saturating_add n 1;
           staging = staging_path (slot_health_path s) d
       in and_then (fs_write staging (bytes_of (dec (unat count) @ newline)) (\<lambda>_. HealthTrackingFailure) d)
            (\<lambda>_ d.
          and_then (health_error (atomic_replace staging (slot_health_path s) d)) (\<lambda>_ d.
            (Ok count, fs_remove_ignored staging d)))))"

definition clear_slot_health :: "slot \<Rightarrow> unit launch" where
  "clear_slot_health s d =
     and_then (path_exists (slot_health_path s) d) (\<lambda>found d.
       if \<not> found then (Ok (), d)
       else and_then (fs_call (\<lambda>_. HealthTrackingFailure) d) (\<lambda>_ d.
         (Ok (), set_node (slot_health_path s) None d)))"

definition BOOT_FAILURE_THRESHOLD :: u32 where
  [model_defs]: "BOOT_FAILURE_THRESHOLD = 3"

section \<open>Rollback and restoration\<close>

definition append_rollback_log :: "string \<Rightarrow> unit launch" where
  "append_rollback_log entry d =
     and_then (fs_call (\<lambda>_. HealthTrackingFailure) d) (\<lambda>_ d.
       fs_append ''Data/logs/launcher-rollback.log'' (bytes_of entry) (\<lambda>_. HealthTrackingFailure) d)"

definition record_golden_master_restoration :: "slot \<Rightarrow> unit launch" where
  "record_golden_master_restoration target =
     append_rollback_log (''event=autonomous_golden_master_restoration target=Slot::'' @ slot_name target
       @ '' status=restored'' @ newline)"

definition record_rollback_decision :: "slot \<Rightarrow> slot \<Rightarrow> selection_error \<Rightarrow> unit launch" where
  "record_rollback_decision from to cause =
     append_rollback_log (''event=autonomous_slot_rollback from='' @ slot_name from @ '' to='' @ slot_name to
       @ '' cause='' @ selection_error_display cause @ newline)"

definition write_active_slot :: "slot \<Rightarrow> unit launch" where
  "write_active_slot s d =
     (let staging = staging_path ''active-slot.txt'' d in
      and_then (fs_write staging (bytes_of (slot_name s @ newline)) MetadataRead d) (\<lambda>_ d.
      and_then (atomic_replace staging ''active-slot.txt'' d) (\<lambda>_ d. (Ok (), fs_remove_ignored staging d))))"

definition verify_golden_master :: "crypto \<Rightarrow> string launch" where
  "verify_golden_master K d =
     and_then (path_exists RECOVERY_EXECUTABLE_REL d) (\<lambda>found d.
       if \<not> found then (Err (ExecutableMissing RECOVERY_EXECUTABLE_REL), d)
       else and_then (is_file RECOVERY_EXECUTABLE_REL d) (\<lambda>file d.
         if \<not> file then (Err (ExecutableNotFile RECOVERY_EXECUTABLE_REL), d)
         else and_then (verify_checksum K RECOVERY_EXECUTABLE_REL d) (\<lambda>_ d. (Ok RECOVERY_EXECUTABLE_REL, d))))"

definition restore_from_golden_master :: "crypto \<Rightarrow> (string \<times> u64 option) launch" where
  "restore_from_golden_master K d =
     and_then (verify_golden_master K d) (\<lambda>golden d.
     and_then (is_file ''Recovery/true-tick.toml'' d) (\<lambda>file d.
       if \<not> file then (Err (ExecutableMissing ''Recovery/true-tick.toml''), d)
       else
         let executable = slot_executable SlotA;
             staging = staging_path executable d
         in and_then (fs_call MetadataRead d) (\<lambda>_ d.
            and_then (fs_copy golden staging MetadataRead d) (\<lambda>_ d.
            and_then (compute_sha256 K staging MetadataRead d) (\<lambda>staging_hash d.
            and_then (compute_sha256 K golden MetadataRead d) (\<lambda>source_hash d.
              if staging_hash \<noteq> source_hash
              then (Err (ChecksumMismatch RECOVERY_EXECUTABLE_REL source_hash staging_hash),
                    fs_remove_ignored staging d)
              else
                and_then (atomic_replace staging executable d) (\<lambda>_ d.
                and_then (fs_copy ''Recovery/true-tick.toml'' ''Slots/A/true-tick.toml'' MetadataRead
                    (fs_remove_ignored staging d)) (\<lambda>_ d.
                and_then (verify_slot_executable K SlotA d) (\<lambda>(_, pend) d.
                and_then (record_golden_master_restoration SlotA d) (\<lambda>_ d.
                and_then (write_active_slot SlotA d) (\<lambda>_ d. (Ok (executable, pend), d))))))))))))"

section \<open>Selection\<close>

definition MAX_NORMALIZATION_PASSES :: nat where
  [model_defs]: "MAX_NORMALIZATION_PASSES = 8"

definition noise_encodings :: "string list" where
  "noise_encodings = whitespace_encodings @ [[CHR 0x0D], [CHR 0x0A], [CHR 0x00], [CHR 0xEF, CHR 0xBB, CHR 0xBF]]"

definition trim_noise :: "string \<Rightarrow> string" where
  "trim_noise s = rev (trim_front (map rev noise_encodings) (rev (trim_front noise_encodings s)))"

fun normalize_passes :: "nat \<Rightarrow> string \<Rightarrow> string" where
  "normalize_passes 0 v = v"
| "normalize_passes (Suc n) v = (if trim_noise v = v then v else normalize_passes n (trim_noise v))"

definition normalize_active_slot :: "string \<Rightarrow> string" where
  "normalize_active_slot raw = normalize_passes MAX_NORMALIZATION_PASSES raw"

definition parse_active_slot :: "string \<Rightarrow> slot option" where
  "parse_active_slot raw =
     (let v = normalize_active_slot raw in
      if v = ''A'' then Some SlotA else if v = ''B'' then Some SlotB else None)"

definition commit_release_counter :: "u64 option \<Rightarrow> unit launch" where
  "commit_release_counter pend d =
     (case pend of Some counter \<Rightarrow> persist_release_counter counter d | None \<Rightarrow> (Ok (), d))"

fun find_installed :: "slot list \<Rightarrow> slot option launch" where
  "find_installed [] d = (Ok None, d)"
| "find_installed (s # rest) d =
     and_then (path_exists (slot_executable s) d) (\<lambda>found d.
       if found then (Ok (Some s), d) else find_installed rest d)"

definition fallback_slot_from_installed_executables :: "slot option launch" where
  "fallback_slot_from_installed_executables = find_installed [SlotA, SlotB]"

definition verify_and_check_slot :: "crypto \<Rightarrow> slot \<Rightarrow> (string \<times> u64 option) launch" where
  "verify_and_check_slot K s d =
     and_then (read_slot_health s d) (\<lambda>failures d.
       if BOOT_FAILURE_THRESHOLD \<le> failures then (Err (CrashLoopDetected s failures), d)
       else verify_slot_executable K s d)"

definition select_restore :: "crypto \<Rightarrow> selection_error \<Rightarrow> selection_error \<Rightarrow> (slot \<times> string) launch" where
  "select_restore K active_error standby_error d =
     (case restore_from_golden_master K d of
        (Inl _, d1) \<Rightarrow>
          (Err (BothSlotsCorrupted (selection_error_display active_error) (selection_error_display standby_error)), d1)
      | (Inr (executable, pend), d1) \<Rightarrow>
          and_then (clear_slot_health SlotA d1) (\<lambda>_ d.
          and_then (clear_slot_health SlotB d) (\<lambda>_ d.
          and_then (commit_release_counter pend d) (\<lambda>_ d. (Ok (SlotA, executable), d)))))"

definition select_standby :: "crypto \<Rightarrow> slot \<Rightarrow> selection_error \<Rightarrow> (slot \<times> string) launch" where
  "select_standby K s active_error d =
     (let standby = alternate s in
      case verify_and_check_slot K standby d of
        (Inr (executable, pend), d1) \<Rightarrow>
          and_then (record_rollback_decision s standby active_error d1) (\<lambda>_ d.
          and_then (write_active_slot standby d) (\<lambda>_ d.
          and_then (clear_slot_health standby d) (\<lambda>_ d.
          and_then (commit_release_counter pend d) (\<lambda>_ d. (Ok (standby, executable), d)))))
      | (Inl standby_error, d1) \<Rightarrow>
          if standby_error = HealthTrackingFailure then (Err standby_error, d1)
          else and_then (increment_slot_health standby d1) (\<lambda>_ d. select_restore K active_error standby_error d))"

definition select_active :: "crypto \<Rightarrow> slot \<Rightarrow> (slot \<times> string) launch" where
  "select_active K s d =
     (case verify_and_check_slot K s d of
        (Inr (executable, pend), d1) \<Rightarrow>
          and_then (clear_slot_health s d1) (\<lambda>_ d.
          and_then (commit_release_counter pend d) (\<lambda>_ d. (Ok (s, executable), d)))
      | (Inl active_error, d1) \<Rightarrow>
          if active_error = HealthTrackingFailure then (Err active_error, d1)
          else and_then (increment_slot_health s d1) (\<lambda>_ d. select_standby K s active_error d))"

definition select :: "crypto \<Rightarrow> (slot \<times> string) launch" where
  "select K d =
     and_then (fs_read_to_string ''active-slot.txt'' MetadataRead d) (\<lambda>raw d.
       case parse_active_slot raw of
         Some s \<Rightarrow> select_active K s d
       | None \<Rightarrow>
           and_then (fallback_slot_from_installed_executables d) (\<lambda>found d.
             case found of
               None \<Rightarrow> (Err (InvalidMetadata (normalize_active_slot raw)), d)
             | Some s \<Rightarrow> select_active K s d))"

section \<open>What the operations touch\<close>

definition same_outside :: "(string \<Rightarrow> bool) \<Rightarrow> disk \<Rightarrow> disk \<Rightarrow> bool" where
  "same_outside W d e \<longleftrightarrow> stat_fault e = stat_fault d \<and> io_calls d \<le> io_calls e \<and> (\<forall>p. \<not> W p \<longrightarrow> tree e p = tree d p)"

text \<open>An existence check of a path failed between two states.\<close>

definition missed :: "disk \<Rightarrow> disk \<Rightarrow> string \<Rightarrow> bool" where
  "missed d e p \<longleftrightarrow> (\<exists>n. io_calls d \<le> n \<and> n < io_calls e \<and> stat_fault d p n)"

lemma same_outside_refl [simp]: "same_outside W d d"
  by (simp add: same_outside_def)

lemma same_outside_trans: "same_outside W d e \<Longrightarrow> same_outside W e f \<Longrightarrow> same_outside W d f"
  by (simp add: same_outside_def)

lemma missed_between:
  "missed a b p \<Longrightarrow> same_outside V d a \<Longrightarrow> same_outside W b e \<Longrightarrow> missed d e p"
  unfolding missed_def same_outside_def by (metis le_trans less_le_trans)

lemma same_outside_mono: "same_outside V d e \<Longrightarrow> (\<And>p. V p \<Longrightarrow> W p) \<Longrightarrow> same_outside W d e"
  unfolding same_outside_def by blast

lemma same_tree: "same_outside (\<lambda>_. False) d e \<longleftrightarrow> tree e = tree d \<and> stat_fault e = stat_fault d \<and> io_calls d \<le> io_calls e"
  by (auto simp: same_outside_def)

lemma seq_keeps:
  assumes "same_outside W d (snd m)" and "\<And>x e. same_outside W d e \<Longrightarrow> same_outside W d (snd (f x e))"
  shows "same_outside W d (snd (and_then m f))"
  using assms by (cases m; cases "fst m") auto

lemma set_node_keeps: "same_outside W d e \<Longrightarrow> W p \<Longrightarrow> same_outside W d (set_node p n e)"
  by (auto simp: same_outside_def set_node_def)

lemma fs_call_keeps: "same_outside W d e \<Longrightarrow> same_outside W d (snd (fs_call err e))"
  by (auto simp: fs_call_def same_outside_def split: option.split)

lemma check_keeps:
  "same_outside W d e \<Longrightarrow> same_outside W d (snd (path_exists p e))"
  "same_outside W d e \<Longrightarrow> same_outside W d (snd (is_file p e))"
  by (simp_all add: path_exists_def is_file_def same_outside_def)

lemma fs_read_keeps: "same_outside W d e \<Longrightarrow> same_outside W d (snd (fs_read p err e))"
  unfolding fs_read_def by (intro seq_keeps fs_call_keeps) (auto split: option.split fs_node.split)

lemma fs_read_string_keeps: "same_outside W d e \<Longrightarrow> same_outside W d (snd (fs_read_to_string p err e))"
  unfolding fs_read_to_string_def by (intro seq_keeps fs_read_keeps) auto

lemma fs_write_keeps: "same_outside W d e \<Longrightarrow> W p \<Longrightarrow> same_outside W d (snd (fs_write p bs err e))"
  unfolding fs_write_def
  by (intro seq_keeps fs_call_keeps) (auto intro!: seq_keeps fs_call_keeps set_node_keeps)

lemma fs_append_keeps: "same_outside W d e \<Longrightarrow> W p \<Longrightarrow> same_outside W d (snd (fs_append p bs err e))"
  unfolding fs_append_def Let_def
  by (intro seq_keeps fs_call_keeps) (auto intro!: seq_keeps fs_call_keeps set_node_keeps)

lemma fs_remove_keeps: "same_outside W d e \<Longrightarrow> W p \<Longrightarrow> same_outside W d (fs_remove_ignored p e)"
  using fs_call_keeps [of W d e MetadataRead]
  by (auto simp: fs_remove_ignored_def intro: set_node_keeps split: prod.split)

lemma fs_copy_keeps: "same_outside W d e \<Longrightarrow> W t \<Longrightarrow> same_outside W d (snd (fs_copy p t err e))"
  unfolding fs_copy_def by (intro seq_keeps fs_read_keeps fs_write_keeps)

lemma sha_keeps: "same_outside W d e \<Longrightarrow> same_outside W d (snd (compute_sha256 K p err e))"
  unfolding compute_sha256_def by (intro seq_keeps fs_read_keeps) auto

lemma replace_keeps:
  "same_outside W d e \<Longrightarrow> W st \<Longrightarrow> W t \<Longrightarrow> same_outside W d (snd (atomic_replace st t e))"
  using fs_call_keeps [of W d e MetadataRead]
  by (auto simp: atomic_replace_def intro!: fs_remove_keeps set_node_keeps split: prod.split sum.split)

lemma health_error_keeps: "same_outside W d (snd m) \<Longrightarrow> same_outside W d (snd (health_error m))"
  by (auto simp: health_error_def split: prod.split sum.split)

lemmas keeps_intros = seq_keeps fs_call_keeps check_keeps fs_read_keeps fs_read_string_keeps fs_write_keeps
  fs_append_keeps fs_remove_keeps fs_copy_keeps sha_keeps replace_keeps health_error_keeps set_node_keeps

lemma load_manifest_keeps: "same_outside W d e \<Longrightarrow> same_outside W d (snd (load_signed_manifest e))"
  unfolding load_signed_manifest_def by (auto intro!: keeps_intros split: sum.split)

lemma load_anchor_keeps: "same_outside W d e \<Longrightarrow> same_outside W d (snd (load_trust_anchor e))"
  unfolding load_trust_anchor_def by (auto intro!: keeps_intros split: sum.split)

lemma read_counter_keeps: "same_outside W d e \<Longrightarrow> same_outside W d (snd (read_release_counter e))"
  unfolding read_release_counter_def by (auto intro!: keeps_intros split: option.split)

lemma signed_slot_keeps: "same_outside W d e \<Longrightarrow> same_outside W d (snd (verify_slot_integrity_signed K s m e))"
  unfolding verify_slot_integrity_signed_def by (auto intro!: keeps_intros split: sum.split)

lemma signed_recovery_keeps: "same_outside W d e \<Longrightarrow> same_outside W d (snd (verify_recovery_integrity_signed K m e))"
  unfolding verify_recovery_integrity_signed_def by (auto intro!: keeps_intros split: sum.split)

lemma prepare_keeps: "same_outside W d e \<Longrightarrow> same_outside W d (snd (prepare_signed_manifest K s e))"
  unfolding prepare_signed_manifest_def
  by (auto intro!: seq_keeps load_manifest_keeps load_anchor_keeps read_counter_keeps signed_slot_keeps
      signed_recovery_keeps split: option.split sum.split)

lemma verify_checksum_keeps: "same_outside W d e \<Longrightarrow> same_outside W d (snd (verify_checksum K p e))"
  unfolding verify_checksum_def by (auto intro!: keeps_intros split: option.split)

lemma verify_slot_keeps: "same_outside W d e \<Longrightarrow> same_outside W d (snd (verify_slot_executable K s e))"
  unfolding verify_slot_executable_def verify_slot_integrity_def verify_slot_integrity_checksum_def Let_def
  by (auto intro!: seq_keeps check_keeps prepare_keeps verify_checksum_keeps split: option.split)

lemma read_health_keeps: "same_outside W d e \<Longrightarrow> same_outside W d (snd (read_slot_health s e))"
  unfolding read_slot_health_def by (auto intro!: keeps_intros split: option.split)

lemma verify_and_check_keeps: "same_outside W d e \<Longrightarrow> same_outside W d (snd (verify_and_check_slot K s e))"
  unfolding verify_and_check_slot_def by (auto intro!: seq_keeps read_health_keeps verify_slot_keeps)

text \<open>Health counters, the rollback log and the active slot are bookkeeping.\<close>

definition bookkeeping :: "string \<Rightarrow> bool" where
  "bookkeeping p \<longleftrightarrow> take 16 p = ''Data/state/slot-'' \<or> take 10 p = ''Data/logs/'' \<or> take 15 p = ''active-slot.txt''"

lemma bookkeeping_paths [simp]:
  "bookkeeping (slot_health_path s)" "bookkeeping (staging_path (slot_health_path s) d)"
  "bookkeeping ''Data/logs/launcher-rollback.log''" "bookkeeping ''active-slot.txt''"
  "bookkeeping (staging_path ''active-slot.txt'' d)"
  by (simp_all add: bookkeeping_def slot_health_path_def staging_path_def)

lemma increment_keeps:
  assumes "same_outside W d e" and "\<And>p. bookkeeping p \<Longrightarrow> W p"
  shows "same_outside W d (snd (increment_slot_health s e))"
  unfolding increment_slot_health_def Let_def
  using assms by (auto intro!: keeps_intros read_health_keeps)

lemma clear_keeps:
  assumes "same_outside W d e" and "\<And>p. bookkeeping p \<Longrightarrow> W p"
  shows "same_outside W d (snd (clear_slot_health s e))"
  unfolding clear_slot_health_def using assms by (auto intro!: keeps_intros)

lemma log_keeps:
  assumes "same_outside W d e" and "\<And>p. bookkeeping p \<Longrightarrow> W p"
  shows "same_outside W d (snd (append_rollback_log entry e))"
  unfolding append_rollback_log_def using assms by (auto intro!: keeps_intros)

lemma write_active_keeps:
  assumes "same_outside W d e" and "\<And>p. bookkeeping p \<Longrightarrow> W p"
  shows "same_outside W d (snd (write_active_slot s e))"
  unfolding write_active_slot_def Let_def using assms by (auto intro!: keeps_intros)

section \<open>What a successful verification means\<close>

text \<open>An executable is vouched for by an entry of the manifest signed under the trust anchor, or by its line in
  the checksum list.\<close>

definition signed_by :: "crypto \<Rightarrow> (string \<Rightarrow> fs_node option) \<Rightarrow> signed_manifest \<Rightarrow> bool" where
  "signed_by K tr m \<longleftrightarrow> (\<exists>mb key. tr ''manifest.sig'' = Some (File mb) \<and> parse_signed_manifest (text_of mb) = Ok m
     \<and> tr resolve_trust_anchor_path = Some (File key) \<and> length key = PUBLIC_KEY_LEN
     \<and> ed_verify K key (canonical_bytes m) (manifest_signature m))"

definition listed_checksum :: "crypto \<Rightarrow> (string \<Rightarrow> fs_node option) \<Rightarrow> string \<Rightarrow> bool" where
  "listed_checksum K tr target \<longleftrightarrow> (\<exists>bs mb. tr target = Some (File bs) \<and> tr ''SHA256SUMS.txt'' = Some (File mb)
     \<and> checksum_for target (lines (text_of mb)) = Some (to_ascii_lowercase (hex_text (sha256 K bs))))"

definition signed_entry :: "crypto \<Rightarrow> (string \<Rightarrow> fs_node option) \<Rightarrow> signed_manifest \<Rightarrow> string \<Rightarrow> bool" where
  "signed_entry K tr m target \<longleftrightarrow> signed_by K tr m \<and> (\<exists>bs. tr target = Some (File bs)
     \<and> \<lparr>entry_path = target, entry_sha256 = sha256 K bs\<rparr> \<in> set (manifest_entries m))"

definition stored_counter :: "(string \<Rightarrow> fs_node option) \<Rightarrow> u64 option" where
  "stored_counter tr =
     (case tr release_counter_state_path of
        None \<Rightarrow> Some 0
      | Some (File bs) \<Rightarrow> map_option of_nat (parse_unsigned (2 ^ 64 - 1) (trim (text_of bs)))
      | Some Directory \<Rightarrow> None)"

definition counter_step :: "signed_manifest \<Rightarrow> u64 \<Rightarrow> u64 option \<Rightarrow> bool" where
  "counter_step m n pend \<longleftrightarrow> n \<le> release_counter m
     \<and> pend = (if n = release_counter m then None else Some (release_counter m))"

text \<open>The counter the launcher compares with: the stored one, or zero when the check of its file fails.\<close>

definition counter_seen :: "disk \<Rightarrow> disk \<Rightarrow> u64 \<Rightarrow> bool" where
  "counter_seen d e n \<longleftrightarrow> stored_counter (tree d) = Some n \<or> missed d e release_counter_state_path \<and> n = 0"

lemma tree_fs_call [simp]: "fs_call err d = (r, e) \<Longrightarrow> tree e = tree d"
  by (auto simp: fs_call_def split: option.splits)

lemma fs_read_Ok: "fs_read p err d = (Ok bs, e) \<Longrightarrow> tree e = tree d \<and> tree d p = Some (File bs)"
  by (auto simp: fs_read_def elim!: and_then_OkE split: option.splits fs_node.splits)

lemma fs_read_string_Ok:
  "fs_read_to_string p err d = (Ok t, e) \<Longrightarrow> tree e = tree d \<and> (\<exists>bs. tree d p = Some (File bs) \<and> t = text_of bs)"
  by (auto simp: fs_read_to_string_def elim!: and_then_OkE dest!: fs_read_Ok split: if_splits)

lemma path_exists_Ok:
  "path_exists p d = (Ok b, e) \<Longrightarrow> tree e = tree d \<and> (\<not> b \<longrightarrow> tree d p = None \<or> missed d e p)"
  by (auto simp: path_exists_def missed_def)

lemma is_file_Ok: "is_file p d = (Ok b, e) \<Longrightarrow> tree e = tree d"
  by (auto simp: is_file_def)

lemma load_manifest_Ok:
  "load_signed_manifest d = (Ok found, e) \<Longrightarrow> tree e = tree d
    \<and> (case found of None \<Rightarrow> tree d ''manifest.sig'' = None \<or> missed d e ''manifest.sig''
       | Some m \<Rightarrow> \<exists>mb. tree d ''manifest.sig'' = Some (File mb) \<and> parse_signed_manifest (text_of mb) = Ok m)"
  by (auto simp: load_signed_manifest_def elim!: and_then_OkE dest!: fs_read_string_Ok path_exists_Ok
      split: if_splits sum.splits)

lemma load_anchor_Ok:
  "load_trust_anchor d = (Ok key, e) \<Longrightarrow> tree e = tree d \<and> tree d resolve_trust_anchor_path = Some (File key)
    \<and> length key = PUBLIC_KEY_LEN"
  by (auto simp: load_trust_anchor_def anchor_from_bytes_def elim!: and_then_OkE
      dest!: fs_read_Ok path_exists_Ok split: if_splits sum.splits)

lemma read_counter_Ok:
  "read_release_counter d = (Ok n, e) \<Longrightarrow> tree e = tree d \<and> counter_seen d e n"
  by (auto simp: read_release_counter_def stored_counter_def counter_seen_def elim!: and_then_OkE
      dest!: fs_read_string_Ok path_exists_Ok split: if_splits option.splits)

lemma counter_decision_Ok: "counter_decision m n = Ok pend \<Longrightarrow> counter_step m n pend"
  by (auto simp: counter_decision_def counter_step_def check_release_counter_def not_less split: if_splits)

lemma signed_slot_Ok:
  assumes "verify_slot_integrity_signed K s m d = (Ok u, e)" and "manifest_ok m"
  shows "tree e = tree d \<and> (\<exists>bs. tree d (slot_executable s) = Some (File bs)
    \<and> \<lparr>entry_path = slot_executable s, entry_sha256 = sha256 K bs\<rparr> \<in> set (manifest_entries m))"
  using assms digest_listed [of m "sha256 K" "slot_executable s"]
  by (auto simp: verify_slot_integrity_signed_def manifest_ok_def elim!: and_then_OkE dest!: fs_read_Ok
      split: sum.splits)

lemma signed_recovery_Ok: "verify_recovery_integrity_signed K m d = (Ok u, e) \<Longrightarrow> tree e = tree d"
  by (auto simp: verify_recovery_integrity_signed_def elim!: and_then_OkE dest!: fs_read_Ok
      split: sum.splits if_splits)

lemma keepsD: "m = (r, e) \<Longrightarrow> same_outside W d (snd m) \<Longrightarrow> same_outside W d e"
  by simp

lemma counter_seen_between:
  assumes "counter_seen a b n" and "same_outside V d a" and "same_outside W b e"
    and "stored_counter (tree a) = stored_counter (tree d)"
  shows "counter_seen d e n"
  using assms missed_between unfolding counter_seen_def by fastforce

lemma prepare_Ok:
  assumes "prepare_signed_manifest K s d = (Ok prepared, e)"
  shows "tree e = tree d \<and> (case prepared of
      None \<Rightarrow> tree d ''manifest.sig'' = None \<or> missed d e ''manifest.sig''
    | Some (m, pend) \<Rightarrow> signed_entry K (tree d) m (slot_executable s)
        \<and> (\<exists>n. counter_seen d e n \<and> counter_step m n pend))"
proof -
  obtain found d1 where f: "load_signed_manifest d = (Ok found, d1)"
    using assms by (auto simp: prepare_signed_manifest_def elim!: and_then_OkE)
  note f' = load_manifest_Ok [OF f]
  show ?thesis
  proof (cases found)
    case None
    then show ?thesis
      using assms f f' by (simp add: prepare_signed_manifest_def)
  next
    case (Some m)
    then obtain mb where mb: "tree d ''manifest.sig'' = Some (File mb)" "parse_signed_manifest (text_of mb) = Ok m"
      using f' by auto
    have m: "manifest_ok m"
      using parsed_manifest_ok mb(2) by blast
    obtain key d2 n d3 pend d4 d5 where steps: "load_trust_anchor d1 = (Ok key, d2)"
        "verify_manifest (ed_verify K) m key = Ok ()" "read_release_counter d2 = (Ok n, d3)"
        "counter_decision m n = Ok pend" "verify_slot_integrity_signed K s m d3 = (Ok (), d4)"
        "verify_recovery_integrity_signed K m d4 = (Ok (), d5)" "prepared = Some (m, pend)" "e = d5"
      using assms f Some
      by (auto simp: prepare_signed_manifest_def elim!: and_then_OkE split: sum.splits)
    have trees: "tree d1 = tree d" "tree d2 = tree d" "tree d3 = tree d" "tree d4 = tree d" "tree d5 = tree d"
      using f' load_anchor_Ok [OF steps(1)] read_counter_Ok [OF steps(3)] signed_slot_Ok [OF steps(5) m]
        signed_recovery_Ok [OF steps(6)] by simp_all
    let ?W = "\<lambda>_. False"
    have "same_outside ?W d d1"
      by (rule keepsD [OF f]) (intro load_manifest_keeps same_outside_refl)
    then have before: "same_outside ?W d d2"
      by (intro keepsD [OF steps(1)] load_anchor_keeps)
    have "same_outside ?W d3 d4"
      by (rule keepsD [OF steps(5)]) (intro signed_slot_keeps same_outside_refl)
    then have after: "same_outside ?W d3 d5"
      by (intro keepsD [OF steps(6)] signed_recovery_keeps)
    have "signed_by K (tree d) m"
      using mb load_anchor_Ok [OF steps(1)] steps(2) trees
      by (auto simp: signed_by_def verify_manifest_def split: if_splits)
    then have "signed_entry K (tree d) m (slot_executable s)"
      using signed_slot_Ok [OF steps(5) m] trees by (simp add: signed_entry_def)
    moreover have "counter_seen d d5 n"
      using counter_seen_between [of d2 d3 n, OF _ before after] read_counter_Ok [OF steps(3)] trees by simp
    ultimately show ?thesis
      using steps(7,8) trees counter_decision_Ok [OF steps(4)] by auto
  qed
qed

lemma checksum_Ok:
  "verify_checksum K target d = (Ok u, e) \<Longrightarrow> tree e = tree d \<and> listed_checksum K (tree d) target"
  by (auto simp: verify_checksum_def compute_sha256_def listed_checksum_def elim!: and_then_OkE
      dest!: fs_read_string_Ok fs_read_Ok path_exists_Ok split: if_splits option.splits)

text \<open>What a verified slot rests on, between the states before and after the verification.\<close>

definition verified :: "crypto \<Rightarrow> disk \<Rightarrow> slot \<Rightarrow> u64 option \<Rightarrow> disk \<Rightarrow> bool" where
  "verified K d s pend e \<longleftrightarrow>
     (\<exists>m n. signed_entry K (tree d) m (slot_executable s) \<and> counter_seen d e n \<and> counter_step m n pend)
     \<or> (tree d ''manifest.sig'' = None \<or> missed d e ''manifest.sig'')
       \<and> listed_checksum K (tree d) (slot_executable s) \<and> pend = None"

lemma verify_integrity_Ok:
  assumes "verify_slot_integrity K s d = (Ok pend, e)"
  shows "tree e = tree d \<and> verified K d s pend e"
proof -
  obtain prepared d1 where p: "prepare_signed_manifest K s d = (Ok prepared, d1)"
    and rest: "(case prepared of Some (_, pend) \<Rightarrow> (Ok pend, d1)
      | None \<Rightarrow> and_then (verify_slot_integrity_checksum K s d1) (\<lambda>_ d. (Ok None, d))) = (Ok pend, e)"
    using assms by (auto simp: verify_slot_integrity_def elim!: and_then_OkE)
  note p' = prepare_Ok [OF p]
  show ?thesis
  proof (cases prepared)
    case None
    then have c: "verify_checksum K (slot_executable s) d1 = (Ok (), e)" "pend = None"
      using rest by (auto simp: verify_slot_integrity_checksum_def elim!: and_then_OkE)
    have "same_outside (\<lambda>_. False) d1 e"
      by (rule keepsD [OF c(1)]) (intro verify_checksum_keeps same_outside_refl)
    then have "missed d e ''manifest.sig''" if "missed d d1 ''manifest.sig''"
      using missed_between [OF that same_outside_refl] by blast
    then show ?thesis
      using p' c(2) checksum_Ok [OF c(1)] None by (auto simp: verified_def)
  next
    case (Some mp)
    then show ?thesis
      using p' rest by (cases mp) (auto simp: verified_def)
  qed
qed

lemma verified_between:
  assumes "verified K a s pend b" and "same_outside (\<lambda>_. False) d a" and "same_outside W b e"
  shows "verified K d s pend e"
proof -
  have "tree a = tree d"
    using assms(2) by (simp add: same_tree)
  then show ?thesis
    using assms(1) missed_between [OF _ assms(2,3)] counter_seen_between [OF _ assms(2,3)]
    unfolding verified_def by metis
qed

lemma verify_slot_Ok:
  assumes "verify_slot_executable K s d = (Ok (exe, pend), e)"
  shows "exe = slot_executable s" "tree e = tree d" "verified K d s pend e"
proof -
  obtain b d1 d2 where st: "path_exists (slot_executable s) d = (Ok b, d1)"
      "is_file (slot_executable s) d1 = (Ok True, d2)" "verify_slot_integrity K s d2 = (Ok pend, e)"
      and exe: "exe = slot_executable s"
    using assms by (auto simp: verify_slot_executable_def Let_def elim!: and_then_OkE split: if_splits)
  show "exe = slot_executable s"
    by (rule exe)
  have "same_outside (\<lambda>_. False) d d1"
    by (rule keepsD [OF st(1)]) (intro check_keeps same_outside_refl)
  then have "same_outside (\<lambda>_. False) d d2"
    by (intro keepsD [OF st(2)] check_keeps)
  with verify_integrity_Ok [OF st(3)] show "tree e = tree d" "verified K d s pend e"
    using verified_between same_outside_refl by (auto simp: same_tree)
qed

section \<open>The release counter\<close>

definition counter_file :: "string \<Rightarrow> bool" where
  "counter_file p \<longleftrightarrow> take 32 p = ''Data/state/release-counter.state''"

lemma counter_file_paths [simp]:
  "counter_file release_counter_state_path" "counter_file (staging_path release_counter_state_path d)"
  "staging_path p d \<noteq> p"
  by (simp_all add: counter_file_def release_counter_state_path_def staging_path_def)

lemma bookkeeping_not_counter: "bookkeeping p \<Longrightarrow> p \<noteq> release_counter_state_path"
  by (auto simp: bookkeeping_def release_counter_state_path_def)

lemma stored_written:
  "tr release_counter_state_path = Some (File (bytes_of (dec (unat n) @ newline))) \<Longrightarrow> stored_counter tr = Some n"
proof -
  assume tr: "tr release_counter_state_path = Some (File (bytes_of (dec (unat n) @ newline)))"
  have "parse_unsigned (2 ^ 64 - 1) (dec (unat n)) = Some (unat n)"
    using unat_lt_power [of n] by simp
  then show ?thesis
    using tr by (simp add: stored_counter_def trim_trailing_newline dec_plain_ends del: parse_unsigned_dec)
qed

lemma fs_write_Ok: "fs_write p bs err d = (Ok u, e) \<Longrightarrow> tree e = (tree d)(p := Some (File bs))"
  by (auto simp: fs_write_def set_node_def elim!: and_then_OkE split: if_splits)

lemma replace_Ok:
  "atomic_replace st t d = (Ok u, e) \<Longrightarrow> tree e = (tree d)(t := tree d st, st := None)"
  by (auto simp: atomic_replace_def set_node_def split: prod.splits sum.splits)

lemma persist_Ok:
  assumes "persist_release_counter n d = (Ok u, e)"
  shows "stored_counter (tree e) = Some n" "same_outside counter_file d e"
proof -
  define st where "st = staging_path release_counter_state_path d"
  obtain d1 d2 d3 where steps: "fs_call (\<lambda>_. ReleaseCounterStateFailure) d = (Ok (), d1)"
      "fs_write st (bytes_of (dec (unat n) @ newline)) (\<lambda>_. ReleaseCounterStateFailure) d1 = (Ok (), d2)"
      "atomic_replace st release_counter_state_path d2 = (Ok (), d3)" "e = fs_remove_ignored st d3"
    using assms by (auto simp: persist_release_counter_def Let_def st_def elim!: and_then_OkE)
  have ne: "st \<noteq> release_counter_state_path" "counter_file st"
    by (simp_all add: st_def)
  have t3: "tree d3 release_counter_state_path = Some (File (bytes_of (dec (unat n) @ newline)))"
    using fs_write_Ok [OF steps(2)] replace_Ok [OF steps(3)] ne by (simp del: ne)
  have "same_outside (\<lambda>p. p = st) d3 e"
    unfolding steps(4) by (rule fs_remove_keeps) simp_all
  then have "tree e release_counter_state_path = tree d3 release_counter_state_path"
    using ne by (simp add: same_outside_def)
  with t3 show "stored_counter (tree e) = Some n"
    by (intro stored_written) simp
  show "same_outside counter_file d e"
  proof -
    have "same_outside counter_file d (snd (persist_release_counter n d))"
      unfolding persist_release_counter_def Let_def by (intro keeps_intros) (auto intro!: keeps_intros)
    then show ?thesis
      using assms by simp
  qed
qed

lemma persist_Err:
  assumes "persist_release_counter n d = (Err x, e)"
  shows "tree e release_counter_state_path = tree d release_counter_state_path"
proof -
  define st where "st = staging_path release_counter_state_path d"
  define W where "W p \<longleftrightarrow> p = st" for p
  have ne: "st \<noteq> release_counter_state_path" "W st"
    by (simp_all add: st_def W_def)
  have replace: "same_outside W d e'" if "same_outside W d d'" "atomic_replace st release_counter_state_path d' = (Err y, e')"
    for d' e' y
    using that fs_call_keeps [of W d d' MetadataRead]
    by (auto simp: atomic_replace_def ne intro!: fs_remove_keeps split: prod.splits sum.splits)
  have "same_outside W d (snd (fs_call (\<lambda>_. ReleaseCounterStateFailure) d))"
    by (intro fs_call_keeps) simp
  moreover have "same_outside W d (snd (fs_write st bs err d'))" if "same_outside W d d'" for bs err d'
    using that ne by (intro fs_write_keeps) simp_all
  ultimately have "same_outside W d e"
    using assms replace
    by (auto simp: persist_release_counter_def Let_def st_def [symmetric] elim!: and_then_ErrE) (metis snd_conv)+
  then show ?thesis
    using ne by (simp add: same_outside_def W_def)
qed

lemma commit_Ok:
  assumes "commit_release_counter pend d = (Ok u, e)"
  shows "stored_counter (tree e) = (case pend of None \<Rightarrow> stored_counter (tree d) | Some n \<Rightarrow> Some n)"
    and "same_outside counter_file d e"
  using assms persist_Ok by (auto simp: commit_release_counter_def split: option.splits)

lemma commit_Err:
  "commit_release_counter pend d = (Err x, e) \<Longrightarrow> tree e release_counter_state_path = tree d release_counter_state_path"
  using persist_Err by (auto simp: commit_release_counter_def split: option.splits)

section \<open>What a selection means\<close>

definition launched :: "crypto \<Rightarrow> disk \<Rightarrow> slot \<Rightarrow> string \<Rightarrow> disk \<Rightarrow> bool" where
  "launched K d s exe e \<longleftrightarrow> exe = slot_executable s
     \<and> ((\<exists>m n. signed_entry K (tree e) m (slot_executable s) \<and> counter_seen d e n \<and> n \<le> release_counter m
            \<and> stored_counter (tree e) = (if n = release_counter m then stored_counter (tree d)
                else Some (release_counter m)))
        \<or> (tree e ''manifest.sig'' = None \<or> missed d e ''manifest.sig'')
          \<and> listed_checksum K (tree e) (slot_executable s) \<and> stored_counter (tree e) = stored_counter (tree d))"

lemma stored_counter_cong:
  "tr release_counter_state_path = tr' release_counter_state_path \<Longrightarrow> stored_counter tr = stored_counter tr'"
  by (simp add: stored_counter_def)

abbreviation off_counter :: "string \<Rightarrow> bool" where
  "off_counter p \<equiv> p \<noteq> release_counter_state_path"

lemma off_counter_stored: "same_outside off_counter d e \<Longrightarrow> stored_counter (tree e) = stored_counter (tree d)"
  by (intro stored_counter_cong) (simp add: same_outside_def)

lemma launched_before:
  assumes "launched K a s exe e" and "same_outside off_counter d a" shows "launched K d s exe e"
  using assms(1) off_counter_stored [OF assms(2)] missed_between [OF _ assms(2) same_outside_refl]
    counter_seen_between [OF _ assms(2) same_outside_refl]
  unfolding launched_def by metis

lemma launched_path: "launched K d s x e \<Longrightarrow> launched K d s (slot_executable s) e"
  by (simp add: launched_def)

definition package_files :: "slot \<Rightarrow> string set" where
  "package_files s = {''manifest.sig'', resolve_trust_anchor_path, ''SHA256SUMS.txt'', slot_executable s}"

lemma package_files_kept: "p \<in> package_files s \<Longrightarrow> \<not> bookkeeping p \<and> \<not> counter_file p"
  by (auto simp: package_files_def bookkeeping_def counter_file_def resolve_trust_anchor_path_def slot_executable_def)

lemma package_files_cong:
  assumes "\<forall>p\<in>package_files s. tr p = tr' p"
  shows "signed_entry K tr m (slot_executable s) = signed_entry K tr' m (slot_executable s)"
    "listed_checksum K tr (slot_executable s) = listed_checksum K tr' (slot_executable s)"
    "tr ''manifest.sig'' = tr' ''manifest.sig''"
  using assms by (simp_all add: package_files_def signed_entry_def signed_by_def listed_checksum_def)

lemma launch_finish:
  assumes before: "same_outside off_counter d d1"
    and ver: "verify_slot_executable K s d1 = (Ok (exe, pend), d2)"
    and mid: "same_outside bookkeeping d2 d3" and com: "commit_release_counter pend d3 = (Ok u, e)"
  shows "launched K d s exe e"
proof (rule launched_before [OF _ before])
  note v = verify_slot_Ok [OF ver]
  have same: "\<forall>p\<in>package_files s. tree e p = tree d1 p"
    using package_files_kept mid commit_Ok(2) [OF com] v(2) by (auto simp: same_outside_def)
  have c3: "stored_counter (tree d3) = stored_counter (tree d1)"
    using mid v(2) bookkeeping_not_counter by (intro stored_counter_cong) (auto simp: same_outside_def)
  have "same_outside (\<lambda>_. True) d2 e"
    using mid commit_Ok(2) [OF com] by (auto simp: same_outside_def)
  then have "verified K d1 s pend e"
    using verified_between [OF v(3) same_outside_refl] by blast
  then consider m n where "signed_entry K (tree d1) m (slot_executable s)" "counter_seen d1 e n" "counter_step m n pend"
    | "tree d1 ''manifest.sig'' = None \<or> missed d1 e ''manifest.sig''"
      "listed_checksum K (tree d1) (slot_executable s)" "pend = None"
    unfolding verified_def by blast
  then show "launched K d1 s exe e"
  proof cases
    case 1
    then have "n \<le> release_counter m"
      "stored_counter (tree e) = (if n = release_counter m then stored_counter (tree d1) else Some (release_counter m))"
      using c3 commit_Ok(1) [OF com] by (auto simp: counter_step_def)
    then show ?thesis
      using 1 v(1) unfolding launched_def package_files_cong [OF same] by blast
  next
    case 2
    then show ?thesis
      using v(1) c3 commit_Ok(1) [OF com] unfolding launched_def package_files_cong [OF same] by simp
  qed
qed

lemma off_counter_paths [simp]:
  "off_counter (slot_executable s)" "off_counter (staging_path (slot_executable s) d)"
  "off_counter ''Slots/A/true-tick.toml''"
  by (simp_all add: release_counter_state_path_def slot_executable_def staging_path_def)

lemma verify_golden_keeps: "same_outside W d e \<Longrightarrow> same_outside W d (snd (verify_golden_master K e))"
  unfolding verify_golden_master_def by (auto intro!: seq_keeps check_keeps verify_checksum_keeps)

lemma restore_Ok:
  assumes "restore_from_golden_master K d = (Ok (exe, pend), e)"
  obtains d1 d2 x where "same_outside off_counter d d1" "verify_slot_executable K SlotA d1 = (Ok (x, pend), d2)"
    "same_outside bookkeeping d2 e" "exe = slot_executable SlotA"
proof -
  let ?W = off_counter and ?exe = "slot_executable SlotA"
  obtain golden b0 a0 where g: "verify_golden_master K d = (Ok golden, b0)"
      and f: "is_file ''Recovery/true-tick.toml'' b0 = (Ok True, a0)"
    using assms by (auto simp: restore_from_golden_master_def elim!: and_then_OkE split: if_splits)
  define st where "st = staging_path ?exe a0"
  obtain a1 a2 a3 a4 h h' a5 a6 a7 x a8 where s:
      "fs_call MetadataRead a0 = (Ok (), a1)" "fs_copy golden st MetadataRead a1 = (Ok (), a2)"
      "compute_sha256 K st MetadataRead a2 = (Ok h, a3)" "compute_sha256 K golden MetadataRead a3 = (Ok h', a4)"
      "atomic_replace st ?exe a4 = (Ok (), a5)"
      "fs_copy ''Recovery/true-tick.toml'' ''Slots/A/true-tick.toml'' MetadataRead (fs_remove_ignored st a5) = (Ok (), a6)"
      "verify_slot_executable K SlotA a6 = (Ok (x, pend), a7)"
      "record_golden_master_restoration SlotA a7 = (Ok (), a8)" "write_active_slot SlotA a8 = (Ok (), e)"
      "exe = ?exe"
    using assms g f
    by (auto simp: restore_from_golden_master_def Let_def st_def elim!: and_then_OkE split: if_splits)
  have "?W st"
    by (simp add: st_def)
  have "same_outside ?W d b0"
    by (rule keepsD [OF g]) (intro verify_golden_keeps same_outside_refl)
  then have k0: "same_outside ?W d a0"
    by (intro keepsD [OF f] check_keeps)
  have k1: "same_outside ?W d a1"
    by (rule keepsD [OF s(1)]) (intro fs_call_keeps k0)
  have k2: "same_outside ?W d a2"
    by (rule keepsD [OF s(2)]) (intro fs_copy_keeps k1 \<open>?W st\<close>)
  have k3: "same_outside ?W d a3"
    by (rule keepsD [OF s(3)]) (intro sha_keeps k2)
  have k4: "same_outside ?W d a4"
    by (rule keepsD [OF s(4)]) (intro sha_keeps k3)
  have k5: "same_outside ?W d a5"
    by (rule keepsD [OF s(5)]) (intro replace_keeps k4 \<open>?W st\<close> off_counter_paths)
  have k6: "same_outside ?W d a6"
    by (rule keepsD [OF s(6)]) (intro fs_copy_keeps fs_remove_keeps k5 \<open>?W st\<close> off_counter_paths)
  have k8: "same_outside bookkeeping a7 a8"
    by (rule keepsD [OF s(8)], unfold record_golden_master_restoration_def) (intro log_keeps same_outside_refl)
  have "same_outside bookkeeping a7 e"
    by (rule keepsD [OF s(9)]) (intro write_active_keeps k8)
  with k6 s(7,10) that show thesis
    by blast
qed

lemma counter_not_bookkeeping [simp]: "\<not> bookkeeping release_counter_state_path"
  using bookkeeping_not_counter by blast

lemma bookkeeping_off: "bookkeeping p \<Longrightarrow> off_counter p"
  by (rule bookkeeping_not_counter)

lemma select_restore_Ok:
  assumes "select_restore K ae se d = (Ok (s, exe), e)" shows "launched K d s exe e"
proof -
  obtain pend d1 d2 d3 where st: "restore_from_golden_master K d = (Ok (exe, pend), d1)"
      "clear_slot_health SlotA d1 = (Ok (), d2)" "clear_slot_health SlotB d2 = (Ok (), d3)"
      "commit_release_counter pend d3 = (Ok (), e)" "s = SlotA"
    using assms by (auto simp: select_restore_def elim!: and_then_OkE split: prod.splits sum.splits)
  obtain a b x where r: "same_outside off_counter d a" "verify_slot_executable K SlotA a = (Ok (x, pend), b)"
      "same_outside bookkeeping b d1" "exe = slot_executable SlotA"
    using restore_Ok [OF st(1)] .
  have "same_outside bookkeeping b d2"
    by (rule keepsD [OF st(2)]) (intro clear_keeps r)
  then have "same_outside bookkeeping b d3"
    by (intro keepsD [OF st(3)] clear_keeps)
  from launch_finish [OF r(1,2) this st(4)] show ?thesis
    unfolding r(4) st(5) by (rule launched_path)
qed

lemma check_slot_Ok:
  assumes "verify_and_check_slot K s d = (Ok r, e)"
  obtains d1 where "same_outside off_counter d d1" "verify_slot_executable K s d1 = (Ok r, e)"
proof -
  obtain n d1 where "read_slot_health s d = (Ok n, d1)" "verify_slot_executable K s d1 = (Ok r, e)"
    using assms by (auto simp: verify_and_check_slot_def elim!: and_then_OkE split: if_splits)
  moreover from this(1) have "same_outside off_counter d d1"
    by (rule keepsD) (intro read_health_keeps same_outside_refl)
  ultimately show thesis
    using that by blast
qed

lemma select_standby_Ok:
  assumes "select_standby K s ae d = (Ok (t, exe), e)" shows "launched K d t exe e"
proof (cases "fst (verify_and_check_slot K (alternate s) d)")
  case (Inl se)
  then obtain d1 n d2 where "verify_and_check_slot K (alternate s) d = (Inl se, d1)"
      "increment_slot_health (alternate s) d1 = (Ok n, d2)" "select_restore K ae se d2 = (Ok (t, exe), e)"
    using assms by (cases "verify_and_check_slot K (alternate s) d")
      (auto simp: select_standby_def Let_def elim!: and_then_OkE split: if_splits)
  moreover from this(1) have "same_outside off_counter d d1"
    by (rule keepsD) (intro verify_and_check_keeps same_outside_refl)
  moreover from this calculation(2) have "same_outside off_counter d d2"
    by (intro keepsD [OF calculation(2)] increment_keeps bookkeeping_off)
  ultimately show ?thesis
    using launched_before [OF select_restore_Ok] by blast
next
  case (Inr r)
  obtain d1 exe' pend where v: "verify_and_check_slot K (alternate s) d = (Ok (exe', pend), d1)"
    using Inr by (cases "verify_and_check_slot K (alternate s) d"; cases r) auto
  obtain d2 d3 d4 where st: "record_rollback_decision s (alternate s) ae d1 = (Ok (), d2)"
      "write_active_slot (alternate s) d2 = (Ok (), d3)" "clear_slot_health (alternate s) d3 = (Ok (), d4)"
      "commit_release_counter pend d4 = (Ok (), e)" "t = alternate s" "exe = exe'"
    using assms v by (auto simp: select_standby_def Let_def elim!: and_then_OkE)
  obtain d0 where d0: "same_outside off_counter d d0" "verify_slot_executable K (alternate s) d0 = (Ok (exe', pend), d1)"
    using check_slot_Ok [OF v] .
  have "same_outside bookkeeping d1 d2"
    by (rule keepsD [OF st(1)], unfold record_rollback_decision_def) (intro log_keeps same_outside_refl)
  then have "same_outside bookkeeping d1 d3"
    by (intro keepsD [OF st(2)] write_active_keeps)
  then have "same_outside bookkeeping d1 d4"
    by (intro keepsD [OF st(3)] clear_keeps)
  from launch_finish [OF d0 this st(4)] st(5,6) show ?thesis
    by simp
qed

lemma select_active_Ok:
  assumes "select_active K s d = (Ok (t, exe), e)" shows "launched K d t exe e"
proof (cases "fst (verify_and_check_slot K s d)")
  case (Inl ae)
  then obtain d1 n d2 where "verify_and_check_slot K s d = (Inl ae, d1)"
      "increment_slot_health s d1 = (Ok n, d2)" "select_standby K s ae d2 = (Ok (t, exe), e)"
    using assms by (cases "verify_and_check_slot K s d")
      (auto simp: select_active_def elim!: and_then_OkE split: if_splits)
  moreover from this(1) have "same_outside off_counter d d1"
    by (rule keepsD) (intro verify_and_check_keeps same_outside_refl)
  moreover from this calculation(2) have "same_outside off_counter d d2"
    by (intro keepsD [OF calculation(2)] increment_keeps bookkeeping_off)
  ultimately show ?thesis
    using launched_before [OF select_standby_Ok] by blast
next
  case (Inr r)
  obtain d1 exe' pend where v: "verify_and_check_slot K s d = (Ok (exe', pend), d1)"
    using Inr by (cases "verify_and_check_slot K s d"; cases r) auto
  obtain d2 where st: "clear_slot_health s d1 = (Ok (), d2)" "commit_release_counter pend d2 = (Ok (), e)"
      "t = s" "exe = exe'"
    using assms v by (auto simp: select_active_def elim!: and_then_OkE)
  obtain d0 where d0: "same_outside off_counter d d0" "verify_slot_executable K s d0 = (Ok (exe', pend), d1)"
    using check_slot_Ok [OF v] .
  have "same_outside bookkeeping d1 d2"
    by (intro keepsD [OF st(1)] clear_keeps same_outside_refl)
  from launch_finish [OF d0 this st(2)] st(3,4) show ?thesis
    by simp
qed

lemma find_installed_keeps: "same_outside W d e \<Longrightarrow> same_outside W d (snd (find_installed ss e))"
proof (induction ss arbitrary: e)
  case (Cons s ss)
  show ?case
    unfolding find_installed.simps
    by (intro seq_keeps check_keeps Cons.prems) (simp add: Cons.IH)
qed simp

lemma fallback_keeps:
  "same_outside W d e \<Longrightarrow> same_outside W d (snd (fallback_slot_from_installed_executables e))"
  unfolding fallback_slot_from_installed_executables_def by (rule find_installed_keeps)

lemma select_chooses:
  assumes "select K d = (Ok r, e)"
  obtains t d1 where "same_outside off_counter d d1" "select_active K t d1 = (Ok r, e)"
proof -
  obtain raw a where raw: "fs_read_to_string ''active-slot.txt'' MetadataRead d = (Ok raw, a)"
    using assms by (auto simp: select_def elim!: and_then_OkE)
  then have a: "same_outside off_counter d a"
    by (rule keepsD) (intro fs_read_string_keeps same_outside_refl)
  show thesis
  proof (cases "parse_active_slot raw")
    case None
    then obtain t b where t: "fallback_slot_from_installed_executables a = (Ok (Some t), b)"
        "select_active K t b = (Ok r, e)"
      using assms raw by (auto simp: select_def elim!: and_then_OkE split: option.splits)
    have "same_outside off_counter d b"
      by (rule keepsD [OF t(1)]) (intro fallback_keeps a)
    then show thesis
      using t(2) that by blast
  next
    case (Some t)
    then show thesis
      using assms raw a that by (simp add: select_def)
  qed
qed

lemma select_Ok:
  assumes "select K d = (Ok (s, exe), e)" shows "launched K d s exe e"
proof -
  obtain t d1 where d1: "same_outside off_counter d d1" "select_active K t d1 = (Ok (s, exe), e)"
    using select_chooses [OF assms] .
  show ?thesis
    by (rule launched_before [OF select_active_Ok [OF d1(2)] d1(1)])
qed

section \<open>What a failed selection leaves\<close>

definition err_keeps :: "disk \<Rightarrow> (selection_error, 'a) result \<times> disk \<Rightarrow> bool" where
  "err_keeps d m \<longleftrightarrow>
     (isl (fst m) \<longrightarrow> tree (snd m) release_counter_state_path = tree d release_counter_state_path)"

lemma err_keeps_any: "same_outside off_counter d (snd m) \<Longrightarrow> err_keeps d m"
  by (simp add: err_keeps_def same_outside_def)

lemma err_keeps_then:
  assumes "same_outside off_counter d (snd m)"
    and "\<And>x e. same_outside off_counter d e \<Longrightarrow> err_keeps d (f x e)"
  shows "err_keeps d (and_then m f)"
  using assms by (cases m; cases "fst m") (auto intro: err_keeps_any)

lemma err_keeps_commit:
  "same_outside off_counter d e \<Longrightarrow> err_keeps d (and_then (commit_release_counter pend e) (\<lambda>_ d. (Ok v, d)))"
  using commit_Err [of pend e] by (cases "commit_release_counter pend e"; cases "fst (commit_release_counter pend e)")
    (auto simp: err_keeps_def same_outside_def)

lemma restore_keeps: "same_outside off_counter d e \<Longrightarrow> same_outside off_counter d (snd (restore_from_golden_master K e))"
  unfolding restore_from_golden_master_def Let_def record_golden_master_restoration_def
  by (auto intro!: seq_keeps verify_golden_keeps check_keeps fs_call_keeps fs_copy_keeps sha_keeps fs_remove_keeps
      replace_keeps verify_slot_keeps log_keeps write_active_keeps dest: bookkeeping_off)

lemma select_restore_err: "same_outside off_counter d e \<Longrightarrow> err_keeps d (select_restore K ae se e)"
  using restore_keeps [of d e K]
  by (auto simp: select_restore_def intro!: err_keeps_then clear_keeps err_keeps_commit bookkeeping_off
      intro: err_keeps_any split: prod.split sum.split)

lemma select_standby_err: "same_outside off_counter d e \<Longrightarrow> err_keeps d (select_standby K s ae e)"
  using verify_and_check_keeps [of off_counter d e K "alternate s"]
  by (auto simp: select_standby_def Let_def record_rollback_decision_def
      intro!: err_keeps_then clear_keeps write_active_keeps log_keeps increment_keeps err_keeps_commit
        bookkeeping_off select_restore_err
      intro: err_keeps_any split: prod.split sum.split)

lemma select_active_err: "same_outside off_counter d e \<Longrightarrow> err_keeps d (select_active K s e)"
  using verify_and_check_keeps [of off_counter d e K s]
  by (auto simp: select_active_def
      intro!: err_keeps_then clear_keeps increment_keeps err_keeps_commit bookkeeping_off select_standby_err
      intro: err_keeps_any split: prod.split sum.split)

lemma err_keeps_Err: "same_outside off_counter d e \<Longrightarrow> err_keeps d (Err x, e)"
  by (simp add: err_keeps_any)

lemma select_err: "err_keeps d (select K d)"
  unfolding select_def
  by (intro err_keeps_then fs_read_string_keeps same_outside_refl)
    (auto intro!: err_keeps_then fallback_keeps select_active_err err_keeps_Err split: option.split)

section \<open>Health of the launched slot\<close>

text \<open>A health file is gone unless a check of it failed; a check that fails leaves it in place.\<close>

definition health_gone :: "disk \<Rightarrow> disk \<Rightarrow> slot \<Rightarrow> bool" where
  "health_gone d e s \<longleftrightarrow> tree e (slot_health_path s) = None \<or> missed d e (slot_health_path s)"

lemma clear_Ok:
  assumes "clear_slot_health s d = (Ok u, e)" shows "health_gone d e s"
proof -
  obtain b d1 where b: "path_exists (slot_health_path s) d = (Ok b, d1)"
    and rest: "(if \<not> b then (Ok (), d1) else and_then (fs_call (\<lambda>_. HealthTrackingFailure) d1) (\<lambda>_ d.
        (Ok (), set_node (slot_health_path s) None d))) = (Ok u, e)"
    using assms by (auto simp: clear_slot_health_def elim!: and_then_OkE)
  show ?thesis
    using path_exists_Ok [OF b] rest
    by (cases b) (auto simp: health_gone_def set_node_def elim!: and_then_OkE)
qed

lemma clear_keeps_other: "clear_slot_health t d = (Ok u, e) \<Longrightarrow> tree d p = None \<Longrightarrow> tree e p = None"
  by (auto simp: clear_slot_health_def set_node_def elim!: and_then_OkE dest!: path_exists_Ok split: if_splits)

lemma clear_commit:
  assumes "clear_slot_health s a = (Ok u, b)" and "same_outside V d a" and "same_outside W b c"
    and "commit_release_counter pend c = (Ok v, e)"
    and "tree b (slot_health_path s) = None \<Longrightarrow> tree c (slot_health_path s) = None"
  shows "health_gone d e s"
proof -
  have "\<not> counter_file (slot_health_path s)"
    by (simp add: counter_file_def slot_health_path_def)
  then have "tree e (slot_health_path s) = tree c (slot_health_path s)"
    using commit_Ok(2) [OF assms(4)] by (simp add: same_outside_def)
  moreover have "same_outside (\<lambda>_. True) b e"
    using assms(3) commit_Ok(2) [OF assms(4)] by (auto simp: same_outside_def)
  then have "missed a b (slot_health_path s) \<Longrightarrow> missed d e (slot_health_path s)"
    using missed_between [OF _ assms(2)] by blast
  ultimately show ?thesis
    using clear_Ok [OF assms(1)] assms(5) by (auto simp: health_gone_def)
qed

lemma health_gone_before: "health_gone a e s \<Longrightarrow> same_outside W d a \<Longrightarrow> health_gone d e s"
  using missed_between [OF _ _ same_outside_refl] by (auto simp: health_gone_def)

lemma select_restore_health:
  assumes "select_restore K ae se d = (Ok (s, exe), e)" shows "health_gone d e s"
proof -
  obtain pend d1 d2 d3 where st: "restore_from_golden_master K d = (Ok (exe, pend), d1)"
      "clear_slot_health SlotA d1 = (Ok (), d2)" "clear_slot_health SlotB d2 = (Ok (), d3)"
      "commit_release_counter pend d3 = (Ok (), e)" "s = SlotA"
    using assms by (auto simp: select_restore_def elim!: and_then_OkE split: prod.splits sum.splits)
  have "same_outside off_counter d d1"
    by (rule keepsD [OF st(1)]) (intro restore_keeps same_outside_refl)
  moreover have "same_outside bookkeeping d2 d3"
    by (rule keepsD [OF st(3)]) (intro clear_keeps same_outside_refl)
  ultimately show ?thesis
    unfolding st(5) using clear_commit [OF st(2) _ _ st(4)] clear_keeps_other [OF st(3)] by blast
qed

lemma select_standby_health:
  assumes "select_standby K t ae d = (Ok (s, exe), e)" shows "health_gone d e s"
proof (cases "fst (verify_and_check_slot K (alternate t) d)")
  case (Inl se)
  then obtain d1 n d2 where st: "verify_and_check_slot K (alternate t) d = (Inl se, d1)"
      "increment_slot_health (alternate t) d1 = (Ok n, d2)" "select_restore K ae se d2 = (Ok (s, exe), e)"
    using assms by (cases "verify_and_check_slot K (alternate t) d")
      (auto simp: select_standby_def Let_def elim!: and_then_OkE split: if_splits)
  have "same_outside bookkeeping d d1"
    by (rule keepsD [OF st(1)]) (intro verify_and_check_keeps same_outside_refl)
  then have "same_outside bookkeeping d d2"
    by (intro keepsD [OF st(2)] increment_keeps)
  then show ?thesis
    by (rule health_gone_before [OF select_restore_health [OF st(3)]])
next
  case (Inr r)
  then obtain d1 pend d2 d3 d4 where st: "verify_and_check_slot K (alternate t) d = (Ok (exe, pend), d1)"
      "record_rollback_decision t (alternate t) ae d1 = (Ok (), d2)"
      "write_active_slot (alternate t) d2 = (Ok (), d3)" "clear_slot_health (alternate t) d3 = (Ok (), d4)"
      "commit_release_counter pend d4 = (Ok (), e)" "s = alternate t"
    using assms by (cases "verify_and_check_slot K (alternate t) d"; cases r)
      (auto simp: select_standby_def Let_def elim!: and_then_OkE)
  have "same_outside bookkeeping d d1"
    by (rule keepsD [OF st(1)]) (intro verify_and_check_keeps same_outside_refl)
  then have "same_outside bookkeeping d d2"
    by (intro keepsD [OF st(2)], unfold record_rollback_decision_def) (intro log_keeps)
  then have "same_outside bookkeeping d d3"
    by (intro keepsD [OF st(3)] write_active_keeps)
  then show ?thesis
    unfolding st(6) using clear_commit [OF st(4) _ same_outside_refl st(5)] by blast
qed

lemma select_active_health:
  assumes "select_active K t d = (Ok (s, exe), e)" shows "health_gone d e s"
proof (cases "fst (verify_and_check_slot K t d)")
  case (Inl ae)
  then obtain d1 n d2 where st: "verify_and_check_slot K t d = (Inl ae, d1)"
      "increment_slot_health t d1 = (Ok n, d2)" "select_standby K t ae d2 = (Ok (s, exe), e)"
    using assms by (cases "verify_and_check_slot K t d")
      (auto simp: select_active_def elim!: and_then_OkE split: if_splits)
  have "same_outside bookkeeping d d1"
    by (rule keepsD [OF st(1)]) (intro verify_and_check_keeps same_outside_refl)
  then have "same_outside bookkeeping d d2"
    by (intro keepsD [OF st(2)] increment_keeps)
  then show ?thesis
    by (rule health_gone_before [OF select_standby_health [OF st(3)]])
next
  case (Inr r)
  then obtain d1 pend d2 where st: "verify_and_check_slot K t d = (Ok (exe, pend), d1)"
      "clear_slot_health t d1 = (Ok (), d2)" "commit_release_counter pend d2 = (Ok (), e)" "s = t"
    using assms by (cases "verify_and_check_slot K t d"; cases r)
      (auto simp: select_active_def elim!: and_then_OkE)
  have "same_outside bookkeeping d d1"
    by (rule keepsD [OF st(1)]) (intro verify_and_check_keeps same_outside_refl)
  then show ?thesis
    unfolding st(4) using clear_commit [OF st(2) _ same_outside_refl st(3)] by blast
qed

section \<open>Properties\<close>

text \<open>C1: The launcher starts only an executable the package authorizes. Whatever file system calls fail
  and whatever path selection takes (the active slot, rollback to the standby slot or restoration
  from the golden master), the executable it returns is that of the selected slot, and its contents
  match either the entry of a manifest signed under the trust anchor, or the checksum list; the
  list alone is enough only when there is no \<open>manifest.sig\<close> or when an existence check of it failed
  during this selection, which the code takes for a missing file.\<close>

theorem launcher_runs_only_authentic:
  assumes "select K d = (Ok (s, exe), e)"
  shows "exe = slot_executable s
    \<and> ((\<exists>m. signed_entry K (tree e) m exe)
       \<or> (tree e ''manifest.sig'' = None \<or> missed d e ''manifest.sig'') \<and> listed_checksum K (tree e) exe)"
  using select_Ok [OF assms] by (auto simp: launched_def)

definition sample_crypto :: crypto where
  "sample_crypto = \<lparr>ed_verify = (\<lambda>_ _ sg. sg = replicate 64 9), sha256 = (\<lambda>bs. bs)\<rparr>"

definition sample_package :: disk where
  "sample_package = \<lparr>tree = [''active-slot.txt'' \<mapsto> File (bytes_of ''A''), ''Slots/A/true-tick.exe'' \<mapsto> File [1],
       ''SHA256SUMS.txt'' \<mapsto> File (bytes_of ''01 Slots/A/true-tick.exe'')],
     io_fault = (\<lambda>_. None), stat_fault = (\<lambda>_ _. False), io_calls = 0, launcher_pid = 7\<rparr>"

definition sample_manifest :: signed_manifest where
  "sample_manifest = \<lparr>release_counter = 3,
     manifest_entries = [\<lparr>entry_path = ''Slots/A/true-tick.exe'', entry_sha256 = replicate 32 1\<rparr>],
     manifest_signature = replicate 64 9\<rparr>"

definition sample_signed :: "string \<Rightarrow> (string \<Rightarrow> nat \<Rightarrow> bool) \<Rightarrow> disk" where
  "sample_signed counter faults = \<lparr>tree = [''active-slot.txt'' \<mapsto> File (bytes_of ''A''),
       ''Slots/A/true-tick.exe'' \<mapsto> File (replicate 32 1), ''manifest.sig'' \<mapsto> File (bytes_of (manifest_text sample_manifest)),
       ''trust-anchor.pub'' \<mapsto> File (replicate 32 5), ''Data/state/release-counter.state'' \<mapsto> File (bytes_of counter)],
     io_fault = (\<lambda>_. None), stat_fault = faults, io_calls = 0, launcher_pid = 7\<rparr>"

lemma sample_texts:
  "parse_active_slot ''A'' = Some SlotA"
  "checksum_for ''Slots/A/true-tick.exe'' (lines ''01 Slots/A/true-tick.exe'') = Some ''01''"
  "to_ascii_lowercase [hex_char 0, hex_char (Suc 0)] = ''01''"
  "valid_utf8 (bytes_of ''A'')" "valid_utf8 (bytes_of ''01 Slots/A/true-tick.exe'')" "valid_utf8 (bytes_of ''2'')"
  "valid_utf8 (bytes_of ''5'')" "valid_utf8 (bytes_of (manifest_text sample_manifest))"
  by code_simp+

lemma sample_manifest_parses: "parse_signed_manifest (manifest_text sample_manifest) = Ok sample_manifest"
  by (subst parse_manifest_text)
    (simp_all add: manifest_ok_def entry_ok_def entry_line_def whitespace_encodings_def sorted_manifest_def
      sample_manifest_def model_defs)

lemma sample_number: "parse_unsigned k (trim [c]) = Some n" if "dec n = [c]" "n \<le> k"
  using that parse_unsigned_dec [of k n] trim_plain_ends [OF dec_plain_ends, of n] by simp

lemma sample_numbers:
  "parse_unsigned 4294967295 (trim ''2'') = Some 2" "parse_unsigned 18446744073709551615 (trim ''2'') = Some 2"
  "parse_unsigned 18446744073709551615 (trim ''5'') = Some 5"
  by (rule sample_number, code_simp, simp)+

lemmas sample_eval = select_def select_active_def verify_and_check_slot_def read_slot_health_def
  verify_slot_executable_def verify_slot_integrity_def prepare_signed_manifest_def load_signed_manifest_def
  verify_slot_integrity_checksum_def verify_checksum_def compute_sha256_def fs_read_to_string_def fs_read_def
  fs_call_def clear_slot_health_def commit_release_counter_def path_exists_def is_file_def sample_package_def
  sample_crypto_def slot_executable_def slot_name_def slot_health_path_def set_node_def Let_def
  BOOT_FAILURE_THRESHOLD_def stored_counter_def release_counter_state_path_def sample_texts sample_numbers

lemma sample_manifest_sel:
  "release_counter sample_manifest = 3" "manifest_signature sample_manifest = replicate 64 9"
  "manifest_entries sample_manifest = [\<lparr>entry_path = ''Slots/A/true-tick.exe'', entry_sha256 = replicate 32 1\<rparr>]"
  by (simp_all add: sample_manifest_def)

lemmas sample_signed_eval = sample_manifest_sel sample_eval load_trust_anchor_def resolve_trust_anchor_path_def anchor_from_bytes_def
  verify_manifest_def read_release_counter_def counter_decision_def check_release_counter_def
  verify_slot_integrity_signed_def verify_entry_digest_def verify_recovery_integrity_signed_def
  RECOVERY_EXECUTABLE_REL_def persist_release_counter_def fs_write_def atomic_replace_def fs_remove_ignored_def
  sample_manifest_parses sample_signed_def staging_path_def

lemma sample_signed_selected:
  "fst (select sample_crypto (sample_signed ''2'' (\<lambda>_ _. False))) = Ok (SlotA, ''Slots/A/true-tick.exe'')"
  by (simp add: sample_signed_eval model_defs)

theorem launcher_runs_only_authentic_witness:
  "\<exists>e m. select sample_crypto (sample_signed ''2'' (\<lambda>_ _. False)) = (Ok (SlotA, ''Slots/A/true-tick.exe''), e)
     \<and> signed_entry sample_crypto (tree e) m ''Slots/A/true-tick.exe''"
proof -
  let ?d = "sample_signed ''2'' (\<lambda>_ _. False)"
  obtain e where e: "select sample_crypto ?d = (Ok (SlotA, ''Slots/A/true-tick.exe''), e)"
    using sample_signed_selected by (cases "select sample_crypto ?d") auto
  have "tree (snd (select sample_crypto ?d)) ''manifest.sig'' \<noteq> None"
    by (simp add: sample_signed_eval model_defs)
  moreover have "\<not> missed ?d e ''manifest.sig''"
    by (simp add: missed_def sample_signed_def)
  ultimately show ?thesis
    using launcher_runs_only_authentic [OF e] e by auto
qed

text \<open>A failing existence check of \<open>manifest.sig\<close> bypasses the signature: the package has a \<open>manifest.sig\<close> that is
  no manifest at all and no trust anchor, and its executable is launched on its checksum.\<close>

theorem failed_check_skips_signature:
  "fst (select sample_crypto (sample_package\<lparr>tree := (tree sample_package)(''manifest.sig'' \<mapsto> File []),
      stat_fault := (\<lambda>p _. p = ''manifest.sig'')\<rparr>)) = Ok (SlotA, ''Slots/A/true-tick.exe'')"
  by (simp add: sample_eval)

text \<open>C12: Releases never go backwards while the counter file can be checked. A selection during which no
  existence check of the counter file fails either leaves the stored counter as it was, because it
  fails or because the package is launched by checksum (there is no \<open>manifest.sig\<close>, or a check of it
  failed), or succeeds with a signed manifest whose counter is at least the stored one, and then
  stores the counter of the manifest. A selection that fails leaves the stored counter as it was
  whatever checks fail.\<close>

theorem release_counter_monotone:
  assumes "select K d = (r, e)"
  shows "(isl r \<longrightarrow> stored_counter (tree e) = stored_counter (tree d))
    \<and> (missed d e release_counter_state_path
       \<or> (isl r \<or> tree e ''manifest.sig'' = None \<or> missed d e ''manifest.sig'')
         \<and> stored_counter (tree e) = stored_counter (tree d)
       \<or> (\<exists>m n. signed_by K (tree e) m \<and> stored_counter (tree d) = Some n \<and> n \<le> release_counter m
          \<and> stored_counter (tree e) = Some (release_counter m)))"
proof (cases r)
  case (Inl x)
  then have "tree e release_counter_state_path = tree d release_counter_state_path"
    using select_err [of d K] assms by (simp add: err_keeps_def)
  then show ?thesis
    using Inl stored_counter_cong [of "tree e" "tree d"] by simp
next
  case (Inr p)
  then have "launched K d (fst p) (snd p) e"
    using select_Ok [of K d "fst p" "snd p" e] assms by simp
  then show ?thesis
    using Inr unfolding launched_def counter_seen_def signed_entry_def by (auto split: if_splits)
qed

theorem release_counter_monotone_witness:
  "stored_counter (tree (sample_signed ''2'' (\<lambda>_ _. False))) = Some 2
    \<and> stored_counter (tree (snd (select sample_crypto (sample_signed ''2'' (\<lambda>_ _. False))))) = Some 3"
proof -
  let ?d = "sample_signed ''2'' (\<lambda>_ _. False)" and ?r = "select sample_crypto (sample_signed ''2'' (\<lambda>_ _. False))"
  have d: "stored_counter (tree ?d) = Some 2"
    by (simp add: sample_signed_eval)
  have sig: "tree (snd ?r) ''manifest.sig'' = Some (File (bytes_of (manifest_text sample_manifest)))"
    by (simp add: sample_signed_eval model_defs)
  have "\<not> missed ?d (snd ?r) p" for p
    by (simp add: missed_def sample_signed_def)
  with release_counter_monotone [OF surjective_pairing [of ?r]] sample_signed_selected sig
  obtain m where m: "signed_by sample_crypto (tree (snd ?r)) m"
      "stored_counter (tree (snd ?r)) = Some (release_counter m)"
    by auto
  have "m = sample_manifest"
    using m(1) sig sample_manifest_parses by (simp add: signed_by_def)
  then show ?thesis
    using d m(2) by (simp add: sample_manifest_sel)
qed

text \<open>A failing existence check of the counter file forgets it: a package signed with counter 3 is accepted
  over a stored counter 5, which is lowered to 3.\<close>

theorem failed_check_lowers_counter:
  "stored_counter (tree (sample_signed ''5'' (\<lambda>p _. p = release_counter_state_path))) = Some 5"
  "fst (select sample_crypto (sample_signed ''5'' (\<lambda>p _. p = release_counter_state_path)))
     = Ok (SlotA, ''Slots/A/true-tick.exe'')"
  "tree (snd (select sample_crypto (sample_signed ''5'' (\<lambda>p _. p = release_counter_state_path))))
     release_counter_state_path = Some (File (bytes_of (dec 3 @ newline)))"
  by (simp_all add: sample_signed_eval model_defs)

text \<open>Every launch forgets the failures of the launched slot. After a successful selection the health
  file of the selected slot is gone, unless an existence check of it failed, so its counter counts
  consecutive failed verifications only: a slot that verifies and then crashes at run time starts
  every selection with the counter at zero.\<close>

theorem launch_clears_health:
  assumes "select K d = (Ok (s, exe), e)"
  shows "missed d e (slot_health_path s)
    \<or> tree e (slot_health_path s) = None \<and> fst (read_slot_health s e) = Ok 0"
proof -
  obtain t d1 where d1: "same_outside off_counter d d1" "select_active K t d1 = (Ok (s, exe), e)"
    using select_chooses [OF assms] .
  have "health_gone d e s"
    by (rule health_gone_before [OF select_active_health [OF d1(2)] d1(1)])
  then show ?thesis
    by (auto simp: health_gone_def read_slot_health_def path_exists_def)
qed

theorem launch_clears_health_witness:
  "\<exists>e. select sample_crypto (sample_package\<lparr>tree := (tree sample_package)(slot_health_path SlotA \<mapsto> File (bytes_of ''2''))\<rparr>)
       = (Ok (SlotA, ''Slots/A/true-tick.exe''), e) \<and> tree e (slot_health_path SlotA) = None"
proof -
  let ?d = "sample_package\<lparr>tree := (tree sample_package)(slot_health_path SlotA \<mapsto> File (bytes_of ''2''))\<rparr>"
  have "fst (select sample_crypto ?d) = Ok (SlotA, ''Slots/A/true-tick.exe'')"
    by (simp add: sample_eval)
  then obtain e where e: "select sample_crypto ?d = (Ok (SlotA, ''Slots/A/true-tick.exe''), e)"
    by (cases "select sample_crypto ?d") auto
  have "\<not> missed ?d e (slot_health_path SlotA)"
    by (simp add: missed_def sample_package_def)
  with launch_clears_health [OF e] e show ?thesis
    by blast
qed

end
