(* ===== verification/Privacy.thy ===== *)
theory Privacy
  imports Text
begin

text \<open>
  Model of \<open>crates/tick-diagnostics/src/privacy.rs\<close>: the scanners for personal data in detail text, the
  merge of their spans and the redaction.

  Each scanner is a loop over an index that may push a span and jump behind it. The loops share one
  definition over the match a scanner makes at an index; \<^term>\<open>None\<close> is a loop that never ends, and
  \<open>Inl\<close> is a panic, which an index below zero raises in the scanner for account names.
\<close>

section \<open>Byte classes\<close>

datatype pii_kind = UserProfilePath | MachineName | EnvironmentVariable | IpAddress | EmailAddress
  | WindowsAccountName

record pii_finding =
  finding_kind :: pii_kind
  finding_field :: string
  finding_offset :: nat

record pii_span =
  span_start :: nat
  span_end :: nat
  span_kind :: pii_kind

definition MAX_PII_FINDINGS :: nat where
  [model_defs]: "MAX_PII_FINDINGS = 32"

definition ascii_whitespace :: "u8 \<Rightarrow> bool" where
  "ascii_whitespace b = (b \<in> {0x20, 0x09, 0x0A, 0x0C, 0x0D})"

definition ascii_digit :: "u8 \<Rightarrow> bool" where
  "ascii_digit b = (0x30 \<le> b \<and> b \<le> 0x39)"

definition ascii_alphabetic :: "u8 \<Rightarrow> bool" where
  "ascii_alphabetic b = (0x41 \<le> b \<and> b \<le> 0x5A \<or> 0x61 \<le> b \<and> b \<le> 0x7A)"

definition ascii_lower_byte :: "u8 \<Rightarrow> u8" where
  "ascii_lower_byte b = (if 0x41 \<le> b \<and> b \<le> 0x5A then b + 32 else b)"

definition eq_ignore_ascii_case :: "bytes \<Rightarrow> bytes \<Rightarrow> bool" where
  "eq_ignore_ascii_case a b = (map ascii_lower_byte a = map ascii_lower_byte b)"

definition is_segment_byte :: "u8 \<Rightarrow> bool" where
  "is_segment_byte b =
     (\<not> ascii_whitespace b \<and> b \<notin> {0x22, 0x27, 0x3C, 0x3E, 0x7C, 0x3F, 0x2A, 0x3A, 0x3B})"

definition is_ident_byte :: "u8 \<Rightarrow> bool" where
  "is_ident_byte b = (ascii_alphabetic b \<or> ascii_digit b \<or> b \<in> {0x5F, 0x2D, 0x2E})"

definition is_local_byte :: "u8 \<Rightarrow> bool" where
  "is_local_byte b = (ascii_alphabetic b \<or> ascii_digit b
     \<or> b \<in> {0x2E, 0x5F, 0x25, 0x2B, 0x2D, 0x3D, 0x21, 0x23, 0x24, 0x27, 0x2A, 0x2F, 0x3F, 0x5E, 0x60, 0x7B,
            0x7C, 0x7D, 0x7E, 0x26})"

definition is_domain_byte :: "u8 \<Rightarrow> bool" where
  "is_domain_byte b = (ascii_alphabetic b \<or> ascii_digit b \<or> b = 0x2D)"

section \<open>Scanning\<close>

text \<open>Running an index forward, or backward, while a predicate holds of the byte there, respectively before it.\<close>

fun run_forward :: "(u8 \<Rightarrow> bool) \<Rightarrow> bytes \<Rightarrow> nat" where
  "run_forward P [] = 0"
| "run_forward P (b # bs) = (if P b then Suc (run_forward P bs) else 0)"

definition forward :: "(u8 \<Rightarrow> bool) \<Rightarrow> bytes \<Rightarrow> nat \<Rightarrow> nat" where
  "forward P bs i = i + run_forward P (drop i bs)"

fun backward :: "(u8 \<Rightarrow> bool) \<Rightarrow> bytes \<Rightarrow> nat \<Rightarrow> nat \<Rightarrow> nat" where
  "backward P bs low 0 = 0"
| "backward P bs low (Suc i) = (if low \<le> i \<and> P (bs ! i) then backward P bs low i else Suc i)"

datatype scan_match = Skip | Hit nat nat | ScanPanic

type_synonym matcher = "bytes \<Rightarrow> nat \<Rightarrow> scan_match"

partial_function (option) scan_loop ::
    "pii_kind \<Rightarrow> matcher \<Rightarrow> bytes \<Rightarrow> nat \<Rightarrow> pii_span list \<Rightarrow> nat \<Rightarrow> (unit, pii_span list) result option" where
  "scan_loop k m bs cap spans i =
     (if i < length bs then
        (case m bs i of
           Skip \<Rightarrow> scan_loop k m bs cap spans (i + 1)
         | ScanPanic \<Rightarrow> Some (Err ())
         | Hit s e \<Rightarrow>
             let spans1 = spans @ [\<lparr>span_start = s, span_end = e, span_kind = k\<rparr>] in
             if cap \<le> length spans1 then Some (Ok spans1) else scan_loop k m bs cap spans1 e)
      else Some (Ok spans))"

declare scan_loop.simps [code]

definition bytes_at :: "bytes \<Rightarrow> nat \<Rightarrow> nat \<Rightarrow> bytes" where
  "bytes_at bs i n = take n (drop i bs)"

definition match_user_profile_path :: matcher where
  "match_user_profile_path bs i =
     (let users = [0x75, 0x73, 0x65, 0x72, 0x73, 0x5C];
          trailing = (\<lambda>b. b \<in> {0x5C, 0x2F, 0x2E, 0x2C});
          found = (\<lambda>base. Hit i (backward trailing bs i (forward is_segment_byte bs base)))
      in if i + 9 \<le> length bs \<and> ascii_alphabetic (bs ! i) \<and> bs ! (i + 1) = 0x3A \<and> bs ! (i + 2) = 0x5C
            \<and> eq_ignore_ascii_case (bytes_at bs (i + 3) 6) users
         then found (i + 9)
         else if i + 7 \<le> length bs \<and> bs ! i = 0x5C \<and> eq_ignore_ascii_case (bytes_at bs (i + 1) 6) users
         then found (i + 7)
         else Skip)"

definition computername :: bytes where
  "computername = [0x43, 0x4F, 0x4D, 0x50, 0x55, 0x54, 0x45, 0x52, 0x4E, 0x41, 0x4D, 0x45]"

definition match_machine_name :: matcher where
  "match_machine_name bs i =
     (if i + 12 \<le> length bs \<and> eq_ignore_ascii_case (bytes_at bs i 12) computername
         \<and> (i = 0 \<or> bs ! (i - 1) \<noteq> 0x25)
      then Hit i (if i + 12 < length bs \<and> bs ! (i + 12) = 0x25 then i + 13 else i + 12)
      else if i + 2 < length bs \<and> bs ! i = 0x5C \<and> bs ! (i + 1) = 0x5C \<and> is_ident_byte (bs ! (i + 2))
      then Hit i (forward is_ident_byte bs (i + 2))
      else Skip)"

text \<open>The inner loop for an environment variable stops at a percent sign, at whitespace and after 65 bytes.\<close>

definition match_environment_variable :: matcher where
  "match_environment_variable bs i =
     (if bs ! i \<noteq> 0x25 then Skip
      else
        let stop = (\<lambda>b. b \<noteq> 0x25 \<and> \<not> ascii_whitespace b);
            e = i + 1 + run_forward stop (take 64 (drop (i + 1) bs))
        in if e < length bs \<and> bs ! e = 0x25 \<and> i + 1 < e then Hit i (e + 1) else Skip)"

text \<open>Octets of one to three digits: the end of four of them joined by dots, if they are there.\<close>

fun octets_end :: "nat \<Rightarrow> bytes \<Rightarrow> nat \<Rightarrow> nat option" where
  "octets_end 0 bs p = None"
| "octets_end (Suc n) bs p =
     (let d = run_forward ascii_digit (take 3 (drop p bs)); q = p + d in
      if d = 0 then None
      else if q < length bs \<and> ascii_digit (bs ! q) then None
      else if n = 0 then Some q
      else if q < length bs \<and> bs ! q = 0x2E then octets_end n bs (q + 1)
      else None)"

definition match_ip_address :: matcher where
  "match_ip_address bs i =
     (let joined = (\<lambda>b. ascii_digit b \<or> b = 0x2E) in
      if \<not> ascii_digit (bs ! i) then Skip
      else case octets_end 4 bs i of
        None \<Rightarrow> Skip
      | Some e \<Rightarrow>
          if (i = 0 \<or> \<not> joined (bs ! (i - 1))) \<and> (length bs \<le> e \<or> \<not> joined (bs ! e)) then Hit i e else Skip)"

fun has_double_dot :: "bytes \<Rightarrow> bool" where
  "has_double_dot (a # b # bs) = (a = 0x2E \<and> b = 0x2E \<or> has_double_dot (b # bs))"
| "has_double_dot _ = False"

definition match_email_address :: matcher where
  "match_email_address bs i =
     (if bs ! i \<noteq> 0x40 then Skip
      else
        let s = backward is_local_byte bs 0 i;
            e = forward (\<lambda>b. is_domain_byte b \<or> b = 0x2E) bs (i + 1);
            domain = bytes_at bs (i + 1) (e - (i + 1))
        in if s = i then Skip
           else if 0x2E \<in> set domain \<and> domain \<noteq> [] \<and> hd domain \<noteq> 0x2E \<and> last domain \<noteq> 0x2E
             \<and> \<not> has_double_dot domain
           then Hit s e else Skip)"

text \<open>The byte before the domain is read without a check that there is one.\<close>

definition match_windows_account_name :: matcher where
  "match_windows_account_name bs i =
     (if bs ! i \<noteq> 0x5C then Skip
      else if 0 < i \<and> bs ! (i - 1) = 0x5C then Skip
      else
        let s = backward is_ident_byte bs 0 i; e = forward is_ident_byte bs (i + 1) in
        if s = i then Skip
        else if s = 0 then ScanPanic
        else if bs ! (s - 1) = 0x5C \<or> bs ! (s - 1) = 0x3A then Skip
        else if e = i + 1 then Skip
        else if eq_ignore_ascii_case (bytes_at bs s (i - s)) [0x75, 0x73, 0x65, 0x72, 0x73] then Skip
        else Hit s e)"

definition scanners :: "(pii_kind \<times> matcher) list" where
  "scanners =
     [(UserProfilePath, match_user_profile_path), (MachineName, match_machine_name),
      (EnvironmentVariable, match_environment_variable), (IpAddress, match_ip_address),
      (EmailAddress, match_email_address), (WindowsAccountName, match_windows_account_name)]"

fun scan_all :: "(pii_kind \<times> matcher) list \<Rightarrow> bytes \<Rightarrow> pii_span list \<Rightarrow> (unit, pii_span list) result option" where
  "scan_all [] bs spans = Some (Ok spans)"
| "scan_all ((k, m) # rest) bs spans =
     (case scan_loop k m bs MAX_PII_FINDINGS spans 0 of
        Some (Inr spans1) \<Rightarrow> scan_all rest bs spans1
      | other \<Rightarrow> other)"

section \<open>Merging and redaction\<close>

text \<open>The stable sort of the source: insertion behind equal elements.\<close>

fun insert_span :: "pii_span \<Rightarrow> pii_span list \<Rightarrow> pii_span list" where
  "insert_span s [] = [s]"
| "insert_span s (t # ts) =
     (if span_start t < span_start s \<or> span_start t = span_start s \<and> span_end s \<le> span_end t
      then t # insert_span s ts else s # t # ts)"

definition sort_spans :: "pii_span list \<Rightarrow> pii_span list" where
  "sort_spans ss = foldl (\<lambda>acc s. insert_span s acc) [] ss"

fun merge_spans :: "nat \<Rightarrow> nat \<Rightarrow> pii_span list \<Rightarrow> pii_span list" where
  "merge_spans room limit [] = []"
| "merge_spans room limit (s # ss) =
     (if span_start s < limit then merge_spans room limit ss
      else if room \<le> 1 then [s]
      else s # merge_spans (room - 1) (span_end s) ss)"

definition collect_spans :: "bytes \<Rightarrow> (unit, pii_span list) result option" where
  "collect_spans bs =
     map_option (map_sum id (\<lambda>ss. merge_spans MAX_PII_FINDINGS 0 (sort_spans ss))) (scan_all scanners bs [])"

definition finding_of :: "string \<Rightarrow> pii_span \<Rightarrow> pii_finding" where
  "finding_of field s = \<lparr>finding_kind = span_kind s, finding_field = field, finding_offset = span_start s\<rparr>"

definition scan_for_pii :: "string \<Rightarrow> bytes \<Rightarrow> (unit, pii_finding list) result option" where
  "scan_for_pii field bs = map_option (map_sum id (map (finding_of field))) (collect_spans bs)"

definition redacted :: bytes where
  "redacted = bytes_of ''[redacted]''"

definition replace_span :: "pii_span \<Rightarrow> bytes \<Rightarrow> bytes" where
  "replace_span s bs = take (span_start s) bs @ redacted @ drop (span_end s) bs"

definition sanitize_pii :: "string \<Rightarrow> bytes \<Rightarrow> (unit, bytes \<times> pii_finding list) result option" where
  "sanitize_pii field bs =
     map_option (map_sum id (\<lambda>ss. if ss = [] then (bs, [])
       else (foldr replace_span ss bs, map (finding_of field) ss))) (collect_spans bs)"

section \<open>The scans end\<close>

definition span_ok :: "bytes \<Rightarrow> pii_span \<Rightarrow> bool" where
  "span_ok bs x \<longleftrightarrow> span_start x < span_end x \<and> span_end x \<le> length bs"

definition progressive :: "matcher \<Rightarrow> bool" where
  "progressive m \<longleftrightarrow> (\<forall>bs i s e. i < length bs \<longrightarrow> m bs i = Hit s e \<longrightarrow> s \<le> i \<and> i < e \<and> e \<le> length bs)"

lemma run_forward_le: "run_forward P bs \<le> length bs"
  by (induction bs) auto

lemma forward_bounds: "i \<le> forward P bs i \<and> (i \<le> length bs \<longrightarrow> forward P bs i \<le> length bs)"
  using run_forward_le [of P "drop i bs"] by (auto simp: forward_def)

lemma backward_le: "backward P bs low i \<le> i"
  by (induction i) auto

lemma backward_stop: "low \<le> j \<Longrightarrow> j < i \<Longrightarrow> \<not> P (bs ! j) \<Longrightarrow> Suc j \<le> backward P bs low i"
  by (induction i) (auto simp: less_Suc_eq)

lemma backward_zero: "backward P bs 0 i = 0 \<longleftrightarrow> (\<forall>j<i. P (bs ! j))"
  by (induction i) (auto simp: less_Suc_eq)

lemma users_letter:
  assumes "eq_ignore_ascii_case (bytes_at bs i 6) [0x75, 0x73, 0x65, 0x72, 0x73, 0x5C]" and "i + 6 \<le> length bs"
  shows "bs ! (i + 4) \<notin> {0x5C, 0x2F, 0x2E, 0x2C}"
proof -
  have "map ascii_lower_byte (bytes_at bs i 6) ! 4 = ascii_lower_byte (bs ! (i + 4))"
    using assms(2) by (simp add: bytes_at_def)
  moreover have "map ascii_lower_byte (bytes_at bs i 6) ! 4 = 0x73"
    using assms(1) by (simp add: eq_ignore_ascii_case_def ascii_lower_byte_def)
  ultimately show ?thesis
    by (auto simp: ascii_lower_byte_def)
qed

lemma progressive_user: "progressive match_user_profile_path"
proof -
  have "i < backward (\<lambda>b. b \<in> {0x5C, 0x2F, 0x2E, 0x2C}) bs i (forward is_segment_byte bs base)"
    "backward (\<lambda>b. b \<in> {0x5C, 0x2F, 0x2E, 0x2C}) bs i (forward is_segment_byte bs base) \<le> length bs"
    if "bs ! j \<notin> {0x5C, 0x2F, 0x2E, 0x2C}" "i \<le> j" "j < base" "base \<le> length bs" for bs i j base
    using backward_stop [of i j "forward is_segment_byte bs base" "\<lambda>b. b \<in> {0x5C, 0x2F, 0x2E, 0x2C}" bs]
      forward_bounds [of base is_segment_byte bs]
      backward_le [of "\<lambda>b. b \<in> {0x5C, 0x2F, 0x2E, 0x2C}" bs i "forward is_segment_byte bs base"] that
    by auto
  note hit = this
  show ?thesis
    unfolding progressive_def
  proof (intro allI impI)
    fix bs i s e
    assume "i < length bs" and m: "match_user_profile_path bs i = Hit s e"
    let ?users = "[0x75, 0x73, 0x65, 0x72, 0x73, 0x5C]"
    have "\<exists>base j. s = i \<and> e = backward (\<lambda>b. b \<in> {0x5C, 0x2F, 0x2E, 0x2C}) bs i (forward is_segment_byte bs base)
        \<and> bs ! j \<notin> {0x5C, 0x2F, 0x2E, 0x2C} \<and> i \<le> j \<and> j < base \<and> base \<le> length bs"
    proof (cases "i + 9 \<le> length bs \<and> ascii_alphabetic (bs ! i) \<and> bs ! (i + 1) = 0x3A \<and> bs ! (i + 2) = 0x5C
        \<and> eq_ignore_ascii_case (bytes_at bs (i + 3) 6) ?users")
      case True
      then show ?thesis
        using m users_letter [of bs "i + 3"]
        by (intro exI [of _ "i + 9"] exI [of _ "i + 3 + 4"]) (auto simp: match_user_profile_path_def Let_def)
    next
      case False
      then have "i + 7 \<le> length bs" "eq_ignore_ascii_case (bytes_at bs (i + 1) 6) ?users"
          "s = i" "e = backward (\<lambda>b. b \<in> {0x5C, 0x2F, 0x2E, 0x2C}) bs i (forward is_segment_byte bs (i + 7))"
        using m by (auto simp: match_user_profile_path_def Let_def split: if_splits)
      then show ?thesis
        using users_letter [of bs "i + 1"]
        by (intro exI [of _ "i + 7"] exI [of _ "i + 1 + 4"]) auto
    qed
    then show "s \<le> i \<and> i < e \<and> e \<le> length bs"
      using hit by blast
  qed
qed

lemma progressive_machine: "progressive match_machine_name"
  unfolding progressive_def
proof (intro allI impI)
  fix bs i s e
  assume "i < length bs" and m: "match_machine_name bs i = Hit s e"
  then show "s \<le> i \<and> i < e \<and> e \<le> length bs"
    using forward_bounds [of "i + 2" is_ident_byte bs]
    by (auto simp: match_machine_name_def split: if_splits)
qed

lemma progressive_env: "progressive match_environment_variable"
  by (auto simp: progressive_def match_environment_variable_def Let_def split: if_splits)

lemma octets_bounds: "octets_end n bs p = Some e \<Longrightarrow> p < e \<and> e \<le> length bs"
proof (induction n bs p rule: octets_end.induct)
  case (2 n bs p)
  have "run_forward ascii_digit (take 3 (drop p bs)) \<le> length bs - p"
    using run_forward_le [of ascii_digit "take 3 (drop p bs)"] by simp
  then show ?case
    using 2 by (fastforce simp: Let_def split: if_splits)
qed simp

lemma progressive_ip: "progressive match_ip_address"
  by (auto simp: progressive_def match_ip_address_def Let_def dest: octets_bounds split: if_splits option.splits)

lemma progressive_email: "progressive match_email_address"
  unfolding progressive_def
proof (intro allI impI)
  fix bs i s e
  assume "i < length bs" and m: "match_email_address bs i = Hit s e"
  then show "s \<le> i \<and> i < e \<and> e \<le> length bs"
    using forward_bounds [of "i + 1" "\<lambda>b. is_domain_byte b \<or> b = 0x2E" bs] backward_le [of is_local_byte bs 0 i]
    by (auto simp: match_email_address_def Let_def split: if_splits)
qed

lemma progressive_account: "progressive match_windows_account_name"
  unfolding progressive_def
proof (intro allI impI)
  fix bs i s e
  assume "i < length bs" and m: "match_windows_account_name bs i = Hit s e"
  then show "s \<le> i \<and> i < e \<and> e \<le> length bs"
    using forward_bounds [of "i + 1" is_ident_byte bs] backward_le [of is_ident_byte bs 0 i]
    by (auto simp: match_windows_account_name_def Let_def split: if_splits)
qed

lemma scanners_progressive: "(k, m) \<in> set scanners \<Longrightarrow> progressive m"
  using progressive_user progressive_machine progressive_env progressive_ip progressive_email progressive_account
  by (auto simp: scanners_def)

lemma scan_loop_returns:
  assumes "progressive m" and "\<forall>x\<in>set spans. span_ok bs x"
  shows "\<exists>r. scan_loop k m bs cap spans i = Some r \<and> (\<forall>ss. r = Ok ss \<longrightarrow> (\<forall>x\<in>set ss. span_ok bs x))"
  using assms(2)
proof (induction "length bs - i" arbitrary: i spans rule: less_induct)
  case less
  show ?case
  proof (cases "i < length bs")
    case True
    show ?thesis
    proof (cases "m bs i")
      case Skip
      then show ?thesis
        using less(1) [of "i + 1" spans] less(2) True by (subst scan_loop.simps) simp
    next
      case (Hit s e)
      have p: "s \<le> i" "i < e" "e \<le> length bs"
        using assms(1) True Hit by (auto simp: progressive_def)
      then have "\<forall>x\<in>set (spans @ [\<lparr>span_start = s, span_end = e, span_kind = k\<rparr>]). span_ok bs x"
        using less(2) by (auto simp: span_ok_def)
      with less(1) [OF _ this, of e] show ?thesis
        using Hit True p by (subst scan_loop.simps) (auto simp: Let_def)
    next
      case ScanPanic
      then show ?thesis
        using True by (subst scan_loop.simps) simp
    qed
  next
    case False
    then show ?thesis
      using less(2) by (subst scan_loop.simps) simp
  qed
qed

lemma scan_all_returns:
  assumes "\<forall>(k, m)\<in>set sc. progressive m" and "\<forall>x\<in>set spans. span_ok bs x"
  shows "\<exists>r. scan_all sc bs spans = Some r \<and> (\<forall>ss. r = Ok ss \<longrightarrow> (\<forall>x\<in>set ss. span_ok bs x))"
  using assms
proof (induction sc bs spans rule: scan_all.induct)
  case (2 k m rest bs spans)
  then obtain r where r: "scan_loop k m bs MAX_PII_FINDINGS spans 0 = Some r"
      "\<forall>ss. r = Ok ss \<longrightarrow> (\<forall>x\<in>set ss. span_ok bs x)"
    using scan_loop_returns [of m spans bs k MAX_PII_FINDINGS 0] by auto
  show ?case
  proof (cases r)
    case (Inl u)
    then show ?thesis
      using r by simp
  next
    case (Inr ss)
    then show ?thesis
      using 2(1) [OF r(1) Inr] r Inr 2(2) by simp
  qed
qed simp

section \<open>When a scan panics\<close>

text \<open>The text starts with an account name: a backslash behind nothing but bytes of an identifier.\<close>

definition account_at_start :: "bytes \<Rightarrow> bool" where
  "account_at_start bs \<longleftrightarrow> (\<exists>k. 0 < k \<and> k < length bs \<and> bs ! k = 0x5C \<and> (\<forall>j<k. is_ident_byte (bs ! j)))"

lemma no_panic_matchers:
  "match_user_profile_path bs i \<noteq> ScanPanic" "match_machine_name bs i \<noteq> ScanPanic"
  "match_environment_variable bs i \<noteq> ScanPanic" "match_ip_address bs i \<noteq> ScanPanic"
  "match_email_address bs i \<noteq> ScanPanic"
  by (auto simp: match_user_profile_path_def match_machine_name_def match_environment_variable_def
      match_ip_address_def match_email_address_def Let_def split: option.split)

lemma account_panic_iff:
  "match_windows_account_name bs i = ScanPanic \<longleftrightarrow>
     bs ! i = 0x5C \<and> 0 < i \<and> (\<forall>j<i. is_ident_byte (bs ! j))"
proof -
  have "\<not> is_ident_byte 0x5C"
    by (simp add: is_ident_byte_def ascii_alphabetic_def ascii_digit_def)
  then have "bs ! (i - 1) \<noteq> 0x5C" if "0 < i" "\<forall>j<i. is_ident_byte (bs ! j)"
    using that by (metis diff_less zero_less_one)
  then show ?thesis
    using backward_zero [of is_ident_byte bs i] by (auto simp: match_windows_account_name_def Let_def)
qed

lemma scan_loop_panics:
  assumes "scan_loop k m bs cap spans i = Some (Err u)" and "progressive m"
  shows "\<exists>j. i \<le> j \<and> j < length bs \<and> m bs j = ScanPanic"
  using assms(1)
proof (induction "length bs - i" arbitrary: i spans rule: less_induct)
  case less
  have i: "i < length bs"
    using less(2) by (subst (asm) scan_loop.simps) (auto split: if_splits)
  show ?case
  proof (cases "m bs i")
    case Skip
    then have rest: "scan_loop k m bs cap spans (i + 1) = Some (Err u)"
      using less(2) i by (subst (asm) scan_loop.simps) simp
    obtain j where "i + 1 \<le> j" "j < length bs" "m bs j = ScanPanic"
      using less(1) [OF _ rest] i diff_less_mono2 [of i "i + 1" "length bs"] by auto
    then show ?thesis
      by (intro exI [of _ j]) simp
  next
    case (Hit s e)
    then have e: "i < e"
      using assms(2) i by (auto simp: progressive_def)
    have rest: "scan_loop k m bs cap (spans @ [\<lparr>span_start = s, span_end = e, span_kind = k\<rparr>]) e = Some (Err u)"
      using less(2) i Hit by (subst (asm) scan_loop.simps) (auto simp: Let_def split: if_splits)
    obtain j where "e \<le> j" "j < length bs" "m bs j = ScanPanic"
      using less(1) [OF _ rest] diff_less_mono2 [OF e i] by auto
    then show ?thesis
      using e by (intro exI [of _ j]) simp
  qed (use i in blast)
qed

lemma account_loop_panics:
  assumes "bs ! n = 0x5C" "0 < n" "n < length bs" "\<forall>j<n. is_ident_byte (bs ! j)" and "i \<le> n"
  shows "scan_loop k match_windows_account_name bs cap spans i = Some (Err ())"
  using assms(5)
proof (induction "n - i" arbitrary: i)
  case 0
  then show ?case
    using assms account_panic_iff [of bs n] by (subst scan_loop.simps) simp
next
  case (Suc d)
  have "bs ! i \<noteq> 0x5C"
  proof -
    have "is_ident_byte (bs ! i)"
      using assms(4) Suc by simp
    then show ?thesis
      by (auto simp: is_ident_byte_def ascii_alphabetic_def ascii_digit_def)
  qed
  then have "match_windows_account_name bs i = Skip"
    by (simp add: match_windows_account_name_def)
  then show ?case
    using Suc assms(3) by (subst scan_loop.simps) simp
qed

lemma other_scans_return:
  assumes "(k, m) \<in> set scanners" "k \<noteq> WindowsAccountName" and "\<forall>x\<in>set spans. span_ok bs x"
  shows "\<exists>ss. scan_loop k m bs cap spans 0 = Some (Ok ss) \<and> (\<forall>x\<in>set ss. span_ok bs x)"
proof -
  obtain r where r: "scan_loop k m bs cap spans 0 = Some r" "\<forall>ss. r = Ok ss \<longrightarrow> (\<forall>x\<in>set ss. span_ok bs x)"
    using scan_loop_returns [OF scanners_progressive [OF assms(1)] assms(3)] by blast
  have "m bs j \<noteq> ScanPanic" for j
    using assms(1,2) no_panic_matchers by (auto simp: scanners_def)
  then have "r \<noteq> Err u" for u
    using scan_loop_panics [of k m bs cap spans 0 u] r(1) scanners_progressive [OF assms(1)] by auto
  then show ?thesis
    using r by (cases r) auto
qed

lemma scan_all_append:
  "scan_all xs bs spans = Some (Ok ss) \<Longrightarrow> scan_all (xs @ ys) bs spans = scan_all ys bs ss"
  by (induction xs bs spans rule: scan_all.induct) (auto split: option.splits sum.splits)

lemma scan_all_others:
  assumes "set sc \<subseteq> {x \<in> set scanners. fst x \<noteq> WindowsAccountName}" and "\<forall>x\<in>set spans. span_ok bs x"
  shows "\<exists>ss. scan_all sc bs spans = Some (Ok ss) \<and> (\<forall>x\<in>set ss. span_ok bs x)"
  using assms
proof (induction sc bs spans rule: scan_all.induct)
  case (2 k m rest bs spans)
  then obtain ss where ss: "scan_loop k m bs MAX_PII_FINDINGS spans 0 = Some (Ok ss)" "\<forall>x\<in>set ss. span_ok bs x"
    using other_scans_return [of k m spans bs MAX_PII_FINDINGS] by auto
  then show ?case
    using 2(1) [OF ss(1) refl] 2(2) by simp
qed simp

lemma collect_cases:
  shows "account_at_start bs \<Longrightarrow> collect_spans bs = Some (Err ())"
    and "\<not> account_at_start bs \<Longrightarrow> \<exists>ss. scan_all scanners bs [] = Some (Ok ss) \<and> (\<forall>x\<in>set ss. span_ok bs x)"
proof -
  define others where "others = butlast scanners"
  have sc: "scanners = others @ [(WindowsAccountName, match_windows_account_name)]"
    by (simp add: others_def scanners_def)
  have "set others \<subseteq> {x \<in> set scanners. fst x \<noteq> WindowsAccountName}"
    by (auto simp: others_def scanners_def)
  then obtain ss where ss: "scan_all others bs [] = Some (Ok ss)" "\<forall>x\<in>set ss. span_ok bs x"
    using scan_all_others [of others "[]" bs] by auto
  have last: "scan_all scanners bs []
      = (case scan_loop WindowsAccountName match_windows_account_name bs MAX_PII_FINDINGS ss 0 of
          Some (Inr out) \<Rightarrow> Some (Ok out) | other \<Rightarrow> other)"
    using scan_all_append [OF ss(1)] by (simp add: sc split: option.splits sum.splits)
  show "collect_spans bs = Some (Err ())" if start: "account_at_start bs"
  proof -
    obtain n where "0 < n" "n < length bs" "bs ! n = 0x5C" "\<forall>j<n. is_ident_byte (bs ! j)"
      using start by (auto simp: account_at_start_def)
    then show ?thesis
      using account_loop_panics [of bs n 0] by (simp add: collect_spans_def last)
  qed
  show "\<exists>ss. scan_all scanners bs [] = Some (Ok ss) \<and> (\<forall>x\<in>set ss. span_ok bs x)" if free: "\<not> account_at_start bs"
  proof -
    obtain r where r: "scan_loop WindowsAccountName match_windows_account_name bs MAX_PII_FINDINGS ss 0 = Some r"
        "\<forall>ss. r = Ok ss \<longrightarrow> (\<forall>x\<in>set ss. span_ok bs x)"
      using scan_loop_returns [OF progressive_account ss(2)] by blast
    have "r \<noteq> Err u" for u
      using scan_loop_panics [OF _ progressive_account, of WindowsAccountName bs MAX_PII_FINDINGS ss 0 u] r(1) free
      by (auto simp: account_panic_iff account_at_start_def)
    then show ?thesis
      using r by (cases r) (auto simp: last)
  qed
qed

section \<open>Redaction\<close>

fun spans_from :: "nat \<Rightarrow> bytes \<Rightarrow> pii_span list \<Rightarrow> bool" where
  "spans_from limit bs [] = True"
| "spans_from limit bs (s # ss) = (limit \<le> span_start s \<and> span_ok bs s \<and> spans_from (span_end s) bs ss)"

text \<open>The reference: the text between the spans, and the token in place of each span.\<close>

fun with_spans_replaced :: "nat \<Rightarrow> pii_span list \<Rightarrow> bytes \<Rightarrow> bytes" where
  "with_spans_replaced from [] bs = drop from bs"
| "with_spans_replaced from (s # ss) bs =
     take (span_start s - from) (drop from bs) @ redacted @ with_spans_replaced (span_end s) ss bs"

lemma insert_span_set: "set (insert_span s ss) = insert s (set ss)"
  by (induction s ss rule: insert_span.induct) auto

lemma sort_spans_set: "set (sort_spans ss) = set ss"
proof -
  have "set (foldl (\<lambda>acc s. insert_span s acc) acc ss) = set acc \<union> set ss" for acc
    by (induction ss arbitrary: acc) (auto simp: insert_span_set)
  then show ?thesis
    by (simp add: sort_spans_def)
qed

lemma merge_spans_ok:
  "\<forall>x\<in>set ss. span_ok bs x \<Longrightarrow> spans_from limit bs (merge_spans room limit ss)"
  by (induction room limit ss rule: merge_spans.induct) auto

lemma merge_spans_length: "0 < room \<Longrightarrow> length (merge_spans room limit ss) \<le> room"
  by (induction room limit ss rule: merge_spans.induct) auto

lemma foldr_replace:
  "foldr replace_span (s # ss) bs
   = take (span_start s) (foldr replace_span ss bs) @ redacted @ drop (span_end s) (foldr replace_span ss bs)"
  by (simp add: replace_span_def)

lemma replace_spans:
  "spans_from limit bs ss \<Longrightarrow> limit \<le> length bs \<Longrightarrow>
   foldr replace_span ss bs = take limit bs @ with_spans_replaced limit ss bs"
proof (induction limit bs ss rule: spans_from.induct)
  case (2 limit bs s ss)
  define rest where "rest = foldr replace_span ss bs"
  have "rest = take (span_end s) bs @ with_spans_replaced (span_end s) ss bs"
    using 2 by (simp add: span_ok_def rest_def)
  moreover have "take (span_start s) bs = take limit bs @ take (span_start s - limit) (drop limit bs)"
    using 2(2) by (metis append_take_drop_id drop_take le_add_diff_inverse spans_from.simps(2) take_add)
  ultimately show ?case
    using 2(2) by (simp add: foldr_replace span_ok_def min_def del: foldr_Cons flip: rest_def)
qed simp

text \<open>C21: Redaction is exact and bounded, or the scan panics. A text that starts with an account name (a
  backslash behind identifier bytes only) always panics. Every other text is returned with at most 32
  findings that stand for disjoint, non-empty spans in order; each span is replaced by the token and
  every byte outside the spans is kept.\<close>

theorem pii_redaction_exact:
  "if account_at_start bs then sanitize_pii field bs = Some (Err ())
   else \<exists>ss. sanitize_pii field bs = Some (Ok (with_spans_replaced 0 ss bs, map (finding_of field) ss))
     \<and> spans_from 0 bs ss \<and> length ss \<le> MAX_PII_FINDINGS"
proof (cases "account_at_start bs")
  case True
  then show ?thesis
    using collect_cases(1) by (simp add: sanitize_pii_def)
next
  case False
  then obtain raw where raw: "scan_all scanners bs [] = Some (Ok raw)" "\<forall>x\<in>set raw. span_ok bs x"
    using collect_cases(2) by blast
  define ss where "ss = merge_spans MAX_PII_FINDINGS 0 (sort_spans raw)"
  have "spans_from 0 bs ss" "length ss \<le> MAX_PII_FINDINGS"
    using raw(2) merge_spans_ok [of "sort_spans raw" bs 0 MAX_PII_FINDINGS]
      merge_spans_length [of MAX_PII_FINDINGS 0 "sort_spans raw"]
    by (simp_all add: ss_def sort_spans_set MAX_PII_FINDINGS_def)
  moreover have "collect_spans bs = Some (Ok ss)"
    using raw(1) by (simp add: collect_spans_def ss_def)
  moreover have "foldr replace_span ss bs = with_spans_replaced 0 ss bs"
    using replace_spans [OF \<open>spans_from 0 bs ss\<close>] by simp
  ultimately show ?thesis
    using False by (auto simp: sanitize_pii_def)
qed

end
