(* ===== verification/Diagnostics.thy ===== *)
theory Diagnostics
  imports Privacy
begin

text \<open>
  Model of the event store of \<open>crates/tick-diagnostics/src/lib.rs\<close>: the records, the hash chain over
  them, the bounded store with its truncation marker, the coalescing of repeated layout errors and the
  outcome that is derived from the words of a record.

  Strings are lists of the bytes of their UTF-8 form. SHA-256 is a parameter \<open>sha\<close>. Every reading of
  the clock is an argument: a record reads it once for the truncation marker and once for the event. The
  store is used under a mutex whose poisoning is ignored, so a panic leaves the state it found.
\<close>

section \<open>Vocabulary\<close>

definition DEFAULT_MAX_EVENTS :: nat where [model_defs]: "DEFAULT_MAX_EVENTS = 512"
definition HARD_MAX_EVENTS :: nat where [model_defs]: "HARD_MAX_EVENTS = 512"
definition MAX_FIELD_LENGTH :: nat where [model_defs]: "MAX_FIELD_LENGTH = 160"
definition GENESIS_HASH_SEED :: bytes where "GENESIS_HASH_SEED = bytes_of ''TrueTick-Genesis-v1''"

definition genesis_hash :: "(bytes \<Rightarrow> bytes) \<Rightarrow> bytes" where
  "genesis_hash sha = sha GENESIS_HASH_SEED"

datatype event_category = CatStartup | CatTimer | CatPower | CatUI | CatSchedule | CatSystem

datatype diagnostic_phase = PhBegin | PhObserve | PhDecide | PhAcquire | PhRelease | PhVerify | PhHandoff
  | PhTimer | PhRender | PhPersist | PhShutdown | PhComplete

datatype diagnostic_source = SrcTrayCommand | SrcPowerEvent | SrcStartup | SrcPause | SrcResume | SrcHandoff
  | SrcShutdown | SrcPolicy | SrcOwnership | SrcPlatform | SrcNative | SrcTimer | SrcDiagnostic | SrcInternal

datatype diagnostic_outcome = OutInProgress | OutCompleted | OutDegraded | OutFailed | OutCancelled
  | OutSuppressed | OutTimedOut | OutUnverified

record native_outcome =
  nat_ntstatus :: "int option"
  nat_win32 :: "u32 option"
  nat_requested_hns :: "u64 option"
  nat_selected_hns :: "u64 option"
  nat_effective_hns :: "u64 option"

definition native_default :: native_outcome where
  "native_default = \<lparr>nat_ntstatus = None, nat_win32 = None, nat_requested_hns = None, nat_selected_hns = None,
     nat_effective_hns = None\<rparr>"

record operation_context =
  operation_id :: u64
  parent_operation_id :: "u64 option"
  correlation_id :: u64

record diagnostic_record =
  rec_context :: operation_context
  rec_phase :: diagnostic_phase
  rec_source :: diagnostic_source
  rec_outcome :: diagnostic_outcome
  rec_native :: native_outcome

record diagnostic_event =
  ev_sequence :: u64
  ev_elapsed :: nat
  ev_context :: operation_context
  ev_phase :: diagnostic_phase
  ev_source :: diagnostic_source
  ev_outcome :: diagnostic_outcome
  ev_native :: native_outcome
  ev_name :: string
  ev_details :: string
  ev_prev_hash :: bytes
  ev_entry_hash :: bytes

section \<open>Text\<close>

definition truncate_text :: "string \<Rightarrow> nat \<Rightarrow> string" where
  "truncate_text s maximum = text_of (truncate_utf8 (bytes_of s) maximum)"

text \<open>
  Control characters are the ASCII ones and the two-byte characters from U+0080 to U+009F, whose first byte
  starts no other character that is replaced.
\<close>

fun sanitize_chars :: "string \<Rightarrow> string" where
  "sanitize_chars [] = []"
| "sanitize_chars [c] =
     [if c \<in> {CHR 0x0D, CHR 0x0A, CHR 0x09} then CHR '' ''
      else if (of_char c :: nat) < 32 \<or> (of_char c :: nat) = 127 then CHR ''?'' else c]"
| "sanitize_chars (c # d # cs) =
     (if c \<in> {CHR 0x0D, CHR 0x0A, CHR 0x09} then CHR '' '' # sanitize_chars (d # cs)
      else if (of_char c :: nat) < 32 \<or> (of_char c :: nat) = 127 then CHR ''?'' # sanitize_chars (d # cs)
      else if c = CHR 0xC2 \<and> 0x80 \<le> (of_char d :: nat) \<and> (of_char d :: nat) \<le> 0x9F
        then CHR ''?'' # sanitize_chars cs
      else c # sanitize_chars (d # cs))"

definition sanitize :: "string \<Rightarrow> string" where
  "sanitize s = truncate_text (sanitize_chars s) MAX_FIELD_LENGTH"

fun contains_text :: "string \<Rightarrow> string \<Rightarrow> bool" where
  "contains_text p [] = (p = [])"
| "contains_text p (c # cs) = (starts_with p (c # cs) \<or> contains_text p cs)"

fun from_event_name :: "string \<Rightarrow> event_category" where
  "from_event_name name =
     (let lower = to_ascii_lowercase name;
          starts = (\<lambda>ps. \<exists>p\<in>set ps. starts_with p lower);
          has = (\<lambda>p. contains_text p lower)
      in if starts [''startup'', ''lifecycle'', ''portable'', ''config''] \<or> has ''single_instance'' \<or> has ''slot''
         then CatStartup
         else if starts [''timer'', ''ownership'', ''handoff'', ''verification'', ''resolution''] then CatTimer
         else if starts [''power''] \<or> has ''battery'' \<or> has ''ac_online'' then CatPower
         else if starts [''ui'', ''tray'', ''menu'', ''command'', ''window'', ''grid''] then CatUI
         else if starts [''schedule'', ''duration'', ''pause'', ''cancel''] then CatSchedule
         else CatSystem)"

text \<open>The words of a text: the longest runs of ASCII letters and digits.\<close>

definition ascii_alphanumeric :: "char \<Rightarrow> bool" where
  "ascii_alphanumeric c = (let b = of_nat (of_char c) :: u8 in ascii_alphabetic b \<or> ascii_digit b)"

fun word_tokens :: "string \<Rightarrow> string \<Rightarrow> string list" where
  "word_tokens acc [] = (if acc = [] then [] else [rev acc])"
| "word_tokens acc (c # cs) =
     (if ascii_alphanumeric c then word_tokens (c # acc) cs
      else if acc = [] then word_tokens [] cs else rev acc # word_tokens [] cs)"

definition derive_outcome :: "string \<Rightarrow> string \<Rightarrow> diagnostic_outcome" where
  "derive_outcome name details =
     (let v = to_ascii_lowercase (name @ '' '' @ details);
          tokens = word_tokens [] v;
          has = (\<lambda>w. w \<in> set tokens);
          contains = (\<lambda>p. contains_text p v)
      in if has ''timedout'' \<or> has ''timeout'' then OutTimedOut
         else if has ''suppressed'' then OutSuppressed
         else if contains ''cancel'' then OutCancelled
         else if has ''unverified'' \<or> has ''uncertain'' then OutUnverified
         else if has ''degraded'' then OutDegraded
         else
           let no_error = (contains ''error=none'' \<or> contains ''errors=none'' \<or> contains ''errors.cleared''
                 \<or> contains ''error=0'' \<or> contains ''errors=0'')
           in if \<not> no_error \<and> (has ''error'' \<or> has ''errors'' \<or> has ''failed'') then OutFailed
              else if has ''started'' \<or> has ''pending'' then OutInProgress
              else OutCompleted)"

section \<open>Hash chain\<close>

definition compute_entry_hash :: "(bytes \<Rightarrow> bytes) \<Rightarrow> bytes \<Rightarrow> u64 \<Rightarrow> nat \<Rightarrow> string \<Rightarrow> string \<Rightarrow> bytes" where
  "compute_entry_hash sha prev sequence nanos name details =
     sha (prev @ u64_to_le sequence @ to_le 16 nanos @ bytes_of name @ bytes_of details)"

definition expected_hash :: "(bytes \<Rightarrow> bytes) \<Rightarrow> diagnostic_event \<Rightarrow> bytes" where
  "expected_hash sha e =
     compute_entry_hash sha (ev_prev_hash e) (ev_sequence e) (ev_elapsed e) (ev_name e) (ev_details e)"

fun verify_from :: "(bytes \<Rightarrow> bytes) \<Rightarrow> nat \<Rightarrow> diagnostic_event option \<Rightarrow> diagnostic_event list
    \<Rightarrow> (nat \<times> string, unit) result" where
  "verify_from sha index before [] = Ok ()"
| "verify_from sha index before (e # es) =
     (if ev_entry_hash e \<noteq> expected_hash sha e then Err (index, ''entry hash mismatch'')
      else case before of
        None \<Rightarrow> verify_from sha (index + 1) (Some e) es
      | Some p \<Rightarrow>
          if ev_sequence e = saturating_add (ev_sequence p) 1 \<and> ev_entry_hash p \<noteq> ev_prev_hash e
          then Err (index, ''previous hash link mismatch'')
          else verify_from sha (index + 1) (Some e) es)"

definition verify_event_chain :: "(bytes \<Rightarrow> bytes) \<Rightarrow> diagnostic_event list \<Rightarrow> (nat \<times> string, unit) result" where
  "verify_event_chain sha es = verify_from sha 0 None es"

section \<open>The store\<close>

record store =
  st_maximum :: nat
  st_next_sequence :: u64
  st_next_operation :: u64
  st_events :: "diagnostic_event list"
  st_truncated :: bool
  st_last_hash :: bytes
  st_coalesced :: "string option"

definition store_new :: "(bytes \<Rightarrow> bytes) \<Rightarrow> nat \<Rightarrow> store" where
  "store_new sha maximum =
     \<lparr>st_maximum = clamp maximum 2 HARD_MAX_EVENTS, st_next_sequence = 1, st_next_operation = 1, st_events = [],
      st_truncated = False, st_last_hash = genesis_hash sha, st_coalesced = None\<rparr>"

definition allocate_operation :: "operation_context option \<Rightarrow> store \<Rightarrow> operation_context \<times> store" where
  "allocate_operation parent st =
     (let i = st_next_operation st in
      (\<lparr>operation_id = i, parent_operation_id = map_option operation_id parent,
        correlation_id = (case parent of None \<Rightarrow> i | Some p \<Rightarrow> correlation_id p)\<rparr>,
       st\<lparr>st_next_operation := saturating_add i 1\<rparr>))"

definition begin_operation :: "store \<Rightarrow> operation_context \<times> store" where
  "begin_operation st = allocate_operation None st"

definition child_operation :: "operation_context \<Rightarrow> store \<Rightarrow> operation_context \<times> store" where
  "child_operation parent st = allocate_operation (Some parent) st"

text \<open>\<open>str::rsplit_once\<close> on a text: the last place where it starts.\<close>

fun rsplit_text :: "string \<Rightarrow> string \<Rightarrow> (string \<times> string) option" where
  "rsplit_text p [] = None"
| "rsplit_text p (c # cs) =
     (case rsplit_text p cs of
        Some (a, b) \<Rightarrow> Some (c # a, b)
      | None \<Rightarrow> map_option (\<lambda>r. ([], r)) (strip_prefix p (c # cs)))"

definition repeat_suffix :: string where
  "repeat_suffix = '' repeat_count=''"

definition coalesced_text :: "string option \<Rightarrow> string \<Rightarrow> string \<Rightarrow> string option" where
  "coalesced_text marker existing details =
     (let parsed = rsplit_text repeat_suffix existing;
          (base, count) = (case parsed of
             Some (a, b) \<Rightarrow> (a, (case parse_unsigned (2 ^ 32 - 1) b of Some n \<Rightarrow> n | None \<Rightarrow> 1))
           | None \<Rightarrow> (existing, 1));
          provenance_ok = (parsed = None \<or> marker = Some existing)
      in if base \<noteq> details \<or> \<not> provenance_ok then None
         else
           let next_count = min (min (count + 1) (2 ^ 32 - 1)) 999999
           in Some (truncate_text (base @ repeat_suffix @ dec next_count) MAX_FIELD_LENGTH))"

definition coalesce_repeated_layout_event :: "string \<Rightarrow> string \<Rightarrow> store \<Rightarrow> bool \<times> store" where
  "coalesce_repeated_layout_event name details st =
     (if st_events st = [] then (False, st)
      else
        let e = last (st_events st) in
        if ev_name e \<noteq> name then (False, st)
        else case coalesced_text (st_coalesced st) (ev_details e) details of
          None \<Rightarrow> (False, st)
        | Some d \<Rightarrow> (True, st\<lparr>st_events := butlast (st_events st) @ [e\<lparr>ev_details := d\<rparr>], st_coalesced := Some d\<rparr>))"

text \<open>The text that is stored: control characters replaced, truncated, and redacted with a count.\<close>

definition stored_details :: "string \<Rightarrow> (unit, string) result option" where
  "stored_details details =
     (let sanitized = sanitize details in
      map_option (map_sum id (\<lambda>(red, findings).
          if findings = [] then text_of red
          else truncate_text (text_of red @ '' pii_redacted='' @ dec (length findings)) MAX_FIELD_LENGTH))
        (sanitize_pii ''details'' (bytes_of sanitized)))"

definition remove_at :: "nat \<Rightarrow> 'a list \<Rightarrow> 'a list" where
  "remove_at i xs = take i xs @ drop (i + 1) xs"

text \<open>A new event at the end of the chain, and the step of the chain behind it.\<close>

definition chained_event :: "(bytes \<Rightarrow> bytes) \<Rightarrow> store \<Rightarrow> diagnostic_record \<Rightarrow> nat \<Rightarrow> string \<Rightarrow> string \<Rightarrow> diagnostic_event" where
  "chained_event sha st r elapsed name details =
     \<lparr>ev_sequence = st_next_sequence st, ev_elapsed = elapsed, ev_context = rec_context r, ev_phase = rec_phase r,
      ev_source = rec_source r, ev_outcome = rec_outcome r, ev_native = rec_native r, ev_name = name,
      ev_details = details, ev_prev_hash = st_last_hash st,
      ev_entry_hash = compute_entry_hash sha (st_last_hash st) (st_next_sequence st) elapsed name details\<rparr>"

definition advance_chain :: "diagnostic_event \<Rightarrow> store \<Rightarrow> store" where
  "advance_chain e st =
     st\<lparr>st_next_sequence := saturating_add (st_next_sequence st) 1, st_last_hash := ev_entry_hash e\<rparr>"

definition marker_record :: "diagnostic_record \<Rightarrow> diagnostic_record" where
  "marker_record r = \<lparr>rec_context = rec_context r, rec_phase = PhComplete, rec_source = SrcDiagnostic,
     rec_outcome = OutCompleted, rec_native = native_default\<rparr>"

definition make_room :: "(bytes \<Rightarrow> bytes) \<Rightarrow> diagnostic_record \<Rightarrow> nat \<Rightarrow> store \<Rightarrow> store" where
  "make_room sha r elapsed st =
     (if st_maximum st \<le> length (st_events st) then
        let st1 = st\<lparr>st_events := remove_at (if st_truncated st then 1 else 0) (st_events st)\<rparr>;
            st2 = (if st_truncated st then st1
                   else
                     let m = chained_event sha st1 (marker_record r) elapsed ''diagnostic.log_truncated''
                           (''retaining newest '' @ dec (st_maximum st - 1) @ '' events'')
                     in (advance_chain m st1)\<lparr>st_events := m # st_events st1, st_truncated := True\<rparr>)
        in if st_maximum st2 \<le> length (st_events st2) then st2\<lparr>st_events := remove_at 1 (st_events st2)\<rparr> else st2
      else st)"

definition append_event :: "(bytes \<Rightarrow> bytes) \<Rightarrow> diagnostic_record \<Rightarrow> nat \<Rightarrow> string \<Rightarrow> string \<Rightarrow> store \<Rightarrow> store" where
  "append_event sha r elapsed name details st =
     (let e = chained_event sha st r elapsed name details
      in (advance_chain e st)\<lparr>st_events := st_events st @ [e]\<rparr>)"

definition LAYOUT_ERROR :: string where
  "LAYOUT_ERROR = ''diagnostic.layout.error''"

definition store_event :: "(bytes \<Rightarrow> bytes) \<Rightarrow> nat \<times> nat \<Rightarrow> diagnostic_record \<Rightarrow> string \<Rightarrow> string \<Rightarrow> store \<Rightarrow> store" where
  "store_event sha clock r name details st =
     (let (coalesced, st1) =
            (if name = LAYOUT_ERROR then coalesce_repeated_layout_event name details st else (False, st))
      in if coalesced then st1
         else append_event sha r (snd clock) name details
                (make_room sha r (fst clock) (st\<lparr>st_coalesced := None\<rparr>)))"

definition record_with_context :: "(bytes \<Rightarrow> bytes) \<Rightarrow> nat \<times> nat \<Rightarrow> diagnostic_record \<Rightarrow> string \<Rightarrow> string \<Rightarrow> store
    \<Rightarrow> ((unit, unit) result \<times> store) option" where
  "record_with_context sha clock r name details st =
     map_option (\<lambda>res. case res of
         Inl u \<Rightarrow> (Err u, st)
       | Inr d \<Rightarrow> (Ok (), store_event sha clock r (sanitize name) d st)) (stored_details details)"

definition record_verification :: "(bytes \<Rightarrow> bytes) \<Rightarrow> nat \<times> nat \<Rightarrow> operation_context \<Rightarrow> diagnostic_source
    \<Rightarrow> diagnostic_outcome \<Rightarrow> string \<Rightarrow> string \<Rightarrow> store \<Rightarrow> ((unit, unit) result \<times> store) option" where
  "record_verification sha clock context source outcome name details st =
     record_with_context sha clock \<lparr>rec_context = context, rec_phase = PhVerify, rec_source = source,
       rec_outcome = outcome, rec_native = native_default\<rparr> name details st"

definition render_phase :: "string \<Rightarrow> string \<Rightarrow> diagnostic_phase" where
  "render_phase name details =
     (let v = to_ascii_lowercase (name @ '' '' @ details) in
      if contains_text ''window'' v \<or> contains_text ''layout'' v \<or> contains_text ''render'' v \<or> contains_text ''dpi'' v
      then PhRender else PhComplete)"

definition record_with_outcome :: "(bytes \<Rightarrow> bytes) \<Rightarrow> nat \<times> nat \<Rightarrow> string \<Rightarrow> string \<Rightarrow> diagnostic_outcome \<Rightarrow> store
    \<Rightarrow> ((unit, unit) result \<times> store) option" where
  "record_with_outcome sha clock name details outcome st =
     (let (context, st1) = begin_operation st in
      record_with_context sha clock \<lparr>rec_context = context, rec_phase = render_phase name details,
        rec_source = SrcInternal, rec_outcome = outcome, rec_native = native_default\<rparr> name details st1)"

definition record_event :: "(bytes \<Rightarrow> bytes) \<Rightarrow> nat \<times> nat \<Rightarrow> string \<Rightarrow> string \<Rightarrow> store \<Rightarrow> ((unit, unit) result \<times> store) option" where
  "record_event sha clock name details st =
     record_with_outcome sha clock name details (derive_outcome name details) st"

definition snapshot_is_truncated :: "diagnostic_event list \<Rightarrow> bool" where
  "snapshot_is_truncated es = (es \<noteq> [] \<and> ev_name (hd es) = ''diagnostic.log_truncated'')"

section \<open>Operations in any order\<close>

datatype store_op =
    OpBegin
  | OpChild operation_context
  | OpRecordContext "nat \<times> nat" diagnostic_record string string
  | OpVerification "nat \<times> nat" operation_context diagnostic_source diagnostic_outcome string string
  | OpRecordOutcome "nat \<times> nat" string string diagnostic_outcome
  | OpRecord "nat \<times> nat" string string

fun store_step :: "(bytes \<Rightarrow> bytes) \<Rightarrow> store_op \<Rightarrow> store \<Rightarrow> store option" where
  "store_step sha OpBegin st = Some (snd (begin_operation st))"
| "store_step sha (OpChild p) st = Some (snd (child_operation p st))"
| "store_step sha (OpRecordContext t r n d) st = map_option snd (record_with_context sha t r n d st)"
| "store_step sha (OpVerification t c s x n d) st = map_option snd (record_verification sha t c s x n d st)"
| "store_step sha (OpRecordOutcome t n d x) st = map_option snd (record_with_outcome sha t n d x st)"
| "store_step sha (OpRecord t n d) st = map_option snd (record_event sha t n d st)"

fun store_run :: "(bytes \<Rightarrow> bytes) \<Rightarrow> store_op list \<Rightarrow> store \<Rightarrow> store option" where
  "store_run sha [] st = Some st"
| "store_run sha (op # ops) st = Option.bind (store_step sha op st) (store_run sha ops)"

text \<open>The name and the text an operation stores; nothing when it records nothing or panics.\<close>

definition text_recorded :: "string \<Rightarrow> string \<Rightarrow> (string \<times> string) option" where
  "text_recorded n d = (case stored_details d of Some (Inr t) \<Rightarrow> Some (sanitize n, t) | _ \<Rightarrow> None)"

fun op_text :: "store_op \<Rightarrow> (string \<times> string) option" where
  "op_text (OpRecordContext t r n d) = text_recorded n d"
| "op_text (OpVerification t c s x n d) = text_recorded n d"
| "op_text (OpRecordOutcome t n d x) = text_recorded n d"
| "op_text (OpRecord t n d) = text_recorded n d"
| "op_text _ = None"

lemma stored_details_returns: "\<exists>r. stored_details d = Some r"
proof -
  let ?bs = "bytes_of (sanitize d)"
  have "\<exists>r. collect_spans ?bs = Some r"
  proof (cases "account_at_start ?bs")
    case True
    then show ?thesis
      using collect_cases(1) by blast
  next
    case False
    then show ?thesis
      using collect_cases(2) by (auto simp: collect_spans_def)
  qed
  then show ?thesis
    by (auto simp: stored_details_def sanitize_pii_def Let_def)
qed

lemma record_view:
  "\<exists>res. record_with_context sha t r n d st = Some res
     \<and> snd res = (case text_recorded n d of None \<Rightarrow> st | Some (m, x) \<Rightarrow> store_event sha t r m x st)"
proof -
  obtain x where "stored_details d = Some x"
    using stored_details_returns by blast
  then show ?thesis
    by (cases x) (simp_all add: record_with_context_def text_recorded_def)
qed

lemma step_view:
  "\<exists>st' k. store_step sha op st = Some st' \<and>
     (case op_text op of
        None \<Rightarrow> st' = st\<lparr>st_next_operation := k\<rparr>
      | Some (n, d) \<Rightarrow> \<exists>t r. st' = store_event sha t r n d (st\<lparr>st_next_operation := k\<rparr>))"
proof -
  have recorded: "\<exists>st' k. map_option snd (record_with_context sha t r n d (st\<lparr>st_next_operation := i\<rparr>)) = Some st' \<and>
     (case text_recorded n d of
        None \<Rightarrow> st' = st\<lparr>st_next_operation := k\<rparr>
      | Some (n, d) \<Rightarrow> \<exists>t r. st' = store_event sha t r n d (st\<lparr>st_next_operation := k\<rparr>))" for t r n d i
  proof -
    obtain res where "record_with_context sha t r n d (st\<lparr>st_next_operation := i\<rparr>) = Some res"
      "snd res = (case text_recorded n d of None \<Rightarrow> st\<lparr>st_next_operation := i\<rparr>
         | Some (m, x) \<Rightarrow> store_event sha t r m x (st\<lparr>st_next_operation := i\<rparr>))"
      using record_view by blast
    then show ?thesis
      by (intro exI [of _ "snd res"] exI [of _ i]) (auto split: option.splits simp del: split_paired_Ex)
  qed
  have same: "st = st\<lparr>st_next_operation := st_next_operation st\<rparr>"
    by simp
  show ?thesis
  proof (cases op)
    case (OpRecordContext t r n d)
    then show ?thesis
      using recorded [of t r n d "st_next_operation st"] by simp
  next
    case (OpVerification t c s x n d)
    then show ?thesis
      using recorded [of t _ n d "st_next_operation st"] by (simp add: record_verification_def)
  next
    case (OpRecordOutcome t n d x)
    then show ?thesis
      using recorded
      by (simp add: record_with_outcome_def begin_operation_def allocate_operation_def Let_def)
  next
    case (OpRecord t n d)
    then show ?thesis
      using recorded
      by (simp add: record_event_def record_with_outcome_def begin_operation_def allocate_operation_def Let_def)
  qed (auto simp: begin_operation_def child_operation_def allocate_operation_def Let_def)
qed

section \<open>The store keeps the newest events\<close>

text \<open>
  The specification: a log of all that was recorded, without a bound, in which a repeated layout error
  rewrites the last entry.
\<close>

type_synonym log = "(string \<times> string) list \<times> string option"

fun log_store :: "string \<times> string \<Rightarrow> log \<Rightarrow> log" where
  "log_store (n, d) (l, c) =
     (case (if n = LAYOUT_ERROR \<and> l \<noteq> [] \<and> fst (last l) = n then coalesced_text c (snd (last l)) d else None) of
        Some t \<Rightarrow> (butlast l @ [(n, t)], Some t)
      | None \<Rightarrow> (l @ [(n, d)], None))"

fun log_run :: "store_op list \<Rightarrow> log \<Rightarrow> log" where
  "log_run [] l = l"
| "log_run (op # ops) l = log_run ops (case op_text op of None \<Rightarrow> l | Some x \<Rightarrow> log_store x l)"

definition marker_text :: "nat \<Rightarrow> string \<times> string" where
  "marker_text m = (''diagnostic.log_truncated'', ''retaining newest '' @ dec (m - 1) @ '' events'')"

text \<open>What a store for \<open>m\<close> events shows of a log: all of it, or the marker and the newest \<open>m - 1\<close> entries.\<close>

definition retained :: "nat \<Rightarrow> (string \<times> string) list \<Rightarrow> (string \<times> string) list" where
  "retained m l = (if length l \<le> m then l else marker_text m # drop (length l - (m - 1)) l)"

definition event_text :: "diagnostic_event \<Rightarrow> string \<times> string" where
  "event_text e = (ev_name e, ev_details e)"

definition represents :: "store \<Rightarrow> log \<Rightarrow> bool" where
  "represents st lc \<longleftrightarrow> map event_text (st_events st) = retained (st_maximum st) (fst lc) \<and> st_coalesced st = snd lc
     \<and> (st_truncated st \<longleftrightarrow> st_maximum st < length (fst lc)) \<and> 2 \<le> st_maximum st"

lemma map_remove_at: "map f (remove_at i xs) = remove_at i (map f xs)"
  by (simp add: remove_at_def take_map drop_map)

lemma event_text_chained [simp]: "event_text (chained_event sha st r t n d) = (n, d)"
  by (simp add: event_text_def chained_event_def)

lemma store_frames [simp]:
  "st_maximum (advance_chain e st) = st_maximum st" "st_truncated (advance_chain e st) = st_truncated st"
  "st_events (advance_chain e st) = st_events st" "st_coalesced (advance_chain e st) = st_coalesced st"
  "st_maximum (make_room sha r t st) = st_maximum st" "st_coalesced (make_room sha r t st) = st_coalesced st"
  "st_maximum (append_event sha r t n d st) = st_maximum st" "st_coalesced (append_event sha r t n d st) = st_coalesced st"
  by (auto simp: advance_chain_def make_room_def append_event_def Let_def)

lemma retained_last: "l \<noteq> [] \<Longrightarrow> 2 \<le> m \<Longrightarrow> retained m l \<noteq> [] \<and> last (retained m l) = last l"
  by (auto simp: retained_def last_drop)

lemma retained_rewrite:
  "l \<noteq> [] \<Longrightarrow> 2 \<le> m \<Longrightarrow> retained m (butlast l @ [x]) = butlast (retained m l) @ [x]"
  by (cases l rule: rev_cases) (auto simp: retained_def)

lemma room_texts:
  assumes "represents st (l, c)"
  shows "map event_text (st_events (make_room sha r t st)) @ [x] = retained (st_maximum st) (l @ [x])
    \<and> (st_truncated (make_room sha r t st) \<longleftrightarrow> st_maximum st < length (l @ [x]))"
proof -
  let ?m = "st_maximum st"
  have m: "2 \<le> ?m" and texts: "map event_text (st_events st) = retained ?m l"
    and trunc: "st_truncated st \<longleftrightarrow> ?m < length l"
    using assms by (auto simp: represents_def)
  have len: "length (st_events st) = length (retained ?m l)"
    using texts by (metis length_map)
  consider "length l < ?m" | "length l = ?m" | "?m < length l" by linarith
  then show ?thesis
  proof cases
    case 1
    then show ?thesis
      using texts trunc len by (simp add: make_room_def retained_def)
  next
    case 2
    then obtain a b ls where l: "l = a # b # ls"
      using m by (cases l; cases "tl l") auto
    then obtain ea eb es where es: "st_events st = ea # eb # es" "map event_text es = ls"
      using texts 2 by (auto simp: retained_def map_eq_Cons_conv)
    moreover have "length es = length ls"
      using es(2) by auto
    ultimately show ?thesis
      using 2 l trunc texts
      by (simp add: make_room_def Let_def remove_at_def retained_def marker_text_def)
  next
    case 3
    then have kept: "map event_text (st_events st) = marker_text ?m # drop (length l - (?m - 1)) l"
      using texts by (simp add: retained_def)
    then obtain e0 es where es: "st_events st = e0 # es" "event_text e0 = marker_text ?m"
        "map event_text es = drop (length l - (?m - 1)) l"
      by (auto simp: map_eq_Cons_conv)
    have "length es = ?m - 1"
      using es(3) 3 m by (metis diff_diff_cancel length_drop length_map less_imp_le_nat le_diff_conv2 diff_le_self le_trans)
    moreover have "map event_text (tl es) = drop (length l + 1 - (?m - 1)) l"
      using es(3) 3 m by (simp add: map_tl tl_drop drop_Suc Suc_diff_le)
    ultimately show ?thesis
      using es 3 trunc m
      by (auto simp: make_room_def Let_def remove_at_def retained_def drop_Suc)
  qed
qed

lemma store_event_refines:
  assumes "represents st lc"
  shows "represents (store_event sha t r n d st) (log_store (n, d) lc)
    \<and> st_maximum (store_event sha t r n d st) = st_maximum st"
proof -
  obtain l c where lc: "lc = (l, c)"
    by (cases lc)
  have m: "2 \<le> st_maximum st" and texts: "map event_text (st_events st) = retained (st_maximum st) l"
    and c: "st_coalesced st = c" and trunc: "st_truncated st \<longleftrightarrow> st_maximum st < length l"
    using assms lc by (auto simp: represents_def)
  have nil: "st_events st = [] \<longleftrightarrow> l = []"
    using texts retained_last [OF _ m, of l] by (cases "l = []") (auto simp: retained_def)
  have lasts: "event_text (last (st_events st)) = last l" if "l \<noteq> []"
    using that nil texts retained_last [OF that m] by (metis last_map)
  define rewritten where "rewritten = (if n = LAYOUT_ERROR \<and> l \<noteq> [] \<and> fst (last l) = n
      then coalesced_text c (snd (last l)) d else None)"
  show ?thesis
  proof (cases rewritten)
    case None
    have "store_event sha t r n d st
        = append_event sha r (snd t) n d (make_room sha r (fst t) (st\<lparr>st_coalesced := None\<rparr>))"
      using None nil lasts c
      by (auto simp: store_event_def coalesce_repeated_layout_event_def rewritten_def event_text_def Let_def
          split: if_splits option.splits) (metis fst_conv snd_conv option.distinct(1))+
    moreover have "represents (st\<lparr>st_coalesced := None\<rparr>) (l, None)"
      using assms lc by (simp add: represents_def)
    from room_texts [OF this, of sha r "fst t" "(n, d)"]
    have "represents (append_event sha r (snd t) n d (make_room sha r (fst t) (st\<lparr>st_coalesced := None\<rparr>))) (l @ [(n, d)], None)"
      using m by (simp add: represents_def append_event_def Let_def)
    moreover have "log_store (n, d) lc = (l @ [(n, d)], None)"
      using None by (simp add: lc rewritten_def)
    ultimately show ?thesis
      by simp
  next
    case (Some x)
    then have n: "n = LAYOUT_ERROR" "l \<noteq> []" "fst (last l) = n" "coalesced_text c (snd (last l)) d = Some x"
      by (auto simp: rewritten_def split: if_splits)
    then have st': "store_event sha t r n d st
        = st\<lparr>st_events := butlast (st_events st) @ [(last (st_events st))\<lparr>ev_details := x\<rparr>], st_coalesced := Some x\<rparr>"
      using lasts nil c
      by (auto simp: store_event_def coalesce_repeated_layout_event_def event_text_def Let_def dest: sym)
    have "log_store (n, d) lc = (butlast l @ [(n, x)], Some x)"
      using Some by (simp add: lc rewritten_def)
    moreover have "map event_text (st_events (store_event sha t r n d st)) = retained (st_maximum st) (butlast l @ [(n, x)])"
      using retained_rewrite [OF n(2) m, of "(n, x)"] texts lasts [OF n(2)] n(3)
      by (auto simp: st' map_butlast event_text_def dest: sym)
    moreover have "length (butlast l @ [(n, x)]) = length l"
      using n(2) by simp
    ultimately show ?thesis
      using m trunc by (simp add: represents_def st')
  qed
qed

lemma run_refines:
  assumes "represents st lc"
  shows "\<exists>st'. store_run sha ops st = Some st' \<and> represents st' (log_run ops lc) \<and> st_maximum st' = st_maximum st"
  using assms
proof (induction ops arbitrary: st lc)
  case (Cons op ops)
  obtain st1 k where step: "store_step sha op st = Some st1"
    "case op_text op of None \<Rightarrow> st1 = st\<lparr>st_next_operation := k\<rparr>
     | Some (n, d) \<Rightarrow> \<exists>t r. st1 = store_event sha t r n d (st\<lparr>st_next_operation := k\<rparr>)"
    using step_view by blast
  have "represents (st\<lparr>st_next_operation := k\<rparr>) lc"
    using Cons.prems by (simp add: represents_def)
  then have "represents st1 (case op_text op of None \<Rightarrow> lc | Some x \<Rightarrow> log_store x lc) \<and> st_maximum st1 = st_maximum st"
    using step(2) store_event_refines [of "st\<lparr>st_next_operation := k\<rparr>" lc sha] 
    by (auto split: option.splits prod.splits)
  then show ?case
    using Cons.IH [of st1 "case op_text op of None \<Rightarrow> lc | Some x \<Rightarrow> log_store x lc"] step(1) by simp
qed simp

lemma represents_new: "represents (store_new sha m) ([], None)"
  using clamp_bounds [of 2 HARD_MAX_EVENTS m]
  by (simp add: represents_def store_new_def retained_def HARD_MAX_EVENTS_def)

lemma retained_length: "2 \<le> m \<Longrightarrow> length (retained m l) = min m (length l)"
  by (auto simp: retained_def)

text \<open>C16: The bounded store refines an unbounded log. Whatever operations are performed on a new store, in any
  order and whether or not some of them panic, they all return and the store shows exactly the log of
  what was recorded while the log fits, and otherwise the truncation marker followed by the newest
  entries; it never holds more events than its maximum, which is between 2 and 512.\<close>

theorem store_refines_log:
  "\<exists>st m. store_run sha ops (store_new sha maximum) = Some st \<and> m = clamp maximum 2 HARD_MAX_EVENTS
     \<and> map event_text (st_events st) = retained m (fst (log_run ops ([], None)))
     \<and> length (st_events st) \<le> m \<and> 2 \<le> m \<and> m \<le> 512"
proof -
  obtain st where st: "store_run sha ops (store_new sha maximum) = Some st" "represents st (log_run ops ([], None))"
      "st_maximum st = clamp maximum 2 HARD_MAX_EVENTS"
    using run_refines [OF represents_new] by (fastforce simp: store_new_def)
  then have texts: "map event_text (st_events st)
      = retained (clamp maximum 2 HARD_MAX_EVENTS) (fst (log_run ops ([], None)))"
    by (simp add: represents_def)
  moreover have "2 \<le> clamp maximum 2 HARD_MAX_EVENTS" "clamp maximum 2 HARD_MAX_EVENTS \<le> 512"
    using clamp_bounds [of 2 HARD_MAX_EVENTS maximum] by (simp_all add: HARD_MAX_EVENTS_def)
  moreover have "length (st_events st) \<le> clamp maximum 2 HARD_MAX_EVENTS"
    using texts calculation(2) by (metis length_map min.cobounded1 retained_length)
  ultimately show ?thesis
    using st(1) by blast
qed

section \<open>The hash chain\<close>

text \<open>
  The events of a store as a set: sequence numbers below the next one, hashes that match the
  contents, except for rewritten layout errors where those are allowed for, and links between events that follow each other.
\<close>

definition linked :: "(bytes \<Rightarrow> bytes) \<Rightarrow> bool \<Rightarrow> u64 \<Rightarrow> bytes \<Rightarrow> diagnostic_event set \<Rightarrow> bool" where
  "linked sha w n h S \<longleftrightarrow>
     (\<forall>e\<in>S. unat (ev_sequence e) < unat n \<and> (unat (ev_sequence e) + 1 = unat n \<longrightarrow> ev_entry_hash e = h)
        \<and> (ev_entry_hash e = expected_hash sha e \<or> w \<and> ev_name e = LAYOUT_ERROR))
     \<and> (\<forall>a\<in>S. \<forall>b\<in>S. unat (ev_sequence b) = unat (ev_sequence a) + 1 \<longrightarrow> ev_prev_hash b = ev_entry_hash a)"

definition chained :: "(bytes \<Rightarrow> bytes) \<Rightarrow> bool \<Rightarrow> store \<Rightarrow> bool" where
  "chained sha w st \<longleftrightarrow> linked sha w (st_next_sequence st) (st_last_hash st) (set (st_events st))"

lemma linked_mono: "linked sha w n h S \<Longrightarrow> T \<subseteq> S \<Longrightarrow> linked sha w n h T"
  unfolding linked_def by blast

lemma linked_add:
  assumes "linked sha w (st_next_sequence st) (st_last_hash st) S" and "unat (st_next_sequence st) + 1 < 2 ^ 64"
  shows "linked sha w (st_next_sequence (advance_chain (chained_event sha st r t n d) st))
    (st_last_hash (advance_chain (chained_event sha st r t n d) st)) (insert (chained_event sha st r t n d) S)"
proof -
  have succ: "unat (saturating_add (st_next_sequence st) 1) = unat (st_next_sequence st) + 1"
    using assms(2) by (simp add: rust_arith)
  show ?thesis
    using assms(1) unfolding linked_def advance_chain_def
    by (auto simp: succ chained_event_def expected_hash_def)
qed

lemma advance_next: "unat (st_next_sequence st) + 1 < 2 ^ 64 \<Longrightarrow>
    unat (st_next_sequence (advance_chain e st)) = unat (st_next_sequence st) + 1"
  by (simp add: advance_chain_def rust_arith)

lemma set_remove_at: "set (remove_at i xs) \<subseteq> set xs"
  unfolding remove_at_def using set_take_subset set_drop_subset by fastforce

lemma chained_shrink: "chained sha w st \<Longrightarrow> set es \<subseteq> set (st_events st) \<Longrightarrow> chained sha w (st\<lparr>st_events := es\<rparr>)"
  unfolding chained_def using linked_mono by fastforce

lemma chained_grow:
  assumes "chained sha w st" and "unat (st_next_sequence st) + 1 < 2 ^ 64"
    and "set es = insert (chained_event sha st r t n d) (set (st_events st))"
  shows "chained sha w ((advance_chain (chained_event sha st r t n d) st)\<lparr>st_events := es\<rparr>)"
  using linked_add [OF assms(1) [unfolded chained_def] assms(2), of r t n d] assms(3) by (simp add: chained_def)

lemma chained_other [simp]:
  "chained sha w (st\<lparr>st_coalesced := c\<rparr>) = chained sha w st"
  "chained sha w (st\<lparr>st_next_operation := k\<rparr>) = chained sha w st"
  "chained sha w (st\<lparr>st_truncated := b\<rparr>) = chained sha w st"
  by (simp_all add: chained_def)

lemma room_chained:
  assumes "chained sha w st" and "unat (st_next_sequence st) + 1 < 2 ^ 64"
  shows "chained sha w (make_room sha r t st)
    \<and> unat (st_next_sequence (make_room sha r t st)) \<le> unat (st_next_sequence st) + 1"
proof (cases "st_maximum st \<le> length (st_events st)")
  case True
  define st1 where "st1 = st\<lparr>st_events := remove_at (if st_truncated st then 1 else 0) (st_events st)\<rparr>"
  define m where "m = chained_event sha st1 (marker_record r) t ''diagnostic.log_truncated''
      (''retaining newest '' @ dec (st_maximum st - 1) @ '' events'')"
  define st2 where "st2 = (if st_truncated st then st1
      else (advance_chain m st1)\<lparr>st_events := m # st_events st1, st_truncated := True\<rparr>)"
  have st1: "chained sha w st1" "st_next_sequence st1 = st_next_sequence st"
    using chained_shrink [OF assms(1) set_remove_at] by (simp_all add: st1_def)
  have st2: "chained sha w st2 \<and> unat (st_next_sequence st2) \<le> unat (st_next_sequence st) + 1"
  proof (cases "st_truncated st")
    case False
    have "chained sha w ((advance_chain m st1)\<lparr>st_events := m # st_events st1\<rparr>)"
      unfolding m_def by (rule chained_grow) (use st1 assms(2) in auto)
    then have "chained sha w st2"
      using False by (simp add: st2_def chained_def)
    then show ?thesis
      using False assms(2) st1(2) advance_next [of st1 m] by (simp add: st2_def)
  qed (use st1 in \<open>simp add: st2_def\<close>)
  have "make_room sha r t st
      = (if st_maximum st2 \<le> length (st_events st2) then st2\<lparr>st_events := remove_at 1 (st_events st2)\<rparr> else st2)"
    using True by (simp add: make_room_def st1_def m_def st2_def Let_def)
  then show ?thesis
    using st2 chained_shrink [OF _ set_remove_at, of sha w st2 1] by simp
qed (use assms in \<open>simp add: make_room_def\<close>)

lemma append_chained:
  assumes "chained sha w st" and "unat (st_next_sequence st) + 1 < 2 ^ 64"
  shows "chained sha w (append_event sha r t n d st)
    \<and> unat (st_next_sequence (append_event sha r t n d st)) = unat (st_next_sequence st) + 1"
  unfolding append_event_def Let_def
  using chained_grow [OF assms, of "st_events st @ [chained_event sha st r t n d]" r t n d] advance_next [OF assms(2)] by simp

lemma rewrite_chained:
  assumes "chained sha True st" and "st_events st \<noteq> []" and "ev_name (last (st_events st)) = LAYOUT_ERROR"
  shows "chained sha True (st\<lparr>st_events := butlast (st_events st) @ [(last (st_events st))\<lparr>ev_details := d\<rparr>]\<rparr>)"
proof -
  let ?e = "last (st_events st)"
  have "?e \<in> set (st_events st)" "set (butlast (st_events st)) \<subseteq> set (st_events st)"
    using assms(2) by (auto dest: in_set_butlastD)
  then have "linked sha True (st_next_sequence st) (st_last_hash st) (insert (?e\<lparr>ev_details := d\<rparr>) (set (butlast (st_events st))))"
    using assms(1,3) unfolding chained_def linked_def by (auto simp: subset_iff)
  then show ?thesis
    by (simp add: chained_def)
qed

lemma store_event_chained:
  assumes "chained sha w st" and "unat (st_next_sequence st) + 2 < 2 ^ 64" and "w \<or> n \<noteq> LAYOUT_ERROR"
  shows "chained sha w (store_event sha t r n d st)
    \<and> unat (st_next_sequence (store_event sha t r n d st)) \<le> unat (st_next_sequence st) + 2"
proof -
  let ?room = "make_room sha r (fst t) (st\<lparr>st_coalesced := None\<rparr>)"
  have room: "chained sha w ?room" "unat (st_next_sequence ?room) \<le> unat (st_next_sequence st) + 1"
    using room_chained [of sha w "st\<lparr>st_coalesced := None\<rparr>" r "fst t"] assms(1,2) by simp_all
  have plain: ?thesis if "store_event sha t r n d st = append_event sha r (snd t) n d ?room"
    using append_chained [OF room(1), of r "snd t" n d] room(2) assms(2) that by simp
  show ?thesis
  proof (cases "n = LAYOUT_ERROR \<and> fst (coalesce_repeated_layout_event n d st)")
    case True
    then obtain x where "store_event sha t r n d st
        = st\<lparr>st_events := butlast (st_events st) @ [(last (st_events st))\<lparr>ev_details := x\<rparr>], st_coalesced := Some x\<rparr>"
        "st_events st \<noteq> []" "ev_name (last (st_events st)) = LAYOUT_ERROR"
      by (auto simp: store_event_def coalesce_repeated_layout_event_def Let_def split: if_splits option.splits)
    then show ?thesis
      using rewrite_chained [of sha st x] assms(1,3) True by (simp add: chained_def)
  next
    case False
    then show ?thesis
      by (intro plain) (auto simp: store_event_def split: prod.splits)
  qed
qed

lemma run_chained:
  assumes "chained sha w st" and "unat (st_next_sequence st) + 2 * length ops + 1 < 2 ^ 64"
    and "w \<or> (\<forall>op\<in>set ops. \<forall>x. op_text op = Some x \<longrightarrow> fst x \<noteq> LAYOUT_ERROR)"
    and "store_run sha ops st = Some st'"
  shows "chained sha w st'"
  using assms
proof (induction ops arbitrary: st)
  case (Cons op ops)
  obtain st1 k where step: "store_step sha op st = Some st1"
    "case op_text op of None \<Rightarrow> st1 = st\<lparr>st_next_operation := k\<rparr>
     | Some (n, d) \<Rightarrow> \<exists>t r. st1 = store_event sha t r n d (st\<lparr>st_next_operation := k\<rparr>)"
    using step_view by blast
  have "chained sha w st1 \<and> unat (st_next_sequence st1) \<le> unat (st_next_sequence st) + 2"
  proof (cases "op_text op")
    case (Some x)
    then obtain t r where "st1 = store_event sha t r (fst x) (snd x) (st\<lparr>st_next_operation := k\<rparr>)"
      using step(2) by (cases x) auto
    moreover have "w \<or> fst x \<noteq> LAYOUT_ERROR"
      using Cons.prems(3) Some by (cases x) auto
    ultimately show ?thesis
      using store_event_chained [of sha w "st\<lparr>st_next_operation := k\<rparr>" "fst x" t r "snd x"] Cons.prems(1,2) by simp
  qed (use step Cons.prems(1) in simp)
  then show ?case
    using Cons.IH [of st1] Cons.prems(2-4) step(1) by (cases w) simp_all
qed simp

lemma verify_from_linked:
  assumes "linked sha w n h (set es \<union> set_option before)"
  shows "verify_from sha i before es = Ok ()
    \<or> w \<and> (\<exists>j<length es. verify_from sha i before es = Err (i + j, ''entry hash mismatch'') \<and> ev_name (es ! j) = LAYOUT_ERROR)"
  using assms
proof (induction es arbitrary: i before)
  case (Cons e es)
  have rest: "linked sha w n h (set es \<union> set_option (Some e))"
    using Cons.prems by (rule linked_mono) auto
  have link: "ev_entry_hash p = ev_prev_hash e"
    if "before = Some p" "ev_sequence e = saturating_add (ev_sequence p) 1" for p
  proof -
    have "unat (ev_sequence p) < unat n"
      using Cons.prems that(1) by (simp add: linked_def)
    then have "unat (ev_sequence e) = unat (ev_sequence p) + 1"
      using that(2) unat_lt_power [of n] by (simp add: rust_arith)
    then show ?thesis
      using Cons.prems that(1) by (simp add: linked_def)
  qed
  show ?case
  proof (cases "ev_entry_hash e = expected_hash sha e")
    case True
    then have "verify_from sha i before (e # es) = verify_from sha (i + 1) (Some e) es"
      using link by (auto split: option.splits)
    then show ?thesis
      using Cons.IH [OF rest, of "i + 1"] by (auto intro: exI [of _ "Suc _"])
  next
    case False
    then show ?thesis
      using Cons.prems by (auto simp: linked_def)
  qed
qed simp

lemma chained_new: "chained sha w (store_new sha m)"
  by (simp add: chained_def linked_def store_new_def)

text \<open>C17: The hash chain of a snapshot. After fewer than two to the sixty-second operations on a new store, in any
  order and with the evictions of the bounded store, verification of the snapshot never reports a broken
  link; it succeeds whenever no layout error was recorded, and an entry it rejects is a
  layout error.\<close>

theorem event_chain_verifies:
  assumes "length ops < 2 ^ 62"
  shows "\<exists>st. store_run sha ops (store_new sha maximum) = Some st \<and>
    (let es = st_events st; checked = verify_event_chain sha es in
      (checked = Ok ()
        \<or> (\<exists>i<length es. checked = Err (i, ''entry hash mismatch'') \<and> ev_name (es ! i) = LAYOUT_ERROR))
      \<and> ((\<forall>op\<in>set ops. \<forall>n d. op_text op = Some (n, d) \<longrightarrow> n \<noteq> LAYOUT_ERROR) \<longrightarrow> checked = Ok ()))"
proof -
  obtain st where st: "store_run sha ops (store_new sha maximum) = Some st"
    using run_refines [OF represents_new] by blast
  have room: "unat (st_next_sequence (store_new sha maximum)) + 2 * length ops + 1 < 2 ^ 64"
    using assms by (simp add: store_new_def)
  have chain: "chained sha w st" if "w \<or> (\<forall>op\<in>set ops. \<forall>x. op_text op = Some x \<longrightarrow> fst x \<noteq> LAYOUT_ERROR)" for w
    using run_chained [OF chained_new room that st] .
  have checked: "verify_event_chain sha (st_events st) = Ok ()
      \<or> w \<and> (\<exists>j<length (st_events st). verify_event_chain sha (st_events st) = Err (j, ''entry hash mismatch'')
           \<and> ev_name (st_events st ! j) = LAYOUT_ERROR)" if "chained sha w st" for w
    using verify_from_linked [of sha w _ _ "st_events st" None 0] that
    by (auto simp: chained_def verify_event_chain_def)
  show ?thesis
    using st checked [OF chain [of True]] checked [OF chain [of False]] by (auto simp: Let_def)
qed

definition sample_records :: "store_op list" where
  "sample_records = map (\<lambda>n. OpRecord (n, n + 1) ''timer.start'' ''ok'') [1, 2, 3]"

lemma sample_record_text: "text_recorded ''timer.start'' ''ok'' = Some (''timer.start'', ''ok'')"
  by code_simp

theorem event_chain_verifies_witness:
  "\<exists>st. store_run id sample_records (store_new id 2) = Some st \<and> verify_event_chain id (st_events st) = Ok ()"
  using event_chain_verifies [of sample_records id 2]
  by (auto simp: sample_records_def Let_def sample_record_text LAYOUT_ERROR_def)

lemma verify_from_snoc:
  "verify_from sha i before (es @ [e]) =
     (case verify_from sha i before es of
        Inl x \<Rightarrow> Inl x
      | Inr u \<Rightarrow> verify_from sha (i + length es) (if es = [] then before else Some (last es)) [e])"
proof (induction es arbitrary: i before)
  case (Cons a es)
  have "Some (last (a # es)) = (if es = [] then Some a else Some (last es))"
    by simp
  then show ?case
    unfolding append_Cons verify_from.simps(2) [of sha i before a] Cons.IH
    by (simp del: verify_from.simps split: option.split sum.split)
qed simp

text \<open>A repeated layout error breaks the chain. When the details of the last event are rewritten with a
  repeat count, its hash is not computed again: a snapshot that verified before is rejected
  afterwards at that event, unless the hash function collides on the old and the new text.\<close>

theorem coalescing_breaks_chain:
  assumes "verify_event_chain sha (st_events st) = Ok ()"
    and "coalesce_repeated_layout_event name details st = (True, st')"
    and "expected_hash sha (last (st_events st')) \<noteq> expected_hash sha (last (st_events st))"
  shows "verify_event_chain sha (st_events st') = Err (length (st_events st) - 1, ''entry hash mismatch'')"
proof -
  obtain es e where es: "st_events st = es @ [e]"
    using assms(2) by (cases "st_events st" rule: rev_cases) (auto simp: coalesce_repeated_layout_event_def)
  then obtain d where st': "st_events st' = es @ [e\<lparr>ev_details := d\<rparr>]"
    using assms(2) by (auto simp: coalesce_repeated_layout_event_def Let_def split: if_splits option.splits)
  have "verify_from sha 0 None es = Ok ()" "ev_entry_hash e = expected_hash sha e"
    using assms(1) by (auto simp: verify_event_chain_def es verify_from_snoc split: sum.splits if_splits)
  then show ?thesis
    using assms(3) by (simp add: verify_event_chain_def es st' verify_from_snoc)
qed

definition sample_layout_event :: diagnostic_event where
  "sample_layout_event = chained_event id (store_new id 2) \<lparr>rec_context = \<lparr>operation_id = 1, parent_operation_id = None,
      correlation_id = 1\<rparr>, rec_phase = PhRender, rec_source = SrcInternal, rec_outcome = OutFailed,
      rec_native = native_default\<rparr> 2 LAYOUT_ERROR ''dpi''"

definition sample_layout_store :: store where
  "sample_layout_store = (advance_chain sample_layout_event (store_new id 2))\<lparr>st_events := [sample_layout_event]\<rparr>"

lemma sample_repeat: "coalesced_text c ''dpi'' ''dpi'' = Some ''dpi repeat_count=2''"
proof -
  have "dec (Suc (Suc 0)) = ''2''"
    by code_simp
  then show ?thesis
    by (simp add: coalesced_text_def repeat_suffix_def truncate_text_def truncate_utf8_def MAX_FIELD_LENGTH_def)
qed

lemma sample_layout_coalesces:
  "coalesce_repeated_layout_event LAYOUT_ERROR ''dpi'' sample_layout_store
    = (True, sample_layout_store\<lparr>st_events := [sample_layout_event\<lparr>ev_details := ''dpi repeat_count=2''\<rparr>],
        st_coalesced := Some ''dpi repeat_count=2''\<rparr>)"
  by (simp add: coalesce_repeated_layout_event_def sample_layout_store_def sample_layout_event_def
      chained_event_def sample_repeat)

theorem coalescing_breaks_chain_witness:
  "verify_event_chain id (st_events (snd (coalesce_repeated_layout_event LAYOUT_ERROR ''dpi'' sample_layout_store)))
   = Err (0, ''entry hash mismatch'')"
proof -
  have "expected_hash id (sample_layout_event\<lparr>ev_details := ''dpi repeat_count=2''\<rparr>) \<noteq> expected_hash id sample_layout_event"
    by (simp add: expected_hash_def compute_entry_hash_def sample_layout_event_def chained_event_def bytes_of_def)
  then show ?thesis
    using coalescing_breaks_chain [OF _ sample_layout_coalesces, of id]
    by (simp add: sample_layout_coalesces)
      (simp add: sample_layout_store_def verify_event_chain_def sample_layout_event_def chained_event_def expected_hash_def)
qed

end
