(* ===== verification/Report.thy ===== *)
theory Report
  imports Diagnostics
begin

text \<open>
  Model of the reports of \<open>crates/tick-diagnostics/src/lib.rs\<close>: labels, the selection of rows by number and
  by sequence, the rows of the grid, and the tab separated, comma separated and line forms of an event.

  Row numbers are natural numbers: every operation on them stays below the number of retained rows or
  compares with it. Whether the first character of a text is alphabetic is a Unicode table, taken as a
  parameter.
\<close>

section \<open>Labels\<close>

datatype evidence = NotCollected | EvUnsupported | Inconclusive

record status_record =
  sr_status :: status
  sr_evidence :: evidence

fun status_label :: "status \<Rightarrow> string" where
  "status_label Released = ''Released''"
| "status_label Active = ''Active''"
| "status_label Requested = ''Requested''"
| "status_label Warning = ''Warning''"
| "status_label Blocked = ''Blocked''"
| "status_label Error = ''Error''"
| "status_label Unknown = ''Unknown''"
| "status_label Unsupported = ''Unsupported''"

fun evidence_label :: "evidence \<Rightarrow> string" where
  "evidence_label NotCollected = ''NotCollected''"
| "evidence_label EvUnsupported = ''Unsupported''"
| "evidence_label Inconclusive = ''Inconclusive''"

definition format_status :: "status_record \<Rightarrow> string" where
  "format_status r = ''status='' @ status_label (sr_status r) @ '', evidence='' @ evidence_label (sr_evidence r)"

fun category_label :: "event_category \<Rightarrow> string" where
  "category_label CatStartup = ''Startup''"
| "category_label CatTimer = ''Timer''"
| "category_label CatPower = ''Power''"
| "category_label CatUI = ''UI''"
| "category_label CatSchedule = ''Schedule''"
| "category_label CatSystem = ''System''"

fun phase_label :: "diagnostic_phase \<Rightarrow> string" where
  "phase_label PhBegin = ''Begin''"
| "phase_label PhObserve = ''Observe''"
| "phase_label PhDecide = ''Decide''"
| "phase_label PhAcquire = ''Acquire''"
| "phase_label PhRelease = ''Release''"
| "phase_label PhVerify = ''Verify''"
| "phase_label PhHandoff = ''Handoff''"
| "phase_label PhTimer = ''Timer''"
| "phase_label PhRender = ''Render''"
| "phase_label PhPersist = ''Persist''"
| "phase_label PhShutdown = ''Shutdown''"
| "phase_label PhComplete = ''Complete''"

fun source_label :: "diagnostic_source \<Rightarrow> string" where
  "source_label SrcTrayCommand = ''TrayCommand''"
| "source_label SrcPowerEvent = ''PowerEvent''"
| "source_label SrcStartup = ''Startup''"
| "source_label SrcPause = ''Pause''"
| "source_label SrcResume = ''Resume''"
| "source_label SrcHandoff = ''Handoff''"
| "source_label SrcShutdown = ''Shutdown''"
| "source_label SrcPolicy = ''Policy''"
| "source_label SrcOwnership = ''Ownership''"
| "source_label SrcPlatform = ''Platform''"
| "source_label SrcNative = ''Native''"
| "source_label SrcTimer = ''Timer''"
| "source_label SrcDiagnostic = ''Diagnostic''"
| "source_label SrcInternal = ''Internal''"

fun outcome_label :: "diagnostic_outcome \<Rightarrow> string" where
  "outcome_label OutInProgress = ''InProgress''"
| "outcome_label OutCompleted = ''Completed''"
| "outcome_label OutDegraded = ''Degraded''"
| "outcome_label OutFailed = ''Failed''"
| "outcome_label OutCancelled = ''Cancelled''"
| "outcome_label OutSuppressed = ''Suppressed''"
| "outcome_label OutTimedOut = ''TimedOut''"
| "outcome_label OutUnverified = ''Unverified''"

definition REPORT_COLUMNS :: "string list" where
  "REPORT_COLUMNS = [''Row'', ''Sequence'', ''Elapsed'', ''Operation'', ''Parent'', ''Correlation'', ''Phase'', ''Source'',
     ''Outcome'', ''Event'', ''Details'']"

definition MAX_TSV_ROWS :: nat where [model_defs]: "MAX_TSV_ROWS = HARD_MAX_EVENTS"
definition MAX_CSV_ROWS :: nat where [model_defs]: "MAX_CSV_ROWS = MAX_TSV_ROWS"
definition MAX_RENDERED_EVENT_BYTES :: nat where [model_defs]: "MAX_RENDERED_EVENT_BYTES = 1024"

definition bool_word :: "bool \<Rightarrow> string" where
  "bool_word b = (if b then ''true'' else ''false'')"

definition retention_summary :: "nat \<Rightarrow> nat \<Rightarrow> bool \<Rightarrow> string" where
  "retention_summary rows cap truncated =
     ''retained_events='' @ dec rows @ '' retention_cap='' @ dec cap @ '' truncated='' @ bool_word truncated"

section \<open>Row selection\<close>

datatype display_limit_error = LimitEmpty | LimitNegative | LimitZero | LimitMalformed | LimitOutOfRange | LimitTooLong

fun display_limit_message :: "display_limit_error \<Rightarrow> string" where
  "display_limit_message LimitEmpty = ''enter a positive row count''"
| "display_limit_message LimitNegative = ''negative rows are not allowed''"
| "display_limit_message LimitZero = ''row count must be positive''"
| "display_limit_message LimitMalformed = ''use a positive whole number''"
| "display_limit_message LimitOutOfRange = ''row count must be at most '' @ dec HARD_MAX_EVENTS"
| "display_limit_message LimitTooLong = ''the row count is too long''"

definition USIZE_MAX :: nat where
  "USIZE_MAX = 2 ^ 64 - 1"

definition parse_display_limit :: "string \<Rightarrow> (display_limit_error, nat) result" where
  "parse_display_limit input =
     (let s = trim input in
      if s = [] then Err LimitEmpty
      else if 64 < length s then Err LimitTooLong
      else if hd s = CHR ''-'' then Err LimitNegative
      else if \<not> list_all is_digit s then Err LimitMalformed
      else case parse_unsigned USIZE_MAX s of
        None \<Rightarrow> Err LimitMalformed
      | Some n \<Rightarrow>
          if n = 0 then Err LimitZero
          else if HARD_MAX_EVENTS < n then Err LimitOutOfRange
          else Ok n)"

record row_selection =
  sel_start :: nat
  sel_end :: nat

definition selection_all :: "nat \<Rightarrow> row_selection" where
  "selection_all n = (if n = 0 then \<lparr>sel_start = 0, sel_end = 0\<rparr> else \<lparr>sel_start = 1, sel_end = n\<rparr>)"

definition latest_row_selection :: "nat \<Rightarrow> nat \<Rightarrow> row_selection" where
  "latest_row_selection limit rows =
     (if rows = 0 then selection_all 0
      else let visible = min (clamp limit 1 HARD_MAX_EVENTS) rows
           in \<lparr>sel_start = rows - visible + 1, sel_end = rows\<rparr>)"

definition row_count :: "row_selection \<Rightarrow> nat" where
  "row_count s = (if sel_start s = 0 \<or> sel_end s < sel_start s then 0 else sel_end s - sel_start s + 1)"

definition selection_is_empty :: "row_selection \<Rightarrow> bool" where
  "selection_is_empty s = (row_count s = 0)"

definition selection_is_all :: "nat \<Rightarrow> row_selection \<Rightarrow> bool" where
  "selection_is_all n s = (s = selection_all n)"

datatype row_selection_error = RowMalformed | RowNegative | RowZero | RowReversed | RowOutOfRange nat | RowTooLong

fun row_selection_message :: "row_selection_error \<Rightarrow> string" where
  "row_selection_message RowMalformed = ''use a row number or start-end''"
| "row_selection_message RowNegative = ''negative rows are not allowed''"
| "row_selection_message RowZero = ''row numbers start at 1''"
| "row_selection_message RowReversed = ''the range must be in ascending order''"
| "row_selection_message (RowOutOfRange n) = ''row must be between 1 and '' @ dec n"
| "row_selection_message RowTooLong = ''the range is too long''"

definition parse_row_number :: "string \<Rightarrow> (row_selection_error, nat) result" where
  "parse_row_number input =
     (let s = trim input in
      if s = [] then Err RowMalformed
      else if hd s = CHR ''-'' then Err RowNegative
      else if s = ''0'' then Err RowZero
      else if \<not> list_all is_digit s then Err RowMalformed
      else case parse_unsigned USIZE_MAX s of
        None \<Rightarrow> Err RowMalformed
      | Some n \<Rightarrow> if n = 0 then Err RowZero else Ok n)"

definition parse_row_selection :: "string \<Rightarrow> nat \<Rightarrow> (row_selection_error, row_selection) result" where
  "parse_row_selection input rows =
     (let s = trim input in
      if 64 < length s then Err RowTooLong
      else if s = [] \<or> to_ascii_lowercase s = ''all'' then Ok (selection_all rows)
      else if hd s = CHR ''-'' then Err RowNegative
      else case split_on (CHR ''-'') s of
        [first] \<Rightarrow>
          (case parse_row_number first of
             Inl e \<Rightarrow> Err e
           | Inr n \<Rightarrow> if rows < n then Err (RowOutOfRange rows) else Ok \<lparr>sel_start = n, sel_end = n\<rparr>)
      | [first, second] \<Rightarrow>
          (case parse_row_number first of
             Inl e \<Rightarrow> Err e
           | Inr a \<Rightarrow>
              (case parse_row_number second of
                 Inl e \<Rightarrow> Err e
               | Inr b \<Rightarrow>
                   if b < a then Err RowReversed
                   else if rows < a \<or> rows < b then Err (RowOutOfRange rows)
                   else Ok \<lparr>sel_start = a, sel_end = b\<rparr>))
      | _ \<Rightarrow> Err RowMalformed)"

section \<open>Rows of the grid\<close>

definition optional_number :: "('a \<Rightarrow> string) \<Rightarrow> 'a option \<Rightarrow> string" where
  "optional_number show v = (case v of None \<Rightarrow> ''none'' | Some x \<Rightarrow> show x)"

definition dec_int :: "int \<Rightarrow> string" where
  "dec_int i = (if i < 0 then CHR ''-'' # dec (nat (- i)) else dec (nat i))"

definition dec_word :: "'a::len word \<Rightarrow> string" where
  "dec_word w = dec (unat w)"

definition native_details :: "native_outcome \<Rightarrow> string" where
  "native_details n =
     ''ntstatus='' @ optional_number dec_int (nat_ntstatus n) @ '' win32_last_error='' @ optional_number dec_word (nat_win32 n)
     @ '' requested_hns='' @ optional_number dec_word (nat_requested_hns n)
     @ '' selected_hns='' @ optional_number dec_word (nat_selected_hns n)
     @ '' effective_hns='' @ optional_number dec_word (nat_effective_hns n)"

definition diagnostic_grid_row :: "nat \<Rightarrow> diagnostic_event \<Rightarrow> string list" where
  "diagnostic_grid_row pos e =
     (let details = (if ev_details e = [] then native_details (ev_native e)
                     else ev_details e @ '' '' @ native_details (ev_native e))
      in [dec pos, dec_word (ev_sequence e), ''+'' @ dec (ev_elapsed e div 1000000) @ ''ms'',
          dec_word (operation_id (ev_context e)), optional_number dec_word (parent_operation_id (ev_context e)),
          dec_word (correlation_id (ev_context e)), phase_label (ev_phase e), source_label (ev_source e),
          outcome_label (ev_outcome e), ev_name e, truncate_text details MAX_FIELD_LENGTH])"

definition diagnostic_grid_rows :: "diagnostic_event list \<Rightarrow> row_selection \<Rightarrow> string list list" where
  "diagnostic_grid_rows es s =
     (if selection_is_empty s then []
      else map (\<lambda>(i, e). diagnostic_grid_row (i + 1) e)
             (take (row_count s) (drop (sel_start s - 1) (enumerate 0 es))))"

definition diagnostic_grid_rows_for_sequences :: "diagnostic_event list \<Rightarrow> u64 list \<Rightarrow> string list list" where
  "diagnostic_grid_rows_for_sequences es qs =
     map (\<lambda>(i, e). diagnostic_grid_row (i + 1) e) (filter (\<lambda>(i, e). ev_sequence e \<in> set qs) (enumerate 0 es))"

definition selected_event_sequences :: "diagnostic_event list \<Rightarrow> row_selection \<Rightarrow> u64 list" where
  "selected_event_sequences es s =
     (if selection_is_empty s then []
      else map ev_sequence (take (row_count s) (drop (sel_start s - 1) es)))"

definition selected_event_sequences_for_positions ::
    "diagnostic_event list \<Rightarrow> row_selection \<Rightarrow> nat list \<Rightarrow> u64 list" where
  "selected_event_sequences_for_positions es s ps =
     List.map_filter (\<lambda>p. let row = sel_start s + p in
         if 0 < row \<and> row \<le> sel_end s \<and> row - 1 < length es then Some (ev_sequence (es ! (row - 1))) else None)
       (remdups_adj (sort ps))"

definition selected_event_sequences_for_sequences :: "diagnostic_event list \<Rightarrow> u64 list \<Rightarrow> u64 list" where
  "selected_event_sequences_for_sequences es qs = map ev_sequence (filter (\<lambda>e. ev_sequence e \<in> set qs) es)"

definition visible_positions_for_sequences :: "diagnostic_event list \<Rightarrow> row_selection \<Rightarrow> u64 list \<Rightarrow> nat list" where
  "visible_positions_for_sequences es s qs =
     (if selection_is_empty s then []
      else List.map_filter (\<lambda>(i, e). if ev_sequence e \<in> set qs then Some (i - (sel_start s - 1)) else None)
             (take (row_count s) (drop (sel_start s - 1) (enumerate 0 es))))"

fun position_of :: "u64 \<Rightarrow> diagnostic_event list \<Rightarrow> nat option" where
  "position_of q [] = None"
| "position_of q (e # es) = (if ev_sequence e = q then Some 0 else map_option Suc (position_of q es))"

fun collect_options :: "'a option list \<Rightarrow> 'a list option" where
  "collect_options [] = Some []"
| "collect_options (x # xs) = (case x of None \<Rightarrow> None | Some a \<Rightarrow> map_option ((#) a) (collect_options xs))"

fun ascending_run :: "nat list \<Rightarrow> bool" where
  "ascending_run (a # b # xs) = (b = a + 1 \<and> ascending_run (b # xs))"
| "ascending_run _ = True"

definition row_selection_for_sequences :: "diagnostic_event list \<Rightarrow> u64 list \<Rightarrow> row_selection option" where
  "row_selection_for_sequences es qs =
     (if qs = [] then None
      else case collect_options (map (\<lambda>q. map_option (\<lambda>i. i + 1) (position_of q es)) qs) of
        None \<Rightarrow> None
      | Some ps \<Rightarrow>
          if ps \<noteq> [] \<and> ascending_run ps then Some \<lparr>sel_start = hd ps, sel_end = last ps\<rparr> else None)"

section \<open>Text forms\<close>

definition crlf :: string where
  "crlf = [CHR 0x0D, CHR 0x0A]"

definition row_cell :: "string list \<Rightarrow> nat \<Rightarrow> string" where
  "row_cell cells i = (if i < length cells then cells ! i else [])"

definition row_cells :: "string list \<Rightarrow> string list" where
  "row_cells cells = map (row_cell cells) [0..<length REPORT_COLUMNS]"

definition format_tsv :: "string list list \<Rightarrow> string" where
  "format_tsv rows =
     join_with [CHR 0x09] REPORT_COLUMNS @ crlf
     @ concat (map (\<lambda>r. join_with [CHR 0x09] (map sanitize (row_cells r)) @ crlf) (take MAX_TSV_ROWS rows))"

definition formula_like :: "(string \<Rightarrow> bool) \<Rightarrow> string \<Rightarrow> bool" where
  "formula_like alphabetic field =
     (let t = trim_start field in
      t \<noteq> [] \<and> (hd t \<in> {CHR ''='', CHR ''@''} \<or> hd t \<in> {CHR ''+'', CHR ''-''} \<and> tl t \<noteq> [] \<and> alphabetic (tl t)))"

definition csv_field :: "(string \<Rightarrow> bool) \<Rightarrow> string \<Rightarrow> string" where
  "csv_field alphabetic cell =
     (let field = truncate_text cell MAX_FIELD_LENGTH;
          neutralize = formula_like alphabetic field;
          needs_quoting = ((\<exists>c\<in>set field. c \<in> {CHR '','', CHR 0x22, CHR 0x0A, CHR 0x0D}) \<or> neutralize)
      in if \<not> needs_quoting then field
         else [CHR 0x22] @ (if neutralize then [CHR 0x27] else [])
              @ concat (map (\<lambda>c. if c = CHR 0x22 then [CHR 0x22, c] else [c]) field) @ [CHR 0x22])"

definition format_csv :: "(string \<Rightarrow> bool) \<Rightarrow> string list list \<Rightarrow> string" where
  "format_csv alphabetic rows =
     join_with '','' REPORT_COLUMNS @ crlf
     @ concat (map (\<lambda>r. join_with '','' (map (csv_field alphabetic) (row_cells r)) @ crlf) (take MAX_CSV_ROWS rows))"

definition pad_left :: "nat \<Rightarrow> string \<Rightarrow> string" where
  "pad_left w s = replicate (w - length s) (CHR '' '') @ s"

definition format_event :: "diagnostic_event \<Rightarrow> string" where
  "format_event e =
     truncate_text
       (''#'' @ pad0 6 (dec_word (ev_sequence e)) @ '' +'' @ pad_left 8 (dec (ev_elapsed e div 1000000)) @ ''ms op=''
        @ dec_word (operation_id (ev_context e))
        @ '' parent='' @ optional_number dec_word (parent_operation_id (ev_context e))
        @ '' corr='' @ dec_word (correlation_id (ev_context e)) @ '' phase='' @ phase_label (ev_phase e)
        @ '' source='' @ source_label (ev_source e) @ '' outcome='' @ outcome_label (ev_outcome e)
        @ '' native_ntstatus='' @ optional_number dec_int (nat_ntstatus (ev_native e))
        @ '' native_win32='' @ optional_number dec_word (nat_win32 (ev_native e))
        @ '' requested_hns='' @ optional_number dec_word (nat_requested_hns (ev_native e))
        @ '' selected_hns='' @ optional_number dec_word (nat_selected_hns (ev_native e))
        @ '' effective_hns='' @ optional_number dec_word (nat_effective_hns (ev_native e))
        @ '' '' @ ev_name e @ (if ev_details e = [] then [] else '' '' @ ev_details e))
       MAX_RENDERED_EVENT_BYTES"

section \<open>Reading the tables back\<close>

text \<open>
  A reader for comma separated text with quoted fields and lines that end in a carriage return and
  a line feed, one character at a time.
\<close>

datatype csv_state = FieldStart | Unquoted | Quoted | QuoteSeen | AfterReturn

fun read_csv :: "csv_state \<Rightarrow> string \<Rightarrow> string list \<Rightarrow> string \<Rightarrow> string list list option" where
  "read_csv st field cells [] = (if st = FieldStart \<and> cells = [] then Some [] else None)"
| "read_csv st field cells (c # cs) =
     (case st of
        Quoted \<Rightarrow> if c = CHR 0x22 then read_csv QuoteSeen field cells cs else read_csv Quoted (field @ [c]) cells cs
      | AfterReturn \<Rightarrow>
          if c = CHR 0x0A then map_option ((#) (cells @ [field])) (read_csv FieldStart [] [] cs) else None
      | _ \<Rightarrow>
          if c = CHR '','' then read_csv FieldStart [] (cells @ [field]) cs
          else if c = CHR 0x0D then read_csv AfterReturn field cells cs
          else if c = CHR 0x22 then
            (case st of
               FieldStart \<Rightarrow> read_csv Quoted [] cells cs
             | QuoteSeen \<Rightarrow> read_csv Quoted (field @ [c]) cells cs
             | _ \<Rightarrow> None)
          else if st = QuoteSeen \<or> c = CHR 0x0A then None
          else read_csv Unquoted (field @ [c]) cells cs)"

text \<open>The value a reader sees: the cut cell, behind an apostrophe when its first character that is not a space is an
  equals sign, an at sign, or a sign in front of a letter.\<close>

definition csv_value :: "(string \<Rightarrow> bool) \<Rightarrow> string \<Rightarrow> string" where
  "csv_value alphabetic cell =
     (let field = truncate_text cell MAX_FIELD_LENGTH in
      case trim_start field of
        [] \<Rightarrow> field
      | c # rest \<Rightarrow>
          if c = CHR ''='' \<or> c = CHR ''@'' \<or> (c = CHR ''+'' \<or> c = CHR ''-'') \<and> rest \<noteq> [] \<and> alphabetic rest
          then CHR 0x27 # field else field)"

lemma csv_value_formula:
  "csv_value alphabetic cell =
     (let field = truncate_text cell MAX_FIELD_LENGTH in
      if formula_like alphabetic field then CHR 0x27 # field else field)"
  by (auto simp: csv_value_def formula_like_def Let_def split: list.split)

lemma read_unquoted:
  "\<forall>c\<in>set s. c \<notin> {CHR '','', CHR 0x22, CHR 0x0A, CHR 0x0D} \<Longrightarrow>
   read_csv Unquoted field cells (s @ rest) = read_csv Unquoted (field @ s) cells rest"
  by (induction s arbitrary: field) auto

lemma read_plain:
  assumes "\<forall>c\<in>set s. c \<notin> {CHR '','', CHR 0x22, CHR 0x0A, CHR 0x0D}" and "rest = CHR '','' # cs \<or> rest = CHR 0x0D # cs"
  shows "read_csv FieldStart [] cells (s @ rest) = read_csv Unquoted s cells rest"
  using assms by (cases s) (auto simp: read_unquoted)

lemma read_quoted:
  "read_csv Quoted field cells (concat (map (\<lambda>c. if c = CHR 0x22 then [CHR 0x22, c] else [c]) s) @ rest)
   = read_csv Quoted (field @ s) cells rest"
  by (induction s arbitrary: field) auto

lemma read_field:
  assumes "rest = CHR '','' # cs \<or> rest = CHR 0x0D # cs"
  shows "read_csv FieldStart [] cells (csv_field alphabetic cell @ rest) = read_csv Unquoted (csv_value alphabetic cell) cells rest"
proof -
  let ?f = "truncate_text cell MAX_FIELD_LENGTH"
  let ?tick = "if formula_like alphabetic ?f then [CHR 0x27] else []"
  have val: "csv_value alphabetic cell = ?tick @ ?f"
    by (simp add: csv_value_formula)
  have seen: "read_csv QuoteSeen f cells rest = read_csv Unquoted f cells rest" for f
    using assms by auto
  show ?thesis
  proof (cases "(\<exists>c\<in>set ?f. c \<in> {CHR '','', CHR 0x22, CHR 0x0A, CHR 0x0D}) \<or> formula_like alphabetic ?f")
    case True
    then have "csv_field alphabetic cell
        = CHR 0x22 # ?tick @ concat (map (\<lambda>c. if c = CHR 0x22 then [CHR 0x22, c] else [c]) ?f) @ [CHR 0x22]"
      by (auto simp: csv_field_def Let_def)
    moreover have "read_csv Quoted [] cells (?tick @ s) = read_csv Quoted ?tick cells s" for s
      by simp
    ultimately show ?thesis
      using read_quoted [of ?tick cells ?f "CHR 0x22 # rest"] by (simp add: val seen del: split_paired_All)
  next
    case False
    then have "csv_field alphabetic cell = ?f" "csv_value alphabetic cell = ?f"
      by (auto simp: csv_field_def csv_value_formula Let_def)
    then show ?thesis
      using read_plain [OF _ assms] False by simp
  qed
qed

lemma read_row:
  assumes "fs \<noteq> []"
  shows "read_csv FieldStart [] cells (join_with '','' (map (csv_field alphabetic) fs) @ crlf @ rest)
    = map_option ((#) (cells @ map (csv_value alphabetic) fs)) (read_csv FieldStart [] [] rest)"
  using assms
proof (induction fs arbitrary: cells)
  case (Cons f fs)
  show ?case
  proof (cases fs)
    case Nil
    then show ?thesis
      using read_field [of "crlf @ rest" "tl crlf @ rest"] by (simp add: crlf_def)
  next
    case (Cons g gs)
    then have "read_csv FieldStart [] cells (join_with '','' (map (csv_field alphabetic) (f # fs)) @ crlf @ rest)
        = read_csv FieldStart [] (cells @ [csv_value alphabetic f])
            (join_with '','' (map (csv_field alphabetic) fs) @ crlf @ rest)"
      using read_field [of "CHR '','' # join_with '','' (map (csv_field alphabetic) fs) @ crlf @ rest"] by simp
    then show ?thesis
      using Cons.IH [of "cells @ [csv_value alphabetic f]"] Cons by simp
  qed
qed simp

lemma row_cells_nonempty: "row_cells r \<noteq> []"
  by (simp add: row_cells_def REPORT_COLUMNS_def)

lemma read_rows:
  "read_csv FieldStart [] [] (concat (map (\<lambda>r. join_with '','' (map (csv_field alphabetic) (row_cells r)) @ crlf) rows))
   = Some (map (\<lambda>r. map (csv_value alphabetic) (row_cells r)) rows)"
  by (induction rows) (simp_all add: read_row row_cells_nonempty)

lemma csv_field_plain:
  assumes "\<forall>c\<in>set s. c \<notin> {CHR '','', CHR 0x22, CHR 0x0A, CHR 0x0D}" and "length s \<le> MAX_FIELD_LENGTH"
    and "\<not> formula_like alphabetic s"
  shows "csv_field alphabetic s = s" "csv_value alphabetic s = s"
proof -
  have "truncate_text s MAX_FIELD_LENGTH = s"
    using assms(2) by (simp add: truncate_text_def truncate_utf8_def)
  then show "csv_field alphabetic s = s" "csv_value alphabetic s = s"
    using assms by (simp_all add: csv_field_def csv_value_formula Let_def)
qed

lemma trim_start_plain: "plain_char c \<Longrightarrow> trim_start (c # s) = c # s"
  unfolding trim_start_def using whitespace_encodings_nonempty whitespace_encoding_ends
  by (intro trim_front_plain) auto

lemma csv_header:
  "map (csv_field alphabetic) REPORT_COLUMNS = REPORT_COLUMNS" "map (csv_value alphabetic) REPORT_COLUMNS = REPORT_COLUMNS"
proof -
  have "csv_field alphabetic s = s \<and> csv_value alphabetic s = s" if "s \<in> set REPORT_COLUMNS" for s
  proof -
    have "hd s \<in> {CHR ''R'', CHR ''S'', CHR ''E'', CHR ''O'', CHR ''P'', CHR ''C'', CHR ''D''}" "s \<noteq> []"
      using that by (auto simp: REPORT_COLUMNS_def)
    moreover from this have "trim_start s = s"
      using trim_start_plain [of "hd s" "tl s"] by (auto simp: plain_char_def)
    ultimately have plain: "\<not> formula_like alphabetic s"
      by (auto simp: formula_like_def)
    have chars: "\<forall>c\<in>set s. c \<notin> {CHR '','', CHR 0x22, CHR 0x0A, CHR 0x0D}" "length s \<le> MAX_FIELD_LENGTH"
      using that by (auto simp: REPORT_COLUMNS_def MAX_FIELD_LENGTH_def)
    show ?thesis
      using csv_field_plain [OF chars plain] ..
  qed
  then show "map (csv_field alphabetic) REPORT_COLUMNS = REPORT_COLUMNS"
      "map (csv_value alphabetic) REPORT_COLUMNS = REPORT_COLUMNS"
    by (auto intro: map_idI)
qed

lemma csv_value_inert:
  "case trim_start (csv_value alphabetic cell) of
     [] \<Rightarrow> True
   | c # rest \<Rightarrow> c \<noteq> CHR ''='' \<and> c \<noteq> CHR ''@'' \<and> \<not> (c \<in> {CHR ''+'', CHR ''-''} \<and> rest \<noteq> [] \<and> alphabetic rest)"
proof (cases "csv_value alphabetic cell = truncate_text cell MAX_FIELD_LENGTH")
  case True
  then show ?thesis
    by (auto simp: csv_value_def Let_def split: list.splits if_splits)
next
  case False
  then have "csv_value alphabetic cell = CHR 0x27 # truncate_text cell MAX_FIELD_LENGTH"
    by (auto simp: csv_value_def Let_def split: list.splits if_splits)
  then show ?thesis
    using trim_start_plain [of "CHR 0x27"] by (simp add: plain_char_def)
qed

text \<open>C19: The comma separated report is read back exactly. A reader for quoted fields gets the header and then, for the
  first 512 rows, eleven values each: the cell cut at 160 bytes, behind an apostrophe when its first character that is not a
  space is an equals sign, an at sign, or a plus or minus sign in front of a letter. So no value read back starts, after
  spaces, with an equals sign, an at sign, or a sign in front of a letter; a sign in front of a digit is left
  as it is. It holds for every table of which characters are letters.\<close>

theorem csv_round_trip:
  "read_csv FieldStart [] [] (format_csv alphabetic rows)
     = Some (REPORT_COLUMNS # map (\<lambda>r. map (csv_value alphabetic) (row_cells r)) (take 512 rows))
   \<and> (\<forall>cell. case trim_start (csv_value alphabetic cell) of
        [] \<Rightarrow> True
      | c # rest \<Rightarrow> c \<noteq> CHR ''='' \<and> c \<noteq> CHR ''@'' \<and> \<not> (c \<in> {CHR ''+'', CHR ''-''} \<and> rest \<noteq> [] \<and> alphabetic rest))"
proof -
  have "read_csv FieldStart [] [] (join_with '','' (map (csv_field alphabetic) REPORT_COLUMNS) @ crlf @ rest)
      = map_option ((#) (map (csv_value alphabetic) REPORT_COLUMNS)) (read_csv FieldStart [] [] rest)" for rest
    using read_row [of REPORT_COLUMNS "[]"] by (simp add: REPORT_COLUMNS_def)
  then show ?thesis
    using csv_value_inert [of alphabetic]
    by (simp add: format_csv_def csv_header read_rows MAX_CSV_ROWS_def MAX_TSV_ROWS_def HARD_MAX_EVENTS_def)
qed

lemma sanitize_chars_visible: "\<forall>c\<in>set (sanitize_chars s). 32 \<le> (of_char c :: nat)"
  by (induction s rule: sanitize_chars.induct) auto

lemma whole_chars_set: "set (whole_chars n s) \<subseteq> set s"
proof (induction n s rule: whole_chars.induct)
  case (2 n b bs)
  then show ?case
    using set_take_subset [of "char_width b" "b # bs"] set_drop_subset [of "char_width b" "b # bs"]
    by (simp del: take_Cons' drop_Cons') blast
qed simp

lemma truncate_text_set: "set (truncate_text s n) \<subseteq> set s \<union> {CHR ''.''}"
proof -
  have "set (text_of (whole_chars n (bytes_of s))) \<subseteq> set (text_of (bytes_of s))"
    unfolding text_of_def using whole_chars_set by (auto simp del: text_of_bytes_of)
  moreover have "text_of (a @ [0x2E, 0x2E, 0x2E]) = text_of a @ ''...''" for a
  proof -
    have "text_of [0x2E, 0x2E, 0x2E] = ''...''"
      by code_simp
    then show ?thesis
      by (simp add: text_of_def)
  qed
  ultimately show ?thesis
    by (auto simp: truncate_text_def truncate_utf8_def)
qed

lemma sanitize_no_breaks: "c \<in> set (sanitize s) \<Longrightarrow> c \<notin> {CHR 0x09, CHR 0x0A, CHR 0x0D}"
  using truncate_text_set [of "sanitize_chars s" MAX_FIELD_LENGTH] sanitize_chars_visible [of s]
  by (fastforce simp: sanitize_def)

lemma split_joined: "ps \<noteq> [] \<Longrightarrow> \<forall>p\<in>set ps. d \<notin> set p \<Longrightarrow> split_on d (join_with [d] ps) = ps"
  by (induction "[d]" ps rule: join_with.induct) (auto simp: split_on_no_sep split_on_append_sep)

lemma lines_cons_strip: "CHR 0x0A \<notin> set l \<Longrightarrow> lines (l @ CHR 0x0A # rest) = strip_cr l # lines rest"
  by (simp add: lines_def split_on_append_sep Let_def)

lemma tsv_line:
  assumes "fs \<noteq> []" and "\<forall>f\<in>set fs. \<forall>c\<in>set f. c \<notin> {CHR 0x09, CHR 0x0A, CHR 0x0D}"
  shows "map (split_on (CHR 0x09)) (lines (join_with [CHR 0x09] fs @ crlf @ rest)) = fs # map (split_on (CHR 0x09)) (lines rest)"
proof -
  let ?l = "join_with [CHR 0x09] fs"
  have chars: "c \<notin> {CHR 0x0A, CHR 0x0D}" if "c \<in> set ?l" for c
    using join_chars [of "[CHR 0x09]" fs] assms(2) that by fastforce
  have "lines (?l @ crlf @ rest) = strip_cr (?l @ [CHR 0x0D]) # lines rest"
    using lines_cons_strip [of "?l @ [CHR 0x0D]" rest] chars by (auto simp: crlf_def)
  moreover have "strip_cr (?l @ [CHR 0x0D]) = ?l"
    by (simp add: strip_cr_def)
  ultimately show ?thesis
    using split_joined [OF assms(1), of "CHR 0x09"] assms(2) by auto
qed

lemma tsv_rows:
  "map (split_on (CHR 0x09)) (lines (concat (map (\<lambda>r. join_with [CHR 0x09] (map sanitize (row_cells r)) @ crlf) rows)))
   = map (\<lambda>r. map sanitize (row_cells r)) rows"
proof (induction rows)
  case (Cons r rows)
  then show ?case
    using tsv_line [of "map sanitize (row_cells r)"] sanitize_no_breaks by (auto simp: row_cells_nonempty)
qed simp

lemma tsv_round_trip:
  "map (split_on (CHR 0x09)) (lines (format_tsv rows))
   = REPORT_COLUMNS # map (\<lambda>r. map sanitize (row_cells r)) (take 512 rows)"
  using tsv_line [of REPORT_COLUMNS] tsv_rows
  by (simp add: format_tsv_def MAX_TSV_ROWS_def HARD_MAX_EVENTS_def) (simp add: REPORT_COLUMNS_def)

section \<open>Selections\<close>

definition valid_selection :: "nat \<Rightarrow> row_selection \<Rightarrow> bool" where
  "valid_selection rows s \<longleftrightarrow> 1 \<le> sel_start s \<and> sel_start s \<le> sel_end s \<and> sel_end s \<le> rows"

lemma parse_row_number_Ok: "parse_row_number x = Ok n \<Longrightarrow> 1 \<le> n"
  by (auto simp: parse_row_number_def Let_def split: if_splits option.splits)

lemma selection_all_valid: "0 < n \<Longrightarrow> valid_selection n (selection_all n)"
  by (simp add: valid_selection_def selection_all_def)

lemma parse_selection_valid:
  assumes "parse_row_selection input rows = Ok s"
  shows "s = selection_all rows \<or> valid_selection rows s"
  using assms parse_row_number_Ok
  by (fastforce simp: parse_row_selection_def valid_selection_def Let_def split: if_splits sum.splits list.splits)

lemma digit_not_dash: "is_digit c \<Longrightarrow> c \<noteq> CHR ''-''"
  by (auto simp: is_digit_def)

lemma dec_no_dash: "CHR ''-'' \<notin> set (dec n)"
  using dec_digits [of n] digit_not_dash by blast

lemma hd_dec_dash: "hd (dec n @ s) \<noteq> CHR ''-''"
  using dec_no_dash [of n] dec_nonempty [of n] by (metis hd_append2 hd_in_set)

lemma dec_zero: "dec 0 = ''0''"
  by code_simp

lemma row_number_dec: "0 < n \<Longrightarrow> n \<le> USIZE_MAX \<Longrightarrow> parse_row_number (dec n) = Ok n"
  using dec_digits [of n] hd_dec_dash [of n "[]"] dec_inj [of n 0]
  by (simp add: parse_row_number_def Let_def trim_plain_ends dec_plain_ends list_all_iff dec_zero)

lemma dec_length_20: "n \<le> USIZE_MAX \<Longrightarrow> length (dec n) \<le> 20"
  by (simp add: length_dec_le USIZE_MAX_def)

lemma dec_not_all: "to_ascii_lowercase (dec n @ s) \<noteq> ''all''"
proof
  assume all: "to_ascii_lowercase (dec n @ s) = ''all''"
  have "hd (to_ascii_lowercase (dec n @ s)) = ascii_lower_char (hd (dec n))"
    by (simp add: to_ascii_lowercase_def hd_map)
  moreover have digit: "is_digit (hd (dec n))"
    using dec_digits [of n] by simp
  moreover have "ascii_lower_char (hd (dec n)) = hd (dec n)"
    using digit by (simp add: ascii_lower_char_def is_digit_def)
  ultimately have "is_digit (CHR ''a'')"
    using all by simp
  then show False
    by (simp add: is_digit_def)
qed

lemma parse_single_row:
  assumes "0 < a" "a \<le> rows" "rows \<le> USIZE_MAX"
  shows "parse_row_selection (dec a) rows = Ok \<lparr>sel_start = a, sel_end = a\<rparr>"
  using assms dec_length_20 [of a] dec_not_all [of a "[]"] hd_dec_dash [of a "[]"] row_number_dec [of a]
  by (simp add: parse_row_selection_def Let_def trim_plain_ends dec_plain_ends split_on_no_sep dec_no_dash)

lemma parse_row_range:
  assumes "0 < a" "a \<le> b" "b \<le> rows" "rows \<le> USIZE_MAX"
  shows "parse_row_selection (dec a @ CHR ''-'' # dec b) rows = Ok \<lparr>sel_start = a, sel_end = b\<rparr>"
proof -
  have "plain_ends (dec a @ CHR ''-'' # dec b)"
    using dec_plain_ends [of a] dec_plain_ends [of b] by (simp add: plain_ends_def)
  then show ?thesis
    using assms dec_length_20 [of a] dec_length_20 [of b] dec_not_all [of a "CHR ''-'' # dec b"]
      hd_dec_dash [of a "CHR ''-'' # dec b"] row_number_dec [of a] row_number_dec [of b]
    by (simp add: parse_row_selection_def Let_def trim_plain_ends split_on_append_sep split_on_no_sep dec_no_dash)
qed

text \<open>The selection a user makes in the visible rows, as positions, is recovered from the sequence numbers.\<close>

lemma visible_positions_filter:
  assumes "valid_selection (length es) s"
  shows "visible_positions_for_sequences es s qs
    = filter (\<lambda>p. ev_sequence (es ! (sel_start s - 1 + p)) \<in> set qs) [0..<row_count s]"
proof -
  let ?k = "sel_start s - 1"
  have n: "row_count s = sel_end s - sel_start s + 1" "\<not> selection_is_empty s" "?k + row_count s \<le> length es"
    using assms by (auto simp: valid_selection_def row_count_def selection_is_empty_def)
  have "take (row_count s) (drop ?k (enumerate 0 es)) = map (\<lambda>p. (?k + p, es ! (?k + p))) [0..<row_count s]"
    using n(3) by (intro nth_equalityI) (auto simp: nth_enumerate_eq)
  then show ?thesis
    using n(2) by (auto simp: visible_positions_for_sequences_def List.map_filter_def comp_def filter_map intro!: map_idI)
qed

lemma selected_sequences_set:
  assumes "valid_selection (length es) s"
  shows "set (selected_event_sequences_for_positions es s ps)
    = {ev_sequence (es ! (sel_start s - 1 + p)) | p. p \<in> set ps \<and> p < row_count s}"
proof -
  have "(0 < sel_start s + p \<and> sel_start s + p \<le> sel_end s \<and> sel_start s + p - 1 < length es) = (p < row_count s)"
      "sel_start s + p - 1 = sel_start s - 1 + p" for p
    using assms by (auto simp: valid_selection_def row_count_def)
  then show ?thesis
    by (force simp: selected_event_sequences_for_positions_def List.map_filter_def Let_def)
qed

text \<open>Row selections. A parsed selection is the whole report or a range inside the retained rows; every such
  range, and every row, is parsed from its decimal text. For events with distinct sequence numbers a
  selection of visible positions is turned into sequence numbers and back without loss: the
  positions come out ascending, without duplicates and without those outside the
  visible rows.\<close>

theorem row_selection_round_trip:
  assumes "valid_selection (length es) s" and "distinct (map ev_sequence es)" and "length es \<le> USIZE_MAX"
  shows "parse_row_selection (dec (sel_start s) @ CHR ''-'' # dec (sel_end s)) (length es) = Ok s
    \<and> (\<forall>input t. parse_row_selection input (length es) = Ok t \<longrightarrow> valid_selection (length es) t)
    \<and> visible_positions_for_sequences es s (selected_event_sequences_for_positions es s ps)
      = filter (\<lambda>p. p < row_count s) (sorted_list_of_set (set ps))"
proof (intro conjI allI impI)
  show "parse_row_selection (dec (sel_start s) @ CHR ''-'' # dec (sel_end s)) (length es) = Ok s"
    using parse_row_range [of "sel_start s" "sel_end s" "length es"] assms(1,3) by (simp add: valid_selection_def)
  show "valid_selection (length es) t" if "parse_row_selection input (length es) = Ok t" for input t
  proof -
    have "0 < length es"
      using assms(1) by (auto simp: valid_selection_def)
    then show ?thesis
      using parse_selection_valid [OF that] selection_all_valid by auto
  qed
  have "(ev_sequence (es ! (sel_start s - 1 + p)) \<in> set (selected_event_sequences_for_positions es s ps)) = (p \<in> set ps)"
    if "p < row_count s" for p
  proof -
    have bound: "sel_start s - 1 + q < length es" if "q < row_count s" for q
      using that assms(1) by (auto simp: valid_selection_def row_count_def)
    have "ev_sequence (es ! (sel_start s - 1 + p)) = ev_sequence (es ! (sel_start s - 1 + q)) \<longleftrightarrow> p = q"
      if "q < row_count s" for q
      using nth_eq_iff_index_eq [OF assms(2), of "sel_start s - 1 + p" "sel_start s - 1 + q"]
        bound [OF \<open>p < row_count s\<close>] bound [OF that] by auto
    then show ?thesis
      using that by (auto simp: selected_sequences_set [OF assms(1)])
  qed
  then have "visible_positions_for_sequences es s (selected_event_sequences_for_positions es s ps)
      = filter (\<lambda>p. p \<in> set ps) [0..<row_count s]"
    by (auto simp: visible_positions_filter [OF assms(1)] intro: filter_cong)
  also have "\<dots> = filter (\<lambda>p. p < row_count s) (sorted_list_of_set (set ps))"
    by (rule sorted_distinct_set_unique) (auto intro: sorted_wrt_filter)
  finally show "visible_positions_for_sequences es s (selected_event_sequences_for_positions es s ps)
      = filter (\<lambda>p. p < row_count s) (sorted_list_of_set (set ps))" .
qed

definition sample_event :: "u64 \<Rightarrow> diagnostic_event" where
  "sample_event q = \<lparr>ev_sequence = q, ev_elapsed = 0, ev_context = \<lparr>operation_id = 1, parent_operation_id = None,
     correlation_id = 1\<rparr>, ev_phase = PhObserve, ev_source = SrcTimer, ev_outcome = OutCompleted,
     ev_native = native_default, ev_name = ''timer'', ev_details = [], ev_prev_hash = [], ev_entry_hash = []\<rparr>"

theorem row_selection_round_trip_witness:
  "visible_positions_for_sequences (map sample_event [7, 8, 9]) \<lparr>sel_start = 2, sel_end = 3\<rparr>
     (selected_event_sequences_for_positions (map sample_event [7, 8, 9]) \<lparr>sel_start = 2, sel_end = 3\<rparr> [1, 5, 1])
   = filter (\<lambda>p. p < row_count \<lparr>sel_start = 2, sel_end = 3\<rparr>) (sorted_list_of_set (set [1, 5, 1]))"
  using row_selection_round_trip [of "map sample_event [7, 8, 9]" "\<lparr>sel_start = 2, sel_end = 3\<rparr>" "[1, 5, 1]"]
  by (simp add: valid_selection_def sample_event_def USIZE_MAX_def)

end
