(* ===== verification/Retention.thy ===== *)
theory Retention
  imports Report Session "HOL-Library.Product_Lexorder" "HOL-Library.List_Lexorder" "HOL-Library.Char_ord"
begin

text \<open>
  Model of \<open>retention.rs\<close> and \<open>recorder.rs\<close> of \<open>crates/tick-diagnostics\<close>: the purge of daily logs, and the
  anomaly snapshots with their retention.

  A directory is the list of what reading it yields, in the order the system gives; an entry that cannot be
  read is \<open>Inl\<close>. Which removals fail is a predicate on names. An operation returns its result and the
  names of the files it removed, in order.
\<close>

section \<open>Daily logs\<close>

definition LOG_RETENTION_DAYS :: u64 where [model_defs]: "LOG_RETENTION_DAYS = 30"
definition MAX_RETAINED_LOG_FILES :: nat where [model_defs]: "MAX_RETAINED_LOG_FILES = 64"

record log_retention_report =
  logs_examined :: nat
  logs_removed :: nat
  logs_retained :: nat

text \<open>The checked arithmetic on \<open>u16\<close> cannot fail: a slice has at most four digits.\<close>

definition date_digits :: "string \<Rightarrow> nat option" where
  "date_digits s = (if list_all is_digit s then Some (dec_value s) else None)"

definition daily_log_date_from_name :: "string \<Rightarrow> (nat \<times> nat \<times> nat) option" where
  "daily_log_date_from_name name =
     (case Option.bind (strip_prefix ''true-tick-'' name) (strip_suffix ''.csv'') of
        None \<Rightarrow> None
      | Some stem \<Rightarrow>
          if length stem \<noteq> 10 \<or> stem ! 4 \<noteq> CHR ''-'' \<or> stem ! 7 \<noteq> CHR ''-'' then None
          else case (date_digits (take 4 stem), date_digits (take 2 (drop 5 stem)), date_digits (take 2 (drop 8 stem))) of
            (Some y, Some m, Some d) \<Rightarrow> if m \<in> {1..12} \<and> d \<in> {1..31} then Some (y, m, d) else None
          | _ \<Rightarrow> None)"

text \<open>The product wraps around, as it does in a release build; the day count is cast before it.\<close>

definition utc_day_to_unix_seconds :: "nat \<Rightarrow> nat \<Rightarrow> nat \<Rightarrow> u64 option" where
  "utc_day_to_unix_seconds y m d = map_option (\<lambda>days. of_int days * 86400) (try_days_from_civil (int y) m d)"

record log_entry =
  le_name :: "string option"
  le_is_file :: bool

definition log_candidate :: "log_entry \<Rightarrow> (u64 \<times> string) option" where
  "log_candidate e =
     (if \<not> le_is_file e then None
      else case le_name e of
        None \<Rightarrow> None
      | Some name \<Rightarrow>
          (case daily_log_date_from_name name of
             None \<Rightarrow> None
           | Some (y, m, d) \<Rightarrow> map_option (\<lambda>t. (t, name)) (utc_day_to_unix_seconds y m d)))"

fun log_candidates :: "(unit, log_entry) result list \<Rightarrow> (unit, (u64 \<times> string) list) result" where
  "log_candidates [] = Ok []"
| "log_candidates (Inl u # es) = Err u"
| "log_candidates (Inr e # es) =
     map_sum id (\<lambda>cs. case log_candidate e of None \<Rightarrow> cs | Some c \<Rightarrow> c # cs) (log_candidates es)"

fun purge_expired :: "(string \<Rightarrow> bool) \<Rightarrow> u64 \<Rightarrow> (u64 \<times> string) list \<Rightarrow> (u64 \<times> string) list \<times> string list" where
  "purge_expired fails cutoff [] = ([], [])"
| "purge_expired fails cutoff ((t, name) # cs) =
     (let (kept, gone) = purge_expired fails cutoff cs in
      if t < cutoff \<and> \<not> fails name then (kept, name # gone) else ((t, name) # kept, gone))"

definition purge_expired_logs :: "(string \<Rightarrow> bool) \<Rightarrow> (unit, (unit, log_entry) result list) result \<Rightarrow> u64
    \<Rightarrow> (unit, log_retention_report) result \<times> string list" where
  "purge_expired_logs fails dir now =
     (case dir of
        Inl u \<Rightarrow> (Err u, [])
      | Inr entries \<Rightarrow>
          (case log_candidates entries of
             Inl u \<Rightarrow> (Err u, [])
           | Inr cs \<Rightarrow>
               let sorted_cs = sort_key fst cs;
                   cutoff = saturating_sub now (LOG_RETENTION_DAYS * 86400);
                   (kept, gone) = purge_expired fails cutoff sorted_cs;
                   overflow = length kept - MAX_RETAINED_LOG_FILES;
                   gone2 = filter (\<lambda>n. \<not> fails n) (map snd (take overflow kept))
               in (Ok \<lparr>logs_examined = length cs, logs_removed = length gone + length gone2,
                       logs_retained = length kept - overflow\<rparr>, gone @ gone2)))"

section \<open>Anomaly snapshots\<close>

definition MAX_SNAPSHOT_DETAIL_BYTES :: nat where [model_defs]: "MAX_SNAPSHOT_DETAIL_BYTES = 1024"
definition MAX_SNAPSHOT_EVENTS :: nat where [model_defs]: "MAX_SNAPSHOT_EVENTS = 64"
definition MAX_RETAINED_SNAPSHOTS :: nat where [model_defs]: "MAX_RETAINED_SNAPSHOTS = 16"
definition MAX_TELEMETRY_DIRECTORY_BYTES :: nat where
  [model_defs]: "MAX_TELEMETRY_DIRECTORY_BYTES = 8 * 1024 * 1024"

record environment_snapshot =
  os_major :: u32
  os_minor :: u32
  os_build :: u32
  os_ubr :: u32
  cpu_arch :: u32
  processor_count :: u32
  ac_line_status :: u32
  battery_percent :: u32
  uptime_ms :: u64

record retention_report =
  ret_examined :: nat
  ret_removed :: nat
  ret_bytes_removed :: nat
  ret_retained_bytes :: nat

definition retention_report_summary :: "retention_report \<Rightarrow> string" where
  "retention_report_summary r =
     ''retention examined='' @ dec (ret_examined r) @ '' removed='' @ dec (ret_removed r) @ '' bytes_removed=''
     @ dec (ret_bytes_removed r) @ '' retained_bytes='' @ dec (ret_retained_bytes r)"

datatype failure_vector = FvPanic | FvWatchdogStall | FvPostconditionUnverified | FvConfigCorruption
  | FvLogWriteFailure | FvSessionMarkerCorruption | FvUnknown

fun failure_vector_label :: "failure_vector \<Rightarrow> string" where
  "failure_vector_label FvPanic = ''Panic''"
| "failure_vector_label FvWatchdogStall = ''WatchdogStall''"
| "failure_vector_label FvPostconditionUnverified = ''PostconditionUnverified''"
| "failure_vector_label FvConfigCorruption = ''ConfigCorruption''"
| "failure_vector_label FvLogWriteFailure = ''LogWriteFailure''"
| "failure_vector_label FvSessionMarkerCorruption = ''SessionMarkerCorruption''"
| "failure_vector_label FvUnknown = ''Unknown''"

record anomaly_snapshot =
  snap_vector :: failure_vector
  snap_detail :: string
  snap_environment :: environment_snapshot
  snap_events :: "diagnostic_event list"
  snap_digest :: string

definition hex_digit_char :: "nat \<Rightarrow> char" where
  "hex_digit_char n = (if n < 10 then char_of (48 + n) else char_of (87 + n))"

definition sha256_hex :: "(bytes \<Rightarrow> bytes) \<Rightarrow> bytes \<Rightarrow> string" where
  "sha256_hex sha bs = concat (map (\<lambda>b. [hex_digit_char (unat b div 16), hex_digit_char (unat b mod 16)]) (sha bs))"

definition is_snapshot_file_name :: "string \<Rightarrow> bool" where
  "is_snapshot_file_name name = (starts_with ''anomaly-'' name \<and> strip_suffix ''.recorder'' name \<noteq> None)"

definition serialize_snapshot :: "anomaly_snapshot \<Rightarrow> string" where
  "serialize_snapshot s =
     (let e = snap_environment s in
      ''[snapshot]'' @ newline @ ''vector='' @ failure_vector_label (snap_vector s) @ newline
      @ ''detail='' @ snap_detail s @ newline @ ''event_count='' @ dec (length (snap_events s)) @ newline
      @ ''[environment]'' @ newline
      @ ''os_major='' @ dec_word (os_major e) @ newline @ ''os_minor='' @ dec_word (os_minor e) @ newline
      @ ''os_build='' @ dec_word (os_build e) @ newline @ ''os_ubr='' @ dec_word (os_ubr e) @ newline
      @ ''cpu_arch='' @ dec_word (cpu_arch e) @ newline @ ''processor_count='' @ dec_word (processor_count e) @ newline
      @ ''ac_line_status='' @ dec_word (ac_line_status e) @ newline
      @ ''battery_percent='' @ dec_word (battery_percent e) @ newline
      @ ''uptime_ms='' @ dec_word (uptime_ms e) @ newline
      @ ''[events]'' @ newline
      @ concat (map (\<lambda>(i, v). ''event['' @ dec i @ '']='' @ format_event v @ newline) (enumerate 0 (snap_events s)))
      @ ''[digest]'' @ newline @ ''sha256='' @ snap_digest s @ newline)"

definition build_snapshot :: "(bytes \<Rightarrow> bytes) \<Rightarrow> failure_vector \<Rightarrow> string \<Rightarrow> environment_snapshot \<Rightarrow> diagnostic_event list
    \<Rightarrow> anomaly_snapshot" where
  "build_snapshot sha vector detail environment es =
     (let snapshot = \<lparr>snap_vector = vector, snap_detail = truncate_text detail MAX_SNAPSHOT_DETAIL_BYTES,
            snap_environment = environment, snap_events = drop (length es - MAX_SNAPSHOT_EVENTS) es, snap_digest = []\<rparr>
      in snapshot\<lparr>snap_digest := sha256_hex sha (bytes_of (serialize_snapshot snapshot))\<rparr>)"

text \<open>
  An entry of the telemetry directory: the type of the entry is read before its name is looked at, its
  modification time and size only for a file with a matching name.
\<close>

record telemetry_entry =
  te_name :: string
  te_is_file :: "bool option"
  te_metadata :: "(int \<times> nat) option"

record candidate =
  ca_modified :: int
  ca_name :: string
  ca_size :: nat

fun snapshot_candidates :: "(unit, telemetry_entry) result list \<Rightarrow> (unit, candidate list) result" where
  "snapshot_candidates [] = Ok []"
| "snapshot_candidates (Inl u # es) = Err u"
| "snapshot_candidates (Inr e # es) =
     (case te_is_file e of
        None \<Rightarrow> Err ()
      | Some file \<Rightarrow>
          if \<not> file \<or> \<not> is_snapshot_file_name (te_name e) then snapshot_candidates es
          else case te_metadata e of
            None \<Rightarrow> Err ()
          | Some (modified, bytes) \<Rightarrow>
              map_sum id ((#) \<lparr>ca_modified = modified, ca_name = te_name e, ca_size = bytes\<rparr>) (snapshot_candidates es))"

fun remove_oldest :: "(string \<Rightarrow> bool) \<Rightarrow> candidate list \<Rightarrow> nat \<Rightarrow> nat \<Rightarrow> nat \<Rightarrow> (unit, nat \<times> nat \<times> nat) result \<times> string list"
  where
  "remove_oldest fails [] held removed bytes_removed = (Ok (removed, bytes_removed, held), [])"
| "remove_oldest fails (c # cs) held removed bytes_removed =
     (if MAX_RETAINED_SNAPSHOTS < length (c # cs) \<or> MAX_TELEMETRY_DIRECTORY_BYTES < held then
        if fails (ca_name c) then (Err (), [])
        else map_prod id ((#) (ca_name c))
               (remove_oldest fails cs (held - ca_size c) (removed + 1) (bytes_removed + ca_size c))
      else (Ok (removed, bytes_removed, held), []))"

definition candidate_order :: "candidate list \<Rightarrow> candidate list" where
  "candidate_order cs = sort_key (\<lambda>c. (ca_modified c, ca_name c)) cs"

definition enforce_snapshot_retention :: "(string \<Rightarrow> bool) \<Rightarrow> (unit, (unit, telemetry_entry) result list) result
    \<Rightarrow> (unit, retention_report) result \<times> string list" where
  "enforce_snapshot_retention fails dir =
     (case dir of
        Inl u \<Rightarrow> (Err u, [])
      | Inr entries \<Rightarrow>
          (case snapshot_candidates entries of
             Inl u \<Rightarrow> (Err u, [])
           | Inr cs \<Rightarrow>
               map_prod (map_sum id (\<lambda>(removed, bytes_removed, held).
                   \<lparr>ret_examined = length cs, ret_removed = removed, ret_bytes_removed = bytes_removed,
                    ret_retained_bytes = held\<rparr>)) id
                 (remove_oldest fails (candidate_order cs) (sum_list (map ca_size (candidate_order cs))) 0 0)))"

definition snapshot_final_name :: "u64 \<Rightarrow> string" where
  "snapshot_final_name ms = ''anomaly-'' @ dec (unat ms) @ ''.recorder''"

definition snapshot_temp_name :: "u64 \<Rightarrow> string" where
  "snapshot_temp_name ms = ''anomaly-'' @ dec (unat ms) @ ''.recorder.tmp''"

text \<open>
  The write: every call may fail, and a temporary file is left where the failure found it. The clock in
  milliseconds names the files.
\<close>

definition write_telemetry_file :: "u64 \<Rightarrow> io_faults \<Rightarrow> bytes \<Rightarrow> files \<Rightarrow> (unit, unit) result \<times> files" where
  "write_telemetry_file ms io content fs =
     (let tmp = snapshot_temp_name ms; target = snapshot_final_name ms in
      if fail_dir io \<or> fail_create io then (Err (), fs)
      else case fail_write io of
        Some n \<Rightarrow> (Err (), fs(tmp := Some (take n content)))
      | None \<Rightarrow>
          let fs1 = fs(tmp := Some content) in
          if fail_sync io \<or> fail_replace io then (Err (), fs1)
          else (Ok (), fs1(target := fs1 tmp, tmp := None)))"

definition remove_names :: "string list \<Rightarrow> files \<Rightarrow> files" where
  "remove_names gone fs = (\<lambda>n. if n \<in> set gone then None else fs n)"

text \<open>What reading the directory yields is a function of the files it holds.\<close>

definition write_snapshot_with_retention ::
    "(files \<Rightarrow> (unit, (unit, telemetry_entry) result list) result) \<Rightarrow> (string \<Rightarrow> bool) \<Rightarrow> io_faults \<Rightarrow> u64
     \<Rightarrow> anomaly_snapshot \<Rightarrow> files \<Rightarrow> (unit, string \<times> retention_report option) result \<times> files" where
  "write_snapshot_with_retention read_dir fails io ms snapshot fs =
     (case write_telemetry_file ms io (bytes_of (serialize_snapshot snapshot)) fs of
        (Inl u, fs1) \<Rightarrow> (Err u, fs1)
      | (Inr _, fs1) \<Rightarrow>
          let (report, gone) = enforce_snapshot_retention fails (read_dir fs1)
          in (Ok (snapshot_final_name ms, (case report of Inl _ \<Rightarrow> None | Inr r \<Rightarrow> Some r)), remove_names gone fs1))"

definition write_snapshot ::
    "(files \<Rightarrow> (unit, (unit, telemetry_entry) result list) result) \<Rightarrow> (string \<Rightarrow> bool) \<Rightarrow> io_faults \<Rightarrow> u64
     \<Rightarrow> anomaly_snapshot \<Rightarrow> files \<Rightarrow> (unit, string) result \<times> files" where
  "write_snapshot read_dir fails io ms snapshot fs =
     map_prod (map_sum id fst) id (write_snapshot_with_retention read_dir fails io ms snapshot fs)"

section \<open>Logs that are kept\<close>

lemma strip_prefix_self [simp]: "strip_prefix p (p @ s) = Some s"
  by (simp add: strip_prefix_Some)

lemma log_candidates_names:
  "log_candidates es = Ok cs \<Longrightarrow> c \<in> set cs \<Longrightarrow> daily_log_date_from_name (snd c) \<noteq> None"
proof (induction es arbitrary: cs rule: log_candidates.induct)
  case (3 e es)
  then show ?case
    by (fastforce simp: map_sum_eq_Inr log_candidate_def split: option.splits if_splits)
qed auto

lemma purge_expired_split:
  "purge_expired fails cutoff cs = (kept, gone) \<Longrightarrow>
     gone = map snd (filter (\<lambda>(t, n). t < cutoff \<and> \<not> fails n) cs)
     \<and> kept = filter (\<lambda>(t, n). \<not> (t < cutoff \<and> \<not> fails n)) cs"
  by (induction fails cutoff cs arbitrary: kept gone rule: purge_expired.induct) (auto split: prod.splits if_splits)

text \<open>Retention of daily logs. A pass that fails removes nothing; otherwise only daily log files are removed.
  When every removal succeeds, exactly the logs dated before the cutoff are removed, and of
  the others the oldest until 64 remain, and the report counts them: every examined log is either
  removed or retained.\<close>

theorem log_retention_exact:
  "case purge_expired_logs fails dir now of
     (Inl _, gone) \<Rightarrow> gone = []
   | (Inr report, gone) \<Rightarrow>
       \<exists>entries cs. dir = Ok entries \<and> log_candidates entries = Ok cs
         \<and> (\<forall>n\<in>set gone. daily_log_date_from_name n \<noteq> None \<and> \<not> fails n)
         \<and> (let cutoff = saturating_sub now (30 * 86400);
                young = filter (\<lambda>c. cutoff \<le> fst c) (sort_key fst cs)
            in (\<forall>n. \<not> fails n) \<longrightarrow>
                 gone = map snd (filter (\<lambda>c. fst c < cutoff) (sort_key fst cs)) @ map snd (take (length young - 64) young)
                 \<and> logs_retained report = min 64 (length young)
                 \<and> logs_examined report = logs_removed report + logs_retained report)"
proof (cases "purge_expired_logs fails dir now")
  case (Pair r gone)
  show ?thesis
  proof (cases r)
    case (Inl u)
    then show ?thesis
      using Pair by (auto simp: purge_expired_logs_def Let_def split: sum.splits prod.splits)
  next
    case (Inr report)
    then obtain entries cs where dir: "dir = Ok entries" "log_candidates entries = Ok cs"
      using Pair by (auto simp: purge_expired_logs_def split: sum.splits)
    define cutoff where "cutoff = saturating_sub now (30 * 86400)"
    let ?s = "sort_key fst cs"
    define kept where "kept = filter (\<lambda>(t, n). \<not> (t < cutoff \<and> \<not> fails n)) ?s"
    define gone1 where "gone1 = map snd (filter (\<lambda>(t, n). t < cutoff \<and> \<not> fails n) ?s)"
    have cut: "saturating_sub now 2592000 = cutoff"
      by (simp add: cutoff_def)
    have split: "purge_expired fails cutoff ?s = (kept, gone1)"
      using purge_expired_split [of fails cutoff ?s] by (cases "purge_expired fails cutoff ?s") (simp add: kept_def gone1_def)
    define over where "over = length kept - 64"
    have res: "gone = gone1 @ filter (\<lambda>n. \<not> fails n) (map snd (take over kept))"
      "report = \<lparr>logs_examined = length cs, logs_removed = length gone1 + length (filter (\<lambda>n. \<not> fails n) (map snd (take over kept))),
         logs_retained = length kept - over\<rparr>"
      using Pair Inr dir split
      by (simp_all add: purge_expired_logs_def Let_def LOG_RETENTION_DAYS_def MAX_RETAINED_LOG_FILES_def over_def cut)
    have names: "\<forall>n\<in>set gone. daily_log_date_from_name n \<noteq> None \<and> \<not> fails n"
      using log_candidates_names [OF dir(2)] by (auto simp: res(1) gone1_def kept_def dest!: in_set_takeD)
    have exact: "gone = map snd (filter (\<lambda>c. fst c < cutoff) ?s) @ map snd (take (length young - 64) young)
        \<and> logs_retained report = min 64 (length young) \<and> logs_examined report = logs_removed report + logs_retained report"
      if ok: "\<forall>n. \<not> fails n" and young: "young = filter (\<lambda>c. cutoff \<le> fst c) ?s" for young
    proof -
      have "kept = young" "gone1 = map snd (filter (\<lambda>c. fst c < cutoff) ?s)"
        using ok young by (auto simp: kept_def gone1_def not_less intro!: filter_cong arg_cong [of _ _ "map snd"])
      moreover have "length (filter (\<lambda>c. fst c < cutoff) ?s) + length young = length cs"
        using sum_length_filter_compl [of "\<lambda>c. fst c < cutoff" ?s] young by (simp add: not_less)
      ultimately show ?thesis
        using ok by (simp add: res over_def)
    qed
    show ?thesis
      using Pair Inr dir names exact by (auto simp: Let_def cut)
  qed
qed

lemma old_day_range:
  assumes "try_days_from_civil (int y) m d = Some days"
  shows "- 900000 < days \<and> (y < 1970 \<longrightarrow> days < 0)"
proof -
  have md: "1 \<le> m" "m \<le> 12" "1 \<le> d" "d \<le> days_in_month (int y) m" "days = days_from_civil (int y) m d"
    using assms by (auto simp: try_days_from_civil_def split: if_splits)
  then obtain era yoe mp where shifted: "shifted_date yoe mp d" "civil_of era yoe mp d = (int y, m, d)"
    using valid_date_shifted by blast
  then have bounds: "0 \<le> yoe" "yoe < 400" "mp < 12" "1 \<le> d" "d \<le> shifted_length yoe mp"
      "int y = yoe + era * 400 + (if mp < 10 then 0 else 1)"
    by (auto simp: shifted_date_def civil_of_def)
  define doy where "doy = month_start (int mp) + int d - 1"
  have day: "days = era * 146097 + year_start yoe + doy - 719468"
    using days_from_civil_of [OF shifted] md(5) by (simp add: day_number_def doy_def)
  have doy: "0 \<le> doy" "doy < leap_days yoe" "leap_days yoe \<le> 366"
    using month_of_doy [OF bounds(3-5)] by (simp_all add: doy_def leap_days_def)
  have early: "doy \<le> 305" if "mp < 10"
  proof -
    have "d \<le> 31"
      using md(4) by (auto simp: days_in_month_def split: if_splits)
    moreover have "month_start (int mp) \<le> 275"
      using that by (simp add: month_start_def)
    ultimately show ?thesis
      by (simp add: doy_def)
  qed
  have start: "0 \<le> year_start yoe" "year_start yoe + leap_days yoe \<le> 146097" "year_start yoe \<le> 365 * yoe + yoe div 4"
    using year_start_nonneg [OF bounds(1)] year_start_bound [OF bounds(1,2)] bounds(1)
    by (simp_all add: year_start_def pos_imp_zdiv_nonneg_iff)
  have "- 1 \<le> era"
    using bounds(2,6) by (simp split: if_splits)
  moreover have "days < 0" if "y < 1970"
  proof (cases "era \<le> 3")
    case True
    then show ?thesis
      using start(2) doy(2) by (simp add: day)
  next
    case False
    then have "era = 4" "yoe \<le> 369" "yoe = 369 \<longrightarrow> mp < 10"
      using that bounds(1,6) by (auto split: if_splits)
    then show ?thesis
      using early start(3) doy by (cases "yoe = 369") (auto simp: day year_start_def)
  qed
  ultimately show ?thesis
    using start(1) doy(1) by (simp add: day)
qed

text \<open>Logs dated before 1970 never expire. The day count of such a date is negative and is cast to an unsigned
  number before the multiplication, so its time is later than every cutoff of this age of the clock:
  the purge never takes the file for expired.\<close>

theorem old_logs_never_expire:
  assumes "daily_log_date_from_name name = Some (y, m, d)" and "y < 1970" and "unat now < 2 ^ 63"
    and "utc_day_to_unix_seconds y m d = Some t"
  shows "\<not> t < saturating_sub now (LOG_RETENTION_DAYS * 86400)"
proof -
  obtain days where days: "try_days_from_civil (int y) m d = Some days" "t = of_int days * 86400"
    using assms(4) by (auto simp: utc_day_to_unix_seconds_def)
  have range: "- 900000 < days" "days < 0"
    using old_day_range [OF days(1)] assms(2) by auto
  define k where "k = nat (- days) * 86400"
  have k: "k < 2 ^ 63" "of_int days * 86400 = (- of_nat k :: u64)"
    using range by (simp_all add: k_def)
  have "(of_nat (2 ^ 64 - k) :: u64) = - of_nat k"
    using k(1) by (simp add: of_nat_diff)
  then have "unat t = unat (of_nat (2 ^ 64 - k) :: u64)"
    by (simp add: days(2) k(2))
  moreover have "0 < k"
    using range by (simp add: k_def)
  ultimately have "unat t = 2 ^ 64 - k"
    using k(1) by (simp add: unat_of_nat take_bit_nat_eq_self)
  then have "2 ^ 63 \<le> unat t"
    using k(1) by simp
  moreover have "unat (saturating_sub now (LOG_RETENTION_DAYS * 86400)) < 2 ^ 63"
    using assms(3) by (simp add: rust_arith)
  ultimately show ?thesis
    by (simp add: word_less_nat_alt)
qed

lemma sample_old_log: "daily_log_date_from_name ''true-tick-1969-12-31.csv'' = Some (1969, 12, 31)"
    "utc_day_to_unix_seconds 1969 12 31 = Some (- 86400)"
  by code_simp+

theorem old_logs_never_expire_witness:
  "\<not> (- 86400 :: u64) < saturating_sub 1700000000 (LOG_RETENTION_DAYS * 86400)"
  using old_logs_never_expire [OF sample_old_log(1) _ _ sample_old_log(2), of 1700000000] by simp

section \<open>Snapshots that are kept\<close>

lemma remove_oldest_spec:
  assumes "remove_oldest fails cs held r b = (res, gone)" and "held = sum_list (map ca_size cs)"
  shows "\<exists>k\<le>length cs. gone = map ca_name (take k cs)
    \<and> (\<forall>j<k. 16 < length (drop j cs) \<or> 8388608 < sum_list (map ca_size (drop j cs)))
    \<and> (case res of
         Inl _ \<Rightarrow> k < length cs \<and> fails (ca_name (cs ! k))
       | Inr (r', b', h) \<Rightarrow> r' = r + k \<and> b' = b + sum_list (map ca_size (take k cs))
           \<and> h = sum_list (map ca_size (drop k cs)) \<and> length cs - k \<le> 16 \<and> h \<le> 8388608)"
  using assms
proof (induction fails cs held r b arbitrary: gone rule: remove_oldest.induct)
  case (2 fails c cs held r b)
  show ?case
  proof (cases "(16 < length (c # cs) \<or> 8388608 < held) \<and> \<not> fails (ca_name c)")
    case True
    then obtain gone' where rest: "remove_oldest fails cs (held - ca_size c) (r + 1) (b + ca_size c) = (res, gone')"
        "gone = ca_name c # gone'"
      using 2(2) by (cases "remove_oldest fails cs (held - ca_size c) (r + 1) (b + ca_size c)")
        (auto simp: MAX_RETAINED_SNAPSHOTS_def MAX_TELEMETRY_DIRECTORY_BYTES_def)
    have "held - ca_size c = sum_list (map ca_size cs)"
      using 2(3) by simp
    then obtain k where k: "k \<le> length cs" "gone' = map ca_name (take k cs)"
        "\<forall>j<k. 16 < length (drop j cs) \<or> 8388608 < sum_list (map ca_size (drop j cs))"
        "case res of Inl _ \<Rightarrow> k < length cs \<and> fails (ca_name (cs ! k))
         | Inr (r', b', h) \<Rightarrow> r' = r + 1 + k \<and> b' = b + ca_size c + sum_list (map ca_size (take k cs))
             \<and> h = sum_list (map ca_size (drop k cs)) \<and> length cs - k \<le> 16 \<and> h \<le> 8388608"
      using 2(1) [OF _ _ rest(1)] True by (auto simp: MAX_RETAINED_SNAPSHOTS_def MAX_TELEMETRY_DIRECTORY_BYTES_def)
    have "\<forall>j<Suc k. 16 < length (drop j (c # cs)) \<or> 8388608 < sum_list (map ca_size (drop j (c # cs)))"
      using k(3) True 2(3) by (auto simp: less_Suc_eq_0_disj)
    then show ?thesis
      using k rest(2) by (intro exI [of _ "Suc k"]) (auto split: sum.splits)
  next
    case False
    then show ?thesis
      using 2(2,3) by (intro exI [of _ 0]) (auto simp: MAX_RETAINED_SNAPSHOTS_def MAX_TELEMETRY_DIRECTORY_BYTES_def
          split: if_splits)
  qed
qed auto

lemma snapshot_candidate_names:
  "snapshot_candidates es = Ok cs \<Longrightarrow> c \<in> set cs \<Longrightarrow> is_snapshot_file_name (ca_name c)"
proof (induction es arbitrary: cs rule: snapshot_candidates.induct)
  case (3 e es)
  then show ?case
    by (auto simp: map_sum_eq_Inr split: option.splits if_splits prod.splits)
qed auto

text \<open>C20: Retention of anomaly snapshots. A pass removes the oldest matching files, by modification time and then name,
  and only as many as it must; when it succeeds at most 16 files and 8 mebibytes remain and the report
  gives their exact size, and the newest file is kept unless it alone is over the limit. A pass that stops at a
  removal that failed has removed the files before it, oldest first.\<close>

theorem snapshot_retention_bounds:
  "case enforce_snapshot_retention fails dir of
     (Inl _, gone) \<Rightarrow> gone = [] \<or>
       (\<exists>entries cs k. dir = Ok entries \<and> snapshot_candidates entries = Ok cs \<and> k < length cs
          \<and> gone = map ca_name (take k (candidate_order cs)) \<and> fails (ca_name (candidate_order cs ! k)))
   | (Inr report, gone) \<Rightarrow>
       \<exists>entries cs k. dir = Ok entries \<and> snapshot_candidates entries = Ok cs \<and> k \<le> length cs
         \<and> (let old = take k (candidate_order cs); kept = drop k (candidate_order cs) in
              gone = map ca_name old \<and> (\<forall>n\<in>set gone. is_snapshot_file_name n)
            \<and> length kept \<le> 16 \<and> sum_list (map ca_size kept) \<le> 8388608
            \<and> (\<forall>j<k. 16 < length cs - j \<or> 8388608 < sum_list (map ca_size (drop j (candidate_order cs))))
            \<and> (cs \<noteq> [] \<and> ca_size (last (candidate_order cs)) \<le> 8388608 \<longrightarrow> kept \<noteq> [])
            \<and> report = \<lparr>ret_examined = length cs, ret_removed = k, ret_bytes_removed = sum_list (map ca_size old),
                ret_retained_bytes = sum_list (map ca_size kept)\<rparr>)"
proof (cases "\<exists>entries cs. dir = Ok entries \<and> snapshot_candidates entries = Ok cs")
  case True
  then obtain entries cs where dir: "dir = Ok entries" "snapshot_candidates entries = Ok cs"
    by blast
  let ?s = "candidate_order cs"
  have s: "length ?s = length cs" "set ?s = set cs"
    by (simp_all add: candidate_order_def)
  obtain res gone where run: "remove_oldest fails ?s (sum_list (map ca_size ?s)) 0 0 = (res, gone)"
    by fastforce
  then obtain k where k: "k \<le> length ?s" "gone = map ca_name (take k ?s)"
      "\<forall>j<k. 16 < length (drop j ?s) \<or> 8388608 < sum_list (map ca_size (drop j ?s))"
      "case res of Inl _ \<Rightarrow> k < length ?s \<and> fails (ca_name (?s ! k))
       | Inr (r', b', h) \<Rightarrow> r' = 0 + k \<and> b' = 0 + sum_list (map ca_size (take k ?s))
           \<and> h = sum_list (map ca_size (drop k ?s)) \<and> length ?s - k \<le> 16 \<and> h \<le> 8388608"
    using remove_oldest_spec [OF run refl] by blast
  have result: "enforce_snapshot_retention fails dir = (map_sum id (\<lambda>(removed, bytes_removed, held).
      \<lparr>ret_examined = length cs, ret_removed = removed, ret_bytes_removed = bytes_removed, ret_retained_bytes = held\<rparr>) res, gone)"
    by (simp add: enforce_snapshot_retention_def dir run)
  have names: "\<forall>n\<in>set gone. is_snapshot_file_name n"
    using k(2) s(2) snapshot_candidate_names [OF dir(2)] by (auto dest!: in_set_takeD)
  have newest: "k < length ?s" if "cs \<noteq> []" "ca_size (last ?s) \<le> 8388608"
  proof (rule ccontr)
    assume "\<not> k < length ?s"
    then have "length ?s - 1 < k"
      using k(1) that(1) s(1) by auto
    moreover have "drop (length ?s - 1) ?s = [last ?s]"
      using that(1) s(1) by (metis append_butlast_last_id append_eq_conv_conj length_0_conv length_butlast)
    ultimately show False
      using k(3) that(2) s(1) by fastforce
  qed
  show ?thesis
  proof (cases res)
    case (Inl u)
    then show ?thesis
      using result dir k s(1) by auto
  next
    case (Inr p)
    then show ?thesis
      using result dir k s(1) names newest by (cases p) (auto simp: Let_def intro!: exI [of _ k])
  qed
qed (auto simp: enforce_snapshot_retention_def split: sum.splits)

definition sample_snapshot_dir :: "(unit, (unit, telemetry_entry) result list) result" where
  "sample_snapshot_dir = Ok [Ok \<lparr>te_name = ''anomaly-1.recorder'', te_is_file = Some True, te_metadata = Some (7, 5)\<rparr>,
     Ok \<lparr>te_name = ''notes.txt'', te_is_file = Some True, te_metadata = None\<rparr>]"

lemma sample_snapshot_pass:
  "enforce_snapshot_retention (\<lambda>_. False) sample_snapshot_dir
   = (Ok \<lparr>ret_examined = 1, ret_removed = 0, ret_bytes_removed = 0, ret_retained_bytes = 5\<rparr>, [])"
proof -
  have "is_snapshot_file_name ''anomaly-1.recorder''" "\<not> is_snapshot_file_name ''notes.txt''"
    by code_simp+
  then show ?thesis
    by (simp add: enforce_snapshot_retention_def sample_snapshot_dir_def candidate_order_def model_defs)
qed

theorem snapshot_retention_bounds_witness:
  "\<exists>report gone. enforce_snapshot_retention (\<lambda>_. False) sample_snapshot_dir = (Ok report, gone)
     \<and> ret_examined report = 1 \<and> ret_retained_bytes report \<le> 8388608"
  using snapshot_retention_bounds [where fails = "\<lambda>_. False" and dir = sample_snapshot_dir]
  by (auto simp: sample_snapshot_pass Let_def)

lemma telemetry_names_differ: "snapshot_temp_name ms \<noteq> snapshot_final_name ms"
  by (simp add: snapshot_temp_name_def snapshot_final_name_def)

interpretation snapshot_file: atomic_file "write_telemetry_file ms" "snapshot_final_name ms"
  for ms
  using telemetry_names_differ [of ms]
  by unfold_locales (auto simp: write_telemetry_file_def Let_def split: option.splits if_splits)

text \<open>
  The snapshot under a name is the one before, or the one that was written, complete; the retention pass
  behind the write removes nothing but snapshots.
\<close>

lemma snapshot_written_whole:
  assumes "write_snapshot_with_retention read_dir fails io ms snapshot fs = (r, fs')"
  shows "fs' (snapshot_final_name ms) \<in> {fs (snapshot_final_name ms), Some (bytes_of (serialize_snapshot snapshot)), None}
    \<and> (isl r \<longrightarrow> fs' (snapshot_final_name ms) = fs (snapshot_final_name ms))"
proof (cases "write_telemetry_file ms io (bytes_of (serialize_snapshot snapshot)) fs")
  case (Pair w fs1)
  then have "fs1 (snapshot_final_name ms) = (if isl w then fs (snapshot_final_name ms) else Some (bytes_of (serialize_snapshot snapshot)))"
    by (rule snapshot_file.replaced)
  then show ?thesis
    using assms Pair
    by (cases w) (auto simp: write_snapshot_with_retention_def remove_names_def split: prod.splits if_splits)
qed

lemma text_of_length [simp]: "length (text_of bs) = length bs"
  by (simp add: text_of_def)

lemma truncate_text_length: "length (truncate_text s n) \<le> n + 3"
  using whole_chars_length [of n "bytes_of s"] by (simp add: truncate_text_def truncate_utf8_def)

lemma snapshot_bounds:
  "length (snap_events (build_snapshot sha v d env es)) \<le> 64" "length (snap_detail (build_snapshot sha v d env es)) \<le> 1027"
  using truncate_text_length [of d 1024]
  by (simp_all add: build_snapshot_def Let_def MAX_SNAPSHOT_EVENTS_def MAX_SNAPSHOT_DETAIL_BYTES_def)

end
