(* ===== verification/Client.thy ===== *)
theory Client
  imports Server Text
begin

text \<open>
  Model of the client side of \<open>crates/tick-ipc\<close>: the session token file, the connection loop of the pipe
  client, one request and reply over overlapped input and output, and the text of a protocol error.

  A Win32 call is its documented result, an input. The events that back overlapped operations are counted,
  so that a leaked or twice closed event is visible.
\<close>

section \<open>Error text\<close>

definition upper_hex_char :: "nat \<Rightarrow> char" where
  "upper_hex_char n = (if n < 10 then char_of (48 + n) else char_of (55 + n))"

fun upper_hex :: "nat \<Rightarrow> nat \<Rightarrow> string" where
  "upper_hex 0 n = []"
| "upper_hex (Suc w) n = upper_hex w (n div 16) @ [upper_hex_char (n mod 16)]"

text \<open>The operating system error is shown as a signed number.\<close>

definition dec_signed :: "u32 \<Rightarrow> string" where
  "dec_signed w = (if sint w < 0 then CHR ''-'' # dec (nat (- sint w)) else dec (nat (sint w)))"

fun ipc_error_display :: "ipc_error \<Rightarrow> string" where
  "ipc_error_display InvalidMagic = ''invalid IPC magic header bytes''"
| "ipc_error_display (UnsupportedVersion found) = ''unsupported protocol version: '' @ dec (unat found)"
| "ipc_error_display (PayloadTooLarge n) = ''payload exceeds limit: '' @ dec n @ '' bytes''"
| "ipc_error_display PayloadTruncated = ''frame data truncated before completion''"
| "ipc_error_display (InvalidCommandVerb v) = ''unknown or invalid command verb: '' @ dec (unat v)"
| "ipc_error_display (IntervalOutOfBounds r) = ''requested interval '' @ dec (unat r) @ '' HNS is out of bounds''"
| "ipc_error_display (CrcMismatch e c) =
     ''CRC32 mismatch (expected '' @ upper_hex 8 (unat e) @ '', calculated '' @ upper_hex 8 (unat c) @ '')''"
| "ipc_error_display UnauthorizedToken = ''invalid or unauthorized session token''"
| "ipc_error_display (RateLimitExceeded caller) = ''rate limit exceeded for client PID '' @ dec (unat caller)"
| "ipc_error_display MalformedToken = ''malformed session token encoding''"
| "ipc_error_display MalformedResponse = ''malformed IPC response frame''"
| "ipc_error_display (TransportIo raw) = ''IPC transport I/O failure, OS error code '' @ dec_signed raw"
| "ipc_error_display IpcUnsupported = ''operation is not supported on this platform''"
| "ipc_error_display (ScheduleOutOfBounds s) = ''schedule delay '' @ dec (unat s) @ '' seconds is outside 10 to 86400''"
| "ipc_error_display (TrailingBytes e f) = ''frame carries '' @ dec f @ '' bytes, expected '' @ dec e"
| "ipc_error_display (ScheduleIdMismatch p) =
     ''schedule action id '' @ dec (unat p) @ '' does not match the active schedule''"

section \<open>Token file\<close>

definition write_token_file :: "session_token \<Rightarrow> bytes" where
  "write_token_file t = to_hex t"

definition trim_line_ends :: "bytes \<Rightarrow> bytes" where
  "trim_line_ends bs = rev (dropWhile (\<lambda>b. b = 0x0A \<or> b = 0x0D) (rev bs))"

text \<open>Reading gives the content or the text of the failure; content that is not UTF-8 is such a failure too.\<close>

definition read_token_file :: "(string, bytes) result \<Rightarrow> (string, session_token) result" where
  "read_token_file content =
     (case content of
        Inl message \<Rightarrow> Err message
      | Inr bs \<Rightarrow>
          (case from_hex (trim_line_ends bs) of
             Inl e \<Rightarrow> Err (ipc_error_display e)
           | Inr t \<Rightarrow> Ok t))"

section \<open>Connecting\<close>

text \<open>
  One attempt to open the pipe: a handle with the outcome of switching it to message mode, or the
  error, and when that is a busy pipe the outcome of the wait.
\<close>

datatype pipe_attempt =
    PipeOpened "u32 option"
  | PipeOpenFailed u32 "u32 option"

text \<open>
  The result and whether a handle stays open. \<^term>\<open>None\<close>: the server is still busy after all attempts given.
\<close>

fun pipe_connect :: "pipe_attempt list \<Rightarrow> ((u32, unit) result \<times> bool) option" where
  "pipe_connect [] = None"
| "pipe_connect (PipeOpened mode # rest) =
     (case mode of None \<Rightarrow> Some (Ok (), True) | Some e \<Rightarrow> Some (Err e, False))"
| "pipe_connect (PipeOpenFailed e wait # rest) =
     (if e \<noteq> ERROR_PIPE_BUSY then Some (Err e, False)
      else case wait of None \<Rightarrow> pipe_connect rest | Some w \<Rightarrow> Some (Err w, False))"

section \<open>One exchange\<close>

datatype drain_outcome = Drained nat | DrainTimedOut | DrainFailed u32

datatype overlapped_call =
    NoEvent u32
  | CompletedNow nat
  | CallFailed u32
  | Pended drain_outcome

text \<open>The error of a custom kind carries no code of the operating system and becomes minus one.\<close>

definition drain_overlapped :: "drain_outcome \<Rightarrow> nat \<Rightarrow> (ipc_error, nat) result \<times> nat" where
  "drain_overlapped d events =
     (case d of
        Drained n \<Rightarrow> (Ok n, events - 1)
      | DrainTimedOut \<Rightarrow> (Err (TransportIo (- 1)), events - 1)
      | DrainFailed e \<Rightarrow> (Err (TransportIo e), events - 1))"

definition overlapped_transfer :: "overlapped_call \<Rightarrow> nat \<Rightarrow> (ipc_error, nat) result \<times> nat" where
  "overlapped_transfer c events =
     (case c of
        NoEvent e \<Rightarrow> (Err (TransportIo e), events)
      | CompletedNow n \<Rightarrow> (Ok n, events + 1 - 1)
      | CallFailed e \<Rightarrow> (Err (TransportIo e), events + 1 - 1)
      | Pended d \<Rightarrow> drain_overlapped d (events + 1))"

text \<open>
  The reply is what the server wrote in answer to the bytes it received. The result comes with the bytes
  handed to the pipe and the number of open events.
\<close>

definition client_exchange :: "session_token \<Rightarrow> command_verb \<Rightarrow> bytes \<Rightarrow> overlapped_call \<Rightarrow> overlapped_call
    \<Rightarrow> (bytes \<Rightarrow> bytes) \<Rightarrow> nat \<Rightarrow> (ipc_error, ipc_response) result \<times> bytes \<times> nat" where
  "client_exchange t v p write_call read_call server events =
     (case frame_new t v p of
        Inl e \<Rightarrow> (Err e, [], events)
      | Inr f \<Rightarrow>
          let bs = serialize f in
          case overlapped_transfer write_call events of
            (Inl e, ev1) \<Rightarrow> (Err e, [], ev1)
          | (Inr written, ev1) \<Rightarrow>
              if written \<noteq> length bs then (Err (TransportIo (- 1)), take written bs, ev1)
              else case overlapped_transfer read_call ev1 of
                (Inl e, ev2) \<Rightarrow> (Err e, bs, ev2)
              | (Inr n, ev2) \<Rightarrow> (decode_response (take n (server bs)), bs, ev2))"

section \<open>Facts\<close>

lemma transfer_balanced: "snd (overlapped_transfer c events) = events"
  by (auto simp: overlapped_transfer_def drain_overlapped_def split: overlapped_call.split drain_outcome.split)

lemma trim_line_ends_id: "bs = [] \<or> last bs \<notin> {0x0A, 0x0D} \<Longrightarrow> trim_line_ends bs = bs"
  by (cases bs rule: rev_cases) (auto simp: trim_line_ends_def)

lemma to_hex_nibbles: "b \<in> set (to_hex t) \<Longrightarrow> hex_nibble b \<noteq> None"
  using hex_nibble_digit high_nibble low_nibble by (induction t) (auto simp: to_hex_def)

lemma to_hex_line_end: "to_hex t = [] \<or> last (to_hex t) \<notin> {0x0A, 0x0D}"
proof -
  have "hex_nibble 0x0A = None" "hex_nibble 0x0D = None"
    by (simp_all add: hex_nibble_def)
  then show ?thesis
    using to_hex_nibbles [of "last (to_hex t)" t] last_in_set by fastforce
qed

lemma token_file_round_trip:
  assumes "token_ok t"
  shows "read_token_file (Ok (write_token_file t)) = Ok t"
proof -
  have "from_hex (to_hex t) = Ok t"
    using assms hex_pairs_to_hex [of t] length_to_hex [of t] by (simp add: from_hex_def token_ok_def TOKEN_LEN_def)
  moreover have "trim_line_ends (to_hex t) = to_hex t"
    using to_hex_line_end by (rule trim_line_ends_id)
  ultimately show ?thesis
    by (simp add: read_token_file_def write_token_file_def)
qed

text \<open>One exchange of the client. Whatever the calls return, no event is left open or closed twice. When a
  response is returned, the pipe received exactly the frame of the request, which the server's decoder turns
  back into the token, the verb and the payload, and the response is the decoding of what the server wrote.\<close>

theorem client_exchange_faithful:
  assumes "token_ok t"
  shows "snd (snd (client_exchange t v p w r server events)) = events
    \<and> (case client_exchange t v p w r server events of
         (Inl _, _) \<Rightarrow> True
       | (Inr response, sent, _) \<Rightarrow>
           deserialize sent = Ok \<lparr>token = t, verb = v, payload = p\<rparr>
           \<and> (\<exists>n. decode_response (take n (server sent)) = Ok response))"
proof (cases "frame_new t v p")
  case (Inl e)
  then show ?thesis
    by (simp add: client_exchange_def)
next
  case (Inr f)
  then have f: "f = \<lparr>token = t, verb = v, payload = p\<rparr>" "frame_ok f"
    using assms by (auto simp: frame_new_def frame_ok_def token_ok_def split: if_splits)
  obtain rw where w: "overlapped_transfer w events = (rw, events)"
    using transfer_balanced [of w events] by (cases "overlapped_transfer w events") auto
  obtain rr where r: "overlapped_transfer r events = (rr, events)"
    using transfer_balanced [of r events] by (cases "overlapped_transfer r events") auto
  show ?thesis
    using Inr w r deserialize_serialize [OF f(2)] f(1)
    by (auto simp: client_exchange_def Let_def split: sum.splits)
qed

definition sample_token :: session_token where
  "sample_token = replicate 32 7"

theorem client_exchange_faithful_witness:
  "token_ok sample_token \<and>
   snd (snd (client_exchange sample_token RequestRelease [] (CompletedNow 48) (Pended DrainTimedOut) id 0)) = 0"
  using client_exchange_faithful [of sample_token RequestRelease "[]" "CompletedNow 48" "Pended DrainTimedOut" id 0]
  by (simp add: token_ok_def sample_token_def TOKEN_LEN_def)

end
