(* ===== verification/Cli.thy ===== *)
theory Cli
  imports Client Core
begin

text \<open>
  Model of \<open>apps/true-tick-cli/src/main.rs\<close>: argument parsing, the payloads, the exchange with the tray, the
  reports with their exit codes, the start of the engine and the wait for it, the log reader and the JSON form
  of a status.

  Arguments and paths are strings; a path is joined with a backslash as on Windows, and the directory of
  the executable is an input. What the program prints is a list of lines for standard output and one for
  standard error.
\<close>

section \<open>Requests\<close>

definition EXIT_OK :: nat where [model_defs]: "EXIT_OK = 0"
definition EXIT_FAILURE :: nat where [model_defs]: "EXIT_FAILURE = 1"
definition EXIT_UNREACHABLE :: nat where [model_defs]: "EXIT_UNREACHABLE = 2"
definition DEFAULT_LOG_TAIL :: nat where [model_defs]: "DEFAULT_LOG_TAIL = 20"
definition DAEMON_TOKEN_TIMEOUT_MS :: nat where [model_defs]: "DAEMON_TOKEN_TIMEOUT_MS = 10000"
definition DAEMON_TOKEN_POLL_MS :: nat where [model_defs]: "DAEMON_TOKEN_POLL_MS = 50"
definition PIPE_NAME :: string where
  "PIPE_NAME = [CHR 0x5C, CHR 0x5C, CHR ''.'', CHR 0x5C] @ ''pipe'' @ [CHR 0x5C] @ ''TrueTick-Ipc-v1''"
definition VERSION :: string where "VERSION = ''0.1.0''"

datatype cli_request =
    CliStatus bool
  | CliStart "u64 option"
  | CliStop
  | CliSchedule schedule_action_kind u32
  | CliCancel "u32 option"
  | CliDaemon
  | CliLogs nat "string option"
  | CliHelp
  | CliVersion

datatype cli_parse_error =
    MissingSubcommand
  | UnknownSubcommand string
  | MissingArgument string
  | InvalidArgument string

datatype run_error = Failure string | Unreachable string

fun exit_code :: "run_error \<Rightarrow> nat" where
  "exit_code (Failure _) = EXIT_FAILURE"
| "exit_code (Unreachable _) = EXIT_UNREACHABLE"

fun describe_parse_error :: "cli_parse_error \<Rightarrow> string" where
  "describe_parse_error MissingSubcommand = ''missing subcommand''"
| "describe_parse_error (UnknownSubcommand name) = ''unknown subcommand `'' @ name @ ''`''"
| "describe_parse_error (MissingArgument what) = ''missing argument '' @ what"
| "describe_parse_error (InvalidArgument what) = ''invalid argument '' @ what"

text \<open>The last \<open>--root\<close> wins; the rest of the arguments keeps its order.\<close>

fun extract_root :: "string list \<Rightarrow> (cli_parse_error, string option \<times> string list) result" where
  "extract_root [] = Ok (None, [])"
| "extract_root [a] = (if a = ''--root'' then Err (MissingArgument ''--root <path>'') else Ok (None, [a]))"
| "extract_root (a # b # args) =
     (if a = ''--root'' then
        map_sum id (\<lambda>(root, rest). (Some (case root of None \<Rightarrow> b | Some r \<Rightarrow> r), rest)) (extract_root args)
      else map_sum id (\<lambda>(root, rest). (root, a # rest)) (extract_root (b # args)))"

fun parse_schedule_action :: "string \<Rightarrow> schedule_action_kind option" where
  "parse_schedule_action name =
     (if name = ''start-in'' then Some KindStart
      else if name = ''stop-in'' then Some KindStop
      else if name = ''pause'' then Some KindPause
      else None)"

definition quoted :: "string \<Rightarrow> string \<Rightarrow> string" where
  "quoted what text = what @ '' `'' @ text @ ''`''"

definition parse_word :: "nat \<Rightarrow> string \<Rightarrow> 'a::len word option" where
  "parse_word bound s = map_option of_nat (parse_unsigned bound s)"

fun parse_status :: "bool \<Rightarrow> string list \<Rightarrow> (cli_parse_error, cli_request) result" where
  "parse_status json [] = Ok (CliStatus json)"
| "parse_status json (a # rest) = (if a = ''--json'' then parse_status True rest else Err (InvalidArgument a))"

fun parse_start_options :: "u64 option \<Rightarrow> string list \<Rightarrow> (cli_parse_error, cli_request) result" where
  "parse_start_options interval [] = Ok (CliStart interval)"
| "parse_start_options interval (a # rest) =
     (if a = ''--interval'' then
        (case rest of
           [] \<Rightarrow> Err (MissingArgument ''--interval <hns>'')
         | v # others \<Rightarrow>
             (case parse_word (2 ^ 64 - 1) v of
                None \<Rightarrow> Err (InvalidArgument (quoted ''--interval'' v))
              | Some n \<Rightarrow> parse_start_options (Some n) others))
      else Err (InvalidArgument a))"

definition parse_cancel :: "string list \<Rightarrow> (cli_parse_error, cli_request) result" where
  "parse_cancel rest =
     (case rest of
        [] \<Rightarrow> Ok (CliCancel None)
      | [i] \<Rightarrow>
          (case parse_word (2 ^ 32 - 1) i of
             None \<Rightarrow> Err (InvalidArgument (quoted ''cancel action id'' i))
           | Some n \<Rightarrow> Ok (CliCancel (Some n)))
      | _ # extra # _ \<Rightarrow> Err (InvalidArgument extra))"

definition parse_schedule :: "string list \<Rightarrow> (cli_parse_error, cli_request) result" where
  "parse_schedule rest =
     (case rest of
        [] \<Rightarrow> Err (MissingArgument ''schedule <start-in|stop-in|pause> <seconds>'')
      | action # others \<Rightarrow>
          (case parse_schedule_action action of
             None \<Rightarrow> Err (InvalidArgument (quoted ''schedule action'' action))
           | Some kind \<Rightarrow>
               (case others of
                  [] \<Rightarrow> Err (MissingArgument ''schedule <seconds>'')
                | s # extra \<Rightarrow>
                    (case parse_word (2 ^ 32 - 1) s of
                       None \<Rightarrow> Err (InvalidArgument (quoted ''schedule seconds'' s))
                     | Some n \<Rightarrow>
                         (case extra of [] \<Rightarrow> Ok (CliSchedule kind n) | x # _ \<Rightarrow> Err (InvalidArgument x))))))"

definition valid_log_date :: "string \<Rightarrow> bool" where
  "valid_log_date v =
     (length v = 10 \<and> v ! 4 = CHR ''-'' \<and> v ! 7 = CHR ''-''
      \<and> list_all (\<lambda>i. i = 4 \<or> i = 7 \<or> is_digit (v ! i)) [0..<10])"

fun parse_logs :: "nat \<Rightarrow> string option \<Rightarrow> string list \<Rightarrow> (cli_parse_error, cli_request) result" where
  "parse_logs tail date [] = Ok (CliLogs tail date)"
| "parse_logs tail date [a] =
     (if a = ''--tail'' then Err (MissingArgument ''--tail <n>'')
      else if a = ''--date'' then Err (MissingArgument ''--date <yyyy-mm-dd>'')
      else Err (InvalidArgument a))"
| "parse_logs tail date (a # v # rest) =
     (if a = ''--tail'' then
        (case parse_unsigned (2 ^ 64 - 1) v of
           None \<Rightarrow> Err (InvalidArgument (quoted ''--tail'' v))
         | Some n \<Rightarrow> parse_logs n date rest)
      else if a = ''--date'' then
        (if \<not> valid_log_date v then Err (InvalidArgument (quoted ''--date'' v))
         else parse_logs tail (Some v) rest)
      else Err (InvalidArgument a))"

definition expect_no_args :: "string list \<Rightarrow> cli_request \<Rightarrow> (cli_parse_error, cli_request) result" where
  "expect_no_args rest request = (case rest of [] \<Rightarrow> Ok request | extra # _ \<Rightarrow> Err (InvalidArgument extra))"

definition parse_args :: "string list \<Rightarrow> (cli_parse_error, cli_request) result" where
  "parse_args args =
     (case args of
        [] \<Rightarrow> Err MissingSubcommand
      | sub # rest \<Rightarrow>
          if sub = ''status'' then parse_status False rest
          else if sub = ''start'' then parse_start_options None rest
          else if sub = ''stop'' then expect_no_args rest CliStop
          else if sub = ''cancel'' then parse_cancel rest
          else if sub = ''daemon'' then expect_no_args rest CliDaemon
          else if sub = ''schedule'' then parse_schedule rest
          else if sub = ''logs'' then parse_logs DEFAULT_LOG_TAIL None rest
          else if sub = ''help'' then expect_no_args rest CliHelp
          else if sub = ''version'' then expect_no_args rest CliVersion
          else Err (UnknownSubcommand sub))"

section \<open>Paths\<close>

definition path_join :: "string \<Rightarrow> string \<Rightarrow> string" where
  "path_join a b =
     (if a = [] \<or> last a \<in> {CHR 0x5C, CHR ''/''} \<or> length a = 2 \<and> a ! 1 = CHR '':'' then a @ b
      else a @ [CHR 0x5C] @ b)"

definition resolve_root :: "string option \<Rightarrow> string option \<Rightarrow> string" where
  "resolve_root executable_dir override =
     (case override of Some root \<Rightarrow> root | None \<Rightarrow> (case executable_dir of Some d \<Rightarrow> d | None \<Rightarrow> ''.''))"

definition TOKEN_FILE_NAME :: string where "TOKEN_FILE_NAME = ''ipc-token''"
definition SERVER_PID_FILE_NAME :: string where "SERVER_PID_FILE_NAME = ''ipc-server-pid''"

definition token_path :: "string \<Rightarrow> string" where
  "token_path root = path_join (path_join (path_join root ''Data'') ''state'') TOKEN_FILE_NAME"

definition server_pid_path :: "string \<Rightarrow> string" where
  "server_pid_path root = path_join (path_join (path_join root ''Data'') ''state'') SERVER_PID_FILE_NAME"

definition log_directory :: "string \<Rightarrow> string" where
  "log_directory root = path_join (path_join root ''Data'') ''logs''"

definition daily_log_path :: "string \<Rightarrow> string \<Rightarrow> string" where
  "daily_log_path root date = path_join (log_directory root) (''true-tick-'' @ date @ ''.csv'')"

section \<open>Status as JSON\<close>

function split_whitespace :: "string \<Rightarrow> string list" where
  "split_whitespace s =
     (case next_word s of
        None \<Rightarrow> []
      | Some (w, r) \<Rightarrow> if length r < length s then w # split_whitespace r else [w])"
  by pat_completeness auto
termination by (relation "measure length") auto

declare split_whitespace.simps [simp del]

definition lower_hex_digit :: "nat \<Rightarrow> char" where
  "lower_hex_digit n = (if n < 10 then char_of (48 + n) else char_of (87 + n))"

fun json_escape :: "string \<Rightarrow> string" where
  "json_escape [] = []"
| "json_escape (c # cs) =
     (if c = CHR 0x22 then [CHR 0x5C, CHR 0x22]
      else if c = CHR 0x5C then [CHR 0x5C, CHR 0x5C]
      else if c = CHR 0x0A then CHR 0x5C # ''n''
      else if c = CHR 0x0D then CHR 0x5C # ''r''
      else if c = CHR 0x09 then CHR 0x5C # ''t''
      else if (of_char c :: nat) < 32
        then CHR 0x5C # ''u00'' @ [lower_hex_digit (of_char c div 16), lower_hex_digit (of_char c mod 16)]
      else [c]) @ json_escape cs"

definition json_member :: "string \<times> string \<Rightarrow> string" where
  "json_member kv =
     (case kv of (k, v) \<Rightarrow>
        [CHR 0x22] @ json_escape k @ [CHR 0x22, CHR '':'']
        @ (case parse_unsigned (2 ^ 64 - 1) v of
             Some n \<Rightarrow> dec n
           | None \<Rightarrow> [CHR 0x22] @ json_escape v @ [CHR 0x22]))"

definition status_members :: "string \<Rightarrow> (string \<times> string) list" where
  "status_members text =
     filter (\<lambda>(k, v). v \<noteq> ''unknown'') (List.map_filter (split_once (CHR ''='')) (split_whitespace text))"

definition status_json :: "string \<Rightarrow> string" where
  "status_json text = ''{'' @ join_with '','' (map json_member (status_members text)) @ ''}''"

section \<open>Commands\<close>

record cli_output =
  cli_exit :: nat
  cli_out :: "string list"
  cli_err :: "string list"

definition prints :: "string \<Rightarrow> cli_output" where
  "prints line = \<lparr>cli_exit = EXIT_OK, cli_out = [line], cli_err = []\<rparr>"

fun report_response :: "ipc_response \<Rightarrow> cli_output" where
  "report_response (RespStatus text) = prints (text_of text)"
| "report_response (RespAcquired h) = prints (''acquired effective_hns='' @ dec (unat h))"
| "report_response RespReleased = prints ''released''"
| "report_response (RespScheduled i) = prints (''scheduled action_id='' @ dec (unat i))"
| "report_response RespCancelled = prints ''cancelled''"
| "report_response (RespError e) =
     \<lparr>cli_exit = EXIT_FAILURE, cli_out = [], cli_err = [''error: '' @ ipc_error_display e]\<rparr>"

definition report_error :: "run_error \<Rightarrow> cli_output" where
  "report_error e =
     \<lparr>cli_exit = exit_code e, cli_out = [],
      cli_err = [case e of Unreachable m \<Rightarrow> ''unreachable: '' @ m | Failure m \<Rightarrow> ''error: '' @ m]\<rparr>"

text \<open>What the program meets outside itself.\<close>

record cli_env =
  env_token_file :: "(string, bytes) result"
  env_connect :: "(string, unit) result"
  env_write :: overlapped_call
  env_read :: overlapped_call
  env_server :: "bytes \<Rightarrow> bytes"
  env_log_file :: "string \<Rightarrow> (string, string) result"
  env_now_secs :: nat

definition acquire_payload :: "u64 option \<Rightarrow> (run_error, bytes) result" where
  "acquire_payload interval =
     (case interval of
        None \<Rightarrow> Ok []
      | Some hns \<Rightarrow>
          (case encode_interval_payload hns of
             Inl e \<Rightarrow> Err (Failure (''invalid --interval value '' @ dec (unat hns) @ '': '' @ ipc_error_display e))
           | Inr p \<Rightarrow> Ok p))"

definition exchange :: "cli_env \<Rightarrow> string \<Rightarrow> command_verb \<Rightarrow> bytes \<Rightarrow> (run_error, ipc_response) result" where
  "exchange env root v p =
     (case read_token_file (env_token_file env) of
        Inl m \<Rightarrow> Err (Unreachable (''cannot read session token at '' @ token_path root @ '': '' @ m))
      | Inr t \<Rightarrow>
          (case env_connect env of
             Inl m \<Rightarrow> Err (Unreachable (''cannot reach true-tick at '' @ PIPE_NAME @ '': '' @ m))
           | Inr _ \<Rightarrow>
               (case fst (client_exchange t v p (env_write env) (env_read env) (env_server env) 0) of
                  Inl e \<Rightarrow> Err (Failure (''ipc exchange failed: '' @ ipc_error_display e))
                | Inr r \<Rightarrow> Ok r)))"

definition tail_lines :: "string \<Rightarrow> nat \<Rightarrow> string list" where
  "tail_lines text n = (let ls = lines text in drop (length ls - n) ls)"

definition utc_date_today :: "nat \<Rightarrow> string" where
  "utc_date_today seconds = (case civil_from_days (int (seconds div 86400)) of (y, m, d) \<Rightarrow> format_ymd y m d)"

definition run_logs :: "cli_env \<Rightarrow> string \<Rightarrow> nat \<Rightarrow> string option \<Rightarrow> cli_output" where
  "run_logs env root tail date =
     (let day = (case date of Some d \<Rightarrow> d | None \<Rightarrow> utc_date_today (env_now_secs env));
          path = daily_log_path root day
      in case env_log_file env path of
           Inl m \<Rightarrow> \<lparr>cli_exit = EXIT_FAILURE, cli_out = [], cli_err = [''error: cannot read log file '' @ path @ '': '' @ m]\<rparr>
         | Inr text \<Rightarrow> \<lparr>cli_exit = EXIT_OK, cli_out = tail_lines text tail, cli_err = []\<rparr>)"

definition report_exchange :: "(run_error, ipc_response) result \<Rightarrow> cli_output" where
  "report_exchange r = (case r of Inl e \<Rightarrow> report_error e | Inr response \<Rightarrow> report_response response)"

text \<open>The verb and the payload a request sends, for the requests that talk to the tray.\<close>

fun request_message :: "cli_request \<Rightarrow> (run_error, command_verb \<times> bytes) result option" where
  "request_message (CliStatus json) = Some (Ok (QueryStatus, []))"
| "request_message (CliStart interval) = Some (map_sum id (Pair RequestAcquire) (acquire_payload interval))"
| "request_message CliStop = Some (Ok (RequestRelease, []))"
| "request_message (CliSchedule kind seconds) = Some (Ok (ScheduleAction, encode_schedule_payload kind seconds))"
| "request_message (CliCancel action) =
     Some (Ok (CancelSchedule, (case action of None \<Rightarrow> [] | Some i \<Rightarrow> u32_to_le i)))"
| "request_message _ = None"

text \<open>The commands that talk to the tray; a status is printed as JSON on request.\<close>

definition run_message :: "cli_env \<Rightarrow> string \<Rightarrow> cli_request \<Rightarrow> (run_error, command_verb \<times> bytes) result \<Rightarrow> cli_output" where
  "run_message env root request message =
     (case message of
        Inl e \<Rightarrow> report_error e
      | Inr (v, p) \<Rightarrow>
          (case (request, exchange env root v p) of
             (CliStatus True, Inr (RespStatus text)) \<Rightarrow> prints (status_json (text_of text))
           | (_, r) \<Rightarrow> report_exchange r))"

section \<open>Starting the engine\<close>

definition daemon_candidates :: "string \<Rightarrow> string option \<Rightarrow> string list" where
  "daemon_candidates root executable_dir =
     (let beside = (case executable_dir of None \<Rightarrow> [] | Some d \<Rightarrow> [d]);
          launchers = (if root \<in> set beside then beside else beside @ [root])
      in map (\<lambda>d. path_join d ''true-tick.exe'') beside @ [path_join root ''true-tick.exe'']
         @ map (\<lambda>slot. path_join (path_join (path_join root ''Slots'') slot) ''true-tick.exe'') [''A'', ''B'']
         @ map (\<lambda>d. path_join d ''Launcher.exe'') launchers)"

definition resolve_daemon_target :: "(string \<Rightarrow> bool) \<Rightarrow> string \<Rightarrow> string \<Rightarrow> string option \<Rightarrow> (run_error, string) result" where
  "resolve_daemon_target is_file executable root executable_dir =
     (case find is_file (daemon_candidates root executable_dir) of
        Some c \<Rightarrow> Ok c
      | None \<Rightarrow> Err (Failure (''no true-tick engine found beside '' @ executable @ '' or under '' @ root)))"

text \<open>
  One attempt to open the pipe for its server's process id: the id or the error of asking for it, or the error of
  opening, and when that is a busy pipe the outcome of the wait. \<^term>\<open>None\<close> is a loop that still waits.
\<close>

datatype pid_attempt =
    PidAnswer "(string, u32) result"
  | PidOpenFailed u32 string "string option"

fun serving_pipe_pid :: "pid_attempt list \<Rightarrow> (string, u32) result option" where
  "serving_pipe_pid [] = None"
| "serving_pipe_pid (PidAnswer r # rest) = Some r"
| "serving_pipe_pid (PidOpenFailed e message wait # rest) =
     (if e \<noteq> ERROR_PIPE_BUSY then Some (Err message)
      else case wait of None \<Rightarrow> serving_pipe_pid rest | Some m \<Rightarrow> Some (Err m))"

record pid_probe =
  probe_marker :: "(string, string) result"
  probe_attempts :: "pid_attempt list"

definition verify_server_pid :: "pid_probe \<Rightarrow> (string, unit) result option" where
  "verify_server_pid probe =
     (case probe_marker probe of
        Inl m \<Rightarrow> Some (Err (''cannot read server pid marker: '' @ m))
      | Inr marker \<Rightarrow>
          (case parse_word (2 ^ 32 - 1) (trim marker) of
             None \<Rightarrow> Some (Err (''server pid marker `'' @ marker @ ''` is not a pid''))
           | Some expected \<Rightarrow>
               map_option (\<lambda>served.
                 case served of
                   Inl m \<Rightarrow> Err (''cannot identify the engine serving '' @ PIPE_NAME @ '': '' @ m)
                 | Inr actual \<Rightarrow>
                     if actual = expected then Ok ()
                     else Err (''server pid mismatch: marker pid '' @ dec (unat expected) @ '' but serving pid ''
                            @ dec (unat actual)))
                 (serving_pipe_pid (probe_attempts probe))))"

record daemon_poll =
  poll_time :: nat
  poll_token_exists :: bool
  poll_connects :: bool
  poll_probe :: pid_probe

text \<open>The wait for the engine; \<^term>\<open>None\<close> when the polls given end before the deadline or a probe still waits for the
  pipe.\<close>

fun await_engine :: "nat \<Rightarrow> daemon_poll list \<Rightarrow> bool option" where
  "await_engine deadline [] = None"
| "await_engine deadline (p # ps) =
     (if \<not> poll_time p < deadline then Some False
      else if poll_token_exists p \<and> poll_connects p then
        (case verify_server_pid (poll_probe p) of
           None \<Rightarrow> None
         | Some r \<Rightarrow> if \<not> isl r then Some True else await_engine deadline ps)
      else await_engine deadline ps)"

datatype daemon_step = RemoveFile string | Spawn string

record daemon_env =
  de_connects :: bool
  de_probe :: pid_probe
  de_is_file :: "string \<Rightarrow> bool"
  de_remove_warnings :: "string list"
  de_spawn :: "(string, unit) result"
  de_start :: nat
  de_polls :: "daemon_poll list"

definition run_daemon :: "daemon_env \<Rightarrow> string \<Rightarrow> string \<Rightarrow> string option \<Rightarrow> (cli_output \<times> daemon_step list) option" where
  "run_daemon env executable root executable_dir =
     (if de_connects env then
        map_option (\<lambda>r.
          case r of
            Inr _ \<Rightarrow> (prints ''daemon already running'', [])
          | Inl m \<Rightarrow> (report_error (Failure m), [])) (verify_server_pid (de_probe env))
      else
        case resolve_daemon_target (de_is_file env) executable root executable_dir of
          Inl e \<Rightarrow> Some (report_error e, [])
        | Inr target \<Rightarrow>
            let steps = [RemoveFile (token_path root), RemoveFile (server_pid_path root)];
                warn = (\<lambda>r. r\<lparr>cli_err := de_remove_warnings env @ cli_err r\<rparr>)
            in case de_spawn env of
                 Inl m \<Rightarrow> Some (warn (report_error (Failure (''cannot spawn '' @ target @ '': '' @ m))), steps)
               | Inr _ \<Rightarrow>
                   map_option (\<lambda>ready.
                     let r = (if ready then prints ''spawned true-tick daemon''
                              else (report_error (Unreachable (''spawned engine did not publish '' @ token_path root
                                     @ '' and serve '' @ PIPE_NAME @ '' within '' @ dec DAEMON_TOKEN_TIMEOUT_MS @ '' ms'')))
                                   \<lparr>cli_out := [''spawned true-tick daemon'']\<rparr>)
                     in (warn r, steps @ [Spawn target]))
                     (await_engine (de_start env + DAEMON_TOKEN_TIMEOUT_MS) (de_polls env)))"

section \<open>The program\<close>

definition usage_lines :: "string list" where
  "usage_lines =
     [''true-tick-cli - command line control surface for a running True Tick tray'', [],
      ''USAGE:'', ''    true-tick-cli [--root <path>] <subcommand> [options]'', [],
      ''GLOBAL OPTIONS:'', ''    --root <path>   Application data root holding the Data directory.'',
      ''                    Defaults to the directory containing this executable.'', [],
      ''SUBCOMMANDS:'',
      ''    status [--json]            Query tray status. --json prints {'' @ [CHR 0x22] @ ''status'' @ [CHR 0x22]
        @ '': '' @ [CHR 0x22] @ ''...'' @ [CHR 0x22] @ ''}.'',
      ''    start [--interval <hns>]   Acquire the timer. Interval is in 100-nanosecond'',
      ''                               units. Omit it for automatic selection.'',
      ''    stop                       Release the timer.'',
      ''    schedule <start-in|stop-in|pause> <seconds>'',
      ''                               Arm a timed start, stop, or pause action.'',
      ''                               Seconds must be within [10, 86400].'',
      ''    cancel [action-id]          Cancel a pending scheduled action. Without'',
      ''                               an id every pending action is cleared.'',
      ''    daemon                     Launch the headless background engine.'',
      ''                               Exits quietly when an instance is already up.'',
      ''    logs [--tail N] [--date YYYY-MM-DD]'',
      ''                               Print the last N lines of the daily CSV log.'',
      ''                               Defaults to N=20 and the current UTC date.'',
      ''                               Reads the file directly, no tray needed.'',
      ''    help                       Print this usage text.'',
      ''    version                    Print the version.'', [],
      ''EXIT CODES:'', ''    0   Success.'', ''    1   Command, usage, parse, or protocol error.'',
      ''    2   Tray cannot be reached or the session token file cannot be'',
      ''        read, meaning the application is not running.'']"

definition cli_run :: "cli_env \<Rightarrow> daemon_env \<Rightarrow> string \<Rightarrow> string option \<Rightarrow> string list \<Rightarrow> (cli_output \<times> daemon_step list) option" where
  "cli_run env denv executable executable_dir args =
     (case extract_root args of
        Inl e \<Rightarrow> Some (\<lparr>cli_exit = EXIT_FAILURE, cli_out = [], cli_err = [''error: '' @ describe_parse_error e]\<rparr>, [])
      | Inr (override, rest) \<Rightarrow>
          (case parse_args rest of
             Inl MissingSubcommand \<Rightarrow> Some (\<lparr>cli_exit = EXIT_FAILURE, cli_out = [], cli_err = usage_lines\<rparr>, [])
           | Inl e \<Rightarrow> Some (\<lparr>cli_exit = EXIT_FAILURE, cli_out = [],
                 cli_err = [''error: '' @ describe_parse_error e, ''try `true-tick-cli help`'']\<rparr>, [])
           | Inr request \<Rightarrow>
               let root = resolve_root executable_dir override in
               case request of
                 CliHelp \<Rightarrow> Some (\<lparr>cli_exit = EXIT_OK, cli_out = usage_lines, cli_err = []\<rparr>, [])
               | CliVersion \<Rightarrow> Some (prints VERSION, [])
               | CliLogs tail date \<Rightarrow> Some (run_logs env root tail date, [])
               | CliDaemon \<Rightarrow> run_daemon denv executable root executable_dir
               | _ \<Rightarrow>
                   (case request_message request of
                      None \<Rightarrow> None
                    | Some message \<Rightarrow> Some (run_message env root request message, []))))"

section \<open>Reading the JSON back\<close>

datatype json_value = JNum nat | JStr string

definition hex_val :: "char \<Rightarrow> nat" where
  "hex_val c = (if (of_char c :: nat) < 58 then of_char c - 48 else of_char c - 87)"

definition unescape_char :: "char \<Rightarrow> char" where
  "unescape_char c =
     (if c = CHR ''n'' then CHR 0x0A else if c = CHR ''r'' then CHR 0x0D else if c = CHR ''t'' then CHR 0x09 else c)"

text \<open>A reader for a string behind its opening quote, and for a flat object.\<close>

fun read_json_string :: "string \<Rightarrow> (string \<times> string) option" where
  "read_json_string [] = None"
| "read_json_string (c # cs) =
     (if c = CHR 0x22 then Some ([], cs)
      else if c = CHR 0x5C then
        (case cs of
           [] \<Rightarrow> None
         | e # r \<Rightarrow>
             if e = CHR ''u'' then
               (case r of
                  a # b # h # l # r2 \<Rightarrow>
                    map_option (apfst ((#) (char_of (16 * hex_val h + hex_val l)))) (read_json_string r2)
                | _ \<Rightarrow> None)
             else map_option (apfst ((#) (unescape_char e))) (read_json_string r))
      else if (of_char c :: nat) < 32 then None
      else map_option (apfst ((#) c)) (read_json_string cs))"

definition read_json_value :: "string \<Rightarrow> (json_value \<times> string) option" where
  "read_json_value s =
     (case s of
        [] \<Rightarrow> None
      | c # cs \<Rightarrow>
          if c = CHR 0x22 then map_option (apfst JStr) (read_json_string cs)
          else if is_digit c then Some (JNum (dec_value (takeWhile is_digit s)), dropWhile is_digit s)
          else None)"

fun read_members :: "nat \<Rightarrow> string \<Rightarrow> ((string \<times> json_value) list \<times> string) option" where
  "read_members (Suc n) (q # s) =
     (if q \<noteq> CHR 0x22 then None
      else case read_json_string s of
        Some (k, c # s1) \<Rightarrow>
          if c \<noteq> CHR '':'' then None
          else (case read_json_value s1 of
             Some (v, d # s2) \<Rightarrow>
               if d = CHR '','' then map_option (apfst ((#) (k, v))) (read_members n s2)
               else if d = CHR ''}'' then Some ([(k, v)], s2)
               else None
           | _ \<Rightarrow> None)
      | _ \<Rightarrow> None)"
| "read_members _ _ = None"

definition read_object :: "string \<Rightarrow> (string \<times> json_value) list option" where
  "read_object s =
     (if s = ''{}'' then Some []
      else case s of
        c # r \<Rightarrow>
          if c \<noteq> CHR ''{'' then None
          else (case read_members (length r) r of Some (ms, []) \<Rightarrow> Some ms | _ \<Rightarrow> None)
      | [] \<Rightarrow> None)"

definition json_of :: "string \<Rightarrow> json_value" where
  "json_of v = (case parse_unsigned (2 ^ 64 - 1) v of Some n \<Rightarrow> JNum n | None \<Rightarrow> JStr v)"

lemma hex_val_digit: "n < 16 \<Longrightarrow> hex_val (lower_hex_digit n) = n"
  by (simp add: hex_val_def lower_hex_digit_def)

lemma read_escaped: "read_json_string (json_escape s @ CHR 0x22 # r) = Some (s, r)"
proof (induction s)
  case (Cons c s)
  have "char_of (16 * hex_val (lower_hex_digit (of_char c div 16)) + hex_val (lower_hex_digit (of_char c mod 16))) = c"
    by (simp add: hex_val_digit div_less_dividend less_mult_imp_div_less)
  then show ?case
    using Cons by (auto simp: unescape_char_def)
qed simp

lemma digits_until: "\<forall>c\<in>set s. is_digit c \<Longrightarrow> \<not> is_digit d \<Longrightarrow>
    takeWhile is_digit (s @ d # r) = s \<and> dropWhile is_digit (s @ d # r) = d # r"
  by (induction s) auto

lemma read_dec_value:
  assumes "d \<in> {CHR '','', CHR ''}''}"
  shows "read_json_value (dec n @ d # r) = Some (JNum n, d # r)"
proof -
  obtain c cs where c: "dec n = c # cs"
    using dec_nonempty [of n] by (cases "dec n") auto
  have "is_digit c" "c \<noteq> CHR 0x22"
    using dec_digits [of n] c by (auto simp: is_digit_def)
  moreover have "\<not> is_digit d"
    using assms by (auto simp: is_digit_def)
  ultimately show ?thesis
    using digits_until [OF dec_digits, of d n r] dec_value_dec [of n] c by (simp add: read_json_value_def)
qed

lemma read_member:
  assumes "d \<in> {CHR '','', CHR ''}''}"
  shows "read_members (Suc n) (json_member (k, v) @ d # r) =
    (if d = CHR '','' then map_option (apfst ((#) (k, json_of v))) (read_members n r) else Some ([(k, json_of v)], r))"
proof -
  define shown where "shown = (case parse_unsigned (2 ^ 64 - 1) v of Some n \<Rightarrow> dec n
      | None \<Rightarrow> [CHR 0x22] @ json_escape v @ [CHR 0x22])"
  have val: "read_json_value (shown @ d # r) = Some (json_of v, d # r)"
    using read_dec_value [OF assms] read_escaped [of v "d # r"]
    by (cases "parse_unsigned (2 ^ 64 - 1) v") (simp_all add: shown_def json_of_def read_json_value_def)
  have "json_member (k, v) @ d # r = CHR 0x22 # json_escape k @ CHR 0x22 # CHR '':'' # shown @ d # r"
    by (simp add: json_member_def shown_def)
  then show ?thesis
    using assms by (auto simp: read_escaped val)
qed

lemma read_joined:
  "ms \<noteq> [] \<Longrightarrow> length ms \<le> n \<Longrightarrow>
   read_members n (join_with '','' (map json_member ms) @ ''}'') = Some (map (\<lambda>(k, v). (k, json_of v)) ms, [])"
proof (induction ms arbitrary: n)
  case (Cons m ms)
  obtain k v where m: "m = (k, v)"
    by (cases m)
  obtain n' where n': "n = Suc n'"
    using Cons.prems by (cases n) auto
  show ?case
  proof (cases ms)
    case Nil
    then show ?thesis
      using read_member [of "CHR ''}''" n' k v "[]"] by (simp add: m n')
  next
    case (Cons m2 ms2)
    then have "read_members n' (join_with '','' (map json_member ms) @ ''}'') = Some (map (\<lambda>(k, v). (k, json_of v)) ms, [])"
      using Cons.IH [of n'] Cons.prems n' by simp
    then show ?thesis
      using read_member [of "CHR '',''" n' k v "join_with '','' (map json_member ms) @ ''}''"] Cons by (simp add: m n')
  qed
qed simp

lemma members_length: "length ms \<le> length (join_with '','' (map json_member ms))"
proof (induction ms)
  case (Cons m ms)
  have "1 \<le> length (json_member m)"
    by (auto simp: json_member_def split: prod.split)
  then show ?case
    using Cons by (cases ms) auto
qed simp

text \<open>C25: The JSON form of a status is a well-formed object that reads back to the members of the status text. A member
  is a word with an equals sign whose value is not \<open>unknown\<close>; its value is a number when it parses as an
  unsigned 64-bit number and otherwise the same text, whatever quotes, backslashes and control characters it
  has.\<close>

theorem status_json_reads_back:
  "read_object (status_json text) = Some (map (\<lambda>(k, v). (k, json_of v)) (status_members text))"
proof (cases "status_members text")
  case Nil
  then show ?thesis
    by (simp add: status_json_def read_object_def)
next
  case (Cons m ms)
  let ?body = "join_with '','' (map json_member (status_members text))"
  have "?body \<noteq> []"
    using members_length [of "status_members text"] Cons by auto
  moreover have "read_members (length (?body @ ''}'')) (?body @ ''}'')
      = Some (map (\<lambda>(k, v). (k, json_of v)) (status_members text), [])"
    using Cons members_length [of "status_members text"] by (intro read_joined) auto
  ultimately show ?thesis
    by (cases ?body) (auto simp: status_json_def read_object_def)
qed

section \<open>Arguments\<close>

text \<open>The arguments that ask for a request, with the subcommands and options as the usage text names them.\<close>

fun request_args :: "cli_request \<Rightarrow> string list" where
  "request_args (CliStatus json) = ''status'' # (if json then [''--json''] else [])"
| "request_args (CliStart interval) = ''start'' # (case interval of None \<Rightarrow> [] | Some i \<Rightarrow> [''--interval'', dec (unat i)])"
| "request_args CliStop = [''stop'']"
| "request_args (CliSchedule kind seconds) =
     [''schedule'', (case kind of KindStart \<Rightarrow> ''start-in'' | KindStop \<Rightarrow> ''stop-in'' | KindPause \<Rightarrow> ''pause''), dec (unat seconds)]"
| "request_args (CliCancel action) = ''cancel'' # (case action of None \<Rightarrow> [] | Some i \<Rightarrow> [dec (unat i)])"
| "request_args CliDaemon = [''daemon'']"
| "request_args (CliLogs tail date) =
     [''logs'', ''--tail'', dec tail] @ (case date of None \<Rightarrow> [] | Some d \<Rightarrow> [''--date'', d])"
| "request_args CliHelp = [''help'']"
| "request_args CliVersion = [''version'']"

fun cli_request_ok :: "cli_request \<Rightarrow> bool" where
  "cli_request_ok (CliLogs tail date) = (tail < 2 ^ 64 \<and> (case date of None \<Rightarrow> True | Some d \<Rightarrow> valid_log_date d))"
| "cli_request_ok _ = True"

lemma parse_word_dec [simp]:
  "parse_word 18446744073709551615 (dec (unat (w :: u64))) = Some w" "parse_word 4294967295 (dec (unat (v :: u32))) = Some v"
  using unat_lt_power [of w] unat_lt_power [of v] by (simp_all add: parse_word_def)

lemma parse_request_args: "cli_request_ok r \<Longrightarrow> parse_args (request_args r) = Ok r"
  by (cases r)
    (auto simp: parse_args_def expect_no_args_def parse_cancel_def parse_schedule_def DEFAULT_LOG_TAIL_def
      split: option.split schedule_action_kind.split)

lemma extract_root_plain: "''--root'' \<notin> set args \<Longrightarrow> extract_root args = Ok (None, args)"
  by (induction args rule: extract_root.induct) auto

lemma extract_root_first: "''--root'' \<notin> set args \<Longrightarrow> extract_root (''--root'' # path # args) = Ok (Some path, args)"
  by (simp add: extract_root_plain)

section \<open>The wait for the engine\<close>

text \<open>The process that serves the pipe is the one the marker file names.\<close>

definition identified :: "pid_probe \<Rightarrow> bool" where
  "identified probe \<longleftrightarrow> (\<exists>marker pid. probe_marker probe = Ok marker \<and> parse_word (2 ^ 32 - 1) (trim marker) = Some pid
     \<and> serving_pipe_pid (probe_attempts probe) = Some (Ok pid))"

lemma verify_identified:
  assumes "verify_server_pid probe = Some r" shows "isl r \<longleftrightarrow> \<not> identified probe"
proof (cases "serving_pipe_pid (probe_attempts probe)")
  case None
  then show ?thesis
    using assms by (auto simp: verify_server_pid_def identified_def split: sum.splits option.splits)
next
  case (Some served)
  then show ?thesis
    using assms by (cases served) (auto simp: verify_server_pid_def identified_def split: sum.splits option.splits if_splits)
qed

lemma verify_returns: "serving_pipe_pid (probe_attempts probe) \<noteq> None \<Longrightarrow> \<exists>r. verify_server_pid probe = Some r"
  by (auto simp: verify_server_pid_def split: sum.split option.split)

definition answered :: "nat \<Rightarrow> daemon_poll \<Rightarrow> bool" where
  "answered deadline p \<longleftrightarrow> poll_time p < deadline \<and> poll_token_exists p \<and> poll_connects p \<and> identified (poll_probe p)"

lemma await_engine_verified: "await_engine deadline ps = Some True \<Longrightarrow> \<exists>p\<in>set ps. answered deadline p"
  by (induction deadline ps rule: await_engine.induct)
    (auto simp: answered_def verify_identified split: if_splits option.splits)

lemma await_engine_ends:
  "\<forall>i<length ps. start + 50 * i \<le> poll_time (ps ! i) \<Longrightarrow> deadline \<le> start + 50 * (length ps - 1) \<Longrightarrow> ps \<noteq> [] \<Longrightarrow>
   \<forall>p\<in>set ps. serving_pipe_pid (probe_attempts (poll_probe p)) \<noteq> None \<Longrightarrow> \<exists>b. await_engine deadline ps = Some b"
proof (induction ps arbitrary: start)
  case (Cons p ps)
  show ?case
  proof (cases "poll_time p < deadline")
    case True
    then have "ps \<noteq> []"
      using Cons.prems by force
    moreover have "\<forall>i<length ps. (start + 50) + 50 * i \<le> poll_time (ps ! i)"
      using Cons.prems(1) by (auto dest: spec [of _ "Suc _"])
    moreover have "deadline \<le> (start + 50) + 50 * (length ps - 1)"
      using Cons.prems(2) \<open>ps \<noteq> []\<close> by (cases ps) auto
    ultimately have "\<exists>b. await_engine deadline ps = Some b"
      using Cons.IH [of "start + 50"] Cons.prems(4) by auto
    moreover obtain r where "verify_server_pid (poll_probe p) = Some r"
      using verify_returns [of "poll_probe p"] Cons.prems(4) by auto
    ultimately show ?thesis
      using True by auto
  qed auto
qed simp

definition spawned :: "daemon_step list \<Rightarrow> string list" where
  "spawned steps = List.map_filter (\<lambda>s. case s of Spawn t \<Rightarrow> Some t | RemoveFile _ \<Rightarrow> None) steps"


definition sample_daemon_env :: daemon_env where
  "sample_daemon_env = \<lparr>de_connects = False, de_probe = \<lparr>probe_marker = Err [], probe_attempts = [PidAnswer (Err [])]\<rparr>,
     de_is_file = (\<lambda>_. True), de_remove_warnings = [], de_spawn = Ok (), de_start = 0,
     de_polls = map (\<lambda>i. \<lparr>poll_time = 50 * i, poll_token_exists = True, poll_connects = True,
       poll_probe = \<lparr>probe_marker = Ok ''7'', probe_attempts = [PidOpenFailed ERROR_PIPE_BUSY [] None, PidAnswer (Ok 7)]\<rparr>\<rparr>) [0..<201]\<rparr>"

lemma sample_marker: "parse_word 4294967295 (trim ''7'') = Some (7 :: u32)"
proof -
  have "dec (unat (7 :: u32)) = ''7''"
    by code_simp
  then show ?thesis
    using parse_word_dec(2) [of 7] trim_plain_ends [OF dec_plain_ends, of 7] by simp
qed


end
