(* ===== verification/Quiet.thy ===== *)
theory Quiet
  imports Handlers
begin

text \<open>
  Invariants of the engine and its handlers that hold whatever they return: no acquisition stays queued unless a handoff
  is running, and a release that settles leaves the timer released.
\<close>

section \<open>What holds of a result\<close>

definition ends :: "('s \<Rightarrow> bool) \<Rightarrow> 's option \<Rightarrow> bool" where
  "ends J m \<longleftrightarrow> (\<forall>b. m = Some b \<longrightarrow> J b)"

lemma ends_None [simp]: "ends J None"
  by (simp add: ends_def)

lemma ends_Some [simp]: "ends J (Some b) = J b"
  by (simp add: ends_def)

lemma ends_bind: "ends I m \<Longrightarrow> (\<And>x. I x \<Longrightarrow> ends J (k x)) \<Longrightarrow> ends J (m \<bind> k)"
  by (cases m) (simp_all add: ends_def)

lemma ends_map: "ends J (map_option f m) = ends (\<lambda>x. J (f x)) m"
  by (auto simp: ends_def)

lemma ends_if: "(c \<Longrightarrow> ends J m) \<Longrightarrow> (\<not> c \<Longrightarrow> ends J k) \<Longrightarrow> ends J (if c then m else k)"
  by simp

lemma endsD: "ends J m \<Longrightarrow> m = Some b \<Longrightarrow> J b"
  by (simp add: ends_def)

section \<open>Queued acquisitions\<close>

definition quiet :: "'p app \<Rightarrow> bool" where
  "quiet a \<longleftrightarrow> (handoff a = None \<longrightarrow> pending (desired a) \<noteq> Some Acquire)"

lemma quiet_update [simp]:
  "quiet (a\<lparr>app_status := st\<rparr>) = quiet a" "quiet (a\<lparr>controller := c\<rparr>) = quiet a"
  "quiet (a\<lparr>running_since := rs\<rparr>) = quiet a" "quiet (a\<lparr>timing := tm\<rparr>) = quiet a"
  "quiet (a\<lparr>timing_snapshot_valid := v\<rparr>) = quiet a" "quiet (a\<lparr>external_timing := x\<rparr>) = quiet a"
  "quiet (a\<lparr>pause := p\<rparr>) = quiet a" "quiet (a\<lparr>duration_timer := dt\<rparr>) = quiet a"
  "quiet (a\<lparr>schedule_display_timer_active := v\<rparr>) = quiet a" "quiet (a\<lparr>pending_resume_on_ac := v\<rparr>) = quiet a"
  "quiet (a\<lparr>last_block_reason := lb\<rparr>) = quiet a" "quiet (a\<lparr>last_publication := lp\<rparr>) = quiet a"
  "quiet (a\<lparr>tray_icon := v\<rparr>) = quiet a" "quiet (a\<lparr>app_invalid_interval := v\<rparr>) = quiet a"
  "quiet (a\<lparr>tiering := ti\<rparr>) = quiet a" "quiet (a\<lparr>mirror := mi\<rparr>) = quiet a" "quiet (a\<lparr>env := e\<rparr>) = quiet a"
  "quiet (a\<lparr>config := cf\<rparr>) = quiet a" "quiet (a\<lparr>power_now := pw\<rparr>) = quiet a"
  "quiet (a\<lparr>battery_saver_now := bs\<rparr>) = quiet a" "quiet (a\<lparr>responsiveness_degraded := v\<rparr>) = quiet a"
  "quiet (a\<lparr>handoff := Some h\<rparr>)"
  by (simp_all add: quiet_def)

lemma quiet_parts [simp]:
  "quiet (apply_transition tr a) = quiet a" "quiet (count_native a) = quiet a" "quiet (publish_mirrors a) = quiet a"
  "quiet (refresh_ipc_status a) = quiet a" "quiet (sync_timing_snapshot a) = quiet a"
  "quiet (cancel_duration_timer a) = quiet a" "quiet (kill_schedule_display_timer a) = quiet a"
  "quiet (begin_schedule_display_timer a) = quiet a" "quiet (refresh_timing_observation P a) = quiet a"
  "quiet (count_rejection a) = quiet a" "quiet (refresh_power native a) = quiet a" "quiet (snd (tier_step a)) = quiet a"
  by (simp_all add: quiet_def count_native_def publish_mirrors_def refresh_ipc_status_def sync_timing_snapshot_def
      cancel_duration_timer_def kill_schedule_display_timer_def begin_schedule_display_timer_def native_call_def
      refresh_timing_observation_def count_rejection_def refresh_power_def tier_step_def Let_def
      split: prod.split option.split)

lemma quiet_taken: "intent_take q = (taken, q') \<Longrightarrow> quiet (a\<lparr>desired := q'\<rparr>)"
  by (auto simp: quiet_def intent_take_def)

definition quiet_calls :: "'p calls \<Rightarrow> bool" where
  "quiet_calls f \<longleftrightarrow> (\<forall>c a. c = CallProcessIntent \<or> quiet a \<longrightarrow> ends (\<lambda>(r, b). quiet b) (f c a))"

lemma quiet_call: "quiet_calls f \<Longrightarrow> c = CallProcessIntent \<or> quiet a \<Longrightarrow> ends (\<lambda>(r, b). quiet b) (f c a)"
  unfolding quiet_calls_def by blast

abbreviation quiet_end :: "'p outcome \<Rightarrow> bool" where
  "quiet_end \<equiv> ends (\<lambda>(r, b). quiet b)"

lemma quiet_bind:
  "quiet_end m \<Longrightarrow> (\<And>r b. quiet b \<Longrightarrow> quiet_end (k (r, b))) \<Longrightarrow> quiet_end (m \<bind> k)"
  by (rule ends_bind [of "\<lambda>(r, b). quiet b"]) auto

lemma quiet_publish_body:
  assumes f: "quiet_calls f" and "quiet a"
  shows "quiet_end (publish_body f a)"
  using assms(2) by (auto simp: publish_body_def Let_def native_call_def intro!: quiet_bind quiet_call [OF f])

lemma quiet_tier_body:
  assumes f: "quiet_calls f" and "quiet a"
  shows "quiet_end (refresh_operating_tier_body f a)"
  using assms(2) quiet_parts(12) [of a]
  by (cases "tier_step a") (auto simp: refresh_operating_tier_body_def intro!: quiet_bind quiet_call [OF f])

lemma quiet_arm_body:
  assumes f: "quiet_calls f" and "quiet a"
  shows "quiet_end (arm_duration_timer_body f a)"
  using assms(2) by (auto simp: arm_duration_timer_body_def native_call_def intro!: quiet_bind quiet_call [OF f])

lemma quiet_show_body:
  assumes f: "quiet_calls f" and "quiet a"
  shows "quiet_end (show_ownership_status_body f st a)"
  using assms(2) by (auto simp: show_ownership_status_body_def intro!: quiet_call [OF f])

lemma quiet_handoff_body:
  assumes f: "quiet_calls f" and "quiet a"
  shows "quiet_end (begin_handoff_body f bd st a)"
  using assms(2) by (auto simp: begin_handoff_body_def Let_def native_call_def intro!: quiet_bind quiet_call [OF f])

lemma quiet_release_body:
  assumes f: "quiet_calls f" and "quiet a"
  shows "quiet_end (guarded_release_body P f st a)"
  using assms(2) by (auto simp: guarded_release_body_def Let_def intro!: quiet_bind quiet_call [OF f]
      split: prod.split sum.split option.split)

lemma quiet_outcome [simp]:
  "quiet (case r of Inl (RequestFailed x) \<Rightarrow> count_rejection a | Inl _ \<Rightarrow> a | Inr v \<Rightarrow> a\<lparr>last_block_reason := lb\<rparr>) = quiet a"
  by (cases r; cases "projl r") auto

lemma quiet_acquire_body:
  assumes f: "quiet_calls f" and "quiet a"
  shows "quiet_end (acquire_timer_body P f a)"
  using assms(2) by (auto simp: acquire_timer_body_def Let_def intro!: quiet_bind quiet_call [OF f] split: prod.split)

lemma quiet_policy_body:
  assumes f: "quiet_calls f" and "quiet a"
  shows "quiet_end (release_for_policy_body f rs a)"
  using assms(2) by (auto simp: release_for_policy_body_def Let_def intro!: quiet_bind quiet_call [OF f])

lemma quiet_process_body:
  assumes f: "quiet_calls f"
  shows "quiet_end (process_desired_intent_body f a)"
proof (cases "handoff a")
  case None
  obtain taken q where take: "intent_take (desired a) = (taken, q)"
    by fastforce
  then have "quiet (a\<lparr>desired := q\<rparr>)"
    by (rule quiet_taken)
  moreover have "quiet (a\<lparr>desired := intent_request Release q\<rparr>)"
    by (simp add: quiet_def intent_request_def)
  ultimately show ?thesis
    using None take
    by (auto simp: process_desired_intent_body_def Let_def intro!: quiet_bind quiet_call [OF f]
        split: option.split desired_intent.split)
next
  case (Some h)
  then have "quiet a"
    by (simp add: quiet_def)
  then show ?thesis
    using Some by (auto simp: process_desired_intent_body_def intro!: quiet_call [OF f])
qed

lemma quiet_queue_body:
  assumes f: "quiet_calls f" and "quiet a"
  shows "quiet_end (queue_intent_body f i a)"
  using assms(2) by (cases "handoff a")
    (auto simp: queue_intent_body_def Let_def releasing_status_def intro!: quiet_call [OF f], simp_all add: quiet_def)

lemma engine_quiet: "quiet_calls (engine P n)"
proof (induction n)
  case 0
  then show ?case
    by (simp add: quiet_calls_def)
next
  case (Suc n)
  show ?case
    unfolding quiet_calls_def
  proof (intro allI impI)
    fix c and a :: "'a app"
    assume "c = CallProcessIntent \<or> quiet a"
    with Suc show "quiet_end (engine P (Suc n) c a)"
      by (cases c) (auto intro!: quiet_publish_body quiet_tier_body quiet_arm_body quiet_show_body quiet_handoff_body
          quiet_release_body quiet_acquire_body quiet_policy_body quiet_process_body quiet_queue_body)
  qed
qed

section \<open>The handlers keep it\<close>

definition quiet_step :: "'p step \<Rightarrow> bool" where
  "quiet_step f \<longleftrightarrow> (\<forall>a. quiet a \<longrightarrow> ends quiet (f a))"

lemma quiet_stepD: "quiet_step f \<Longrightarrow> quiet a \<Longrightarrow> ends quiet (f a)"
  by (simp add: quiet_step_def)

lemma ends_call: "c = CallProcessIntent \<or> quiet a \<Longrightarrow> ends quiet (call P n c a)"
  using quiet_call [OF engine_quiet, of c a P n] by (auto simp: call_def ends_map case_prod_unfold)

lemma ends_engine_call: "quiet a \<Longrightarrow> (\<And>r b. quiet b \<Longrightarrow> ends quiet (k (r, b))) \<Longrightarrow> ends quiet (engine P n c a \<bind> k)"
  using quiet_call [OF engine_quiet, of c a P n] by (cases "engine P n c a") (auto simp: ends_def)

lemma ends_quiet_bind: "ends quiet m \<Longrightarrow> (\<And>b. quiet b \<Longrightarrow> ends quiet (k b)) \<Longrightarrow> ends quiet (m \<bind> k)"
  by (rule ends_bind)

lemma quiet_policy: "quiet_step (apply_policy P n)"
  by (auto simp: quiet_step_def apply_policy_def Let_def intro!: ends_call split: option.split)

lemma quiet_simple:
  "quiet_step (reconcile P n)" "quiet_step (manual_start P n)" "quiet_step (manual_stop P n)"
  "quiet_step (handle_schedule_display_timer P n)" "quiet_step (call P n c)"
  by (auto simp: quiet_step_def reconcile_def manual_start_def manual_stop_def handle_schedule_display_timer_def
      intro!: ends_call quiet_stepD [OF quiet_policy])

lemma quiet_power: "quiet_step (apply_power_reconciliation P n)"
  by (auto simp: quiet_step_def apply_power_reconciliation_def
      intro!: ends_call ends_engine_call quiet_stepD [OF quiet_policy] split: power_reconciliation.split)

lemma quiet_power_change: "quiet_step (release_for_power_change P n)"
  by (auto simp: quiet_step_def release_for_power_change_def intro!: quiet_stepD [OF quiet_power])

lemma quiet_duration: "quiet_step (schedule_duration_action P n act d)"
  by (auto simp: quiet_step_def schedule_duration_action_def Let_def
      intro!: ends_call ends_engine_call ends_quiet_bind)

lemma quiet_preset: "quiet_step (schedule_preset_action P n act i ps)"
  by (auto simp: quiet_step_def schedule_preset_action_def intro!: quiet_stepD [OF quiet_duration])

lemma quiet_cancel: "quiet_step (cancel_scheduled_action P n native)"
  by (auto simp: quiet_step_def cancel_scheduled_action_def Let_def intro!: quiet_stepD [OF quiet_power])

lemma quiet_execute: "quiet_step (execute_scheduled_action P n native s)"
  by (auto simp: quiet_step_def execute_scheduled_action_def Let_def
      intro!: ends_call quiet_stepD [OF quiet_simple(1)] split: duration_action.split)

lemma quiet_duration_timer: "quiet_step (handle_duration_timer P n native k)"
  by (auto simp: quiet_step_def handle_duration_timer_def Let_def
      intro!: ends_call quiet_stepD [OF quiet_execute] split: option.split coordinator_timer_event.split)

text \<open>The end of a handoff serves the queue, so what was queued does not matter.\<close>

lemma quiet_finish: "ends quiet (finish_handoff P n st ext a)"
  unfolding finish_handoff_def
  by (rule ends_bind [where I = "\<lambda>_. True"])
    (auto simp: ends_def [of "\<lambda>_. True"] intro!: ends_quiet_bind ends_call)

lemma quiet_handoff_timer: "quiet_step (handle_handoff_timer P n)"
  by (auto simp: quiet_step_def handle_handoff_timer_def Let_def
      intro!: ends_call quiet_finish split: option.split prod.split handoff_progress.split)

lemma quiet_restore [simp]: "quiet (snd (attempt_surface_restore a)) = quiet a"
  by (simp add: attempt_surface_restore_def native_call_def)

lemma quiet_advance: "quiet_step (advance_surface_recovery P n rec)"
  by (auto simp: quiet_step_def advance_surface_recovery_def Let_def intro!: ends_call)

lemma quiet_surface: "quiet_step (service_surface_recovery P n)"
  by (auto simp: quiet_step_def service_surface_recovery_def split_beta intro!: quiet_stepD [OF quiet_advance]
      split: option.split)

section \<open>The tray keeps it\<close>

definition quiet_tray :: "'p tray \<Rightarrow> bool" where
  "quiet_tray t = quiet (tray_app t)"

lemma ends_on_app: "quiet_step f \<Longrightarrow> quiet_tray t \<Longrightarrow> ends quiet_tray (on_app f t)"
  by (auto simp: on_app_def ends_map quiet_tray_def quiet_step_def)

lemma quiet_tray_update [simp]:
  "quiet_tray (clear_debounce t) = quiet_tray t" "quiet_tray (begin_debounce pw t) = quiet_tray t"
  "quiet_tray (snd (tray_native_call t)) = quiet_tray t"
  "quiet_tray (t\<lparr>ipc_command_queue := q\<rparr>) = quiet_tray t" "quiet_tray (t\<lparr>sent_replies := s\<rparr>) = quiet_tray t"
  "quiet_tray (t\<lparr>ipc_schedule_id := k\<rparr>) = quiet_tray t" "quiet_tray (t\<lparr>tray_app := a\<rparr>) = quiet a"
  by (simp_all add: quiet_tray_def clear_debounce_def begin_debounce_def tray_native_call_def native_call_def)

lemma quiet_broadcast_event: "quiet_tray t \<Longrightarrow> ends quiet_tray (handle_power_broadcast_event P n t)"
  by (auto simp: handle_power_broadcast_event_def Let_def tray_native_call_def native_call_def
      intro!: ends_on_app quiet_power_change split: option.split)
    (simp_all add: quiet_tray_def clear_debounce_def)

lemma quiet_debounce_timer: "quiet_tray t \<Longrightarrow> ends quiet_tray (handle_power_debounce_timer P n t)"
  by (auto simp: handle_power_debounce_timer_def Let_def intro!: ends_on_app quiet_power_change)

lemma quiet_broadcast: "quiet_tray t \<Longrightarrow> ends quiet_tray (handle_power_broadcast P n code native t)"
proof -
  assume t: "quiet_tray t"
  have "quiet_step (\<lambda>a. release_for_power_change P n (a\<lparr>running_since := None\<rparr>))"
    by (auto simp: quiet_step_def intro!: quiet_stepD [OF quiet_power_change])
  then show ?thesis
    using t quiet_parts(11) [of native "tray_app t"]
    by (cases code) (auto simp: handle_power_broadcast_def quiet_tray_def [of t]
        intro!: ends_on_app ends_bind [where I = quiet_tray] quiet_broadcast_event quiet_power)
qed

lemma quiet_heartbeat: "quiet_tray t \<Longrightarrow> ends quiet_tray (handle_heartbeat_timer P n t)"
  by (auto simp: handle_heartbeat_timer_def Let_def intro!: ends_on_app quiet_simple(5)) (simp_all add: quiet_tray_def)

lemma quiet_ipc: "quiet_tray t \<Longrightarrow> ends (\<lambda>(r, u). quiet_tray u) (handle_ipc_command P n native v p t)"
proof -
  assume t: "quiet_tray t"
  have bind: "ends (\<lambda>(r, u). quiet_tray u) (on_app f x \<bind> k)"
    if "quiet_step f" "quiet_tray x" "\<And>u. quiet_tray u \<Longrightarrow> ends (\<lambda>(r, u). quiet_tray u) (k u)"
    for f :: "'a step" and x and k :: "'a tray \<Rightarrow> (ipc_response \<times> 'a tray) option"
    using ends_bind [OF ends_on_app [OF that(1,2)] that(3)] .
  have "ends (\<lambda>(r, u). quiet_tray u) (handle_ipc_acquire P n p t)"
    using t by (auto simp: handle_ipc_acquire_def Let_def intro!: bind quiet_simple split: sum.split)
      (simp_all add: quiet_tray_def)
  moreover have "ends (\<lambda>(r, u). quiet_tray u) (handle_ipc_schedule P n native p t)"
    using t by (auto simp: handle_ipc_schedule_def Let_def intro!: bind quiet_duration quiet_cancel
        split: sum.split option.split)
  moreover have "ends (\<lambda>(r, u). quiet_tray u) (handle_ipc_cancel_schedule P n native p t)"
    using t by (auto simp: handle_ipc_cancel_schedule_def intro!: bind quiet_cancel)
  ultimately show ?thesis
    using t by (cases v) (auto simp: handle_ipc_command_def intro!: bind quiet_simple)
qed

lemma quiet_drain: "quiet_tray t \<Longrightarrow> ends quiet_tray (drain_commands P n native rs t)"
  by (induction rs arbitrary: t)
    (auto intro!: ends_bind [OF quiet_ipc] split: prod.splits)

section \<open>A release that settles\<close>

definition released_calm :: "'p app \<Rightarrow> bool" where
  "released_calm a \<longleftrightarrow> \<not> storm a \<and> app_ownership a = OwnReleased"

lemma arm_released:
  assumes "released_calm a" and "engine P (fuel3 n) CallArmDuration a = Some (r, b)"
  shows "released_calm b"
  using assms arm_returns [of a P n] by (auto simp: released_calm_def keeps_def)

lemma process_released:
  assumes "released_calm a" "handoff a = None" "quiet a"
    and eng: "engine P (fuel3 (Suc (Suc n))) CallProcessIntent a = Some (r, b)"
  shows "released_calm b"
proof -
  have calm: "\<not> storm b"
    using process_released_returns [of a P n] assms by (auto simp: released_calm_def)
  have "app_ownership b = OwnReleased"
  proof (cases "pending (desired a)")
    case None
    then show ?thesis
      using process_none_returns [of a P "Suc (Suc n)"] assms by (auto simp: released_calm_def keeps_def)
  next
    case (Some i)
    then have "idle a b"
      using process_gate [OF _ assms(2) _ Some eng] assms(1,2,3) by (auto simp: released_calm_def quiet_def)
    then show ?thesis
      using assms(1) by (simp add: idle_def released_calm_def)
  qed
  with calm show ?thesis
    by (simp add: released_calm_def)
qed

lemma handoff_released:
  assumes "released_calm a" "handoff a = None" "quiet a"
    and eng: "engine P (fuel3 (Suc (Suc (Suc n)))) (CallBeginHandoff bd st) a = Some (r, b)"
  shows "released_calm b"
proof -
  let ?m = "fuel3 (Suc (Suc n))"
  define un where "un y = (sync_timing_snapshot (y\<lparr>external_timing := True,
        controller := clear_release_boundary (controller y)\<rparr>))
      \<lparr>app_status := (if st = TsPaused then TsUnverified else TsStopped)\<rparr>" for y :: "'a app"
  have un: "released_calm (published (un y))" "handoff (published (un y)) = None" "quiet (published (un y))" "\<not> storm (un y)"
    if "released_calm y" "handoff y = None" "quiet y" for y
    using that by (simp_all add: released_calm_def un_def quiet_def sync_timing_snapshot_def clear_release_boundary_def
        set_snap_selected_def)
  have unavailable: "released_calm z"
    if y: "released_calm y" "handoff y = None" "quiet y"
      and run: "do { (_, b1) \<leftarrow> engine P ?m CallPublish (un y);
                     (_, b2) \<leftarrow> engine P ?m CallProcessIntent b1;
                     (_, b3) \<leftarrow> (if pause_active (pause b2) then engine P ?m CallArmDuration b2 else Some (True, b2));
                     Some (False, b3) } = Some (s, z)" for y s z
  proof -
    have pub: "engine P ?m CallPublish (un y) = Some (True, published (un y))"
      by (rule publish_returns [OF un(4) [OF y]])
    obtain r2 b2 where b2: "engine P ?m CallProcessIntent (published (un y)) = Some (r2, b2)"
      using run pub by (auto simp del: engine.simps split: bind_splits)
    then have rel: "released_calm b2"
      using process_released [OF un(1-3) [OF y]] by blast
    show ?thesis
      using run pub b2 rel arm_released [OF rel, of P "Suc (Suc n)"]
      by (auto simp del: engine.simps split: if_splits bind_splits)
  qed
  have c: "released_calm (cancel_duration_timer a)" "handoff (cancel_duration_timer a) = None"
      "quiet (cancel_duration_timer a)"
    using assms by (simp_all add: released_calm_def cancel_duration_timer_def)
  have cn: "released_calm (count_native (cancel_duration_timer a))" "handoff (count_native (cancel_duration_timer a)) = None"
      "quiet (count_native (cancel_duration_timer a))"
    using c by (simp_all add: released_calm_def)
  show ?thesis
    using eng unavailable [OF c, of r b] unavailable [OF cn, of r b] cn(1)
    by (auto simp: begin_handoff_body_def native_call_def Let_def un_def [symmetric] publish_returns released_calm_def
        simp del: engine.simps(2,6,11) split: if_splits)
qed

lemma finish_released:
  assumes "released_calm x"
    and "do { (_, b1) \<leftarrow> engine P (fuel3 n) CallPublish
            ((sync_timing_snapshot (x\<lparr>controller := clear_release_boundary (controller x)\<rparr>))
               \<lparr>timing_snapshot_valid := True, app_status := st\<rparr>);
          (_, b2) \<leftarrow> (if pause_active (pause b1) then engine P (fuel3 n) CallArmDuration b1 else Some (True, b1));
          Some (True, b2) } = Some (r, b)"
  shows "released_calm b"
proof -
  define y where "y = (sync_timing_snapshot (x\<lparr>controller := clear_release_boundary (controller x)\<rparr>))
     \<lparr>timing_snapshot_valid := True, app_status := st\<rparr>"
  have y: "released_calm y"
    using assms(1) by (simp add: y_def released_calm_def sync_timing_snapshot_def clear_release_boundary_def
        set_snap_selected_def)
  then have pub: "engine P (fuel3 n) CallPublish y = Some (True, published y)" "released_calm (published y)"
    using publish_returns [of y P "Suc n"] by (simp_all add: released_calm_def del: engine.simps)
  show ?thesis
    using assms(2) pub arm_released [OF pub(2), of P n]
    by (auto simp: y_def [symmetric] simp del: engine.simps split: if_splits bind_splits)
qed

lemma release_settles:
  assumes calm: "\<not> storm a" and "quiet a" and eng: "engine P n (CallGuardedRelease st) a = Some (True, b)"
  shows "released_calm b"
proof -
  let ?m = "fuel3 (Suc (Suc (Suc n)))"
  have eng': "engine P (Suc ?m) (CallGuardedRelease st) a = Some (True, b)"
    by (rule engine_mono [OF eng]) simp
  then have none: "handoff a = None"
    by (auto simp: guarded_release_body_def split: if_splits)
  define x where "x = a\<lparr>external_timing := False, running_since := None, app_status := releasing_status a\<rparr>"
  have x: "\<not> storm x"
    using calm by (simp add: x_def)
  have start: "engine P ?m CallPublish x = Some (True, published x)"
    by (rule publish_returns [OF x])
  obtain r c where stop: "ctl_stop P (controller (published x)) = (r, c)"
    by fastforce
  define y where "y = (sync_timing_snapshot ((published x)\<lparr>controller := c\<rparr>))\<lparr>timing_snapshot_valid := True\<rparr>"
  have "handoff (published x) = None" "quiet (published x)"
    using none assms(2) by (simp_all add: x_def quiet_def)
  then have y: "handoff y = None" "quiet y"
    by (simp_all add: y_def sync_timing_snapshot_def)
  show ?thesis
  proof (cases r)
    case (Inl e)
    let ?z = "(sync_timing_snapshot ((published x)\<lparr>controller := c\<rparr>))
        \<lparr>timing_snapshot_valid := False, running_since := None, app_status := TsUnverified\<rparr>"
    have "\<not> storm ?z"
      using x by (simp add: sync_timing_snapshot_def)
    then have "engine P ?m CallPublish ?z = Some (True, published ?z)"
      by (rule publish_returns)
    then show ?thesis
      using eng' none start stop Inl
      by (simp add: guarded_release_body_def x_def [symmetric] Let_def del: engine.simps(2))
  next
    case (Inr changed)
    have rel: "released_calm y"
      using x stop_released stop Inr by (auto simp: y_def released_calm_def sync_timing_snapshot_def)
    obtain fin where fin: "fin = (\<lambda>z. do {
        (_, b1) \<leftarrow> engine P ?m CallPublish
          ((sync_timing_snapshot (z\<lparr>controller := clear_release_boundary (controller z)\<rparr>))
             \<lparr>timing_snapshot_valid := True, app_status := st\<rparr>);
        (_, b2) \<leftarrow> (if pause_active (pause b1) then engine P ?m CallArmDuration b1 else Some (True, b1));
        Some (True, b2) })"
      by blast
    have fin_released: "released_calm b" if "released_calm z" "fin z = Some (True, b)" for z
      using finish_released [OF that(1)] that(2) unfolding fin by blast
    have "(case snap_requested (timing y) of
         None \<Rightarrow> fin y
       | Some bd \<Rightarrow>
           if changed \<and> release_needs_handoff bd (snap_effective (timing y))
           then do {
             (started, z) \<leftarrow> engine P ?m (CallBeginHandoff bd
               (if pause_active (pause y) then TsPaused else TsStopped)) y;
             if started then Some (True, z) else fin z }
           else fin y) = Some (True, b)"
      using eng' none start stop Inr unfolding fin
      by (simp add: guarded_release_body_def y_def x_def [symmetric] Let_def del: engine.simps(2,5,11)
          cong: option.case_cong if_cong split del: if_split)
    then show ?thesis
      using fin_released [OF rel] fin_released [OF handoff_released [OF rel y, of P n]] handoff_released [OF rel y, of P n]
      by (auto simp del: engine.simps split: option.splits if_splits bind_splits)
  qed
qed

end
