(* ===== verification/Startup.thy ===== *)
theory Startup
  imports Text
begin

text \<open>
  Model of \<open>crates/tick-startup-windows/src/lib.rs\<close>, \<open>apps/true-tick/src/portable.rs\<close> and the startup targets
  of \<open>tray/commands.rs\<close>: the value of the current user's Run key that starts the program at boot, and the
  portable layout its command is taken from.

  The registry is the text of that one value, or \<open>None\<close>. A registry operation takes the statuses the three
  native calls answer with; a value changes exactly when its call answers with zero. A path is its prefix and its
  components, the way the standard library reads one.
\<close>

section \<open>Paths\<close>

record path =
  path_prefix :: string
  path_parts :: "string list"

definition backslash :: string where
  "backslash = [CHR 0x5C]"

definition path_text :: "path \<Rightarrow> string" where
  "path_text p = path_prefix p @ join_with backslash (path_parts p)"

definition file_name :: "path \<Rightarrow> string option" where
  "file_name p = (if path_parts p = [] \<or> last (path_parts p) = ''..'' then None else Some (last (path_parts p)))"

definition parent :: "path \<Rightarrow> path option" where
  "parent p = (if path_parts p = [] then None else Some (p\<lparr>path_parts := butlast (path_parts p)\<rparr>))"

definition join :: "string \<Rightarrow> path \<Rightarrow> path" where
  "join name p = p\<lparr>path_parts := path_parts p @ [name]\<rparr>"

definition same_text :: "string \<Rightarrow> string \<Rightarrow> bool" where
  "same_text a b = (to_ascii_lowercase a = to_ascii_lowercase b)"

text \<open>What the file system says of a path.\<close>

datatype path_kind = Missing | RegularFile | Directory

section \<open>The portable layout\<close>

datatype launcher_path_error = NotAnAbSlotExecutable

definition portable_root_from_slot_executable :: "path \<Rightarrow> (launcher_path_error, path) result" where
  "portable_root_from_slot_executable executable =
     (let slot = Option.bind (parent executable) file_name in
      if slot \<noteq> Some ''A'' \<and> slot \<noteq> Some ''B'' then Err NotAnAbSlotExecutable
      else case Option.bind (Option.bind (parent executable) parent) parent of
        Some root \<Rightarrow> Ok root
      | None \<Rightarrow> Err NotAnAbSlotExecutable)"

definition launcher_path_from_slot_executable :: "path \<Rightarrow> (launcher_path_error, path) result" where
  "launcher_path_from_slot_executable executable =
     map_sum id (join ''Launcher.exe'') (portable_root_from_slot_executable executable)"

datatype portable_slot = PortableA | PortableB

fun portable_slot_name :: "portable_slot \<Rightarrow> string" where
  "portable_slot_name PortableA = ''A''"
| "portable_slot_name PortableB = ''B''"

datatype portable_selection = PortableSelected portable_slot path | RepairRequired string

text \<open>The content of \<open>active-slot.txt\<close> is \<open>None\<close> when the file cannot be read as text.\<close>

definition portable_select :: "(path \<Rightarrow> path_kind) \<Rightarrow> string option \<Rightarrow> path \<Rightarrow> portable_selection" where
  "portable_select kind active root =
     (let pick = (\<lambda>slot.
            let path = join (portable_slot_name slot) (join ''Slots'' root) in
            if kind path = Directory \<and> kind (join ''true-tick.exe'' path) = RegularFile
            then PortableSelected slot path
            else RepairRequired ''active slot lacks a recognizable internal executable'')
      in case map_option trim active of
        None \<Rightarrow> RepairRequired ''active-slot.txt is missing, explicit initialization is required''
      | Some value \<Rightarrow>
          if value = ''A'' then pick PortableA
          else if value = ''B'' then pick PortableB
          else RepairRequired ''active-slot.txt is not A or B'')"

section \<open>The Run value\<close>

datatype startup_operation = OpRegister | OpRemove

definition startup_operation_of :: "bool \<Rightarrow> startup_operation" where
  "startup_operation_of enabled = (if enabled then OpRegister else OpRemove)"

datatype startup_error =
    StartupUnsupported
  | InvalidExecutablePath
  | LauncherMissing
  | NotLauncher
  | NotDevelopmentExecutable
  | OpenKeyFailed u32
  | SetValueFailed u32
  | RemoveValueFailed u32
  | CloseKeyFailed u32

type_synonym run_value = "string option"

record registry_call =
  open_status :: u32
  value_status :: u32
  close_status :: u32

definition ERROR_SUCCESS :: u32 where [model_defs]: "ERROR_SUCCESS = 0"
definition ERROR_FILE_NOT_FOUND :: u32 where [model_defs]: "ERROR_FILE_NOT_FOUND = 2"

definition is_development_executable :: "path \<Rightarrow> bool" where
  "is_development_executable executable =
     ((case file_name executable of Some name \<Rightarrow> same_text name ''true-tick.exe'' | None \<Rightarrow> False)
      \<and> (\<exists>c\<in>set (path_parts executable). same_text c ''target'')
      \<and> (\<exists>c\<in>set (path_parts executable). same_text c ''debug''))"

definition existing_file :: "(path \<Rightarrow> path_kind) \<Rightarrow> path \<Rightarrow> (startup_error, unit) result" where
  "existing_file kind executable =
     (case kind executable of
        Missing \<Rightarrow> Err LauncherMissing
      | Directory \<Rightarrow> Err InvalidExecutablePath
      | RegularFile \<Rightarrow> Ok ())"

definition validate_launcher_path :: "(path \<Rightarrow> path_kind) \<Rightarrow> path \<Rightarrow> (startup_error, unit) result" where
  "validate_launcher_path kind executable =
     (case file_name executable of
        None \<Rightarrow> Err InvalidExecutablePath
      | Some name \<Rightarrow>
          if \<not> same_text name ''Launcher.exe'' then Err NotLauncher else existing_file kind executable)"

definition validate_development_path :: "(path \<Rightarrow> path_kind) \<Rightarrow> path \<Rightarrow> (startup_error, unit) result" where
  "validate_development_path kind executable =
     (if \<not> is_development_executable executable then Err NotDevelopmentExecutable
      else existing_file kind executable)"

definition startup_command :: "path \<Rightarrow> (startup_error, string) result" where
  "startup_command executable =
     (let text = path_text executable in
      if text = [] \<or> CHR 0x22 \<in> set text then Err InvalidExecutablePath
      else Ok ([CHR 0x22] @ text @ [CHR 0x22]))"

definition close_run_key :: "registry_call \<Rightarrow> (startup_error, unit) result" where
  "close_run_key io = (if close_status io \<noteq> ERROR_SUCCESS then Err (CloseKeyFailed (close_status io)) else Ok ())"

definition open_run_key :: "registry_call \<Rightarrow> (startup_error, unit) result" where
  "open_run_key io = (if open_status io = ERROR_SUCCESS then Ok () else Err (OpenKeyFailed (open_status io)))"

definition register_validated :: "registry_call \<Rightarrow> path \<Rightarrow> run_value \<Rightarrow> (startup_error, unit) result \<times> run_value" where
  "register_validated io executable v =
     (case startup_command executable of
        Inl e \<Rightarrow> (Err e, v)
      | Inr command \<Rightarrow>
          (case open_run_key io of
             Inl e \<Rightarrow> (Err e, v)
           | Inr _ \<Rightarrow>
               if value_status io \<noteq> ERROR_SUCCESS then (Err (SetValueFailed (value_status io)), v)
               else (close_run_key io, Some command)))"

definition register ::
    "(path \<Rightarrow> path_kind) \<Rightarrow> registry_call \<Rightarrow> path \<Rightarrow> run_value \<Rightarrow> (startup_error, unit) result \<times> run_value" where
  "register kind io executable v =
     (case validate_launcher_path kind executable of
        Inl e \<Rightarrow> (Err e, v)
      | Inr _ \<Rightarrow> register_validated io executable v)"

definition register_development ::
    "(path \<Rightarrow> path_kind) \<Rightarrow> registry_call \<Rightarrow> path \<Rightarrow> run_value \<Rightarrow> (startup_error, unit) result \<times> run_value" where
  "register_development kind io executable v =
     (case validate_development_path kind executable of
        Inl e \<Rightarrow> (Err e, v)
      | Inr _ \<Rightarrow> register_validated io executable v)"

definition remove_startup :: "registry_call \<Rightarrow> run_value \<Rightarrow> (startup_error, unit) result \<times> run_value" where
  "remove_startup io v =
     (case open_run_key io of
        Inl e \<Rightarrow> (Err e, v)
      | Inr _ \<Rightarrow>
          let v1 = (if value_status io = ERROR_SUCCESS then None else v) in
          if value_status io = ERROR_FILE_NOT_FOUND \<or> value_status io = ERROR_SUCCESS then (close_run_key io, v1)
          else (Err (RemoveValueFailed (value_status io)), v1))"

section \<open>Startup targets\<close>

datatype startup_rollback = SkipDestructiveInverse | RestoreRegistration

definition startup_rollback_of :: "bool \<Rightarrow> startup_rollback" where
  "startup_rollback_of enabled = (if enabled then SkipDestructiveInverse else RestoreRegistration)"

datatype startup_target = PortableLauncher path | DevelopmentExecutable path

fun target_description :: "startup_target \<Rightarrow> string" where
  "target_description (PortableLauncher _) = ''portable Launcher.exe entry point''"
| "target_description (DevelopmentExecutable _) = ''debug true-tick.exe development fallback''"

definition startup_target_of :: "bool \<Rightarrow> path \<Rightarrow> (string, startup_target) result" where
  "startup_target_of debug_assertions executable =
     (case launcher_path_from_slot_executable executable of
        Inr launcher \<Rightarrow> Ok (PortableLauncher launcher)
      | Inl e \<Rightarrow>
          if debug_assertions \<and> is_development_executable executable then Ok (DevelopmentExecutable executable)
          else Err ''portable launcher path unavailable NotAnAbSlotExecutable'')"

fun register_startup_target ::
    "(path \<Rightarrow> path_kind) \<Rightarrow> registry_call \<Rightarrow> startup_target \<Rightarrow> run_value \<Rightarrow> (startup_error, unit) result \<times> run_value" where
  "register_startup_target kind io (PortableLauncher p) v = register kind io p v"
| "register_startup_target kind io (DevelopmentExecutable p) v = register_development kind io p v"

section \<open>Facts\<close>

text \<open>The call answers \<open>ERROR_FILE_NOT_FOUND\<close> to a deletion only when there is no value.\<close>

definition honest_removal :: "registry_call \<Rightarrow> run_value \<Rightarrow> bool" where
  "honest_removal io v \<longleftrightarrow> (value_status io = ERROR_FILE_NOT_FOUND \<longrightarrow> v = None)"

lemma close_Ok: "close_run_key io = Ok () \<longleftrightarrow> close_status io = 0"
  by (simp add: close_run_key_def ERROR_SUCCESS_def)

lemma remove_Ok: "remove_startup io v = (Ok (), v') \<Longrightarrow> honest_removal io v \<Longrightarrow> v' = None"
  by (auto simp: remove_startup_def honest_removal_def Let_def ERROR_SUCCESS_def ERROR_FILE_NOT_FOUND_def
      split: sum.splits if_splits)

definition target_path :: "startup_target \<Rightarrow> path" where
  "target_path t = (case t of PortableLauncher p \<Rightarrow> p | DevelopmentExecutable p \<Rightarrow> p)"

lemma register_target_Ok:
  assumes "register_startup_target kind io t v = (Ok (), v')"
  shows "v' = Some ([CHR 0x22] @ path_text (target_path t) @ [CHR 0x22])" and "kind (target_path t) = RegularFile"
  using assms
  by (cases t; auto simp: register_def register_development_def register_validated_def startup_command_def Let_def
      validate_launcher_path_def validate_development_path_def existing_file_def target_path_def
      split: sum.splits if_splits option.splits path_kind.splits)+

lemma register_target_value:
  "register_startup_target kind io t v = (r, v') \<Longrightarrow>
   v' = v \<or> v' = Some ([CHR 0x22] @ path_text (target_path t) @ [CHR 0x22])"
  by (cases t) (auto simp: register_def register_development_def register_validated_def startup_command_def Let_def
      target_path_def split: sum.splits if_splits)

text \<open>The layout of a slot executable gives back its root and its launcher.\<close>

lemma parent_join [simp]: "parent (join n p) = Some p"
  by (simp add: parent_def join_def)

lemma file_name_join [simp]: "file_name (join n p) = (if n = ''..'' then None else Some n)"
  by (simp add: file_name_def join_def)

lemma slot_executable_root:
  assumes "executable = join name (join slot (join slots root))" and "slot = ''A'' \<or> slot = ''B''"
  shows "portable_root_from_slot_executable executable = Ok root"
    and "launcher_path_from_slot_executable executable = Ok (join ''Launcher.exe'' root)"
  using assms by (auto simp: portable_root_from_slot_executable_def launcher_path_from_slot_executable_def Let_def)

lemma portable_select_Selected:
  "portable_select kind active root = PortableSelected slot path \<Longrightarrow>
   kind (join ''true-tick.exe'' path) = RegularFile
   \<and> portable_root_from_slot_executable (join ''true-tick.exe'' path) = Ok root"
  by (cases slot)
    (auto simp: portable_select_def Let_def intro!: slot_executable_root(1) split: option.splits if_splits)

end
