(* ===== verification/Desk.thy ===== *)
theory Desk
  imports Quiet Config Startup
begin

text \<open>
  Model of the tray application around the engine: the settings commands of \<open>tray/commands.rs\<close>, the presets window's
  operations (\<open>ui/presets_window.rs\<close>), the two resets (\<open>tray/controller.rs\<close>, \<open>tray/menu.rs\<close>,
  \<open>tray/reset.rs\<close>), the shutdown cleanup, the menu commands, the window procedure and the loop around it
  (\<open>tray/controller.rs\<close>), and the emergency cleanup (\<open>emergency.rs\<close>).

  A step takes the answers of the outside world (file system, registry, message boxes, power status) as one record
  and the fuel of the engine. The popup menu, the diagnostic window and the diagnostic records are left out.
\<close>

section \<open>State\<close>

datatype cleanup_state = CleanupPending | CleanupInProgress | CleanupDone

record 'p desk =
  desk_tray :: "'p tray"
  stored :: configuration
  config_disk :: "u64 \<times> files"
  state_files :: files
  log_entries :: "string set"
  run_key :: run_value
  startup_status :: string
  gate :: shutdown_gate
  ipc_server_running :: bool
  watchdog_running :: bool
  heartbeat_timer :: bool
  presets_controls :: bool
  menu_active :: bool
  ipc_teardown :: bool
  quit_posted :: bool
  process_exited :: bool
  emergency_state :: cleanup_state
  restore_calls :: "u32 list"
  executable :: path
  debug_build :: bool
  process_id :: u32

record desk_io =
  io_power :: "(u32, u8 \<times> u8) result"
  io_save :: io_faults
  io_registry :: registry_call
  io_rollback :: registry_call
  io_kind :: "path \<Rightarrow> path_kind"
  io_message_box :: "int option"
  io_input_text :: string
  io_selection :: int
  io_current_exe :: bool
  io_spawn :: bool
  io_list_logs :: bool
  io_remove_fails :: "string \<Rightarrow> bool"
  io_menu_window :: bool

type_synonym 'p desk_step = "'p desk \<Rightarrow> 'p desk option"

definition on_tray :: "('p tray \<Rightarrow> 'p tray option) \<Rightarrow> 'p desk_step" where
  "on_tray f d = map_option (\<lambda>t. d\<lparr>desk_tray := t\<rparr>) (f (desk_tray d))"

definition on_engine :: "'p step \<Rightarrow> 'p desk_step" where
  "on_engine f = on_tray (on_app f)"

abbreviation desk_app :: "'p desk \<Rightarrow> 'p app" where
  "desk_app d \<equiv> tray_app (desk_tray d)"

definition with_app :: "('p app \<Rightarrow> 'p app) \<Rightarrow> 'p desk \<Rightarrow> 'p desk" where
  "with_app f d = d\<lparr>desk_tray := (desk_tray d)\<lparr>tray_app := f (desk_app d)\<rparr>\<rparr>"

definition desk_publish :: "'p timer_platform \<Rightarrow> nat \<Rightarrow> 'p desk_step" where
  "desk_publish P n = on_engine (call P n CallPublish)"

section \<open>Settings\<close>

text \<open>The configuration in memory; the engine holds the four fields it reads.\<close>

definition current_config :: "'p desk \<Rightarrow> configuration" where
  "current_config d =
     (let c = config (desk_app d) in
      (stored d)\<lparr>cfg_automatic := automatic c, cfg_auto_resume_on_ac := auto_resume_on_ac c,
        cfg_battery_lockout := battery_lockout c, cfg_request_interval := request_interval c\<rparr>)"

definition assign_config :: "configuration \<Rightarrow> 'p desk \<Rightarrow> 'p desk" where
  "assign_config c d =
     with_app (\<lambda>a. a\<lparr>config := \<lparr>automatic = cfg_automatic c, auto_resume_on_ac = cfg_auto_resume_on_ac c,
        battery_lockout = cfg_battery_lockout c, request_interval = cfg_request_interval c\<rparr>\<rparr>) (d\<lparr>stored := c\<rparr>)"

definition save_config :: "desk_io \<Rightarrow> configuration \<Rightarrow> 'p desk \<Rightarrow> (config_error, unit) result \<times> 'p desk" where
  "save_config io c d =
     (case save_atomic (io_save io) (process_id d) c (config_disk d) of (r, disk) \<Rightarrow> (r, d\<lparr>config_disk := disk\<rparr>))"

text \<open>The common shape of the toggles: save the changed copy, and only when that succeeded take it over.\<close>

definition save_and_assign ::
    "'p timer_platform \<Rightarrow> nat \<Rightarrow> desk_io \<Rightarrow> configuration \<Rightarrow> 'p desk_step \<Rightarrow> 'p desk_step" where
  "save_and_assign P n io c applied d =
     (case save_config io c d of
        (Inl _, d1) \<Rightarrow> desk_publish P n d1
      | (Inr _, d1) \<Rightarrow> applied (assign_config c d1))"

definition set_automatic :: "'p timer_platform \<Rightarrow> nat \<Rightarrow> desk_io \<Rightarrow> bool \<Rightarrow> 'p desk_step" where
  "set_automatic P n io on d =
     save_and_assign P n io ((current_config d)\<lparr>cfg_automatic := on\<rparr>)
       (on_engine (if on then reconcile P n else manual_stop P n)) d"

definition set_auto_resume :: "'p timer_platform \<Rightarrow> nat \<Rightarrow> desk_io \<Rightarrow> bool \<Rightarrow> 'p desk_step" where
  "set_auto_resume P n io on d =
     save_and_assign P n io ((current_config d)\<lparr>cfg_auto_resume_on_ac := on\<rparr>)
       (on_engine (apply_power_reconciliation P n)) d"

definition set_battery_lockout :: "'p timer_platform \<Rightarrow> nat \<Rightarrow> desk_io \<Rightarrow> bool \<Rightarrow> 'p desk_step" where
  "set_battery_lockout P n io on d =
     save_and_assign P n io ((current_config d)\<lparr>cfg_battery_lockout := on\<rparr>)
       (on_engine (\<lambda>a. apply_power_reconciliation P n (if on then a else a\<lparr>last_block_reason := None\<rparr>))) d"

definition MAX_STARTUP_STATUS_BYTES :: nat where
  [model_defs]: "MAX_STARTUP_STATUS_BYTES = 512"

definition bounded_startup_status :: "string \<Rightarrow> string" where
  "bounded_startup_status s = text_of (truncate_utf8 (bytes_of s) MAX_STARTUP_STATUS_BYTES)"

definition set_status :: "string \<Rightarrow> 'p desk \<Rightarrow> 'p desk" where
  "set_status s d = d\<lparr>startup_status := bounded_startup_status s\<rparr>"

definition set_startup_unavailable :: "desk_io \<Rightarrow> string \<Rightarrow> 'p desk \<Rightarrow> 'p desk" where
  "set_startup_unavailable io message d =
     (let c = (current_config d)\<lparr>cfg_startup_enabled := True\<rparr> in
      case save_config io c d of
        (Inl _, d1) \<Rightarrow> set_status ''startup registration unavailable and config persistence failed'' d1
      | (Inr _, d1) \<Rightarrow>
          set_status (''auto-start enabled in config, current-user registration unavailable: '' @ message)
            (assign_config c d1))"

definition rollback_startup ::
    "desk_io \<Rightarrow> bool \<Rightarrow> 'p desk \<Rightarrow> (startup_error, unit) result \<times> 'p desk" where
  "rollback_startup io on d =
     (case startup_rollback_of on of
        SkipDestructiveInverse \<Rightarrow> (Ok (), d)
      | RestoreRegistration \<Rightarrow>
          (case startup_target_of (debug_build d) (executable d) of
             Inl _ \<Rightarrow> (Err InvalidExecutablePath, d)
           | Inr target \<Rightarrow>
               (case register_startup_target (io_kind io) (io_rollback io) target (run_key d) of
                  (r, v) \<Rightarrow> (r, d\<lparr>run_key := v\<rparr>))))"

definition set_startup_registered :: "desk_io \<Rightarrow> bool \<Rightarrow> startup_target option \<Rightarrow> 'p desk \<Rightarrow> 'p desk" where
  "set_startup_registered io on target d =
     (let c = (current_config d)\<lparr>cfg_startup_enabled := on\<rparr> in
      case save_config io c d of
        (Inl _, d1) \<Rightarrow>
          (case rollback_startup io on d1 of
             (r, d2) \<Rightarrow>
               set_status
                 (if on
                  then ''startup config persistence failed, registry left enabled and repair is required''
                  else if \<not> isl r then ''startup config persistence failed, registry change rolled back''
                  else ''startup config persistence failed, repair required'') d2)
      | (Inr _, d1) \<Rightarrow>
          set_status
            (case target of
               Some t \<Rightarrow> ''boot startup registered for current-user '' @ target_description t
             | None \<Rightarrow> ''boot startup registration disabled by config'')
            (assign_config c d1))"

definition startup_change :: "desk_io \<Rightarrow> bool \<Rightarrow> 'p desk \<Rightarrow> 'p desk" where
  "startup_change io on d =
     (case (if on then map_sum id Some (startup_target_of (debug_build d) (executable d)) else Ok None) of
        Inl message \<Rightarrow> set_startup_unavailable io message d
      | Inr target \<Rightarrow>
          (case (case target of
                   Some t \<Rightarrow> register_startup_target (io_kind io) (io_registry io) t (run_key d)
                 | None \<Rightarrow> remove_startup (io_registry io) (run_key d)) of
             (r, v) \<Rightarrow>
               let d1 = d\<lparr>run_key := v\<rparr> in
               if isl r then set_status ''startup registration error'' d1
               else set_startup_registered io on target d1))"

definition set_startup :: "'p timer_platform \<Rightarrow> nat \<Rightarrow> desk_io \<Rightarrow> bool \<Rightarrow> 'p desk_step" where
  "set_startup P n io on d = desk_publish P n (startup_change io on d)"

section \<open>The presets window\<close>

definition persist_presets :: "desk_io \<Rightarrow> 'p desk \<Rightarrow> bool \<times> 'p desk" where
  "persist_presets io d =
     (let c = (current_config d)\<lparr>cfg_schedule_presets := to_seconds_list (presets_manager (desk_tray d))\<rparr> in
      case save_config io c d of
        (Inl _, d1) \<Rightarrow> (False, d1)
      | (Inr _, d1) \<Rightarrow> (True, assign_config c d1))"

definition with_presets :: "presets \<Rightarrow> 'p desk \<Rightarrow> 'p desk" where
  "with_presets ps d = d\<lparr>desk_tray := (desk_tray d)\<lparr>presets_manager := ps\<rparr>\<rparr>"

definition window_presets_add :: "desk_io \<Rightarrow> 'p desk \<Rightarrow> 'p desk" where
  "window_presets_add io d =
     (if \<not> presets_controls d then d
      else case preset_parse (io_input_text io) of
        Inl _ \<Rightarrow> d
      | Inr preset \<Rightarrow>
          (case presets_add preset (presets_manager (desk_tray d)) of
             (Inl _, _) \<Rightarrow> d
           | (Inr _, ps) \<Rightarrow> snd (persist_presets io (with_presets ps d))))"

definition window_presets_delete :: "desk_io \<Rightarrow> 'p desk \<Rightarrow> 'p desk" where
  "window_presets_delete io d =
     (if \<not> presets_controls d \<or> io_selection io < 0 then d
      else case presets_remove (nat (io_selection io)) (presets_manager (desk_tray d)) of
        (Inl _, _) \<Rightarrow> d
      | (Inr _, ps) \<Rightarrow> snd (persist_presets io (with_presets ps d)))"

definition window_presets_reset :: "desk_io \<Rightarrow> 'p desk \<Rightarrow> 'p desk" where
  "window_presets_reset io d =
     snd (persist_presets io (with_presets (presets_reset (presets_manager (desk_tray d))) d))"

section \<open>Resets\<close>

definition IDYES :: int where [model_defs]: "IDYES = 6"

definition kill_power_debounce_timer :: "'p tray \<Rightarrow> 'p tray" where
  "kill_power_debounce_timer t = (if power_debounce_active t then clear_debounce t else t)"

text \<open>Schedule, its timers, the debounce and the pending resume are dropped.\<close>

definition clear_schedules :: "'p desk \<Rightarrow> 'p desk" where
  "clear_schedules d =
     (let d1 = with_app (\<lambda>a. (kill_schedule_display_timer (cancel_duration_timer
             (a\<lparr>pause := snd (cancel (pause a))\<rparr>)))\<lparr>pending_resume_on_ac := False\<rparr>) d
      in d1\<lparr>desk_tray := kill_power_debounce_timer (desk_tray d1)\<rparr>)"

definition handle_settings_reset :: "'p timer_platform \<Rightarrow> nat \<Rightarrow> desk_io \<Rightarrow> 'p desk_step" where
  "handle_settings_reset P n io d =
     (if io_message_box io \<noteq> Some IDYES then Some d
      else do {
        d1 \<leftarrow> on_engine (manual_stop P n) d;
        let d2 = clear_schedules d1;
        (case save_config io config_default d2 of
           (Inl _, d3) \<Rightarrow> Some d3
         | (Inr _, d3) \<Rightarrow>
             let d4 = with_presets (from_seconds_list (cfg_schedule_presets config_default)) (assign_config config_default d3);
                 d5 = (if cfg_startup_enabled config_default
                       then (case startup_target_of (debug_build d4) (executable d4) of
                               Inl _ \<Rightarrow> d4
                             | Inr target \<Rightarrow> d4\<lparr>run_key := snd (register_startup_target (io_kind io) (io_registry io) target (run_key d4))\<rparr>)
                       else d4\<lparr>run_key := snd (remove_startup (io_registry io) (run_key d4))\<rparr>)
             in do {
               d6 \<leftarrow> on_engine (apply_power_reconciliation P n) d5;
               desk_publish P n d6 }) })"

record reset_report =
  log_entries_removed :: nat
  log_entries_failed :: nat
  config_removed :: bool
  session_marker_removed :: bool

text \<open>Removing a file: whether it went, and the directory after it. A missing file is not an error.\<close>

definition remove_file_if_present :: "(string \<Rightarrow> bool) \<Rightarrow> string \<Rightarrow> files \<Rightarrow> bool \<times> files" where
  "remove_file_if_present fails name fs =
     (if fs name = None \<or> fails name then (False, fs) else (True, fs(name := None)))"

definition clear_directory_contents :: "bool \<Rightarrow> (string \<Rightarrow> bool) \<Rightarrow> string set \<Rightarrow> nat \<times> nat \<times> string set" where
  "clear_directory_contents listed fails entries =
     (if listed then (card {e \<in> entries. \<not> fails e}, card {e \<in> entries. fails e}, {e \<in> entries. fails e})
      else (0, 0, entries))"

definition reset_cleanup :: "desk_io \<Rightarrow> 'p desk \<Rightarrow> reset_report \<times> 'p desk" where
  "reset_cleanup io d =
     (case remove_file_if_present (io_remove_fails io) SESSION_MARKER_FILENAME (state_files d) of
        (marker, state) \<Rightarrow>
        (case clear_directory_contents (io_list_logs io) (io_remove_fails io) (log_entries d) of
           (gone, kept, entries) \<Rightarrow>
           (case remove_file_if_present (io_remove_fails io) CONFIG_FILENAME (snd (config_disk d)) of
              (cfg, disk) \<Rightarrow>
                (\<lparr>log_entries_removed = gone, log_entries_failed = kept, config_removed = cfg,
                  session_marker_removed = marker\<rparr>,
                 d\<lparr>state_files := state, log_entries := entries, config_disk := (fst (config_disk d), disk)\<rparr>))))"

definition execute_reset :: "desk_io \<Rightarrow> 'p desk \<Rightarrow> 'p desk" where
  "execute_reset io d =
     (let d1 = snd (reset_cleanup io d) in
      if \<not> io_current_exe io then d1
      else if io_spawn io then d1\<lparr>process_exited := True\<rparr> else d1)"

section \<open>Shutdown\<close>

datatype cleanup_error = HandoffRemainsPending | ReleaseUnverified

definition kill_heartbeat_timer :: "'p desk \<Rightarrow> 'p desk" where
  "kill_heartbeat_timer d =
     d\<lparr>heartbeat_timer := (heartbeat_timer d \<and> \<not> tray_icon (desk_app d)),
       desk_tray := (desk_tray d)\<lparr>last_heartbeat_fire := None\<rparr>\<rparr>"

definition pass_gate :: "('e, unit) result \<Rightarrow> 'p desk \<Rightarrow> 'p desk" where
  "pass_gate r d = d\<lparr>gate := fst (snd (gate_attempt (\<lambda>s. (r, s)) (gate d) ()))\<rparr>"

definition quit_handoff :: "'p app \<Rightarrow> 'p app" where
  "quit_handoff a =
     (sync_timing_snapshot (a\<lparr>handoff := None, controller := clear_release_boundary (controller a)\<rparr>))
       \<lparr>external_timing := True, app_status := TsStopped\<rparr>"

definition cleanup_normal_shutdown ::
    "'p timer_platform \<Rightarrow> nat \<Rightarrow> 'p desk \<Rightarrow> ((cleanup_error, unit) result \<times> 'p desk) option" where
  "cleanup_normal_shutdown P n d =
     (let d0 = d\<lparr>ipc_server_running := False, watchdog_running := False\<rparr> in
      if verified (gate d0) then Some (Ok (), d0)
      else
        let d1 = kill_heartbeat_timer (clear_schedules d0); a = desk_app d1 in
        if handoff a \<noteq> None \<and> app_ownership a = OwnReleased then do {
          d2 \<leftarrow> desk_publish P n (with_app quit_handoff d1);
          Some (Ok (), pass_gate (Ok () :: (cleanup_error, unit) result) d2) }
        else do {
          (settled, b) \<leftarrow> engine P n (CallGuardedRelease TsStopped) a;
          let d2 = with_app (\<lambda>_. b) d1;
          let r = (if settled \<and> handoff b \<noteq> None then Err HandoffRemainsPending
                   else if settled then Ok () else Err ReleaseUnverified);
          Some (r, pass_gate r d2) })"

section \<open>Menu commands\<close>

definition desk_quit_decision :: "'p desk \<Rightarrow> quit_decision" where
  "desk_quit_decision d =
     (let a = desk_app d in quit_decision_for_handoff (app_lifecycle_status a) (app_ownership a) (handoff a \<noteq> None))"

definition cleanup_and_quit :: "'p timer_platform \<Rightarrow> nat \<Rightarrow> 'p desk \<Rightarrow> (bool \<times> 'p desk) option" where
  "cleanup_and_quit P n d =
     do {
       (r, d1) \<leftarrow> cleanup_normal_shutdown P n d;
       Some (if isl r then (True, d1) else (False, d1\<lparr>quit_posted := True\<rparr>)) }"

definition quit_command :: "'p timer_platform \<Rightarrow> nat \<Rightarrow> desk_io \<Rightarrow> 'p desk \<Rightarrow> (bool \<times> 'p desk) option" where
  "quit_command P n io d =
     (case desk_quit_decision d of
        ExitNormally \<Rightarrow> cleanup_and_quit P n d
      | RequireSafetyDialog _ \<Rightarrow>
          (let warning = quit_warning_result_of (io_message_box io) in
           case quit_choice warning of
             StopAndQuit \<Rightarrow> cleanup_and_quit P n d
           | CancelQuit \<Rightarrow> Some (dialog_shown warning, d)))"

definition menu_command ::
    "'p timer_platform \<Rightarrow> nat \<Rightarrow> desk_io \<Rightarrow> nat \<Rightarrow> 'p desk_step" where
  "menu_command P n io c d =
     (if c = 1001 then on_engine (manual_start P n) d
      else if c = 1002 then on_engine (manual_stop P n) d
      else if c = 1106 then Some (d\<lparr>presets_controls := presets_controls d \<or> io_menu_window io\<rparr>)
      else if c = 1061 then handle_settings_reset P n io d
      else if c = 1025 \<or> c = 1026 then on_engine (cancel_scheduled_action P n (io_power io)) d
      else if c = 1005 then set_startup P n io True d
      else if c = 1006 then set_startup P n io False d
      else if c = 1007 then set_automatic P n io True d
      else if c = 1008 then set_automatic P n io False d
      else if c = 1009 then set_auto_resume P n io True d
      else if c = 1010 then set_auto_resume P n io False d
      else if c = 1027 then set_battery_lockout P n io True d
      else if c = 1028 then set_battery_lockout P n io False d
      else if c = 1060 then Some (execute_reset io d)
      else case duration_command c of
        Some (act, choice) \<Rightarrow>
          (case choice_to_preset choice of
             Inr p \<Rightarrow> on_engine (schedule_duration_action P n act p) d
           | Inl _ \<Rightarrow> Some d)
      | None \<Rightarrow>
          (case preset_command c of
             Some (act, i) \<Rightarrow> on_engine (schedule_preset_action P n act i (presets_manager (desk_tray d))) d
           | None \<Rightarrow> Some d))"

definition menu_command_allowed :: "nat \<Rightarrow> 'p desk \<Rightarrow> bool" where
  "menu_command_allowed c d =
     (let k = current_config d; a = desk_app d in
      menu_command_is_enabled_with_pause c (app_lifecycle_status a) (cfg_startup_enabled k) (cfg_automatic k)
        (cfg_auto_resume_on_ac k) (cfg_battery_lockout k) (scheduled (pause a) \<noteq> None))"

definition handle_menu_command ::
    "'p timer_platform \<Rightarrow> nat \<Rightarrow> desk_io \<Rightarrow> nat \<Rightarrow> 'p desk \<Rightarrow> (bool \<times> 'p desk) option" where
  "handle_menu_command P n io c d =
     (if \<not> menu_command_allowed c d then Some (False, d)
      else if c = 1004 then quit_command P n io d
      else map_option (Pair (c \<noteq> 1060 \<and> c \<noteq> 1061 \<and> menu_action_keeps_open c)) (menu_command P n io c d))"

section \<open>Emergency cleanup\<close>

definition restore_timer_resolution :: "'p desk \<Rightarrow> bool \<times> 'p desk" where
  "restore_timer_resolution d =
     (let interval = emergency_interval (mirror (desk_app d));
          d1 = with_app (\<lambda>a. a\<lparr>mirror := (mirror a)\<lparr>emergency_interval := 0\<rparr>\<rparr>) d
      in if interval = 0 then (False, d1)
         else if 2 ^ 32 \<le> unat interval then (False, d1)
         else (True, d1\<lparr>restore_calls := restore_calls d1 @ [of_nat (unat interval)]\<rparr>))"

definition SESSION_STATE_CLEAN :: bytes where
  "SESSION_STATE_CLEAN = bytes_of ''clean''"

definition emergency_cleanup :: "desk_io \<Rightarrow> 'p desk \<Rightarrow> 'p desk" where
  "emergency_cleanup io d =
     (if emergency_state d \<noteq> CleanupPending then d
      else
        let d1 = snd (restore_timer_resolution (d\<lparr>emergency_state := CleanupInProgress\<rparr>)) in
        d1\<lparr>state_files := snd (write_session_bytes_atomic (io_save io) (process_id d1) SESSION_STATE_CLEAN (state_files d1)),
           emergency_state := CleanupDone\<rparr>)"

definition console_control_response :: "u32 \<Rightarrow> int" where
  "console_control_response control = (if control = 2 then 1 else 0)"

definition session_is_ending :: "nat \<Rightarrow> bool" where
  "session_is_ending w_param = (w_param \<noteq> 0)"

definition session_end_cleanup :: "desk_io \<Rightarrow> nat \<Rightarrow> 'p desk \<Rightarrow> 'p desk" where
  "session_end_cleanup io w_param d = (if session_is_ending w_param then emergency_cleanup io d else d)"

section \<open>The window procedure\<close>

definition restore_tray_icon :: "'p timer_platform \<Rightarrow> nat \<Rightarrow> 'p step" where
  "restore_tray_icon P n a =
     (case attempt_surface_restore a of
        (True, a1) \<Rightarrow> call P n CallPublish a1
      | (False, a1) \<Rightarrow> call P n CallPublish (a1\<lparr>tray_icon := False\<rparr>))"

definition HANDOFF_TIMER_ID :: nat where [model_defs]: "HANDOFF_TIMER_ID = 0x5449"
definition SURFACE_RECOVERY_TIMER_ID :: nat where [model_defs]: "SURFACE_RECOVERY_TIMER_ID = 0x6A00"
definition POPUP_REFRESH_TIMER_ID :: nat where [model_defs]: "POPUP_REFRESH_TIMER_ID = 0x7000"
definition SCHEDULE_DISPLAY_TIMER_ID :: nat where [model_defs]: "SCHEDULE_DISPLAY_TIMER_ID = 0x7100"
definition POWER_DEBOUNCE_TIMER_ID :: nat where [model_defs]: "POWER_DEBOUNCE_TIMER_ID = 0x7200"
definition HEARTBEAT_TIMER_ID :: nat where [model_defs]: "HEARTBEAT_TIMER_ID = 0x7300"

text \<open>The messages by what the procedure tells apart: the two registered messages, and the standard ones.\<close>

datatype window_message =
    MsgTaskbarCreated
  | MsgAnotherInstance
  | MsgTray nat
  | MsgCommand nat
  | MsgMenuSelect
  | MsgTimer nat
  | MsgIpc
  | MsgPower power_broadcast
  | MsgQueryEndSession
  | MsgEndSession nat
  | MsgClose
  | MsgDestroy
  | MsgOther

definition timer_message :: "'p timer_platform \<Rightarrow> nat \<Rightarrow> desk_io \<Rightarrow> nat \<Rightarrow> 'p desk_step" where
  "timer_message P n io w d =
     (if w = POPUP_REFRESH_TIMER_ID then Some d
      else if w = SCHEDULE_DISPLAY_TIMER_ID then on_engine (handle_schedule_display_timer P n) d
      else if w = POWER_DEBOUNCE_TIMER_ID then on_tray (handle_power_debounce_timer P n) d
      else if w = HANDOFF_TIMER_ID then on_engine (handle_handoff_timer P n) d
      else if w = HEARTBEAT_TIMER_ID then on_tray (handle_heartbeat_timer P n) d
      else if w = SURFACE_RECOVERY_TIMER_ID then on_engine (service_surface_recovery P n) d
      else if map_option fst (duration_timer (desk_app d)) = Some w
      then on_engine (handle_duration_timer P n (io_power io) w) d
      else Some d)"

definition window_proc :: "'p timer_platform \<Rightarrow> nat \<Rightarrow> desk_io \<Rightarrow> window_message \<Rightarrow> 'p desk_step" where
  "window_proc P n io m d =
     (case m of
        MsgTaskbarCreated \<Rightarrow> on_engine (restore_tray_icon P n) d
      | MsgCommand w \<Rightarrow>
          if menu_active d then Some d
          else let c = w mod 0x10000 in
            if c = 1061 then handle_settings_reset P n io d
            else map_option snd (handle_menu_command P n io c d)
      | MsgTimer w \<Rightarrow> timer_message P n io w d
      | MsgIpc \<Rightarrow> on_tray (drain_ipc_command_queue P n (io_power io)) d
      | MsgPower code \<Rightarrow> on_tray (handle_power_broadcast P n code (io_power io)) d
      | MsgEndSession w \<Rightarrow> Some (session_end_cleanup io w d)
      | MsgClose \<Rightarrow> map_option snd (handle_menu_command P n io 1004 d)
      | MsgDestroy \<Rightarrow>
          Some (d\<lparr>ipc_teardown := True, desk_tray := destroy_window (desk_tray d), quit_posted := True\<rparr>)
      | _ \<Rightarrow> Some d)"

section \<open>The loop around the window procedure\<close>

definition SHUTDOWN_PUMP_BOUND_MS :: u64 where [model_defs]: "SHUTDOWN_PUMP_BOUND_MS = 50"

datatype loop_end = LoopContinues | LoopExits shutdown_disposition

text \<open>What follows a return of the message loop: the cleanup, the bound on the time since the loop was first entered,
  and the disposition. On the way out the icon goes and the session is marked clean.\<close>

definition leave_process :: "desk_io \<Rightarrow> 'p desk \<Rightarrow> 'p desk" where
  "leave_process io d =
     (with_app (\<lambda>a. a\<lparr>tray_icon := False\<rparr>) d)
       \<lparr>state_files := snd (remove_session_marker (io_remove_fails io SESSION_MARKER_FILENAME) (state_files d)),
        process_exited := True\<rparr>"

definition after_message_loop ::
    "'p timer_platform \<Rightarrow> nat \<Rightarrow> desk_io \<Rightarrow> message_loop_exit \<Rightarrow> u64 \<Rightarrow> bool \<Rightarrow> 'p desk \<Rightarrow> (loop_end \<times> 'p desk) option" where
  "after_message_loop P n io ex elapsed_ms ui_usable d =
     do {
       (r, d1) \<leftarrow> cleanup_normal_shutdown P n d;
       if isl r \<and> shutdown_pump_bound_exceeded elapsed_ms SHUTDOWN_PUMP_BOUND_MS
       then Some (LoopExits ExitWithUnresolvedCleanup, leave_process io d1)
       else case shutdown_disposition_of ex (\<not> isl r) ui_usable of
         KeepAliveForRetry \<Rightarrow> do {
           d2 \<leftarrow> desk_publish P n (with_app (\<lambda>a. a\<lparr>app_status := TsUnverified\<rparr>) d1);
           Some (LoopContinues, d2) }
       | disposition \<Rightarrow> Some (LoopExits disposition, leave_process io d1) }"

section \<open>Invariant\<close>

text \<open>What the steps on the settings, the presets and the engine do not touch.\<close>

definition same_desk :: "'p desk \<Rightarrow> 'p desk \<Rightarrow> bool" where
  "same_desk d e \<longleftrightarrow> gate e = gate d \<and> quit_posted e = quit_posted d \<and> emergency_state e = emergency_state d
     \<and> restore_calls e = restore_calls d"

definition desk_ok :: "'p desk \<Rightarrow> bool" where
  "desk_ok d \<longleftrightarrow> calm (desk_tray d) \<and> (verified (gate d) \<or> quiet_tray (desk_tray d))
     \<and> (verified (gate d) \<longrightarrow> quit_posted d)
     \<and> length (restore_calls d) \<le> 1 \<and> (emergency_state d = CleanupPending \<longrightarrow> restore_calls d = [])"

definition desk_kept :: "'p desk \<Rightarrow> 'p desk option \<Rightarrow> bool" where
  "desk_kept d m \<longleftrightarrow> (\<exists>e. m = Some e \<and> desk_ok e \<and> same_desk d e)"

lemma same_desk_refl [simp]: "same_desk d d"
  by (simp add: same_desk_def)

lemma desk_kept_Some [simp]: "desk_kept d (Some e) \<longleftrightarrow> desk_ok e \<and> same_desk d e"
  by (simp add: desk_kept_def)

lemma desk_kept_bind:
  "desk_kept d m \<Longrightarrow> (\<And>e. desk_ok e \<Longrightarrow> same_desk d e \<Longrightarrow> desk_kept e (k e)) \<Longrightarrow> desk_kept d (m \<bind> k)"
  by (fastforce simp: desk_kept_def same_desk_def)

lemma desk_kept_same: "desk_kept e m \<Longrightarrow> same_desk d e \<Longrightarrow> desk_kept d m"
  by (fastforce simp: desk_kept_def same_desk_def)

text \<open>An update that leaves the application's anomalies and queued intent and the fields above as they are.\<close>

definition inert :: "'p desk \<Rightarrow> 'p desk \<Rightarrow> bool" where
  "inert d e \<longleftrightarrow> same_desk d e \<and> (calm (desk_tray e) \<longleftrightarrow> calm (desk_tray d))
     \<and> (quiet_tray (desk_tray e) \<longleftrightarrow> quiet_tray (desk_tray d))"

lemma inert_ok: "inert d e \<Longrightarrow> desk_ok d \<Longrightarrow> desk_ok e \<and> same_desk d e"
  by (auto simp: inert_def desk_ok_def same_desk_def)

lemma inert_refl [simp]: "inert d d"
  by (simp add: inert_def)

lemma inert_trans: "inert d e \<Longrightarrow> inert e f \<Longrightarrow> inert d f"
  by (auto simp: inert_def same_desk_def)

lemma inert_kept: "desk_kept e m \<Longrightarrow> inert d e \<Longrightarrow> desk_kept d m"
  by (auto simp: inert_def intro: desk_kept_same)

lemma inert_parts [simp]:
  "inert d (d\<lparr>config_disk := k\<rparr>)" "inert d (d\<lparr>run_key := v\<rparr>)" "inert d (set_status s d)"
  "inert d (assign_config c d)" "inert d (with_presets ps d)" "inert d (clear_schedules d)"
  "inert d (kill_heartbeat_timer d)" "inert d (d\<lparr>presets_controls := b\<rparr>)"
  "inert d (d\<lparr>ipc_server_running := b1, watchdog_running := b2\<rparr>)"
  by (simp_all add: inert_def same_desk_def set_status_def assign_config_def with_app_def with_presets_def clear_schedules_def
      kill_heartbeat_timer_def kill_power_debounce_timer_def calm_def quiet_tray_def clear_debounce_def Let_def)

lemma inert_save: "save_config io c d = (r, e) \<Longrightarrow> inert d e"
  by (auto simp: save_config_def split: prod.splits)

lemma inert_persist: "inert d (snd (persist_presets io d))"
  by (auto simp: persist_presets_def Let_def intro: inert_save inert_trans [OF inert_save inert_parts(4)] split: prod.split sum.split)

lemma inert_presets:
  "inert d (window_presets_add io d)" "inert d (window_presets_delete io d)" "inert d (window_presets_reset io d)"
  by (auto simp: window_presets_add_def window_presets_delete_def window_presets_reset_def
      intro: inert_trans [OF inert_parts(5) inert_persist] split: prod.split sum.split)

section \<open>The steps keep it\<close>

lemma on_engine_kept:
  assumes "sound_step f" and "quiet_step f" and "desk_ok d"
  shows "desk_kept d (on_engine f d)"
proof -
  obtain u where u: "on_app f (desk_tray d) = Some u" "calm u"
    using on_app_returns [OF assms(1)] assms(3) by (auto simp: desk_ok_def)
  have "quiet_tray u" if "quiet_tray (desk_tray d)"
    using endsD [OF ends_on_app [OF assms(2) that] u(1)] .
  then show ?thesis
    using u assms(3) by (auto simp: on_engine_def on_tray_def desk_ok_def same_desk_def)
qed

lemma on_tray_kept:
  assumes "\<And>t. calm t \<Longrightarrow> \<exists>u. f t = Some u \<and> calm u" and "\<And>t. quiet_tray t \<Longrightarrow> ends quiet_tray (f t)" and "desk_ok d"
  shows "desk_kept d (on_tray f d)"
proof -
  obtain u where u: "f (desk_tray d) = Some u" "calm u"
    using assms(1,3) by (auto simp: desk_ok_def)
  have "quiet_tray u" if "quiet_tray (desk_tray d)"
    using endsD [OF assms(2) [OF that] u(1)] .
  then show ?thesis
    using u assms(3) by (auto simp: on_tray_def desk_ok_def same_desk_def)
qed

lemma publish_kept: "10 \<le> n \<Longrightarrow> desk_ok d \<Longrightarrow> desk_kept d (desk_publish P n d)"
  unfolding desk_publish_def by (intro on_engine_kept sound_call quiet_simple entry_call_simps)

lemma publish_inert_kept: "10 \<le> n \<Longrightarrow> desk_ok d \<Longrightarrow> inert d e \<Longrightarrow> desk_kept d (desk_publish P n e)"
  using publish_kept inert_ok inert_kept by blast

lemma save_and_assign_kept:
  assumes "10 \<le> n" and "desk_ok d" and "\<And>e. desk_ok e \<Longrightarrow> desk_kept e (applied e)"
  shows "desk_kept d (save_and_assign P n io c applied d)"
proof (cases "save_config io c d")
  case (Pair r e)
  have "inert d e" "inert d (assign_config c e)"
    using inert_save [OF Pair] inert_trans [OF inert_save [OF Pair] inert_parts(4)] by auto
  note kept = this
  have "desk_kept d (applied (assign_config c e))"
    using inert_kept [OF assms(3) kept(2)] inert_ok [OF kept(2) assms(2)] by blast
  then show ?thesis
    using publish_inert_kept [OF assms(1,2) kept(1)] by (auto simp: save_and_assign_def Pair split: sum.split)
qed

lemma sound_lockout: "10 \<le> n \<Longrightarrow>
   sound_step (\<lambda>a. apply_power_reconciliation P n (if b then a else a\<lparr>last_block_reason := None\<rparr>))"
  using sound_power by (auto simp: sound_step_def intro!: sound_stepD [OF sound_power])

lemma quiet_lockout: "quiet_step (\<lambda>a. apply_power_reconciliation P n (if b then a else a\<lparr>last_block_reason := None\<rparr>))"
  by (auto simp: quiet_step_def intro!: quiet_stepD [OF quiet_power])

lemma settings_kept:
  assumes "10 \<le> n" and "desk_ok d"
  shows "desk_kept d (set_automatic P n io b d)" "desk_kept d (set_auto_resume P n io b d)"
    "desk_kept d (set_battery_lockout P n io b d)"
  unfolding set_automatic_def set_auto_resume_def set_battery_lockout_def using assms
  by (auto intro!: save_and_assign_kept on_engine_kept sound_simple quiet_simple sound_power quiet_power sound_lockout
      quiet_lockout)

lemma inert_startup:
  "inert d (set_startup_unavailable io m d)" "inert d (set_startup_registered io b t d)"
proof -
  show "inert d (set_startup_unavailable io m d)"
    by (auto simp: set_startup_unavailable_def Let_def
        intro: inert_trans [OF inert_save inert_parts(3)]
          inert_trans [OF inert_save inert_trans [OF inert_parts(4) inert_parts(3)]] split: prod.split sum.split)
  have "inert d (snd (rollback_startup io b d))" for d :: "'a desk"
    by (auto simp: rollback_startup_def split: startup_rollback.split sum.split prod.split)
  then have rollback: "inert d e" if "rollback_startup io b d = (r, e)" for r and d e :: "'a desk"
    using that by (metis snd_conv)
  show "inert d (set_startup_registered io b t d)"
    by (auto simp: set_startup_registered_def Let_def
        intro: inert_trans [OF inert_save inert_trans [OF rollback inert_parts(3)]]
          inert_trans [OF inert_save inert_trans [OF inert_parts(4) inert_parts(3)]] split: prod.split sum.split)
qed

lemma set_startup_kept: "10 \<le> n \<Longrightarrow> desk_ok d \<Longrightarrow> desk_kept d (set_startup P n io b d)"
  by (auto simp: set_startup_def startup_change_def Let_def
      intro!: publish_inert_kept inert_startup inert_trans [OF inert_parts(2) inert_startup(2)]
        inert_trans [OF inert_parts(2) inert_parts(3)] split: sum.split prod.split)

lemma settings_reset_kept:
  assumes "10 \<le> n" and "desk_ok d"
  shows "desk_kept d (handle_settings_reset P n io d)"
proof -
  have body: "desk_kept e (case save_config io config_default (clear_schedules e) of
           (Inl _, d3) \<Rightarrow> Some d3
         | (Inr _, d3) \<Rightarrow>
             let d4 = with_presets (from_seconds_list (cfg_schedule_presets config_default)) (assign_config config_default d3);
                 d5 = (if cfg_startup_enabled config_default
                       then (case startup_target_of (debug_build d4) (executable d4) of
                               Inl _ \<Rightarrow> d4
                             | Inr target \<Rightarrow> d4\<lparr>run_key := snd (register_startup_target (io_kind io) (io_registry io) target (run_key d4))\<rparr>)
                       else d4\<lparr>run_key := snd (remove_startup (io_registry io) (run_key d4))\<rparr>)
             in do {
               d6 \<leftarrow> on_engine (apply_power_reconciliation P n) d5;
               desk_publish P n d6 })" if e: "desk_ok e" for e :: "'a desk"
  proof (cases "save_config io config_default (clear_schedules e)")
    case (Pair r d3)
    have d3: "inert e d3"
      using inert_trans [OF inert_parts(6) inert_save [OF Pair]] .
    then have d4: "inert e (with_presets ps (assign_config config_default d3))" for ps
      using inert_trans inert_parts(4,5) by blast
    have tail: "desk_kept e (on_engine (apply_power_reconciliation P n) d5 \<bind> desk_publish P n)" if "inert e d5" for d5
      using that inert_ok [OF that e] assms(1)
      by (auto intro!: desk_kept_bind inert_kept [OF on_engine_kept] sound_power quiet_power publish_kept)
    show ?thesis
      using inert_ok [OF d3 e] Pair d4 inert_trans [OF d4 inert_parts(2)]
      by (auto simp: Let_def intro!: tail split: sum.split)
  qed
  show ?thesis
    using assms body
    by (auto simp: handle_settings_reset_def Let_def intro!: desk_kept_bind on_engine_kept sound_simple quiet_simple)
qed

lemma execute_reset_kept: "desk_ok d \<Longrightarrow> desk_ok (execute_reset io d) \<and> same_desk d (execute_reset io d)"
  by (auto simp: execute_reset_def reset_cleanup_def Let_def desk_ok_def same_desk_def split: prod.split)

lemma sound_preset: "10 \<le> n \<Longrightarrow> sound_step (schedule_preset_action P n act i ps)"
  by (auto simp: sound_step_def schedule_preset_action_def intro!: sound_stepD [OF sound_duration])

lemma menu_command_kept:
  assumes "10 \<le> n" and "desk_ok d"
  shows "desk_kept d (menu_command P n io c d)"
  unfolding menu_command_def
  using assms execute_reset_kept [OF assms(2), of io] inert_ok [OF inert_parts(8) assms(2)]
  by (auto intro!: on_engine_kept sound_simple quiet_simple settings_reset_kept sound_cancel quiet_cancel set_startup_kept
      settings_kept sound_duration quiet_duration sound_preset quiet_preset split: option.split sum.split)

section \<open>Shutdown and the window procedure\<close>

lemma pass_gate_fields [simp]:
  "desk_tray (pass_gate r d) = desk_tray d" "quit_posted (pass_gate r d) = quit_posted d"
  "emergency_state (pass_gate r d) = emergency_state d" "restore_calls (pass_gate r d) = restore_calls d"
  "ipc_server_running (pass_gate r d) = ipc_server_running d" "watchdog_running (pass_gate r d) = watchdog_running d"
  "state_files (pass_gate r d) = state_files d"
  by (simp_all add: pass_gate_def)

lemma pass_gate_verified:
  "\<not> verified (gate d) \<Longrightarrow> verified (gate (pass_gate r d)) = (\<not> isl r)"
  "\<not> verified (gate d) \<Longrightarrow> attempts (gate (pass_gate r d)) = saturating_add (attempts (gate d)) 1"
  by (cases r; simp add: pass_gate_def gate_attempt_def Let_def)+

text \<open>What a cleanup leaves: the calm application, and when it succeeds nothing held.\<close>

definition cleaned :: "'p desk \<Rightarrow> (cleanup_error, unit) result \<Rightarrow> 'p desk \<Rightarrow> bool" where
  "cleaned d r e \<longleftrightarrow> calm (desk_tray e) \<and> \<not> ipc_server_running e \<and> \<not> watchdog_running e
     \<and> quit_posted e = quit_posted d \<and> emergency_state e = emergency_state d \<and> restore_calls e = restore_calls d
     \<and> state_files e = state_files d
     \<and> (if isl r then quiet_tray (desk_tray e) \<and> \<not> verified (gate e)
           \<and> attempts (gate e) = saturating_add (attempts (gate d)) 1
         else verified (gate e)
           \<and> (verified (gate d) \<or> app_ownership (desk_app e) = OwnReleased \<and> handoff (desk_app e) = None))"

lemma released_quit_handoff:
  "quit_handoff a = (sync_timing_snapshot (a\<lparr>handoff := None, controller := clear_release_boundary (controller a)\<rparr>))
     \<lparr>external_timing := True, app_status := TsStopped\<rparr>"
  "storm (quit_handoff a) = storm a" "app_ownership (quit_handoff a) = app_ownership a" "handoff (quit_handoff a) = None"
  by (simp_all add: quit_handoff_def sync_timing_snapshot_def clear_release_boundary_def set_snap_selected_def)

lemma publish_result:
  assumes "10 \<le> n" and "\<not> storm (desk_app d)"
  shows "desk_publish P n d = Some (with_app published d)"
proof -
  have "engine P n CallPublish (desk_app d) = Some (True, published (desk_app d))"
    by (rule engine_mono [OF publish_returns [OF assms(2), of P 0]]) (use assms(1) in simp)
  then show ?thesis
    by (simp add: desk_publish_def on_engine_def on_tray_def on_app_def call_def with_app_def)
qed

lemma with_app_fields [simp]:
  "desk_tray (with_app f d) = (desk_tray d)\<lparr>tray_app := f (desk_app d)\<rparr>" "gate (with_app f d) = gate d"
  "quit_posted (with_app f d) = quit_posted d" "emergency_state (with_app f d) = emergency_state d"
  "restore_calls (with_app f d) = restore_calls d" "ipc_server_running (with_app f d) = ipc_server_running d"
  "watchdog_running (with_app f d) = watchdog_running d" "state_files (with_app f d) = state_files d"
  by (simp_all add: with_app_def)

lemma cleared_fields [simp]:
  "gate (kill_heartbeat_timer (clear_schedules d)) = gate d"
  "quit_posted (kill_heartbeat_timer (clear_schedules d)) = quit_posted d"
  "emergency_state (kill_heartbeat_timer (clear_schedules d)) = emergency_state d"
  "restore_calls (kill_heartbeat_timer (clear_schedules d)) = restore_calls d"
  "ipc_server_running (kill_heartbeat_timer (clear_schedules d)) = ipc_server_running d"
  "watchdog_running (kill_heartbeat_timer (clear_schedules d)) = watchdog_running d"
  "state_files (kill_heartbeat_timer (clear_schedules d)) = state_files d"
  by (simp_all add: clear_schedules_def kill_heartbeat_timer_def Let_def with_app_def)

lemma cleanup_result:
  assumes n: "10 \<le> n" and ok: "desk_ok d"
  shows "\<exists>r e. cleanup_normal_shutdown P n d = Some (r, e) \<and> cleaned d r e"
proof (cases "verified (gate d)")
  case True
  then show ?thesis
    using ok by (simp add: cleanup_normal_shutdown_def Let_def cleaned_def desk_ok_def)
next
  case False
  define d0 where "d0 = d\<lparr>ipc_server_running := False, watchdog_running := False\<rparr>"
  define d1 where "d1 = kill_heartbeat_timer (clear_schedules d0)"
  have d1: "gate d1 = gate d" "quit_posted d1 = quit_posted d" "emergency_state d1 = emergency_state d"
      "restore_calls d1 = restore_calls d" "\<not> ipc_server_running d1" "\<not> watchdog_running d1" "state_files d1 = state_files d"
    by (simp_all add: d1_def d0_def)
  have d0: "gate d0 = gate d"
    by (simp add: d0_def)
  have "inert d d1"
    unfolding d1_def d0_def using inert_trans [OF inert_parts(9) inert_trans [OF inert_parts(6) inert_parts(7)]] by blast
  then have ok1: "desk_ok d1"
    using inert_ok ok by blast
  then have calm: "\<not> storm (desk_app d1)" and quiet: "quiet (desk_app d1)"
    using False d1(1) by (simp_all add: desk_ok_def calm_def quiet_tray_def)
  show ?thesis
  proof (cases "handoff (desk_app d1) \<noteq> None \<and> app_ownership (desk_app d1) = OwnReleased")
    case True
    have "desk_publish P n (with_app quit_handoff d1) = Some (with_app published (with_app quit_handoff d1))"
      by (rule publish_result [OF n]) (use calm in \<open>simp add: released_quit_handoff(2)\<close>)
    then show ?thesis
      using False True calm d1 d0
      by (simp add: cleanup_normal_shutdown_def Let_def d0_def [symmetric] d1_def [symmetric] cleaned_def calm_def
          pass_gate_verified released_quit_handoff(2-4))
  next
    case held: False
    obtain settled b where run: "engine P n (CallGuardedRelease TsStopped) (desk_app d1) = Some (settled, b)" "\<not> storm b"
      using entry_returns [OF calm, of "CallGuardedRelease TsStopped" P] engine_mono [OF _ n] by (metis entry_call_simps(3))
    have "quiet b"
      using quiet_call [OF engine_quiet, of "CallGuardedRelease TsStopped" "desk_app d1" P n] run(1) quiet by simp
    moreover have "app_ownership b = OwnReleased" if "settled"
      using release_settles [OF calm quiet, of P n TsStopped b] run(1) that by (simp add: released_calm_def)
    ultimately show ?thesis
      using False held run d1 d0
      by (auto simp: cleanup_normal_shutdown_def Let_def d0_def [symmetric] d1_def [symmetric] cleaned_def calm_def
          quiet_tray_def pass_gate_verified)
  qed
qed

text \<open>A step of the loop: it keeps the invariant, and when it posts the quit nothing is held.\<close>

definition desk_safe :: "'p desk \<Rightarrow> 'p desk \<Rightarrow> bool" where
  "desk_safe d e \<longleftrightarrow> desk_ok e \<and> (verified (gate d) \<longrightarrow> verified (gate e)) \<and> (quit_posted e \<and> \<not> quit_posted d \<longrightarrow>
     verified (gate e) \<and> app_ownership (desk_app e) = OwnReleased \<and> handoff (desk_app e) = None)"

lemma kept_safe: "desk_kept d m \<Longrightarrow> \<exists>e. m = Some e \<and> desk_safe d e"
  by (auto simp: desk_kept_def desk_safe_def same_desk_def)

lemma cleanup_and_quit_safe:
  assumes "10 \<le> n" and "desk_ok d"
  shows "\<exists>b e. cleanup_and_quit P n d = Some (b, e) \<and> desk_safe d e"
proof -
  obtain r e where re: "cleanup_normal_shutdown P n d = Some (r, e)" "cleaned d r e"
    using cleanup_result [OF assms] by blast
  moreover have "\<not> verified (gate d)" if "isl r"
    using re(1) that by (auto simp: cleanup_normal_shutdown_def Let_def split: if_splits)
  ultimately show ?thesis
    using assms(2) by (cases r) (auto simp: cleanup_and_quit_def cleaned_def desk_safe_def desk_ok_def)
qed

lemma menu_safe:
  assumes "10 \<le> n" and "desk_ok d"
  shows "\<exists>b e. handle_menu_command P n io c d = Some (b, e) \<and> desk_safe d e"
  using assms cleanup_and_quit_safe [OF assms, of P] kept_safe [OF menu_command_kept [OF assms, of P io c]]
  by (auto simp: handle_menu_command_def quit_command_def Let_def desk_safe_def
      split: quit_decision.split quit_dialog_decision.split)

lemma emergency_ok: "desk_ok d \<Longrightarrow> desk_ok (session_end_cleanup io w d)"
  by (auto simp: session_end_cleanup_def emergency_cleanup_def restore_timer_resolution_def Let_def desk_ok_def
      calm_def quiet_tray_def with_app_def)

lemma emergency_quit:
  "quit_posted (session_end_cleanup io w d) = quit_posted d" "gate (session_end_cleanup io w d) = gate d"
  by (simp_all add: session_end_cleanup_def emergency_cleanup_def restore_timer_resolution_def Let_def)

lemma restore_icon_steps:
  "10 \<le> n \<Longrightarrow> sound_step (restore_tray_icon P n)" "quiet_step (restore_tray_icon P n)"
proof -
  have "storm (snd (attempt_surface_restore a)) = storm a" for a :: "'a app"
    by (rule storm_restore)
  then have storm: "attempt_surface_restore a = (b, x) \<Longrightarrow> storm x = storm a" for a x :: "'a app" and b
    by (metis snd_conv)
  have quiet: "attempt_surface_restore a = (b, x) \<Longrightarrow> quiet x = quiet a" for a x :: "'a app" and b
    using quiet_restore [of a] by (metis snd_conv)
  show "sound_step (restore_tray_icon P n)" if "10 \<le> n"
    using that unfolding sound_step_def restore_tray_icon_def
    by (auto simp: storm intro!: call_returns split: prod.split bool.split)
  show "quiet_step (restore_tray_icon P n)"
    unfolding quiet_step_def restore_tray_icon_def
    by (auto simp: quiet intro!: ends_call split: prod.split bool.split)
qed

lemma timer_kept:
  assumes "10 \<le> n" and "desk_ok d"
  shows "desk_kept d (timer_message P n io w d)"
  using assms
  by (auto simp: timer_message_def
      intro!: on_engine_kept on_tray_kept sound_simple quiet_simple debounce_timer_returns quiet_debounce_timer
        sound_handoff_timer quiet_handoff_timer heartbeat_returns quiet_heartbeat sound_surface quiet_surface
        sound_duration_timer quiet_duration_timer)

lemma drain_kept:
  assumes "10 \<le> n" and "desk_ok d"
  shows "desk_kept d (on_tray (drain_ipc_command_queue P n native) d)"
proof (rule on_tray_kept [OF _ _ assms(2)])
  show "\<exists>u. drain_ipc_command_queue P n native t = Some u \<and> calm u" if "calm t" for t :: "'a tray"
    using drain_returns [OF assms(1) that, of P native "ipc_command_queue t"] by (auto simp: drain_ipc_command_queue_def)
  show "ends quiet_tray (drain_ipc_command_queue P n native t)" if "quiet_tray t" for t :: "'a tray"
    using quiet_drain [OF that] by (simp add: drain_ipc_command_queue_def)
qed

lemma window_proc_safe:
  assumes "10 \<le> n" and "desk_ok d"
  shows "\<exists>e. window_proc P n io m d = Some e \<and> desk_ok e \<and> (verified (gate d) \<longrightarrow> verified (gate e))
    \<and> (m \<noteq> MsgDestroy \<longrightarrow> desk_safe d e)"
proof (cases m)
  case MsgTaskbarCreated
  then show ?thesis
    using kept_safe [OF on_engine_kept [OF restore_icon_steps assms(2)], of n P] assms(1)
    by (auto simp: window_proc_def desk_safe_def)
next
  case (MsgCommand w)
  then show ?thesis
    using menu_safe [OF assms, of P io "w mod 0x10000"] kept_safe [OF settings_reset_kept [OF assms, of P io]] assms(2)
    by (auto simp: window_proc_def Let_def desk_safe_def)
next
  case (MsgTimer w)
  then show ?thesis
    using kept_safe [OF timer_kept [OF assms, of P io w]] by (auto simp: window_proc_def desk_safe_def)
next
  case MsgIpc
  then show ?thesis
    using kept_safe [OF drain_kept [OF assms, of P "io_power io"]] by (auto simp: window_proc_def desk_safe_def)
next
  case (MsgPower code)
  have "desk_kept d (on_tray (handle_power_broadcast P n code (io_power io)) d)"
    using assms by (intro on_tray_kept broadcast_returns quiet_broadcast)
  then show ?thesis
    using MsgPower kept_safe by (auto simp: window_proc_def desk_safe_def)
next
  case (MsgEndSession w)
  then show ?thesis
    using emergency_ok [OF assms(2), of io w] emergency_quit [of io w d] by (simp add: window_proc_def desk_safe_def)
next
  case MsgClose
  then show ?thesis
    using menu_safe [OF assms, of P io 1004] by (auto simp: window_proc_def desk_safe_def)
next
  case MsgDestroy
  then show ?thesis
    using assms(2) by (simp add: window_proc_def desk_ok_def destroy_window_def calm_def quiet_tray_def)
qed (use assms(2) in \<open>simp_all add: window_proc_def desk_safe_def\<close>)

section \<open>Runs of the application\<close>

text \<open>Between two messages the environment may change: the clock, the outcomes of native calls to come, the counters of
  the watchdog, and the requests the pipe server has queued, as long as fewer than three anomalies were seen.\<close>

definition environment_step :: "'p desk \<Rightarrow> 'p desk \<Rightarrow> bool" where
  "environment_step d e \<longleftrightarrow> calm (desk_tray e) \<and>
     (\<exists>ev q w. e = d\<lparr>desk_tray := (desk_tray d)\<lparr>tray_app := (desk_app d)\<lparr>env := ev\<rparr>,
        ipc_command_queue := ipc_command_queue (desk_tray d) @ q, watchdog_stall_events := w\<rparr>\<rparr>)"

inductive desk_run :: "'p timer_platform \<Rightarrow> nat \<Rightarrow> 'p desk \<Rightarrow> 'p desk \<Rightarrow> bool" for P n d0 where
  run_start: "desk_run P n d0 d0"
| run_message: "desk_run P n d0 d \<Longrightarrow> window_proc P n io m d = Some e \<Longrightarrow> desk_run P n d0 e"
| run_presets: "desk_run P n d0 d \<Longrightarrow>
    e \<in> {window_presets_add io d, window_presets_delete io d, window_presets_reset io d} \<Longrightarrow> desk_run P n d0 e"
| run_retry: "desk_run P n d0 d \<Longrightarrow> after_message_loop P n io ex elapsed ui d = Some (LoopContinues, e) \<Longrightarrow> desk_run P n d0 e"
| run_environment: "desk_run P n d0 d \<Longrightarrow> environment_step d e \<Longrightarrow> desk_run P n d0 e"

lemma environment_ok: "environment_step d e \<Longrightarrow> desk_ok d \<Longrightarrow> desk_ok e"
  by (auto simp: environment_step_def desk_ok_def quiet_tray_def)

lemma retry_ok:
  assumes "10 \<le> n" and "desk_ok d" and "after_message_loop P n io ex elapsed ui d = Some (LoopContinues, e)"
  shows "desk_ok e"
proof -
  obtain r d1 where c: "cleanup_normal_shutdown P n d = Some (r, d1)" "cleaned d r d1"
    using cleanup_result [OF assms(1,2)] by blast
  have err: "isl r"
    using assms(3) c(1) by (cases r; cases ex) (auto simp: after_message_loop_def shutdown_disposition_of_def)
  have "\<not> storm (desk_app (with_app (\<lambda>a. a\<lparr>app_status := TsUnverified\<rparr>) d1))"
    using c(2) by (simp add: cleaned_def calm_def)
  note pub = publish_result [OF assms(1) this, of P]
  have "e = with_app published (with_app (\<lambda>a. a\<lparr>app_status := TsUnverified\<rparr>) d1)"
    using assms(3) c(1) err pub by (auto simp: after_message_loop_def split: if_splits shutdown_disposition.splits)
  then show ?thesis
    using assms(2) c(2) err by (auto simp: desk_ok_def cleaned_def calm_def quiet_tray_def quiet_def)
qed

lemma run_ok: "desk_run P n d0 d \<Longrightarrow> 10 \<le> n \<Longrightarrow> desk_ok d0 \<Longrightarrow> desk_ok d"
proof (induction rule: desk_run.induct)
  case (run_message d io m e)
  then show ?case
    using window_proc_safe [of n d P io m] by auto
next
  case (run_presets d e io)
  then show ?case
    using inert_ok [OF inert_presets(1)] inert_ok [OF inert_presets(2)] inert_ok [OF inert_presets(3)] by blast
qed (auto intro: retry_ok environment_ok)

text \<open>C4: The application answers every message and does not quit while it holds the timer. The runs are those from a
  quiescent start by window messages, presets operations, retries of the shutdown and changes of the environment, in which
  fewer than three anomalies are seen at any time. In every state of such a run, whatever the file system, the registry, the
  dialogs and the power status answer, the window procedure returns. When it posts the quit, the first time and for another
  message than \<open>WM_DESTROY\<close> (a window destroyed from outside ends the loop with no cleanup), the cleanup is verified,
  ownership is released and no handoff is running. The emergency cleanup restores the timer at most once.\<close>

theorem quit_only_when_released:
  assumes "desk_run P n d0 d" and "10 \<le> n" and "desk_ok d0"
  shows "\<exists>e. window_proc P n io m d = Some e
    \<and> (quit_posted e \<and> \<not> quit_posted d \<and> m \<noteq> MsgDestroy \<longrightarrow>
         verified (gate e) \<and> app_ownership (desk_app e) = OwnReleased \<and> handoff (desk_app e) = None)
    \<and> length (restore_calls e) \<le> 1"
  using window_proc_safe [OF assms(2) run_ok [OF assms], of P io m] by (auto simp: desk_safe_def desk_ok_def)

text \<open>C30: The shutdown cleanup on a gate that is still open is exact about what it verified. With fewer than three anomalies it
  returns; when it reports success the gate is verified, ownership is released and no handoff is running; when it fails the
  gate stays open with one more attempt counted and no quit is posted, but the pipe server and the watchdog are already
  stopped and nothing starts them again. (On a gate verified before, the cleanup does nothing.)\<close>

theorem shutdown_cleanup_verified:
  assumes "10 \<le> n" and "desk_ok d" and "\<not> verified (gate d)"
  shows "\<exists>r e. cleanup_normal_shutdown P n d = Some (r, e) \<and> \<not> ipc_server_running e \<and> \<not> watchdog_running e
    \<and> quit_posted e = quit_posted d
    \<and> (case r of
         Inr _ \<Rightarrow> verified (gate e) \<and> app_ownership (desk_app e) = OwnReleased \<and> handoff (desk_app e) = None
       | Inl _ \<Rightarrow> \<not> verified (gate e) \<and> attempts (gate e) = saturating_add (attempts (gate d)) 1)"
proof -
  obtain r e where re: "cleanup_normal_shutdown P n d = Some (r, e)" "cleaned d r e"
    using cleanup_result [OF assms(1,2)] by blast
  then show ?thesis
    using assms(3) by (cases r) (auto simp: cleaned_def)
qed

text \<open>C31: What happens after the message loop is decided by the cleanup alone, the time and the surface. A verified cleanup ends
  the process as complete, or with the error of the message loop. One that could not be verified keeps the application open
  exactly when the loop ended by a quit, the surface is usable and fewer than 50 milliseconds passed since the loop was first
  entered; otherwise the process ends with the cleanup unresolved. Every end removes the session marker unless its removal
  fails, so that an unresolved end looks like a clean exit to the next start.\<close>

theorem unresolved_exit_marked_clean:
  assumes "10 \<le> n" and "desk_ok d"
  shows "\<exists>r d1 what e. cleanup_normal_shutdown P n d = Some (r, d1)
    \<and> after_message_loop P n io ex elapsed ui d = Some (what, e)
    \<and> what = (if \<not> isl r then LoopExits (if ex = NormalQuit then Complete else ExitAfterMessageLoopError)
              else if ex = NormalQuit \<and> ui \<and> unat elapsed < 50 then LoopContinues
              else LoopExits ExitWithUnresolvedCleanup)
    \<and> (verified (gate e) \<longleftrightarrow> \<not> isl r)
    \<and> state_files e SESSION_MARKER_FILENAME =
        (if what = LoopContinues \<or> io_remove_fails io SESSION_MARKER_FILENAME then state_files d SESSION_MARKER_FILENAME
         else None)
    \<and> (what \<noteq> LoopContinues \<longrightarrow> process_exited e)"
proof -
  obtain r d1 where c: "cleanup_normal_shutdown P n d = Some (r, d1)" "cleaned d r d1"
    using cleanup_result [OF assms] by blast
  have gate: "verified (gate d1) \<longleftrightarrow> \<not> isl r" and files: "state_files d1 = state_files d"
    using c(2) by (auto simp: cleaned_def)
  have late: "shutdown_pump_bound_exceeded elapsed SHUTDOWN_PUMP_BOUND_MS \<longleftrightarrow> \<not> unat elapsed < 50"
    by (simp add: shutdown_pump_bound_exceeded_def SHUTDOWN_PUMP_BOUND_MS_def word_le_nat_alt not_less)
  have "\<not> storm (desk_app (with_app (\<lambda>a. a\<lparr>app_status := TsUnverified\<rparr>) d1))"
    using c(2) by (simp add: cleaned_def calm_def)
  note pub = publish_result [OF assms(1) this, of P]
  have leave: "verified (gate (leave_process io d1)) \<longleftrightarrow> \<not> isl r" "process_exited (leave_process io d1)"
      "state_files (leave_process io d1) SESSION_MARKER_FILENAME =
         (if io_remove_fails io SESSION_MARKER_FILENAME then state_files d SESSION_MARKER_FILENAME else None)"
    using gate files by (simp_all add: leave_process_def remove_session_marker_def)
  show ?thesis
  proof (cases "isl r \<and> ex = NormalQuit \<and> ui \<and> unat elapsed < 50")
    case True
    then show ?thesis
      using c(1) gate files late pub by (simp add: after_message_loop_def shutdown_disposition_of_def)
  next
    case False
    then show ?thesis
      using c(1) late leave
      by (cases r; cases ex) (auto simp: after_message_loop_def shutdown_disposition_of_def)
  qed
qed

section \<open>A healthy application\<close>

text \<open>No anomaly, no failing native call and the nominal tier: publishing then changes neither the controller nor the
  tier, so the outcome of a release or of an acquisition is that of the controller.\<close>

definition healthy :: "'p app \<Rightarrow> bool" where
  "healthy a \<longleftrightarrow> tray_icon a \<and> tiering a = sample_tiering 0 \<and> watchdog_episodes (env a) = None
     \<and> storage_failures (env a) = [] \<and> dispatch_panics (env a) = 0 \<and> native_ok (env a) = (\<lambda>_. True)"

lemma healthy_update [simp]:
  "healthy (a\<lparr>controller := c\<rparr>) = healthy a" "healthy (a\<lparr>app_status := st\<rparr>) = healthy a"
  "healthy (a\<lparr>external_timing := b\<rparr>) = healthy a" "healthy (a\<lparr>running_since := rs\<rparr>) = healthy a"
  "healthy (a\<lparr>timing_snapshot_valid := b\<rparr>) = healthy a" "healthy (sync_timing_snapshot a) = healthy a"
  "healthy (a\<lparr>desired := q\<rparr>) = healthy a" "healthy (a\<lparr>app_invalid_interval := b\<rparr>) = healthy a"
  "healthy (a\<lparr>last_block_reason := lb\<rparr>) = healthy a" "healthy (a\<lparr>timing := tm\<rparr>) = healthy a"
  by (simp_all add: healthy_def sync_timing_snapshot_def)

lemma healthy_tier: "healthy a \<Longrightarrow> tier_step a = (Stay, a)"
  by (simp add: healthy_def tier_step_def Let_def drain_anomaly_producers_def drain_pending_def drain_watchdog_def
      drain_storage_def drain_panics_def highest_def sample_tiering_def evaluate_tier_def tier_context_of_def
      apply_transition_def model_defs)

lemma healthy_calm: "healthy a \<Longrightarrow> \<not> storm a"
  by (simp add: healthy_def storm_def anomalies_seen_def drain_anomaly_producers_def drain_pending_def drain_watchdog_def
      drain_storage_def drain_panics_def highest_def sample_tiering_def MAX_ANOMALIES_BEFORE_QUIESCENT_def)

lemma healthy_published:
  assumes "healthy a" shows "healthy (published a)" "controller (published a) = controller a"
proof -
  define st where "st = app_lifecycle_status (publish_mirrors a)"
  define y where "y = (if st \<noteq> TsRunning \<or> app_ownership (publish_mirrors a) \<noteq> Owned
      then (publish_mirrors a)\<lparr>running_since := None\<rparr> else publish_mirrors a)\<lparr>app_status := st\<rparr>"
  have y: "healthy y" "controller y = controller a"
    using assms by (simp_all add: y_def healthy_def publish_mirrors_def Let_def)
  then have facts: "snd (tier_step y) = y" "tray_icon y" "op_tier (tiering y) = Nominal" "native_ok (env y) = (\<lambda>_. True)"
    using healthy_tier [OF y(1)] by (simp_all add: healthy_def sample_tiering_def)
  have "publish_body (\<lambda>c b. Some (True, snd (tier_step b))) a
      = (let key = publication_key_of (published_status st (responsiveness_degraded y)) y in
         if last_publication y = Some key then Some (True, y)
         else Some (True, refresh_ipc_status (count_native (y\<lparr>last_publication := Some key\<rparr>))))"
    unfolding publish_body_def Let_def st_def [symmetric] y_def [symmetric]
    using facts by (simp add: native_call_def)
  then show "healthy (published a)" "controller (published a) = controller a"
    using y by (simp_all add: published_def Let_def refresh_ipc_status_def count_native_def healthy_def)
qed

text \<open>A release of a healthy application returns what the stop of the controller returned.\<close>

lemma release_stops:
  assumes a: "healthy a" "handoff a = None" "\<not> pause_active (pause a)"
    and stop: "ctl_stop P (controller a) = (r, c)"
    and settled: "\<And>bd. \<not> isl r \<Longrightarrow> snap_requested (snapshot c) = Some bd \<Longrightarrow> \<not> release_needs_handoff bd (snap_effective (snapshot c))"
  shows "\<exists>b. engine P 10 (CallGuardedRelease st) a = Some (\<not> isl r, b) \<and> healthy b
    \<and> controller b = (if isl r then c else clear_release_boundary c)
    \<and> (handoff b, pause b, desired b, power_now b, config b) = (None, pause a, desired a, power_now a, config a)"
proof -
  define x where "x = published (a\<lparr>external_timing := False, running_since := None, app_status := releasing_status a\<rparr>)"
  have x: "healthy x" "controller x = controller a" "handoff x = None" "pause x = pause a" "desired x = desired a"
      "power_now x = power_now a" "config x = config a"
    using a healthy_published [of "a\<lparr>external_timing := False, running_since := None, app_status := releasing_status a\<rparr>"]
    by (simp_all add: x_def)
  have pub: "engine P (Suc (Suc 0)) CallPublish y = Some (True, published y)" if "healthy y" for y
    by (rule publish_returns [OF healthy_calm [OF that]])
  let ?y = "sync_timing_snapshot (x\<lparr>controller := c\<rparr>)"
  show ?thesis
  proof (cases r)
    case (Inl e)
    let ?z = "?y\<lparr>timing_snapshot_valid := False, running_since := None, app_status := TsUnverified\<rparr>"
    have "engine P (Suc (Suc (Suc 0))) (CallGuardedRelease st) a = Some (False, published ?z)"
      using a(2) pub [of "a\<lparr>external_timing := False, running_since := None, app_status := releasing_status a\<rparr>"]
        pub [of ?z] a(1) x(1) stop Inl
      by (simp add: guarded_release_body_def x_def [symmetric] x(2) Let_def del: engine.simps(2))
    then have "engine P 10 (CallGuardedRelease st) a = Some (False, published ?z)"
      by (rule engine_mono) simp
    then show ?thesis
      using Inl healthy_published [of ?z] x by (simp add: sync_timing_snapshot_def)
  next
    case (Inr ch)
    let ?z = "(sync_timing_snapshot (?y\<lparr>timing_snapshot_valid := True, controller := clear_release_boundary c\<rparr>))
        \<lparr>timing_snapshot_valid := True, app_status := st\<rparr>"
    have "engine P (Suc (Suc (Suc 0))) (CallGuardedRelease st) a = Some (True, published ?z)"
      using a(2,3) pub [of "a\<lparr>external_timing := False, running_since := None, app_status := releasing_status a\<rparr>"]
        pub [of ?z] a(1) x(1,4) stop Inr settled
      by (cases "snap_requested (snapshot c)") (simp_all add: guarded_release_body_def x_def [symmetric] x(2) Let_def
          sync_timing_snapshot_def del: engine.simps(2,5,11))
    then have "engine P 10 (CallGuardedRelease st) a = Some (True, published ?z)"
      by (rule engine_mono) simp
    then show ?thesis
      using Inr healthy_published [of ?z] x by (simp add: sync_timing_snapshot_def)
  qed
qed

text \<open>A start of a released, healthy application on mains power acquires when the start of the controller succeeds.\<close>

lemma acquire_starts:
  assumes a: "healthy a" "handoff a = None" "\<not> pause_active (pause a)" "power_now a = Ac" "app_ownership a = OwnReleased"
    and start: "ctl_start P (controller a) = (Inr v, c)" "v = Verified \<or> v = FinerThanRequested"
  shows "\<exists>b. manual_start P 10 a = Some b \<and> healthy b \<and> controller b = c"
proof -
  define w where "w = a\<lparr>desired := (desired a)\<lparr>pending := None\<rparr>\<rparr>"
  define x where "x = published (w\<lparr>app_status := TsStarting\<rparr>)"
  have w: "healthy w" "handoff w = None" "pause w = pause a" "power_now w = Ac" "app_ownership w = OwnReleased"
      "tiering w = sample_tiering 0"
    using a by (simp_all add: w_def healthy_def)
  have x: "healthy x" "controller x = controller a" "pending (desired x) = None"
    using w healthy_published [of "w\<lparr>app_status := TsStarting\<rparr>"] by (simp_all add: x_def w_def)
  have pub: "engine P (Suc (Suc 0)) CallPublish y = Some (True, published y)" if "healthy y" for y
    by (rule publish_returns [OF healthy_calm [OF that]])
  define z where "z = (sync_timing_snapshot (x\<lparr>controller := c\<rparr>))\<lparr>timing_snapshot_valid := True,
      app_invalid_interval := False, last_block_reason := None, running_since := Some (clock (env x)), app_status := TsRunning\<rparr>"
  have z: "healthy z" "controller z = c" "pending (desired z) = None"
    using x by (simp_all add: z_def sync_timing_snapshot_def)
  have acquire: "engine P (Suc (Suc (Suc 0))) CallAcquire w = Some (True, published z)"
    using w pub [of "w\<lparr>app_status := TsStarting\<rparr>"] pub [OF z(1)] x start z(3)
    by (auto simp: acquire_timer_body_def x_def [symmetric] Let_def tier_allows_high_resolution_def sample_tiering_def
        z_def sync_timing_snapshot_def simp del: engine.simps(2,6))
  have "engine P (Suc (Suc (Suc (Suc (Suc 0))))) (CallQueueIntent Acquire) a = Some (True, published z)"
    using a(2,3,4) acquire
    by (simp add: queue_intent_body_def process_desired_intent_body_def intent_request_def intent_take_def w_def
        decide_def eligible_input_def Let_def del: engine.simps(7))
  then have "engine P 10 (CallQueueIntent Acquire) a = Some (True, published z)"
    by (rule engine_mono) simp
  then show ?thesis
    using healthy_published [OF z(1)] z(2) by (simp add: manual_start_def call_def)
qed

text \<open>So the cleanup of a healthy application ends as the stop of its controller does.\<close>

lemma cleanup_follows_stop:
  assumes d: "\<not> verified (gate d)" "healthy (desk_app d)" "handoff (desk_app d) = None"
    and stop: "ctl_stop P (controller (desk_app d)) = (r, c)"
    and settled: "\<And>bd. \<not> isl r \<Longrightarrow> snap_requested (snapshot c) = Some bd \<Longrightarrow> \<not> release_needs_handoff bd (snap_effective (snapshot c))"
  shows "\<exists>e. cleanup_normal_shutdown P 10 d = Some (if isl r then Err ReleaseUnverified else Ok (), e)
    \<and> healthy (desk_app e) \<and> controller (desk_app e) = (if isl r then c else clear_release_boundary c)
    \<and> handoff (desk_app e) = None \<and> \<not> pause_active (pause (desk_app e)) \<and> power_now (desk_app e) = power_now (desk_app d)
    \<and> verified (gate e) = (\<not> isl r) \<and> ipc_command_queue (desk_tray e) = ipc_command_queue (desk_tray d)"
proof -
  define d0 where "d0 = d\<lparr>ipc_server_running := False, watchdog_running := False\<rparr>"
  define d1 where "d1 = kill_heartbeat_timer (clear_schedules d0)"
  have d1: "gate d1 = gate d" "healthy (desk_app d1)" "handoff (desk_app d1) = None" "\<not> pause_active (pause (desk_app d1))"
      "controller (desk_app d1) = controller (desk_app d)" "power_now (desk_app d1) = power_now (desk_app d)"
      "ipc_command_queue (desk_tray d1) = ipc_command_queue (desk_tray d)"
    using d by (simp_all add: d1_def d0_def clear_schedules_def kill_heartbeat_timer_def kill_power_debounce_timer_def
        clear_debounce_def with_app_def Let_def healthy_def cancel_def pause_active_def cancel_duration_timer_def
        kill_schedule_display_timer_def)
  obtain b where b: "engine P 10 (CallGuardedRelease TsStopped) (desk_app d1) = Some (\<not> isl r, b)" "healthy b"
      "controller b = (if isl r then c else clear_release_boundary c)" "handoff b = None" "pause b = pause (desk_app d1)"
      "power_now b = power_now (desk_app d1)"
    using release_stops [OF d1(2-4), of P r c TsStopped] stop d1(5) settled by auto
  have "cleanup_normal_shutdown P 10 d = Some (if isl r then Err ReleaseUnverified else Ok (),
      pass_gate (if isl r then Err ReleaseUnverified else Ok () :: (cleanup_error, unit) result) (with_app (\<lambda>_. b) d1))"
    using d(1) d1(3) b(1,4)
    by (simp add: cleanup_normal_shutdown_def Let_def d0_def [symmetric] d1_def [symmetric]) (simp add: d0_def)
  then show ?thesis
    using b d1 d(1) by (simp add: pass_gate_verified)
qed

section \<open>Samples\<close>

definition answering_io :: desk_io where
  "answering_io = \<lparr>io_power = Ok (1, 0), io_save = no_faults,
     io_registry = \<lparr>open_status = 0, value_status = 0, close_status = 0\<rparr>,
     io_rollback = \<lparr>open_status = 0, value_status = 0, close_status = 0\<rparr>, io_kind = (\<lambda>_. RegularFile),
     io_message_box = Some 6, io_input_text = ''10m'', io_selection = 0, io_current_exe = True, io_spawn = True,
     io_list_logs = True, io_remove_fails = (\<lambda>_. False), io_menu_window = True\<rparr>"

definition sample_desk :: "'p tray \<Rightarrow> 'p desk" where
  "sample_desk t = \<lparr>desk_tray = t, stored = config_default, config_disk = (0, Map.empty), state_files = Map.empty,
     log_entries = {}, run_key = None, startup_status = [], gate = gate_new, ipc_server_running = True,
     watchdog_running = True, heartbeat_timer = True, presets_controls = False, menu_active = False,
     ipc_teardown = False, quit_posted = False, process_exited = False, emergency_state = CleanupPending,
     restore_calls = [], executable = \<lparr>path_prefix = ''C:'', path_parts = [''app'', ''Slots'', ''A'', ''true-tick.exe'']\<rparr>,
     debug_build = False, process_id = 7\<rparr>"

definition owned_desk :: "u32 windows_timer_platform desk" where
  "owned_desk = sample_desk (sample_tray (sample_app 0 (tick_run sim_kernel 156250 0 [OpStart])))"

lemma owned_desk_ok: "desk_ok owned_desk" "app_ownership (desk_app owned_desk) = Owned"
    "ipc_command_queue (desk_tray owned_desk) = []"
  using sample_tray_calm [of 0 "tick_run sim_kernel 156250 0 [OpStart]"]
  by (simp_all add: owned_desk_def desk_ok_def sample_desk_def gate_new_def quiet_tray_def sample_tray_def quiet_def
      sample_app_def intent_queue_new_def MAX_ANOMALIES_BEFORE_QUIESCENT_def sim_started(1))

lemma owned_healthy:
  "healthy (desk_app owned_desk)" "handoff (desk_app owned_desk) = None" "\<not> verified (gate owned_desk)"
  "\<not> quit_posted owned_desk" "power_now (desk_app owned_desk) = Ac"
  "controller (desk_app owned_desk) = tick_run sim_kernel 156250 0 [OpStart]"
  by (simp_all add: owned_desk_def sample_desk_def sample_tray_def sample_app_def healthy_def sample_env_def gate_new_def)

text \<open>The stop of the sample controller succeeds, the timer falls back at once, and a start after it succeeds again.\<close>

lemma sample_stop:
  obtains c where "ctl_stop (windows_platform sim_kernel) (tick_run sim_kernel 156250 0 [OpStart]) = (Inr True, c)"
    "ownership c = OwnReleased" "snap_effective (snapshot c) = Some 156250" "snap_requested (snapshot c) = Some 5000"
    "\<exists>c'. ctl_start (windows_platform sim_kernel) (clear_release_boundary c) = (Inr Verified, c') \<and> ownership c' = Owned"
  by (simp add: tick_run_Cons ctl_eval sim_eval clear_release_boundary_def set_snap_selected_def)

lemma sample_cleanup:
  assumes "d = owned_desk\<lparr>desk_tray := (desk_tray owned_desk)\<lparr>ipc_command_queue := q\<rparr>\<rparr>"
  obtains e c where "cleanup_normal_shutdown (windows_platform sim_kernel) 10 d = Some (Ok (), e)"
    "healthy (desk_app e)" "handoff (desk_app e) = None" "\<not> pause_active (pause (desk_app e))" "power_now (desk_app e) = Ac"
    "controller (desk_app e) = clear_release_boundary c" "ownership c = OwnReleased"
    "ipc_command_queue (desk_tray e) = q" "verified (gate e)"
    "\<exists>c'. ctl_start (windows_platform sim_kernel) (clear_release_boundary c) = (Inr Verified, c') \<and> ownership c' = Owned"
proof -
  obtain c where c: "ctl_stop (windows_platform sim_kernel) (tick_run sim_kernel 156250 0 [OpStart]) = (Inr True, c)"
    "ownership c = OwnReleased" "snap_effective (snapshot c) = Some 156250" "snap_requested (snapshot c) = Some 5000"
    "\<exists>c'. ctl_start (windows_platform sim_kernel) (clear_release_boundary c) = (Inr Verified, c') \<and> ownership c' = Owned"
    using sample_stop .
  have "\<not> verified (gate d)" "healthy (desk_app d)" "handoff (desk_app d) = None"
      "ctl_stop (windows_platform sim_kernel) (controller (desk_app d)) = (Inr True, c)"
    using owned_healthy c(1) by (simp_all add: assms)
  note cleanup_follows_stop [OF this]
  moreover have "\<not> release_needs_handoff bd (snap_effective (snapshot c))" if "snap_requested (snapshot c) = Some bd" for bd
    using that c(3,4) by (simp add: release_needs_handoff_def)
  ultimately show thesis
    using that c(2,5) owned_healthy(5) assms by auto
qed

lemma sample_close:
  assumes "d = owned_desk\<lparr>desk_tray := (desk_tray owned_desk)\<lparr>ipc_command_queue := q\<rparr>\<rparr>"
    and "cleanup_normal_shutdown (windows_platform sim_kernel) 10 d = Some (Ok (), e)"
  shows "window_proc (windows_platform sim_kernel) 10 answering_io MsgClose d = Some (e\<lparr>quit_posted := True\<rparr>)"
proof -
  have "quit_command (windows_platform sim_kernel) 10 answering_io d = cleanup_and_quit (windows_platform sim_kernel) 10 d"
    by (simp add: quit_command_def answering_io_def quit_warning_result_of_def message_box_decision_def Let_def
        split: quit_decision.split)
  then show ?thesis
    using assms(2) by (simp add: window_proc_def handle_menu_command_def menu_command_allowed_def Let_def
        menu_command_is_enabled_with_pause_def cleanup_and_quit_def)
qed

theorem quit_only_when_released_witness:
  "\<exists>e. app_ownership (desk_app owned_desk) = Owned \<and> \<not> quit_posted owned_desk
     \<and> window_proc (windows_platform sim_kernel) 10 answering_io MsgClose owned_desk = Some e \<and> quit_posted e
     \<and> verified (gate e) \<and> app_ownership (desk_app e) = OwnReleased \<and> handoff (desk_app e) = None"
proof -
  have d: "owned_desk = owned_desk\<lparr>desk_tray := (desk_tray owned_desk)\<lparr>ipc_command_queue := []\<rparr>\<rparr>"
    using owned_desk_ok(3) by simp
  obtain x c where "cleanup_normal_shutdown (windows_platform sim_kernel) 10 owned_desk = Some (Ok (), x)"
    using sample_cleanup [OF d] by metis
  from sample_close [OF d this] show ?thesis
    using quit_only_when_released [OF run_start order_refl owned_desk_ok(1), of "windows_platform sim_kernel" answering_io MsgClose]
      owned_desk_ok(2) owned_healthy(4) by auto
qed

theorem shutdown_cleanup_verified_witness:
  "\<exists>e. app_ownership (desk_app owned_desk) = Owned
     \<and> cleanup_normal_shutdown (windows_platform sim_kernel) 10 owned_desk = Some (Ok (), e)
     \<and> app_ownership (desk_app e) = OwnReleased \<and> verified (gate e) \<and> \<not> watchdog_running e"
proof -
  have d: "owned_desk = owned_desk\<lparr>desk_tray := (desk_tray owned_desk)\<lparr>ipc_command_queue := []\<rparr>\<rparr>"
    using owned_desk_ok(3) by simp
  obtain x c where "cleanup_normal_shutdown (windows_platform sim_kernel) 10 owned_desk = Some (Ok (), x)"
    using sample_cleanup [OF d] by metis
  then show ?thesis
    using shutdown_cleanup_verified [OF order_refl owned_desk_ok(1) owned_healthy(3), of "windows_platform sim_kernel"]
      owned_desk_ok(2) by auto
qed

text \<open>A kernel that grants a request and refuses to take it back.\<close>

definition sticky_kernel :: "u32 nt_kernel" where
  "sticky_kernel =
     \<lparr>NtQueryTimerResolution = (\<lambda>cur. ((0, 156250, 5000, cur), cur)),
      NtSetTimerResolution = (\<lambda>desired on cur. if on = 1 then ((0, desired), desired) else ((1, cur), cur))\<rparr>"

definition held_desk :: "u32 windows_timer_platform desk" where
  "held_desk = (sample_desk (sample_tray (sample_app 0 (tick_run sticky_kernel 156250 0 [OpStart]))))
     \<lparr>state_files := [SESSION_MARKER_FILENAME \<mapsto> []]\<rparr>"

lemma held_stop:
  obtains x c where "ctl_stop (windows_platform sticky_kernel) (tick_run sticky_kernel 156250 0 [OpStart]) = (Inl x, c)"
    "ownership c = Owned"
  by (simp add: tick_run_Cons ctl_eval sim_eval sticky_kernel_def)

theorem unresolved_exit_marked_clean_witness:
  "\<exists>e. after_message_loop (windows_platform sticky_kernel) 10 answering_io NormalQuit 60 True held_desk
       = Some (LoopExits ExitWithUnresolvedCleanup, e)
     \<and> \<not> verified (gate e) \<and> process_exited e
     \<and> state_files held_desk SESSION_MARKER_FILENAME \<noteq> None \<and> state_files e SESSION_MARKER_FILENAME = None"
proof -
  let ?P = "windows_platform sticky_kernel"
  have ok: "desk_ok held_desk"
    using sample_tray_calm [of 0 "tick_run sticky_kernel 156250 0 [OpStart]"]
    by (simp add: held_desk_def desk_ok_def sample_desk_def gate_new_def quiet_tray_def sample_tray_def quiet_def
        sample_app_def intent_queue_new_def MAX_ANOMALIES_BEFORE_QUIESCENT_def)
  obtain x c where x: "ctl_stop ?P (tick_run sticky_kernel 156250 0 [OpStart]) = (Inl x, c)"
    using held_stop by metis
  have "\<not> verified (gate held_desk)" "healthy (desk_app held_desk)" "handoff (desk_app held_desk) = None"
      "ctl_stop ?P (controller (desk_app held_desk)) = (Inl x, c)"
    using x by (simp_all add: held_desk_def sample_desk_def sample_tray_def sample_app_def healthy_def sample_env_def
        gate_new_def)
  then obtain d1 where "cleanup_normal_shutdown ?P 10 held_desk = Some (Err ReleaseUnverified, d1)"
    using cleanup_follows_stop [of held_desk ?P "Inl x" c] by auto
  then show ?thesis
    using unresolved_exit_marked_clean [OF order_refl ok, of ?P answering_io NormalQuit 60 True]
    by (auto simp: held_desk_def answering_io_def)
qed

text \<open>C32: A verified cleanup is final even when it is no longer true. Once the gate is verified, requests that the pipe server
  queued before it was stopped are still executed by the messages the loop delivers before it ends. If one of them acquires
  the timer, the cleanup after the loop reports completion without a release: the process ends as complete with the timer
  held, and what the window procedure did for the message is all that happened to the controller.\<close>

theorem verified_gate_skips_release:
  assumes "desk_run P n d0 d" and "10 \<le> n" and "desk_ok d0" and "verified (gate d)"
    and "window_proc P n io m d = Some d1" and "app_ownership (desk_app d1) = Owned"
  shows "\<exists>e. after_message_loop P n io NormalQuit elapsed ui d1 = Some (LoopExits Complete, e)
    \<and> process_exited e \<and> app_ownership (desk_app e) = Owned \<and> controller (desk_app e) = controller (desk_app d1)"
proof -
  have "verified (gate d1)"
    using window_proc_safe [OF assms(2) run_ok [OF assms(1-3)], of P io m] assms(4,5) by auto
  then show ?thesis
    using assms(6)
    by (auto simp: after_message_loop_def cleanup_normal_shutdown_def shutdown_disposition_of_def leave_process_def Let_def)
qed

theorem verified_gate_skips_release_witness:
  "\<exists>d d1 e. desk_run (windows_platform sim_kernel) 10 owned_desk d \<and> quit_posted d \<and> app_ownership (desk_app d) = OwnReleased
     \<and> window_proc (windows_platform sim_kernel) 10 answering_io MsgIpc d = Some d1
     \<and> after_message_loop (windows_platform sim_kernel) 10 answering_io NormalQuit 0 True d1 = Some (LoopExits Complete, e)
     \<and> app_ownership (desk_app e) = Owned"
proof -
  let ?P = "windows_platform sim_kernel" and ?q = "[\<lparr>req_verb = RequestAcquire, req_payload = [], responder = 7\<rparr>]"
  define d where "d = owned_desk\<lparr>desk_tray := (desk_tray owned_desk)\<lparr>ipc_command_queue := ?q\<rparr>\<rparr>"
  obtain x c where x: "cleanup_normal_shutdown ?P 10 d = Some (Ok (), x)"
    "healthy (desk_app x)" "handoff (desk_app x) = None" "\<not> pause_active (pause (desk_app x))" "power_now (desk_app x) = Ac"
    "controller (desk_app x) = clear_release_boundary c" "ownership c = OwnReleased"
    "ipc_command_queue (desk_tray x) = ?q" "verified (gate x)"
    "\<exists>c'. ctl_start ?P (clear_release_boundary c) = (Inr Verified, c') \<and> ownership c' = Owned"
    using sample_cleanup [OF d_def] .
  obtain c' where c': "ctl_start ?P (controller (desk_app x)) = (Inr Verified, c')" "ownership c' = Owned"
    using x(6,10) by auto
  let ?x = "x\<lparr>quit_posted := True\<rparr>"
  have "environment_step owned_desk d"
    using owned_desk_ok(1,3) unfolding environment_step_def d_def
    by (intro conjI exI [of _ "env (desk_app owned_desk)"] exI [of _ ?q] exI [of _ "watchdog_stall_events (desk_tray owned_desk)"])
      (simp_all add: desk_ok_def calm_def)
  then have "desk_run ?P 10 owned_desk d"
    using run_environment [OF run_start] by blast
  then have run: "desk_run ?P 10 owned_desk ?x"
    using run_message sample_close [OF d_def x(1)] by blast
  have released: "app_ownership (desk_app x) = OwnReleased"
    using x(6,7) by (simp add: clear_release_boundary_def set_snap_selected_def)
  obtain b where b: "manual_start ?P 10 (desk_app x) = Some b" "controller b = c'"
    using acquire_starts [OF x(2-5) released c'(1)] by blast
  then obtain d1 where d1: "window_proc ?P 10 answering_io MsgIpc ?x = Some d1" "controller (desk_app d1) = c'"
    using x(8) by (simp add: window_proc_def on_tray_def drain_ipc_command_queue_def handle_ipc_command_def
        handle_ipc_acquire_def on_app_def Let_def)
  have owned: "app_ownership (desk_app d1) = Owned"
    using d1(2) c'(2) by simp
  have "verified (gate ?x)"
    using x(9) by simp
  from verified_gate_skips_release [OF run order_refl owned_desk_ok(1) this d1(1) owned, of 0 True] obtain e where
    "after_message_loop ?P 10 answering_io NormalQuit 0 True d1 = Some (LoopExits Complete, e)"
    "app_ownership (desk_app e) = Owned"
    by blast
  then show ?thesis
    using run released d1(1) by (intro exI [of _ ?x] exI [of _ d1] exI [of _ e]) simp
qed

section \<open>Start at boot\<close>

lemma short_status: "length s \<le> 512 \<Longrightarrow> bounded_startup_status s = s"
  by (simp add: bounded_startup_status_def truncate_utf8_def MAX_STARTUP_STATUS_BYTES_def)

lemma current_assign [simp]: "current_config (assign_config c d) = c"
  by (simp add: current_config_def assign_config_def Let_def with_app_def)

lemma current_same [simp]:
  "current_config (d\<lparr>config_disk := k\<rparr>) = current_config d" "current_config (d\<lparr>run_key := v\<rparr>) = current_config d"
  "current_config (set_status s d) = current_config d" "current_config (with_app published d) = current_config d"
  by (simp_all add: current_config_def set_status_def Let_def with_app_def)

lemma startup_fields [simp]:
  "run_key (set_status s d) = run_key d" "config_disk (set_status s d) = config_disk d"
  "startup_status (set_status s d) = bounded_startup_status s"
  "run_key (assign_config c d) = run_key d" "config_disk (assign_config c d) = config_disk d"
  "run_key (with_app f d) = run_key d" "config_disk (with_app f d) = config_disk d"
  "startup_status (with_app f d) = startup_status d" "executable (assign_config c d) = executable d"
  by (simp_all add: set_status_def assign_config_def with_app_def)

definition config_file :: "'p desk \<Rightarrow> bytes option" where
  "config_file d = snd (config_disk d) CONFIG_FILENAME"

lemma save_config_result:
  assumes "save_config io c d = (r, e)"
  obtains disk where "e = d\<lparr>config_disk := disk\<rparr>"
    "snd disk CONFIG_FILENAME = (if isl r then config_file d else Some (bytes_of (config_text c)))"
  using assms save_atomic_effect(1) [of "io_save io" "process_id d" c "config_disk d"]
  by (auto simp: save_config_def config_file_def split: prod.splits)

definition registered_status :: "startup_target \<Rightarrow> string" where
  "registered_status t = ''boot startup registered for current-user '' @ target_description t"

text \<open>The four outcomes of a change: done, enabled without a launcher, not registered, not saved.\<close>

definition startup_done :: "bool \<Rightarrow> 'p desk \<Rightarrow> 'p desk \<Rightarrow> bool" where
  "startup_done on d e \<longleftrightarrow>
     startup_status e \<in> (if on then range registered_status else {''boot startup registration disabled by config''})
     \<and> current_config e = (current_config d)\<lparr>cfg_startup_enabled := on\<rparr>
     \<and> config_file e = Some (bytes_of (config_text (current_config e))) \<and> (run_key e \<noteq> None \<longleftrightarrow> on)"

definition startup_unregistered :: "bool \<Rightarrow> 'p desk \<Rightarrow> 'p desk \<Rightarrow> bool" where
  "startup_unregistered on d e \<longleftrightarrow> on \<and> run_key e = run_key d
     \<and> startup_status e = ''auto-start enabled in config, current-user registration unavailable: ''
         @ ''portable launcher path unavailable NotAnAbSlotExecutable''
     \<and> current_config e = (current_config d)\<lparr>cfg_startup_enabled := True\<rparr>
     \<and> config_file e = Some (bytes_of (config_text (current_config e)))"

definition startup_failed :: "bool \<Rightarrow> 'p desk \<Rightarrow> 'p desk \<Rightarrow> bool" where
  "startup_failed on d e \<longleftrightarrow> current_config e = current_config d \<and> config_file e = config_file d
     \<and> startup_status e \<in> {''startup registration unavailable and config persistence failed'', ''startup registration error'',
          ''startup config persistence failed, registry left enabled and repair is required'',
          ''startup config persistence failed, registry change rolled back'',
          ''startup config persistence failed, repair required''}
     \<and> (startup_status e = ''startup config persistence failed, registry change rolled back'' \<longrightarrow> run_key e \<noteq> None)"

lemma description_length: "length (target_description t) \<le> 60"
  by (cases t) simp_all

lemma config_file_update [simp]:
  "config_file (d\<lparr>config_disk := k\<rparr>) = snd k CONFIG_FILENAME" "config_file (d\<lparr>run_key := v\<rparr>) = config_file d"
  "config_file (set_status s d) = config_file d" "config_file (assign_config c d) = config_file d"
  "config_file (with_app f d) = config_file d"
  by (simp_all add: config_file_def)

lemma unavailable_outcome:
  "let e = set_startup_unavailable io ''portable launcher path unavailable NotAnAbSlotExecutable'' d in
   startup_unregistered True d e \<or> startup_failed True d e"
proof (cases "save_config io ((current_config d)\<lparr>cfg_startup_enabled := True\<rparr>) d")
  case (Pair r e)
  obtain disk where "e = d\<lparr>config_disk := disk\<rparr>" "snd disk CONFIG_FILENAME = (if isl r then config_file d
      else Some (bytes_of (config_text ((current_config d)\<lparr>cfg_startup_enabled := True\<rparr>))))"
    using save_config_result [OF Pair] .
  then show ?thesis
    by (cases r) (simp_all add: set_startup_unavailable_def Pair startup_unregistered_def startup_failed_def short_status Let_def)
qed

lemma rollback_value:
  "rollback_startup io False d = (r, e) \<Longrightarrow> \<exists>v. e = d\<lparr>run_key := v\<rparr> \<and> (\<not> isl r \<longrightarrow> v \<noteq> None)"
proof (cases "startup_target_of (debug_build d) (executable d)")
  case (Inl m)
  assume "rollback_startup io False d = (r, e)"
  then have "e = d\<lparr>run_key := run_key d\<rparr>" "isl r"
    using Inl by (auto simp: rollback_startup_def startup_rollback_of_def)
  then show ?thesis
    by blast
next
  case (Inr t)
  obtain s v where reg: "register_startup_target (io_kind io) (io_rollback io) t (run_key d) = (s, v)"
    by fastforce
  assume "rollback_startup io False d = (r, e)"
  then have re: "r = s" "e = d\<lparr>run_key := v\<rparr>"
    using Inr reg by (auto simp: rollback_startup_def startup_rollback_of_def)
  have "v \<noteq> None" if "\<not> isl s"
    using register_target_Ok(1) [of "io_kind io" "io_rollback io" t "run_key d" v] reg that by (cases s) auto
  then show ?thesis
    using re by blast
qed

lemma registered_outcome:
  assumes "on \<longleftrightarrow> target \<noteq> None" and "run_key d \<noteq> None \<longleftrightarrow> on"
  shows "let e = set_startup_registered io on target d in startup_done on d e \<or> startup_failed on d e"
proof (cases "save_config io ((current_config d)\<lparr>cfg_startup_enabled := on\<rparr>) d")
  case (Pair r e)
  obtain disk where disk: "e = d\<lparr>config_disk := disk\<rparr>" "snd disk CONFIG_FILENAME = (if isl r then config_file d
      else Some (bytes_of (config_text ((current_config d)\<lparr>cfg_startup_enabled := on\<rparr>))))"
    using save_config_result [OF Pair] .
  show ?thesis
  proof (cases r)
    case (Inr u)
    have "length (''boot startup registered for current-user '' @ target_description t) \<le> 512" for t
      using description_length [of t] by simp
    moreover have "set_startup_registered io on target d = set_status
        (case target of Some t \<Rightarrow> ''boot startup registered for current-user '' @ target_description t
         | None \<Rightarrow> ''boot startup registration disabled by config'')
        (assign_config ((current_config d)\<lparr>cfg_startup_enabled := on\<rparr>) e)"
      using Inr by (simp add: set_startup_registered_def Pair)
    ultimately show ?thesis
      using Inr disk assms
      by (cases target) (auto simp: startup_done_def registered_status_def short_status Let_def)
  next
    case (Inl u)
    obtain s z where roll: "rollback_startup io on e = (s, z)"
      by fastforce
    then have "\<exists>v. z = e\<lparr>run_key := v\<rparr> \<and> (\<not> isl s \<longrightarrow> v \<noteq> None)"
      using rollback_value [of io e s z] assms(2) disk(1)
      by (cases on) (auto simp: rollback_startup_def startup_rollback_of_def intro!: exI [of _ "run_key d"])
    moreover have "set_startup_registered io on target d = set_status
        (if on then ''startup config persistence failed, registry left enabled and repair is required''
         else if \<not> isl s then ''startup config persistence failed, registry change rolled back''
         else ''startup config persistence failed, repair required'') z"
      using Inl roll by (simp add: set_startup_registered_def Pair)
    ultimately show ?thesis
      using Inl disk by (auto simp: startup_failed_def short_status Let_def)
  qed
qed

lemma outcome_same:
  "startup_done on (d\<lparr>run_key := v\<rparr>) e = startup_done on d e" "startup_failed on (d\<lparr>run_key := v\<rparr>) e = startup_failed on d e"
  "startup_done on d (with_app published e) = startup_done on d e"
  "startup_failed on d (with_app published e) = startup_failed on d e"
  "startup_unregistered on d (with_app published e) = startup_unregistered on d e"
  by (simp_all add: startup_done_def startup_unregistered_def startup_failed_def)

lemma set_startup_publishes:
  assumes "10 \<le> n" and "desk_ok d"
  shows "set_startup P n io on d = Some (with_app published (startup_change io on d))"
proof -
  have "inert d (startup_change io on d)"
    by (auto simp: startup_change_def Let_def intro!: inert_startup inert_trans [OF inert_parts(2) inert_startup(2)]
        inert_trans [OF inert_parts(2) inert_parts(3)] split: sum.split prod.split)
  then have "\<not> storm (desk_app (startup_change io on d))"
    using assms(2) by (auto simp: inert_def desk_ok_def calm_def)
  then show ?thesis
    unfolding set_startup_def by (rule publish_result [OF assms(1)])
qed

text \<open>C28: Start at boot is reported. Whatever the file system and the registry answer, as long as a deletion is answered
  with not found only when there was no value, and with fewer than three anomalies, changing the setting returns and ends in one
  of three ways. It is done: the configuration in memory, the configuration file and the Run value all say what was asked for.
  Or it was to be enabled where no launcher path can be derived from the executable: the configuration and its file then say
  enabled while the Run value is left as it was, and the status says that the registration is unavailable. Or the status names
  a failure and configuration and file are as before, with the Run value present when the status says it was rolled back.\<close>

theorem startup_change_reported:
  assumes "10 \<le> n" and "desk_ok d" and "honest_removal (io_registry io) (run_key d)"
  shows "\<exists>e. set_startup P n io on d = Some e
    \<and> (startup_done on d e
       \<or> startup_unregistered on d e \<and> isl (startup_target_of (debug_build d) (executable d))
       \<or> startup_failed on d e)"
proof -
  let ?x = "startup_change io on d"
  let ?none = "isl (startup_target_of (debug_build d) (executable d))"
  have outcome: "startup_done on d ?x \<or> startup_unregistered on d ?x \<and> ?none \<or> startup_failed on d ?x"
  proof (cases "on \<and> isl (startup_target_of (debug_build d) (executable d))")
    case True
    then have "startup_target_of (debug_build d) (executable d) = Err ''portable launcher path unavailable NotAnAbSlotExecutable''"
      by (auto simp: startup_target_of_def split: sum.splits if_splits)
    then show ?thesis
      using True unavailable_outcome [of io d] by (auto simp: startup_change_def Let_def)
  next
    case False
    define target where "target = (if on then Some (projr (startup_target_of (debug_build d) (executable d))) else None)"
    have eq: "(if on then map_sum id Some (startup_target_of (debug_build d) (executable d)) else Ok None) = Ok target"
      using False by (cases "startup_target_of (debug_build d) (executable d)") (auto simp: target_def)
    obtain r v where reg: "(case target of
         Some t \<Rightarrow> register_startup_target (io_kind io) (io_registry io) t (run_key d)
       | None \<Rightarrow> remove_startup (io_registry io) (run_key d)) = (r, v)"
      by fastforce
    have x: "?x = (if isl r then set_status ''startup registration error'' (d\<lparr>run_key := v\<rparr>)
        else set_startup_registered io on target (d\<lparr>run_key := v\<rparr>))"
      by (simp add: startup_change_def eq reg Let_def)
    show ?thesis
    proof (cases r)
      case (Inl e)
      then show ?thesis
        by (simp add: x startup_failed_def short_status)
    next
      case (Inr u)
      have "run_key (d\<lparr>run_key := v\<rparr>) \<noteq> None \<longleftrightarrow> on"
        using reg Inr register_target_Ok(1) [of "io_kind io" "io_registry io" _ "run_key d" v]
          remove_Ok [of "io_registry io" "run_key d" v] assms(3)
        by (cases on) (auto simp: target_def)
      then have "let e = set_startup_registered io on target (d\<lparr>run_key := v\<rparr>) in
          startup_done on (d\<lparr>run_key := v\<rparr>) e \<or> startup_failed on (d\<lparr>run_key := v\<rparr>) e"
        by (intro registered_outcome) (auto simp: target_def)
      then show ?thesis
        using Inr by (auto simp: x Let_def outcome_same)
    qed
  qed
  have "set_startup P n io on d = Some (with_app published ?x)"
    by (rule set_startup_publishes [OF assms(1,2)])
  moreover have "startup_done on d (with_app published ?x) \<or> startup_unregistered on d (with_app published ?x) \<and> ?none
      \<or> startup_failed on d (with_app published ?x)"
    using outcome unfolding outcome_same .
  ultimately show ?thesis
    by blast
qed

lemma sample_target: "startup_target_of False (executable owned_desk) =
    Ok (PortableLauncher \<lparr>path_prefix = ''C:'', path_parts = [''app'', ''Launcher.exe'']\<rparr>)"
proof -
  have "startup_target_of False \<lparr>path_prefix = ''C:'', path_parts = [''app'', ''Slots'', ''A'', ''true-tick.exe'']\<rparr> =
      Ok (PortableLauncher \<lparr>path_prefix = ''C:'', path_parts = [''app'', ''Launcher.exe'']\<rparr>)"
    by code_simp
  then show ?thesis
    by (simp add: owned_desk_def sample_desk_def)
qed

lemma sample_register:
  "\<exists>v. register_startup_target (io_kind answering_io) (io_registry answering_io)
      (PortableLauncher \<lparr>path_prefix = ''C:'', path_parts = [''app'', ''Launcher.exe'']\<rparr>) None = (Ok (), Some v)"
proof -
  have "validate_launcher_path (\<lambda>_. RegularFile) \<lparr>path_prefix = ''C:'', path_parts = [''app'', ''Launcher.exe'']\<rparr> = Ok ()"
    "\<not> isl (startup_command \<lparr>path_prefix = ''C:'', path_parts = [''app'', ''Launcher.exe'']\<rparr>)"
    by code_simp+
  then show ?thesis
    by (cases "startup_command \<lparr>path_prefix = ''C:'', path_parts = [''app'', ''Launcher.exe'']\<rparr>")
      (simp_all add: register_def register_validated_def answering_io_def open_run_key_def close_run_key_def ERROR_SUCCESS_def)
qed

lemma sample_registered:
  "startup_status (startup_change answering_io True owned_desk)
     = registered_status (PortableLauncher \<lparr>path_prefix = ''C:'', path_parts = [''app'', ''Launcher.exe'']\<rparr>)"
proof -
  let ?t = "PortableLauncher \<lparr>path_prefix = ''C:'', path_parts = [''app'', ''Launcher.exe'']\<rparr>"
  obtain v where v: "register_startup_target (io_kind answering_io) (io_registry answering_io) ?t None = (Ok (), Some v)"
    using sample_register by blast
  have fields: "debug_build owned_desk = False" "run_key owned_desk = None"
    by (simp_all add: owned_desk_def sample_desk_def)
  have "\<exists>e. save_config answering_io c d = (Ok (), e)" for c and d :: "u32 windows_timer_platform desk"
    by (cases "config_disk d")
      (simp add: save_config_def save_atomic_def write_config_bytes_def answering_io_def no_faults_def Let_def)
  then obtain d1 where d1: "save_config answering_io ((current_config (owned_desk\<lparr>run_key := Some v\<rparr>))\<lparr>cfg_startup_enabled := True\<rparr>)
      (owned_desk\<lparr>run_key := Some v\<rparr>) = (Ok (), d1)"
    by blast
  have change: "startup_change answering_io True owned_desk
      = set_startup_registered answering_io True (Some ?t) (owned_desk\<lparr>run_key := Some v\<rparr>)"
    using v fields by (simp add: startup_change_def sample_target)
  have "length (registered_status ?t) \<le> 512"
    using description_length [of ?t] by (simp add: registered_status_def)
  moreover have "startup_status (set_startup_registered answering_io True (Some ?t) (owned_desk\<lparr>run_key := Some v\<rparr>))
      = bounded_startup_status (registered_status ?t)"
    using d1 by (simp add: set_startup_registered_def registered_status_def Let_def)
  ultimately show ?thesis
    unfolding change by (simp only: short_status)
qed

theorem startup_change_reported_witness:
  "\<exists>e. set_startup (windows_platform sim_kernel) 10 answering_io True owned_desk = Some e \<and> startup_done True owned_desk e"
proof -
  have "honest_removal (io_registry answering_io) (run_key owned_desk)"
    by (simp add: honest_removal_def answering_io_def ERROR_FILE_NOT_FOUND_def)
  from startup_change_reported [OF order_refl owned_desk_ok(1) this, of "windows_platform sim_kernel" True] show ?thesis
    using sample_registered set_startup_publishes [OF order_refl owned_desk_ok(1), of "windows_platform sim_kernel" answering_io True]
    by (auto simp: startup_unregistered_def startup_failed_def registered_status_def)
qed

end
