(* ===== verification/ManifestTool.thy ===== *)
theory ManifestTool
  imports Manifest "HOL-Library.AList"
begin

text \<open>
  Model of \<open>apps/manifest-tool/src/main.rs\<close>: the producer of signed packages with its commands
  \<open>gen-key\<close>, \<open>sign\<close> and \<open>verify\<close>.

  The file system is a tree of files and directories below one root. A path is the list of its
  components; parent components and links are not resolved, and a message prints a path with
  backslashes. Every file system call asks the environment for its outcome, as in the launcher, so a
  theorem covers every pattern of failures. Ed25519, SHA-256 and the key generator are parameters.
\<close>

section \<open>Errors\<close>

type_synonym tool_path = "string list"

definition MAX_ENTRY_BYTES :: nat where
  "MAX_ENTRY_BYTES = 512 * 1024 * 1024"

definition ENTRY_LINE_OVERHEAD :: nat where
  "ENTRY_LINE_OVERHEAD = length ''entry '' + 1 + 64"

datatype tool_error =
    ToolUsage string
  | ToolIo string tool_path string
  | ToolCrypto string crypto_error
  | ToolExists tool_path
  | TooManyEntries nat
  | LineTooLong string
  | EntryTooLarge string nat
  | InvalidPath tool_path
  | InvalidAnchorLength nat
  | VerifyFailed "string list"

definition path_display :: "tool_path \<Rightarrow> string" where
  "path_display p = join_with [CHR 0x5C] p"

definition tool_error_display :: "tool_error \<Rightarrow> string" where
  "tool_error_display e =
     (case e of
        ToolUsage m \<Rightarrow> ''error: '' @ m
      | ToolIo context p m \<Rightarrow> ''error: '' @ context @ '' '' @ path_display p @ '': '' @ m
      | ToolCrypto context c \<Rightarrow> ''error: '' @ context @ '': '' @ crypto_error_display c
      | ToolExists p \<Rightarrow> ''error: refusing to overwrite existing file '' @ path_display p @ '' without --force''
      | TooManyEntries n \<Rightarrow>
          ''error: package contains '' @ dec n @ '' files which exceeds MAX_MANIFEST_ENTRIES of ''
            @ dec MAX_MANIFEST_ENTRIES
      | LineTooLong p \<Rightarrow>
          ''error: manifest entry line for '' @ p @ '' exceeds MAX_MANIFEST_LINE_BYTES of ''
            @ dec MAX_MANIFEST_LINE_BYTES
      | EntryTooLarge p n \<Rightarrow>
          ''error: file '' @ p @ '' is '' @ dec n @ '' bytes which exceeds MAX_ENTRY_BYTES of '' @ dec MAX_ENTRY_BYTES
      | InvalidPath p \<Rightarrow> ''error: path '' @ path_display p @ '' cannot be represented in the manifest''
      | InvalidAnchorLength n \<Rightarrow>
          ''error: trust anchor file must be exactly '' @ dec PUBLIC_KEY_LEN @ '' raw bytes, found '' @ dec n
      | VerifyFailed fs \<Rightarrow> ''verification failed:'' @ newline @ join_with newline fs)"

section \<open>Arguments\<close>

fun value_after :: "string \<Rightarrow> string list \<Rightarrow> string option option" where
  "value_after flag [] = None"
| "value_after flag (a # as) =
     (if a = flag
      then Some (case as of [] \<Rightarrow> None | v # _ \<Rightarrow> if starts_with ''--'' v then None else Some v)
      else value_after flag as)"

definition take_value :: "string list \<Rightarrow> string \<Rightarrow> (tool_error, string) result" where
  "take_value args flag =
     (case value_after flag args of
        None \<Rightarrow> Err (ToolUsage (''missing required argument '' @ flag))
      | Some None \<Rightarrow> Err (ToolUsage (''missing value for '' @ flag))
      | Some (Some v) \<Rightarrow> Ok v)"

definition take_optional_value :: "string list \<Rightarrow> string \<Rightarrow> (tool_error, string option) result" where
  "take_optional_value args flag =
     (case value_after flag args of
        None \<Rightarrow> Ok None
      | Some None \<Rightarrow> Err (ToolUsage (''missing value for '' @ flag))
      | Some (Some v) \<Rightarrow> Ok (Some v))"

definition has_flag :: "string list \<Rightarrow> string \<Rightarrow> bool" where
  "has_flag args flag = (flag \<in> set args)"

section \<open>The file system\<close>

datatype package_node = PackFile bytes | PackDir "(string \<times> package_node) list" | PackOther

fun node_at :: "tool_path \<Rightarrow> package_node \<Rightarrow> package_node option" where
  "node_at [] t = Some t"
| "node_at (n # ns) (PackDir cs) = (case map_of cs n of None \<Rightarrow> None | Some c \<Rightarrow> node_at ns c)"
| "node_at (n # ns) _ = None"

text \<open>Put a node at a path, or take it away; the directory above must exist.\<close>

fun node_set :: "tool_path \<Rightarrow> package_node option \<Rightarrow> package_node \<Rightarrow> package_node" where
  "node_set [n] v (PackDir cs) =
     PackDir (case v of None \<Rightarrow> AList.delete n cs | Some c \<Rightarrow> AList.update n c cs)"
| "node_set (n # ns) v (PackDir cs) =
     (case map_of cs n of None \<Rightarrow> PackDir cs | Some c \<Rightarrow> PackDir (AList.update n (node_set ns v c) cs))"
| "node_set ns v t = t"

fun make_dirs :: "tool_path \<Rightarrow> package_node \<Rightarrow> package_node option" where
  "make_dirs [] t = (case t of PackDir cs \<Rightarrow> Some t | _ \<Rightarrow> None)"
| "make_dirs (n # ns) (PackDir cs) =
     map_option (\<lambda>c. PackDir (AList.update n c cs))
       (make_dirs ns (case map_of cs n of None \<Rightarrow> PackDir [] | Some c \<Rightarrow> c))"
| "make_dirs (n # ns) _ = None"

definition is_dir :: "package_node option \<Rightarrow> bool" where
  "is_dir n = (case n of Some (PackDir _) \<Rightarrow> True | _ \<Rightarrow> False)"

record tool_world =
  tw_root :: package_node
  tw_fault :: "nat \<Rightarrow> string option"
  tw_calls :: nat
  tw_pid :: u32
  tw_warnings :: "string list"

record tool_crypto =
  tk_sign :: signer
  tk_verify :: verifier
  tk_sha256 :: "bytes \<Rightarrow> bytes"
  tk_keypair :: "bytes \<times> bytes"

type_synonym 'a tool = "tool_world \<Rightarrow> (tool_error, 'a) result \<times> tool_world"

definition tool_call :: "(string \<Rightarrow> tool_error) \<Rightarrow> unit tool" where
  "tool_call err w =
     ((case tw_fault w (tw_calls w) of None \<Rightarrow> Ok () | Some m \<Rightarrow> Err (err m)), w\<lparr>tw_calls := tw_calls w + 1\<rparr>)"

definition tool_at :: "tool_path \<Rightarrow> tool_world \<Rightarrow> package_node option" where
  "tool_at p w = node_at p (tw_root w)"

definition tool_set :: "tool_path \<Rightarrow> package_node option \<Rightarrow> tool_world \<Rightarrow> tool_world" where
  "tool_set p v w = w\<lparr>tw_root := node_set p v (tw_root w)\<rparr>"

definition tool_read :: "string \<Rightarrow> tool_path \<Rightarrow> bytes tool" where
  "tool_read context p w =
     and_then (tool_call (ToolIo context p) w) (\<lambda>_ w.
       case tool_at p w of
         Some (PackFile bs) \<Rightarrow> (Ok bs, w)
       | Some _ \<Rightarrow> (Err (ToolIo context p ''not a file''), w)
       | None \<Rightarrow> (Err (ToolIo context p ''not found''), w))"

text \<open>A write opens the file, which creates or truncates it, and then writes.\<close>

definition tool_write :: "string \<Rightarrow> tool_path \<Rightarrow> bytes \<Rightarrow> unit tool" where
  "tool_write context p bs w =
     and_then (tool_call (ToolIo context p) w) (\<lambda>_ w.
       if p = [] \<or> \<not> is_dir (tool_at (butlast p) w) then (Err (ToolIo context p ''not found''), w)
       else
         (case tool_at p w of
            Some (PackDir _) \<Rightarrow> (Err (ToolIo context p ''is a directory''), w)
          | _ \<Rightarrow>
              and_then (tool_call (ToolIo context p) (tool_set p (Some (PackFile [])) w)) (\<lambda>_ w.
                (Ok (), tool_set p (Some (PackFile bs)) w))))"

text \<open>\<open>PathBuf::from\<close> and \<open>Path::join\<close>: the components between separators; a path that starts
  with a separator replaces the one it is joined to.\<close>

definition path_names :: "string \<Rightarrow> tool_path" where
  "path_names t =
     filter (\<lambda>n. n \<noteq> [] \<and> n \<noteq> ''.'') (concat (map (split_on (CHR 0x5C)) (split_on (CHR ''/'') t)))"

definition join_text :: "tool_path \<Rightarrow> string \<Rightarrow> tool_path" where
  "join_text p t = (if t \<noteq> [] \<and> hd t \<in> {CHR ''/'', CHR 0x5C} then path_names t else p @ path_names t)"

definition file_part :: "tool_path \<Rightarrow> string option" where
  "file_part p = (if p = [] \<or> last p = ''..'' then None else Some (last p))"

section \<open>Keys\<close>

definition decode_hex_lower :: "nat \<Rightarrow> string \<Rightarrow> (crypto_error, bytes) result" where
  "decode_hex_lower n text =
     (let trimmed = trim text in
      if length trimmed \<noteq> n * 2 then Err MalformedManifest
      else case decode_pairs trimmed of None \<Rightarrow> Err MalformedManifest | Some bs \<Rightarrow> Ok bs)"

definition load_key_bytes :: "nat \<Rightarrow> tool_path \<Rightarrow> bytes tool" where
  "load_key_bytes n p w =
     and_then (tool_read ''cannot read key file'' p w) (\<lambda>bs w.
       if length bs = n then (Ok bs, w)
       else if \<not> valid_utf8 bs then (Err (ToolCrypto ''key file is not valid hex text'' WrongKeyLength), w)
       else case decode_hex_lower n (text_of bs) of
         Inl c \<Rightarrow> (Err (ToolCrypto ''key file is not valid hex text'' c), w)
       | Inr key \<Rightarrow> (Ok key, w))"

definition load_secret_key :: "tool_path \<Rightarrow> bytes tool" where
  "load_secret_key p w = load_key_bytes SECRET_KEY_LEN p w"

definition load_anchor :: "tool_path \<Rightarrow> bytes tool" where
  "load_anchor p w =
     and_then (tool_read ''cannot read trust anchor file'' p w) (\<lambda>bs w.
       if length bs \<noteq> PUBLIC_KEY_LEN then (Err (InvalidAnchorLength (length bs)), w)
       else case anchor_from_bytes bs of
         Inl c \<Rightarrow> (Err (ToolCrypto ''trust anchor is invalid'' c), w)
       | Inr key \<Rightarrow> (Ok key, w))"

definition write_raw_key_file :: "tool_path \<Rightarrow> bytes \<Rightarrow> unit tool" where
  "write_raw_key_file p key w = tool_write ''cannot write key file'' p key w"

text \<open>The permissions are restricted by a command whose failure is only a warning.\<close>

definition restrict_secret_permissions :: "tool_path \<Rightarrow> tool_world \<Rightarrow> tool_world" where
  "restrict_secret_permissions p w =
     (case tool_call ToolUsage w of
        (Inr _, w) \<Rightarrow> w
      | (Inl _, w) \<Rightarrow>
          w\<lparr>tw_warnings := tw_warnings w @ [''warning: could not restrict permissions on '' @ path_display p]\<rparr>)"

definition write_key_file :: "tool_path \<Rightarrow> bytes \<Rightarrow> unit tool" where
  "write_key_file p key w =
     and_then (tool_write ''cannot write key file'' p (bytes_of (hex_text key @ newline)) w) (\<lambda>_ w.
       (Ok (), restrict_secret_permissions p w))"

definition create_dir_all :: "tool_path \<Rightarrow> unit tool" where
  "create_dir_all p w =
     (let err = ToolIo ''cannot create output directory'' p in
      and_then (tool_call err w) (\<lambda>_ w.
        case make_dirs p (tw_root w) of
          None \<Rightarrow> (Err (err ''not a directory''), w)
        | Some t \<Rightarrow> (Ok (), w\<lparr>tw_root := t\<rparr>)))"

text \<open>\<open>Path::exists\<close> answers no when the file cannot be asked for.\<close>

fun refuse_existing :: "tool_path list \<Rightarrow> unit tool" where
  "refuse_existing [] w = (Ok (), w)"
| "refuse_existing (p # ps) w =
     (case tool_call ToolUsage w of
        (Inl _, w) \<Rightarrow> refuse_existing ps w
      | (Inr _, w) \<Rightarrow> if tool_at p w \<noteq> None then (Err (ToolExists p), w) else refuse_existing ps w)"

definition anchor_file :: string where
  "anchor_file = ''trust-anchor.pub''"

definition secret_file :: string where
  "secret_file = ''signing-key.sec''"

definition of_result :: "('e, 'a) result \<Rightarrow> 's \<Rightarrow> ('e, 'a) result \<times> 's" where
  "of_result r w = (r, w)"

definition cmd_gen_key :: "tool_crypto \<Rightarrow> string list \<Rightarrow> string tool" where
  "cmd_gen_key K args w =
     and_then (of_result (take_value args ''--out-dir'') w) (\<lambda>dir w.
       let out_dir = path_names dir;
           anchor_path = out_dir @ [anchor_file];
           secret_path = out_dir @ [secret_file]
       in and_then (create_dir_all out_dir w) (\<lambda>_ w.
       and_then (if has_flag args ''--force'' then (Ok (), w) else refuse_existing [anchor_path, secret_path] w) (\<lambda>_ w.
       and_then (write_raw_key_file anchor_path (snd (tk_keypair K)) w) (\<lambda>_ w.
       and_then (write_key_file secret_path (fst (tk_keypair K)) w) (\<lambda>_ w.
         (Ok (''generated Ed25519 keypair'' @ newline @ ''  trust anchor: '' @ path_display anchor_path @ newline
              @ ''  signing key: '' @ path_display secret_path), w))))))"

section \<open>Entries\<close>

text \<open>A directory is listed, each entry of the listing may fail, and the children are visited in the
  order of their names. A child is asked for its type; its own collector does the rest.\<close>

fun read_entries :: "tool_path \<Rightarrow> 'a list \<Rightarrow> unit tool" where
  "read_entries dir [] w = (Ok (), w)"
| "read_entries dir (_ # es) w =
     and_then (tool_call (ToolIo ''cannot read directory entry'' dir) w) (\<lambda>_ w. read_entries dir es w)"

fun collect_children ::
    "tool_path \<Rightarrow> tool_path \<Rightarrow> (string \<times> (tool_path \<Rightarrow> tool_path \<Rightarrow> tool_path list tool)) list \<Rightarrow> tool_path list tool"
  where
  "collect_children dir rel [] w = (Ok [], w)"
| "collect_children dir rel ((n, collect) # cs) w =
     and_then (tool_call (ToolIo ''cannot stat path'' (dir @ [n])) w) (\<lambda>_ w.
     and_then (collect (dir @ [n]) (rel @ [n]) w) (\<lambda>fs w.
     and_then (collect_children dir rel cs w) (\<lambda>gs w. (Ok (fs @ gs), w))))"

primrec collect_node :: "package_node \<Rightarrow> tool_path \<Rightarrow> tool_path \<Rightarrow> tool_path list tool" where
  "collect_node (PackFile bs) = (\<lambda>dir rel w. (Ok [rel], w))"
| "collect_node (PackDir cs) = (\<lambda>dir rel w.
     and_then (tool_call (ToolIo ''cannot read directory'' dir) w) (\<lambda>_ w.
     and_then (read_entries dir cs w) (\<lambda>_ w.
       collect_children dir rel (sort_key fst (map (map_prod id collect_node) cs)) w)))"
| "collect_node PackOther = (\<lambda>dir rel w. (Ok [], w))"

definition collect_files :: "tool_path \<Rightarrow> tool_path list tool" where
  "collect_files dir w =
     (case tool_at dir w of
        Some (PackDir cs) \<Rightarrow> collect_node (PackDir cs) dir [] w
      | _ \<Rightarrow>
          and_then (tool_call (ToolIo ''cannot read directory'' dir) w) (\<lambda>_ w.
            (Err (ToolIo ''cannot read directory'' dir ''not a directory''), w)))"

definition same_path :: "tool_path \<Rightarrow> tool_path \<Rightarrow> bool" where
  "same_path left right = (left = right)"

definition is_excluded :: "tool_path \<Rightarrow> tool_path \<Rightarrow> tool_path \<Rightarrow> bool" where
  "is_excluded package_dir relative out_path =
     ((case file_part relative of
         Some name \<Rightarrow>
           valid_utf8 (bytes_of name)
           \<and> (name = ''manifest.sig'' \<or> name = ''SHA256SUMS.txt'' \<or> strip_suffix ''.toml'' name \<noteq> None)
       | None \<Rightarrow> False)
      \<or> same_path (package_dir @ relative) out_path)"

text \<open>\<open>char::is_control\<close>: the two ranges of control characters, the second in two bytes.\<close>

definition control_encodings :: "string list" where
  "control_encodings = map (\<lambda>k. [char_of k]) ([0..<32] @ [127]) @ map (\<lambda>k. [CHR 0xC2, char_of k]) [128..<160]"

definition validate_manifest_path :: "string \<Rightarrow> (tool_error, unit) result" where
  "validate_manifest_path p =
     (if p = [] \<or> contains_any whitespace_encodings p \<or> contains_any control_encodings p
      then Err (InvalidPath (path_names p)) else Ok ())"

definition HASH_BUFFER :: nat where
  "HASH_BUFFER = 65536"

function hash_chunks :: "tool_path \<Rightarrow> bytes \<Rightarrow> bytes \<Rightarrow> bytes tool" where
  "hash_chunks p seen rest w =
     and_then (tool_call (ToolIo ''cannot read file'' p) w) (\<lambda>_ w.
       if take HASH_BUFFER rest = [] then (Ok seen, w)
       else hash_chunks p (seen @ take HASH_BUFFER rest) (drop HASH_BUFFER rest) w)"
  by pat_completeness auto
termination
  by (relation "measure (\<lambda>(_, _, rest, _). length rest)") (auto simp: HASH_BUFFER_def)

declare hash_chunks.simps [simp del]

definition stat_bounded :: "tool_path \<Rightarrow> string \<Rightarrow> unit tool" where
  "stat_bounded p relative w =
     and_then (tool_call (ToolIo ''cannot stat file'' p) w) (\<lambda>_ w.
       case tool_at p w of
         None \<Rightarrow> (Err (ToolIo ''cannot stat file'' p ''not found''), w)
       | Some (PackFile bs) \<Rightarrow>
           if MAX_ENTRY_BYTES < length bs then (Err (EntryTooLarge relative (length bs)), w) else (Ok (), w)
       | Some _ \<Rightarrow> (Ok (), w))"

definition hash_file :: "tool_crypto \<Rightarrow> tool_path \<Rightarrow> string \<Rightarrow> bytes tool" where
  "hash_file K p relative w =
     and_then (stat_bounded p relative w) (\<lambda>_ w.
     and_then (tool_read ''cannot open file'' p w) (\<lambda>bs w.
     and_then (hash_chunks p [] bs w) (\<lambda>seen w. (Ok (tk_sha256 K seen), w))))"

definition read_bounded :: "tool_path \<Rightarrow> string \<Rightarrow> bytes tool" where
  "read_bounded p relative w =
     and_then (stat_bounded p relative w) (\<lambda>_ w. tool_read ''cannot read file'' p w)"

fun build_each :: "tool_crypto \<Rightarrow> tool_path \<Rightarrow> tool_path list \<Rightarrow> manifest_entry list tool" where
  "build_each K dir [] w = (Ok [], w)"
| "build_each K dir (rel # rels) w =
     (let path_text = join_with ''/'' rel in
      and_then (of_result (if valid_utf8 (bytes_of path_text) then Ok () else Err (InvalidPath rel)) w) (\<lambda>_ w.
      and_then (of_result (validate_manifest_path path_text) w) (\<lambda>_ w.
      if MAX_MANIFEST_LINE_BYTES < ENTRY_LINE_OVERHEAD + length path_text then (Err (LineTooLong path_text), w)
      else
        and_then (hash_file K (dir @ rel) path_text w) (\<lambda>d w.
        and_then (build_each K dir rels w) (\<lambda>es w.
          (Ok (\<lparr>entry_path = path_text, entry_sha256 = d\<rparr> # es), w))))))"

definition build_entries :: "tool_crypto \<Rightarrow> tool_path \<Rightarrow> tool_path \<Rightarrow> manifest_entry list tool" where
  "build_entries K package_dir out_path w =
     and_then (collect_files package_dir w) (\<lambda>fs w.
       let files = filter (\<lambda>rel. \<not> is_excluded package_dir rel out_path) fs in
       if MAX_MANIFEST_ENTRIES < length files then (Err (TooManyEntries (length files)), w)
       else build_each K package_dir files w)"

definition render_sha256sums :: "manifest_entry list \<Rightarrow> string" where
  "render_sha256sums es = concat (map (\<lambda>e. hex_text (entry_sha256 e) @ ''  '' @ entry_path e @ newline) es)"

section \<open>Commands\<close>

definition rename :: "tool_path \<Rightarrow> tool_path \<Rightarrow> (string \<Rightarrow> tool_error) \<Rightarrow> unit tool" where
  "rename from to err w =
     and_then (tool_call err w) (\<lambda>_ w.
       case (tool_at from w, tool_at to w) of
         (None, _) \<Rightarrow> (Err (err ''not found''), w)
       | (Some n, Some (PackDir _)) \<Rightarrow> (Err (err ''is a directory''), w)
       | (Some n, _) \<Rightarrow> (Ok (), tool_set from None (tool_set to (Some n) w)))"

definition remove_file :: "tool_path \<Rightarrow> (string \<Rightarrow> tool_error) \<Rightarrow> unit tool" where
  "remove_file p err w =
     and_then (tool_call err w) (\<lambda>_ w.
       case tool_at p w of
         None \<Rightarrow> (Err (err ''not found''), w)
       | Some (PackDir _) \<Rightarrow> (Err (err ''is a directory''), w)
       | Some _ \<Rightarrow> (Ok (), tool_set p None w))"

definition tmp_path :: "tool_path \<Rightarrow> tool_world \<Rightarrow> tool_path" where
  "tmp_path p w = butlast p @ [last p @ ''.tmp-'' @ dec (unat (tw_pid w))]"

definition atomic_write :: "tool_path \<Rightarrow> bytes \<Rightarrow> unit tool" where
  "atomic_write p bs w =
     (case file_part p of
        None \<Rightarrow> (Err (InvalidPath p), w)
      | Some _ \<Rightarrow>
          let tmp = tmp_path p w; err = ToolIo ''cannot replace output file'' p in
          and_then (tool_write ''cannot write temporary file'' tmp bs w) (\<lambda>_ w.
            case rename tmp p err w of
              (Inr _, w) \<Rightarrow> (Ok (), w)
            | (Inl _, w) \<Rightarrow> and_then (remove_file p err w) (\<lambda>_ w. rename tmp p err w)))"

definition crypto_result :: "string \<Rightarrow> (crypto_error, 'a) result \<Rightarrow> 'a tool" where
  "crypto_result context r w = (map_sum (ToolCrypto context) id r, w)"

definition parse_counter :: "string \<Rightarrow> (tool_error, u64) result" where
  "parse_counter t =
     (case parse_unsigned (2 ^ 64 - 1) t of
        None \<Rightarrow> Err (ToolUsage (''invalid counter value '' @ t))
      | Some n \<Rightarrow> Ok (of_nat n))"

text \<open>The part of \<open>sign\<close> after its arguments have been read.\<close>

definition sign_package :: "tool_crypto \<Rightarrow> tool_path \<Rightarrow> tool_path \<Rightarrow> u64 \<Rightarrow> tool_path \<Rightarrow> string tool" where
  "sign_package K package_dir key_path counter out_path w =
     and_then (load_secret_key key_path w) (\<lambda>secret w.
     and_then (build_entries K package_dir out_path w) (\<lambda>entries w.
     and_then (crypto_result ''cannot sign manifest'' (sign_manifest (tk_sign K) secret counter entries) w) (\<lambda>text w.
     and_then (atomic_write out_path (bytes_of text) w) (\<lambda>_ w.
     and_then (atomic_write (package_dir @ [''SHA256SUMS.txt'']) (bytes_of (render_sha256sums entries)) w) (\<lambda>_ w.
       (Ok (''signed '' @ dec (length entries) @ '' entries in '' @ path_display package_dir @ '' at release counter ''
            @ dec (unat counter) @ newline @ ''  manifest: '' @ path_display out_path), w))))))"

definition cmd_sign :: "tool_crypto \<Rightarrow> string list \<Rightarrow> string tool" where
  "cmd_sign K args w =
     and_then (of_result (take_value args ''--package-dir'') w) (\<lambda>dir w.
     and_then (of_result (take_value args ''--key'') w) (\<lambda>key w.
     and_then (of_result (take_value args ''--counter'') w) (\<lambda>counter_text w.
     and_then (of_result (parse_counter counter_text) w) (\<lambda>counter w.
     and_then (of_result (take_optional_value args ''--out'') w) (\<lambda>out w.
       sign_package K (path_names dir) (path_names key) counter
         (case out of Some t \<Rightarrow> path_names t | None \<Rightarrow> path_names dir @ [''manifest.sig'']) w)))))"

fun verify_entries :: "tool_crypto \<Rightarrow> tool_path \<Rightarrow> signed_manifest \<Rightarrow> manifest_entry list
    \<Rightarrow> tool_world \<Rightarrow> string list \<times> tool_world" where
  "verify_entries K dir m [] w = ([], w)"
| "verify_entries K dir m (e # es) w =
     (case read_bounded (join_text dir (entry_path e)) (entry_path e) w of
        (Inr bs, w) \<Rightarrow>
          (case verify_entries K dir m es w of (fs, w) \<Rightarrow>
            ((case verify_entry_digest (tk_sha256 K) m (entry_path e) bs of
                Inl c \<Rightarrow> [entry_path e @ '': '' @ crypto_error_display c]
              | Inr _ \<Rightarrow> []) @ fs, w))
      | (Inl err, w) \<Rightarrow>
          (case verify_entries K dir m es w of (fs, w) \<Rightarrow>
            ((entry_path e @ '': '' @ tool_error_display err) # fs, w)))"

definition verify_package :: "tool_crypto \<Rightarrow> tool_path \<Rightarrow> tool_path \<Rightarrow> string tool" where
  "verify_package K package_dir anchor_path w =
     (let manifest_path = package_dir @ [''manifest.sig'']; unread = ToolIo ''cannot read manifest'' manifest_path in
      and_then (load_anchor anchor_path w) (\<lambda>anchor w.
      and_then (tool_read ''cannot read manifest'' manifest_path w) (\<lambda>bs w.
      and_then (of_result (if valid_utf8 bs then Ok () else Err (unread ''stream did not contain valid UTF-8'')) w) (\<lambda>_ w.
      and_then (crypto_result ''manifest is malformed'' (parse_signed_manifest (text_of bs)) w) (\<lambda>m w.
        let signature = (case verify_manifest (tk_verify K) m anchor of
              Inl c \<Rightarrow> [path_display manifest_path @ '': signature verification failed: '' @ crypto_error_display c]
            | Inr _ \<Rightarrow> [])
        in case verify_entries K package_dir m (manifest_entries m) w of (fs, w) \<Rightarrow>
             (if signature @ fs = []
              then Ok (''verified '' @ dec (length (manifest_entries m)) @ '' entries in '' @ path_display package_dir)
              else Err (VerifyFailed (signature @ fs)), w))))))"

definition cmd_verify :: "tool_crypto \<Rightarrow> string list \<Rightarrow> string tool" where
  "cmd_verify K args w =
     and_then (of_result (take_value args ''--package-dir'') w) (\<lambda>dir w.
     and_then (of_result (take_value args ''--anchor'') w) (\<lambda>anchor w.
       verify_package K (path_names dir) (path_names anchor) w))"

definition tool_run :: "tool_crypto \<Rightarrow> string list \<Rightarrow> string tool" where
  "tool_run K args w =
     (case args of
        [] \<Rightarrow> (Err (ToolUsage ''missing subcommand, expected gen-key, sign, or verify''), w)
      | command # rest \<Rightarrow>
          if command = ''gen-key'' then cmd_gen_key K rest w
          else if command = ''sign'' then cmd_sign K rest w
          else if command = ''verify'' then cmd_verify K rest w
          else (Err (ToolUsage (''unknown subcommand '' @ command)), w))"

text \<open>The text printed, whether it goes to the standard output, and the process result.\<close>

definition tool_main :: "tool_crypto \<Rightarrow> string list \<Rightarrow> tool_world \<Rightarrow> (bool \<times> string) \<times> tool_world" where
  "tool_main K args w =
     (case tool_run K args w of
        (Inr m, w) \<Rightarrow> ((True, m), w)
      | (Inl e, w) \<Rightarrow> ((False, tool_error_display e), w))"

section \<open>Facts about the tree\<close>

lemma node_at_append:
  "node_at (p @ q) t = (case node_at p t of None \<Rightarrow> None | Some c \<Rightarrow> node_at q c)"
  by (induction p t rule: node_at.induct) (auto split: option.splits)

lemma dir_update: "map_of (case v of None \<Rightarrow> AList.delete n cs | Some c \<Rightarrow> AList.update n c cs) = (map_of cs)(n := v)"
  by (auto simp: AList.update_conv' AList.delete_conv' split: option.splits)

lemma node_set_in:
  assumes "node_at p t = Some (PackDir cs)"
  obtains ds where "node_at p (node_set (p @ [x]) v t) = Some (PackDir ds)" "map_of ds = (map_of cs)(x := v)"
  using assms
proof (induction p t arbitrary: thesis rule: node_at.induct)
  case (1 t)
  then have "t = PackDir cs"
    by simp
  then show ?case
    by (intro 1(1) [of "case v of None \<Rightarrow> AList.delete x cs | Some c \<Rightarrow> AList.update x c cs"] dir_update) simp
next
  case (2 n ns es)
  then obtain c where c: "map_of es n = Some c" "node_at ns c = Some (PackDir cs)"
    by (auto split: option.splits)
  obtain ds where "node_at ns (node_set (ns @ [x]) v c) = Some (PackDir ds)" "map_of ds = (map_of cs)(x := v)"
    using 2(1) [OF c(1) _ c(2)] by blast
  then show ?case
    using c(1) by (intro 2(2)) (cases ns, auto simp: AList.update_conv')
qed simp_all

lemma node_at_set:
  assumes "node_at p t = Some (PackDir cs)"
  shows "node_at (p @ n # ns) (node_set (p @ [x]) v t) = (if n = x then Option.bind v (node_at ns) else node_at (p @ n # ns) t)"
    and "is_dir (node_at p (node_set (p @ [x]) v t))"
proof -
  obtain ds where "node_at p (node_set (p @ [x]) v t) = Some (PackDir ds)" "map_of ds = (map_of cs)(x := v)"
    using node_set_in [OF assms] by blast
  then show "node_at (p @ n # ns) (node_set (p @ [x]) v t) = (if n = x then Option.bind v (node_at ns) else node_at (p @ n # ns) t)"
      "is_dir (node_at p (node_set (p @ [x]) v t))"
    using assms by (auto simp: node_at_append is_dir_def split: option.splits)
qed

lemma is_dirE:
  assumes "is_dir n"
  obtains cs where "n = Some (PackDir cs)"
  using assms by (auto simp: is_dir_def split: option.splits package_node.splits)

lemma tool_at_set:
  assumes "is_dir (tool_at p w)"
  shows "tool_at (p @ n # ns) (tool_set (p @ [x]) v w) = (if n = x then Option.bind v (node_at ns) else tool_at (p @ n # ns) w)"
    and "is_dir (tool_at p (tool_set (p @ [x]) v w))"
  using is_dirE [OF assms] node_at_set by (metis (no_types, lifting) tool_at_def tool_set_def tool_world.select_convs(1)
      tool_world.surjective tool_world.update_convs(1))+

section \<open>Calls that only read\<close>

definition only_calls :: "tool_world \<Rightarrow> tool_world \<Rightarrow> bool" where
  "only_calls w w' \<longleftrightarrow> (\<exists>n. w' = w\<lparr>tw_calls := n\<rparr>)"

lemma only_calls_refl [simp]: "only_calls w w"
  by (auto simp: only_calls_def intro: exI [of _ "tw_calls w"])

lemma only_calls_trans: "only_calls w w1 \<Longrightarrow> only_calls w1 w2 \<Longrightarrow> only_calls w w2"
  by (auto simp: only_calls_def)

lemma only_callsD:
  assumes "only_calls w w'"
  shows "tool_at p w' = tool_at p w" "tw_root w' = tw_root w" "tw_pid w' = tw_pid w" "tw_fault w' = tw_fault w"
  using assms by (auto simp: only_calls_def tool_at_def)

lemma only_calls_call: "only_calls w (snd (tool_call err w))"
  by (auto simp: only_calls_def tool_call_def)

lemma only_calls_then:
  assumes "only_calls w (snd x)" and "\<And>a w'. only_calls w' (snd (f a w'))"
  shows "only_calls w (snd (and_then x f))"
  using assms by (cases x; cases "fst x") (auto intro: only_calls_trans)

lemma only_calls_result [simp]: "only_calls w (snd (of_result r w))" "only_calls w (snd (crypto_result c q w))"
  by (simp_all add: of_result_def crypto_result_def)

lemma only_calls_read: "only_calls w (snd (tool_read c p w))"
  unfolding tool_read_def by (intro only_calls_then only_calls_call) (auto split: option.splits package_node.splits)

lemma only_calls_stat: "only_calls w (snd (stat_bounded p r w))"
  unfolding stat_bounded_def by (intro only_calls_then only_calls_call) (auto split: option.splits package_node.splits)

lemma only_calls_chunks: "only_calls w (snd (hash_chunks p seen rest w))"
proof (induction p seen rest w rule: hash_chunks.induct)
  case (1 p seen rest w)
  show ?case
    by (subst hash_chunks.simps, rule only_calls_then [OF only_calls_call]) (use 1 in auto)
qed

lemma only_calls_hash: "only_calls w (snd (hash_file K p r w))"
  unfolding hash_file_def by (intro only_calls_then only_calls_stat only_calls_read only_calls_chunks) simp

lemma only_calls_bounded: "only_calls w (snd (read_bounded p r w))"
  unfolding read_bounded_def by (intro only_calls_then only_calls_stat only_calls_read)

lemma only_calls_build: "only_calls w (snd (build_each K dir rels w))"
proof (induction rels arbitrary: w)
  case (Cons rel rels)
  have rest: "only_calls w' (snd (and_then (hash_file K p t w') (\<lambda>d w. and_then (build_each K dir rels w) (\<lambda>es w. (Ok (f d es), w)))))"
    for p t f w'
    by (intro only_calls_then only_calls_hash Cons) simp
  show ?case
    unfolding build_each.simps Let_def by (intro only_calls_then only_calls_result) (auto intro: rest)
qed simp

lemma only_calls_key: "only_calls w (snd (load_key_bytes n p w))"
  unfolding load_key_bytes_def by (intro only_calls_then only_calls_read) (auto split: sum.splits)

lemma only_calls_anchor: "only_calls w (snd (load_anchor p w))"
  unfolding load_anchor_def by (intro only_calls_then only_calls_read) (auto split: sum.splits)

lemma only_calls_entries: "only_calls w (snd (read_entries dir es w))"
proof (induction es arbitrary: w)
  case (Cons e es)
  then show ?case
    unfolding read_entries.simps by (intro only_calls_then only_calls_call)
qed simp

lemma only_calls_children:
  assumes "\<And>n c d r w. (n, c) \<in> set cs \<Longrightarrow> only_calls w (snd (c d r w))"
  shows "only_calls w (snd (collect_children dir rel cs w))"
  using assms
proof (induction cs arbitrary: w)
  case (Cons x cs)
  obtain n c where x: "x = (n, c)"
    by (cases x)
  have "only_calls w (snd (c d r w))" for d r w
    using Cons(2) [of n c] x by simp
  moreover have "only_calls w (snd (collect_children dir rel cs w))" for w
    by (rule Cons(1), rule Cons(2), rule list.set_intros(2))
  ultimately show ?case
    unfolding x collect_children.simps by (intro only_calls_then only_calls_call) auto
qed simp

lemma only_calls_collect: "only_calls w (snd (collect_node t dir rel w))"
proof (induction t arbitrary: dir rel w)
  case (PackDir cs)
  have step: "only_calls v (snd (f d r v))"
    if "(n, f) \<in> set (sort_key fst (map (map_prod id collect_node) cs))" for n f d r v
  proof -
    have "(n, f) \<in> map_prod id collect_node ` set cs"
      using that by (simp only: set_sort set_map)
    then obtain c where "(n, c) \<in> set cs" "f = collect_node c"
      by (elim imageE) (auto simp: map_prod_def split: prod.splits)
    then show ?thesis
      using PackDir [of "(n, c)" c] by simp
  qed
  show ?case
    unfolding collect_node.simps by (intro only_calls_then only_calls_call only_calls_entries only_calls_children step)
qed simp_all

lemma only_calls_files: "only_calls w (snd (collect_files dir w))"
  by (auto simp: collect_files_def intro!: only_calls_then only_calls_call only_calls_collect
      simp del: collect_node.simps split: option.splits package_node.splits)

lemma only_calls_build_entries: "only_calls w (snd (build_entries K dir out w))"
  unfolding build_entries_def Let_def
  by (rule only_calls_then [OF only_calls_files]) (simp add: only_calls_build)

lemma only_calls_verify: "only_calls w (snd (verify_entries K dir m es w))"
proof (induction es arbitrary: w)
  case (Cons e es)
  show ?case
    using Cons only_calls_bounded [of w "join_text dir (entry_path e)" "entry_path e"]
    by (auto split: prod.splits sum.splits intro: only_calls_trans) (metis only_calls_trans snd_conv)+
qed simp

section \<open>What the calls find\<close>

lemma tool_read_Ok: "tool_read c p w = (Ok bs, w') \<Longrightarrow> tool_at p w = Some (PackFile bs)"
  by (auto simp: tool_read_def tool_call_def tool_at_def and_then_def split: option.splits package_node.splits sum.splits)

lemma stat_Ok:
  "stat_bounded p r w = (Ok u, w') \<Longrightarrow> tool_at p w = Some (PackFile bs) \<Longrightarrow> length bs \<le> MAX_ENTRY_BYTES"
  by (auto simp: stat_bounded_def tool_call_def tool_at_def and_then_def not_less
      split: option.splits package_node.splits sum.splits if_splits)

lemma chunks_Ok: "hash_chunks p seen rest w = (Ok bs, w') \<Longrightarrow> bs = seen @ rest"
proof (induction p seen rest w arbitrary: bs w' rule: hash_chunks.induct)
  case (1 p seen rest w)
  show ?case
    using 1(2) by (subst (asm) hash_chunks.simps, elim and_then_OkE)
      (use 1(1) in \<open>auto simp: HASH_BUFFER_def split: if_splits\<close>)
qed

lemma only_calls_Ok: "x = (r, w') \<Longrightarrow> only_calls w (snd x) \<Longrightarrow> only_calls w w'"
  by simp

lemma hash_Ok:
  assumes "hash_file K p r w = (Ok d, w')"
  obtains c where "tool_at p w = Some (PackFile c)" "length c \<le> MAX_ENTRY_BYTES" "d = tk_sha256 K c"
proof -
  obtain u w1 bs w2 seen w3 where s: "stat_bounded p r w = (Ok u, w1)" "tool_read ''cannot open file'' p w1 = (Ok bs, w2)"
      "hash_chunks p [] bs w2 = (Ok seen, w3)" "d = tk_sha256 K seen"
    using assms by (auto simp: hash_file_def elim!: and_then_OkE)
  have "tool_at p w = Some (PackFile bs)"
    using tool_read_Ok [OF s(2)] only_callsD(1) only_calls_Ok [OF s(1) only_calls_stat] by metis
  then show ?thesis
    using that stat_Ok [OF s(1)] chunks_Ok [OF s(3)] s(4) by simp
qed

lemma bounded_Ok:
  assumes "read_bounded p r w = (Ok c, w')"
  shows "tool_at p w = Some (PackFile c) \<and> length c \<le> MAX_ENTRY_BYTES"
proof -
  obtain u w1 where s: "stat_bounded p r w = (Ok u, w1)" "tool_read ''cannot read file'' p w1 = (Ok c, w')"
    using assms by (auto simp: read_bounded_def elim!: and_then_OkE)
  have "tool_at p w = Some (PackFile c)"
    using tool_read_Ok [OF s(2)] only_callsD(1) only_calls_Ok [OF s(1) only_calls_stat] by metis
  then show ?thesis
    using stat_Ok [OF s(1)] by simp
qed

section \<open>Verification of a package\<close>

text \<open>The package below a directory is authentic under an anchor file: the manifest beside it parses, its
  signature verifies under the key of the anchor, and every entry names a file of bounded length with the digest.\<close>

definition package_authentic :: "tool_crypto \<Rightarrow> tool_path \<Rightarrow> tool_path \<Rightarrow> tool_world \<Rightarrow> bool" where
  "package_authentic K dir anchor w \<longleftrightarrow>
     (\<exists>key bs m. tool_at anchor w = Some (PackFile key) \<and> length key = PUBLIC_KEY_LEN
        \<and> tool_at (dir @ [''manifest.sig'']) w = Some (PackFile bs) \<and> valid_utf8 bs
        \<and> parse_signed_manifest (text_of bs) = Ok m
        \<and> tk_verify K key (canonical_bytes m) (manifest_signature m)
        \<and> (\<forall>e\<in>set (manifest_entries m). \<exists>c. tool_at (join_text dir (entry_path e)) w = Some (PackFile c)
             \<and> length c \<le> MAX_ENTRY_BYTES \<and> tk_sha256 K c = entry_sha256 e))"

abbreviation no_tool_faults :: "tool_world \<Rightarrow> bool" where
  "no_tool_faults w \<equiv> tw_fault w = (\<lambda>_. None)"

lemma entry_digest_Ok:
  assumes "distinct (map entry_path (manifest_entries m))" "e \<in> set (manifest_entries m)"
  shows "verify_entry_digest sha m (entry_path e) c = Ok () \<longleftrightarrow> sha c = entry_sha256 e"
  using assms find_distinct [OF assms(1), of "entry_path e" e] by (simp add: verify_entry_digest_def)

lemma verify_entries_sound:
  assumes "distinct (map entry_path (manifest_entries m))"
  shows "verify_entries K dir m es w = ([], w') \<Longrightarrow> set es \<subseteq> set (manifest_entries m)
    \<Longrightarrow> \<forall>e\<in>set es. \<exists>c. tool_at (join_text dir (entry_path e)) w = Some (PackFile c)
          \<and> length c \<le> MAX_ENTRY_BYTES \<and> tk_sha256 K c = entry_sha256 e"
proof (induction es arbitrary: w)
  case (Cons e es)
  obtain c w1 where r: "read_bounded (join_text dir (entry_path e)) (entry_path e) w = (Ok c, w1)"
      "verify_entries K dir m es w1 = ([], w')" "verify_entry_digest (tk_sha256 K) m (entry_path e) c = Ok ()"
    using Cons(2) by (auto split: prod.splits sum.splits)
  have same: "tool_at p w1 = tool_at p w" for p
    using only_callsD(1) only_calls_Ok [OF r(1) only_calls_bounded] by blast
  show ?case
    using Cons(1) [OF r(2)] Cons(3) bounded_Ok [OF r(1)] r(3) entry_digest_Ok [OF assms, of e]
    by (auto simp: same)
qed simp

lemma call_fine: "no_tool_faults w \<Longrightarrow> tool_call err w = (Ok (), w\<lparr>tw_calls := tw_calls w + 1\<rparr>)"
  by (simp add: tool_call_def)

lemma tool_at_calls [simp]: "tool_at p (w\<lparr>tw_calls := n\<rparr>) = tool_at p w"
  by (simp add: tool_at_def)

lemma read_fine:
  "no_tool_faults w \<Longrightarrow> tool_at p w = Some (PackFile bs) \<Longrightarrow> tool_read c p w = (Ok bs, w\<lparr>tw_calls := tw_calls w + 1\<rparr>)"
  by (simp add: tool_read_def call_fine)

lemma bounded_fine:
  "no_tool_faults w \<Longrightarrow> tool_at p w = Some (PackFile bs) \<Longrightarrow> length bs \<le> MAX_ENTRY_BYTES
    \<Longrightarrow> fst (read_bounded p r w) = Ok bs"
  by (simp add: read_bounded_def stat_bounded_def call_fine read_fine)

lemma verify_entries_complete:
  assumes "distinct (map entry_path (manifest_entries m))"
  shows "no_tool_faults w \<Longrightarrow> set es \<subseteq> set (manifest_entries m)
    \<Longrightarrow> \<forall>e\<in>set es. \<exists>c. tool_at (join_text dir (entry_path e)) w = Some (PackFile c)
          \<and> length c \<le> MAX_ENTRY_BYTES \<and> tk_sha256 K c = entry_sha256 e
    \<Longrightarrow> fst (verify_entries K dir m es w) = []"
proof (induction es arbitrary: w)
  case (Cons e es)
  obtain c where c: "tool_at (join_text dir (entry_path e)) w = Some (PackFile c)" "length c \<le> MAX_ENTRY_BYTES"
      "tk_sha256 K c = entry_sha256 e"
    using Cons(4) by auto
  obtain w1 where r: "read_bounded (join_text dir (entry_path e)) (entry_path e) w = (Ok c, w1)"
    using bounded_fine [OF Cons(2) c(1,2)] by (metis prod.collapse)
  have w1: "only_calls w w1"
    using only_calls_Ok [OF r only_calls_bounded] .
  have "fst (verify_entries K dir m es w1) = []"
    using Cons only_callsD [OF w1] by (intro Cons(1)) auto
  then show ?case
    using r c(3) Cons(3) entry_digest_Ok [OF assms, of e "tk_sha256 K" c] by (auto split: prod.splits)
qed simp

lemma manifest_distinct: "parse_signed_manifest t = Ok m \<Longrightarrow> distinct (map entry_path (manifest_entries m))"
  using parsed_manifest_ok by (auto simp: manifest_ok_def)

lemma anchor_Ok: "load_anchor p w = (Ok key, w') \<Longrightarrow> tool_at p w = Some (PackFile key) \<and> length key = PUBLIC_KEY_LEN"
  by (auto simp: load_anchor_def anchor_from_bytes_def dest!: tool_read_Ok elim!: and_then_OkE split: if_splits sum.splits)

lemma verify_package_sound:
  assumes "verify_package K dir anchor w = (Ok msg, w')"
  shows "package_authentic K dir anchor w \<and> only_calls w w'"
proof -
  obtain key w1 bs w2 m w3 where v: "load_anchor anchor w = (Ok key, w1)"
      "tool_read ''cannot read manifest'' (dir @ [''manifest.sig'']) w1 = (Ok bs, w2)" "valid_utf8 bs"
      "parse_signed_manifest (text_of bs) = Ok m" "verify_manifest (tk_verify K) m key = Ok ()"
      "verify_entries K dir m (manifest_entries m) w2 = ([], w')"
    using assms by (auto simp: verify_package_def of_result_def crypto_result_def map_sum_eq_Inr Let_def
        elim!: and_then_OkE split: prod.splits sum.splits if_splits)
  have same: "only_calls w w1" "only_calls w w2"
    using only_calls_Ok [OF v(1) only_calls_anchor] only_calls_Ok [OF v(2) only_calls_read] only_calls_trans by blast+
  have "tk_verify K key (canonical_bytes m) (manifest_signature m)"
    using v(5) by (auto simp: verify_manifest_def split: if_splits)
  moreover have "tool_at (dir @ [''manifest.sig'']) w = Some (PackFile bs)"
    using tool_read_Ok [OF v(2)] only_callsD(1) [OF same(1)] by simp
  ultimately have "package_authentic K dir anchor w"
    using anchor_Ok [OF v(1)] v(3,4) verify_entries_sound [OF manifest_distinct [OF v(4)] v(6) order_refl]
      only_callsD(1) [OF same(2)] unfolding package_authentic_def by auto
  then show ?thesis
    using same(2) only_calls_verify [of w2 K dir m "manifest_entries m"] v(6) only_calls_trans by auto
qed

lemma only_calls_package: "only_calls w (snd (verify_package K dir anchor w))"
  unfolding verify_package_def Let_def
  by (intro only_calls_then only_calls_anchor only_calls_read only_calls_result)
    (simp add: only_calls_verify case_prod_unfold)

lemma verify_package_complete:
  assumes "no_tool_faults w" "package_authentic K dir anchor w"
  shows "\<exists>msg. fst (verify_package K dir anchor w) = Ok msg"
proof -
  obtain key bs m where p: "tool_at anchor w = Some (PackFile key)" "length key = PUBLIC_KEY_LEN"
      "tool_at (dir @ [''manifest.sig'']) w = Some (PackFile bs)" "valid_utf8 bs"
      "parse_signed_manifest (text_of bs) = Ok m" "tk_verify K key (canonical_bytes m) (manifest_signature m)"
      "\<forall>e\<in>set (manifest_entries m). \<exists>c. tool_at (join_text dir (entry_path e)) w = Some (PackFile c)
         \<and> length c \<le> MAX_ENTRY_BYTES \<and> tk_sha256 K c = entry_sha256 e"
    using assms(2) unfolding package_authentic_def by blast
  have "fst (verify_entries K dir m (manifest_entries m) (w\<lparr>tw_calls := n\<rparr>)) = []" for n
    using assms(1) p(7) by (intro verify_entries_complete manifest_distinct [OF p(5)]) auto
  then have "\<exists>w'. verify_entries K dir m (manifest_entries m) (w\<lparr>tw_calls := n\<rparr>) = ([], w')" for n
    by (metis prod.collapse)
  then obtain w' where "verify_entries K dir m (manifest_entries m) (w\<lparr>tw_calls := Suc (Suc (tw_calls w))\<rparr>) = ([], w')"
    by blast
  then show ?thesis
    using assms(1) p by (auto simp: verify_package_def load_anchor_def read_fine anchor_from_bytes_def of_result_def
        crypto_result_def verify_manifest_def Let_def split: prod.splits)
qed

section \<open>Names and paths\<close>

text \<open>What a file system guarantees of a listing: distinct names, each a component of its own.\<close>

definition name_ok :: "string \<Rightarrow> bool" where
  "name_ok n \<longleftrightarrow> n \<noteq> [] \<and> n \<noteq> ''.'' \<and> CHR ''/'' \<notin> set n \<and> CHR 0x5C \<notin> set n"

primrec listing_ok :: "package_node \<Rightarrow> bool" where
  "listing_ok (PackFile bs) = True"
| "listing_ok (PackDir cs) =
     (distinct (map fst cs) \<and> list_all (\<lambda>(n, ok). name_ok n \<and> ok) (map (map_prod id listing_ok) cs))"
| "listing_ok PackOther = True"

lemma listing_child: "listing_ok (PackDir cs) \<Longrightarrow> (n, c) \<in> set cs \<Longrightarrow> name_ok n \<and> listing_ok c"
  by (fastforce simp: list_all_iff)

lemma split_absent: "d \<notin> set n \<Longrightarrow> split_on d n = [n]"
  by (induction n) auto

lemma split_slash_join:
  "ps \<noteq> [] \<Longrightarrow> \<forall>p\<in>set ps. CHR ''/'' \<notin> set p \<Longrightarrow> split_on (CHR ''/'') (join_with ''/'' ps) = ps"
  by (induction "''/''" ps rule: join_with.induct) (simp_all add: split_absent split_on_append_sep)

lemma path_names_join: "ps \<noteq> [] \<Longrightarrow> \<forall>p\<in>set ps. name_ok p \<Longrightarrow> path_names (join_with ''/'' ps) = ps"
proof -
  assume ps: "ps \<noteq> []" "\<forall>p\<in>set ps. name_ok p"
  have "concat (map (split_on (CHR 0x5C)) ps) = ps"
    using ps(2) by (induction ps) (simp_all add: name_ok_def split_absent)
  then show ?thesis
    using ps by (simp add: path_names_def split_slash_join name_ok_def filter_id_conv)
qed

lemma join_text_join: "ps \<noteq> [] \<Longrightarrow> \<forall>p\<in>set ps. name_ok p \<Longrightarrow> join_text dir (join_with ''/'' ps) = dir @ ps"
proof -
  assume ps: "ps \<noteq> []" "\<forall>p\<in>set ps. name_ok p"
  then obtain n ns where n: "ps = n # ns" "n \<noteq> []" "CHR ''/'' \<notin> set n" "CHR 0x5C \<notin> set n"
    by (cases ps) (auto simp: name_ok_def)
  then have "hd (join_with ''/'' ps) \<in> set n"
    by (cases ns) simp_all
  then show ?thesis
    using n path_names_join [OF ps] by (auto simp: join_text_def)
qed

lemma collect_sound:
  "collect_node t dir rel w = (Ok fs, w') \<Longrightarrow> listing_ok t \<Longrightarrow> f \<in> set fs
    \<Longrightarrow> \<exists>r bs. f = rel @ r \<and> node_at r t = Some (PackFile bs) \<and> (\<forall>n\<in>set r. name_ok n)"
proof (induction t arbitrary: dir rel w w' fs f)
  case (PackDir cs)
  have child: "\<exists>r bs n c. (n, c) \<in> set cs \<and> f = rel @ n # r \<and> node_at r c = Some (PackFile bs) \<and> (\<forall>n\<in>set r. name_ok n)"
    if "collect_children dir rel ds v = (Ok gs, v')" "set ds \<subseteq> map_prod id collect_node ` set cs" "f \<in> set gs"
    for ds gs v v' f
    using that
  proof (induction ds arbitrary: gs v)
    case (Cons d ds)
    obtain n c where d: "d = (n, collect_node c)" "(n, c) \<in> set cs"
      using Cons(3) by auto
    obtain v1 hs v2 ks v3 where s: "collect_node c (dir @ [n]) (rel @ [n]) v1 = (Ok hs, v2)"
        "collect_children dir rel ds v2 = (Ok ks, v3)" "gs = hs @ ks" "v3 = v'"
      using Cons(2) d(1) by (auto elim!: and_then_OkE)
    show ?case
    proof (cases "f \<in> set hs")
      case True
      then show ?thesis
        using PackDir(1) [OF _ _ s(1), of "(n, c)"] listing_child [OF PackDir(3) d(2)] d(2) by fastforce
    next
      case False
      then show ?thesis
        using Cons(1) s Cons(3,4) by auto
    qed
  qed simp
  obtain v where "collect_children dir rel (sort_key fst (map (map_prod id collect_node) cs)) v = (Ok fs, w')"
    using PackDir(2) by (auto elim!: and_then_OkE)
  then obtain r bs n c where c: "(n, c) \<in> set cs" "f = rel @ n # r" "node_at r c = Some (PackFile bs)" "\<forall>n\<in>set r. name_ok n"
    using child [OF _ _ PackDir(4), of "sort_key fst (map (map_prod id collect_node) cs)" v w'] by auto
  then have "map_of cs n = Some c"
    using PackDir(3) by simp
  then show ?case
    using c listing_child [OF PackDir(3) c(1)] by (intro exI [of _ "n # r"]) auto
qed auto

lemma files_sound:
  assumes "collect_files dir w = (Ok fs, w')" "\<And>t. tool_at dir w = Some t \<Longrightarrow> listing_ok t" "f \<in> set fs"
  shows "f \<noteq> [] \<and> (\<forall>n\<in>set f. name_ok n) \<and> (\<exists>bs. tool_at (dir @ f) w = Some (PackFile bs))"
proof -
  obtain cs where cs: "tool_at dir w = Some (PackDir cs)"
    using assms(1) by (auto simp: collect_files_def elim!: and_then_OkE simp del: collect_node.simps
        split: option.splits package_node.splits)
  have "collect_node (PackDir cs) dir [] w = (Ok fs, w')"
    using assms(1) cs by (simp add: collect_files_def del: collect_node.simps)
  then obtain bs where "node_at f (PackDir cs) = Some (PackFile bs)" "\<forall>n\<in>set f. name_ok n"
    using collect_sound [OF _ assms(2) [OF cs] assms(3)] by fastforce
  then show ?thesis
    using cs by (cases f) (auto simp: tool_at_def node_at_append)
qed

section \<open>Signing a package\<close>

lemma valid_utf8_append: "valid_utf8 a \<Longrightarrow> valid_utf8 b \<Longrightarrow> valid_utf8 (a @ b)"
proof (induction a rule: valid_utf8.induct)
  case (2 a s)
  show ?case
  proof (cases "a \<le> 0x7F")
    case False
    then obtain c s1 where s: "s = c # s1"
      using 2(5) by (cases s) simp_all
    show ?thesis
    proof (cases "0xC2 \<le> a \<and> a \<le> 0xDF")
      case two: False
      then obtain d s2 where s1: "s1 = d # s2"
        using 2(5) s False by (cases s1) (simp_all only: valid_utf8.simps if_False list.case)
      show ?thesis
      proof (cases "0xE0 \<le> a \<and> a \<le> 0xEF")
        case three: False
        then obtain e s3 where s2: "s2 = e # s3"
          using 2(5) s s1 two False by (cases s2) (simp_all only: valid_utf8.simps if_False list.case)
        show ?thesis
          using 2(4) [OF False s two s1 three s2] 2(5,6) s s1 s2 two three False
          by (simp only: valid_utf8.simps if_False list.case append_Cons) simp
      qed (use 2(3) [OF False s two s1] 2(5,6) s s1 two False in
          \<open>simp only: valid_utf8.simps if_False if_True list.case append_Cons simp_thms; blast\<close>)
    qed (use 2(2) [OF False s] 2(5,6) s False in
        \<open>simp only: valid_utf8.simps if_False if_True list.case append_Cons simp_thms\<close>)
  qed (use 2(1,5,6) in simp)
qed simp

lemma valid_utf8_text: "valid_utf8 (bytes_of a) \<Longrightarrow> valid_utf8 (bytes_of b) \<Longrightarrow> valid_utf8 (bytes_of (a @ b))"
  using valid_utf8_append by (simp add: bytes_of_def)

lemma valid_utf8_concat: "\<forall>t\<in>set ts. valid_utf8 (bytes_of t) \<Longrightarrow> valid_utf8 (bytes_of (concat ts))"
  by (induction ts) (auto simp: valid_utf8_text bytes_of_def [of "[]"])

lemma ascii_hex: "ascii_text (hex_text bs)"
  using hex_text_lower [of bs] by (auto simp: ascii_text_def list_all_iff lower_hex_char_def is_digit_def)

lemma manifest_utf8:
  assumes "\<forall>e\<in>set (manifest_entries m). valid_utf8 (bytes_of (entry_path e))"
  shows "valid_utf8 (bytes_of (manifest_text m))"
proof -
  have ascii: "valid_utf8 (bytes_of (counter_line n))" "valid_utf8 (bytes_of (signature_line s))"
    "valid_utf8 (bytes_of newline)" "valid_utf8 (bytes_of ''entry '')" "valid_utf8 (bytes_of '' '')"
    "valid_utf8 (bytes_of (hex_text d))" for n s d
    using dec_digits is_digit_ascii ascii_hex by (auto intro!: ascii_utf8 simp: counter_line_def signature_line_def newline_def)
      (auto simp: ascii_text_def)
  have "valid_utf8 (bytes_of (entry_line e))" if "e \<in> set (manifest_entries m)" for e
    unfolding entry_line_def using assms that by (intro valid_utf8_text ascii) blast
  then have "\<forall>l\<in>set (canonical_lines m). valid_utf8 (bytes_of (l @ newline))"
    using ascii by (auto simp: canonical_lines_def intro!: valid_utf8_text)
  then show ?thesis
    unfolding manifest_text_def canonical_text_def
    by (intro valid_utf8_text valid_utf8_concat ascii) auto
qed

text \<open>What a successful replacement leaves: the content at the path, and the rest of the directory as it was.\<close>

definition replaced :: "tool_path \<Rightarrow> string \<Rightarrow> string \<Rightarrow> bytes \<Rightarrow> tool_world \<Rightarrow> tool_world \<Rightarrow> bool" where
  "replaced dir x tmp bs w w' \<longleftrightarrow>
     tool_at (dir @ [x]) w' = Some (PackFile bs) \<and> \<not> is_dir (tool_at (dir @ [x]) w) \<and> is_dir (tool_at dir w')
     \<and> (\<forall>n ns. n \<noteq> x \<longrightarrow> n \<noteq> tmp \<longrightarrow> tool_at (dir @ n # ns) w' = tool_at (dir @ n # ns) w)
     \<and> tw_pid w' = tw_pid w \<and> tw_fault w' = tw_fault w"

lemma tool_set_fields [simp]:
  "tw_pid (tool_set p v w) = tw_pid w" "tw_fault (tool_set p v w) = tw_fault w" "tw_calls (tool_set p v w) = tw_calls w"
  by (simp_all add: tool_set_def)

lemmas at_set = tool_at_set(1) [where ns = "[]", simplified]

lemma call_Ok: "tool_call err w = (Ok u, w') \<Longrightarrow> only_calls w w'"
  using only_calls_Ok [OF _ only_calls_call] by blast

lemma write_Ok:
  assumes "tool_write c (dir @ [x]) bs w = (Ok u, w')"
  shows "replaced dir x x bs w w' \<and> is_dir (tool_at dir w)"
proof -
  obtain w1 w2 where s: "only_calls w w1" "is_dir (tool_at dir w1)" "\<not> is_dir (tool_at (dir @ [x]) w1)"
      "only_calls (tool_set (dir @ [x]) (Some (PackFile [])) w1) w2" "w' = tool_set (dir @ [x]) (Some (PackFile bs)) w2"
    using assms by (auto simp: tool_write_def is_dir_def elim!: and_then_OkE dest!: call_Ok
        split: if_splits option.splits package_node.splits)
  have d2: "is_dir (tool_at dir w2)"
    using tool_at_set(2) [OF s(2)] only_callsD(1) [OF s(4)] by simp
  show ?thesis
    using s(2,3) only_callsD [OF s(1)] only_callsD [OF s(4)] tool_at_set [OF s(2)] tool_at_set [OF d2]
      at_set [OF d2]
    by (simp add: replaced_def s(5))
qed

lemma rename_Ok:
  assumes "rename (dir @ [tmp]) (dir @ [x]) err w = (Ok u, w')" "tmp \<noteq> x" "is_dir (tool_at dir w)"
    and "tool_at (dir @ [tmp]) w = Some (PackFile bs)"
  shows "replaced dir x tmp bs w w'"
proof -
  obtain w1 where s: "only_calls w w1" "\<not> is_dir (tool_at (dir @ [x]) w1)"
      "w' = tool_set (dir @ [tmp]) None (tool_set (dir @ [x]) (tool_at (dir @ [tmp]) w1) w1)"
    using assms(1) by (auto simp: rename_def is_dir_def elim!: and_then_OkE dest!: call_Ok
        split: option.splits package_node.splits)
  have d1: "is_dir (tool_at dir w1)"
    using assms(3) only_callsD(1) [OF s(1)] by simp
  show ?thesis
    using s(2,3) assms(2,4) only_callsD [OF s(1)] tool_at_set [OF d1] tool_at_set [OF tool_at_set(2) [OF d1]]
      at_set [OF d1] at_set [OF tool_at_set(2) [OF d1]]
    by (simp add: replaced_def)
qed

lemma only_calls_rename_Err: "rename a b err w = (Err e, w') \<Longrightarrow> only_calls w w'"
  by (auto simp: rename_def and_then_def tool_call_def only_calls_def
      split: option.splits package_node.splits prod.splits sum.splits)

lemma remove_file_Ok:
  assumes "remove_file (dir @ [x]) err w = (Ok u, w')" "is_dir (tool_at dir w)"
  shows "\<not> is_dir (tool_at (dir @ [x]) w)" "is_dir (tool_at dir w')"
    "n \<noteq> x \<Longrightarrow> tool_at (dir @ n # ns) w' = tool_at (dir @ n # ns) w" "tw_pid w' = tw_pid w" "tw_fault w' = tw_fault w"
proof -
  obtain w1 where s: "only_calls w w1" "\<not> is_dir (tool_at (dir @ [x]) w1)" "w' = tool_set (dir @ [x]) None w1"
    using assms(1) by (auto simp: remove_file_def is_dir_def elim!: and_then_OkE dest!: call_Ok
        split: option.splits package_node.splits)
  have d1: "is_dir (tool_at dir w1)"
    using assms(2) only_callsD(1) [OF s(1)] by simp
  show "\<not> is_dir (tool_at (dir @ [x]) w)" "is_dir (tool_at dir w')"
      "n \<noteq> x \<Longrightarrow> tool_at (dir @ n # ns) w' = tool_at (dir @ n # ns) w" "tw_pid w' = tw_pid w" "tw_fault w' = tw_fault w"
    using s(2,3) only_callsD [OF s(1)] tool_at_set [OF d1] by simp_all
qed

lemma remove_gone:
  "remove_file (dir @ [x]) err w = (Ok u, w') \<Longrightarrow> is_dir (tool_at dir w) \<Longrightarrow> tool_at (dir @ [x]) w' = None"
  by (auto simp: remove_file_def at_set only_callsD(1) elim!: and_then_OkE dest!: call_Ok
      split: option.splits package_node.splits)

lemma only_calls_remove_Err: "remove_file p err w = (Err e, w') \<Longrightarrow> only_calls w w'"
  by (auto simp: remove_file_def and_then_def tool_call_def only_calls_def
      split: option.splits package_node.splits prod.splits sum.splits)

lemma write_Err:
  "tool_write c (dir @ [y]) bs w = (Err e, w') \<Longrightarrow> n \<noteq> y \<Longrightarrow> tool_at (dir @ [n]) w' = tool_at (dir @ [n]) w"
  by (auto simp: tool_write_def tool_call_def and_then_def at_set
      split: if_splits option.splits package_node.splits sum.splits)

abbreviation tmp_name :: "string \<Rightarrow> tool_world \<Rightarrow> string" where
  "tmp_name x w \<equiv> x @ ''.tmp-'' @ dec (unat (tw_pid w))"

lemma atomic_write_Ok:
  assumes "atomic_write (dir @ [x]) bs w = (Ok u, w')"
  shows "replaced dir x (tmp_name x w) bs w w'"
proof -
  let ?tmp = "tmp_name x w" and ?err = "ToolIo ''cannot replace output file'' (dir @ [x])"
  have tmp: "tmp_path (dir @ [x]) w = dir @ [?tmp]" "?tmp \<noteq> x"
    by (simp_all add: tmp_path_def)
  obtain w1 where w: "tool_write ''cannot write temporary file'' (dir @ [?tmp]) bs w = (Ok (), w1)"
      and r: "rename (dir @ [?tmp]) (dir @ [x]) ?err w1 = (Ok (), w')
        \<or> (\<exists>e w2 w3. rename (dir @ [?tmp]) (dir @ [x]) ?err w1 = (Err e, w2)
             \<and> remove_file (dir @ [x]) ?err w2 = (Ok (), w3) \<and> rename (dir @ [?tmp]) (dir @ [x]) ?err w3 = (Ok (), w'))"
    using assms tmp by (auto simp: atomic_write_def Let_def elim!: and_then_OkE split: option.splits prod.splits sum.splits)
  have w1: "replaced dir ?tmp ?tmp bs w w1"
    using write_Ok [OF w] by simp
  then have at1: "is_dir (tool_at dir w1)" "tool_at (dir @ [?tmp]) w1 = Some (PackFile bs)"
    by (simp_all add: replaced_def)
  from r show ?thesis
  proof
    assume "rename (dir @ [?tmp]) (dir @ [x]) ?err w1 = (Ok (), w')"
    then show ?thesis
      using rename_Ok [OF _ tmp(2) at1] w1 tmp(2) by (auto simp: replaced_def)
  next
    assume "\<exists>e w2 w3. rename (dir @ [?tmp]) (dir @ [x]) ?err w1 = (Err e, w2)
      \<and> remove_file (dir @ [x]) ?err w2 = (Ok (), w3) \<and> rename (dir @ [?tmp]) (dir @ [x]) ?err w3 = (Ok (), w')"
    then obtain e w2 w3 where s: "only_calls w1 w2" "remove_file (dir @ [x]) ?err w2 = (Ok (), w3)"
        "rename (dir @ [?tmp]) (dir @ [x]) ?err w3 = (Ok (), w')"
      using only_calls_rename_Err by blast
    have d2: "is_dir (tool_at dir w2)"
      using at1 only_callsD(1) [OF s(1)] by simp
    have "tool_at (dir @ [?tmp]) w3 = Some (PackFile bs)"
      using remove_file_Ok(3) [OF s(2) d2, of ?tmp "[]"] at1 tmp(2) only_callsD(1) [OF s(1)] by simp
    then have "replaced dir x ?tmp bs w3 w'"
      using rename_Ok [OF s(3) tmp(2) remove_file_Ok(2) [OF s(2) d2]] by simp
    then show ?thesis
      using w1 tmp(2) remove_file_Ok [OF s(2) d2] only_callsD [OF s(1)] by (auto simp: replaced_def)
  qed
qed

text \<open>What an entry of the manifest says of a file of the package.\<close>

definition entry_of :: "tool_crypto \<Rightarrow> tool_path \<Rightarrow> tool_world \<Rightarrow> tool_path \<Rightarrow> manifest_entry \<Rightarrow> bool" where
  "entry_of K dir w rel e \<longleftrightarrow>
     entry_path e = join_with ''/'' rel \<and> valid_utf8 (bytes_of (entry_path e))
     \<and> entry_path e \<noteq> [] \<and> \<not> contains_any whitespace_encodings (entry_path e)
     \<and> ENTRY_LINE_OVERHEAD + length (entry_path e) \<le> MAX_MANIFEST_LINE_BYTES
     \<and> (\<exists>c. tool_at (dir @ rel) w = Some (PackFile c) \<and> length c \<le> MAX_ENTRY_BYTES \<and> entry_sha256 e = tk_sha256 K c)"

lemma build_sound:
  "build_each K dir rels w = (Ok es, w') \<Longrightarrow> list_all2 (entry_of K dir w) rels es"
proof (induction rels arbitrary: w es)
  case (Cons rel rels)
  obtain d w1 ds where b: "hash_file K (dir @ rel) (join_with ''/'' rel) w = (Ok d, w1)"
      "build_each K dir rels w1 = (Ok ds, w')" "es = \<lparr>entry_path = join_with ''/'' rel, entry_sha256 = d\<rparr> # ds"
      "valid_utf8 (bytes_of (join_with ''/'' rel))" "validate_manifest_path (join_with ''/'' rel) = Ok ()"
      "ENTRY_LINE_OVERHEAD + length (join_with ''/'' rel) \<le> MAX_MANIFEST_LINE_BYTES"
    using Cons(2) by (auto simp: of_result_def Let_def elim!: and_then_OkE split: if_splits)
  have "entry_of K dir w1 = entry_of K dir w"
    using only_callsD(1) [OF only_calls_Ok [OF b(1) only_calls_hash]] by (intro ext) (simp add: entry_of_def)
  then have "list_all2 (entry_of K dir w) rels ds"
    using Cons(1) [OF b(2)] by simp
  moreover have "entry_of K dir w rel \<lparr>entry_path = join_with ''/'' rel, entry_sha256 = d\<rparr>"
    using hash_Ok [OF b(1)] b(4,5,6) by (simp add: entry_of_def validate_manifest_path_def split: if_splits) blast
  ultimately show ?case
    using b(3) by simp
qed simp

lemma list_all2_left: "list_all2 P xs ys \<Longrightarrow> y \<in> set ys \<Longrightarrow> \<exists>x\<in>set xs. P x y"
  by (induction rule: list_all2_induct) auto

lemma entries_sound:
  assumes "build_entries K dir out w = (Ok es, w')" "\<And>t. tool_at dir w = Some t \<Longrightarrow> listing_ok t"
  shows "length es \<le> MAX_MANIFEST_ENTRIES"
    and "e \<in> set es \<Longrightarrow> \<exists>rel. entry_of K dir w rel e \<and> rel \<noteq> [] \<and> (\<forall>n\<in>set rel. name_ok n) \<and> \<not> is_excluded dir rel out"
proof -
  obtain fs w1 where b: "collect_files dir w = (Ok fs, w1)"
      "build_each K dir (filter (\<lambda>rel. \<not> is_excluded dir rel out) fs) w1 = (Ok es, w')"
      "length (filter (\<lambda>rel. \<not> is_excluded dir rel out) fs) \<le> MAX_MANIFEST_ENTRIES"
    using assms(1) by (auto simp: build_entries_def Let_def not_less elim!: and_then_OkE split: if_splits)
  have "entry_of K dir w1 = entry_of K dir w"
    using only_callsD(1) [OF only_calls_Ok [OF b(1) only_calls_files]] by (intro ext) (simp add: entry_of_def)
  then have all: "list_all2 (entry_of K dir w) (filter (\<lambda>rel. \<not> is_excluded dir rel out) fs) es"
    using build_sound [OF b(2)] by simp
  then show "length es \<le> MAX_MANIFEST_ENTRIES"
    using b(3) list_all2_lengthD by fastforce
  assume "e \<in> set es"
  then obtain rel where "rel \<in> set fs" "\<not> is_excluded dir rel out" "entry_of K dir w rel e"
    using list_all2_left [OF all] by auto
  then show "\<exists>rel. entry_of K dir w rel e \<and> rel \<noteq> [] \<and> (\<forall>n\<in>set rel. name_ok n) \<and> \<not> is_excluded dir rel out"
    using files_sound [OF b(1) assms(2)] by blast
qed

lemma hex_plain_ends: "bs \<noteq> [] \<Longrightarrow> plain_ends (hex_text bs)"
proof -
  assume "bs \<noteq> []"
  then have "hex_text bs \<noteq> []"
    by (cases bs) simp_all
  moreover have "\<forall>c\<in>set (hex_text bs). plain_char c"
    using hex_text_lower [of bs] by (auto simp: plain_char_def list_all_iff lower_hex_char_def is_digit_def)
  ultimately show ?thesis
    by (simp add: plain_ends_def)
qed

text \<open>The secret key file as \<open>gen-key\<close> writes it.\<close>

definition key_file :: "bytes \<Rightarrow> bytes" where
  "key_file key = bytes_of (hex_text key @ newline)"

lemma key_file_decodes: "length key = n \<Longrightarrow> n \<noteq> 0 \<Longrightarrow> decode_hex_lower n (text_of (key_file key)) = Ok key"
  using hex_plain_ends [of key]
  by (auto simp: decode_hex_lower_def key_file_def trim_trailing_newline decode_pairs_hex Let_def)

lemma key_file_utf8: "valid_utf8 (key_file key)"
  using ascii_hex by (auto simp: key_file_def newline_def intro!: ascii_utf8)

text \<open>A run of \<open>gen-key\<close> that succeeds leaves both key files as \<open>sign\<close> and \<open>verify\<close> read them.\<close>

lemma generated_keys:
  assumes "cmd_gen_key K args w = (Ok msg, w')" "take_value args ''--out-dir'' = Ok d"
  shows "tool_at (path_names d @ [secret_file]) w' = Some (PackFile (key_file (fst (tk_keypair K))))"
    and "tool_at (path_names d @ [anchor_file]) w' = Some (PackFile (snd (tk_keypair K)))"
proof -
  obtain w1 w2 w3 where s: "tool_write ''cannot write key file'' (path_names d @ [anchor_file]) (snd (tk_keypair K)) w1 = (Ok (), w2)"
      "tool_write ''cannot write key file'' (path_names d @ [secret_file]) (key_file (fst (tk_keypair K))) w2 = (Ok (), w3)"
      "w' = restrict_secret_permissions (path_names d @ [secret_file]) w3"
    using assms by (auto simp: cmd_gen_key_def of_result_def write_key_file_def write_raw_key_file_def key_file_def Let_def
        elim!: and_then_OkE)
  have "tool_at p w' = tool_at p w3" for p
    by (simp add: s(3) restrict_secret_permissions_def tool_call_def tool_at_def split: option.splits)
  then show "tool_at (path_names d @ [secret_file]) w' = Some (PackFile (key_file (fst (tk_keypair K))))"
      "tool_at (path_names d @ [anchor_file]) w' = Some (PackFile (snd (tk_keypair K)))"
    using write_Ok [OF s(1)] write_Ok [OF s(2)] by (simp_all add: replaced_def anchor_file_def secret_file_def)
qed

lemma load_key_file:
  assumes "load_secret_key p w = (Ok key, w')" "tool_at p w = Some (PackFile (key_file secret))" "length secret = SECRET_KEY_LEN"
  shows "key = secret"
proof -
  obtain bs w1 where "tool_read ''cannot read key file'' p w = (Ok bs, w1)"
      "length bs = SECRET_KEY_LEN \<and> key = bs \<or> decode_hex_lower SECRET_KEY_LEN (text_of bs) = Ok key"
    using assms(1) by (auto simp: load_secret_key_def load_key_bytes_def elim!: and_then_OkE split: if_splits sum.splits)
  moreover have "length (key_file secret) \<noteq> SECRET_KEY_LEN" "decode_hex_lower SECRET_KEY_LEN (text_of (key_file secret)) = Ok secret"
    using assms(3) by (auto intro!: key_file_decodes) (auto simp: key_file_def newline_def SECRET_KEY_LEN_def)
  ultimately show ?thesis
    using tool_read_Ok assms(2) by fastforce
qed

lemma path_parallel:
  assumes "replaced dir x tmp bs w w'" "tool_at (dir @ rel) w = Some (PackFile c)" "rel \<noteq> []" "rel \<noteq> [x]"
    and "tool_at (dir @ [tmp]) w = None"
  shows "tool_at (dir @ rel) w' = Some (PackFile c)"
proof -
  obtain n ns where rel: "rel = n # ns"
    using assms(3) by (cases rel) auto
  have up: "tool_at (dir @ n # ns) w = (case tool_at (dir @ [n]) w of None \<Rightarrow> None | Some t \<Rightarrow> node_at ns t)"
    using node_at_append [of "dir @ [n]" ns "tw_root w"] by (simp add: tool_at_def)
  have "n \<noteq> tmp"
    using up assms(2,5) rel by auto
  moreover have "n \<noteq> x"
  proof
    assume x: "n = x"
    then obtain m ms where "ns = m # ms"
      using assms(4) rel by (cases ns) auto
    then obtain t where "tool_at (dir @ [x]) w = Some t" "node_at (m # ms) t = Some (PackFile c)"
      using up x assms(2) rel by (auto split: option.splits)
    then show False
      using assms(1) by (cases t) (simp_all add: replaced_def is_dir_def)
  qed
  ultimately show ?thesis
    using assms(1,2) rel by (simp add: replaced_def)
qed

lemma sign_package_Ok:
  assumes "sign_package K dir key_path counter (dir @ [''manifest.sig'']) w = (Ok msg, w')"
  obtains secret wk entries we t wm where "load_secret_key key_path w = (Ok secret, wk)" "only_calls w wk"
    "build_entries K dir (dir @ [''manifest.sig'']) wk = (Ok entries, we)" "only_calls w we"
    "sign_manifest (tk_sign K) secret counter entries = Ok t"
    "replaced dir ''manifest.sig'' (tmp_name ''manifest.sig'' w) (bytes_of t) we wm"
    "replaced dir ''SHA256SUMS.txt'' (tmp_name ''SHA256SUMS.txt'' w) (bytes_of (render_sha256sums entries)) wm w'"
proof -
  obtain secret wk entries we t wm where s: "load_secret_key key_path w = (Ok secret, wk)"
    "build_entries K dir (dir @ [''manifest.sig'']) wk = (Ok entries, we)"
    "sign_manifest (tk_sign K) secret counter entries = Ok t"
    "atomic_write (dir @ [''manifest.sig'']) (bytes_of t) we = (Ok (), wm)"
    "atomic_write (dir @ [''SHA256SUMS.txt'']) (bytes_of (render_sha256sums entries)) wm = (Ok (), w')"
    using assms by (auto simp: sign_package_def crypto_result_def map_sum_eq_Inr elim!: and_then_OkE)
  have k: "only_calls w wk"
    using s(1) only_calls_Ok [OF _ only_calls_key] unfolding load_secret_key_def by blast
  have e: "only_calls w we"
    using k only_calls_Ok [OF s(2) only_calls_build_entries] only_calls_trans by blast
  show ?thesis
    using that [OF s(1) k s(2) e s(3)] atomic_write_Ok [OF s(4)] atomic_write_Ok [OF s(5)] only_callsD(3) [OF e]
    by (auto simp: replaced_def)
qed

text \<open>The conditions under which a signed package verifies: the file system lists names that are components,
  no temporary file of this process is left in the package, and the primitives fit together.\<close>

definition signing_ready :: "tool_crypto \<Rightarrow> tool_path \<Rightarrow> tool_world \<Rightarrow> bytes \<Rightarrow> bytes \<Rightarrow> bool" where
  "signing_ready K dir w secret key \<longleftrightarrow>
     (\<forall>t. tool_at dir w = Some t \<longrightarrow> listing_ok t)
     \<and> tool_at (dir @ [tmp_name ''manifest.sig'' w]) w = None \<and> tool_at (dir @ [tmp_name ''SHA256SUMS.txt'' w]) w = None
     \<and> length secret = SECRET_KEY_LEN \<and> length key = PUBLIC_KEY_LEN
     \<and> (\<forall>t. tk_verify K key t (tk_sign K secret t)) \<and> (\<forall>t. length (tk_sign K secret t) = SIGNATURE_LEN)
     \<and> (\<forall>t. length (tk_sha256 K t) = 32)"

lemma sums_name: "tmp_name ''SHA256SUMS.txt'' w \<noteq> ''manifest.sig''" "tmp_name ''SHA256SUMS.txt'' w \<noteq> tmp_name ''manifest.sig'' w"
  by simp_all

lemma excluded_names: "\<not> is_excluded dir rel out \<Longrightarrow> rel \<noteq> [''manifest.sig''] \<and> rel \<noteq> [''SHA256SUMS.txt'']"
  by (auto simp: is_excluded_def file_part_def intro!: ascii_utf8)

lemma signed_package_authentic:
  assumes sign: "sign_package K dir key_path counter (dir @ [''manifest.sig'']) w = (Ok msg, w')"
    and ready: "signing_ready K dir w secret key"
    and key: "tool_at key_path w = Some (PackFile (key_file secret))" and anchor: "tool_at anchor_path w' = Some (PackFile key)"
  shows "package_authentic K dir anchor_path w'"
proof -
  obtain sk wk entries we t wm where s: "load_secret_key key_path w = (Ok sk, wk)" "only_calls w wk"
      "build_entries K dir (dir @ [''manifest.sig'']) wk = (Ok entries, we)" "only_calls w we"
      "sign_manifest (tk_sign K) sk counter entries = Ok t"
      "replaced dir ''manifest.sig'' (tmp_name ''manifest.sig'' w) (bytes_of t) we wm"
      "replaced dir ''SHA256SUMS.txt'' (tmp_name ''SHA256SUMS.txt'' w) (bytes_of (render_sha256sums entries)) wm w'"
    using sign_package_Ok [OF sign] by blast
  have R: "\<And>t. tool_at dir w = Some t \<Longrightarrow> listing_ok t" "tool_at (dir @ [tmp_name ''manifest.sig'' w]) w = None"
      "tool_at (dir @ [tmp_name ''SHA256SUMS.txt'' w]) w = None" "length secret = SECRET_KEY_LEN" "length key = PUBLIC_KEY_LEN"
      "\<And>t. tk_verify K key t (tk_sign K secret t)" "\<And>t. length (tk_sign K secret t) = SIGNATURE_LEN"
      "\<And>t. length (tk_sha256 K t) = 32"
    using ready unfolding signing_ready_def by blast+
  have sk: "sk = secret"
    using load_key_file [OF s(1) key R(4)] .
  have listing: "\<And>t. tool_at dir wk = Some t \<Longrightarrow> listing_ok t"
    using R(1) only_callsD(1) [OF s(2)] by simp
  have found: "\<exists>rel. entry_of K dir w rel e \<and> rel \<noteq> [] \<and> (\<forall>n\<in>set rel. name_ok n)
      \<and> \<not> is_excluded dir rel (dir @ [''manifest.sig''])" if "e \<in> set entries" for e
    using entries_sound(2) [OF s(3) listing that] only_callsD(1) [OF s(2)] by (simp add: entry_of_def)
  have "\<forall>e\<in>set entries. entry_ok e"
    using found R(8) by (fastforce simp: entry_of_def entry_ok_def entry_line_def ENTRY_LINE_OVERHEAD_def)
  moreover have "card (entry_path ` set entries) \<le> MAX_MANIFEST_ENTRIES"
    using entries_sound(1) [OF s(3) listing] card_length [of "map entry_path entries"] by simp
  ultimately obtain m where m: "sign_manifest (tk_sign K) secret counter entries = Ok (manifest_text m)"
      "parse_signed_manifest (manifest_text m) = Ok m" "manifest_entries m = dedup_path (sort_key entry_path entries)"
      "verify_manifest (tk_verify K) m key = Ok ()"
    using sign_manifest_parses [of "tk_verify K" key "tk_sign K" secret entries counter] R(4,6,7) by metis
  have sub: "set (manifest_entries m) \<subseteq> set entries"
    using m(3) dedup_subset [of "sort_key entry_path entries"] by simp
  have stays: "tool_at (dir @ rel) w' = Some (PackFile c)"
    if "tool_at (dir @ rel) w = Some (PackFile c)" "rel \<noteq> []" "\<not> is_excluded dir rel (dir @ [''manifest.sig''])" for rel c
  proof -
    have "tool_at (dir @ [tmp_name ''SHA256SUMS.txt'' w]) wm = None"
      using s(6) sums_name R(3) only_callsD(1) [OF s(4)] unfolding replaced_def by metis
    then show ?thesis
      using path_parallel [OF s(6), of rel c] path_parallel [OF s(7), of rel c] that excluded_names [OF that(3)] R(2)
        only_callsD(1) [OF s(4)] by simp
  qed
  have "\<exists>c. tool_at (join_text dir (entry_path e)) w' = Some (PackFile c) \<and> length c \<le> MAX_ENTRY_BYTES
      \<and> tk_sha256 K c = entry_sha256 e" if e: "e \<in> set (manifest_entries m)" for e
  proof -
    obtain rel c where "entry_path e = join_with ''/'' rel" "rel \<noteq> []" "\<forall>n\<in>set rel. name_ok n"
        "tool_at (dir @ rel) w' = Some (PackFile c)" "length c \<le> MAX_ENTRY_BYTES" "entry_sha256 e = tk_sha256 K c"
      using found [of e] stays e sub unfolding entry_of_def by blast
    then show ?thesis
      by (simp add: join_text_join)
  qed
  moreover have "tool_at (dir @ [''manifest.sig'']) w' = Some (PackFile (bytes_of (manifest_text m)))"
    using s(5,6,7) m(1) sk sums_name(1) unfolding replaced_def by (simp add: sk)
  moreover have "valid_utf8 (bytes_of (manifest_text m))"
    using found sub by (intro manifest_utf8) (auto simp: entry_of_def)
  ultimately show ?thesis
    using anchor R(5) m(2,4) unfolding package_authentic_def verify_manifest_def
    by (intro exI [of _ key] exI [of _ "bytes_of (manifest_text m)"] exI [of _ m]) (auto split: if_splits)
qed

text \<open>C15: The tool accepts exactly the authentic packages. A run of \<open>verify\<close> that succeeds, under any pattern
  of failing calls, has found the manifest signed by the key of the anchor file and every listed file
  with its digest; without failing calls it succeeds on every such package. It changes no file.\<close>

theorem tool_verify_exact:
  assumes "take_value args ''--package-dir'' = Ok d" and "take_value args ''--anchor'' = Ok a"
  shows "tw_root (snd (tool_run K (''verify'' # args) w)) = tw_root w
    \<and> (\<not> isl (fst (tool_run K (''verify'' # args) w)) \<longrightarrow> package_authentic K (path_names d) (path_names a) w)
    \<and> (no_tool_faults w \<longrightarrow> (\<not> isl (fst (tool_run K (''verify'' # args) w))
         \<longleftrightarrow> package_authentic K (path_names d) (path_names a) w))"
proof -
  let ?v = "verify_package K (path_names d) (path_names a) w"
  have run: "tool_run K (''verify'' # args) w = ?v"
    using assms by (simp add: tool_run_def cmd_verify_def of_result_def)
  have sound: "package_authentic K (path_names d) (path_names a) w" if "\<not> isl (fst ?v)"
    using that verify_package_sound by (metis prod.collapse sum.collapse(2))
  show ?thesis
    unfolding run using sound verify_package_complete [of w K] only_callsD(2) [OF only_calls_package] by fastforce
qed

text \<open>C14: What \<open>sign\<close> writes, \<open>verify\<close> accepts. Whenever \<open>sign\<close> reports success for the package, also
  after failed calls that it worked around, a later \<open>verify\<close> under the matching anchor succeeds,
  provided that no temporary file of the process was left in the package and that Ed25519 verifies
  what it signed.\<close>

theorem signed_package_verifies:
  assumes "tool_run K (''sign'' # args) w = (Ok msg, w1)" and "take_optional_value args ''--out'' = Ok None"
    and "take_value args ''--package-dir'' = Ok d" and "take_value args ''--key'' = Ok k"
    and "signing_ready K (path_names d) w secret key" and "tool_at (path_names k) w = Some (PackFile (key_file secret))"
    and "take_value vargs ''--package-dir'' = Ok d" and "take_value vargs ''--anchor'' = Ok a"
    and "tool_at (path_names a) w1 = Some (PackFile key)"
  shows "\<not> isl (fst (tool_run K (''verify'' # vargs) (w1\<lparr>tw_fault := (\<lambda>_. None)\<rparr>)))"
proof -
  let ?w = "w1\<lparr>tw_fault := (\<lambda>_. None)\<rparr>"
  obtain counter where "sign_package K (path_names d) (path_names k) counter (path_names d @ [''manifest.sig'']) w = (Ok msg, w1)"
    using assms(1-4) by (auto simp: tool_run_def cmd_sign_def of_result_def elim!: and_then_OkE)
  then have "package_authentic K (path_names d) (path_names a) w1"
    using signed_package_authentic assms(5,6,9) by blast
  then have "package_authentic K (path_names d) (path_names a) ?w"
    by (simp add: package_authentic_def tool_at_def)
  then show ?thesis
    using verify_package_complete [of ?w] assms(7,8)
    by (auto simp: tool_run_def cmd_verify_def of_result_def) (metis isl_def sum.distinct(1))
qed

definition sample_tool :: tool_crypto where
  "sample_tool = \<lparr>tk_sign = (\<lambda>_ _. replicate 64 9), tk_verify = (\<lambda>_ _ s. s = replicate 64 9), tk_sha256 = (\<lambda>_. replicate 32 5),
     tk_keypair = (replicate 32 1, replicate 32 2)\<rparr>"

definition sample_tool_world :: tool_world where
  "sample_tool_world = \<lparr>tw_root = PackDir [
       (''p'', PackDir [(''b'', PackFile [1, 2])]),
       (''sec'', PackFile (key_file (replicate 32 1))), (''pub'', PackFile (replicate 32 2))],
     tw_fault = (\<lambda>_. None), tw_calls = 0, tw_pid = 7, tw_warnings = []\<rparr>"

definition sample_sign_args :: "string list" where
  "sample_sign_args = [''--package-dir'', ''p'', ''--key'', ''sec'', ''--counter'', ''3'']"

definition sample_verify_args :: "string list" where
  "sample_verify_args = [''--package-dir'', ''p'', ''--anchor'', ''pub'']"

lemma load_key_fine:
  assumes "no_tool_faults w" "tool_at p w = Some (PackFile (key_file secret))" "length secret = SECRET_KEY_LEN"
  shows "load_secret_key p w = (Ok secret, w\<lparr>tw_calls := tw_calls w + 1\<rparr>)"
proof -
  have "length (key_file secret) \<noteq> SECRET_KEY_LEN"
    using assms(3) by (simp add: key_file_def newline_def SECRET_KEY_LEN_def)
  moreover have "decode_hex_lower SECRET_KEY_LEN (text_of (key_file secret)) = Ok secret"
    using assms(3) by (intro key_file_decodes) (simp_all add: SECRET_KEY_LEN_def)
  ultimately show ?thesis
    using assms by (simp add: load_secret_key_def load_key_bytes_def read_fine key_file_utf8)
qed

lemma sample_valid_path: "validate_manifest_path ''b'' = Ok ()"
  by code_simp

lemma sample_built:
  "build_entries sample_tool [''p''] [''p'', ''manifest.sig''] (sample_tool_world\<lparr>tw_calls := Suc 0\<rparr>)
     = (Ok [\<lparr>entry_path = ''b'', entry_sha256 = replicate 32 5\<rparr>], sample_tool_world\<lparr>tw_calls := 8\<rparr>)"
  by (simp add: build_entries_def collect_files_def tool_at_def sample_tool_world_def tool_call_def is_excluded_def
      file_part_def bytes_of_def strip_suffix_def same_path_def of_result_def sample_valid_path hash_file_def
      stat_bounded_def tool_read_def hash_chunks.simps HASH_BUFFER_def sample_tool_def MAX_MANIFEST_ENTRIES_def
      MAX_MANIFEST_LINE_BYTES_def ENTRY_LINE_OVERHEAD_def MAX_ENTRY_BYTES_def Let_def)

lemma sample_names:
  "path_names ''p'' = [''p'']" "path_names ''sec'' = [''sec'']" "path_names ''pub'' = [''pub'']"
  by (simp_all add: path_names_def)

lemma sample_args:
  "take_value sample_sign_args ''--package-dir'' = Ok ''p''" "take_value sample_sign_args ''--key'' = Ok ''sec''"
  "take_value sample_sign_args ''--counter'' = Ok ''3''" "take_optional_value sample_sign_args ''--out'' = Ok None"
  "take_value sample_verify_args ''--package-dir'' = Ok ''p''" "take_value sample_verify_args ''--anchor'' = Ok ''pub''"
  by (simp_all add: take_value_def take_optional_value_def sample_sign_args_def sample_verify_args_def starts_with_def)

lemma sample_ready: "signing_ready sample_tool [''p''] sample_tool_world (replicate 32 1) (replicate 32 2)"
  by (simp add: signing_ready_def sample_tool_def sample_tool_world_def tool_at_def name_ok_def model_defs)

lemma sample_signs:
  obtains msg w1 where "tool_run sample_tool (''sign'' # sample_sign_args) sample_tool_world = (Ok msg, w1)"
    "tool_at [''pub''] w1 = Some (PackFile (replicate 32 2))"
proof -
  let ?es = "[\<lparr>entry_path = ''b'', entry_sha256 = replicate 32 5 :: bytes\<rparr>]" and ?sk = "replicate 32 1 :: bytes"
  have key: "load_secret_key [''sec''] sample_tool_world = (Ok ?sk, sample_tool_world\<lparr>tw_calls := Suc 0\<rparr>)"
    by (subst load_key_fine [where secret = ?sk]) (simp_all add: sample_tool_world_def tool_at_def SECRET_KEY_LEN_def)
  obtain t where t: "sign_manifest (tk_sign sample_tool) ?sk 3 ?es = Ok t"
    by (simp add: sign_manifest_def sign_bytes_def signing_key_from_bytes_def SECRET_KEY_LEN_def Let_def)
  have "parse_counter ''3'' = Ok 3"
    by (simp add: parse_counter_def parse_unsigned_def is_digit_def digit_val_def)
  then have run: "tool_run sample_tool (''sign'' # sample_sign_args) sample_tool_world
      = sign_package sample_tool [''p''] [''sec''] 3 [''p'', ''manifest.sig''] sample_tool_world"
    by (simp add: tool_run_def cmd_sign_def of_result_def sample_args sample_names)
  have steps: "sign_package sample_tool [''p''] [''sec''] 3 [''p'', ''manifest.sig''] sample_tool_world
      = and_then (atomic_write [''p'', ''manifest.sig''] (bytes_of t) (sample_tool_world\<lparr>tw_calls := 8\<rparr>)) (\<lambda>_ w.
          and_then (atomic_write [''p'', ''SHA256SUMS.txt''] (bytes_of (render_sha256sums ?es)) w) (\<lambda>_ w.
            (Ok (''signed '' @ dec (Suc 0) @ '' entries in '' @ path_display [''p''] @ '' at release counter '' @ dec 3
                 @ newline @ ''  manifest: '' @ path_display [''p'', ''manifest.sig'']), w)))"
    by (simp add: sign_package_def key sample_built crypto_result_def t)
  show ?thesis
    by (rule that, unfold run steps, simp add: atomic_write_def file_part_def tmp_path_def tool_write_def tool_call_def
        sample_tool_world_def tool_at_def tool_set_def is_dir_def rename_def Let_def) (simp add: tool_at_def)
qed

theorem signed_package_verifies_witness:
  "\<exists>msg w1. tool_run sample_tool (''sign'' # sample_sign_args) sample_tool_world = (Ok msg, w1)
     \<and> \<not> isl (fst (tool_run sample_tool (''verify'' # sample_verify_args) (w1\<lparr>tw_fault := (\<lambda>_. None)\<rparr>)))"
proof -
  obtain msg w1 where s: "tool_run sample_tool (''sign'' # sample_sign_args) sample_tool_world = (Ok msg, w1)"
      "tool_at (path_names ''pub'') w1 = Some (PackFile (replicate 32 2))"
    using sample_signs by (auto simp: sample_names)
  have "tool_at (path_names ''sec'') sample_tool_world = Some (PackFile (key_file (replicate 32 1)))"
    by (simp add: sample_names sample_tool_world_def tool_at_def)
  then show ?thesis
    using signed_package_verifies [OF s(1) sample_args(4,1,2) _ _ sample_args(5,6) s(2)] sample_ready s(1)
    by (auto simp: sample_names)
qed

theorem tool_verify_exact_witness:
  "\<not> package_authentic sample_tool [''p''] [''pub''] sample_tool_world
     \<and> isl (fst (tool_run sample_tool (''verify'' # sample_verify_args) sample_tool_world))"
proof -
  have "\<not> package_authentic sample_tool [''p''] [''pub''] sample_tool_world"
    by (simp add: package_authentic_def tool_at_def sample_tool_world_def)
  then show ?thesis
    using tool_verify_exact [OF sample_args(5,6), of sample_tool sample_tool_world] by (auto simp: sample_names)
qed

text \<open>C37: The fallback of a replacement can lose the file. When both renames fail after the target was
  removed, \<open>atomic_write\<close> reports an error and the old content is gone: only the temporary file is left.\<close>

theorem replacement_loses_target:
  assumes "atomic_write (dir @ [x]) bs w = (Err e, w')" and "tool_at (dir @ [x]) w = Some (PackFile old)"
  shows "tool_at (dir @ [x]) w' = Some (PackFile old)
    \<or> tool_at (dir @ [x]) w' = None \<and> tool_at (dir @ [tmp_name x w]) w' = Some (PackFile bs)"
proof -
  let ?tmp = "tmp_name x w" and ?err = "ToolIo ''cannot replace output file'' (dir @ [x])"
  have tmp: "tmp_path (dir @ [x]) w = dir @ [?tmp]" "x \<noteq> ?tmp"
    by (simp_all add: tmp_path_def)
  consider (name) "w' = w" | (unwritten) "tool_write ''cannot write temporary file'' (dir @ [?tmp]) bs w = (Err e, w')"
    | (kept) w1 e1 w2 where "tool_write ''cannot write temporary file'' (dir @ [?tmp]) bs w = (Ok (), w1)"
        "rename (dir @ [?tmp]) (dir @ [x]) ?err w1 = (Err e1, w2)" "remove_file (dir @ [x]) ?err w2 = (Err e, w')"
    | (gone) w1 e1 w2 w3 where "tool_write ''cannot write temporary file'' (dir @ [?tmp]) bs w = (Ok (), w1)"
        "rename (dir @ [?tmp]) (dir @ [x]) ?err w1 = (Err e1, w2)" "remove_file (dir @ [x]) ?err w2 = (Ok (), w3)"
        "rename (dir @ [?tmp]) (dir @ [x]) ?err w3 = (Err e, w')"
    using assms(1) tmp by (auto simp: atomic_write_def Let_def elim!: and_then_ErrE split: option.splits prod.splits sum.splits)
  then show ?thesis
  proof cases
    case unwritten
    then show ?thesis
      using write_Err [OF unwritten tmp(2)] assms(2) by simp
  next
    case kept
    have "tool_at (dir @ [x]) w1 = Some (PackFile old)"
      using write_Ok [OF kept(1)] assms(2) tmp(2) by (simp add: replaced_def)
    then show ?thesis
      using only_callsD(1) only_calls_rename_Err [OF kept(2)] only_calls_remove_Err [OF kept(3)] by simp
  next
    case gone
    have w2: "only_calls w1 w2" "only_calls w3 w'"
      using only_calls_rename_Err gone(2,4) by blast+
    have at1: "is_dir (tool_at dir w1)" "tool_at (dir @ [?tmp]) w1 = Some (PackFile bs)"
      using write_Ok [OF gone(1)] by (simp_all add: replaced_def)
    then have d2: "is_dir (tool_at dir w2)"
      using only_callsD(1) [OF w2(1)] by simp
    show ?thesis
      using remove_gone [OF gone(3) d2] remove_file_Ok(3) [OF gone(3) d2, of ?tmp "[]"] at1(2) tmp(2)
        only_callsD(1) [OF w2(1)] only_callsD(1) [OF w2(2)] by auto
  qed (use assms(2) in simp)
qed

definition sample_lossy_world :: tool_world where
  "sample_lossy_world = \<lparr>tw_root = PackDir [(''x'', PackFile [1])],
     tw_fault = (\<lambda>n. if n = 2 \<or> n = 4 then Some ''denied'' else None), tw_calls = 0, tw_pid = 7, tw_warnings = []\<rparr>"

theorem replacement_loses_target_witness:
  "isl (fst (atomic_write [''x''] [2] sample_lossy_world)) \<and> tool_at [''x''] sample_lossy_world = Some (PackFile [1])
     \<and> tool_at [''x''] (snd (atomic_write [''x''] [2] sample_lossy_world)) = None"
proof -
  have lost: "isl (fst (atomic_write [''x''] [2] sample_lossy_world))"
      "tool_at [''x''] (snd (atomic_write [''x''] [2] sample_lossy_world)) \<noteq> Some (PackFile [1])"
      "tool_at [''x''] sample_lossy_world = Some (PackFile [1])"
    by (simp_all add: sample_lossy_world_def atomic_write_def file_part_def tmp_path_def tool_write_def tool_call_def
        tool_at_def tool_set_def is_dir_def rename_def remove_file_def Let_def)
  then show ?thesis
    using replacement_loses_target [of "[]" "''x''" "[2]" sample_lossy_world]
    by (cases "atomic_write [''x''] [2] sample_lossy_world"; cases "fst (atomic_write [''x''] [2] sample_lossy_world)") auto
qed

end
