(* ===== verification/Inspect.thy ===== *)
theory Inspect
  imports Report
begin

text \<open>
  Model of the diagnostic window of the tray: \<open>diagnostic_transfer.rs\<close>, \<open>diagnostic_grid.rs\<close>,
  \<open>diagnostic_layout.rs\<close> and the state of \<open>diagnostic_window.rs\<close> under \<open>apps/true-tick/src/ui\<close>, with the
  filters, the rows of the virtual list, the two kinds of selection, the coalesced refresh, and the
  copy and export of rows.

  Every operation takes the snapshot of the retained events it works on. Creating windows, fonts, colours
  and painting are left out, and so are the records an operation stores; what a record does to the window,
  the request of a refresh, is kept. The lower case of a text and the alphabetic characters are tables of
  Unicode, taken as parameters.
\<close>

section \<open>State\<close>

record inspect =
  in_window :: bool
  in_list :: bool
  in_selection :: "row_selection option"
  in_sequences :: "u64 list option"
  in_grid_sequences :: "u64 list"
  in_grid_reset :: bool
  in_selection_reset :: bool
  in_display_limit :: nat
  in_display_all :: bool
  in_category :: "event_category option"
  in_search :: string
  in_message :: string
  in_summary :: string
  in_actions_enabled :: bool
  in_refresh_pending :: bool
  in_refreshing :: bool
  in_direct_recorded :: bool
  in_follow_up :: bool
  in_layout_stable :: bool
  in_snapshot_key :: "(nat \<times> u64) option"
  in_generation :: u64
  in_fitted :: "u64 option"
  in_rows :: "string list list"
  in_selected :: "nat list"
  in_initializing :: bool
  in_attempts :: nat
  in_posted :: nat

text \<open>
  The environment: the texts of the three edit controls, which posts succeed, what the list view does
  to its selected positions when the number of items changes, and the two tables.
\<close>

record inspect_env =
  ie_range :: string
  ie_display :: string
  ie_search :: string
  ie_post :: "nat \<Rightarrow> bool"
  ie_resize :: "nat \<Rightarrow> nat list \<Rightarrow> nat list"
  ie_lower :: "string \<Rightarrow> string"
  ie_alphabetic :: "string \<Rightarrow> bool"

definition EVENT_BUFFER_CAP :: nat where
  "EVENT_BUFFER_CAP = 4096"

section \<open>Refresh requests\<close>

definition diagnostic_refresh_is_coalesced :: "bool \<Rightarrow> bool \<Rightarrow> bool" where
  "diagnostic_refresh_is_coalesced waiting refreshing = (waiting \<or> refreshing)"

definition diagnostic_follow_up_needed :: "bool \<Rightarrow> bool \<Rightarrow> bool" where
  "diagnostic_follow_up_needed generated_direct_records follow_up_refresh =
     (generated_direct_records \<and> \<not> follow_up_refresh)"

definition request_diagnostic_refresh :: "inspect_env \<Rightarrow> inspect \<Rightarrow> inspect" where
  "request_diagnostic_refresh env s =
     (if diagnostic_refresh_is_coalesced (in_refresh_pending s) (in_refreshing s)
      then (if in_refreshing s then s\<lparr>in_refresh_pending := True\<rparr> else s)
      else if \<not> in_window s then s
      else if ie_post env (in_attempts s)
      then s\<lparr>in_refresh_pending := True, in_attempts := in_attempts s + 1, in_posted := in_posted s + 1\<rparr>
      else s\<lparr>in_attempts := in_attempts s + 1\<rparr>)"

text \<open>A number of calls of \<open>App::record\<close> and \<open>finish_operation\<close>, as far as the window goes.\<close>

definition noted :: "inspect_env \<Rightarrow> nat \<Rightarrow> inspect \<Rightarrow> inspect" where
  "noted env n s = (request_diagnostic_refresh env ^^ n) s"

definition record_diagnostic_refresh_event :: "inspect \<Rightarrow> inspect" where
  "record_diagnostic_refresh_event s = (if in_refreshing s then s\<lparr>in_direct_recorded := True\<rparr> else s)"

definition finish_diagnostic_refresh :: "inspect_env \<Rightarrow> bool \<Rightarrow> inspect \<Rightarrow> inspect" where
  "finish_diagnostic_refresh env follow_up_needed s =
     (let s1 = s\<lparr>in_refreshing := False\<rparr>;
          s2 = (if follow_up_needed then s1\<lparr>in_follow_up := True\<rparr> else s1)
      in if in_refresh_pending s2 \<or> follow_up_needed
         then request_diagnostic_refresh env (s2\<lparr>in_refresh_pending := False\<rparr>) else s2)"

section \<open>Filters\<close>

definition search_matches :: "(string \<Rightarrow> string) \<Rightarrow> string \<Rightarrow> string \<Rightarrow> string \<Rightarrow> bool" where
  "search_matches lower search event_name details =
     (let needle = trim search in
      if needle = [] then True
      else contains_text (lower needle) (lower event_name) \<or> contains_text (lower needle) (lower details))"

definition diagnostic_filtered_events :: "inspect_env \<Rightarrow> inspect \<Rightarrow> diagnostic_event list \<Rightarrow> diagnostic_event list" where
  "diagnostic_filtered_events env s es =
     filter (\<lambda>e. (case in_category s of None \<Rightarrow> True | Some c \<Rightarrow> from_event_name (ev_name e) = c)
        \<and> search_matches (ie_lower env) (in_search s) (ev_name e) (ev_details e)) es"

definition diagnostic_visible_selection :: "inspect \<Rightarrow> nat \<Rightarrow> row_selection" where
  "diagnostic_visible_selection s retained_rows =
     (if in_display_all s then selection_all retained_rows else latest_row_selection (in_display_limit s) retained_rows)"

definition diagnostic_filtered_visible_events :: "inspect_env \<Rightarrow> inspect \<Rightarrow> diagnostic_event list \<Rightarrow> diagnostic_event list"
  where
  "diagnostic_filtered_visible_events env s es =
     (let filtered = diagnostic_filtered_events env s es;
          selection = diagnostic_visible_selection s (length filtered)
      in if selection_is_empty selection then []
         else take (row_count selection) (drop (sel_start selection - 1) filtered))"

section \<open>The rows of the list\<close>

definition buffer_push :: "string list \<Rightarrow> string list list \<Rightarrow> string list list" where
  "buffer_push row rows = (if EVENT_BUFFER_CAP \<le> length rows then tl rows else rows) @ [row]"

definition buffer_get :: "string list list \<Rightarrow> nat \<Rightarrow> string list option" where
  "buffer_get rows i = (if i < length rows then Some (rows ! i) else None)"

definition grid_cell :: "string list list \<Rightarrow> nat \<Rightarrow> nat \<Rightarrow> string option" where
  "grid_cell rows i column =
     (case buffer_get rows i of
        None \<Rightarrow> None
      | Some row \<Rightarrow> if column < length row then Some (row ! column) else None)"

text \<open>The sequence a displayed row belongs to, read from its second cell.\<close>

definition row_sequence :: "string list list \<Rightarrow> nat \<Rightarrow> u64 option" where
  "row_sequence rows i =
     (case grid_cell rows i 1 of
        None \<Rightarrow> None
      | Some cell \<Rightarrow> map_option of_nat (parse_unsigned (2 ^ 64 - 1) cell))"

definition displayed_rows :: "inspect_env \<Rightarrow> inspect \<Rightarrow> diagnostic_event list \<Rightarrow> string list list" where
  "displayed_rows env s es =
     fold buffer_push (map (\<lambda>(i, e). diagnostic_grid_row (i + 1) e)
       (enumerate 0 (diagnostic_filtered_visible_events env s es))) []"

section \<open>Selections\<close>

definition diagnostic_selection_summary :: "inspect \<Rightarrow> nat \<Rightarrow> string" where
  "diagnostic_selection_summary s retained_rows =
     (if in_grid_sequences s \<noteq> [] then
        ''Selected: '' @ dec (length (in_grid_sequences s)) @ '' rows''
          @ (if in_grid_reset s then '' (some no longer retained)'' else [])
      else if in_grid_reset s then ''Selection reset: selected rows are no longer retained''
      else case in_selection s of
        None \<Rightarrow> ''Selected: 0 rows; range unavailable''
      | Some sel \<Rightarrow>
          if selection_is_all retained_rows sel then ''Selected: 0 rows; range fallback: all '' @ dec retained_rows
          else ''Selected: 0 rows; range fallback: '' @ dec (sel_start sel) @ ''-'' @ dec (sel_end sel))"

definition set_selection_summary :: "nat \<Rightarrow> inspect \<Rightarrow> inspect" where
  "set_selection_summary retained_rows s = s\<lparr>in_summary := diagnostic_selection_summary s retained_rows\<rparr>"

definition set_action_enabled :: "bool \<Rightarrow> inspect \<Rightarrow> inspect" where
  "set_action_enabled e s = s\<lparr>in_actions_enabled := e\<rparr>"

definition range_selected :: "inspect \<Rightarrow> bool" where
  "range_selected s = (case in_selection s of None \<Rightarrow> False | Some sel \<Rightarrow> \<not> selection_is_empty sel)"

definition update_diagnostic_grid_selection :: "diagnostic_event list \<Rightarrow> inspect \<Rightarrow> inspect" where
  "update_diagnostic_grid_selection es s =
     (if in_refreshing s \<or> \<not> in_list s then s
      else
        let selected = filter (\<lambda>q. q \<in> ev_sequence ` set es) (List.map_filter (row_sequence (in_rows s)) (in_selected s));
            s1 = s\<lparr>in_grid_sequences := selected, in_grid_reset := False\<rparr>;
            s2 = (if starts_with ''Selection reset:'' (in_message s1) then s1\<lparr>in_message := []\<rparr> else s1);
            s3 = set_selection_summary (length es) s2
        in set_action_enabled (in_grid_sequences s3 \<noteq> [] \<or> range_selected s3) s3)"

definition preserve_diagnostic_grid_selection :: "diagnostic_event list \<Rightarrow> inspect \<Rightarrow> inspect" where
  "preserve_diagnostic_grid_selection es s =
     (if in_grid_sequences s = [] then s
      else
        let selected = selected_event_sequences_for_sequences es (in_grid_sequences s);
            invalid_count = length (in_grid_sequences s) - length selected;
            s1 = s\<lparr>in_grid_sequences := selected\<rparr>
        in if 0 < invalid_count
           then record_diagnostic_refresh_event (s1\<lparr>in_grid_reset := True,
             in_message := (if invalid_count = 1 then ''Selection reset: 1 selected row is no longer retained.''
                            else ''Selection reset: selected rows are no longer retained.'')\<rparr>)
           else s1)"

definition apply_diagnostic_grid_selection :: "inspect \<Rightarrow> inspect" where
  "apply_diagnostic_grid_selection s =
     (if in_grid_sequences s = [] then s
      else
        let ps = filter (\<lambda>i. case row_sequence (in_rows s) i of None \<Rightarrow> False | Some q \<Rightarrow> q \<in> set (in_grid_sequences s))
                   [0..<length (in_rows s)]
        in s\<lparr>in_selected := sorted_list_of_set (set (in_selected s) \<union> set ps)\<rparr>)"

definition select_all_diagnostic_rows :: "diagnostic_event list \<Rightarrow> inspect \<Rightarrow> inspect" where
  "select_all_diagnostic_rows es s =
     (if \<not> in_list s then s
      else update_diagnostic_grid_selection es (s\<lparr>in_selected := [0..<length (in_rows s)]\<rparr>))"

definition parse_range_into :: "string \<Rightarrow> diagnostic_event list \<Rightarrow> inspect \<Rightarrow> inspect" where
  "parse_range_into input es s =
     (case parse_row_selection input (length es) of
        Inr sel \<Rightarrow>
          let s1 = s\<lparr>in_selection := Some sel, in_sequences := Some (selected_event_sequences es sel), in_selection_reset := False\<rparr>
          in if starts_with ''Invalid range:'' (in_message s1) then s1\<lparr>in_message := []\<rparr> else s1
      | Inl e \<Rightarrow>
          s\<lparr>in_selection := None, in_sequences := None, in_selection_reset := False,
            in_message := ''Invalid range: '' @ row_selection_message e\<rparr>)"

definition refresh_diagnostic_controls :: "inspect_env \<Rightarrow> diagnostic_event list \<Rightarrow> bool \<Rightarrow> inspect \<Rightarrow> inspect" where
  "refresh_diagnostic_controls env es preserve_selection s =
     (let retained_rows = length es;
          input_is_all = (trim (ie_range env) = [] \<or> to_ascii_lowercase (trim (ie_range env)) = ''all'')
      in if preserve_selection \<and> in_selection_reset s
         then set_action_enabled (in_grid_sequences s \<noteq> []) (set_selection_summary retained_rows s)
         else case (if preserve_selection \<and> \<not> input_is_all then in_sequences s else None) of
           Some sequences \<Rightarrow>
             (case row_selection_for_sequences es sequences of
                Some sel \<Rightarrow>
                  set_action_enabled (in_grid_sequences s \<noteq> [] \<or> \<not> selection_is_empty sel)
                    (set_selection_summary retained_rows (s\<lparr>in_selection := Some sel\<rparr>))
              | None \<Rightarrow>
                  let s1 = s\<lparr>in_selection := None, in_sequences := None, in_selection_reset := True\<rparr>;
                      s2 = set_action_enabled (in_grid_sequences s1 \<noteq> []) (set_selection_summary retained_rows s1);
                      s3 = s2\<lparr>in_message := ''Selection reset: selected rows are no longer retained.''\<rparr>
                  in request_diagnostic_refresh env (record_diagnostic_refresh_event s3))
         | None \<Rightarrow>
             let s1 = set_selection_summary retained_rows (parse_range_into (ie_range env) es s)
             in set_action_enabled (in_grid_sequences s1 \<noteq> [] \<or> range_selected s1) s1)"

section \<open>Edits of the controls\<close>

definition diagnostic_range_changed :: "inspect_env \<Rightarrow> diagnostic_event list \<Rightarrow> inspect \<Rightarrow> inspect" where
  "diagnostic_range_changed env es s =
     refresh_diagnostic_controls env es False
       ((case parse_row_selection (ie_range env) (length es) of
            Inr sel \<Rightarrow>
              noted env 2 (s\<lparr>in_selection := Some sel, in_sequences := Some (selected_event_sequences es sel),
                in_selection_reset := False\<rparr>)
          | Inl e \<Rightarrow> noted env 3 (s\<lparr>in_selection := None, in_sequences := None, in_selection_reset := False\<rparr>)))"

datatype display_limit_decision = ApplyLimit nat | PreserveEmpty | InvalidLimit

definition display_limit_input_decision :: "string \<Rightarrow> display_limit_decision" where
  "display_limit_input_decision input =
     (if trim input = [] then PreserveEmpty
      else case parse_display_limit input of Inr limit \<Rightarrow> ApplyLimit limit | Inl _ \<Rightarrow> InvalidLimit)"

definition clear_limit_message :: "inspect \<Rightarrow> inspect" where
  "clear_limit_message s =
     (if starts_with ''Invalid Show rows value:'' (in_message s) then s\<lparr>in_message := []\<rparr> else s)"

definition diagnostic_display_changed :: "inspect_env \<Rightarrow> inspect \<Rightarrow> inspect" where
  "diagnostic_display_changed env s =
     (case display_limit_input_decision (ie_display env) of
        PreserveEmpty \<Rightarrow> noted env 2 s
      | InvalidLimit \<Rightarrow>
          noted env 2 (s\<lparr>in_message := ''Invalid Show rows value: ''
            @ (case parse_display_limit (ie_display env) of Inl e \<Rightarrow> display_limit_message e | Inr _ \<Rightarrow> [])\<rparr>)
      | ApplyLimit limit \<Rightarrow>
          clear_limit_message (noted env 2 (s\<lparr>in_display_limit := limit, in_display_all := False\<rparr>)))"

definition diagnostic_show_all :: "inspect_env \<Rightarrow> inspect \<Rightarrow> inspect" where
  "diagnostic_show_all env s = clear_limit_message (noted env 2 (s\<lparr>in_display_all := True\<rparr>))"

definition category_of_index :: "int \<Rightarrow> event_category option" where
  "category_of_index i =
     (if i = 1 then Some CatStartup else if i = 2 then Some CatTimer else if i = 3 then Some CatPower
      else if i = 4 then Some CatUI else if i = 5 then Some CatSchedule else if i = 6 then Some CatSystem else None)"

definition diagnostic_category_filter_changed :: "inspect_env \<Rightarrow> int \<Rightarrow> inspect \<Rightarrow> inspect" where
  "diagnostic_category_filter_changed env index s =
     request_diagnostic_refresh env (noted env 2 (s\<lparr>in_category := category_of_index index\<rparr>))"

definition diagnostic_search_changed :: "inspect_env \<Rightarrow> inspect \<Rightarrow> inspect" where
  "diagnostic_search_changed env s =
     (if ie_search env = in_search s then s
      else request_diagnostic_refresh env (noted env 2 (s\<lparr>in_search := ie_search env\<rparr>)))"

section \<open>The refresh\<close>

definition diagnostic_snapshot_key :: "diagnostic_event list \<Rightarrow> (nat \<times> u64) option" where
  "diagnostic_snapshot_key es = (if es = [] then None else Some (length es, ev_sequence (last es)))"

definition diagnostic_data_snapshot_changed :: "(nat \<times> u64) option \<Rightarrow> (nat \<times> u64) option \<Rightarrow> bool" where
  "diagnostic_data_snapshot_changed before now = (before \<noteq> now)"

definition diagnostic_auto_fit_once :: "bool \<Rightarrow> bool \<Rightarrow> u64 \<Rightarrow> u64 option \<Rightarrow> bool" where
  "diagnostic_auto_fit_once layout_stable snapshot_changed generation fitted =
     (\<not> layout_stable \<or> snapshot_changed \<and> fitted \<noteq> Some generation)"

definition note_snapshot :: "diagnostic_event list \<Rightarrow> inspect \<Rightarrow> inspect" where
  "note_snapshot es s =
     (let key = diagnostic_snapshot_key es;
          changed = diagnostic_data_snapshot_changed (in_snapshot_key s) key;
          s1 = (if changed then s\<lparr>in_generation := saturating_add (in_generation s) 1, in_snapshot_key := key\<rparr> else s)
      in if diagnostic_auto_fit_once (in_layout_stable s1) changed (in_generation s1) (in_fitted s1)
         then s1\<lparr>in_fitted := Some (in_generation s1)\<rparr> else s1)"

definition rebuild_rows :: "inspect_env \<Rightarrow> diagnostic_event list \<Rightarrow> inspect \<Rightarrow> inspect" where
  "rebuild_rows env es s =
     (let rows = displayed_rows env s es
      in apply_diagnostic_grid_selection (s\<lparr>in_rows := rows, in_selected := ie_resize env (length rows) (in_selected s)\<rparr>))"

definition refresh_diagnostic_window :: "inspect_env \<Rightarrow> diagnostic_event list \<Rightarrow> bool \<Rightarrow> inspect \<Rightarrow> inspect" where
  "refresh_diagnostic_window env es allow_follow_up_post s =
     (if in_refreshing s then s
      else
        let follow_up_refresh = in_follow_up s;
            s1 = note_snapshot es (s\<lparr>in_refreshing := True, in_follow_up := False, in_direct_recorded := False\<rparr>);
            s2 = refresh_diagnostic_controls env es True (preserve_diagnostic_grid_selection es s1)
        in if \<not> in_list s2 then finish_diagnostic_refresh env False s2
           else
             let s3 = rebuild_rows env es s2;
                 s4 = (if follow_up_refresh then s3 else record_diagnostic_refresh_event s3);
                 s5 = s4\<lparr>in_layout_stable := True\<rparr>
             in finish_diagnostic_refresh env
                  (allow_follow_up_post \<and> diagnostic_follow_up_needed (in_direct_recorded s5) follow_up_refresh) s5)"

text \<open>The message that a request posts.\<close>

definition refresh_message :: "inspect_env \<Rightarrow> diagnostic_event list \<Rightarrow> inspect \<Rightarrow> inspect" where
  "refresh_message env es s =
     refresh_diagnostic_window env es True (s\<lparr>in_posted := in_posted s - 1, in_refresh_pending := False\<rparr>)"

section \<open>Copy and export\<close>

datatype native_action = NativeCompleted | NativeCancelled | NativeFailed u32

record native_failure =
  nf_stage :: string
  nf_raw_error :: u32

definition map_native_action :: "bool \<Rightarrow> u32 \<Rightarrow> native_action" where
  "map_native_action success raw_error = (if success then NativeCompleted else NativeFailed raw_error)"

definition map_save_dialog_result :: "int \<Rightarrow> u32 \<Rightarrow> native_action" where
  "map_save_dialog_result result extended_error =
     (if result \<noteq> 0 then NativeCompleted else if extended_error = 0 then NativeCancelled else NativeFailed extended_error)"

text \<open>The clipboard: open by this process, its content, and whether the process still owns the memory it
  allocated for it. Each call fails with an error number or succeeds.\<close>

record clipboard =
  cb_open :: bool
  cb_content :: "string option"
  cb_memory :: bool

record clipboard_calls =
  cc_open :: "u32 option"
  cc_empty :: "u32 option"
  cc_alloc :: "u32 option"
  cc_lock :: "u32 option"
  cc_set :: "u32 option"
  cc_close :: "u32 option"

definition close_clipboard :: "clipboard_calls \<Rightarrow> clipboard \<Rightarrow> clipboard" where
  "close_clipboard cc cb = (if cc_close cc = None then cb\<lparr>cb_open := False\<rparr> else cb)"

definition copy_tsv_to_clipboard :: "clipboard_calls \<Rightarrow> string \<Rightarrow> clipboard \<Rightarrow> (native_failure, unit) result \<times> clipboard" where
  "copy_tsv_to_clipboard cc text cb =
     (case cc_open cc of
        Some e \<Rightarrow> (Err \<lparr>nf_stage = ''OpenClipboard'', nf_raw_error = e\<rparr>, cb)
      | None \<Rightarrow>
          let cb = cb\<lparr>cb_open := True\<rparr> in
          (case cc_empty cc of
             Some e \<Rightarrow> (Err \<lparr>nf_stage = ''EmptyClipboard'', nf_raw_error = e\<rparr>, close_clipboard cc cb)
           | None \<Rightarrow>
               let cb = cb\<lparr>cb_content := None\<rparr> in
               (case cc_alloc cc of
                  Some e \<Rightarrow> (Err \<lparr>nf_stage = ''GlobalAlloc'', nf_raw_error = e\<rparr>, close_clipboard cc cb)
                | None \<Rightarrow>
                    let cb = cb\<lparr>cb_memory := True\<rparr> in
                    (case cc_lock cc of
                       Some e \<Rightarrow>
                         (Err \<lparr>nf_stage = ''GlobalLock'', nf_raw_error = e\<rparr>, close_clipboard cc (cb\<lparr>cb_memory := False\<rparr>))
                     | None \<Rightarrow>
                         (case cc_set cc of
                            Some e \<Rightarrow>
                              (Err \<lparr>nf_stage = ''SetClipboardData'', nf_raw_error = e\<rparr>,
                               close_clipboard cc (cb\<lparr>cb_memory := False\<rparr>))
                          | None \<Rightarrow>
                              let cb = cb\<lparr>cb_content := Some text, cb_memory := False\<rparr> in
                              (case cc_close cc of
                                 Some e \<Rightarrow> (Err \<lparr>nf_stage = ''CloseClipboard'', nf_raw_error = e\<rparr>, cb)
                               | None \<Rightarrow> (Ok (), cb\<lparr>cb_open := False\<rparr>)))))))"

record dialog_answer =
  da_result :: int
  da_error :: u32
  da_path :: string

definition choose_export_path :: "dialog_answer \<Rightarrow> (native_failure, string option) result" where
  "choose_export_path da =
     (case map_save_dialog_result (da_result da) (if da_result da = 0 then da_error da else 0) of
        NativeCompleted \<Rightarrow> Ok (Some (da_path da))
      | NativeCancelled \<Rightarrow> Ok None
      | NativeFailed e \<Rightarrow> Err \<lparr>nf_stage = ''GetSaveFileNameW'', nf_raw_error = e\<rparr>)"

datatype export_format = ExportCsv | ExportTsv

definition export_format_label :: "export_format \<Rightarrow> string" where
  "export_format_label f = (case f of ExportCsv \<Rightarrow> ''CSV'' | ExportTsv \<Rightarrow> ''TSV'')"

text \<open>\<open>Path::extension\<close>: what follows the last dot of the file name, unless only that dot begins it.\<close>

definition path_extension :: "string \<Rightarrow> string option" where
  "path_extension path =
     (let name = last (split_on (CHR 0x5C) (last (split_on (CHR ''/'') path)));
          parts = split_on (CHR ''.'') name
      in if name = ''..'' \<or> length parts < 2 \<or> length parts = 2 \<and> hd parts = [] then None else Some (last parts))"

definition export_format_for_path :: "string \<Rightarrow> export_format" where
  "export_format_for_path path =
     (if map_option to_ascii_lowercase (path_extension path) = Some ''tsv'' then ExportTsv else ExportCsv)"

definition format_export_rows :: "inspect_env \<Rightarrow> string list list \<Rightarrow> export_format \<Rightarrow> string" where
  "format_export_rows env rows f =
     (case f of ExportCsv \<Rightarrow> format_csv (ie_alphabetic env) rows | ExportTsv \<Rightarrow> format_tsv rows)"

record export_calls =
  ec_write :: "(int option \<times> nat) option"
  ec_move :: "u32 option"
  ec_remove :: bool

definition export_io_error :: "int option \<Rightarrow> u32" where
  "export_io_error raw = (case raw of None \<Rightarrow> 1 | Some e \<Rightarrow> if 0 \<le> e \<and> e < 2 ^ 32 then of_int e else 1)"

definition temporary_export :: "string \<Rightarrow> string" where
  "temporary_export path = path @ ''.tmp''"

definition drop_temporary :: "export_calls \<Rightarrow> string \<Rightarrow> (string \<Rightarrow> string option) \<Rightarrow> string \<Rightarrow> string option" where
  "drop_temporary ec path fs = (if ec_remove ec then fs(temporary_export path := None) else fs)"

definition write_export_tsv :: "export_calls \<Rightarrow> string \<Rightarrow> string \<Rightarrow> (string \<Rightarrow> string option)
    \<Rightarrow> (native_failure, unit) result \<times> (string \<Rightarrow> string option)" where
  "write_export_tsv ec path text fs =
     (case ec_write ec of
        Some (raw, written) \<Rightarrow>
          (Err \<lparr>nf_stage = ''write_temporary'', nf_raw_error = export_io_error raw\<rparr>,
           drop_temporary ec path (fs(temporary_export path := Some (take written text))))
      | None \<Rightarrow>
          let fs = fs(temporary_export path := Some text) in
          (case ec_move ec of
             Some e \<Rightarrow> (Err \<lparr>nf_stage = ''MoveFileExW'', nf_raw_error = e\<rparr>, drop_temporary ec path fs)
           | None \<Rightarrow> (Ok (), fs(path := Some text, temporary_export path := None))))"

datatype transfer_source = GridSelection | RangeSelection

definition diagnostic_transfer_source :: "nat \<Rightarrow> nat \<Rightarrow> transfer_source option" where
  "diagnostic_transfer_source grid_selection_count range_selection_count =
     (if 0 < grid_selection_count then Some GridSelection
      else if 0 < range_selection_count then Some RangeSelection else None)"

datatype toolbar_action = ActCopy | ActExport | ActExportAll | ActOther

record transfer_env =
  te_clipboard :: clipboard_calls
  te_dialog :: dialog_answer
  te_export :: export_calls

record transfer_world =
  tf_clipboard :: clipboard
  tf_files :: "string \<Rightarrow> string option"

text \<open>The rows an action works on, with the selection it leaves; an error is the message it shows.\<close>

definition transfer_rows :: "inspect_env \<Rightarrow> diagnostic_event list \<Rightarrow> inspect
    \<Rightarrow> (string, transfer_source \<times> string list list) result \<times> inspect" where
  "transfer_rows env es s =
     (let grid = selected_event_sequences_for_sequences es (in_grid_sequences s) in
      if grid \<noteq> [] then (Ok (GridSelection, diagnostic_grid_rows_for_sequences es grid), s)
      else case parse_row_selection (ie_range env) (length es) of
        Inl e \<Rightarrow> (Err (''Invalid range: '' @ row_selection_message e), s)
      | Inr sel \<Rightarrow>
          if selection_is_empty sel then (Err ''No retained events.'', s)
          else (Ok (RangeSelection, diagnostic_grid_rows es sel),
                s\<lparr>in_selection := Some sel, in_sequences := Some (selected_event_sequences es sel), in_selection_reset := False\<rparr>))"

definition set_message :: "string \<Rightarrow> inspect \<Rightarrow> inspect" where
  "set_message m s = s\<lparr>in_message := m\<rparr>"

definition export_rows :: "inspect_env \<Rightarrow> transfer_env \<Rightarrow> string \<Rightarrow> string list list \<Rightarrow> inspect \<times> transfer_world
    \<Rightarrow> inspect \<times> transfer_world" where
  "export_rows env te counted rows sw =
     (case sw of (s, w) \<Rightarrow>
        (case choose_export_path (te_dialog te) of
           Inl f \<Rightarrow> (noted env 4 (set_message (''Export dialog failed (native error '' @ dec (unat (nf_raw_error f)) @ '').'') s), w)
         | Inr None \<Rightarrow> (noted env 4 (set_message ''Export cancelled.'' s), w)
         | Inr (Some path) \<Rightarrow>
             let f = export_format_for_path path in
             (case write_export_tsv (te_export te) path (format_export_rows env rows f) (tf_files w) of
                (Inr _, fs) \<Rightarrow>
                  (noted env 3 (set_message (counted @ dec (length rows) @ '' rows as '' @ export_format_label f @ ''.'') s),
                   w\<lparr>tf_files := fs\<rparr>)
              | (Inl e, fs) \<Rightarrow>
                  (noted env 4 (set_message (''Export failed (native error '' @ dec (unat (nf_raw_error e)) @ '').'') s),
                   w\<lparr>tf_files := fs\<rparr>))))"

definition export_all_rows :: "inspect_env \<Rightarrow> transfer_env \<Rightarrow> diagnostic_event list \<Rightarrow> inspect \<times> transfer_world
    \<Rightarrow> inspect \<times> transfer_world" where
  "export_all_rows env te es sw =
     export_rows env te ''Exported all '' (diagnostic_grid_rows es (selection_all (length es))) sw"

definition diagnostic_toolbar_action :: "inspect_env \<Rightarrow> transfer_env \<Rightarrow> diagnostic_event list \<Rightarrow> toolbar_action
    \<Rightarrow> inspect \<times> transfer_world \<Rightarrow> inspect \<times> transfer_world" where
  "diagnostic_toolbar_action env te es action sw =
     (case sw of (s, w) \<Rightarrow>
        (case transfer_rows env es s of
           (Inl m, s) \<Rightarrow> (noted env 3 (set_message m s), w)
         | (Inr (source, rows), s) \<Rightarrow>
             let s = noted env 1 s in
             (case action of
                ActCopy \<Rightarrow>
                  (case copy_tsv_to_clipboard (te_clipboard te) (format_tsv rows) (tf_clipboard w) of
                     (Inr _, cb) \<Rightarrow>
                       (noted env 3 (set_message (''Copied '' @ dec (length rows) @ '' rows as TSV.'') s),
                        w\<lparr>tf_clipboard := cb\<rparr>)
                   | (Inl f, cb) \<Rightarrow>
                       (noted env 4 (set_message (''Copy failed (native error '' @ dec (unat (nf_raw_error f)) @ '').'') s),
                        w\<lparr>tf_clipboard := cb\<rparr>))
              | ActExport \<Rightarrow> export_rows env te ''Exported '' rows (s, w)
              | ActExportAll \<Rightarrow> export_all_rows env te es (s, w)
              | ActOther \<Rightarrow> (noted env 2 s, w))))"

section \<open>The window\<close>

definition diagnostic_ui_new :: inspect where
  "diagnostic_ui_new =
     \<lparr>in_window = False, in_list = False, in_selection = None, in_sequences = None, in_grid_sequences = [],
      in_grid_reset = False, in_selection_reset = False, in_display_limit = 100, in_display_all = False,
      in_category = None, in_search = [], in_message = [], in_summary = [], in_actions_enabled = False,
      in_refresh_pending = False, in_refreshing = False, in_direct_recorded = False, in_follow_up = False,
      in_layout_stable = False, in_snapshot_key = None, in_generation = 0, in_fitted = None, in_rows = [],
      in_selected = [], in_initializing = False, in_attempts = 0, in_posted = 0\<rparr>"

text \<open>
  What the destruction of the window leaves. The row limit is not reset. The texts and the selection of the
  controls and a message posted to the window go with the window.
\<close>

definition clear_diagnostic_state :: "inspect \<Rightarrow> inspect" where
  "clear_diagnostic_state s =
     s\<lparr>in_window := False, in_list := False, in_selection := None, in_sequences := None, in_grid_sequences := [],
       in_grid_reset := False, in_selection_reset := False, in_category := None, in_search := [], in_message := [],
       in_summary := [], in_actions_enabled := False, in_refresh_pending := False, in_refreshing := False,
       in_direct_recorded := False, in_follow_up := False, in_layout_stable := False, in_snapshot_key := None,
       in_generation := 0, in_fitted := None, in_rows := [], in_selected := [], in_initializing := False,
       in_posted := 0\<rparr>"

record open_calls =
  oc_alive :: bool
  oc_children :: bool
  oc_created :: bool
  oc_title :: bool
  oc_created_children :: bool
  oc_layout :: bool

definition open_diagnostic_window :: "inspect_env \<Rightarrow> open_calls \<Rightarrow> diagnostic_event list \<Rightarrow> inspect \<Rightarrow> bool \<times> inspect" where
  "open_diagnostic_window env oc es s =
     (if in_window s \<and> oc_alive oc \<and> oc_children oc then (True, request_diagnostic_refresh env s)
      else
        let s0 = (if in_window s then clear_diagnostic_state s else s) in
        if \<not> oc_created oc then (False, clear_diagnostic_state s0)
        else if \<not> oc_title oc \<or> \<not> oc_created_children oc \<or> \<not> oc_layout oc then (False, clear_diagnostic_state s0)
        else (True, request_diagnostic_refresh env
               (noted env 2 (refresh_diagnostic_window env es False (s0\<lparr>in_window := True, in_list := True\<rparr>)))))"

datatype list_notice = DispInfo nat nat | ItemChanged bool | KeyDown bool char | OtherNotice

definition handle_diagnostic_notify :: "inspect_env \<Rightarrow> transfer_env \<Rightarrow> diagnostic_event list \<Rightarrow> list_notice
    \<Rightarrow> inspect \<times> transfer_world \<Rightarrow> bool \<times> inspect \<times> transfer_world" where
  "handle_diagnostic_notify env te es notice sw =
     (case sw of (s, w) \<Rightarrow>
        (case notice of
           DispInfo _ _ \<Rightarrow> (True, s, w)
         | ItemChanged selection_changed \<Rightarrow>
             if in_refreshing s then (False, s, w)
             else (True, if selection_changed then update_diagnostic_grid_selection es s else s, w)
         | KeyDown control key \<Rightarrow>
             if in_refreshing s then (False, s, w)
             else if control \<and> key = CHR ''C'' then (True, diagnostic_toolbar_action env te es ActCopy (s, w))
             else if control \<and> key = CHR ''A'' then (True, select_all_diagnostic_rows es s, w)
             else (True, s, w)
         | OtherNotice \<Rightarrow> (False, s, w)))"

datatype window_command = CmdDisplay | CmdShowAll | CmdCategory int | CmdSearch | CmdRange | CmdAction toolbar_action

definition diagnostic_command :: "inspect_env \<Rightarrow> transfer_env \<Rightarrow> diagnostic_event list \<Rightarrow> window_command
    \<Rightarrow> inspect \<times> transfer_world \<Rightarrow> inspect \<times> transfer_world" where
  "diagnostic_command env te es command sw =
     (case sw of (s, w) \<Rightarrow>
        if in_initializing s \<and> command \<in> {CmdDisplay, CmdSearch, CmdRange} then (s, w)
        else case command of
          CmdDisplay \<Rightarrow> (diagnostic_display_changed env s, w)
        | CmdShowAll \<Rightarrow> (diagnostic_show_all env s, w)
        | CmdCategory index \<Rightarrow> (diagnostic_category_filter_changed env index s, w)
        | CmdSearch \<Rightarrow> (diagnostic_search_changed env s, w)
        | CmdRange \<Rightarrow> (diagnostic_range_changed env es s, w)
        | CmdAction action \<Rightarrow> diagnostic_toolbar_action env te es action (s, w))"

text \<open>
  The messages of the window and what else reaches its state: an event recorded by another part of the tray,
  a choice of the menu that opens it, and rows the user clicks, which change the selected positions first.
\<close>

datatype window_input =
  InOpen open_calls | InCommand window_command | InNotice list_notice | InClick "nat list"
  | InRecorded nat | InRefresh | InFocus | InClose

definition diagnostic_window_proc :: "inspect_env \<Rightarrow> transfer_env \<Rightarrow> diagnostic_event list \<Rightarrow> window_input
    \<Rightarrow> inspect \<times> transfer_world \<Rightarrow> inspect \<times> transfer_world" where
  "diagnostic_window_proc env te es input sw =
     (case sw of (s, w) \<Rightarrow>
        (case input of
           InOpen oc \<Rightarrow> (snd (open_diagnostic_window env oc es s), w)
         | InRecorded n \<Rightarrow> (noted env n s, w)
         | InCommand command \<Rightarrow> if in_window s then diagnostic_command env te es command (s, w) else (s, w)
         | InNotice notice \<Rightarrow> if in_window s then snd (handle_diagnostic_notify env te es notice (s, w)) else (s, w)
         | InClick ps \<Rightarrow>
             if in_window s then snd (handle_diagnostic_notify env te es (ItemChanged True) (s\<lparr>in_selected := ps\<rparr>, w)) else (s, w)
         | InRefresh \<Rightarrow> if 0 < in_posted s then (refresh_message env es s, w) else (s, w)
         | InFocus \<Rightarrow> if in_window s then (request_diagnostic_refresh env s, w) else (s, w)
         | InClose \<Rightarrow> (clear_diagnostic_state s, w)))"

inductive inspect_reachable :: "inspect \<times> transfer_world \<Rightarrow> bool" where
  inspect_start: "inspect_reachable (diagnostic_ui_new, w)"
| inspect_step: "inspect_reachable sw \<Longrightarrow> inspect_reachable (diagnostic_window_proc env te es input sw)"

section \<open>Refreshes\<close>

text \<open>Between two messages no refresh runs, a refresh is marked as waiting exactly when its message is posted,
  no second message is ever posted, and the row limit and the row buffer are in their bounds.\<close>

definition inspect_ok :: "inspect \<Rightarrow> bool" where
  "inspect_ok s \<longleftrightarrow> \<not> in_refreshing s \<and> in_posted s = (if in_refresh_pending s then 1 else 0)
     \<and> (in_refresh_pending s \<longrightarrow> in_window s)
     \<and> 0 < in_display_limit s \<and> in_display_limit s \<le> HARD_MAX_EVENTS \<and> length (in_rows s) \<le> EVENT_BUFFER_CAP"

text \<open>While a refresh runs, its message is consumed; a request is only noted.\<close>

definition inspect_mid :: "inspect \<Rightarrow> bool" where
  "inspect_mid s \<longleftrightarrow> in_refreshing s \<and> in_posted s = 0 \<and> 0 < in_display_limit s \<and> in_display_limit s \<le> HARD_MAX_EVENTS
     \<and> length (in_rows s) \<le> EVENT_BUFFER_CAP"

text \<open>The part of the state these two read.\<close>

definition in_view :: "inspect \<Rightarrow> bool \<times> nat \<times> bool \<times> bool \<times> nat \<times> string list list" where
  "in_view s = (in_refreshing s, in_posted s, in_refresh_pending s, in_window s, in_display_limit s, in_rows s)"

lemma in_view_ok: "in_view s = in_view t \<Longrightarrow> inspect_ok t \<Longrightarrow> inspect_ok s"
  by (simp add: in_view_def inspect_ok_def)

lemma in_view_ok_eq: "in_view s = in_view t \<Longrightarrow> inspect_ok s = inspect_ok t"
  using in_view_ok [of s t] in_view_ok [of t s] by auto

lemma in_view_mid: "in_view s = in_view t \<Longrightarrow> inspect_mid t \<Longrightarrow> inspect_mid s"
  by (simp add: in_view_def inspect_mid_def)

lemma selection_view [simp]:
  "in_view (set_selection_summary n s) = in_view s" "in_view (set_action_enabled b s) = in_view s"
  "in_view (clear_limit_message s) = in_view s" "in_view (set_message m s) = in_view s"
  "in_view (record_diagnostic_refresh_event s) = in_view s" "in_view (parse_range_into input es s) = in_view s"
  "in_view (update_diagnostic_grid_selection es s) = in_view s"
  "in_view (preserve_diagnostic_grid_selection es s) = in_view s"
  "in_view (select_all_diagnostic_rows es s) = in_view s" "in_view (apply_diagnostic_grid_selection s) = in_view s"
  "in_view (note_snapshot es s) = in_view s" "in_view (snd (transfer_rows env es s)) = in_view s"
  by (simp_all add: in_view_def set_selection_summary_def set_action_enabled_def clear_limit_message_def
      set_message_def record_diagnostic_refresh_event_def parse_range_into_def update_diagnostic_grid_selection_def
      preserve_diagnostic_grid_selection_def select_all_diagnostic_rows_def apply_diagnostic_grid_selection_def
      note_snapshot_def transfer_rows_def Let_def split: sum.split)

lemma request_refresh_ok [intro]: "inspect_ok s \<Longrightarrow> inspect_ok (request_diagnostic_refresh env s)"
  by (auto simp: inspect_ok_def request_diagnostic_refresh_def diagnostic_refresh_is_coalesced_def)

lemma request_mid [intro]: "inspect_mid s \<Longrightarrow> inspect_mid (request_diagnostic_refresh env s)"
  by (auto simp: inspect_mid_def request_diagnostic_refresh_def diagnostic_refresh_is_coalesced_def)

lemma noted_ok [intro]: "inspect_ok s \<Longrightarrow> inspect_ok (noted env n s)"
  unfolding noted_def by (induction n) auto

lemma controls_view:
  "\<exists>t. in_view t = in_view s \<and> in_view (refresh_diagnostic_controls env es preserve s)
     \<in> {in_view t, in_view (request_diagnostic_refresh env t)}"
proof -
  let ?u = "record_diagnostic_refresh_event
    ((set_action_enabled (in_grid_sequences s \<noteq> []) (set_selection_summary (length es)
       (s\<lparr>in_selection := None, in_sequences := None, in_selection_reset := True\<rparr>)))
     \<lparr>in_message := ''Selection reset: selected rows are no longer retained.''\<rparr>)"
  have plain: "in_view (s\<lparr>in_selection := x\<rparr>) = in_view s" for x by (simp add: in_view_def)
  have u: "in_view ?u = in_view s" by (simp add: in_view_def set_action_enabled_def set_selection_summary_def
      record_diagnostic_refresh_event_def)
  have "in_view (refresh_diagnostic_controls env es preserve s)
      \<in> {in_view s, in_view (request_diagnostic_refresh env ?u)}"
    by (simp add: refresh_diagnostic_controls_def Let_def plain set_selection_summary_def [of _ "s\<lparr>in_selection := None,
       in_sequences := None, in_selection_reset := True\<rparr>"] split: option.split)
  then show ?thesis by (intro exI [of _ ?u]) (simp only: u simp_thms)
qed

lemma controls_mid: "inspect_mid s \<Longrightarrow> inspect_mid (refresh_diagnostic_controls env es preserve s)"
  using controls_view [of s env es preserve] in_view_mid request_mid by (metis insertE singletonD)

lemma controls_ok: "inspect_ok s \<Longrightarrow> inspect_ok (refresh_diagnostic_controls env es preserve s)"
  using controls_view [of s env es preserve] in_view_ok request_refresh_ok by (metis insertE singletonD)

text \<open>The row buffer keeps the newest rows.\<close>

lemma buffer_fold:
  assumes "length buf \<le> EVENT_BUFFER_CAP"
  shows "fold buffer_push rows buf = drop (length buf + length rows - EVENT_BUFFER_CAP) (buf @ rows)"
  using assms
proof (induction rows arbitrary: buf)
  case (Cons row rows)
  have "length (buffer_push row buf) \<le> EVENT_BUFFER_CAP"
    using Cons.prems by (auto simp: buffer_push_def EVENT_BUFFER_CAP_def)
  note step = Cons.IH [OF this]
  show ?case
  proof (cases "length buf < EVENT_BUFFER_CAP")
    case True
    then show ?thesis using step by (simp add: buffer_push_def)
  next
    case False
    then have "length buf = EVENT_BUFFER_CAP" "buf \<noteq> []" using Cons.prems by (auto simp: EVENT_BUFFER_CAP_def)
    then show ?thesis using step by (cases buf) (simp_all add: buffer_push_def)
  qed
qed simp

lemma displayed_rows_drop:
  "displayed_rows env s es = (let rows = map (\<lambda>(i, e). diagnostic_grid_row (i + 1) e)
       (enumerate 0 (diagnostic_filtered_visible_events env s es)) in drop (length rows - EVENT_BUFFER_CAP) rows)"
  by (simp add: displayed_rows_def buffer_fold Let_def)

lemma displayed_bound: "length (displayed_rows env s es) \<le> EVENT_BUFFER_CAP"
  by (simp add: displayed_rows_drop Let_def)

lemma rebuild_mid: "inspect_mid s \<Longrightarrow> inspect_mid (rebuild_rows env es s)"
  using displayed_bound [of env s es]
  by (simp add: rebuild_rows_def Let_def inspect_mid_def apply_diagnostic_grid_selection_def)

lemma finish_mid: "inspect_mid s \<Longrightarrow> inspect_ok (finish_diagnostic_refresh env b s)"
  by (auto simp: finish_diagnostic_refresh_def inspect_mid_def inspect_ok_def Let_def request_diagnostic_refresh_def
      diagnostic_refresh_is_coalesced_def)

lemma refresh_begin: "inspect_mid s \<Longrightarrow> inspect_mid (refresh_diagnostic_controls env es True
    (preserve_diagnostic_grid_selection es (note_snapshot es s)))"
  by (rule controls_mid) (erule in_view_mid [rotated], simp)

lemma refresh_ok:
  assumes "inspect_ok s" "\<not> in_refresh_pending s"
  shows "inspect_ok (refresh_diagnostic_window env es allow s)"
proof -
  let ?s = "s\<lparr>in_refreshing := True, in_follow_up := False, in_direct_recorded := False\<rparr>"
  let ?t = "refresh_diagnostic_controls env es True (preserve_diagnostic_grid_selection es (note_snapshot es ?s))"
  have "inspect_mid ?s" using assms by (simp add: inspect_ok_def inspect_mid_def)
  then have t: "inspect_mid ?t" by (rule refresh_begin)
  have stable: "inspect_mid (x\<lparr>in_layout_stable := True\<rparr>) = inspect_mid x" for x by (simp add: inspect_mid_def)
  have rec: "inspect_mid (record_diagnostic_refresh_event x) = inspect_mid x" for x
    by (simp add: inspect_mid_def record_diagnostic_refresh_event_def)
  show ?thesis
    using assms(1) t by (simp add: refresh_diagnostic_window_def Let_def finish_mid stable rec rebuild_mid)
qed

lemma refresh_message_ok: "inspect_ok s \<Longrightarrow> inspect_ok (refresh_message env es s)"
  unfolding refresh_message_def by (rule refresh_ok) (auto simp: inspect_ok_def)

lemma clear_ok: "inspect_ok s \<Longrightarrow> inspect_ok (clear_diagnostic_state s)"
  by (simp add: inspect_ok_def clear_diagnostic_state_def)

lemma parsed_limit_bounds: "parse_display_limit input = Ok n \<Longrightarrow> 0 < n \<and> n \<le> HARD_MAX_EVENTS"
  by (auto simp: parse_display_limit_def Let_def split: if_splits option.splits)

lemma limit_decision_bounds: "display_limit_input_decision input = ApplyLimit n \<Longrightarrow> 0 < n \<and> n \<le> HARD_MAX_EVENTS"
  by (auto simp: display_limit_input_decision_def parsed_limit_bounds split: if_splits sum.splits)

text \<open>Two states that differ in what the window remembers of a selection or a filter only.\<close>

lemma ok_unaffected:
  "inspect_ok (s\<lparr>in_selection := a, in_sequences := b, in_selection_reset := c\<rparr>) = inspect_ok s"
  "inspect_ok (s\<lparr>in_message := m\<rparr>) = inspect_ok s" "inspect_ok (s\<lparr>in_display_all := d\<rparr>) = inspect_ok s"
  "inspect_ok (s\<lparr>in_category := k\<rparr>) = inspect_ok s" "inspect_ok (s\<lparr>in_search := x\<rparr>) = inspect_ok s"
  "inspect_ok (s\<lparr>in_selected := ps\<rparr>) = inspect_ok s"
  "inspect_ok (clear_limit_message s) = inspect_ok s" "inspect_ok (set_message m s) = inspect_ok s"
  "inspect_ok (update_diagnostic_grid_selection es s) = inspect_ok s"
  "inspect_ok (select_all_diagnostic_rows es s) = inspect_ok s"
  "inspect_ok (snd (transfer_rows env es s)) = inspect_ok s"
  by (simp_all add: inspect_ok_def)[6] (rule in_view_ok_eq, rule selection_view)+

lemma edits_ok:
  assumes "inspect_ok s"
  shows "inspect_ok (diagnostic_range_changed env es s)" "inspect_ok (diagnostic_display_changed env s)"
    "inspect_ok (diagnostic_show_all env s)" "inspect_ok (diagnostic_category_filter_changed env index s)"
    "inspect_ok (diagnostic_search_changed env s)"
proof -
  have limit: "inspect_ok (s\<lparr>in_display_limit := n, in_display_all := False\<rparr>)" if "0 < n" "n \<le> HARD_MAX_EVENTS" for n
    using assms that by (simp add: inspect_ok_def)
  show "inspect_ok (diagnostic_range_changed env es s)"
    unfolding diagnostic_range_changed_def
    by (rule controls_ok) (auto simp: ok_unaffected assms split: sum.split)
  show "inspect_ok (diagnostic_display_changed env s)"
    using assms limit_decision_bounds
    by (auto simp: diagnostic_display_changed_def ok_unaffected intro!: limit split: display_limit_decision.split)
  show "inspect_ok (diagnostic_show_all env s)" "inspect_ok (diagnostic_category_filter_changed env index s)"
    "inspect_ok (diagnostic_search_changed env s)"
    using assms by (auto simp: diagnostic_show_all_def diagnostic_category_filter_changed_def diagnostic_search_changed_def
        ok_unaffected intro!: request_refresh_ok noted_ok)
qed

lemma export_rows_ok: "inspect_ok s \<Longrightarrow> inspect_ok (fst (export_rows env te counted rows (s, w)))"
  by (auto simp: export_rows_def Let_def ok_unaffected split: sum.split option.split prod.split)

lemma toolbar_ok:
  assumes "inspect_ok s"
  shows "inspect_ok (fst (diagnostic_toolbar_action env te es action (s, w)))"
proof (cases "transfer_rows env es s")
  case (Pair r t)
  have "inspect_ok t" using assms ok_unaffected(11) [of env es s] by (simp add: Pair)
  then show ?thesis
    by (auto simp: diagnostic_toolbar_action_def export_all_rows_def Pair Let_def ok_unaffected intro!: export_rows_ok noted_ok
        split: sum.split toolbar_action.split prod.split)
qed

lemma notify_ok: "inspect_ok s \<Longrightarrow> inspect_ok (fst (snd (handle_diagnostic_notify env te es notice (s, w))))"
  by (auto simp: handle_diagnostic_notify_def ok_unaffected toolbar_ok split: list_notice.split)

lemma command_ok: "inspect_ok s \<Longrightarrow> inspect_ok (fst (diagnostic_command env te es command (s, w)))"
  by (auto simp: diagnostic_command_def edits_ok toolbar_ok split: window_command.split)

lemma open_ok:
  assumes "inspect_ok s"
  shows "inspect_ok (snd (open_diagnostic_window env oc es s))"
proof -
  define s0 where "s0 = (if in_window s then clear_diagnostic_state s else s)"
  have s0: "inspect_ok s0" "\<not> in_window s0" using assms clear_ok by (simp_all add: s0_def clear_diagnostic_state_def)
  then have "inspect_ok (s0\<lparr>in_window := True, in_list := True\<rparr>)" "\<not> in_refresh_pending (s0\<lparr>in_window := True, in_list := True\<rparr>)"
    by (auto simp: inspect_ok_def)
  then have "inspect_ok (refresh_diagnostic_window env es False (s0\<lparr>in_window := True, in_list := True\<rparr>))"
    by (rule refresh_ok)
  then have "inspect_ok (request_diagnostic_refresh env
      (noted env 2 (refresh_diagnostic_window env es False (s0\<lparr>in_window := True, in_list := True\<rparr>))))"
    by (intro request_refresh_ok noted_ok)
  then show ?thesis using assms clear_ok [OF s0(1)] request_refresh_ok
    by (simp add: open_diagnostic_window_def flip: s0_def)
qed

lemma window_proc_ok: "inspect_ok (fst sw) \<Longrightarrow> inspect_ok (fst (diagnostic_window_proc env te es input sw))"
  by (cases sw) (auto simp: diagnostic_window_proc_def open_ok refresh_message_ok clear_ok ok_unaffected
      intro!: command_ok notify_ok split: window_input.split)

lemma new_ok: "inspect_ok diagnostic_ui_new"
  by (simp add: inspect_ok_def diagnostic_ui_new_def HARD_MAX_EVENTS_def)

lemma reachable_ok: "inspect_reachable sw \<Longrightarrow> inspect_ok (fst sw)"
  by (induction rule: inspect_reachable.induct)
     (simp_all add: window_proc_ok new_ok)

text \<open>The posted messages handled one after the other, each on the snapshot it finds, and nothing else happening.\<close>

primrec settle :: "inspect_env \<Rightarrow> (nat \<Rightarrow> diagnostic_event list) \<Rightarrow> nat \<Rightarrow> inspect \<Rightarrow> inspect" where
  "settle env snapshots 0 s = s"
| "settle env snapshots (Suc n) s =
     (if 0 < in_posted s then settle env snapshots n (refresh_message env (snapshots n) s) else s)"

definition range_is_all :: "inspect_env \<Rightarrow> bool" where
  "range_is_all env \<longleftrightarrow> trim (ie_range env) = [] \<or> to_ascii_lowercase (trim (ie_range env)) = ''all''"

text \<open>How many messages may still follow: a second pass after a first one, and the two passes after the range
  selection is found to be gone, which happens once.\<close>

definition refresh_work :: "inspect_env \<Rightarrow> inspect \<Rightarrow> nat" where
  "refresh_work env s =
     (if in_posted s = 0 then 0
      else 1 + (if in_follow_up s then 0 else 1) + (if in_selection_reset s \<or> range_is_all env then 0 else 2))"

lemma plain_steps:
  "in_follow_up (set_selection_summary n s) = in_follow_up s" "in_follow_up (set_action_enabled b s) = in_follow_up s"
  "in_follow_up (record_diagnostic_refresh_event s) = in_follow_up s"
  "in_follow_up (parse_range_into input es s) = in_follow_up s"
  "in_follow_up (preserve_diagnostic_grid_selection es s) = in_follow_up s"
  "in_follow_up (note_snapshot es s) = in_follow_up s" "in_follow_up (rebuild_rows env es s) = in_follow_up s"
  "in_selection_reset (set_selection_summary n s) = in_selection_reset s"
  "in_selection_reset (set_action_enabled b s) = in_selection_reset s"
  "in_selection_reset (record_diagnostic_refresh_event s) = in_selection_reset s"
  "in_selection_reset (preserve_diagnostic_grid_selection es s) = in_selection_reset s"
  "in_selection_reset (note_snapshot es s) = in_selection_reset s"
  "in_selection_reset (rebuild_rows env es s) = in_selection_reset s"
  "in_list (set_selection_summary n s) = in_list s" "in_list (set_action_enabled b s) = in_list s"
  "in_list (record_diagnostic_refresh_event s) = in_list s" "in_list (parse_range_into input es s) = in_list s"
  "in_list (preserve_diagnostic_grid_selection es s) = in_list s" "in_list (note_snapshot es s) = in_list s"
  "in_list (rebuild_rows env es s) = in_list s"
  by (simp_all add: set_selection_summary_def set_action_enabled_def record_diagnostic_refresh_event_def
      parse_range_into_def preserve_diagnostic_grid_selection_def note_snapshot_def rebuild_rows_def
      apply_diagnostic_grid_selection_def Let_def split: sum.split)

lemma view_pending:
  assumes "in_view s = in_view t"
  shows "in_refresh_pending s = in_refresh_pending t" "in_refreshing s = in_refreshing t"
  using assms by (simp_all add: in_view_def)

lemmas pending_steps = view_pending [OF selection_view(1)] view_pending [OF selection_view(2)]
  view_pending [OF selection_view(5)] view_pending [OF selection_view(6)] view_pending [OF selection_view(8)]
  view_pending [OF selection_view(11)]

lemma request_follow [simp]:
  "in_follow_up (request_diagnostic_refresh env s) = in_follow_up s"
  "in_selection_reset (request_diagnostic_refresh env s) = in_selection_reset s"
  "in_list (request_diagnostic_refresh env s) = in_list s"
  by (simp_all add: request_diagnostic_refresh_def)

lemma controls_follow:
  "in_follow_up (refresh_diagnostic_controls env es True s) = in_follow_up s"
  "in_list (refresh_diagnostic_controls env es True s) = in_list s"
  by (auto simp: refresh_diagnostic_controls_def Let_def plain_steps split: option.split)

lemma controls_reset:
  assumes "in_refreshing s" "\<not> in_refresh_pending s"
  shows "in_refresh_pending (refresh_diagnostic_controls env es True s)
    \<Longrightarrow> \<not> in_selection_reset s \<and> \<not> range_is_all env \<and> in_selection_reset (refresh_diagnostic_controls env es True s)"
    "in_selection_reset s \<Longrightarrow> in_selection_reset (refresh_diagnostic_controls env es True s)"
  using assms by (auto simp: refresh_diagnostic_controls_def Let_def plain_steps pending_steps range_is_all_def
      split: option.splits if_splits)

lemma finish_work:
  assumes "inspect_mid s" "\<not> in_follow_up s"
  shows "refresh_work env (finish_diagnostic_refresh env b s)
    \<le> (if in_refresh_pending s \<or> b
       then 1 + (if b then 0 else 1) + (if in_selection_reset s \<or> range_is_all env then 0 else 2) else 0)"
  using assms by (simp add: refresh_work_def finish_diagnostic_refresh_def inspect_mid_def Let_def
      request_diagnostic_refresh_def diagnostic_refresh_is_coalesced_def)

text \<open>The state of a refresh before its rows are rebuilt, and after.\<close>

definition refresh_prepared :: "inspect_env \<Rightarrow> diagnostic_event list \<Rightarrow> inspect \<Rightarrow> inspect" where
  "refresh_prepared env es s = refresh_diagnostic_controls env es True (preserve_diagnostic_grid_selection es
     (note_snapshot es (s\<lparr>in_refreshing := True, in_follow_up := False, in_direct_recorded := False\<rparr>)))"

definition refresh_rebuilt :: "inspect_env \<Rightarrow> diagnostic_event list \<Rightarrow> inspect \<Rightarrow> inspect" where
  "refresh_rebuilt env es s =
     (let t = rebuild_rows env es (refresh_prepared env es s)
      in (if in_follow_up s then t else record_diagnostic_refresh_event t)\<lparr>in_layout_stable := True\<rparr>)"

lemma refresh_window_stages:
  assumes "\<not> in_refreshing s"
  shows "refresh_diagnostic_window env es allow s =
    (if in_list s
     then finish_diagnostic_refresh env (allow \<and> in_direct_recorded (refresh_rebuilt env es s) \<and> \<not> in_follow_up s)
            (refresh_rebuilt env es s)
     else finish_diagnostic_refresh env False (refresh_prepared env es s))"
  using assms by (simp add: refresh_diagnostic_window_def refresh_rebuilt_def refresh_prepared_def Let_def
      diagnostic_follow_up_needed_def controls_follow plain_steps)

lemma prepared_state:
  assumes "inspect_ok s" "\<not> in_refresh_pending s"
  shows "inspect_mid (refresh_prepared env es s)" "\<not> in_follow_up (refresh_prepared env es s)"
    "in_list (refresh_prepared env es s) = in_list s"
    "in_refresh_pending (refresh_prepared env es s)
       \<Longrightarrow> \<not> in_selection_reset s \<and> \<not> range_is_all env \<and> in_selection_reset (refresh_prepared env es s)"
    "in_selection_reset s \<Longrightarrow> in_selection_reset (refresh_prepared env es s)"
proof -
  let ?s = "s\<lparr>in_refreshing := True, in_follow_up := False, in_direct_recorded := False\<rparr>"
  let ?t = "preserve_diagnostic_grid_selection es (note_snapshot es ?s)"
  have t: "in_refreshing ?t" "\<not> in_refresh_pending ?t" "in_selection_reset ?t = in_selection_reset s"
    using assms by (simp_all add: pending_steps plain_steps)
  have "inspect_mid ?s" using assms by (simp add: inspect_ok_def inspect_mid_def)
  then show "inspect_mid (refresh_prepared env es s)" unfolding refresh_prepared_def by (rule refresh_begin)
  show "\<not> in_follow_up (refresh_prepared env es s)" "in_list (refresh_prepared env es s) = in_list s"
    by (simp_all add: refresh_prepared_def controls_follow plain_steps)
  show "\<not> in_selection_reset s \<and> \<not> range_is_all env \<and> in_selection_reset (refresh_prepared env es s)"
    if "in_refresh_pending (refresh_prepared env es s)"
    using controls_reset(1) [OF t(1,2)] that t(3) by (simp add: refresh_prepared_def)
  show "in_selection_reset (refresh_prepared env es s)" if "in_selection_reset s"
    using controls_reset(2) [OF t(1,2)] that t(3) by (simp add: refresh_prepared_def)
qed

lemma rebuilt_state:
  assumes "inspect_ok s" "\<not> in_refresh_pending s"
  shows "inspect_mid (refresh_rebuilt env es s)" "\<not> in_follow_up (refresh_rebuilt env es s)"
    "in_refresh_pending (refresh_rebuilt env es s) = in_refresh_pending (refresh_prepared env es s)"
    "in_selection_reset (refresh_rebuilt env es s) = in_selection_reset (refresh_prepared env es s)"
    "\<not> in_follow_up s \<Longrightarrow> in_direct_recorded (refresh_rebuilt env es s)"
    "in_rows (refresh_rebuilt env es s) = displayed_rows env (refresh_prepared env es s) es"
proof -
  let ?p = "refresh_prepared env es s"
  have mid: "inspect_mid (rebuild_rows env es ?p)" by (rule rebuild_mid [OF prepared_state(1) [OF assms]])
  then show "inspect_mid (refresh_rebuilt env es s)"
    by (simp add: refresh_rebuilt_def inspect_mid_def record_diagnostic_refresh_event_def Let_def)
  show "\<not> in_follow_up (refresh_rebuilt env es s)"
    using prepared_state(2) [OF assms] by (simp add: refresh_rebuilt_def plain_steps Let_def)
  show "in_refresh_pending (refresh_rebuilt env es s) = in_refresh_pending ?p"
    "in_selection_reset (refresh_rebuilt env es s) = in_selection_reset ?p"
    "in_rows (refresh_rebuilt env es s) = displayed_rows env ?p es"
    by (simp_all add: refresh_rebuilt_def rebuild_rows_def apply_diagnostic_grid_selection_def
        record_diagnostic_refresh_event_def Let_def)
  show "in_direct_recorded (refresh_rebuilt env es s)" if "\<not> in_follow_up s"
    using that mid by (simp add: refresh_rebuilt_def record_diagnostic_refresh_event_def inspect_mid_def Let_def)
qed

lemma message_state:
  assumes "inspect_ok s"
  shows "inspect_ok (s\<lparr>in_posted := in_posted s - 1, in_refresh_pending := False\<rparr>)"
  using assms by (auto simp: inspect_ok_def)

lemma refresh_work_less:
  assumes "inspect_ok s" "0 < in_posted s"
  shows "refresh_work env (refresh_message env es s) < refresh_work env s"
proof -
  define m where "m = s\<lparr>in_posted := in_posted s - 1, in_refresh_pending := False\<rparr>"
  have ok: "inspect_ok m" "\<not> in_refresh_pending m" using message_state [OF assms(1)] by (simp_all add: m_def)
  have m: "in_list m = in_list s" "in_follow_up m = in_follow_up s" "in_selection_reset m = in_selection_reset s"
    by (simp_all add: m_def)
  have message: "refresh_message env es s = refresh_diagnostic_window env es True m"
    by (simp add: refresh_message_def m_def)
  note p = prepared_state [OF ok] and r = rebuilt_state [OF ok]
  have "\<not> in_refreshing m" using ok(1) by (simp add: inspect_ok_def)
  note stages = refresh_window_stages [OF this, of env es True]
  show ?thesis
  proof (cases "in_list s")
    case True
    then have "refresh_message env es s = finish_diagnostic_refresh env (\<not> in_follow_up s) (refresh_rebuilt env es m)"
      using r(5) [of env es] by (cases "in_follow_up s") (simp_all add: message stages m)
    then show ?thesis
      using finish_work [OF r(1,2), where b = "\<not> in_follow_up s", of env env es] p(4,5) [of env es] assms(2)
      by (auto simp: refresh_work_def [of env s] r(3,4) m split: if_splits)
  next
    case False
    then show ?thesis
      using finish_work [OF p(1,2), where b = False, of env env es] p(4,5) [of env es] assms(2)
      by (auto simp: message stages m refresh_work_def [of env s] m split: if_splits)
  qed
qed

lemma settle_work: "inspect_ok s \<Longrightarrow> refresh_work env s \<le> n \<Longrightarrow> in_posted (settle env snapshots n s) = 0"
proof (induction n arbitrary: s)
  case 0
  then show ?case by (simp add: refresh_work_def split: if_splits)
next
  case (Suc n)
  then show ?case using refresh_work_less [of s env "snapshots n"] refresh_message_ok [of s env "snapshots n"] by auto
qed

section \<open>What is shown\<close>

definition filter_state :: "inspect \<Rightarrow> event_category option \<times> string \<times> nat \<times> bool" where
  "filter_state s = (in_category s, in_search s, in_display_limit s, in_display_all s)"

lemma displayed_rows_cong: "filter_state s = filter_state t \<Longrightarrow> displayed_rows env s es = displayed_rows env t es"
  by (simp add: filter_state_def displayed_rows_def diagnostic_filtered_visible_events_def diagnostic_filtered_events_def
      diagnostic_visible_selection_def Let_def)

lemma filter_steps:
  "filter_state (set_selection_summary n s) = filter_state s" "filter_state (set_action_enabled b s) = filter_state s"
  "filter_state (record_diagnostic_refresh_event s) = filter_state s"
  "filter_state (parse_range_into input es s) = filter_state s"
  "filter_state (preserve_diagnostic_grid_selection es s) = filter_state s"
  "filter_state (note_snapshot es s) = filter_state s" "filter_state (request_diagnostic_refresh env s) = filter_state s"
  "filter_state (s\<lparr>in_selection := x\<rparr>) = filter_state s" "filter_state (s\<lparr>in_message := m\<rparr>) = filter_state s"
  "filter_state (s\<lparr>in_selection := x, in_sequences := y, in_selection_reset := z\<rparr>) = filter_state s"
  "filter_state (s\<lparr>in_refreshing := r, in_follow_up := f, in_direct_recorded := d\<rparr>) = filter_state s"
  "filter_state (s\<lparr>in_posted := n, in_refresh_pending := b\<rparr>) = filter_state s"
  by (simp_all add: filter_state_def set_selection_summary_def set_action_enabled_def record_diagnostic_refresh_event_def
      parse_range_into_def preserve_diagnostic_grid_selection_def note_snapshot_def request_diagnostic_refresh_def
      Let_def split: sum.split)

lemma prepared_filter: "filter_state (refresh_prepared env es s) = filter_state s"
proof -
  have "filter_state (refresh_diagnostic_controls env es True u) = filter_state u" for u
    by (simp add: refresh_diagnostic_controls_def Let_def filter_steps split: option.split)
  then show ?thesis by (simp add: refresh_prepared_def filter_steps)
qed

lemma finish_keeps:
  "in_rows (finish_diagnostic_refresh env b s) = in_rows s" "in_selected (finish_diagnostic_refresh env b s) = in_selected s"
  "in_grid_sequences (finish_diagnostic_refresh env b s) = in_grid_sequences s"
  "in_list (finish_diagnostic_refresh env b s) = in_list s"
  by (simp_all add: finish_diagnostic_refresh_def request_diagnostic_refresh_def Let_def)

text \<open>What the message of a refresh leaves in the window is what the rebuilt state has.\<close>

lemma message_keeps:
  assumes "inspect_ok s" "in_list s"
  shows "in_rows (refresh_message env es s) = displayed_rows env s es"
    "in_selected (refresh_message env es s)
       = in_selected (rebuild_rows env es (refresh_prepared env es (s\<lparr>in_posted := in_posted s - 1, in_refresh_pending := False\<rparr>)))"
    "in_grid_sequences (refresh_message env es s)
       = in_grid_sequences (refresh_prepared env es (s\<lparr>in_posted := in_posted s - 1, in_refresh_pending := False\<rparr>))"
    "in_list (refresh_message env es s)"
proof -
  define m where "m = s\<lparr>in_posted := in_posted s - 1, in_refresh_pending := False\<rparr>"
  have ok: "inspect_ok m" "\<not> in_refresh_pending m" using message_state [OF assms(1)] by (simp_all add: m_def)
  have "\<not> in_refreshing m" "in_list m" using ok(1) assms(2) by (simp_all add: inspect_ok_def m_def)
  note stages = refresh_window_stages [OF this(1), of env es True] this(2)
  have f: "filter_state m = filter_state s" by (simp add: filter_state_def m_def)
  have "in_selected (refresh_rebuilt env es m) = in_selected (rebuild_rows env es (refresh_prepared env es m))"
    "in_grid_sequences (refresh_rebuilt env es m) = in_grid_sequences (refresh_prepared env es m)"
    "in_list (refresh_rebuilt env es m)"
    using prepared_state(3) [OF ok] stages(2)
    by (simp_all add: refresh_rebuilt_def record_diagnostic_refresh_event_def rebuild_rows_def
        apply_diagnostic_grid_selection_def Let_def)
  then show "in_rows (refresh_message env es s) = displayed_rows env s es"
    "in_selected (refresh_message env es s) = in_selected (rebuild_rows env es (refresh_prepared env es m))"
    "in_grid_sequences (refresh_message env es s) = in_grid_sequences (refresh_prepared env es m)"
    "in_list (refresh_message env es s)"
    unfolding refresh_message_def m_def [symmetric] using stages rebuilt_state(6) [OF ok]
      displayed_rows_cong [OF prepared_filter [of env es m, unfolded f]]
    by (simp_all add: finish_keeps)
qed

lemma newest_visible:
  assumes "\<not> in_display_all s" "0 < in_display_limit s" "in_display_limit s \<le> HARD_MAX_EVENTS"
  shows "diagnostic_filtered_visible_events env s es
    = drop (length (diagnostic_filtered_events env s es) - in_display_limit s) (diagnostic_filtered_events env s es)"
  using assms by (auto simp: diagnostic_filtered_visible_events_def diagnostic_visible_selection_def
      latest_row_selection_def selection_all_def selection_is_empty_def row_count_def clamp_def Let_def min_def)

lemma displayed_newest:
  assumes "inspect_ok s" "\<not> in_display_all s"
  shows "displayed_rows env s es = map (\<lambda>(i, e). diagnostic_grid_row i e) (enumerate 1
    (drop (length (diagnostic_filtered_events env s es) - in_display_limit s) (diagnostic_filtered_events env s es)))"
proof -
  let ?v = "drop (length (diagnostic_filtered_events env s es) - in_display_limit s) (diagnostic_filtered_events env s es)"
  have "length ?v \<le> EVENT_BUFFER_CAP"
    using assms(1) unfolding inspect_ok_def EVENT_BUFFER_CAP_def HARD_MAX_EVENTS_def by simp linarith
  moreover have "map (\<lambda>(i, e). diagnostic_grid_row (i + 1) e) (enumerate 0 xs)
      = map (\<lambda>(i, e). diagnostic_grid_row i e) (enumerate 1 xs)" for xs
    by (rule nth_equalityI) (simp_all add: nth_enumerate_eq)
  ultimately show ?thesis
    using assms by (simp add: displayed_rows_drop newest_visible inspect_ok_def Let_def)
qed

lemma grid_row_sequence:
  assumes "p < length rows" "rows ! p = diagnostic_grid_row n e"
  shows "row_sequence rows p = Some (ev_sequence e)"
proof -
  have "parse_unsigned (2 ^ 64 - 1) (dec_word q) = Some (unat q)" for q :: u64
    unfolding dec_word_def using unsigned_less [of q, where 'a = nat] by simp
  then show ?thesis
    using assms by (simp add: row_sequence_def grid_cell_def buffer_get_def diagnostic_grid_row_def Let_def)
qed

lemma displayed_sequence:
  assumes "inspect_ok s" "\<not> in_display_all s" "diagnostic_filtered_events env s es = es"
    "in_display_limit s \<le> length es" "p < in_display_limit s"
  shows "row_sequence (displayed_rows env s es) p = Some (ev_sequence (es ! (length es - in_display_limit s + p)))"
    "length (displayed_rows env s es) = in_display_limit s"
proof -
  note rows = displayed_newest [OF assms(1,2), of env es, unfolded assms(3)]
  show "length (displayed_rows env s es) = in_display_limit s" using assms(4) by (simp add: rows)
  have "displayed_rows env s es ! p = diagnostic_grid_row (p + 1) (es ! (length es - in_display_limit s + p))"
    using assms(4,5) by (simp add: rows nth_enumerate_eq)
  then show "row_sequence (displayed_rows env s es) p = Some (ev_sequence (es ! (length es - in_display_limit s + p)))"
    using assms(4,5) by (intro grid_row_sequence) (simp_all add: rows)
qed

text \<open>The chosen rows after a refresh are the ones of before that are still retained.\<close>

lemma prepared_chosen:
  "set (in_grid_sequences (refresh_prepared env es s)) = set (in_grid_sequences s) \<inter> ev_sequence ` set es"
  "in_selected (refresh_prepared env es s) = in_selected s"
proof -
  let ?u = "note_snapshot es (s\<lparr>in_refreshing := True, in_follow_up := False, in_direct_recorded := False\<rparr>)"
  have u: "in_grid_sequences ?u = in_grid_sequences s" "in_selected ?u = in_selected s"
    by (simp_all add: note_snapshot_def Let_def)
  have c: "in_grid_sequences (refresh_diagnostic_controls env es True v) = in_grid_sequences v"
    "in_selected (refresh_diagnostic_controls env es True v) = in_selected v" for v
    by (simp_all add: refresh_diagnostic_controls_def set_selection_summary_def set_action_enabled_def parse_range_into_def
        request_diagnostic_refresh_def record_diagnostic_refresh_event_def Let_def split: option.split sum.split)
  have p: "set (in_grid_sequences (preserve_diagnostic_grid_selection es v)) = set (in_grid_sequences v) \<inter> ev_sequence ` set es"
    "in_selected (preserve_diagnostic_grid_selection es v) = in_selected v" for v
    by (auto simp: preserve_diagnostic_grid_selection_def record_diagnostic_refresh_event_def
        selected_event_sequences_for_sequences_def Let_def)
  show "set (in_grid_sequences (refresh_prepared env es s)) = set (in_grid_sequences s) \<inter> ev_sequence ` set es"
    "in_selected (refresh_prepared env es s) = in_selected s"
    by (simp_all add: refresh_prepared_def c p u)
qed

lemma rebuilt_selected:
  "set (ie_resize env (length (displayed_rows env s es)) (in_selected s)) \<subseteq> set (in_selected (rebuild_rows env es s))"
  by (auto simp: rebuild_rows_def apply_diagnostic_grid_selection_def Let_def)

lemma updated_chosen:
  assumes "inspect_ok s" "in_list s"
  shows "set (in_grid_sequences (update_diagnostic_grid_selection es s))
    = {q. \<exists>p\<in>set (in_selected s). row_sequence (in_rows s) p = Some q \<and> q \<in> ev_sequence ` set es}"
  using assms by (force simp: update_diagnostic_grid_selection_def inspect_ok_def set_selection_summary_def
      set_action_enabled_def List.map_filter_def Let_def)

section \<open>Properties\<close>

text \<open>C22: However the window got into its state, at most one refresh message is posted, and handling the posted
  messages ends after at most four of them, whatever snapshots they find and whichever posts succeed: a refresh
  that records events asks for one second pass only, and a range whose rows are gone is reset once.
\<close>

theorem diagnostic_refreshes_settle:
  assumes "inspect_reachable (s, w)"
  shows "in_posted s \<le> 1 \<and> in_posted (settle env snapshots 4 s) = 0"
proof -
  have ok: "inspect_ok s" using reachable_ok [OF assms] by simp
  have "refresh_work env s \<le> 4" by (simp add: refresh_work_def)
  then show ?thesis using settle_work [OF ok] ok by (simp add: inspect_ok_def)
qed

definition sample_window_env :: inspect_env where
  "sample_window_env = \<lparr>ie_range = [], ie_display = ''100'', ie_search = [], ie_post = (\<lambda>_. True),
     ie_resize = (\<lambda>n ps. filter (\<lambda>p. p < n) ps), ie_lower = to_ascii_lowercase, ie_alphabetic = list_all (\<lambda>c. c \<in> set ''abcdefghijklmnopqrstuvwxyz'')\<rparr>"

definition sample_transfer_env :: transfer_env where
  "sample_transfer_env =
     \<lparr>te_clipboard = \<lparr>cc_open = None, cc_empty = None, cc_alloc = None, cc_lock = None, cc_set = None, cc_close = None\<rparr>,
      te_dialog = \<lparr>da_result = 1, da_error = 0, da_path = ''a.tsv''\<rparr>,
      te_export = \<lparr>ec_write = None, ec_move = None, ec_remove = True\<rparr>\<rparr>"

definition sample_window_calls :: open_calls where
  "sample_window_calls = \<lparr>oc_alive = True, oc_children = True, oc_created = True, oc_title = True,
     oc_created_children = True, oc_layout = True\<rparr>"

definition sample_window_world :: transfer_world where
  "sample_window_world = \<lparr>tf_clipboard = \<lparr>cb_open = False, cb_content = None, cb_memory = False\<rparr>, tf_files = (\<lambda>_. None)\<rparr>"

definition sample_window :: inspect where
  "sample_window = fst (diagnostic_window_proc sample_window_env sample_transfer_env [] (InOpen sample_window_calls)
     (diagnostic_ui_new, sample_window_world))"

lemma sample_window_reachable: "inspect_reachable (sample_window, sample_window_world)"
proof -
  let ?x = "diagnostic_window_proc sample_window_env sample_transfer_env [] (InOpen sample_window_calls)
    (diagnostic_ui_new, sample_window_world)"
  have "snd ?x = sample_window_world" by (simp add: diagnostic_window_proc_def)
  then have "?x = (sample_window, sample_window_world)" by (simp add: sample_window_def prod_eq_iff)
  then show ?thesis using inspect_step [OF inspect_start] by metis
qed

lemma sample_window_state: "in_posted sample_window = 1" "in_list sample_window" "\<not> in_display_all sample_window"
  by code_simp+

theorem diagnostic_refreshes_settle_witness:
  "in_posted sample_window = 1 \<and> in_posted (settle sample_window_env (\<lambda>_. [sample_event 1]) 4 sample_window) = 0"
  using diagnostic_refreshes_settle [OF sample_window_reachable, of sample_window_env "\<lambda>_. [sample_event 1]"]
    sample_window_state(1) by simp

text \<open>A refresh of the open window shows exactly the newest events that pass the two filters, as many as the
  row limit allows, numbered from one.
\<close>

theorem refresh_shows_newest:
  assumes "inspect_reachable (s, w)" "in_list s" "\<not> in_display_all s"
  shows "in_rows (refresh_message env es s) = map (\<lambda>(i, e). diagnostic_grid_row i e) (enumerate 1
    (drop (length (diagnostic_filtered_events env s es) - in_display_limit s) (diagnostic_filtered_events env s es)))"
proof -
  have ok: "inspect_ok s" using reachable_ok [OF assms(1)] by simp
  show ?thesis using message_keeps(1) [OF ok assms(2)] displayed_newest [OF ok assms(3)] by simp
qed

theorem refresh_shows_newest_witness:
  "in_rows (refresh_message sample_window_env (map sample_event [1, 2]) sample_window)
    = [diagnostic_grid_row 1 (sample_event 1), diagnostic_grid_row 2 (sample_event 2)]"
proof -
  have "diagnostic_filtered_events sample_window_env sample_window (map sample_event [1, 2]) = map sample_event [1, 2]"
    "in_display_limit sample_window = 100" by code_simp+
  then show ?thesis
    using refresh_shows_newest [OF sample_window_reachable sample_window_state(2,3), of sample_window_env "map sample_event [1, 2]"]
    by (simp add: numeral_2_eq_2)
qed

text \<open>C39: The list view keeps its selected positions when rows move up, and no step of a refresh clears them. When
  the window is full, one row is chosen and one event arrives, the position of that row stays selected but shows
  another event, which is not among the chosen ones: Copy does not take the row that is highlighted. The next
  change of the selection adds the event that was never chosen.
\<close>

theorem highlight_leaves_chosen_row:
  assumes "es = older @ [e]" "inspect_ok s" "in_list s" "\<not> in_display_all s" "diagnostic_filtered_events env s es = es"
    and "in_display_limit s \<le> length older" "p < in_display_limit s"
    and "in_selected s = [p]" "in_grid_sequences s = [ev_sequence (older ! (length older - in_display_limit s + p))]"
    and "distinct (map ev_sequence es)" "ie_resize env (in_display_limit s) [p] = [p]"
  shows "\<exists>q. p \<in> set (in_selected (refresh_message env es s)) \<and> row_sequence (in_rows (refresh_message env es s)) p = Some q
    \<and> q \<notin> set (in_grid_sequences (refresh_message env es s))
    \<and> q \<in> set (in_grid_sequences (update_diagnostic_grid_selection es (refresh_message env es s)))"
proof -
  let ?t = "refresh_message env es s" and ?l = "in_display_limit s"
  let ?m = "s\<lparr>in_posted := in_posted s - 1, in_refresh_pending := False\<rparr>"
  let ?i = "length older - ?l + p"
  note keeps = message_keeps [OF assms(2,3), of env es]
  have len: "length es = Suc (length older)" by (simp add: assms(1))
  then have le: "?l \<le> length es" using assms(6) by simp
  note shown = displayed_sequence [OF assms(2,4,5) le assms(7)]
  have i: "length es - ?l + p = Suc ?i" "Suc ?i < length es" using assms(6,7) len by auto
  let ?q = "ev_sequence (es ! Suc ?i)"
  have row: "row_sequence (in_rows ?t) p = Some ?q" using shown(1) by (simp add: keeps(1) i(1))
  have "displayed_rows env (refresh_prepared env es ?m) es = displayed_rows env s es"
    by (rule displayed_rows_cong) (simp add: prepared_filter filter_steps)
  then have sel: "p \<in> set (in_selected ?t)"
    using rebuilt_selected [of env "refresh_prepared env es ?m" es] assms(8,11)
    by (simp add: keeps(2) prepared_chosen(2) shown(2))
  have "older ! ?i = es ! ?i" using assms(6,7) by (simp add: assms(1) nth_append)
  moreover have "ev_sequence (es ! Suc ?i) \<noteq> ev_sequence (es ! ?i)"
    using nth_eq_iff_index_eq [OF assms(10), of "Suc ?i" ?i] i(2) by simp
  ultimately have new: "?q \<notin> set (in_grid_sequences ?t)"
    using assms(9) by (simp add: keeps(3) prepared_chosen(1))
  have "?q \<in> ev_sequence ` set es" using i(2) by simp
  then have "?q \<in> set (in_grid_sequences (update_diagnostic_grid_selection es ?t))"
    using updated_chosen [OF refresh_message_ok [OF assms(2)] keeps(4)] row sel by auto
  with row sel new show ?thesis by blast
qed

theorem highlight_leaves_chosen_row_witness:
  "\<exists>q. q \<noteq> 1 \<and> q \<in> set (in_grid_sequences (update_diagnostic_grid_selection (map sample_event [1, 2])
     (refresh_message sample_window_env (map sample_event [1, 2])
       (sample_window\<lparr>in_display_limit := 1, in_selected := [0], in_grid_sequences := [1]\<rparr>))))"
proof -
  let ?s = "sample_window\<lparr>in_display_limit := 1, in_selected := [0], in_grid_sequences := [1]\<rparr>"
  let ?es = "map sample_event [1, 2]"
  have ok: "inspect_ok ?s"
    using reachable_ok [OF sample_window_reachable] by (simp add: inspect_ok_def HARD_MAX_EVENTS_def)
  have f: "diagnostic_filtered_events sample_window_env ?s ?es = ?es" by code_simp
  have g: "1 \<in> set (in_grid_sequences (refresh_message sample_window_env ?es ?s))"
    using ok sample_window_state(2) by (simp add: message_keeps(3) prepared_chosen(1) sample_event_def)
  have "\<exists>q. q \<notin> set (in_grid_sequences (refresh_message sample_window_env ?es ?s))
      \<and> q \<in> set (in_grid_sequences (update_diagnostic_grid_selection ?es (refresh_message sample_window_env ?es ?s)))"
    using highlight_leaves_chosen_row [of ?es "[sample_event 1]" "sample_event 2" ?s sample_window_env 0] ok f
      sample_window_state(2,3) by (fastforce simp: sample_event_def sample_window_env_def)
  then obtain q where q: "q \<notin> set (in_grid_sequences (refresh_message sample_window_env ?es ?s))"
      "q \<in> set (in_grid_sequences (update_diagnostic_grid_selection ?es (refresh_message sample_window_env ?es ?s)))"
    by blast
  have "q \<noteq> 1"
  proof
    assume "q = 1"
    then show False using g q(1) by (simp only: simp_thms)
  qed
  then show ?thesis using q(2) by (intro exI [of _ q] conjI)
qed

text \<open>C23: An export writes the rows of the chosen events, each with its position among the retained ones. When
  writing and replacing succeed, the chosen file holds the whole text and every other file is as before, the
  temporary one gone; when one of them fails and the temporary file can be removed, no file but the temporary
  one has changed.
\<close>

theorem export_all_or_nothing:
  assumes "choose_export_path (te_dialog te) = Ok (Some path)"
    and "selected_event_sequences_for_sequences es (in_grid_sequences s) \<noteq> []"
    and "ec_remove (te_export te)"
  shows "tf_files (snd (diagnostic_toolbar_action env te es ActExport (s, w))) =
    (if ec_write (te_export te) = None \<and> ec_move (te_export te) = None
     then (tf_files w)(path := Some (format_export_rows env
            (map (\<lambda>(i, e). diagnostic_grid_row (i + 1) e)
               (filter (\<lambda>(i, e). ev_sequence e \<in> set (in_grid_sequences s)) (enumerate 0 es)))
            (export_format_for_path path)), temporary_export path := None)
     else (tf_files w)(temporary_export path := None))"
proof -
  have "filter (\<lambda>(i, e). ev_sequence e \<in> set (selected_event_sequences_for_sequences es (in_grid_sequences s))) (enumerate 0 es)
      = filter (\<lambda>(i, e). ev_sequence e \<in> set (in_grid_sequences s)) (enumerate 0 es)"
    by (rule filter_cong) (auto simp: selected_event_sequences_for_sequences_def in_set_enumerate_eq)
  then have rows: "diagnostic_grid_rows_for_sequences es (selected_event_sequences_for_sequences es (in_grid_sequences s))
      = map (\<lambda>(i, e). diagnostic_grid_row (i + 1) e)
          (filter (\<lambda>(i, e). ev_sequence e \<in> set (in_grid_sequences s)) (enumerate 0 es))"
    by (simp add: diagnostic_grid_rows_for_sequences_def)
  show ?thesis
    using assms by (auto simp: diagnostic_toolbar_action_def transfer_rows_def export_rows_def write_export_tsv_def
        drop_temporary_def Let_def rows split: option.split)
qed

theorem export_all_or_nothing_witness:
  "\<exists>t. tf_files (snd (diagnostic_toolbar_action sample_window_env sample_transfer_env [sample_event 1] ActExport
     (sample_window\<lparr>in_grid_sequences := [1]\<rparr>, sample_window_world))) ''a.tsv'' = Some t"
proof -
  have "choose_export_path (te_dialog sample_transfer_env) = Ok (Some ''a.tsv'')" by code_simp
  moreover have "selected_event_sequences_for_sequences [sample_event 1] [1] \<noteq> []" by code_simp
  ultimately show ?thesis
    using export_all_or_nothing [of sample_transfer_env "''a.tsv''" "[sample_event 1]" "sample_window\<lparr>in_grid_sequences := [1]\<rparr>"
        sample_window_env sample_window_world]
    by (simp add: sample_transfer_env_def temporary_export_def)
qed

end
