(* ===== verification/Marquee.thy ===== *)
theory Marquee
  imports Inspect
begin

text \<open>
  Model of \<open>apps/true-tick/src/ui/marquee.rs\<close>: the subclassed list of the diagnostic window, where a drag
  with the left button selects every row its band touches. The state is the record of the drag beside the
  window of \<open>Inspect\<close>.

  A focus rectangle is drawn by inverting pixels, so drawing it a second time erases it. The model keeps the
  rectangles drawn since the list was last painted; one is visible when it was drawn an odd number of times.
  The place of each row, the keys and buttons held, the drag distances and what the list view itself does with
  a message are arguments.
\<close>

section \<open>Geometry\<close>

record point =
  px :: int
  py :: int

record rect =
  r_left :: int
  r_top :: int
  r_right :: int
  r_bottom :: int

definition point_from_lparam :: "64 word \<Rightarrow> point" where
  "point_from_lparam l = \<lparr>px = sint (ucast l :: 16 word), py = sint (ucast (drop_bit 16 l) :: 16 word)\<rparr>"

definition should_use_native_click_selection :: "bool \<Rightarrow> bool \<Rightarrow> bool" where
  "should_use_native_click_selection shift_held ctrl_held = (shift_held \<or> ctrl_held)"

definition marquee_requires_left_mouse_button_pressed_flag :: "64 word \<Rightarrow> bool" where
  "marquee_requires_left_mouse_button_pressed_flag w = bit w 0"

definition marquee_drag_exceeded :: "point \<Rightarrow> point \<Rightarrow> int \<Rightarrow> int \<Rightarrow> bool" where
  "marquee_drag_exceeded anchor current cx_drag cy_drag =
     (cx_drag \<le> \<bar>px current - px anchor\<bar> \<or> cy_drag \<le> \<bar>py current - py anchor\<bar>)"

definition points_to_rect :: "point \<Rightarrow> point \<Rightarrow> rect" where
  "points_to_rect p q = \<lparr>r_left = min (px p) (px q), r_top = min (py p) (py q),
     r_right = max (px p) (px q), r_bottom = max (py p) (py q)\<rparr>"

definition rects_intersect :: "rect \<Rightarrow> rect \<Rightarrow> bool" where
  "rects_intersect a b \<longleftrightarrow> r_left a \<le> r_right b \<and> r_left b \<le> r_right a \<and> r_top a \<le> r_bottom b \<and> r_top b \<le> r_bottom a"

definition marquee_selected_indices :: "rect \<Rightarrow> rect list \<Rightarrow> nat list \<Rightarrow> bool \<Rightarrow> nat list" where
  "marquee_selected_indices band row_rects initial_selected is_additive =
     map fst (filter (\<lambda>(i, r). rects_intersect band r \<or> is_additive \<and> i \<in> set initial_selected) (enumerate 0 row_rects))"

section \<open>State\<close>

record marquee =
  mq_pending :: bool
  mq_active :: bool
  mq_anchor :: point
  mq_current :: point
  mq_initial :: "nat list"
  mq_capture :: bool
  mq_bands :: "rect list"

definition marquee_idle :: marquee where
  "marquee_idle = \<lparr>mq_pending = False, mq_active = False, mq_anchor = \<lparr>px = 0, py = 0\<rparr>, mq_current = \<lparr>px = 0, py = 0\<rparr>,
     mq_initial = [], mq_capture = False, mq_bands = []\<rparr>"

record marquee_env =
  me_shift :: bool
  me_control :: bool
  me_left :: bool
  me_cx :: int
  me_cy :: int
  me_context :: bool
  me_rects :: "nat \<Rightarrow> rect option"
  me_native :: "nat list option"

type_synonym drag = "marquee \<times> inspect"

section \<open>Handlers\<close>

definition draw_marquee_rect :: "marquee_env \<Rightarrow> marquee \<Rightarrow> marquee" where
  "draw_marquee_rect env m =
     (let r = points_to_rect (mq_anchor m) (mq_current m)
      in if r_left r = r_right r \<or> r_top r = r_bottom r \<or> \<not> me_context env then m else m\<lparr>mq_bands := r # mq_bands m\<rparr>)"

definition row_rects :: "marquee_env \<Rightarrow> inspect \<Rightarrow> rect list" where
  "row_rects env s = map (\<lambda>i. case me_rects env i of Some r \<Rightarrow> r
     | None \<Rightarrow> \<lparr>r_left = 0, r_top = -1, r_right = 0, r_bottom = -1\<rparr>) [0..<length (in_rows s)]"

definition update_marquee_selection :: "marquee_env \<Rightarrow> rect \<Rightarrow> marquee \<Rightarrow> inspect \<Rightarrow> inspect" where
  "update_marquee_selection env band m s =
     s\<lparr>in_selected := marquee_selected_indices band (row_rects env s) (mq_initial m) (me_control env)\<rparr>"

definition handle_marquee_lbuttondown :: "marquee_env \<Rightarrow> 64 word \<Rightarrow> drag \<Rightarrow> drag" where
  "handle_marquee_lbuttondown env l ms =
     (case ms of (m, s) \<Rightarrow>
        if \<not> me_left env then (m, s)
        else (m\<lparr>mq_pending := True, mq_anchor := point_from_lparam l, mq_current := point_from_lparam l\<rparr>, s))"

definition handle_marquee_pending_mousemove :: "marquee_env \<Rightarrow> diagnostic_event list \<Rightarrow> 64 word \<Rightarrow> drag \<Rightarrow> drag" where
  "handle_marquee_pending_mousemove env es l ms =
     (case ms of (m, s) \<Rightarrow>
        if \<not> mq_pending m \<or> mq_active m then (m, s)
        else
          let pt = point_from_lparam l in
          if \<not> marquee_drag_exceeded (mq_anchor m) pt (max (me_cx env) 1) (max (me_cy env) 1) then (m, s)
          else
            let m1 = m\<lparr>mq_pending := False, mq_active := True, mq_capture := True, mq_current := pt,
                       mq_initial := in_selected s\<rparr>
            in (m1, update_diagnostic_grid_selection es
                      (update_marquee_selection env (points_to_rect (mq_anchor m1) pt) m1 s)))"

definition handle_marquee_mousemove :: "marquee_env \<Rightarrow> diagnostic_event list \<Rightarrow> 64 word \<Rightarrow> drag \<Rightarrow> drag" where
  "handle_marquee_mousemove env es l ms =
     (case ms of (m, s) \<Rightarrow>
        if \<not> mq_active m then (m, s)
        else
          let pt = point_from_lparam l;
              m1 = draw_marquee_rect env ((draw_marquee_rect env m)\<lparr>mq_current := pt\<rparr>)
          in (m1, update_diagnostic_grid_selection es
                    (update_marquee_selection env (points_to_rect (mq_anchor m1) pt) m1 s)))"

text \<open>Losing the capture, and with it the end of the drag. The list is painted again, without bands.\<close>

definition handle_marquee_capturechanged :: "marquee_env \<Rightarrow> diagnostic_event list \<Rightarrow> drag \<Rightarrow> drag" where
  "handle_marquee_capturechanged env es ms =
     (case ms of (m, s) \<Rightarrow>
        let m1 = m\<lparr>mq_pending := False, mq_capture := False\<rparr> in
        if mq_active m1
        then ((draw_marquee_rect env m1)\<lparr>mq_active := False, mq_initial := [], mq_bands := []\<rparr>,
              update_diagnostic_grid_selection es s)
        else (m1, s))"

text \<open>Releasing the capture sends the list the message that it was lost.\<close>

definition handle_marquee_lbuttonup :: "marquee_env \<Rightarrow> diagnostic_event list \<Rightarrow> drag \<Rightarrow> drag" where
  "handle_marquee_lbuttonup env es ms =
     (case ms of (m, s) \<Rightarrow>
        if \<not> mq_active m then (m, s)
        else
          let m1 = (draw_marquee_rect env m)\<lparr>mq_active := False, mq_initial := []\<rparr>;
              (m2, s2) = (if mq_capture m1 then handle_marquee_capturechanged env es (m1, s) else (m1, s))
          in (m2\<lparr>mq_bands := []\<rparr>, update_diagnostic_grid_selection es s2))"

definition handle_marquee_cancel :: "marquee_env \<Rightarrow> diagnostic_event list \<Rightarrow> drag \<Rightarrow> drag" where
  "handle_marquee_cancel env es ms =
     (case ms of (m, s) \<Rightarrow>
        let m1 = m\<lparr>mq_pending := False\<rparr> in
        if mq_active m1 then handle_marquee_lbuttonup env es (m1, s) else (m1, s))"

text \<open>What the list view does itself: it may change the selected positions, and then notifies the window.\<close>

definition call_native :: "marquee_env \<Rightarrow> diagnostic_event list \<Rightarrow> drag \<Rightarrow> drag" where
  "call_native env es ms =
     (case ms of (m, s) \<Rightarrow>
        (m, case me_native env of None \<Rightarrow> s | Some ps \<Rightarrow> update_diagnostic_grid_selection es (s\<lparr>in_selected := ps\<rparr>)))"

datatype list_message =
  LButtonDown "64 word" | MouseMove "64 word" "64 word" | OtherButtonDown | ListKeyDown "64 word" | LButtonUp
  | CaptureChanged | OtherMessage

definition VK_ESCAPE :: "64 word" where
  "VK_ESCAPE = 0x1B"

definition drag_running :: "drag \<Rightarrow> bool" where
  "drag_running ms = (mq_pending (fst ms) \<or> mq_active (fst ms))"

definition diagnostic_list_proc :: "marquee_env \<Rightarrow> diagnostic_event list \<Rightarrow> list_message \<Rightarrow> drag \<Rightarrow> drag" where
  "diagnostic_list_proc env es message ms =
     (case message of
        LButtonDown l \<Rightarrow>
          let native_modifiers = should_use_native_click_selection (me_shift env) (me_control env);
              ms1 = call_native env es ms
          in if native_modifiers then ms1 else handle_marquee_lbuttondown env l ms1
      | MouseMove w l \<Rightarrow>
          let left_button_held = (marquee_requires_left_mouse_button_pressed_flag w \<and> me_left env) in
          if \<not> left_button_held
          then call_native env es (if drag_running ms then handle_marquee_cancel env es ms else ms)
          else
            let ms1 = (if mq_pending (fst ms) then handle_marquee_pending_mousemove env es l ms else ms)
            in if mq_active (fst ms1) then handle_marquee_mousemove env es l ms1 else call_native env es ms1
      | OtherButtonDown \<Rightarrow> call_native env es (if drag_running ms then handle_marquee_cancel env es ms else ms)
      | ListKeyDown w \<Rightarrow>
          if w = VK_ESCAPE \<and> drag_running ms then handle_marquee_cancel env es ms else call_native env es ms
      | LButtonUp \<Rightarrow>
          if mq_active (fst ms) then handle_marquee_lbuttonup env es ms
          else call_native env es (map_prod (\<lambda>m. m\<lparr>mq_pending := False\<rparr>) id ms)
      | CaptureChanged \<Rightarrow> handle_marquee_capturechanged env es ms
      | OtherMessage \<Rightarrow> call_native env es ms)"

inductive marquee_reachable :: "drag \<Rightarrow> bool" where
  marquee_start: "inspect_ok s \<Longrightarrow> marquee_reachable (marquee_idle, s)"
| marquee_step: "marquee_reachable ms \<Longrightarrow> marquee_reachable (diagnostic_list_proc env es message ms)"
| marquee_window: "marquee_reachable (m, s) \<Longrightarrow> inspect_ok t \<Longrightarrow> marquee_reachable (m, t)"

section \<open>The drag\<close>

text \<open>A drag holds the capture of the mouse; without one there is no band and no remembered selection.\<close>

definition marquee_ok :: "drag \<Rightarrow> bool" where
  "marquee_ok ms \<longleftrightarrow> inspect_ok (snd ms) \<and> (mq_active (fst ms) = mq_capture (fst ms))
     \<and> (\<not> mq_active (fst ms) \<longrightarrow> mq_bands (fst ms) = [] \<and> mq_initial (fst ms) = [])"

lemma draw_fields [simp]:
  "mq_pending (draw_marquee_rect env m) = mq_pending m" "mq_active (draw_marquee_rect env m) = mq_active m"
  "mq_anchor (draw_marquee_rect env m) = mq_anchor m" "mq_current (draw_marquee_rect env m) = mq_current m"
  "mq_initial (draw_marquee_rect env m) = mq_initial m" "mq_capture (draw_marquee_rect env m) = mq_capture m"
  by (simp_all add: draw_marquee_rect_def Let_def)

lemma marquee_handlers_ok:
  assumes "marquee_ok ms"
  shows "marquee_ok (call_native env es ms)" "marquee_ok (handle_marquee_lbuttondown env l ms)"
    "marquee_ok (handle_marquee_pending_mousemove env es l ms)" "marquee_ok (handle_marquee_mousemove env es l ms)"
    "marquee_ok (handle_marquee_capturechanged env es ms)" "marquee_ok (handle_marquee_lbuttonup env es ms)"
    "marquee_ok (handle_marquee_cancel env es ms)" "marquee_ok (map_prod (\<lambda>m. m\<lparr>mq_pending := False\<rparr>) id ms)"
  using assms
  by (auto simp: marquee_ok_def call_native_def handle_marquee_lbuttondown_def handle_marquee_pending_mousemove_def
      handle_marquee_mousemove_def handle_marquee_capturechanged_def handle_marquee_lbuttonup_def handle_marquee_cancel_def
      update_marquee_selection_def ok_unaffected Let_def split: prod.split option.split)

lemma list_proc_ok: "marquee_ok ms \<Longrightarrow> marquee_ok (diagnostic_list_proc env es message ms)"
  by (cases message) (simp_all add: diagnostic_list_proc_def marquee_handlers_ok Let_def)

lemma marquee_reachable_ok: "marquee_reachable ms \<Longrightarrow> marquee_ok ms"
  by (induction rule: marquee_reachable.induct)
     (simp_all add: list_proc_ok marquee_ok_def [of "(_, _)"] marquee_idle_def)

text \<open>The coordinates of a message are 16 bits wide, so the distances fit the 32 bits the code computes them in.\<close>

lemma drag_distance_fits:
  fixes l k :: "64 word"
  shows "\<bar>px (point_from_lparam l) - px (point_from_lparam k)\<bar> < 2 ^ 31"
    "\<bar>py (point_from_lparam l) - py (point_from_lparam k)\<bar> < 2 ^ 31"
proof -
  have b: "- (2 ^ 15) \<le> sint x \<and> sint x < 2 ^ 15" for x :: "16 word"
    using sint_greater_eq [of x] sint_less [of x] by simp
  show "\<bar>px (point_from_lparam l) - px (point_from_lparam k)\<bar> < 2 ^ 31"
    using b [of "ucast l"] b [of "ucast k"] by (simp add: point_from_lparam_def) linarith
  show "\<bar>py (point_from_lparam l) - py (point_from_lparam k)\<bar> < 2 ^ 31"
    using b [of "ucast (drop_bit 16 l)"] b [of "ucast (drop_bit 16 k)"] by (simp add: point_from_lparam_def) linarith
qed

lemma selected_indices_iff:
  "i \<in> set (marquee_selected_indices band rs initial additive)
    \<longleftrightarrow> i < length rs \<and> (rects_intersect band (rs ! i) \<or> additive \<and> i \<in> set initial)"
  by (force simp: marquee_selected_indices_def in_set_enumerate_eq)

lemma active_move:
  assumes "mq_active m" "me_left env" "bit w 0"
  shows "diagnostic_list_proc env es (MouseMove w l) (m, s) = handle_marquee_mousemove env es l (m, s)"
  using assms by (simp add: diagnostic_list_proc_def marquee_requires_left_mouse_button_pressed_flag_def
      handle_marquee_pending_mousemove_def)

definition band_visible :: "rect \<Rightarrow> marquee \<Rightarrow> bool" where
  "band_visible r m \<longleftrightarrow> odd (count_list (mq_bands m) r)"

lemma draw_visible:
  assumes "me_context env" "r_left r \<noteq> r_right r" "r_top r \<noteq> r_bottom r"
  shows "band_visible r (draw_marquee_rect env m) = (band_visible r m \<noteq> (r = points_to_rect (mq_anchor m) (mq_current m)))"
  using assms by (auto simp: band_visible_def draw_marquee_rect_def Let_def)

text \<open>A move of a running drag erases the band of the last position and draws the one of the new.\<close>

lemma move_bands:
  assumes "mq_active m" "me_context env" "r_left r \<noteq> r_right r" "r_top r \<noteq> r_bottom r"
    and m': "m' = fst (handle_marquee_mousemove env es l (m, s))"
  shows "mq_active m'" "mq_anchor m' = mq_anchor m" "mq_current m' = point_from_lparam l"
    "band_visible r m' = ((band_visible r m \<noteq> (r = points_to_rect (mq_anchor m) (mq_current m)))
       \<noteq> (r = points_to_rect (mq_anchor m) (point_from_lparam l)))"
proof -
  have drawn: "m' = draw_marquee_rect env ((draw_marquee_rect env m)\<lparr>mq_current := point_from_lparam l\<rparr>)"
    using assms(1) by (simp add: m' handle_marquee_mousemove_def Let_def)
  then show "mq_active m'" "mq_anchor m' = mq_anchor m" "mq_current m' = point_from_lparam l"
    using assms(1) by simp_all
  have "band_visible r ((draw_marquee_rect env m)\<lparr>mq_current := c\<rparr>) = band_visible r (draw_marquee_rect env m)" for c
    by (simp add: band_visible_def)
  then show "band_visible r m' = ((band_visible r m \<noteq> (r = points_to_rect (mq_anchor m) (mq_current m)))
       \<noteq> (r = points_to_rect (mq_anchor m) (point_from_lparam l)))"
    by (simp add: drawn draw_visible [OF assms(2-4)])
qed

definition drag_moves :: "marquee_env \<Rightarrow> diagnostic_event list \<Rightarrow> 64 word \<Rightarrow> 64 word list \<Rightarrow> drag \<Rightarrow> drag" where
  "drag_moves env es w ls ms = foldl (\<lambda>ms l. diagnostic_list_proc env es (MouseMove w l) ms) ms ls"

lemma later_moves:
  assumes "mq_active m" "me_left env" "bit w 0" "me_context env" "r_left r \<noteq> r_right r" "r_top r \<noteq> r_bottom r"
    and "band_visible r m = (ghost \<noteq> (r = points_to_rect (mq_anchor m) (mq_current m)))"
    and "mq_current m = point_from_lparam l"
  shows "band_visible r (fst (drag_moves env es w ls (m, s)))
    = (ghost \<noteq> (r = points_to_rect (mq_anchor m) (point_from_lparam (last (l # ls)))))"
  using assms
proof (induction ls arbitrary: m s l)
  case Nil
  then show ?case by (simp add: drag_moves_def)
next
  case (Cons k ls)
  obtain m' s' where step: "handle_marquee_mousemove env es k (m, s) = (m', s')" by (cases "handle_marquee_mousemove env es k (m, s)")
  note moved = move_bands [OF Cons.prems(1,4,5,6) refl, of es k s, unfolded step fst_conv]
  have "band_visible r m' = (ghost \<noteq> (r = points_to_rect (mq_anchor m') (mq_current m')))"
    using moved(2,3,4) Cons.prems(7) by auto
  from Cons.IH [OF moved(1) Cons.prems(2-6) this moved(3), of s'] show ?case
    using active_move [OF Cons.prems(1-3), of es k s] moved(2) by (simp add: drag_moves_def step)
qed

section \<open>Properties\<close>

text \<open>While a drag runs, a move with the button held chooses exactly the retained events whose rows the
  band touches and, with the control key held, the ones that were selected when the drag began.\<close>

theorem marquee_selects_band:
  assumes "marquee_reachable (m, s)" "mq_active m" "in_list s" "me_left env" "bit w 0"
  shows "set (in_grid_sequences (snd (diagnostic_list_proc env es (MouseMove w l) (m, s)))) =
    {q. q \<in> ev_sequence ` set es \<and> (\<exists>i<length (in_rows s). row_sequence (in_rows s) i = Some q
       \<and> (rects_intersect (points_to_rect (mq_anchor m) (point_from_lparam l)) (row_rects env s ! i)
          \<or> me_control env \<and> i \<in> set (mq_initial m)))}"
proof -
  let ?t = "update_marquee_selection env (points_to_rect (mq_anchor m) (point_from_lparam l)) m s"
  have "inspect_ok s" using marquee_reachable_ok [OF assms(1)] by (simp add: marquee_ok_def)
  then have t: "inspect_ok ?t" "in_list ?t" "in_rows ?t = in_rows s"
    using assms(3) by (simp_all add: update_marquee_selection_def ok_unaffected)
  have "snd (diagnostic_list_proc env es (MouseMove w l) (m, s)) = update_diagnostic_grid_selection es ?t"
    using assms(2) active_move [OF assms(2,4,5)]
    by (simp add: handle_marquee_mousemove_def update_marquee_selection_def Let_def)
  moreover have "set (in_selected ?t) = {i. i < length (in_rows s)
      \<and> (rects_intersect (points_to_rect (mq_anchor m) (point_from_lparam l)) (row_rects env s ! i)
         \<or> me_control env \<and> i \<in> set (mq_initial m))}"
    by (auto simp: update_marquee_selection_def selected_indices_iff row_rects_def)
  ultimately show ?thesis using updated_chosen [OF t(1,2), of es] t(3) by auto
qed

definition sample_drag_env :: marquee_env where
  "sample_drag_env = \<lparr>me_shift = False, me_control = False, me_left = True, me_cx = 4, me_cy = 4, me_context = True,
     me_rects = (\<lambda>i. Some \<lparr>r_left = 0, r_top = 20 * int i, r_right = 400, r_bottom = 20 * int i + 19\<rparr>), me_native = None\<rparr>"

definition sample_shown :: inspect where
  "sample_shown = sample_window\<lparr>in_rows := map (\<lambda>i. diagnostic_grid_row i (sample_event (of_nat i))) [1, 2, 3]\<rparr>"

definition sample_drag :: drag where
  "sample_drag = diagnostic_list_proc sample_drag_env (map sample_event [1, 2, 3]) (MouseMove 1 0x000A000A)
     (diagnostic_list_proc sample_drag_env (map sample_event [1, 2, 3]) (LButtonDown 0) (marquee_idle, sample_shown))"

lemma sample_drag_reachable: "marquee_reachable sample_drag"
proof -
  have "inspect_ok sample_shown"
    using reachable_ok [OF sample_window_reachable]
    by (simp add: inspect_ok_def sample_shown_def EVENT_BUFFER_CAP_def)
  then show ?thesis unfolding sample_drag_def by (intro marquee_step marquee_start)
qed

lemma update_rows:
  "in_rows (update_diagnostic_grid_selection es s) = in_rows s" "in_list (update_diagnostic_grid_selection es s) = in_list s"
  by (simp_all add: update_diagnostic_grid_selection_def set_selection_summary_def set_action_enabled_def Let_def)

lemma sample_points:
  "point_from_lparam 0 = \<lparr>px = 0, py = 0\<rparr>" "point_from_lparam 0x000A000A = \<lparr>px = 10, py = 10\<rparr>"
  "point_from_lparam 0x00140014 = \<lparr>px = 20, py = 20\<rparr>" "point_from_lparam 0x0020000A = \<lparr>px = 10, py = 32\<rparr>"
  by code_simp+

lemma sample_drag_state:
  "mq_active (fst sample_drag)" "in_list (snd sample_drag)" "mq_anchor (fst sample_drag) = \<lparr>px = 0, py = 0\<rparr>"
  "in_rows (snd sample_drag) = in_rows sample_shown"
  using sample_window_state(2)
  by (simp_all add: sample_drag_def diagnostic_list_proc_def should_use_native_click_selection_def call_native_def
      handle_marquee_lbuttondown_def marquee_requires_left_mouse_button_pressed_flag_def sample_drag_env_def
      handle_marquee_pending_mousemove_def handle_marquee_mousemove_def marquee_drag_exceeded_def sample_points
      marquee_idle_def update_rows update_marquee_selection_def sample_shown_def Let_def)

theorem marquee_selects_band_witness:
  "2 \<in> set (in_grid_sequences (snd (diagnostic_list_proc sample_drag_env (map sample_event [1, 2, 3]) (MouseMove 1 0x0020000A)
     (fst sample_drag, snd sample_drag))))"
proof -
  have row: "1 < length (in_rows (snd sample_drag))" "row_sequence (in_rows (snd sample_drag)) 1 = Some 2"
    using grid_row_sequence [of 1 "in_rows (snd sample_drag)" 2 "sample_event 2"]
    by (simp_all add: sample_drag_state(4) sample_shown_def sample_event_def)
  have hit: "rects_intersect (points_to_rect (mq_anchor (fst sample_drag)) (point_from_lparam 0x0020000A))
       (row_rects sample_drag_env (snd sample_drag) ! 1)" "2 \<in> ev_sequence ` set (map sample_event [1, 2, 3])"
    by (simp_all add: sample_drag_state(3,4) sample_points rects_intersect_def points_to_rect_def row_rects_def
        sample_drag_env_def sample_shown_def sample_event_def)
  have "set (in_grid_sequences (snd (diagnostic_list_proc sample_drag_env (map sample_event [1, 2, 3]) (MouseMove 1 0x0020000A)
       (fst sample_drag, snd sample_drag)))) =
    {q. q \<in> ev_sequence ` set (map sample_event [1, 2, 3]) \<and> (\<exists>i<length (in_rows (snd sample_drag)).
       row_sequence (in_rows (snd sample_drag)) i = Some q
       \<and> (rects_intersect (points_to_rect (mq_anchor (fst sample_drag)) (point_from_lparam 0x0020000A))
            (row_rects sample_drag_env (snd sample_drag) ! i)
          \<or> me_control sample_drag_env \<and> i \<in> set (mq_initial (fst sample_drag))))}"
    by (rule marquee_selects_band)
       (simp_all add: sample_drag_reachable sample_drag_state sample_drag_env_def)
  then show ?thesis using row hit by blast
qed

text \<open>The first move of a drag draws its band twice, so it shows none; every later move erases the band of
  the position before. After any later moves the bands that are visible are the one of the first move, which is
  never erased before the drag ends, and the one of the current position.\<close>

theorem marquee_ghost_band:
  assumes "mq_pending m" "\<not> mq_active m" "mq_bands m = []" "me_left env" "bit w 0" "me_context env"
    and "marquee_drag_exceeded (mq_anchor m) (point_from_lparam l) (max (me_cx env) 1) (max (me_cy env) 1)"
    and "r_left r \<noteq> r_right r" "r_top r \<noteq> r_bottom r"
  shows "band_visible r (fst (drag_moves env es w (l # ls) (m, s))) =
    ((r = points_to_rect (mq_anchor m) (point_from_lparam l))
     \<noteq> (r = points_to_rect (mq_anchor m) (point_from_lparam (last (l # ls)))))"
proof -
  obtain m1 s1 where armed: "handle_marquee_pending_mousemove env es l (m, s) = (m1, s1)"
      "mq_active m1" "mq_anchor m1 = mq_anchor m" "mq_current m1 = point_from_lparam l" "mq_bands m1 = []"
    using assms(1,2,3,7) by (simp add: handle_marquee_pending_mousemove_def Let_def)
  obtain m2 s2 where first: "handle_marquee_mousemove env es l (m1, s1) = (m2, s2)"
    by (cases "handle_marquee_mousemove env es l (m1, s1)")
  note moved = move_bands [OF armed(2) assms(6,8,9) refl, of es l s1, unfolded first fst_conv]
  have "\<not> band_visible r m1" by (simp add: band_visible_def armed(5))
  then have "band_visible r m2
      = ((r = points_to_rect (mq_anchor m) (point_from_lparam l)) \<noteq> (r = points_to_rect (mq_anchor m2) (mq_current m2)))"
    using moved(2-4) armed(3,4) by auto
  moreover have "diagnostic_list_proc env es (MouseMove w l) (m, s) = (m2, s2)"
    using assms(1,4,5) armed(1,2) first
    by (simp add: diagnostic_list_proc_def marquee_requires_left_mouse_button_pressed_flag_def Let_def)
  ultimately show ?thesis
    using later_moves [OF moved(1) assms(4-6,8,9) _ moved(3), of _ es ls s2] moved(2) armed(3) by (simp add: drag_moves_def)
qed

theorem marquee_ghost_band_witness:
  "band_visible (points_to_rect \<lparr>px = 0, py = 0\<rparr> \<lparr>px = 10, py = 10\<rparr>)
     (fst (drag_moves sample_drag_env [] 1 [0x000A000A, 0x00140014] (marquee_idle\<lparr>mq_pending := True\<rparr>, sample_shown)))"
proof -
  show ?thesis
    using marquee_ghost_band [of "marquee_idle\<lparr>mq_pending := True\<rparr>" sample_drag_env 1 "0x000A000A"
        "points_to_rect \<lparr>px = 0, py = 0\<rparr> \<lparr>px = 10, py = 10\<rparr>" "[]" "[0x00140014]" sample_shown]
    by (simp add: sample_points marquee_idle_def sample_drag_env_def marquee_drag_exceeded_def points_to_rect_def)
qed

end
