(* ===== verification/Layout.thy ===== *)
theory Layout
  imports Marquee
begin

text \<open>
  Model of \<open>apps/true-tick/src/ui/diagnostic_layout.rs\<close>, of \<open>scale_logical\<close> of \<open>tray/native.rs\<close> and of the placement
  of the controls in \<open>diagnostic_window.rs\<close>: the sizes of the diagnostic window in pixels for a resolution and a
  client area, in the saturating 32 bit arithmetic of the code.

  A window frame is computed by the system; the two calls that do it are arguments.
\<close>

section \<open>Saturating arithmetic\<close>

definition sat32 :: "int \<Rightarrow> int" where
  "sat32 x = max (- (2 ^ 31)) (min (2 ^ 31 - 1) x)"

lemma sat32_id [simp]: "- 2147483648 \<le> x \<Longrightarrow> x < 2147483648 \<Longrightarrow> sat32 x = x"
  by (simp add: sat32_def)

text \<open>The resolution is an unsigned number that the code reads as a signed one.\<close>

definition scale_logical :: "int \<Rightarrow> u32 \<Rightarrow> int" where
  "scale_logical v dpi = trunc_div (sat32 (sat32 (v * sint dpi) + 95)) 96"

section \<open>Sizes\<close>

definition DIAGNOSTIC_SUMMARY_HEIGHT :: int where "DIAGNOSTIC_SUMMARY_HEIGHT = 140"
definition DIAGNOSTIC_HUD_STATE_HEIGHT :: int where "DIAGNOSTIC_HUD_STATE_HEIGHT = 32"
definition DIAGNOSTIC_SEPARATOR_HEIGHT :: int where "DIAGNOSTIC_SEPARATOR_HEIGHT = 2"
definition DIAGNOSTIC_TOOLBAR_HEIGHT :: int where "DIAGNOSTIC_TOOLBAR_HEIGHT = 36"
definition DIAGNOSTIC_GRID_MIN_HEIGHT :: int where "DIAGNOSTIC_GRID_MIN_HEIGHT = 96"
definition DIAGNOSTIC_TOOLBAR_MARGIN :: int where "DIAGNOSTIC_TOOLBAR_MARGIN = 8"
definition DIAGNOSTIC_TOOLBAR_GAP :: int where "DIAGNOSTIC_TOOLBAR_GAP = 8"
definition DIAGNOSTIC_TOOLBAR_MIN_MESSAGE_WIDTH :: int where "DIAGNOSTIC_TOOLBAR_MIN_MESSAGE_WIDTH = 140"

definition DIAGNOSTIC_TOOLBAR_CONTROL_WIDTHS :: "int list" where
  "DIAGNOSTIC_TOOLBAR_CONTROL_WIDTHS = [64, 52, 64, 100, 54, 104, 128, 66, 124, 56, 56, 70]"

definition DIAGNOSTIC_DEFAULT_WIDTH :: int where "DIAGNOSTIC_DEFAULT_WIDTH = 1280"
definition DIAGNOSTIC_DEFAULT_HEIGHT :: int where "DIAGNOSTIC_DEFAULT_HEIGHT = 520"

lemmas layout_sizes = DIAGNOSTIC_SUMMARY_HEIGHT_def DIAGNOSTIC_HUD_STATE_HEIGHT_def DIAGNOSTIC_SEPARATOR_HEIGHT_def
  DIAGNOSTIC_TOOLBAR_HEIGHT_def DIAGNOSTIC_GRID_MIN_HEIGHT_def DIAGNOSTIC_TOOLBAR_MARGIN_def DIAGNOSTIC_TOOLBAR_GAP_def
  DIAGNOSTIC_TOOLBAR_MIN_MESSAGE_WIDTH_def DIAGNOSTIC_TOOLBAR_CONTROL_WIDTHS_def

definition dpi_floor :: "u32 \<Rightarrow> u32" where
  "dpi_floor dpi = max dpi 96"

definition diagnostic_toolbar_min_width :: "u32 \<Rightarrow> int" where
  "diagnostic_toolbar_min_width dpi =
     (let fixed_width = foldl (\<lambda>a w. sat32 (a + w)) 0 DIAGNOSTIC_TOOLBAR_CONTROL_WIDTHS;
          gaps = int (length DIAGNOSTIC_TOOLBAR_CONTROL_WIDTHS) * DIAGNOSTIC_TOOLBAR_GAP
      in scale_logical (DIAGNOSTIC_TOOLBAR_MARGIN * 2 + fixed_width + gaps + DIAGNOSTIC_TOOLBAR_MIN_MESSAGE_WIDTH)
           (dpi_floor dpi))"

definition diagnostic_min_client_height :: "u32 \<Rightarrow> int" where
  "diagnostic_min_client_height dpi =
     scale_logical (DIAGNOSTIC_SUMMARY_HEIGHT + DIAGNOSTIC_SEPARATOR_HEIGHT + DIAGNOSTIC_TOOLBAR_HEIGHT
       + DIAGNOSTIC_SEPARATOR_HEIGHT + DIAGNOSTIC_GRID_MIN_HEIGHT) (dpi_floor dpi)"

definition outer_size_from_client :: "rect \<Rightarrow> point" where
  "outer_size_from_client frame = \<lparr>px = max (r_right frame - r_left frame) 0, py = max (r_bottom frame - r_top frame) 0\<rparr>"

definition diagnostic_outer_size :: "(u32 \<Rightarrow> rect \<Rightarrow> rect option) \<Rightarrow> (rect \<Rightarrow> rect option) \<Rightarrow> int \<Rightarrow> int \<Rightarrow> u32 \<Rightarrow> point" where
  "diagnostic_outer_size adjust_for_dpi adjust client_width client_height dpi =
     (let client = \<lparr>r_left = 0, r_top = 0, r_right = client_width, r_bottom = client_height\<rparr> in
      case adjust_for_dpi dpi client of
        Some frame \<Rightarrow> outer_size_from_client frame
      | None \<Rightarrow>
          (case adjust client of
             Some frame \<Rightarrow> outer_size_from_client frame
           | None \<Rightarrow> \<lparr>px = client_width, py = client_height\<rparr>))"

definition clamp_outer_to_work_area :: "point \<Rightarrow> int \<Rightarrow> int \<Rightarrow> point" where
  "clamp_outer_to_work_area outer work_width work_height =
     (let safe_width = max work_width 320; safe_height = max work_height 240
      in \<lparr>px = max (min (px outer) safe_width) 320, py = max (min (py outer) safe_height) 240\<rparr>)"

definition diagnostic_default_outer_size :: "(u32 \<Rightarrow> rect \<Rightarrow> rect option) \<Rightarrow> (rect \<Rightarrow> rect option) \<Rightarrow> int \<Rightarrow> int \<Rightarrow> u32 \<Rightarrow> point" where
  "diagnostic_default_outer_size adjust_for_dpi adjust work_width work_height dpi =
     (let d = dpi_floor dpi
      in clamp_outer_to_work_area
           (diagnostic_outer_size adjust_for_dpi adjust (scale_logical DIAGNOSTIC_DEFAULT_WIDTH d)
             (scale_logical DIAGNOSTIC_DEFAULT_HEIGHT d) d)
           (max work_width 0) (max work_height 0))"

section \<open>Layout\<close>

record layout_rect =
  lr_left :: int
  lr_top :: int
  lr_width :: int
  lr_height :: int

text \<open>The twelve controls of the toolbar from left to right, and the message behind them.\<close>

record toolbar_layout =
  tb_controls :: "layout_rect list"
  tb_message :: layout_rect

record diagnostic_layout =
  ly_hud_state :: layout_rect
  ly_summary :: layout_rect
  ly_hud_separator :: layout_rect
  ly_toolbar :: toolbar_layout
  ly_toolbar_separator :: layout_rect
  ly_list :: layout_rect

fun place_row :: "int \<Rightarrow> int \<Rightarrow> int \<Rightarrow> int \<Rightarrow> int list \<Rightarrow> layout_rect list \<times> int" where
  "place_row cursor gap row_top row_height [] = ([], cursor)"
| "place_row cursor gap row_top row_height (w # ws) =
     (let (rs, rest) = place_row (sat32 (sat32 (cursor + w) + gap)) gap row_top row_height ws
      in (\<lparr>lr_left = cursor, lr_top = row_top, lr_width = w, lr_height = row_height\<rparr> # rs, rest))"

definition diagnostic_toolbar_layout :: "int \<Rightarrow> int \<Rightarrow> int \<Rightarrow> u32 \<Rightarrow> toolbar_layout" where
  "diagnostic_toolbar_layout width band_top height dpi =
     (let d = dpi_floor dpi;
          row_height = min (scale_logical 24 d) (max height 0);
          row_top = sat32 (band_top + trunc_div (sat32 (height - row_height)) 2);
          gap = scale_logical DIAGNOSTIC_TOOLBAR_GAP d;
          margin = scale_logical DIAGNOSTIC_TOOLBAR_MARGIN d;
          widths = map (\<lambda>v. scale_logical v d) DIAGNOSTIC_TOOLBAR_CONTROL_WIDTHS;
          (controls, message_left) = place_row margin gap row_top row_height widths;
          message_width = max (sat32 (sat32 (width - message_left) - margin))
            (scale_logical DIAGNOSTIC_TOOLBAR_MIN_MESSAGE_WIDTH d)
      in \<lparr>tb_controls = controls,
          tb_message = \<lparr>lr_left = message_left, lr_top = row_top, lr_width = message_width, lr_height = row_height\<rparr>\<rparr>)"

definition diagnostic_layout_of :: "int \<Rightarrow> int \<Rightarrow> u32 \<Rightarrow> diagnostic_layout" where
  "diagnostic_layout_of width height dpi =
     (let d = dpi_floor dpi;
          full_hud = scale_logical DIAGNOSTIC_SUMMARY_HEIGHT d;
          state_height = scale_logical DIAGNOSTIC_HUD_STATE_HEIGHT d;
          separator_height = scale_logical DIAGNOSTIC_SEPARATOR_HEIGHT d;
          toolbar_height = scale_logical DIAGNOSTIC_TOOLBAR_HEIGHT d;
          grid_minimum = scale_logical DIAGNOSTIC_GRID_MIN_HEIGHT d;
          margin = scale_logical DIAGNOSTIC_TOOLBAR_MARGIN d;
          margins = scale_logical (DIAGNOSTIC_TOOLBAR_MARGIN * 2) d;
          available_hud = max (sat32 (sat32 (sat32 (sat32 (height - separator_height) - toolbar_height) - separator_height)
            - grid_minimum)) 0;
          hud_height = min full_hud available_hud;
          toolbar_top = sat32 (hud_height + separator_height);
          toolbar_separator_top = sat32 (toolbar_top + toolbar_height);
          list_top = sat32 (toolbar_separator_top + separator_height)
      in \<lparr>ly_hud_state = \<lparr>lr_left = margin, lr_top = margin, lr_width = max (sat32 (width - margins)) 0,
            lr_height = state_height\<rparr>,
          ly_summary = \<lparr>lr_left = margin, lr_top = sat32 (state_height + margin), lr_width = max (sat32 (width - margins)) 0,
            lr_height = max (sat32 (sat32 (hud_height - state_height) - margins)) 0\<rparr>,
          ly_hud_separator = \<lparr>lr_left = 0, lr_top = hud_height, lr_width = max width 0, lr_height = separator_height\<rparr>,
          ly_toolbar = diagnostic_toolbar_layout width toolbar_top toolbar_height d,
          ly_toolbar_separator = \<lparr>lr_left = 0, lr_top = toolbar_separator_top, lr_width = max width 0,
            lr_height = separator_height\<rparr>,
          ly_list = \<lparr>lr_left = 0, lr_top = list_top, lr_width = max width 0, lr_height = max (sat32 (height - list_top)) 0\<rparr>\<rparr>)"

section \<open>Placing the controls\<close>

text \<open>
  A control is its handle or missing. A handle that is no window and an empty rectangle are skipped; a missing
  control and a failing call end the loop. The positions are a function of the handle.
\<close>

record place_calls =
  pl_is_window :: "nat \<Rightarrow> bool"
  pl_set :: "nat \<Rightarrow> bool"

primrec apply_diagnostic_layout :: "place_calls \<Rightarrow> (nat option \<times> layout_rect) list \<Rightarrow> (nat \<Rightarrow> layout_rect option)
    \<Rightarrow> bool \<times> (nat \<Rightarrow> layout_rect option)" where
  "apply_diagnostic_layout pc [] at = (True, at)"
| "apply_diagnostic_layout pc (cr # crs) at =
     (case cr of
        (None, _) \<Rightarrow> (False, at)
      | (Some c, r) \<Rightarrow>
          if \<not> pl_is_window pc c \<or> lr_width r \<le> 0 \<or> lr_height r \<le> 0 then apply_diagnostic_layout pc crs at
          else if \<not> pl_set pc c then (False, at)
          else apply_diagnostic_layout pc crs (at(c \<mapsto> r)))"

definition layout_rects :: "diagnostic_layout \<Rightarrow> layout_rect list" where
  "layout_rects y = [ly_hud_state y, ly_summary y, ly_hud_separator y, ly_toolbar_separator y]
     @ tb_controls (ly_toolbar y) @ [tb_message (ly_toolbar y), ly_list y]"

definition layout_diagnostic_controls :: "place_calls \<Rightarrow> rect option \<Rightarrow> u32 \<Rightarrow> nat option list \<Rightarrow> (nat \<Rightarrow> layout_rect option)
    \<Rightarrow> bool \<times> (nat \<Rightarrow> layout_rect option)" where
  "layout_diagnostic_controls pc client dpi controls at =
     (case client of
        None \<Rightarrow> (False, at)
      | Some c \<Rightarrow>
          apply_diagnostic_layout pc
            (zip controls (layout_rects (diagnostic_layout_of (max (r_right c - r_left c) 0) (max (r_bottom c - r_top c) 0)
               (dpi_floor dpi)))) at)"

section \<open>Scaling\<close>

text \<open>The resolutions for which nothing saturates, far beyond any that occurs.\<close>

definition sane_dpi :: "u32 \<Rightarrow> bool" where
  "sane_dpi dpi \<longleftrightarrow> 96 \<le> uint dpi \<and> uint dpi \<le> 1000000"

lemma dpi_floor_id: "sane_dpi dpi \<Longrightarrow> dpi_floor dpi = dpi"
  by (simp add: sane_dpi_def dpi_floor_def max.absorb1 word_le_def)

lemma scale_bounds:
  assumes "sane_dpi dpi" "0 \<le> v" "v \<le> 1300"
  shows "v * uint dpi \<le> 96 * scale_logical v dpi" "96 * scale_logical v dpi \<le> v * uint dpi + 95"
    "0 \<le> scale_logical v dpi" "scale_logical v dpi \<le> 14000000"
proof -
  let ?d = "uint dpi"
  have d: "0 \<le> ?d" "?d \<le> 1000000" using assms(1) by (simp_all add: sane_dpi_def)
  have "- (2 ^ 31) \<le> (0 :: int)" by simp
  then have "- (2 ^ 31) \<le> ?d" using d(1) by (rule order_trans)
  then have "signed_take_bit 31 ?d = ?d" using d(2) by (intro signed_take_bit_int_eq_self) simp_all
  then have "sint dpi = ?d" by (simp add: sint_uint)
  moreover have vd: "0 \<le> v * ?d" "v * ?d \<le> 1300 * 1000000"
    using mult_mono [of v 1300 ?d 1000000] assms(2,3) d by simp_all
  ultimately have s: "scale_logical v dpi = (v * ?d + 95) div 96"
    by (simp add: scale_logical_def trunc_div_nonneg)
  show "v * ?d \<le> 96 * scale_logical v dpi" "96 * scale_logical v dpi \<le> v * ?d + 95" unfolding s by linarith+
  show "0 \<le> scale_logical v dpi" "scale_logical v dpi \<le> 14000000" using vd unfolding s by linarith+
qed

lemma toolbar_row:
  assumes "sane_dpi dpi" "0 \<le> t" "t \<le> 100000000"
  shows "lr_top (tb_message (diagnostic_toolbar_layout width t (scale_logical 36 dpi) dpi)) \<ge> t"
    "lr_top (tb_message (diagnostic_toolbar_layout width t (scale_logical 36 dpi) dpi))
     + lr_height (tb_message (diagnostic_toolbar_layout width t (scale_logical 36 dpi) dpi)) \<le> t + scale_logical 36 dpi"
proof -
  note b = scale_bounds [OF assms(1), of 36] scale_bounds [OF assms(1), of 24]
  have le: "scale_logical 24 dpi \<le> scale_logical 36 dpi" using b by linarith
  show "lr_top (tb_message (diagnostic_toolbar_layout width t (scale_logical 36 dpi) dpi)) \<ge> t"
    "lr_top (tb_message (diagnostic_toolbar_layout width t (scale_logical 36 dpi) dpi))
     + lr_height (tb_message (diagnostic_toolbar_layout width t (scale_logical 36 dpi) dpi)) \<le> t + scale_logical 36 dpi"
    using b le assms(2,3)
    by (simp_all add: diagnostic_toolbar_layout_def dpi_floor_id [OF assms(1)] trunc_div_nonneg Let_def split: prod.split)
qed

lemma layout_bands:
  assumes "sane_dpi dpi" "diagnostic_min_client_height dpi \<le> height" "height < 2147483648"
    and y_def: "y = diagnostic_layout_of width height dpi"
  shows "0 \<le> lr_top (ly_hud_separator y)"
    "lr_top (ly_summary y) + lr_height (ly_summary y) \<le> lr_top (ly_hud_separator y)"
    "lr_top (ly_toolbar_separator y) = lr_top (ly_hud_separator y) + lr_height (ly_hud_separator y) + scale_logical 36 dpi"
    "lr_top (ly_list y) = lr_top (ly_toolbar_separator y) + lr_height (ly_toolbar_separator y)"
    "lr_top (ly_list y) + lr_height (ly_list y) = height"
    "scale_logical 96 dpi \<le> lr_height (ly_list y)"
    "ly_toolbar y = diagnostic_toolbar_layout width (lr_top (ly_hud_separator y) + lr_height (ly_hud_separator y))
       (scale_logical 36 dpi) dpi"
    "lr_top (ly_hud_separator y) + lr_height (ly_hud_separator y) \<le> 100000000"
    "0 \<le> lr_height (ly_hud_separator y)"
    "0 \<le> lr_top (ly_hud_state y)" "lr_top (ly_hud_state y) + lr_height (ly_hud_state y) = lr_top (ly_summary y)"
    "scale_logical 16 dpi \<le> width \<Longrightarrow> width < 2147483648 \<Longrightarrow> r \<in> {ly_hud_state y, ly_summary y} \<Longrightarrow>
       0 \<le> lr_left r \<and> lr_left r + lr_width r \<le> width"
    "0 \<le> width \<Longrightarrow> r \<in> {ly_hud_separator y, ly_toolbar_separator y, ly_list y} \<Longrightarrow> lr_left r = 0 \<and> lr_width r = width"
proof -
  note b = scale_bounds [OF assms(1), of 140] scale_bounds [OF assms(1), of 32] scale_bounds [OF assms(1), of 2]
    scale_bounds [OF assms(1), of 36] scale_bounds [OF assms(1), of 96] scale_bounds [OF assms(1), of 8]
    scale_bounds [OF assms(1), of 16] scale_bounds [OF assms(1), of 276]
  have d: "96 \<le> uint dpi" using assms(1) by (simp add: sane_dpi_def)
  have h: "scale_logical 276 dpi \<le> height"
    using assms(2) by (simp add: diagnostic_min_client_height_def layout_sizes dpi_floor_id [OF assms(1)])
  define hud where "hud = min (scale_logical 140 dpi)
    (height - scale_logical 2 dpi - scale_logical 36 dpi - scale_logical 2 dpi - scale_logical 96 dpi)"
  have hud: "scale_logical 32 dpi + scale_logical 16 dpi \<le> hud" "hud \<le> 14000000" "scale_logical 8 dpi \<le> scale_logical 16 dpi"
    "hud + scale_logical 2 dpi + scale_logical 36 dpi + scale_logical 2 dpi + scale_logical 96 dpi \<le> height"
    using b d h by (simp_all add: hud_def)
  have step1: "sat32 (sat32 (sat32 (sat32 (height - scale_logical 2 dpi) - scale_logical 36 dpi) - scale_logical 2 dpi) - scale_logical 96 dpi)
      = height - scale_logical 2 dpi - scale_logical 36 dpi - scale_logical 2 dpi - scale_logical 96 dpi"
    using b hud(1,4) assms(3) by simp
  have step2: "max (height - scale_logical 2 dpi - scale_logical 36 dpi - scale_logical 2 dpi - scale_logical 96 dpi) 0
      = height - scale_logical 2 dpi - scale_logical 36 dpi - scale_logical 2 dpi - scale_logical 96 dpi"
    using b hud(1,4) by (intro max.absorb1) simp
  have step3: "sat32 (scale_logical 32 dpi + scale_logical 8 dpi) = scale_logical 32 dpi + scale_logical 8 dpi"
    "sat32 (hud + scale_logical 2 dpi) = hud + scale_logical 2 dpi"
    "sat32 (hud + scale_logical 2 dpi + scale_logical 36 dpi) = hud + scale_logical 2 dpi + scale_logical 36 dpi"
    "sat32 (hud + scale_logical 2 dpi + scale_logical 36 dpi + scale_logical 2 dpi)
      = hud + scale_logical 2 dpi + scale_logical 36 dpi + scale_logical 2 dpi"
    using b hud(1,2) by simp_all
  have step4: "max (sat32 (sat32 (hud - scale_logical 32 dpi) - scale_logical 16 dpi)) 0
      = hud - scale_logical 32 dpi - scale_logical 16 dpi"
    using b hud(1,2) by simp
  have step5: "max (sat32 (height - (hud + scale_logical 2 dpi + scale_logical 36 dpi + scale_logical 2 dpi))) 0
      = height - (hud + scale_logical 2 dpi + scale_logical 36 dpi + scale_logical 2 dpi)"
    using b hud(1,2,4) assms(3) by simp
  note steps = step1 step2 step3 step4 step5
  have two: "8 * 2 = (16 :: int)" by simp
  have y: "y = \<lparr>ly_hud_state = \<lparr>lr_left = scale_logical 8 dpi, lr_top = scale_logical 8 dpi,
        lr_width = max (sat32 (width - scale_logical 16 dpi)) 0, lr_height = scale_logical 32 dpi\<rparr>,
      ly_summary = \<lparr>lr_left = scale_logical 8 dpi, lr_top = scale_logical 32 dpi + scale_logical 8 dpi,
        lr_width = max (sat32 (width - scale_logical 16 dpi)) 0,
        lr_height = hud - scale_logical 32 dpi - scale_logical 16 dpi\<rparr>,
      ly_hud_separator = \<lparr>lr_left = 0, lr_top = hud, lr_width = max width 0, lr_height = scale_logical 2 dpi\<rparr>,
      ly_toolbar = diagnostic_toolbar_layout width (hud + scale_logical 2 dpi) (scale_logical 36 dpi) dpi,
      ly_toolbar_separator = \<lparr>lr_left = 0, lr_top = hud + scale_logical 2 dpi + scale_logical 36 dpi,
        lr_width = max width 0, lr_height = scale_logical 2 dpi\<rparr>,
      ly_list = \<lparr>lr_left = 0, lr_top = hud + scale_logical 2 dpi + scale_logical 36 dpi + scale_logical 2 dpi,
        lr_width = max width 0,
        lr_height = height - (hud + scale_logical 2 dpi + scale_logical 36 dpi + scale_logical 2 dpi)\<rparr>\<rparr>"
    by (simp only: y_def diagnostic_layout_of_def layout_sizes dpi_floor_id [OF assms(1)] Let_def steps two flip: hud_def)
  show "0 \<le> lr_top (ly_hud_separator y)"
    "lr_top (ly_summary y) + lr_height (ly_summary y) \<le> lr_top (ly_hud_separator y)"
    "lr_top (ly_toolbar_separator y) = lr_top (ly_hud_separator y) + lr_height (ly_hud_separator y) + scale_logical 36 dpi"
    "lr_top (ly_list y) = lr_top (ly_toolbar_separator y) + lr_height (ly_toolbar_separator y)"
    "lr_top (ly_list y) + lr_height (ly_list y) = height"
    "scale_logical 96 dpi \<le> lr_height (ly_list y)"
    "ly_toolbar y = diagnostic_toolbar_layout width (lr_top (ly_hud_separator y) + lr_height (ly_hud_separator y))
       (scale_logical 36 dpi) dpi"
    "lr_top (ly_hud_separator y) + lr_height (ly_hud_separator y) \<le> 100000000" "0 \<le> lr_height (ly_hud_separator y)"
    "0 \<le> lr_top (ly_hud_state y)" "lr_top (ly_hud_state y) + lr_height (ly_hud_state y) = lr_top (ly_summary y)"
    using b hud by (simp_all add: y)
  show "0 \<le> lr_left r \<and> lr_left r + lr_width r \<le> width"
    if "scale_logical 16 dpi \<le> width" "width < 2147483648" "r \<in> {ly_hud_state y, ly_summary y}"
  proof -
    have "sat32 (width - scale_logical 16 dpi) = width - scale_logical 16 dpi"
      using that(1,2) b by simp
    then show ?thesis
      using that(1,3) b hud(3) by (auto simp: y)
  qed
  show "lr_left r = 0 \<and> lr_width r = width" if "0 \<le> width" "r \<in> {ly_hud_separator y, ly_toolbar_separator y, ly_list y}"
    using that by (auto simp: y)
qed

text \<open>Controls placed from left to right keep the gap between any two of them.\<close>

definition left_of :: "int \<Rightarrow> layout_rect \<Rightarrow> layout_rect \<Rightarrow> bool" where
  "left_of gap a b \<longleftrightarrow> lr_left a + lr_width a + gap \<le> lr_left b"

lemma place_row_order:
  assumes "place_row cursor gap row_top row_height ws = (rs, rest)" "0 \<le> cursor" "0 \<le> gap" "\<forall>w\<in>set ws. 0 \<le> w"
    and "cursor + sum_list ws + gap * int (length ws) < 2147483648"
  shows "rest = cursor + sum_list ws + gap * int (length ws) \<and> sorted_wrt (left_of gap) rs
    \<and> (\<forall>r\<in>set rs. cursor \<le> lr_left r \<and> lr_left r + lr_width r + gap \<le> rest \<and> lr_top r = row_top \<and> lr_height r = row_height)"
  using assms
proof (induction ws arbitrary: cursor rs)
  case (Cons w ws)
  let ?c = "cursor + w + gap"
  have nonneg: "0 \<le> sum_list ws" "0 \<le> gap * int (length ws)" "0 \<le> w"
    using Cons.prems by (simp_all add: sum_list_nonneg)
  have bound: "?c + sum_list ws + gap * int (length ws) < 2147483648"
    using Cons.prems(5) by (simp add: algebra_simps)
  then have "?c < 2147483648" using nonneg by linarith
  then have next_left: "sat32 (sat32 (cursor + w) + gap) = ?c" using nonneg(3) Cons.prems(2,3) by simp
  obtain qs where qs: "place_row ?c gap row_top row_height ws = (qs, rest)"
      "rs = \<lparr>lr_left = cursor, lr_top = row_top, lr_width = w, lr_height = row_height\<rparr> # qs"
    using Cons.prems(1) by (auto simp: next_left Let_def split: prod.splits)
  have ih: "rest = ?c + sum_list ws + gap * int (length ws) \<and> sorted_wrt (left_of gap) qs
    \<and> (\<forall>r\<in>set qs. ?c \<le> lr_left r \<and> lr_left r + lr_width r + gap \<le> rest \<and> lr_top r = row_top \<and> lr_height r = row_height)"
    by (rule Cons.IH [OF qs(1)]) (use Cons.prems nonneg bound in simp_all)
  then have rest: "rest = cursor + sum_list (w # ws) + gap * int (length (w # ws))" by (simp add: algebra_simps)
  have "?c \<le> rest" using ih nonneg by linarith
  moreover have "cursor \<le> lr_left r" if "r \<in> set qs" for r
    using bspec [OF conjunct2 [OF conjunct2 [OF ih]] that] nonneg(3) Cons.prems(3) by linarith
  ultimately have "\<forall>r\<in>set rs. cursor \<le> lr_left r \<and> lr_left r + lr_width r + gap \<le> rest \<and> lr_top r = row_top
      \<and> lr_height r = row_height" "sorted_wrt (left_of gap) rs"
    using ih by (auto simp: qs(2) left_of_def)
  then show ?case using rest by blast
qed simp

lemma toolbar_order:
  assumes "sane_dpi dpi"
  shows "sorted_wrt (left_of (scale_logical 8 dpi))
      (tb_controls (diagnostic_toolbar_layout width t h dpi) @ [tb_message (diagnostic_toolbar_layout width t h dpi)])"
    "\<forall>r\<in>set (tb_controls (diagnostic_toolbar_layout width t h dpi)).
       lr_top r = lr_top (tb_message (diagnostic_toolbar_layout width t h dpi))
       \<and> lr_height r = lr_height (tb_message (diagnostic_toolbar_layout width t h dpi))"
proof -
  let ?ws = "map (\<lambda>v. scale_logical v dpi) DIAGNOSTIC_TOOLBAR_CONTROL_WIDTHS"
  let ?rh = "min (scale_logical 24 dpi) (max h 0)"
  let ?rt = "sat32 (t + trunc_div (sat32 (h - ?rh)) 2)"
  obtain rs rest where rs: "place_row (scale_logical 8 dpi) (scale_logical 8 dpi) ?rt ?rh ?ws = (rs, rest)"
    by (cases "place_row (scale_logical 8 dpi) (scale_logical 8 dpi) ?rt ?rh ?ws")
  have small: "0 \<le> scale_logical v dpi \<and> scale_logical v dpi \<le> 14000000" if "0 \<le> v" "v \<le> 1300" for v
    using scale_bounds(3,4) [OF assms that] by simp
  have nonneg: "\<forall>w\<in>set ?ws. 0 \<le> w" using small by (simp add: DIAGNOSTIC_TOOLBAR_CONTROL_WIDTHS_def)
  have "sum_list ?ws \<le> 12 * 14000000"
    using small [of 64] small [of 52] small [of 100] small [of 54] small [of 104] small [of 128] small [of 66]
      small [of 124] small [of 56] small [of 70] by (simp add: DIAGNOSTIC_TOOLBAR_CONTROL_WIDTHS_def)
  moreover have "length ?ws = 12" by (simp add: DIAGNOSTIC_TOOLBAR_CONTROL_WIDTHS_def)
  ultimately have "scale_logical 8 dpi + sum_list ?ws + scale_logical 8 dpi * int (length ?ws) < 2147483648"
    using small [of 8] by simp
  then have order: "sorted_wrt (left_of (scale_logical 8 dpi)) rs
    \<and> (\<forall>r\<in>set rs. lr_left r + lr_width r + scale_logical 8 dpi \<le> rest \<and> lr_top r = ?rt \<and> lr_height r = ?rh)"
    using place_row_order [OF rs _ _ nonneg] small [of 8] by auto
  have layout: "tb_controls (diagnostic_toolbar_layout width t h dpi) = rs"
    "lr_left (tb_message (diagnostic_toolbar_layout width t h dpi)) = rest"
    "lr_top (tb_message (diagnostic_toolbar_layout width t h dpi)) = ?rt"
    "lr_height (tb_message (diagnostic_toolbar_layout width t h dpi)) = ?rh"
    using rs by (simp_all add: diagnostic_toolbar_layout_def dpi_floor_id [OF assms] DIAGNOSTIC_TOOLBAR_GAP_def
        DIAGNOSTIC_TOOLBAR_MARGIN_def Let_def)
  show "sorted_wrt (left_of (scale_logical 8 dpi))
      (tb_controls (diagnostic_toolbar_layout width t h dpi) @ [tb_message (diagnostic_toolbar_layout width t h dpi)])"
    using order by (simp add: sorted_wrt_append layout left_of_def)
  show "\<forall>r\<in>set (tb_controls (diagnostic_toolbar_layout width t h dpi)).
       lr_top r = lr_top (tb_message (diagnostic_toolbar_layout width t h dpi))
       \<and> lr_height r = lr_height (tb_message (diagnostic_toolbar_layout width t h dpi))"
    using order by (simp add: layout)
qed

section \<open>Properties\<close>

text \<open>C35: The parts of the diagnostic window do not overlap. For a resolution between 96 and a million dots per inch, from the
  minimum height on and for a width that holds the two margins, the parts lie below each other and end with the
  client area: the state line, the summary, a line, the toolbar, a line and the list, which keeps its minimum height and
  ends at the lower edge. The state line and the summary stay within the width, and the lines and the list span it. The controls of
  the toolbar stand beside each other with the gap between them, inside the band of the toolbar; whether the
  row of controls fits the width is not part of this, and at some resolutions it does not.\<close>

theorem diagnostic_layout_tiles:
  assumes "sane_dpi dpi" "diagnostic_min_client_height dpi \<le> height" "height < 2147483648"
    and "scale_logical 16 dpi \<le> width" "width < 2147483648"
  shows "case diagnostic_layout_of width height dpi of y \<Rightarrow>
    0 \<le> lr_top (ly_hud_state y) \<and> lr_top (ly_hud_state y) + lr_height (ly_hud_state y) \<le> lr_top (ly_summary y)
    \<and> lr_top (ly_summary y) + lr_height (ly_summary y) \<le> lr_top (ly_hud_separator y)
    \<and> (\<forall>r\<in>set (tb_controls (ly_toolbar y) @ [tb_message (ly_toolbar y)]).
         lr_top (ly_hud_separator y) + lr_height (ly_hud_separator y) \<le> lr_top r
         \<and> lr_top r + lr_height r \<le> lr_top (ly_toolbar_separator y))
    \<and> sorted_wrt (left_of (scale_logical 8 dpi)) (tb_controls (ly_toolbar y) @ [tb_message (ly_toolbar y)])
    \<and> lr_top (ly_list y) = lr_top (ly_toolbar_separator y) + lr_height (ly_toolbar_separator y)
    \<and> lr_top (ly_list y) + lr_height (ly_list y) = height \<and> scale_logical 96 dpi \<le> lr_height (ly_list y)
    \<and> (\<forall>r\<in>{ly_hud_state y, ly_summary y}. 0 \<le> lr_left r \<and> lr_left r + lr_width r \<le> width)
    \<and> (\<forall>r\<in>{ly_hud_separator y, ly_toolbar_separator y, ly_list y}. lr_left r = 0 \<and> lr_width r = width)"
proof -
  define y where "y = diagnostic_layout_of width height dpi"
  note bands = layout_bands [OF assms(1-3) y_def]
  have "0 \<le> lr_top (ly_hud_separator y) + lr_height (ly_hud_separator y)" using bands(1,9) by simp
  note row = toolbar_row [OF assms(1) this bands(8), of width, folded bands(7) bands(3)]
  note order = toolbar_order [OF assms(1), of width "lr_top (ly_hud_separator y) + lr_height (ly_hud_separator y)"
      "scale_logical 36 dpi", folded bands(7)]
  have "\<forall>r\<in>set (tb_controls (ly_toolbar y) @ [tb_message (ly_toolbar y)]).
         lr_top (ly_hud_separator y) + lr_height (ly_hud_separator y) \<le> lr_top r
         \<and> lr_top r + lr_height r \<le> lr_top (ly_toolbar_separator y)"
    using row order(2) by auto
  moreover have "sorted_wrt (left_of (scale_logical 8 dpi)) (tb_controls (ly_toolbar y) @ [tb_message (ly_toolbar y)])"
    by (rule order(1))
  moreover have "\<forall>r\<in>{ly_hud_state y, ly_summary y}. 0 \<le> lr_left r \<and> lr_left r + lr_width r \<le> width"
    using bands(12) assms(4,5) by blast
  moreover have "0 \<le> width"
    using scale_bounds(3) [OF assms(1), of 16] assms(4) by simp
  then have "\<forall>r\<in>{ly_hud_separator y, ly_toolbar_separator y, ly_list y}. lr_left r = 0 \<and> lr_width r = width"
    using bands(13) by blast
  moreover have "lr_top (ly_hud_state y) + lr_height (ly_hud_state y) \<le> lr_top (ly_summary y)"
    using bands(11) by simp
  ultimately show ?thesis using bands(2,4,5,6,10) unfolding y_def [symmetric] by blast
qed

theorem diagnostic_layout_tiles_witness:
  "case diagnostic_layout_of 1300 400 120 of y \<Rightarrow>
     lr_top (ly_hud_state y) + lr_height (ly_hud_state y) \<le> lr_top (ly_summary y) \<and> lr_top (ly_list y) + lr_height (ly_list y) = 400 \<and> scale_logical 96 120 \<le> lr_height (ly_list y)"
proof -
  have "sane_dpi 120" "diagnostic_min_client_height 120 \<le> 400" "scale_logical 16 120 \<le> 1300" by code_simp+
  from diagnostic_layout_tiles [OF this(1,2) _ this(3)] show ?thesis by simp
qed

text \<open>
  The minimum width is the sum of the parts scaled at once, while every part of the row is rounded up on its
  own: at a resolution that is no multiple of twelve the row may be wider than the narrowest window.
\<close>

lemma minimum_width_too_small:
  "case tb_message (diagnostic_toolbar_layout (diagnostic_toolbar_min_width 97) 0 40 97) of m \<Rightarrow>
    diagnostic_toolbar_min_width 97 < lr_left m + lr_width m"
  by code_simp

end
