(* ===== verification/Icon.thy ===== *)
theory Icon
  imports Surface
begin

text \<open>
  Model of \<open>apps/true-tick/src/tray/icon.rs\<close> and of the icon's registration in \<open>tray/surface.rs\<close> and \<open>tray/tier.rs\<close>:
  the cache that owns the icon handles, the creation of an icon from two bitmaps with every failing call, the
  update of the registered icon, and the bounded texts.

  The graphics objects are the sets of live handles. A call that creates one takes a fresh handle or fails with
  an error number; destroying one removes its handle. The tooltip is given as its UTF-16 code units, a text
  of a balloon as the list of its characters, each with its one or two code units.
\<close>

section \<open>Graphics objects\<close>

record gdi =
  live_icons :: "nat set"
  live_bitmaps :: "nat set"
  next_handle :: nat
  gdi_calls :: nat

type_synonym gdi_failures = "nat \<Rightarrow> u32 option"

definition CreateBitmap :: "gdi_failures \<Rightarrow> gdi \<Rightarrow> (u32, nat) result \<times> gdi" where
  "CreateBitmap fails g =
     (case fails (gdi_calls g) of
        Some e \<Rightarrow> (Err e, g\<lparr>gdi_calls := gdi_calls g + 1\<rparr>)
      | None \<Rightarrow> (Ok (next_handle g), g\<lparr>gdi_calls := gdi_calls g + 1, next_handle := next_handle g + 1,
                  live_bitmaps := insert (next_handle g) (live_bitmaps g)\<rparr>))"

definition CreateIconIndirect :: "gdi_failures \<Rightarrow> gdi \<Rightarrow> (u32, nat) result \<times> gdi" where
  "CreateIconIndirect fails g =
     (case fails (gdi_calls g) of
        Some e \<Rightarrow> (Err e, g\<lparr>gdi_calls := gdi_calls g + 1\<rparr>)
      | None \<Rightarrow> (Ok (next_handle g), g\<lparr>gdi_calls := gdi_calls g + 1, next_handle := next_handle g + 1,
                  live_icons := insert (next_handle g) (live_icons g)\<rparr>))"

definition DeleteObject :: "nat \<Rightarrow> gdi \<Rightarrow> gdi" where
  "DeleteObject h g = g\<lparr>live_bitmaps := live_bitmaps g - {h}\<rparr>"

definition destroy_icon :: "nat \<Rightarrow> gdi \<Rightarrow> gdi" where
  "destroy_icon h g = g\<lparr>live_icons := live_icons g - {h}\<rparr>"

section \<open>The cache\<close>

record icon_cache_key =
  ik_color :: u32
  ik_canvas :: int

type_synonym icon_cache = "(icon_cache_key \<times> nat) list"

definition MAX_ICON_CACHE_ENTRIES :: nat where
  "MAX_ICON_CACHE_ENTRIES = 32"

definition clamp_canvas_size :: "int \<Rightarrow> int" where
  "clamp_canvas_size canvas = (if canvas \<in> {16, 20, 24, 32, 64} then canvas else 16)"

definition dpi_for_window :: "u32 \<Rightarrow> u32" where
  "dpi_for_window dpi = (if dpi = 0 then 96 else dpi)"

definition mask_buffer_len :: "int \<Rightarrow> int" where
  "mask_buffer_len canvas = ((canvas + 31) div 32) * 4 * canvas"

definition status_icon :: "gdi_failures \<Rightarrow> gdi \<Rightarrow> (u32, nat) result \<times> gdi" where
  "status_icon fails g =
     (case CreateBitmap fails g of
        (Inl e, g1) \<Rightarrow> (Err e, g1)
      | (Inr bitmap, g1) \<Rightarrow>
          (case CreateBitmap fails g1 of
             (Inl e, g2) \<Rightarrow> (Err e, DeleteObject bitmap g2)
           | (Inr mask_bitmap, g2) \<Rightarrow>
               (case CreateIconIndirect fails g2 of
                  (Inl e, g3) \<Rightarrow> (Err e, DeleteObject mask_bitmap (DeleteObject bitmap g3))
                | (Inr icon, g3) \<Rightarrow> (Ok icon, DeleteObject mask_bitmap (DeleteObject bitmap g3)))))"

text \<open>A hit moves to the back of the cache; the front is the entry unused for longest.\<close>

definition cached_icon_handle :: "icon_cache_key \<Rightarrow> icon_cache \<Rightarrow> nat option \<times> icon_cache" where
  "cached_icon_handle key cache =
     (case map_of cache key of
        None \<Rightarrow> (None, cache)
      | Some h \<Rightarrow> (Some h, remove1 (key, h) cache @ [(key, h)]))"

definition cache_icon_handle :: "icon_cache_key \<Rightarrow> nat \<Rightarrow> icon_cache \<times> gdi \<Rightarrow> icon_cache \<times> gdi" where
  "cache_icon_handle key h cg =
     (case cg of (cache, g) \<Rightarrow>
        (case map_of cache key of
           Some old \<Rightarrow> (remove1 (key, old) cache @ [(key, h)], g)
         | None \<Rightarrow>
             if MAX_ICON_CACHE_ENTRIES \<le> length cache
             then (tl cache @ [(key, h)], destroy_icon (snd (hd cache)) g)
             else (cache @ [(key, h)], g)))"

definition clear_icon_cache :: "icon_cache \<times> gdi \<Rightarrow> icon_cache \<times> gdi" where
  "clear_icon_cache cg = (case cg of (cache, g) \<Rightarrow> ([], fold destroy_icon (map snd cache) g))"

definition status_key :: "tray_status \<Rightarrow> u32 \<Rightarrow> icon_cache_key" where
  "status_key st dpi = \<lparr>ik_color = icon_pixel_color st, ik_canvas = clamp_canvas_size (dpi_to_icon_canvas dpi)\<rparr>"

definition shared_status_icon :: "gdi_failures \<Rightarrow> tray_status \<Rightarrow> u32 \<Rightarrow> icon_cache \<times> gdi
    \<Rightarrow> (u32, nat) result \<times> icon_cache \<times> gdi" where
  "shared_status_icon fails st dpi cg =
     (case cg of (cache, g) \<Rightarrow>
        let key = status_key st dpi in
        (case cached_icon_handle key cache of
           (Some h, cache1) \<Rightarrow> (Ok h, cache1, g)
         | (None, cache1) \<Rightarrow>
             (case status_icon fails g of
                (Inl e, g1) \<Rightarrow> (Err e, cache1, g1)
              | (Inr h, g1) \<Rightarrow> (Ok h, cache_icon_handle key h (cache1, g1)))))"

section \<open>The registered icon\<close>

record notify_icon =
  ni_icon :: nat
  ni_tip :: "u16 list"
  ni_info :: "u16 list"
  ni_info_title :: "u16 list"
  ni_info_flags :: u32
  ni_flags :: u32

definition fill_tip :: "u16 list \<Rightarrow> u16 list" where
  "fill_tip units = take 128 units @ replicate (128 - length units) 0"

fun units_fitting :: "nat \<Rightarrow> u16 list list \<Rightarrow> u16 list" where
  "units_fitting room [] = []"
| "units_fitting room (c # cs) = (if room < length c then [] else c @ units_fitting (room - length c) cs)"

definition truncate_utf16_into_buffer :: "nat \<Rightarrow> u16 list list \<Rightarrow> u16 list" where
  "truncate_utf16_into_buffer capacity chars =
     (if capacity = 0 then []
      else let written = units_fitting (capacity - 1) chars in written @ replicate (capacity - length written) 0)"

definition notify_icon_new :: "gdi_failures \<Rightarrow> tray_status \<Rightarrow> u32 \<Rightarrow> u16 list \<Rightarrow> icon_cache \<times> gdi
    \<Rightarrow> (u32, notify_icon) result \<times> icon_cache \<times> gdi" where
  "notify_icon_new fails st dpi tip cg =
     (case shared_status_icon fails st (dpi_for_window dpi) cg of
        (Inl e, cg1) \<Rightarrow> (Err e, cg1)
      | (Inr h, cg1) \<Rightarrow>
          (Ok \<lparr>ni_icon = h, ni_tip = fill_tip tip, ni_info = replicate 256 0, ni_info_title = replicate 64 0, ni_info_flags = 0,
             ni_flags = 7\<rparr>, cg1))"

text \<open>The result of the shell's modify call: an error number or success. A balloon sets its flag for the call only.\<close>

definition refresh_tooltip_only :: "u32 option \<Rightarrow> u16 list \<Rightarrow> notify_icon \<Rightarrow> (u32, unit) result \<times> notify_icon" where
  "refresh_tooltip_only modify tip icon =
     ((case modify of Some e \<Rightarrow> Err e | None \<Rightarrow> Ok ()), icon\<lparr>ni_tip := fill_tip tip\<rparr>)"

definition update_icon :: "gdi_failures \<Rightarrow> u32 option \<Rightarrow> tray_status \<Rightarrow> u32 \<Rightarrow> u16 list \<Rightarrow> notify_icon \<Rightarrow> icon_cache \<times> gdi
    \<Rightarrow> (u32, unit) result \<times> notify_icon \<times> icon_cache \<times> gdi" where
  "update_icon fails modify st dpi tip icon cg =
     (case shared_status_icon fails st (dpi_for_window dpi) cg of
        (Inl e, cg1) \<Rightarrow> (Err e, icon, cg1)
      | (Inr h, cg1) \<Rightarrow>
          if h = ni_icon icon then
            (case refresh_tooltip_only modify tip icon of (r, icon1) \<Rightarrow> (r, icon1, cg1))
          else case modify of
            Some e \<Rightarrow> (Err e, icon, cg1)
          | None \<Rightarrow> (Ok (), icon\<lparr>ni_icon := h, ni_tip := fill_tip tip\<rparr>, cg1))"

definition show_balloon :: "u32 option \<Rightarrow> u16 list list \<Rightarrow> u16 list list \<Rightarrow> bool \<Rightarrow> notify_icon \<Rightarrow> (u32, unit) result \<times> notify_icon" where
  "show_balloon modify title body warning icon =
     ((case modify of Some e \<Rightarrow> Err e | None \<Rightarrow> Ok ()),
      icon\<lparr>ni_info_title := truncate_utf16_into_buffer 64 title, ni_info := truncate_utf16_into_buffer 256 body,
        ni_info_flags := (if warning then 2 else 1)\<rparr>)"

section \<open>The icon of the tray\<close>

record icon_world =
  iw_cache :: icon_cache
  iw_gdi :: gdi
  iw_shown :: "notify_icon option"

definition icon_world_new :: icon_world where
  "icon_world_new = \<lparr>iw_cache = [], iw_gdi = \<lparr>live_icons = {}, live_bitmaps = {}, next_handle = 1, gdi_calls = 0\<rparr>, iw_shown = None\<rparr>"

text \<open>
  Registering the icon at startup, when the task bar is created again and in the recovery of the surface. A
  failed call leaves no icon after the task bar was created again, and what there was in the recovery.
\<close>

definition register_icon :: "gdi_failures \<Rightarrow> u32 option \<Rightarrow> bool \<Rightarrow> tray_status \<Rightarrow> u32 \<Rightarrow> u16 list \<Rightarrow> icon_world \<Rightarrow> bool \<times> icon_world" where
  "register_icon fails add recovery st dpi tip w =
     (let failed = (\<lambda>cg. (False, w\<lparr>iw_cache := fst cg, iw_gdi := snd cg, iw_shown := (if recovery then iw_shown w else None)\<rparr>)) in
      case notify_icon_new fails st dpi tip (iw_cache w, iw_gdi w) of
        (Inl e, cg) \<Rightarrow> failed cg
      | (Inr icon, cg) \<Rightarrow>
          if add \<noteq> None then failed cg
          else (True, w\<lparr>iw_cache := fst cg, iw_gdi := snd cg, iw_shown := Some icon\<rparr>))"

text \<open>The part of \<open>publish\<close> that updates the icon: a failed update gives the icon up.\<close>

definition publish_icon :: "gdi_failures \<Rightarrow> u32 option \<Rightarrow> tray_status \<Rightarrow> u32 \<Rightarrow> u16 list \<Rightarrow> icon_world \<Rightarrow> icon_world" where
  "publish_icon fails modify st dpi tip w =
     (case iw_shown w of
        None \<Rightarrow> w
      | Some icon \<Rightarrow>
          (case update_icon fails modify st dpi tip icon (iw_cache w, iw_gdi w) of
             (Inl _, _, cg) \<Rightarrow> w\<lparr>iw_cache := fst cg, iw_gdi := snd cg, iw_shown := None\<rparr>
           | (Inr _, icon1, cg) \<Rightarrow> w\<lparr>iw_cache := fst cg, iw_gdi := snd cg, iw_shown := Some icon1\<rparr>))"

definition balloon_icon :: "u32 option \<Rightarrow> u16 list list \<Rightarrow> u16 list list \<Rightarrow> bool \<Rightarrow> icon_world \<Rightarrow> icon_world" where
  "balloon_icon modify title body warning w = w\<lparr>iw_shown := map_option (\<lambda>i. snd (show_balloon modify title body warning i)) (iw_shown w)\<rparr>"

definition remove_tray_icon :: "icon_world \<Rightarrow> icon_world" where
  "remove_tray_icon w =
     (case clear_icon_cache (iw_cache w, iw_gdi w) of (cache, g) \<Rightarrow> w\<lparr>iw_cache := cache, iw_gdi := g, iw_shown := None\<rparr>)"

inductive icon_reachable :: "icon_world \<Rightarrow> bool" where
  icon_start: "icon_reachable icon_world_new"
| icon_register: "icon_reachable w \<Longrightarrow> icon_reachable (snd (register_icon fails add recovery st dpi tip w))"
| icon_publish: "icon_reachable w \<Longrightarrow> icon_reachable (publish_icon fails modify st dpi tip w)"
| icon_balloon: "icon_reachable w \<Longrightarrow> icon_reachable (balloon_icon modify title body warning w)"
| icon_remove: "icon_reachable w \<Longrightarrow> icon_reachable (remove_tray_icon w)"

section \<open>Ownership of the handles\<close>

definition icon_keys :: "icon_cache_key set" where
  "icon_keys = (\<lambda>(c, n). \<lparr>ik_color = c, ik_canvas = n\<rparr>) ` ({0xFF00B000, 0xFFD0D000, 0xFFD00000} \<times> {16, 20, 24, 32, 64})"

definition cache_ok :: "icon_cache \<times> gdi \<Rightarrow> bool" where
  "cache_ok cg \<longleftrightarrow> distinct (map fst (fst cg)) \<and> distinct (map snd (fst cg)) \<and> fst ` set (fst cg) \<subseteq> icon_keys
     \<and> snd ` set (fst cg) = live_icons (snd cg) \<and> live_bitmaps (snd cg) = {}
     \<and> (\<forall>h\<in>live_icons (snd cg). h < next_handle (snd cg))"

lemma status_key_known: "status_key st dpi \<in> icon_keys"
  by (cases "icon_color_of st")
     (auto simp: status_key_def icon_keys_def icon_pixel_color_def clamp_canvas_size_def)

lemma icon_keys_count: "finite icon_keys" "card icon_keys \<le> 15"
proof -
  show "finite icon_keys" by (simp add: icon_keys_def)
  have "card icon_keys \<le> card ({0xFF00B000, 0xFFD0D000, 0xFFD00000 :: u32} \<times> {16, 20, 24, 32, 64 :: int})"
    unfolding icon_keys_def by (rule card_image_le) simp
  also have "\<dots> \<le> 15" by (simp add: card_insert_if)
  finally show "card icon_keys \<le> 15" .
qed

lemma cache_bounded: "cache_ok cg \<Longrightarrow> length (fst cg) \<le> 15"
  using card_mono [OF icon_keys_count(1), of "fst ` set (fst cg)"] icon_keys_count(2)
    distinct_card [of "map fst (fst cg)"] by (simp add: cache_ok_def)

lemma moved_to_back:
  assumes "x \<in> set xs" "distinct (map f xs)"
  shows "set (remove1 x xs @ [x]) = set xs" "distinct (map f (remove1 x xs @ [x]))"
  using assms by (auto simp: distinct_map inj_on_def)

lemma cached_ok:
  assumes "cache_ok (cache, g)" "cached_icon_handle key cache = (r, cache1)"
  shows "cache_ok (cache1, g)" "r = Some h \<Longrightarrow> h \<in> live_icons g" "r = None \<Longrightarrow> cache1 = cache \<and> map_of cache key = None"
    "set cache1 = set cache"
proof -
  have hit: "(key, h) \<in> set cache" if "map_of cache key = Some h" for h using that by (rule map_of_SomeD)
  have dist: "distinct (map fst cache)" "distinct (map snd cache)" using assms(1) by (simp_all add: cache_ok_def)
  show set: "set cache1 = set cache"
    using assms(2) moved_to_back(1) [OF hit dist(1)] by (auto simp: cached_icon_handle_def split: option.splits)
  have "distinct (map fst cache1)" "distinct (map snd cache1)"
    using assms(2) dist moved_to_back(2) [OF hit dist(1)] moved_to_back(2) [OF hit dist(2)]
    by (auto simp: cached_icon_handle_def split: option.splits)
  then show "cache_ok (cache1, g)" using assms(1) set by (simp add: cache_ok_def)
  show "h \<in> live_icons g" if "r = Some h"
  proof -
    have "(key, h) \<in> set cache"
      using assms(2) that hit by (auto simp: cached_icon_handle_def split: option.splits)
    then have "h \<in> snd ` set cache" by (rule rev_image_eqI) simp
    then show ?thesis using assms(1) by (simp add: cache_ok_def)
  qed
  show "cache1 = cache \<and> map_of cache key = None" if "r = None"
    using assms(2) that by (auto simp: cached_icon_handle_def split: option.splits)
qed

lemma status_icon_result:
  assumes "status_icon fails g = (r, g1)" "live_bitmaps g = {}" "\<forall>h\<in>live_icons g. h < next_handle g"
  shows "live_bitmaps g1 = {} \<and> (\<forall>h\<in>live_icons g1. h < next_handle g1)
    \<and> (case r of Inl _ \<Rightarrow> live_icons g1 = live_icons g | Inr h \<Rightarrow> h \<notin> live_icons g \<and> live_icons g1 = insert h (live_icons g))"
proof -
  have "Suc (Suc (next_handle g)) \<notin> live_icons g" using assms(3) by force
  then show ?thesis
    using assms by (auto simp: status_icon_def CreateBitmap_def CreateIconIndirect_def DeleteObject_def less_Suc_eq
        split: option.splits)
qed

lemma shared_ok:
  assumes "cache_ok cg" "shared_status_icon fails st dpi cg = (r, cg1)"
  shows "cache_ok cg1" "live_icons (snd cg) \<subseteq> live_icons (snd cg1)" "r = Ok h \<Longrightarrow> h \<in> live_icons (snd cg1)"
proof -
  obtain cache g where cg: "cg = (cache, g)" by (cases cg)
  obtain q cache1 where look: "cached_icon_handle (status_key st dpi) cache = (q, cache1)" by force
  note found = cached_ok [OF assms(1) [unfolded cg] look]
  have all: "cache_ok cg1 \<and> live_icons g \<subseteq> live_icons (snd cg1) \<and> (r = Ok h \<longrightarrow> h \<in> live_icons (snd cg1))" for h
  proof (cases q)
    case (Some k)
    then show ?thesis using assms(2) found(1) found(2) [OF Some] by (auto simp: shared_status_icon_def cg look)
  next
    case None
    obtain t g1 where made: "status_icon fails g = (t, g1)" by force
    have old: "live_bitmaps g = {}" "\<forall>h\<in>live_icons g. h < next_handle g" using assms(1) by (simp_all add: cache_ok_def cg)
    note fresh = status_icon_result [OF made old]
    show ?thesis
    proof (cases t)
      case (Inl e)
      then have "cg1 = (cache, g1)" "r = Err e"
        using assms(2) None found(3) [OF None] by (simp_all add: shared_status_icon_def cg look made)
      then show ?thesis using assms(1) fresh Inl by (simp add: cg cache_ok_def)
    next
      case (Inr k)
      have room: "\<not> MAX_ICON_CACHE_ENTRIES \<le> length cache"
        using cache_bounded [OF assms(1)] by (simp add: cg MAX_ICON_CACHE_ENTRIES_def)
      have cg1: "cg1 = (cache @ [(status_key st dpi, k)], g1)" "r = Ok k"
        using assms(2) Inr None room found(3) [OF None]
        by (simp_all add: shared_status_icon_def cg look made cache_icon_handle_def)
      have "status_key st dpi \<notin> fst ` set cache" using found(3) [OF None] by (simp add: map_of_eq_None_iff)
      then show ?thesis using assms(1) fresh status_key_known [of st dpi]
        by (simp add: cg1 cache_ok_def cg Inr subset_insertI)
    qed
  qed
  then show "cache_ok cg1" "live_icons (snd cg) \<subseteq> live_icons (snd cg1)" "r = Ok h \<Longrightarrow> h \<in> live_icons (snd cg1)"
    by (simp_all add: cg)
qed

definition icons_ok :: "icon_world \<Rightarrow> bool" where
  "icons_ok w \<longleftrightarrow> cache_ok (iw_cache w, iw_gdi w)
     \<and> (case iw_shown w of None \<Rightarrow> True | Some icon \<Rightarrow> ni_icon icon \<in> live_icons (iw_gdi w))"

lemma register_ok: "icons_ok w \<Longrightarrow> icons_ok (snd (register_icon fails add recovery st dpi tip w))"
proof -
  assume ok: "icons_ok w"
  obtain r cache g where look: "shared_status_icon fails st (dpi_for_window dpi) (iw_cache w, iw_gdi w) = (r, cache, g)"
    by (cases "shared_status_icon fails st (dpi_for_window dpi) (iw_cache w, iw_gdi w)")
  note shared = shared_ok [OF conjunct1 [OF ok [unfolded icons_ok_def]] look]
  show ?thesis
    using ok shared by (cases r) (auto simp: icons_ok_def register_icon_def notify_icon_new_def look Let_def split: option.splits)
qed

lemma publish_ok: "icons_ok w \<Longrightarrow> icons_ok (publish_icon fails modify st dpi tip w)"
proof -
  assume ok: "icons_ok w"
  obtain r cache g where look: "shared_status_icon fails st (dpi_for_window dpi) (iw_cache w, iw_gdi w) = (r, cache, g)"
    by (cases "shared_status_icon fails st (dpi_for_window dpi) (iw_cache w, iw_gdi w)")
  note shared = shared_ok [OF conjunct1 [OF ok [unfolded icons_ok_def]] look]
  show ?thesis
    using ok shared by (cases r) (auto simp: icons_ok_def publish_icon_def update_icon_def refresh_tooltip_only_def look
        split: option.splits)
qed

lemma balloon_ok: "icons_ok w \<Longrightarrow> icons_ok (balloon_icon modify title body warning w)"
  by (cases "iw_shown w") (simp_all add: icons_ok_def balloon_icon_def show_balloon_def)

lemma destroy_all: "fold destroy_icon hs g = g\<lparr>live_icons := live_icons g - set hs\<rparr>"
proof (induction hs arbitrary: g)
  case (Cons h hs)
  have "live_icons g - {h} - set hs = live_icons g - set (h # hs)" by auto
  then show ?case by (simp add: Cons.IH destroy_icon_def [of h])
qed simp

lemma removed_icon: "icons_ok w \<Longrightarrow> icons_ok (remove_tray_icon w) \<and> live_icons (iw_gdi (remove_tray_icon w)) = {}"
  by (auto simp: icons_ok_def remove_tray_icon_def clear_icon_cache_def destroy_all cache_ok_def)

lemma icons_new_ok: "icons_ok icon_world_new"
  by (simp add: icons_ok_def icon_world_new_def cache_ok_def)

lemma icon_reachable_ok: "icon_reachable w \<Longrightarrow> icons_ok w"
  by (induction rule: icon_reachable.induct)
     (simp_all add: icons_new_ok register_ok publish_ok balloon_ok removed_icon)

section \<open>Properties\<close>

text \<open>A balloon text is cut between characters and always terminated.\<close>

lemma units_fitting_whole: "\<exists>k. units_fitting room cs = concat (take k cs) \<and> length (units_fitting room cs) \<le> room"
proof (induction room cs rule: units_fitting.induct)
  case (2 room c cs)
  show ?case
  proof (cases "room < length c")
    case True
    then show ?thesis by (intro exI [of _ 0]) simp
  next
    case False
    then obtain k where "units_fitting (room - length c) cs = concat (take k cs)"
        "length (units_fitting (room - length c) cs) \<le> room - length c" using 2 by blast
    then show ?thesis using False by (intro exI [of _ "Suc k"]) simp
  qed
qed simp

lemma balloon_text_terminated:
  assumes "0 < capacity"
  shows "length (truncate_utf16_into_buffer capacity chars) = capacity" "last (truncate_utf16_into_buffer capacity chars) = 0"
    "\<exists>k n. truncate_utf16_into_buffer capacity chars = concat (take k chars) @ replicate n 0"
proof -
  obtain k where k: "units_fitting (capacity - 1) chars = concat (take k chars)"
      "length (units_fitting (capacity - 1) chars) \<le> capacity - 1" using units_fitting_whole by blast
  show "length (truncate_utf16_into_buffer capacity chars) = capacity" "last (truncate_utf16_into_buffer capacity chars) = 0"
    using k(2) assms by (simp_all add: truncate_utf16_into_buffer_def Let_def last_append, linarith)
  show "\<exists>k n. truncate_utf16_into_buffer capacity chars = concat (take k chars) @ replicate n 0"
    using assms k(1) by (auto simp: truncate_utf16_into_buffer_def Let_def)
qed

text \<open>C29: Whatever calls fail and however often the icon is registered, updated and removed, the icon handle the
  tray shows is live, every live icon belongs to exactly one cache entry, no bitmap is left behind, and the cache
  holds at most one icon for each of the three colours and five sizes, so it never evicts. Removing the icon
  destroys every handle.\<close>

theorem icon_handles_owned:
  assumes "icon_reachable w"
  shows "(case iw_shown w of None \<Rightarrow> True | Some icon \<Rightarrow> ni_icon icon \<in> live_icons (iw_gdi w))
    \<and> live_icons (iw_gdi w) = snd ` set (iw_cache w) \<and> distinct (map snd (iw_cache w)) \<and> live_bitmaps (iw_gdi w) = {}
    \<and> length (iw_cache w) \<le> 15 \<and> live_icons (iw_gdi (remove_tray_icon w)) = {}"
  using icon_reachable_ok [OF assms] removed_icon cache_bounded [of "(iw_cache w, iw_gdi w)"]
  by (simp add: icons_ok_def cache_ok_def)

theorem icon_handles_owned_witness:
  "live_icons (iw_gdi (publish_icon (\<lambda>_. None) None TsRunning 96 []
     (snd (register_icon (\<lambda>_. None) None False TsStopped 96 [] icon_world_new))))
   = snd ` set (iw_cache (publish_icon (\<lambda>_. None) None TsRunning 96 []
     (snd (register_icon (\<lambda>_. None) None False TsStopped 96 [] icon_world_new))))"
  using icon_handles_owned [OF icon_publish [OF icon_register [OF icon_start]], of "\<lambda>_. None" None TsRunning 96 "[]"
      "\<lambda>_. None" None False TsStopped 96 "[]"] by blast

end
