(* ===== verification/Logging.thy ===== *)
theory Logging
  imports Retention Startup
begin

text \<open>
  Model of \<open>apps/true-tick/src/logging/mod.rs\<close>: the daily comma separated log, the rows that are built
  from the retained events, the append with its free space check, header and retention, the flush on the
  calling thread, and the flush that hands its rows to a writer thread.

  The log directory is a map from file names to texts. The outcome of every file system call is an
  argument: an error is its kind, and a write that fails may leave a part of its text. The concurrent
  use of the two flushes is a step relation over the shared state (events, log text, committed sequence
  and the flag of the writer), each step being one access to it.
\<close>

section \<open>Names and rows\<close>

definition MIN_FREE_BYTES_BEFORE_WRITE :: u64 where
  "MIN_FREE_BYTES_BEFORE_WRITE = 50 * 1024 * 1024"

definition directory_beside :: "string \<Rightarrow> path \<Rightarrow> path" where
  "directory_beside name executable =
     (case portable_root_from_slot_executable executable of
        Inr root \<Rightarrow> join name (join ''Data'' root)
      | Inl _ \<Rightarrow>
          join name (case parent executable of Some d \<Rightarrow> d | None \<Rightarrow> \<lparr>path_prefix = [], path_parts = [''.'']\<rparr>))"

definition resolve_log_directory :: "path \<Rightarrow> path" where
  "resolve_log_directory executable = directory_beside ''logs'' executable"

definition resolve_state_directory :: "path \<Rightarrow> path" where
  "resolve_state_directory executable = directory_beside ''state'' executable"

definition daily_log_filename :: "nat \<times> nat \<times> nat \<Rightarrow> string" where
  "daily_log_filename date =
     (case date of (year, month, day) \<Rightarrow> ''true-tick-'' @ format_ymd (int year) month day @ ''.csv'')"

text \<open>The seconds since the epoch are zero when the clock is before it; the casts to \<open>u16\<close> wrap around.\<close>

definition utc_date_now :: "u64 \<Rightarrow> nat \<times> nat \<times> nat" where
  "utc_date_now seconds =
     (case civil_from_days (int (unat seconds div 86400)) of
        (year, month, day) \<Rightarrow> (nat (year mod 65536), month mod 65536, day mod 65536))"

definition hex_hash_string :: "bytes \<Rightarrow> string" where
  "hex_hash_string bs =
     concat (map (\<lambda>b. [''0123456789abcdef'' ! (unat b div 16), ''0123456789abcdef'' ! (unat b mod 16)]) bs)"

definition elapsed_cell :: "string \<Rightarrow> bool" where
  "elapsed_cell rest = (case strip_suffix ''ms'' rest of None \<Rightarrow> False | Some digits \<Rightarrow> list_all is_digit digits)"

definition needs_formula_neutralization :: "string \<Rightarrow> bool" where
  "needs_formula_neutralization field =
     (let stripped = (case strip_prefix [CHR 0x22] field of Some r \<Rightarrow> r | None \<Rightarrow> field);
          trimmed = trim_start stripped
      in case trimmed of
           [] \<Rightarrow> False
         | first # rest \<Rightarrow>
             if first \<in> {CHR ''+'', CHR ''-''} then \<not> elapsed_cell rest
             else first \<in> {CHR ''='', CHR ''@'', CHR 0x09, CHR 0x0D, CHR 0x0A})"

definition log_csv_escape :: "string \<Rightarrow> string" where
  "log_csv_escape cell =
     (let field = truncate_text cell MAX_FIELD_LENGTH;
          neutralize = needs_formula_neutralization field
      in if \<not> (\<exists>c\<in>set field. c \<in> {CHR '','', CHR 0x22, CHR 0x0A, CHR 0x0D}) \<and> \<not> neutralize then field
         else [CHR 0x22] @ (if neutralize then [CHR 0x27] else [])
              @ concat (map (\<lambda>c. if c = CHR 0x22 then [CHR 0x22, c] else [c]) field) @ [CHR 0x22])"

definition LOG_HEADER :: string where
  "LOG_HEADER = ''Row,Sequence,Elapsed,Operation,Parent,Correlation,Phase,Source,Outcome,Event,Details,PrevHash,EntryHash''"

definition log_line :: "diagnostic_event \<Rightarrow> string" where
  "log_line e =
     join_with '','' (map log_csv_escape (diagnostic_grid_row (unat (ev_sequence e)) e)
       @ [log_csv_escape (hex_hash_string (ev_prev_hash e)), log_csv_escape (hex_hash_string (ev_entry_hash e))])"

fun log_lines_after :: "u64 \<Rightarrow> diagnostic_event list \<Rightarrow> u64 \<Rightarrow> string list \<times> u64" where
  "log_lines_after persisted [] last_sequence = ([], last_sequence)"
| "log_lines_after persisted (e # es) last_sequence =
     (if ev_sequence e \<le> persisted then log_lines_after persisted es last_sequence
      else case log_lines_after persisted es (ev_sequence e) of (rows, l) \<Rightarrow> (log_line e # rows, l))"

definition build_log_lines :: "store \<Rightarrow> u64 \<Rightarrow> string list \<times> u64" where
  "build_log_lines st persisted = log_lines_after persisted (st_events st) persisted"

section \<open>Appending\<close>

datatype log_write_error = LogIo string | InsufficientFreeSpace u64

definition log_write_error_display :: "log_write_error \<Rightarrow> string" where
  "log_write_error_display e =
     (case e of
        LogIo m \<Rightarrow> m
      | InsufficientFreeSpace available \<Rightarrow> ''insufficient free space available='' @ dec (unat available))"

record log_io =
  li_create :: "string option"
  li_free :: "u64 option"
  li_exists_fails :: bool
  li_open :: "string option"
  li_metadata :: "string option"
  li_write :: "nat \<Rightarrow> (string \<times> nat) option"
  li_sync :: "string option"
  li_listing :: "(unit, (unit, log_entry) result list) result"
  li_keeps :: "string \<Rightarrow> bool"
  li_purge_error :: string
  li_now :: u64
  li_clock :: "nat \<times> nat"

record log_world =
  lw_files :: "string \<Rightarrow> string option"
  lw_store :: store
  lw_committed :: u64

fun write_each :: "(nat \<Rightarrow> (string \<times> nat) option) \<Rightarrow> nat \<Rightarrow> string list \<Rightarrow> string \<Rightarrow> (string, unit) result \<times> string" where
  "write_each fault n [] text = (Ok (), text)"
| "write_each fault n (l # ls) text =
     (case fault n of
        None \<Rightarrow> write_each fault (n + 1) ls (text @ l @ newline)
      | Some (kind, written) \<Rightarrow> (Err kind, text @ take written (l @ newline)))"

definition write_log_lines :: "log_io \<Rightarrow> string list \<Rightarrow> string \<Rightarrow> (string, unit) result \<times> string" where
  "write_log_lines io rows text =
     (case li_metadata io of
        Some kind \<Rightarrow> (Err kind, text)
      | None \<Rightarrow>
          and_then (write_each (li_write io) 0 ((if text = [] then [LOG_HEADER] else []) @ rows) text) (\<lambda>_ t.
            case li_sync io of Some kind \<Rightarrow> (Err kind, t) | None \<Rightarrow> (Ok (), t)))"

text \<open>A record that cannot be stored leaves the store as it is.\<close>

definition recorded :: "(bytes \<Rightarrow> bytes) \<Rightarrow> log_io \<Rightarrow> string \<Rightarrow> string \<Rightarrow> diagnostic_outcome \<Rightarrow> log_world \<Rightarrow> log_world" where
  "recorded sha io name details outcome w =
     w\<lparr>lw_store := (case record_with_outcome sha (li_clock io) name details outcome (lw_store w) of
        Some (_, st) \<Rightarrow> st | None \<Rightarrow> lw_store w)\<rparr>"

definition record_append_io_error :: "(bytes \<Rightarrow> bytes) \<Rightarrow> log_io \<Rightarrow> bool \<Rightarrow> string \<Rightarrow> log_world \<Rightarrow> log_world" where
  "record_append_io_error sha io diagnostics kind w =
     (if diagnostics then recorded sha io ''storage.append.error'' (''result=io_failure kind='' @ kind) OutFailed w else w)"

definition purge_expired_logs_with_diagnostics :: "(bytes \<Rightarrow> bytes) \<Rightarrow> log_io \<Rightarrow> log_world \<Rightarrow> log_world" where
  "purge_expired_logs_with_diagnostics sha io w =
     (case purge_expired_logs (li_keeps io) (li_listing io) (li_now io) of
        (r, gone) \<Rightarrow>
          let w = w\<lparr>lw_files := (\<lambda>n. if n \<in> set gone then None else lw_files w n)\<rparr>
          in case r of
               Inr report \<Rightarrow>
                 if 0 < logs_removed report
                 then
                   (let details = ''examined='' @ dec (logs_examined report) @ '' removed='' @ dec (logs_removed report)
                          @ '' retained='' @ dec (logs_retained report)
                    in recorded sha io ''storage.retention.purge'' details
                         (derive_outcome ''storage.retention.purge'' details) w)
                 else w
             | Inl _ \<Rightarrow> recorded sha io ''storage.retention.purge.error'' (''error='' @ li_purge_error io) OutFailed w)"

definition low_free_space :: "log_io \<Rightarrow> u64 option" where
  "low_free_space io =
     (case li_free io of
        Some available \<Rightarrow> if available < MIN_FREE_BYTES_BEFORE_WRITE then Some available else None
      | None \<Rightarrow> None)"

definition append_log_lines_sync_internal ::
    "(bytes \<Rightarrow> bytes) \<Rightarrow> log_io \<Rightarrow> bool \<Rightarrow> string \<Rightarrow> string list \<Rightarrow> log_world
      \<Rightarrow> (log_write_error, unit) result \<times> log_world" where
  "append_log_lines_sync_internal sha io diagnostics filename rows w =
     (case li_create io of
        Some kind \<Rightarrow> (Err (LogIo kind), record_append_io_error sha io diagnostics kind w)
      | None \<Rightarrow>
          (case low_free_space io of
             Some available \<Rightarrow>
               (Err (InsufficientFreeSpace available),
                if diagnostics then recorded sha io ''storage.write_suppressed''
                  (''reason=low_free_space available='' @ dec (unat available)) OutSuppressed w else w)
           | None \<Rightarrow>
               (case li_open io of
                  Some kind \<Rightarrow> (Err (LogIo kind), record_append_io_error sha io diagnostics kind w)
                | None \<Rightarrow>
                    (case write_log_lines io rows (case lw_files w filename of Some t \<Rightarrow> t | None \<Rightarrow> []) of
                       (r, text) \<Rightarrow>
                         let file_is_new = (li_exists_fails io \<or> lw_files w filename = None);
                             w1 = w\<lparr>lw_files := (lw_files w)(filename := Some text)\<rparr>;
                             w2 = (case r of Inl kind \<Rightarrow> record_append_io_error sha io diagnostics kind w1 | Inr _ \<Rightarrow> w1);
                             w3 = (if file_is_new \<and> diagnostics then purge_expired_logs_with_diagnostics sha io w2 else w2)
                         in (map_sum LogIo id r, w3)))))"

definition append_log_lines_sync_with_diagnostics ::
    "(bytes \<Rightarrow> bytes) \<Rightarrow> log_io \<Rightarrow> string \<Rightarrow> string list \<Rightarrow> log_world \<Rightarrow> (log_write_error, unit) result \<times> log_world"
  where
  "append_log_lines_sync_with_diagnostics sha io filename rows w =
     append_log_lines_sync_internal sha io True filename rows w"

text \<open>The flush on the calling thread. The failure that is only printed is left out.\<close>

definition flush_diagnostic_events_to_disk_sync :: "(bytes \<Rightarrow> bytes) \<Rightarrow> log_io \<Rightarrow> u64 \<Rightarrow> log_world \<Rightarrow> log_world" where
  "flush_diagnostic_events_to_disk_sync sha io seconds w =
     (case build_log_lines (lw_store w) (lw_committed w) of
        (rows, last_sequence) \<Rightarrow>
          if rows = [] then w
          else
            (case append_log_lines_sync_with_diagnostics sha io (daily_log_filename (utc_date_now seconds)) rows w of
               (Inr _, w1) \<Rightarrow> w1\<lparr>lw_committed := last_sequence\<rparr>
             | (Inl _, w1) \<Rightarrow> w1))"

definition purge_expired_logs_at_startup :: "(bytes \<Rightarrow> bytes) \<Rightarrow> log_io \<Rightarrow> log_world \<Rightarrow> log_world" where
  "purge_expired_logs_at_startup sha io w = purge_expired_logs_with_diagnostics sha io w"

section \<open>Two flushes at once\<close>

text \<open>
  The flush of the tray thread reads the committed sequence, takes a snapshot of the events and starts a
  writer unless one is active. The writer appends, commits the last sequence and clears the flag. A flush
  on the calling thread, at shutdown or in the emergency cleanup, does the same without the flag.
  The log is the text of one day; the outcome of an append that does not reach the file is a
  suppression.
\<close>

datatype flush_state = FlushIdle | FlushLoaded u64 | FlushBuilt "string list" u64 | FlushWritten u64
datatype log_writer = NoWriter | WriterStarted "string list" u64 | WriterWritten u64 | WriterEnding

record log_machine =
  lg_store :: store
  lg_text :: string
  lg_committed :: u64
  lg_active :: bool
  lg_tray :: flush_state
  lg_sync :: flush_state
  lg_writer :: log_writer

definition log_start :: "store \<Rightarrow> log_machine" where
  "log_start st = \<lparr>lg_store = st, lg_text = [], lg_committed = 0, lg_active = False, lg_tray = FlushIdle,
     lg_sync = FlushIdle, lg_writer = NoWriter\<rparr>"

inductive log_step :: "(bytes \<Rightarrow> bytes) \<Rightarrow> log_machine \<Rightarrow> log_machine \<Rightarrow> bool" for sha where
  records: "store_step sha op (lg_store m) = Some st \<Longrightarrow> log_step sha m (m\<lparr>lg_store := st\<rparr>)"
| tray_loads: "lg_tray m = FlushIdle \<Longrightarrow> log_step sha m (m\<lparr>lg_tray := FlushLoaded (lg_committed m)\<rparr>)"
| tray_builds: "lg_tray m = FlushLoaded b \<Longrightarrow> build_log_lines (lg_store m) b = (rows, l)
    \<Longrightarrow> log_step sha m (m\<lparr>lg_tray := (if rows = [] then FlushIdle else FlushBuilt rows l)\<rparr>)"
| tray_coalesces: "lg_tray m = FlushBuilt rows l \<Longrightarrow> lg_active m \<Longrightarrow> log_step sha m (m\<lparr>lg_tray := FlushIdle\<rparr>)"
| tray_spawns: "lg_tray m = FlushBuilt rows l \<Longrightarrow> \<not> lg_active m
    \<Longrightarrow> log_step sha m (m\<lparr>lg_tray := FlushIdle, lg_active := True, lg_writer := WriterStarted rows l\<rparr>)"
| writer_writes: "lg_writer m = WriterStarted rows l \<Longrightarrow> write_log_lines io rows (lg_text m) = (r, t)
    \<Longrightarrow> log_step sha m (m\<lparr>lg_text := t, lg_writer := (if isl r then WriterEnding else WriterWritten l)\<rparr>)"
| writer_suppressed: "lg_writer m = WriterStarted rows l \<Longrightarrow> log_step sha m (m\<lparr>lg_writer := WriterEnding\<rparr>)"
| writer_commits: "lg_writer m = WriterWritten l \<Longrightarrow> log_step sha m (m\<lparr>lg_committed := l, lg_writer := WriterEnding\<rparr>)"
| writer_ends: "lg_writer m = WriterEnding \<Longrightarrow> log_step sha m (m\<lparr>lg_active := False, lg_writer := NoWriter\<rparr>)"
| sync_loads: "lg_sync m = FlushIdle \<Longrightarrow> log_step sha m (m\<lparr>lg_sync := FlushLoaded (lg_committed m)\<rparr>)"
| sync_builds: "lg_sync m = FlushLoaded b \<Longrightarrow> build_log_lines (lg_store m) b = (rows, l)
    \<Longrightarrow> log_step sha m (m\<lparr>lg_sync := (if rows = [] then FlushIdle else FlushBuilt rows l)\<rparr>)"
| sync_writes: "lg_sync m = FlushBuilt rows l \<Longrightarrow> write_log_lines io rows (lg_text m) = (r, t)
    \<Longrightarrow> log_step sha m (m\<lparr>lg_text := t, lg_sync := (if isl r then FlushIdle else FlushWritten l)\<rparr>)"
| sync_suppressed: "lg_sync m = FlushBuilt rows l \<Longrightarrow> log_step sha m (m\<lparr>lg_sync := FlushIdle\<rparr>)"
| sync_commits: "lg_sync m = FlushWritten l \<Longrightarrow> log_step sha m (m\<lparr>lg_committed := l, lg_sync := FlushIdle\<rparr>)"

inductive log_reaches :: "(bytes \<Rightarrow> bytes) \<Rightarrow> log_machine \<Rightarrow> log_machine \<Rightarrow> bool" for sha where
  start: "log_reaches sha m m"
| further: "log_reaches sha m n \<Longrightarrow> log_step sha n k \<Longrightarrow> log_reaches sha m k"

section \<open>Facts about rows\<close>

definition pending_events :: "u64 \<Rightarrow> diagnostic_event list \<Rightarrow> diagnostic_event list" where
  "pending_events b es = filter (\<lambda>e. b < ev_sequence e) es"

lemma build_after:
  "log_lines_after b es l = (map log_line (pending_events b es),
     (if pending_events b es = [] then l else ev_sequence (last (pending_events b es))))"
  by (induction es arbitrary: l) (auto simp: pending_events_def not_le)

lemma build_log_lines_pending:
  "build_log_lines st b = (map log_line (pending_events b (st_events st)),
     (if pending_events b (st_events st) = [] then b else ev_sequence (last (pending_events b (st_events st)))))"
  by (simp add: build_log_lines_def build_after)

lemma contains_text_iff: "contains_text p s \<longleftrightarrow> (\<exists>a b. s = a @ p @ b)"
proof (induction s)
  case (Cons c s)
  have "starts_with p (c # s) \<longleftrightarrow> (\<exists>b. c # s = p @ b)"
    unfolding starts_with_def by (metis append_eq_conv_conj append_take_drop_id)
  moreover have "(\<exists>a b. c # s = a @ p @ b) \<longleftrightarrow> (\<exists>b. c # s = p @ b) \<or> (\<exists>a b. s = a @ p @ b)"
    by (metis append.left_neutral append_Cons append_eq_Cons_conv)
  ultimately show ?case
    using Cons by simp
qed simp

lemma contains_text_append: "contains_text p s \<Longrightarrow> contains_text p (s @ t)"
  by (metis append.assoc contains_text_iff)

lemma write_each_grows: "write_each fault n ls old = (r, t) \<Longrightarrow> \<exists>u. t = old @ u"
  by (induction fault n ls old arbitrary: r t rule: write_each.induct) (fastforce split: option.splits)+

lemma write_each_Ok: "write_each fault n ls old = (Ok u, t) \<Longrightarrow> t = old @ concat (map (\<lambda>l. l @ newline) ls)"
  by (induction fault n ls old arbitrary: t rule: write_each.induct) (auto split: option.splits)

lemma log_write_grows: "write_log_lines io ls old = (r, t) \<Longrightarrow> \<exists>u. t = old @ u"
  unfolding write_log_lines_def
  by (auto simp: and_then_def dest!: write_each_grows split: option.splits prod.splits sum.splits)

lemma log_write_Ok:
  "write_log_lines io ls old = (Ok u, t)
    \<Longrightarrow> t = old @ (if old = [] then LOG_HEADER @ newline else []) @ concat (map (\<lambda>l. l @ newline) ls)"
  unfolding write_log_lines_def by (auto elim!: and_then_OkE dest!: write_each_Ok split: option.splits if_splits)

lemma concat_contains: "l \<in> set ls \<Longrightarrow> contains_text (l @ newline) (concat (map (\<lambda>l. l @ newline) ls))"
  by (auto simp: contains_text_iff dest!: split_list) (metis append.assoc)

lemma log_write_contains:
  assumes "write_log_lines io ls old = (r, t)" "\<not> isl r" "l \<in> set ls"
  shows "contains_text (l @ newline) t"
proof -
  have "t = (old @ (if old = [] then LOG_HEADER @ newline else [])) @ concat (map (\<lambda>l. l @ newline) ls)"
    using log_write_Ok [of io ls old "projr r" t] assms(1,2) by (cases r) simp_all
  moreover have "contains_text p (a @ s)" if "contains_text p s" for p a s
    using that by (metis append.assoc contains_text_iff)
  ultimately show ?thesis
    using concat_contains [OF assms(3)] by simp
qed

section \<open>No row is lost\<close>

text \<open>The row of some event with the given sequence is in a text.\<close>

definition logged :: "string \<Rightarrow> u64 \<Rightarrow> bool" where
  "logged t q \<longleftrightarrow> (\<exists>d. ev_sequence d = q \<and> contains_text (log_line d @ newline) t)"

text \<open>A sequence up to which the log is complete, and rows that complete it up to their last sequence.\<close>

definition complete_to :: "log_machine \<Rightarrow> u64 \<Rightarrow> bool" where
  "complete_to m b \<longleftrightarrow> b \<le> st_next_sequence (lg_store m) \<and> (b = 0 \<or> logged (lg_text m) b)
     \<and> (\<forall>e\<in>set (st_events (lg_store m)). ev_sequence e \<le> b \<longrightarrow> logged (lg_text m) (ev_sequence e))"

definition completes :: "log_machine \<Rightarrow> string list \<Rightarrow> u64 \<Rightarrow> bool" where
  "completes m rows l \<longleftrightarrow> l \<le> st_next_sequence (lg_store m)
     \<and> (\<exists>ds. rows = map log_line ds \<and> l \<in> ev_sequence ` set ds
        \<and> (\<forall>e\<in>set (st_events (lg_store m)). ev_sequence e \<le> l
             \<longrightarrow> logged (lg_text m) (ev_sequence e) \<or> ev_sequence e \<in> ev_sequence ` set ds))"

fun flush_ok :: "log_machine \<Rightarrow> flush_state \<Rightarrow> bool" where
  "flush_ok m FlushIdle = True"
| "flush_ok m (FlushLoaded b) = complete_to m b"
| "flush_ok m (FlushBuilt rows l) = completes m rows l"
| "flush_ok m (FlushWritten l) = complete_to m l"

fun writer_ok :: "log_machine \<Rightarrow> log_writer \<Rightarrow> bool" where
  "writer_ok m (WriterStarted rows l) = completes m rows l"
| "writer_ok m (WriterWritten l) = complete_to m l"
| "writer_ok m _ = True"

definition sequences_ok :: "store \<Rightarrow> bool" where
  "sequences_ok st \<longleftrightarrow> 0 < st_next_sequence st
     \<and> (\<forall>e\<in>set (st_events st). 0 < ev_sequence e \<and> ev_sequence e \<le> st_next_sequence st)"

definition log_inv :: "log_machine \<Rightarrow> bool" where
  "log_inv m \<longleftrightarrow> sequences_ok (lg_store m) \<and> complete_to m (lg_committed m)
     \<and> flush_ok m (lg_tray m) \<and> flush_ok m (lg_sync m) \<and> writer_ok m (lg_writer m)"

text \<open>What an operation on the store may do to the sequences: new ones are at or above the next one.\<close>

definition sequences_grow :: "store \<Rightarrow> store \<Rightarrow> bool" where
  "sequences_grow st st' \<longleftrightarrow> st_next_sequence st \<le> st_next_sequence st'
     \<and> (\<forall>e\<in>set (st_events st'). ev_sequence e \<in> ev_sequence ` set (st_events st)
          \<or> st_next_sequence st \<le> ev_sequence e \<and> ev_sequence e \<le> st_next_sequence st')"

lemma sequences_grow_trans:
  assumes "sequences_grow a b" "sequences_grow b c"
  shows "sequences_grow a c"
proof -
  have "ev_sequence e \<in> ev_sequence ` set (st_events a) \<or> st_next_sequence a \<le> ev_sequence e \<and> ev_sequence e \<le> st_next_sequence c"
    if e: "e \<in> set (st_events c)" for e
  proof (cases "ev_sequence e \<in> ev_sequence ` set (st_events b)")
    case True
    then obtain d where "d \<in> set (st_events b)" "ev_sequence d = ev_sequence e"
      by auto
    then show ?thesis
      using assms unfolding sequences_grow_def by (metis order_trans)
  next
    case False
    then show ?thesis
      using assms e unfolding sequences_grow_def by (meson order_trans)
  qed
  then show ?thesis
    using assms unfolding sequences_grow_def by (meson order_trans)
qed

lemma saturating_succ_ge: "(q :: u64) \<le> saturating_add q 1"
  by (simp add: word_le_nat_alt rust_arith unat_lt_power) (use unat_lt_power [of q] in simp)

lemma grow_subset:
  "set es \<subseteq> set (st_events st) \<Longrightarrow> sequences_grow st (st\<lparr>st_events := es\<rparr>)"
  by (auto simp: sequences_grow_def)

lemma grow_other:
  "sequences_grow st (st\<lparr>st_coalesced := c\<rparr>)" "sequences_grow st (st\<lparr>st_next_operation := k\<rparr>)"
  "sequences_grow st st"
  by (auto simp: sequences_grow_def)

lemma grow_chained:
  "set es \<subseteq> insert (chained_event sha st r t n d) (set (st_events st))
    \<Longrightarrow> sequences_grow st ((advance_chain (chained_event sha st r t n d) st)\<lparr>st_events := es\<rparr>)"
  using saturating_succ_ge by (auto simp: sequences_grow_def advance_chain_def chained_event_def)

lemma grow_room: "sequences_grow st (make_room sha r t st)"
proof (cases "st_maximum st \<le> length (st_events st)")
  case True
  define st1 where "st1 = st\<lparr>st_events := remove_at (if st_truncated st then 1 else 0) (st_events st)\<rparr>"
  define mk where "mk = chained_event sha st1 (marker_record r) t ''diagnostic.log_truncated''
      (''retaining newest '' @ dec (st_maximum st - 1) @ '' events'')"
  define st2 where "st2 = (if st_truncated st then st1
      else (advance_chain mk st1)\<lparr>st_events := mk # st_events st1, st_truncated := True\<rparr>)"
  have "sequences_grow st st1"
    using grow_subset [OF set_remove_at] by (simp add: st1_def)
  moreover have "sequences_grow st1 st2"
  proof -
    have "sequences_grow st1 ((advance_chain mk st1)\<lparr>st_events := mk # st_events st1\<rparr>)"
      unfolding mk_def by (rule grow_chained) auto
    then show ?thesis
      by (auto simp: st2_def grow_other(3)) (simp add: sequences_grow_def)
  qed
  moreover have "sequences_grow st2 (make_room sha r t st)"
  proof -
    have "make_room sha r t st
        = (if st_maximum st2 \<le> length (st_events st2) then st2\<lparr>st_events := remove_at 1 (st_events st2)\<rparr> else st2)"
      using True by (simp add: make_room_def st1_def mk_def st2_def Let_def)
    then show ?thesis
      using grow_subset [OF set_remove_at] grow_other(3) by simp
  qed
  ultimately show ?thesis
    using sequences_grow_trans by blast
qed (simp add: make_room_def grow_other)

lemma grow_store_event: "sequences_grow st (store_event sha t r n d st)"
proof (cases "n = LAYOUT_ERROR \<and> fst (coalesce_repeated_layout_event n d st)")
  case True
  then obtain x where x: "store_event sha t r n d st
      = st\<lparr>st_events := butlast (st_events st) @ [(last (st_events st))\<lparr>ev_details := x\<rparr>], st_coalesced := Some x\<rparr>"
      "st_events st \<noteq> []"
    by (auto simp: store_event_def coalesce_repeated_layout_event_def Let_def split: if_splits option.splits)
  have "ev_sequence (last (st_events st)) \<in> ev_sequence ` set (st_events st)"
    using x(2) by auto
  then show ?thesis
    using x(1) by (auto simp: sequences_grow_def dest: in_set_butlastD)
next
  case False
  let ?room = "make_room sha r (fst t) (st\<lparr>st_coalesced := None\<rparr>)"
  have "store_event sha t r n d st = append_event sha r (snd t) n d ?room"
    using False by (auto simp: store_event_def split: prod.splits)
  moreover have "sequences_grow ?room (append_event sha r (snd t) n d ?room)"
    unfolding append_event_def Let_def by (rule grow_chained) auto
  ultimately show ?thesis
    using sequences_grow_trans [OF grow_other(1) sequences_grow_trans [OF grow_room]] by metis
qed

lemma grow_step: "store_step sha op st = Some st' \<Longrightarrow> sequences_grow st st'"
proof -
  assume "store_step sha op st = Some st'"
  then obtain k where k: "case op_text op of None \<Rightarrow> st' = st\<lparr>st_next_operation := k\<rparr>
      | Some (n, d) \<Rightarrow> \<exists>t r. st' = store_event sha t r n d (st\<lparr>st_next_operation := k\<rparr>)"
    using step_view [of sha op st] by auto
  show ?thesis
  proof (cases "op_text op")
    case (Some x)
    then obtain t r where "st' = store_event sha t r (fst x) (snd x) (st\<lparr>st_next_operation := k\<rparr>)"
      using k by (cases x) auto
    then show ?thesis
      using sequences_grow_trans [OF grow_other(2) grow_store_event] by blast
  qed (use k grow_other in auto)
qed

lemma grow_sequences_ok: "sequences_ok st \<Longrightarrow> sequences_grow st st' \<Longrightarrow> sequences_ok st'"
proof -
  assume ok: "sequences_ok st" and grow: "sequences_grow st st'"
  have next_le: "st_next_sequence st \<le> st_next_sequence st'" "0 < st_next_sequence st'"
    using ok grow unfolding sequences_ok_def sequences_grow_def by auto
  have "0 < ev_sequence e \<and> ev_sequence e \<le> st_next_sequence st'" if e: "e \<in> set (st_events st')" for e
  proof (cases "ev_sequence e \<in> ev_sequence ` set (st_events st)")
    case True
    then obtain d where "d \<in> set (st_events st)" "ev_sequence d = ev_sequence e"
      by auto
    then show ?thesis
      using ok next_le unfolding sequences_ok_def by (metis order_trans)
  next
    case False
    then show ?thesis
      using grow e ok unfolding sequences_grow_def sequences_ok_def by (meson order_less_le_trans)
  qed
  then show ?thesis
    using next_le by (simp add: sequences_ok_def)
qed

text \<open>The two notions survive operations on the store and more text in the log.\<close>

definition later :: "log_machine \<Rightarrow> log_machine \<Rightarrow> bool" where
  "later m n \<longleftrightarrow> sequences_grow (lg_store m) (lg_store n) \<and> (\<exists>u. lg_text n = lg_text m @ u)"

lemma logged_later: "later m n \<Longrightarrow> logged (lg_text m) q \<Longrightarrow> logged (lg_text n) q"
  unfolding later_def logged_def using contains_text_append by metis

lemma complete_later:
  assumes "complete_to m b" "sequences_ok (lg_store m)" "later m n"
  shows "complete_to n b"
proof -
  have "logged (lg_text n) (ev_sequence e)" if e: "e \<in> set (st_events (lg_store n))" "ev_sequence e \<le> b" for e
  proof (cases "ev_sequence e \<in> ev_sequence ` set (st_events (lg_store m))")
    case True
    then show ?thesis
      using assms(1) e(2) logged_later [OF assms(3)] by (auto simp: complete_to_def)
  next
    case False
    then have "ev_sequence e = b" "b \<noteq> 0"
      using assms e unfolding later_def sequences_grow_def complete_to_def sequences_ok_def
      by (metis order_antisym order_trans word_not_simps(1))+
    then show ?thesis
      using assms(1) logged_later [OF assms(3)] by (simp add: complete_to_def)
  qed
  then show ?thesis
    using assms logged_later [OF assms(3)] unfolding complete_to_def later_def sequences_grow_def by (meson order_trans)
qed

lemma completes_later:
  assumes "completes m rows l" "later m n"
  shows "completes n rows l"
proof -
  obtain ds where ds: "rows = map log_line ds" "l \<in> ev_sequence ` set ds"
      "\<And>e. e \<in> set (st_events (lg_store m)) \<Longrightarrow> ev_sequence e \<le> l
         \<Longrightarrow> logged (lg_text m) (ev_sequence e) \<or> ev_sequence e \<in> ev_sequence ` set ds"
    using assms(1) unfolding completes_def by blast
  have "logged (lg_text n) (ev_sequence e) \<or> ev_sequence e \<in> ev_sequence ` set ds"
    if e: "e \<in> set (st_events (lg_store n))" "ev_sequence e \<le> l" for e
  proof (cases "ev_sequence e \<in> ev_sequence ` set (st_events (lg_store m))")
    case True
    then obtain d where "d \<in> set (st_events (lg_store m))" "ev_sequence d = ev_sequence e"
      by auto
    then show ?thesis
      using ds(3) [of d] e(2) logged_later [OF assms(2)] by auto
  next
    case False
    then have "ev_sequence e = l"
      using assms e unfolding later_def sequences_grow_def completes_def by (metis order_antisym order_trans)
    then show ?thesis
      using ds(2) by simp
  qed
  moreover have "l \<le> st_next_sequence (lg_store n)"
    using assms unfolding completes_def later_def sequences_grow_def by (meson order_trans)
  ultimately show ?thesis
    using ds(1,2) unfolding completes_def by blast
qed

lemma built_completes:
  assumes "complete_to m b" "sequences_ok (lg_store m)" "build_log_lines (lg_store m) b = (rows, l)" "rows \<noteq> []"
  shows "completes m rows l"
proof -
  let ?ds = "pending_events b (st_events (lg_store m))"
  have ds: "rows = map log_line ?ds" "l = ev_sequence (last ?ds)" "?ds \<noteq> []"
    using assms(3,4) by (auto simp: build_log_lines_pending split: if_splits)
  have "last ?ds \<in> set ?ds"
    using ds(3) by simp
  then have "l \<in> ev_sequence ` set ?ds" "last ?ds \<in> set (st_events (lg_store m))"
    using ds(2) by (auto simp: pending_events_def)
  moreover from this(2) have "l \<le> st_next_sequence (lg_store m)"
    using assms(2) ds(2) by (simp add: sequences_ok_def)
  moreover have "logged (lg_text m) (ev_sequence e) \<or> ev_sequence e \<in> ev_sequence ` set ?ds"
    if "e \<in> set (st_events (lg_store m))" for e
    using assms(1) that by (cases "ev_sequence e \<le> b") (auto simp: complete_to_def pending_events_def not_le)
  ultimately show ?thesis
    using ds(1) unfolding completes_def by blast
qed

lemma written_complete:
  assumes "completes m rows l" "write_log_lines io rows (lg_text m) = (r, t)" "\<not> isl r"
  shows "complete_to (m\<lparr>lg_text := t\<rparr>) l"
proof -
  obtain ds where ds: "rows = map log_line ds" "l \<in> ev_sequence ` set ds"
      "\<And>e. e \<in> set (st_events (lg_store m)) \<Longrightarrow> ev_sequence e \<le> l
         \<Longrightarrow> logged (lg_text m) (ev_sequence e) \<or> ev_sequence e \<in> ev_sequence ` set ds"
    using assms(1) unfolding completes_def by blast
  have rows: "logged t q" if "q \<in> ev_sequence ` set ds" for q
    using that log_write_contains [OF assms(2,3)] ds(1) by (auto simp: logged_def)
  have "later m (m\<lparr>lg_text := t\<rparr>)"
    using log_write_grows [OF assms(2)] grow_other(3) by (simp add: later_def)
  then have "logged t q" if "logged (lg_text m) q" for q
    using logged_later that by fastforce
  moreover have "l \<le> st_next_sequence (lg_store m)"
    using assms(1) by (simp add: completes_def)
  ultimately show ?thesis
    using rows ds(2,3) by (simp add: complete_to_def) blast
qed

text \<open>Only the store and the text matter to the notions.\<close>

lemma same_frame:
  assumes "lg_store n = lg_store m" "lg_text n = lg_text m"
  shows "complete_to n = complete_to m" "completes n = completes m" "flush_ok n = flush_ok m" "writer_ok n = writer_ok m"
proof -
  show c: "complete_to n = complete_to m" "completes n = completes m"
    using assms by (auto simp: complete_to_def completes_def fun_eq_iff)
  show "flush_ok n = flush_ok m"
  proof
    show "flush_ok n f = flush_ok m f" for f
      by (cases f) (simp_all add: c)
  qed
  show "writer_ok n = writer_ok m"
  proof
    show "writer_ok n f = writer_ok m f" for f
      by (cases f) (simp_all add: c)
  qed
qed

lemma flush_later: "flush_ok m f \<Longrightarrow> sequences_ok (lg_store m) \<Longrightarrow> later m n \<Longrightarrow> flush_ok n f"
  by (cases f) (simp_all add: complete_later completes_later)

lemma writer_later: "writer_ok m f \<Longrightarrow> sequences_ok (lg_store m) \<Longrightarrow> later m n \<Longrightarrow> writer_ok n f"
  by (cases f) (simp_all add: complete_later completes_later)

lemma log_inv_later:
  assumes "log_inv m" "later m n" "lg_committed n = lg_committed m" "lg_tray n = lg_tray m" "lg_sync n = lg_sync m"
    "lg_writer n = lg_writer m"
  shows "log_inv n"
  using assms flush_later writer_later complete_later grow_sequences_ok
  unfolding log_inv_def by (metis later_def)

lemma log_inv_step:
  assumes "log_step sha m n" "log_inv m"
  shows "log_inv n"
  using assms
proof cases
  case (records op st)
  then show ?thesis
    using grow_step by (intro log_inv_later [OF assms(2)]) (auto simp: later_def)
next
  case (writer_writes rows l io r t)
  let ?m = "m\<lparr>lg_text := t\<rparr>"
  have "later m ?m"
    using log_write_grows [OF writer_writes(3)] grow_other(3) by (simp add: later_def)
  then have inv: "log_inv ?m"
    by (intro log_inv_later [OF assms(2)]) auto
  have "\<not> isl r \<Longrightarrow> complete_to ?m l"
    using written_complete [OF _ writer_writes(3)] assms(2) writer_writes(2) by (simp add: log_inv_def)
  moreover note same_frame [of n ?m]
  ultimately show ?thesis
    using inv writer_writes(1) by (simp add: log_inv_def)
next
  case (sync_writes rows l io r t)
  let ?m = "m\<lparr>lg_text := t\<rparr>"
  have "later m ?m"
    using log_write_grows [OF sync_writes(3)] grow_other(3) by (simp add: later_def)
  then have inv: "log_inv ?m"
    by (intro log_inv_later [OF assms(2)]) auto
  have "\<not> isl r \<Longrightarrow> complete_to ?m l"
    using written_complete [OF _ sync_writes(3)] assms(2) sync_writes(2) by (simp add: log_inv_def)
  moreover note same_frame [of n ?m]
  ultimately show ?thesis
    using inv sync_writes(1) by (simp add: log_inv_def)
next
  case (tray_builds b rows l)
  have "rows \<noteq> [] \<Longrightarrow> completes m rows l"
    using built_completes [OF _ _ tray_builds(3)] assms(2) tray_builds(2) by (simp add: log_inv_def)
  then show ?thesis
    using assms(2) tray_builds(1) same_frame [of n m] by (simp add: log_inv_def)
next
  case (sync_builds b rows l)
  have "rows \<noteq> [] \<Longrightarrow> completes m rows l"
    using built_completes [OF _ _ sync_builds(3)] assms(2) sync_builds(2) by (simp add: log_inv_def)
  then show ?thesis
    using assms(2) sync_builds(1) same_frame [of n m] by (simp add: log_inv_def)
qed (use same_frame [of n m] in \<open>simp add: log_inv_def\<close>)+

lemma log_inv_start: "sequences_ok st \<Longrightarrow> log_inv (log_start st)"
  by (auto simp: log_inv_def log_start_def complete_to_def sequences_ok_def)

lemma log_inv_reaches: "log_reaches sha m n \<Longrightarrow> log_inv m \<Longrightarrow> log_inv n"
  by (induction rule: log_reaches.induct) (auto intro: log_inv_step)

text \<open>C18: Under every interleaving of recording, tray flush, writer thread and flush at shutdown, and with every
  failing or partial write, no retained event is skipped: when its sequence is at most the committed
  one, a whole row with that sequence is in the log.\<close>

theorem committed_rows_in_log:
  assumes "log_reaches sha (log_start st) m" and "sequences_ok st"
    and "e \<in> set (st_events (lg_store m))" and "ev_sequence e \<le> lg_committed m"
  shows "\<exists>d. ev_sequence d = ev_sequence e \<and> contains_text (log_line d @ newline) (lg_text m)"
  using log_inv_reaches [OF assms(1) log_inv_start [OF assms(2)]] assms(3,4)
  by (auto simp: log_inv_def complete_to_def logged_def)

definition fine_log_io :: log_io where
  "fine_log_io = \<lparr>li_create = None, li_free = None, li_exists_fails = False, li_open = None, li_metadata = None, li_write = (\<lambda>_. None),
     li_sync = None, li_listing = Ok [], li_keeps = (\<lambda>_. False), li_purge_error = [], li_now = 0, li_clock = (0, 0)\<rparr>"

definition sample_log_store :: store where
  "sample_log_store = (store_new id 8)\<lparr>st_events := [sample_event 1], st_next_sequence := 2\<rparr>"

lemma sample_log_sequences: "sequences_ok sample_log_store"
  by (simp add: sequences_ok_def sample_log_store_def sample_event_def)

lemma sample_log_build: "build_log_lines sample_log_store 0 = ([log_line (sample_event 1)], 1)"
  by (simp add: build_log_lines_def sample_log_store_def sample_event_def)

lemma fine_write:
  "write_log_lines fine_log_io [l] t = (Ok (), t @ (if t = [] then LOG_HEADER @ newline else []) @ l @ newline)"
  by (simp add: write_log_lines_def fine_log_io_def)

lemma reaches_trans: "log_reaches sha k m \<Longrightarrow> log_reaches sha m n \<Longrightarrow> log_reaches sha k n"
  by (rotate_tac, induction rule: log_reaches.induct) (auto intro: log_reaches.further)

lemma two_steps: "log_step sha k m \<Longrightarrow> log_step sha m n \<Longrightarrow> log_reaches sha k n"
  by (rule log_reaches.further [OF log_reaches.further [OF log_reaches.start]])

text \<open>The machine after the writer of a first flush has started, with a second flush that was built before it committed.\<close>

abbreviation raced :: "string \<Rightarrow> u64 \<Rightarrow> bool \<Rightarrow> flush_state \<Rightarrow> log_writer \<Rightarrow> log_machine" where
  "raced t c a tray writer \<equiv> \<lparr>lg_store = sample_log_store, lg_text = t, lg_committed = c, lg_active = a, lg_tray = tray,
     lg_sync = FlushIdle, lg_writer = writer\<rparr>"

abbreviation sample_row :: string where
  "sample_row \<equiv> log_line (sample_event 1)"

abbreviation logged_once :: string where
  "logged_once \<equiv> LOG_HEADER @ newline @ sample_row @ newline"

lemma sample_row_nonempty: "LOG_HEADER \<noteq> []"
  by (simp add: LOG_HEADER_def)

lemma tray_flush_built: "log_reaches sha (raced t 0 a FlushIdle wr) (raced t 0 a (FlushBuilt [sample_row] 1) wr)"
proof -
  have "log_step sha (raced t 0 a FlushIdle wr) (raced t 0 a (FlushLoaded 0) wr)"
    using tray_loads [of "raced t 0 a FlushIdle wr" sha] by simp
  moreover have "log_step sha (raced t 0 a (FlushLoaded 0) wr) (raced t 0 a (FlushBuilt [sample_row] 1) wr)"
    using tray_builds [of "raced t 0 a (FlushLoaded 0) wr" 0 "[sample_row]" 1 sha] sample_log_build by simp
  ultimately show ?thesis
    by (rule two_steps)
qed

lemma tray_flush_spawns:
  "log_step sha (raced t c False (FlushBuilt [sample_row] 1) wr) (raced t c True FlushIdle (WriterStarted [sample_row] 1))"
  using tray_spawns [of "raced t c False (FlushBuilt [sample_row] 1) wr" "[sample_row]" 1 sha] by simp

lemma writer_runs:
  "log_step sha (raced t c True tray (WriterStarted [sample_row] 1))
     (raced (t @ (if t = [] then LOG_HEADER @ newline else []) @ sample_row @ newline) c True tray (WriterWritten 1))"
  using writer_writes [of "raced t c True tray (WriterStarted [sample_row] 1)" "[sample_row]" 1 fine_log_io _ _ sha]
    fine_write [of sample_row t] by simp

lemma writer_finishes: "log_reaches sha (raced t c True tray (WriterWritten 1)) (raced t 1 False tray NoWriter)"
proof -
  have "log_step sha (raced t c True tray (WriterWritten 1)) (raced t 1 True tray WriterEnding)"
    using writer_commits [of "raced t c True tray (WriterWritten 1)" 1 sha] by simp
  moreover have "log_step sha (raced t 1 True tray WriterEnding) (raced t 1 False tray NoWriter)"
    using writer_ends [of "raced t 1 True tray WriterEnding" sha] by simp
  ultimately show ?thesis
    by (rule two_steps)
qed

text \<open>An example run: the flag does not keep rows from being written twice. A flush that has read the committed sequence
  and built its rows before the active writer commits starts a second writer after the first has
  finished, and the log then holds the same row twice, although no call failed.\<close>

lemma log_rows_repeated:
  "log_reaches sha (log_start sample_log_store) (raced (logged_once @ sample_row @ newline) 1 False FlushIdle NoWriter)"
proof -
  have first: "log_reaches sha (log_start sample_log_store) (raced [] 0 True (FlushBuilt [sample_row] 1) (WriterStarted [sample_row] 1))"
    unfolding log_start_def
    by (rule reaches_trans [OF log_reaches.further [OF tray_flush_built tray_flush_spawns] tray_flush_built])
  have "log_reaches sha (log_start sample_log_store) (raced logged_once 0 True (FlushBuilt [sample_row] 1) (WriterWritten 1))"
    using log_reaches.further [OF first writer_runs [of sha "[]"]] by simp
  then have "log_reaches sha (log_start sample_log_store) (raced logged_once 1 True FlushIdle (WriterStarted [sample_row] 1))"
    using log_reaches.further [OF reaches_trans [OF _ writer_finishes] tray_flush_spawns] by blast
  then have "log_reaches sha (log_start sample_log_store) (raced (logged_once @ sample_row @ newline) 1 True FlushIdle (WriterWritten 1))"
    using log_reaches.further [OF _ writer_runs [of sha logged_once]] sample_row_nonempty by auto
  then show ?thesis
    using reaches_trans writer_finishes by blast
qed

theorem committed_rows_in_log_witness:
  "\<exists>m d. log_reaches id (log_start sample_log_store) m \<and> lg_committed m = 1
     \<and> ev_sequence d = 1 \<and> contains_text (log_line d @ newline) (lg_text m)"
proof -
  have reach: "log_reaches id (log_start sample_log_store) (raced logged_once 1 False FlushIdle NoWriter)"
    unfolding log_start_def
    using log_reaches.further [OF log_reaches.further [OF tray_flush_built tray_flush_spawns] writer_runs [of _ "[]"]]
      writer_finishes reaches_trans by fastforce
  have "sample_event 1 \<in> set (st_events (lg_store (raced logged_once 1 False FlushIdle NoWriter)))"
    "ev_sequence (sample_event 1) = 1"
    by (simp_all add: sample_log_store_def sample_event_def)
  then show ?thesis
    using committed_rows_in_log [OF reach sample_log_sequences, of "sample_event 1"] reach by fastforce
qed

section \<open>The flush on the calling thread\<close>

lemma write_each_fine: "write_each (\<lambda>_. None) n ls old = (Ok (), old @ concat (map (\<lambda>l. l @ newline) ls))"
  by (induction ls arbitrary: n old) simp_all

text \<open>A flush without failing calls appends exactly the rows of the events behind the committed sequence,
  in their order, behind a header when the file is empty, commits the sequence of the newest event, and
  a second flush changes nothing.\<close>

theorem flush_appends_pending:
  assumes "li_create io = None" "low_free_space io = None" "li_open io = None" "li_metadata io = None"
      "li_write io = (\<lambda>_. None)" "li_sync io = None"
    and "\<not> li_exists_fails io"
    and "lw_files w (daily_log_filename (utc_date_now seconds)) = Some old"
    and "\<forall>e\<in>set (st_events (lw_store w)). ev_sequence e \<le> ev_sequence (last (st_events (lw_store w)))"
    and "pending_events (lw_committed w) (st_events (lw_store w)) \<noteq> []"
  shows "let w1 = flush_diagnostic_events_to_disk_sync sha io seconds w in
    lw_files w1 = (lw_files w)(daily_log_filename (utc_date_now seconds) \<mapsto>
      old @ (if old = [] then LOG_HEADER @ newline else [])
          @ concat (map (\<lambda>e. log_line e @ newline) (pending_events (lw_committed w) (st_events (lw_store w)))))
    \<and> lw_committed w1 = ev_sequence (last (st_events (lw_store w))) \<and> lw_store w1 = lw_store w
    \<and> flush_diagnostic_events_to_disk_sync sha io seconds w1 = w1"
proof -
  let ?es = "st_events (lw_store w)" and ?f = "daily_log_filename (utc_date_now seconds)"
  let ?pe = "pending_events (lw_committed w) ?es"
  obtain e where e: "e \<in> set ?es" "lw_committed w < ev_sequence e"
    using assms(10) by (auto simp: pending_events_def filter_empty_conv)
  then have ne: "?es \<noteq> []" and "lw_committed w < ev_sequence (last ?es)"
    using assms(9) by (auto intro: order_less_le_trans)
  then have last: "last ?pe = last ?es"
    unfolding pending_events_def by (metis (no_types, lifting) append_butlast_last_id filter.simps filter_append last_snoc)
  define text1 where "text1 = old @ (if old = [] then LOG_HEADER @ newline else []) @ concat (map (\<lambda>e. log_line e @ newline) ?pe)"
  have "write_log_lines io (map log_line ?pe) old = (Ok (), text1)"
    using assms(4,5,6) by (simp add: write_log_lines_def write_each_fine text1_def comp_def)
  then have flush: "flush_diagnostic_events_to_disk_sync sha io seconds w
      = w\<lparr>lw_files := (lw_files w)(?f := Some text1), lw_committed := ev_sequence (last ?es)\<rparr>"
    using assms(1-3,7,8,10) by (simp add: flush_diagnostic_events_to_disk_sync_def build_log_lines_pending last
        append_log_lines_sync_with_diagnostics_def append_log_lines_sync_internal_def Let_def)
  have "pending_events (ev_sequence (last ?es)) ?es = []"
    using assms(9) by (auto simp: pending_events_def filter_empty_conv not_less)
  then show ?thesis
    unfolding flush by (simp add: flush_diagnostic_events_to_disk_sync_def build_log_lines_pending text1_def Let_def)
qed

theorem flush_appends_pending_witness:
  "let w = \<lparr>lw_files = Map.empty(daily_log_filename (utc_date_now 0) \<mapsto> []), lw_store = sample_log_store, lw_committed = 0\<rparr>
   in lw_files (flush_diagnostic_events_to_disk_sync id fine_log_io 0 w) (daily_log_filename (utc_date_now 0)) = Some logged_once"
  using flush_appends_pending [of fine_log_io "\<lparr>lw_files = Map.empty(daily_log_filename (utc_date_now 0) \<mapsto> []),
      lw_store = sample_log_store, lw_committed = 0\<rparr>" 0 "[]" id]
  by (simp add: fine_log_io_def low_free_space_def sample_log_store_def sample_event_def pending_events_def Let_def)

end
