(* ===== verification/EventMap.thy ===== *)
theory EventMap
  imports Cli Logging
begin

text \<open>
  Model of \<open>apps/true-tick/src/tray/diagnostics_map.rs\<close>: the phase, source, outcome and native fields that the
  tray gives an event it records, read from its name and details.
\<close>

section \<open>Numbers in details\<close>

definition parse_i64 :: "string \<Rightarrow> int option" where
  "parse_i64 s =
     (case s of
        c # cs \<Rightarrow>
          if c = CHR ''-'' then (if cs \<noteq> [] \<and> list_all is_digit cs then map_option (\<lambda>n. - int n) (parse_unsigned (2 ^ 63) cs) else None)
          else map_option int (parse_unsigned (2 ^ 63 - 1) s)
      | [] \<Rightarrow> None)"

definition numeric_detail :: "string \<Rightarrow> string \<Rightarrow> int option" where
  "numeric_detail details key =
     (case List.map_filter (\<lambda>field. case split_once (CHR ''='') field of
          None \<Rightarrow> None
        | Some (k, v) \<Rightarrow> if k = key then parse_i64 v else None) (split_whitespace details) of
        [] \<Rightarrow> None
      | n # _ \<Rightarrow> Some n)"

definition native_outcome_of :: "string \<Rightarrow> string \<Rightarrow> native_outcome" where
  "native_outcome_of name details =
     (let raw_status = numeric_detail details ''raw_status'';
          raw_error = numeric_detail details ''raw_error'';
          native = starts_with ''native.'' name;
          last_error = contains_text ''GetLastError'' name;
          ntstatus = (if contains_text ''Nt'' name \<or> starts_with ''timer.'' name
                      then (case raw_status of Some v \<Rightarrow> if - (2 ^ 31) \<le> v \<and> v < 2 ^ 31 then Some v else None | None \<Rightarrow> None)
                      else None);
          error = (if raw_error \<noteq> None then raw_error
                   else if last_error \<and> raw_status \<noteq> None then raw_status
                   else if native then raw_status else None);
          win32 = (if last_error \<or> raw_error \<noteq> None \<or> native \<and> ntstatus = None
                   then (case error of Some v \<Rightarrow> if 0 \<le> v \<and> v < 2 ^ 32 then Some (of_int v) else None | None \<Rightarrow> None)
                   else None)
      in \<lparr>nat_ntstatus = ntstatus, nat_win32 = win32,
          nat_requested_hns = map_option of_int (numeric_detail details ''requested_hns''),
          nat_selected_hns = map_option of_int (numeric_detail details ''selected_hns''),
          nat_effective_hns = map_option of_int (numeric_detail details ''effective_hns'')\<rparr>)"

section \<open>Labels\<close>

text \<open>Every table is a list of words and the label the first contained one gives.\<close>

fun first_label :: "('a \<Rightarrow> bool) \<Rightarrow> ('a list \<times> 'b) list \<Rightarrow> 'b \<Rightarrow> 'b" where
  "first_label has [] otherwise = otherwise"
| "first_label has ((ws, l) # rows) otherwise = (if list_ex has ws then l else first_label has rows otherwise)"

definition phase_words :: "(string list \<times> diagnostic_phase) list" where
  "phase_words =
     [([''handoff''], PhHandoff), ([''policy''], PhDecide), ([''duration'', ''pause''], PhTimer),
      ([''shutdown'', ''quit''], PhShutdown), ([''query'', ''observation''], PhObserve), ([''acquire'', ''request''], PhAcquire),
      ([''release'', ''stop''], PhRelease), ([''verification''], PhVerify), ([''config'', ''startup''], PhPersist),
      ([''window'', ''tray.status''], PhRender)]"

definition diagnostic_phase_of :: "string \<Rightarrow> diagnostic_phase" where
  "diagnostic_phase_of name = first_label (\<lambda>w. contains_text w name) phase_words PhComplete"

definition outcome_words :: "(string list \<times> diagnostic_outcome) list" where
  "outcome_words =
     [([''timedout'', ''timeout''], OutTimedOut), ([''suppressed''], OutSuppressed), ([''cancel''], OutCancelled),
      ([''unverified'', ''uncertain''], OutUnverified), ([''error'', ''failed''], OutFailed),
      ([''started'', ''pending''], OutInProgress)]"

definition diagnostic_outcome_of :: "string \<Rightarrow> string \<Rightarrow> diagnostic_outcome" where
  "diagnostic_outcome_of name details =
     first_label (\<lambda>w. contains_text w (to_ascii_lowercase (name @ '' '' @ details))) outcome_words OutCompleted"

definition diagnostic_source_of :: "string \<Rightarrow> diagnostic_source" where
  "diagnostic_source_of name =
     first_label (\<lambda>(anywhere, w). if anywhere then contains_text w name else starts_with w name)
       [([(True, ''power'')], SrcPowerEvent), ([(True, ''startup'')], SrcStartup), ([(True, ''pause'')], SrcPause),
        ([(True, ''resume'')], SrcResume), ([(True, ''handoff'')], SrcHandoff), ([(True, ''duration'')], SrcTimer),
        ([(True, ''shutdown''), (True, ''quit'')], SrcShutdown), ([(True, ''policy'')], SrcPolicy),
        ([(True, ''ownership'')], SrcOwnership), ([(False, ''native.''), (False, ''timer.'')], SrcNative),
        ([(True, ''tray.command'')], SrcTrayCommand)] SrcInternal"

section \<open>The record of a reset\<close>

text \<open>The details \<open>execute_reset\<close> records of the cleanup of a full reset.\<close>

definition reset_cleanup_details :: "nat \<Rightarrow> nat \<Rightarrow> bool \<Rightarrow> bool \<Rightarrow> string" where
  "reset_cleanup_details removed failed config_removed session_marker_removed =
     ''log_entries_removed='' @ dec removed @ '' log_entries_failed='' @ dec failed @ '' config_removed=''
     @ (if config_removed then ''true'' else ''false'') @ '' session_marker_removed=''
     @ (if session_marker_removed then ''true'' else ''false'')"

text \<open>The cleanup of a full reset is never recorded as completed, not even when every entry was removed: the name of
  the counter of failed entries holds the word that makes an event a failed one.\<close>

theorem reset_cleanup_never_completed:
  "diagnostic_outcome_of ''settings.reset.cleanup'' (reset_cleanup_details removed 0 True True) \<noteq> OutCompleted"
proof -
  have "contains_text ''failed'' (to_ascii_lowercase (''settings.reset.cleanup '' @ reset_cleanup_details removed 0 True True))"
    unfolding contains_text_iff
    by (intro exI [of _ "to_ascii_lowercase (''settings.reset.cleanup log_entries_removed='' @ dec removed @ '' log_entries_'')"]
        exI [of _ "to_ascii_lowercase (''='' @ dec 0 @ '' config_removed=true session_marker_removed=true'')"])
       (simp add: reset_cleanup_details_def to_ascii_lowercase_def ascii_lower_char_def)
  then show ?thesis by (simp add: diagnostic_outcome_of_def outcome_words_def)
qed

end
