(* ===== verification/Spec2Isabelle.thy ===== *)
theory Spec2Isabelle
  imports Policy Ownership Ipc Watchdog Pause Session Surface Server Engine Handlers Config Launcher Retention Cli Desk ManifestTool Layout Icon EventMap
begin

text \<open>
  Verification development of True Tick, a portable Windows program that owns a high timer resolution while
  policy allows it.

  \<^bold>\<open>The program.\<close> The tray application \<open>apps/true-tick\<close> decides from the power state, the configuration and
  the user's commands whether the process should hold a timer request, takes and releases it through
  \<open>crates/tick-ownership\<close> and \<open>crates/tick-platform-windows\<close>, and shows the state in its icon, menu and diagnostic window.
  The command line client \<open>apps/true-tick-cli\<close> controls it over a named pipe with the frames of \<open>crates/tick-ipc\<close>.
  Everything it does is recorded by \<open>crates/tick-diagnostics\<close> and written to daily logs and anomaly snapshots.
  \<open>apps/launcher\<close> verifies and starts one of two package slots; \<open>apps/manifest-tool\<close> produces the signed packages.

  \<^bold>\<open>The theories.\<close> They follow the crates and files; each opens with what it models.

  \<^item> Foundations: \<open>Prelude\<close> (words as the Rust integers, results as sums, printing, parsing, splitting and trimming),
    \<open>Text\<close> (byte strings, UTF-8, truncation).
  \<^item> Timer: \<open>Core\<close> (\<open>tick-core\<close>), \<open>Policy\<close> (\<open>tick-policy\<close>), \<open>Platform\<close> (\<open>tick-platform-windows\<close> over the two native
    calls), \<open>Ownership\<close> (\<open>tick-ownership\<close>: state machine, snapshot, controller). A platform is a record of operations;
    the locale \<open>platform_contract\<close> states what the controller relies on, \<open>tracked_platform\<close> what the Windows adapter adds,
    and \<open>wtp\<close> interprets both on the adapter.
  \<^item> Protocol: \<open>Ipc\<close> (checksum, tokens, frames, responses, rate limiter), \<open>Server\<close> (\<open>tray/ipc.rs\<close>, \<open>tray/ipc_queue.rs\<close>;
    locale \<open>bounded_fifo\<close>), \<open>Client\<close> and \<open>Cli\<close> (\<open>true-tick-cli\<close>).
  \<^item> Tray: \<open>Pause\<close> (presets, coordinator), \<open>Watchdog\<close>, \<open>Session\<close> (crash marker, shutdown gate; locales \<open>atomic_file\<close> and
    \<open>atomic_record\<close>), \<open>Surface\<close> (status, texts, command tables, quit decision), \<open>Icon\<close> (icon cache and registration),
    \<open>Engine\<close> (\<open>tray/tier.rs\<close>, \<open>tray/controller.rs\<close>, \<open>tray/schedule.rs\<close>: the mutually calling operations as bodies over
    a call function, closed with fuel), \<open>Handlers\<close> (timers, power messages, commands from the pipe), \<open>Quiet\<close> (invariants of
    the engine whatever it returns), \<open>Startup\<close> (\<open>tick-startup-windows\<close>, \<open>portable.rs\<close>), \<open>Desk\<close> (settings commands, resets,
    cleanup, window procedure, \<open>run\<close>), \<open>Config\<close> (\<open>config.rs\<close>).
  \<^item> Packages: \<open>Manifest\<close> (\<open>tick-crypto\<close>), \<open>Launcher\<close>, \<open>ManifestTool\<close>.
  \<^item> Diagnostics: \<open>Privacy\<close> (redaction), \<open>Diagnostics\<close> (event store and hash chain), \<open>Report\<close> (rows, CSV, TSV), \<open>Retention\<close>
    (log purge, snapshots), \<open>Logging\<close> (daily log and its writer thread), \<open>EventMap\<close> (labels of events).
  \<^item> Diagnostic window: \<open>Inspect\<close> (\<open>ui/diagnostic_window.rs\<close>, \<open>diagnostic_transfer.rs\<close>, \<open>diagnostic_grid.rs\<close>), \<open>Marquee\<close>
    (\<open>marquee.rs\<close>), \<open>Layout\<close> (\<open>diagnostic_layout.rs\<close>).
  \<^item> This theory: properties that span components, here the way of a command from the client to the tray.

  State is a record per component, passed through the operations; an operation that can fail returns a sum with the error
  on the left. The outcome of every operating system call is an argument: a function from the number of the call, or a
  record with one field per call. Files are maps or trees of bytes. What is not under the repository (SHA-256, Ed25519,
  the native timer calls, the Unicode tables) is a parameter, with the documented laws as hypotheses where a
  theorem needs them. Concurrency is a step relation over all interleavings: the writer thread of the log, the
  workers of the pipe server, the watchdog thread.

  \<^bold>\<open>What is shown.\<close>

  \<^item> Ownership: the recorded ownership agrees with what the kernel holds on every run; start ends owned only when
    verified, stop releases or keeps ownership unless a floor clamp discarded the interval; nothing is acquired during a
    pause; while fewer than three anomalies are seen, the engine's operations return with enough fuel and the first quit is
    posted only when the request is released.
  \<^item> Protocol: encoding and decoding of frames are inverse, corruption of a byte is detected, only a frame with the
    token reaches the queue, and a command given to the client arrives in the tray as the one that was meant, or its
    sender is told that it did not.
  \<^item> Packages: the launcher runs only an executable that the signed manifest names with its digest, or that the checksum
    list names when no manifest is seen; the release counter does not fall while its file can be checked; a package that was
    signed into its own directory verifies, and verification accepts exactly the authentic packages.
  \<^item> Data: configuration, status text and reports read back; saves are atomic; the store refines an unbounded log;
    the hash chain of every reachable store verifies; redaction removes exactly the found spans; no committed event is
    missing from the daily log; a timer request is verified and held, or refused without one left behind.
  \<^item> Surface: icon handles are owned by the cache and freed once, refreshes of the diagnostic window end, exports are
    all or nothing, and the parts of the window do not overlap from top to bottom.
  \<^item> Faults the model brought out are theorems too: for example rows written twice to the log, a first marquee band
    that is never erased, a highlight that leaves the chosen row, a replacement that loses its target, an exit with an
    unresolved release that is marked clean, a process that ends with the timer held after a verified cleanup, a signature or a
    release counter that a failing existence check makes the launcher skip, and a release in the quiescent tier that never
    returns.

  \<^bold>\<open>Bounds.\<close> The engine is closed with fuel: from ten calls on every operation returns, and more fuel does not
  change its result. The settle loop of the start runs three times, a backup name is searched 1025 times, a path is
  normalised in at most eight passes, the client polls the daemon 201 times; these are the bounds of the code. The event
  store is followed for fewer than \<open>2 ^ 62\<close> operations, so that its sequence numbers do not saturate. The layout is
  shown for resolutions up to a million dots per inch, where its arithmetic does not saturate.

  \<^bold>\<open>Not modelled.\<close> The drawing of menus, windows and controls, fonts and colours; the environment snapshot of the
  log; foreign function declarations; the process entry points around \<open>run\<close>; the experiment \<open>tick-multiclient\<close>;
  build scripts and tests. They have no state the modelled parts depend on, or only pass values to Windows.
\<close>

fun action_of_kind :: "schedule_action_kind \<Rightarrow> duration_action" where
  "action_of_kind KindStart = ActStart"
| "action_of_kind KindStop = ActStop"
| "action_of_kind KindPause = ActPause"

text \<open>C9: A command of the command line program reaches the tray unchanged, or its sender is told that it did not. The frame of
  a request that talks to the tray is decoded by the server exactly as the client built it. A status query is answered from
  the status snapshot and queues nothing. Every other command is queued behind the waiting ones with the verb and the payload
  as sent, and the sender gets the reply of the tray, or an error when none comes in time; it is not queued, and the sender gets a transport error, when the
  window is being torn down, when 64 requests wait already, or when the window cannot be notified, where requests that
  were queued in front of it are dropped up to the one with its verb and payload. The payload decodes to
  the interval, the action, the delay or the schedule id of the request, and is empty when the request has none.\<close>

theorem cli_command_reaches_tray:
  assumes "token_ok t" and "request_message r = Some (Ok (v, p))"
  shows "deserialize (serialize \<lparr>token = t, verb = v, payload = p\<rparr>) = Ok \<lparr>token = t, verb = v, payload = p\<rparr>
    \<and> dispatch_command \<lparr>token = t, verb = v, payload = p\<rparr> st ch teardown post_ok reply q
        = (if v = QueryStatus then (handle_query_status st, q)
           else if teardown \<or> 64 \<le> length q then (RespError (TransportIo WAIT_TIMEOUT), q)
           else if \<not> post_ok
           then (RespError (TransportIo (- 1)), pop_until v p (q @ [\<lparr>req_verb = v, req_payload = p, responder = ch\<rparr>]))
           else (recv_response reply, q @ [\<lparr>req_verb = v, req_payload = p, responder = ch\<rparr>]))
    \<and> (v = QueryStatus \<longleftrightarrow> (\<exists>json. r = CliStatus json))
    \<and> (case r of
         CliStart (Some i) \<Rightarrow> length p = 8 \<and> validate_interval_hns (u64_from_le p) = Ok i
       | CliSchedule kind s \<Rightarrow> length p = 5 \<and> ipc_schedule_action (hd p) = Some (action_of_kind kind) \<and> u32_from_le (tl p) = s
       | CliCancel (Some i) \<Rightarrow> length p = 4 \<and> u32_from_le p = i
       | _ \<Rightarrow> p = [])"
proof -
  have message: "case r of
         CliStart (Some i) \<Rightarrow> length p = 8 \<and> validate_interval_hns (u64_from_le p) = Ok i
       | CliSchedule kind s \<Rightarrow> length p = 5 \<and> ipc_schedule_action (hd p) = Some (action_of_kind kind) \<and> u32_from_le (tl p) = s
       | CliCancel (Some i) \<Rightarrow> length p = 4 \<and> u32_from_le p = i
       | _ \<Rightarrow> p = []"
  proof (cases r)
    case (CliSchedule kind s)
    then show ?thesis
      using assms(2) by (cases kind) (auto simp: encode_schedule_payload_def ipc_schedule_action_def)
  qed (use assms(2) in \<open>auto simp: acquire_payload_def encode_interval_payload_def validate_interval_hns_def map_sum_eq_Inr
        split: option.splits sum.splits if_splits\<close>)
  have verbs: "v = (case r of CliStatus _ \<Rightarrow> QueryStatus | CliStart _ \<Rightarrow> RequestAcquire | CliStop \<Rightarrow> RequestRelease
       | CliSchedule _ _ \<Rightarrow> ScheduleAction | _ \<Rightarrow> CancelSchedule)"
    using assms(2) by (cases r) (auto simp: map_sum_eq_Inr)
  have "length p \<le> 8"
    using message by (cases r) (auto split: option.splits)
  then have frame: "frame_ok \<lparr>token = t, verb = v, payload = p\<rparr>"
    using assms(1) by (simp add: frame_ok_def token_ok_def MAX_PAYLOAD_LEN_def)
  have "dispatch_command \<lparr>token = t, verb = v, payload = p\<rparr> st ch teardown post_ok reply q
      = (if v = QueryStatus then (handle_query_status st, q) else forward_to_ui_thread v p ch teardown post_ok reply q)"
    using message verbs assms(2)
    by (cases r) (auto simp: dispatch_command_def handle_request_acquire_def handle_schedule_action_def Let_def
        split: option.splits sum.splits)
  moreover have "forward_to_ui_thread v p ch teardown post_ok reply q
      = (if teardown \<or> 64 \<le> length q then (RespError (TransportIo WAIT_TIMEOUT), q)
         else if \<not> post_ok
         then (RespError (TransportIo (- 1)), pop_until v p (q @ [\<lparr>req_verb = v, req_payload = p, responder = ch\<rparr>]))
         else (recv_response reply, q @ [\<lparr>req_verb = v, req_payload = p, responder = ch\<rparr>]))"
    by (simp add: forward_to_ui_thread_def queue_push_def MAX_PENDING_IPC_COMMANDS_def)
  moreover have "v = QueryStatus \<longleftrightarrow> (\<exists>json. r = CliStatus json)"
    using verbs assms(2) by (cases r) auto
  ultimately show ?thesis
    using deserialize_serialize [OF frame] message by simp
qed

theorem cli_command_reaches_tray_witness:
  "deserialize (serialize \<lparr>token = sample_token, verb = ScheduleAction, payload = [3, 60, 0, 0, 0]\<rparr>)
     = Ok \<lparr>token = sample_token, verb = ScheduleAction, payload = [3, 60, 0, 0, 0]\<rparr>
   \<and> dispatch_command \<lparr>token = sample_token, verb = ScheduleAction, payload = [3, 60, 0, 0, 0]\<rparr> status_snapshot_new 7 False True
        (Reply (RespScheduled 1)) []
      = (RespScheduled 1, [\<lparr>req_verb = ScheduleAction, req_payload = [3, 60, 0, 0, 0], responder = 7\<rparr>])
   \<and> ipc_schedule_action 3 = Some ActPause \<and> u32_from_le [60, 0, 0, 0] = 60"
proof -
  have "token_ok sample_token" and message: "request_message (CliSchedule KindPause 60) = Some (Ok (ScheduleAction, [3, 60, 0, 0, 0]))"
    by (simp_all add: token_ok_def sample_token_def TOKEN_LEN_def) code_simp
  from cli_command_reaches_tray [OF this, of status_snapshot_new 7 False True "Reply (RespScheduled 1)" "[]"] show ?thesis
    by simp
qed

end
